(* ===== verification/Prelude.thy ===== *)
theory Prelude
  imports "HOL-Library.Word" "HOL-Library.Monad_Syntax"
begin

text \<open>
  The memory and integer vocabulary every other theory uses.

  A C buffer is a list of bytes, a pointer into it is an offset.  A value of type
  \<open>'a option\<close> is the outcome of running code: \<open>None\<close> is a failed \<open>assert\<close> or an access
  outside the buffer (undefined behaviour in C), \<open>Some\<close> is a normal return.  Error codes
  the program returns are ordinary values inside \<open>Some\<close>.  \<open>unsigned int\<close> is
  \<open>32 word\<close>, so its arithmetic wraps as in C.
\<close>

unbundle bit_operations_syntax

type_synonym byte = "8 word"
type_synonym u32 = "32 word"
type_synonym bytes = "byte list"

named_theorems mem_simps \<open>reading and writing of byte buffers\<close>
named_theorems u32_simps \<open>unsigned arithmetic that does not wrap\<close>

section \<open>Control: assertions and outcomes\<close>

definition require :: "bool \<Rightarrow> unit option" where
  "require b = (if b then Some () else None)"

lemma require_True [simp]: "require True = Some ()"
  by (simp add: require_def)

lemma require_False [simp]: "require False = None"
  by (simp add: require_def)

lemma require_eq_Some [simp]: "require b = Some u \<longleftrightarrow> b"
  by (simp add: require_def)

lemma require_bind_eq_Some [simp]:
  "(require b \<bind> f) = Some y \<longleftrightarrow> b \<and> f () = Some y"
  by (simp add: require_def)

text \<open>
  Partial correctness of such a sequence of steps: whatever it returns satisfies \<open>P\<close>.  The rules
  walk through a sequence one step at a time.
\<close>

definition yields :: "('a \<Rightarrow> bool) \<Rightarrow> 'a option \<Rightarrow> bool" where
  "yields P m \<longleftrightarrow> (\<forall>x. m = Some x \<longrightarrow> P x)"

named_theorems yields_intro

lemma yields_bind [yields_intro]: "(\<And>x. m = Some x \<Longrightarrow> yields P (f x)) \<Longrightarrow> yields P (Option.bind m f)"
  by (cases m) (simp_all add: yields_def)

lemma yields_if [yields_intro]:
  "(b \<Longrightarrow> yields P m) \<Longrightarrow> (\<not> b \<Longrightarrow> yields P m') \<Longrightarrow> yields P (if b then m else m')"
  by simp

lemma yields_prod [yields_intro]:
  "(\<And>a b. x = (a, b) \<Longrightarrow> yields P (f a b)) \<Longrightarrow> yields P (case x of (a, b) \<Rightarrow> f a b)"
  by (cases x) simp

lemma yields_option [yields_intro]:
  "(x = None \<Longrightarrow> yields P m) \<Longrightarrow> (\<And>a. x = Some a \<Longrightarrow> yields P (f a))
   \<Longrightarrow> yields P (case x of None \<Rightarrow> m | Some a \<Rightarrow> f a)"
  by (cases x) simp_all

lemma yields_let [yields_intro]: "(\<And>a. a = x \<Longrightarrow> yields P (f a)) \<Longrightarrow> yields P (let a = x in f a)"
  by simp

lemma yields_Some [yields_intro]: "P x \<Longrightarrow> yields P (Some x)"
  by (simp add: yields_def)

lemma yieldsD: "yields P m \<Longrightarrow> m = Some x \<Longrightarrow> P x"
  by (simp add: yields_def)

lemma bind_option_Some_iff:
  "(m \<bind> f) = Some y \<longleftrightarrow> (\<exists>x. m = Some x \<and> f x = Some y)"
  by (cases m) auto

section \<open>Buffers and arrays\<close>

text \<open>
  The same operations serve byte buffers and arrays of structs: a block of \<open>n\<close> elements
  is read or overwritten as a whole, or the access is out of range.
\<close>

definition mem_read :: "'a list \<Rightarrow> nat \<Rightarrow> nat \<Rightarrow> 'a list option" where
  "mem_read b off n =
     (if off + n \<le> length b then Some (take n (drop off b)) else None)"

definition mem_write :: "'a list \<Rightarrow> nat \<Rightarrow> 'a list \<Rightarrow> 'a list option" where
  "mem_write b off xs =
     (if off + length xs \<le> length b
      then Some (take off b @ xs @ drop (off + length xs) b) else None)"

text \<open>\<open>memmove\<close> (and \<open>memcpy\<close>) within one buffer; the source is read first.\<close>

definition mem_move :: "'a list \<Rightarrow> nat \<Rightarrow> nat \<Rightarrow> nat \<Rightarrow> 'a list option" where
  "mem_move b dst src n = do { xs \<leftarrow> mem_read b src n; mem_write b dst xs }"

definition mem_set :: "'a list \<Rightarrow> nat \<Rightarrow> 'a \<Rightarrow> nat \<Rightarrow> 'a list option" where
  "mem_set b off v n = mem_write b off (replicate n v)"

definition arr_get :: "'a list \<Rightarrow> nat \<Rightarrow> 'a option" where
  "arr_get xs i = (if i < length xs then Some (xs ! i) else None)"

definition arr_set :: "'a list \<Rightarrow> nat \<Rightarrow> 'a \<Rightarrow> 'a list option" where
  "arr_set xs i x = (if i < length xs then Some (xs[i := x]) else None)"

lemma arr_get_ok [simp]: "i < length xs \<Longrightarrow> arr_get xs i = Some (xs ! i)"
  by (simp add: arr_get_def)

lemma arr_set_ok [simp]: "i < length xs \<Longrightarrow> arr_set xs i x = Some (xs[i := x])"
  by (simp add: arr_set_def)

lemma arr_get_eq_Some: "arr_get xs i = Some x \<longleftrightarrow> i < length xs \<and> x = xs ! i"
  by (auto simp: arr_get_def)

lemma arr_set_eq_Some: "arr_set xs i x = Some ys \<longleftrightarrow> i < length xs \<and> ys = xs[i := x]"
  by (auto simp: arr_set_def)

lemma mem_read_length: "mem_read b off n = Some xs \<Longrightarrow> length xs = n"
  by (auto simp: mem_read_def split: if_splits)

lemma mem_write_length: "mem_write b off xs = Some b' \<Longrightarrow> length b' = length b"
  by (auto simp: mem_write_def split: if_splits)

lemma mem_read_ok [mem_simps]:
  "off + n \<le> length b \<Longrightarrow> mem_read b off n = Some (take n (drop off b))"
  by (simp add: mem_read_def)

lemma mem_write_ok [mem_simps]:
  "off + length xs \<le> length b
   \<Longrightarrow> mem_write b off xs = Some (take off b @ xs @ drop (off + length xs) b)"
  by (simp add: mem_write_def)

lemma mem_read_eq_Some:
  "mem_read b off n = Some xs \<longleftrightarrow> off + n \<le> length b \<and> xs = take n (drop off b)"
  by (auto simp: mem_read_def)

lemma mem_write_eq_Some:
  "mem_write b off xs = Some b' \<longleftrightarrow>
     off + length xs \<le> length b \<and> b' = take off b @ xs @ drop (off + length xs) b"
  by (auto simp: mem_write_def)

text \<open>What a write does to a later read: the bytes written, or the bytes before it.\<close>

lemma mem_read_write_same:
  "mem_write b off xs = Some b' \<Longrightarrow> mem_read b' off (length xs) = Some xs"
  by (auto simp: mem_write_def mem_read_def split: if_splits)

lemma mem_read_write_before:
  "mem_write b off xs = Some b' \<Longrightarrow> p + n \<le> off \<Longrightarrow> mem_read b' p n = mem_read b p n"
  by (auto simp: mem_write_def mem_read_def drop_take split: if_splits)

lemma mem_read_write_after:
  assumes "mem_write b off xs = Some b'" and "off + length xs \<le> p"
  shows "mem_read b' p n = mem_read b p n"
proof (cases "p + n \<le> length b")
  case True
  with assms have "drop p b' = drop p b"
    by (auto simp: mem_write_def drop_Cons' split: if_splits)
  with True assms show ?thesis
    by (simp add: mem_read_def mem_write_length [OF assms(1)])
next
  case False
  then show ?thesis by (simp add: mem_read_def mem_write_length [OF assms(1)])
qed

lemma mem_read_write_disjoint:
  assumes "mem_write b off xs = Some b'"
    and "p + n \<le> off \<or> off + length xs \<le> p"
  shows "mem_read b' p n = mem_read b p n"
  using assms mem_read_write_before mem_read_write_after by blast

text \<open>A read of part of a region that was written or read as a whole.\<close>

lemma mem_read_sub:
  assumes "mem_read b off n = Some xs" and "i + k \<le> n"
  shows "mem_read b (off + i) k = Some (take k (drop i xs))"
proof -
  from assms have "xs = take n (drop off b)" and len: "off + n \<le> length b"
    by (auto simp: mem_read_eq_Some)
  then have "take k (drop i xs) = take k (take (n - i) (drop (off + i) b))"
    by (simp add: drop_take add.commute)
  also have "\<dots> = take k (drop (off + i) b)"
    using assms(2) by (simp add: min_def)
  finally show ?thesis
    using assms(2) len by (simp add: mem_read_def)
qed

text \<open>Opening and closing a gap in an array, as the code does with \<open>memmove\<close>.\<close>

lemma mem_move_gap:
  assumes "i < length xs"
  shows "do { ys \<leftarrow> mem_move xs (i + 1) i (length xs - 1 - i); arr_set ys i x } =
         Some (take i xs @ x # take (length xs - 1 - i) (drop i xs))"
proof -
  have "mem_move xs (i + 1) i (length xs - 1 - i) =
      Some (take (i + 1) xs @ take (length xs - 1 - i) (drop i xs))"
    using assms by (simp add: mem_move_def mem_simps)
  moreover have "take (Suc i) xs = take i xs @ [xs ! i]"
    using assms by (simp add: take_Suc_conv_app_nth)
  ultimately show ?thesis
    using assms by (simp add: arr_set_def list_update_append)
qed

lemma mem_move_close:
  assumes "i < length xs"
  shows "do { ys \<leftarrow> mem_move xs i (i + 1) (length xs - 1 - i); arr_set ys (length xs - 1) x } =
         Some (take i xs @ drop (i + 1) xs @ [x])"
proof -
  have "mem_move xs i (i + 1) (length xs - 1 - i) =
      Some (take i xs @ drop (i + 1) xs @ drop (length xs - 1) xs)"
    using assms by (simp add: mem_move_def mem_simps)
  moreover have "drop (length xs - 1) xs = [last xs]"
    using assms by (cases xs rule: rev_cases) auto
  moreover have "\<not> length xs - Suc 0 < i" using assms by linarith
  ultimately show ?thesis
    using assms by (simp add: arr_set_def list_update_append)
qed

section \<open>Slices and patches\<close>

text \<open>The total versions of a block read and a block write, for accesses known to be in range.\<close>

definition slice :: "'a list \<Rightarrow> nat \<Rightarrow> nat \<Rightarrow> 'a list" where
  "slice b off n = take n (drop off b)"

definition patch :: "'a list \<Rightarrow> nat \<Rightarrow> 'a list \<Rightarrow> 'a list" where
  "patch b off xs = take off b @ xs @ drop (off + length xs) b"

lemma mem_read_slice: "off + n \<le> length b \<Longrightarrow> mem_read b off n = Some (slice b off n)"
  by (simp add: mem_read_def slice_def)

lemma mem_write_patch: "off + length xs \<le> length b \<Longrightarrow> mem_write b off xs = Some (patch b off xs)"
  by (simp add: mem_write_def patch_def)

lemma length_slice [simp]: "off + n \<le> length b \<Longrightarrow> length (slice b off n) = n"
  by (simp add: slice_def)

lemma length_patch [simp]: "off + length xs \<le> length b \<Longrightarrow> length (patch b off xs) = length b"
  by (simp add: patch_def)

lemma slice_patch_same [simp]:
  "off + length xs \<le> length b \<Longrightarrow> n = length xs \<Longrightarrow> slice (patch b off xs) off n = xs"
  by (simp add: slice_def patch_def)

lemma slice_patch_disjoint:
  assumes "off + length xs \<le> length b" and "p + n \<le> off \<or> off + length xs \<le> p"
  shows "slice (patch b off xs) p n = slice b p n"
proof (cases "p + n \<le> off")
  case True
  with assms(1) show ?thesis by (simp add: slice_def patch_def drop_take)
next
  case False
  with assms have "drop p (patch b off xs) = drop p b"
    by (auto simp: patch_def drop_Cons')
  then show ?thesis by (simp add: slice_def)
qed

lemma slice_patch_inside:
  assumes "off + length xs \<le> length b" and "off \<le> p" and "p + n \<le> off + length xs"
  shows "slice (patch b off xs) p n = slice xs (p - off) n"
  using assms by (simp add: slice_def patch_def)

lemma slice_slice: "i + k \<le> n \<Longrightarrow> slice (slice b off n) i k = slice b (off + i) k"
  by (simp add: slice_def drop_take add.commute min_def)

lemma slice_full [simp]: "slice xs 0 (length xs) = xs"
  by (simp add: slice_def)

lemma slice_eq_mem_read: "off + n \<le> length b \<Longrightarrow> slice b off n = the (mem_read b off n)"
  by (simp add: mem_read_slice)

section \<open>Unsigned arithmetic\<close>

lemma unat_add_ok [u32_simps]:
  fixes a b :: u32
  shows "unat a + unat b < 4294967296 \<Longrightarrow> unat (a + b) = unat a + unat b"
  using unat_add_lem [of a b] by simp

lemma unat_sub_ok [u32_simps]:
  fixes a b :: u32
  shows "unat b \<le> unat a \<Longrightarrow> unat (a - b) = unat a - unat b"
  by (simp add: unat_sub word_le_nat_alt)

lemma unat_mult_ok [u32_simps]:
  fixes a b :: u32
  shows "unat a * unat b < 4294967296 \<Longrightarrow> unat (a * b) = unat a * unat b"
  using unat_mult_lem [of a b] by simp

lemma unat_u32_of_nat [u32_simps]:
  "n < 4294967296 \<Longrightarrow> unat (of_nat n :: u32) = n"
  by (simp add: unat_of_nat)

lemma u32_bound: "unat (a :: u32) < 4294967296"
  using unsigned_less [of a] by simp

lemma u32_eqI: "unat (a :: u32) = unat b \<Longrightarrow> a = b"
  by (rule unsigned_word_eqI)

lemma u32_pos_iff: "0 < (a :: u32) \<longleftrightarrow> 0 < unat a"
  by (simp add: word_less_nat_alt)

lemma u32_pred_less: "0 < (n :: u32) \<Longrightarrow> unat (n - 1) < unat n"
  by (simp add: u32_pos_iff unat_sub_ok Suc_leI)

text \<open>
  The helper \<open>static int min(int, int)\<close> that several files define: its unsigned
  arguments are converted to \<open>int\<close>, so the comparison is signed.
\<close>

definition c_min :: "u32 \<Rightarrow> u32 \<Rightarrow> u32" where
  "c_min left right = (if left <s right then left else right)"

lemma uint_less_iff_unat: "uint (a :: u32) < numeral k \<longleftrightarrow> unat a < numeral k"
  by (simp add: nat_less_iff flip: nat_uint_eq)

lemma sint_u32_small: "unat (a :: u32) < 2147483648 \<Longrightarrow> sint a = uint a"
  by (simp add: sint_uint signed_take_bit_int_eq_self_iff uint_less_iff_unat
      order_trans [OF _ uint_ge_0])

lemma word_sless_u32_small:
  fixes a b :: u32
  assumes "unat a < 2147483648" and "unat b < 2147483648"
  shows "a <s b \<longleftrightarrow> unat a < unat b"
  using assms by (simp add: word_sless_alt sint_u32_small flip: word_less_def word_less_nat_alt)

lemma unat_c_min:
  assumes "unat a < 2147483648" and "unat b < 2147483648"
  shows "unat (c_min a b) = min (unat a) (unat b)"
  using word_sless_u32_small [OF assms] by (simp add: c_min_def min_def)

end
