(* ===== verification/Serialization.thy ===== *)
theory Serialization
  imports Prelude
begin

text \<open>
  \<open>serialization.c\<close>: the four-byte little-endian encoding of an \<open>unsigned int\<close>.  The
  structs the program overlays on page memory are read and written by the compiler in the
  same byte order on the little-endian hosts it supports, so the overlays use these
  functions too.
\<close>

definition ser_write_32bit_le :: "u32 \<Rightarrow> bytes" where
  "ser_write_32bit_le val = map (\<lambda>i. ucast (drop_bit (i * 8) val AND 0xff)) [0..<4]"

definition ser_read_32bit_le :: "bytes \<Rightarrow> u32" where
  "ser_read_32bit_le byte_buffer =
     foldl (\<lambda>val i. val OR push_bit (i * 8) (ucast (byte_buffer ! i))) 0 [0..<4]"

text \<open>The same on memory: the value at an offset, and the buffer after a store there.\<close>

definition mem_read32 :: "bytes \<Rightarrow> nat \<Rightarrow> u32 option" where
  "mem_read32 b off = map_option ser_read_32bit_le (mem_read b off 4)"

definition mem_write32 :: "bytes \<Rightarrow> nat \<Rightarrow> u32 \<Rightarrow> bytes option" where
  "mem_write32 b off v = mem_write b off (ser_write_32bit_le v)"

lemma upt_0_4: "[0..<4] = [0, 1, 2, 3 :: nat]"
  by (simp add: upt_rec)

lemma length_ser_write [simp]: "length (ser_write_32bit_le v) = 4"
  by (simp add: ser_write_32bit_le_def)

lemma ser_write_bytes:
  "ser_write_32bit_le v =
     [ucast v, ucast (drop_bit 8 v), ucast (drop_bit 16 v), ucast (drop_bit 24 v)]"
proof -
  have mask: "(0xff :: u32) = mask 8"
    by (simp add: mask_eq_exp_minus_1)
  show ?thesis unfolding ser_write_32bit_le_def upt_0_4 mask
    by (simp, intro conjI bit_word_eqI) (simp_all add: bit_simps)
qed

lemma ser_read_bytes:
  "ser_read_32bit_le [a, b, c, d] =
     ucast a OR push_bit 8 (ucast b) OR push_bit 16 (ucast c) OR push_bit 24 (ucast d)"
  by (simp add: ser_read_32bit_le_def upt_0_4 or.assoc)

lemma bit_ser_read:
  "bit (ser_read_32bit_le [a, b, c, d]) n \<longleftrightarrow>
     (if n < 8 then bit a n else if n < 16 then bit b (n - 8)
      else if n < 24 then bit c (n - 16) else n < 32 \<and> bit d (n - 24))"
  unfolding ser_read_bytes
  by (auto simp: bit_simps not_less dest: bit_imp_le_length)

text \<open>Reading back what was written, and writing back what was read.\<close>

lemma ser_read_write [simp]: "ser_read_32bit_le (ser_write_32bit_le v) = v"
  unfolding ser_write_bytes
  by (rule bit_word_eqI) (auto simp: bit_ser_read bit_simps)

lemma ser_write_read:
  assumes "length bs = 4"
  shows "ser_write_32bit_le (ser_read_32bit_le bs) = bs"
proof -
  obtain a b c d where bs: "bs = [a, b, c, d]"
    using assms by (auto simp: numeral_eq_Suc length_Suc_conv)
  show ?thesis unfolding bs ser_write_bytes
    by (simp, intro conjI bit_word_eqI) (auto simp: bit_ser_read bit_simps dest: bit_imp_le_length)
qed

lemma ser_write_inj: "ser_write_32bit_le v = ser_write_32bit_le w \<Longrightarrow> v = w"
  by (metis ser_read_write)

lemma mem_read32_ok [mem_simps]:
  "off + 4 \<le> length b \<Longrightarrow> mem_read32 b off = Some (ser_read_32bit_le (take 4 (drop off b)))"
  by (simp add: mem_read32_def mem_read_def)

lemma mem_write32_eq_Some:
  "mem_write32 b off v = Some b' \<longleftrightarrow> off + 4 \<le> length b \<and>
     b' = take off b @ ser_write_32bit_le v @ drop (off + 4) b"
  by (simp add: mem_write32_def mem_write_eq_Some)

lemma mem_read32_write32_same:
  "mem_write32 b off v = Some b' \<Longrightarrow> mem_read32 b' off = Some v"
  using mem_read_write_same [of b off "ser_write_32bit_le v" b']
  by (simp add: mem_write32_def mem_read32_def)

lemma mem_read32_write_disjoint:
  "mem_write b off xs = Some b' \<Longrightarrow> p + 4 \<le> off \<or> off + length xs \<le> p
   \<Longrightarrow> mem_read32 b' p = mem_read32 b p"
  by (simp add: mem_read32_def mem_read_write_disjoint)

lemma mem_read32_write32_disjoint:
  "mem_write32 b off v = Some b' \<Longrightarrow> p + 4 \<le> off \<or> off + 4 \<le> p
   \<Longrightarrow> mem_read32 b' p = mem_read32 b p"
  by (simp add: mem_write32_def mem_read32_write_disjoint)

end
