(* ===== verification/Page.thy ===== *)
theory Page
  imports Serialization
begin

text \<open>
  Pages and their on-disk metadata: \<open>pager_e.h\<close>, \<open>page_defs.h\<close>, \<open>pagemeta.c\<close> and
  \<open>page.c\<close>.  The buffer of a page is \<open>page_mem\<close>, the block \<open>malloc\<close> returned; the C field
  \<open>page_buffer\<close> points behind the metadata, at offset \<open>page_buffer_off\<close> of \<open>page_mem\<close>.
\<close>

datatype pager_e =
    PAGER_OK
  | PAGER_ERR_PAGE_PERSISTENCE_UNKNOWN
  | PAGER_ERR_CACHE_MISS
  | PAGER_ERR_NO_FREE_PAGE
  | PAGER_ERR_NO_MEM
  | PAGER_ERR_NIF
  | PAGER_UNK_ERR
  | PAGER_OPEN_ERR
  | PAGER_SEEK_ERR
  | PAGER_READ_ERR
  | PAGER_WRITE_ERR

definition PAGE_CREATE_NEW_PAGE :: u32 where
  "PAGE_CREATE_NEW_PAGE = 0"

record page_selector =
  sel_page_id :: u32

record page =
  page_id :: u32
  page_size :: u32
  page_status :: pager_e
  page_mem :: bytes

record page_metadata =
  is_free :: bool
  next_free_page :: u32
  page_number :: u32

section \<open>Metadata\<close>

definition pagemeta_size :: nat where
  "pagemeta_size = 1 + 4 + 4 + 3"

definition pagemeta_adjust_buffer :: "nat \<Rightarrow> nat" where
  "pagemeta_adjust_buffer buf = buf + pagemeta_size"

definition pagemeta_deadjust_buffer :: "nat \<Rightarrow> nat" where
  "pagemeta_deadjust_buffer buf = buf - pagemeta_size"

definition page_buffer_off :: nat where
  "page_buffer_off = pagemeta_adjust_buffer 0"

definition pagemeta_write :: "page \<Rightarrow> page_metadata \<Rightarrow> page option" where
  "pagemeta_write page meta =
     (let buffer = pagemeta_deadjust_buffer page_buffer_off in
      do {
        m1 \<leftarrow> arr_set (page_mem page) buffer (if is_free meta then 0xCC else 0xAF);
        m2 \<leftarrow> mem_write32 m1 (buffer + 1) (next_free_page meta);
        m3 \<leftarrow> mem_write32 m2 (buffer + 5) (page_number meta);
        Some (page\<lparr>page_mem := m3\<rparr>)
      })"

definition pagemeta_read :: "page \<Rightarrow> page_metadata option" where
  "pagemeta_read page =
     (let buffer = pagemeta_deadjust_buffer page_buffer_off in
      do {
        b \<leftarrow> arr_get (page_mem page) buffer;
        nf \<leftarrow> mem_read32 (page_mem page) (buffer + 1);
        pn \<leftarrow> mem_read32 (page_mem page) (buffer + 5);
        Some \<lparr>is_free = (b \<noteq> 0xAF), next_free_page = nf, page_number = pn\<rparr>
      })"

definition pagemeta_memcpy_page :: "page \<Rightarrow> page \<Rightarrow> u32 \<Rightarrow> page option" where
  "pagemeta_memcpy_page dst src disk_page_size =
     do {
       xs \<leftarrow> mem_read (page_mem src) (pagemeta_deadjust_buffer page_buffer_off)
              (unat disk_page_size);
       m \<leftarrow> mem_write (page_mem dst) (pagemeta_deadjust_buffer page_buffer_off) xs;
       Some (dst\<lparr>page_mem := m\<rparr>)
     }"

definition pagemeta_memset_page :: "page \<Rightarrow> byte \<Rightarrow> u32 \<Rightarrow> page option" where
  "pagemeta_memset_page p val disk_page_size =
     do {
       m \<leftarrow> mem_set (page_mem p) (pagemeta_deadjust_buffer page_buffer_off) val
              (unat disk_page_size);
       Some (p\<lparr>page_mem := m\<rparr>)
     }"

section \<open>Page objects\<close>

definition pager_reselect :: "page_selector \<Rightarrow> u32 \<Rightarrow> page_selector" where
  "pager_reselect selector pid = selector\<lparr>sel_page_id := pid\<rparr>"

text \<open>
  \<open>pager_page_init\<close> takes the two sizes of the pager.  The content of a fresh \<open>malloc\<close>
  block is indeterminate; the \<open>junk\<close> argument stands for it and is overwritten.
\<close>

definition pager_page_init :: "u32 \<Rightarrow> u32 \<Rightarrow> bytes \<Rightarrow> u32 \<Rightarrow> page option" where
  "pager_page_init disk_page_size psize junk pid =
     pagemeta_memset_page
       \<lparr>page_id = pid, page_size = psize,
        page_status = PAGER_ERR_PAGE_PERSISTENCE_UNKNOWN, page_mem = junk\<rparr>
       0 disk_page_size"

definition page_create_sized :: "u32 \<Rightarrow> u32 \<Rightarrow> (pager_e \<times> page) option" where
  "page_create_sized disk_page_size psize =
     do {
       p \<leftarrow> pager_page_init disk_page_size psize
              (replicate (unat disk_page_size) 0) PAGE_CREATE_NEW_PAGE;
       Some (PAGER_OK, p)
     }"

lemmas page_offset_defs =
  page_buffer_off_def pagemeta_adjust_buffer_def pagemeta_deadjust_buffer_def pagemeta_size_def

lemma page_offsets [simp]:
  "page_buffer_off = 12"
  "pagemeta_deadjust_buffer 12 = 0"
  "pagemeta_size = 12"
  by (simp_all add: page_offset_defs)

text \<open>The content of \<open>junk\<close> does not matter.\<close>

lemma pager_page_init_eq:
  "length junk = unat d \<Longrightarrow>
   pager_page_init d s junk pid =
     Some \<lparr>page_id = pid, page_size = s, page_status = PAGER_ERR_PAGE_PERSISTENCE_UNKNOWN,
           page_mem = replicate (unat d) 0\<rparr>"
  by (simp add: pager_page_init_def pagemeta_memset_page_def mem_set_def mem_simps)

lemma page_create_sized_eq:
  "page_create_sized d s =
     Some (PAGER_OK, \<lparr>page_id = 0, page_size = s,
       page_status = PAGER_ERR_PAGE_PERSISTENCE_UNKNOWN, page_mem = replicate (unat d) 0\<rparr>)"
  by (simp add: page_create_sized_def pager_page_init_eq PAGE_CREATE_NEW_PAGE_def)

lemma pagemeta_memcpy_eq:
  "length (page_mem src) = unat d \<Longrightarrow> length (page_mem dst) = unat d \<Longrightarrow>
   pagemeta_memcpy_page dst src d = Some (dst\<lparr>page_mem := page_mem src\<rparr>)"
  by (simp add: pagemeta_memcpy_page_def mem_simps)

text \<open>
  Metadata of a buffer: the decoded first nine bytes, and the buffer with new metadata.
\<close>

definition meta_of :: "bytes \<Rightarrow> page_metadata" where
  "meta_of m = \<lparr>is_free = (m ! 0 \<noteq> 0xAF),
     next_free_page = ser_read_32bit_le (take 4 (drop 1 m)),
     page_number = ser_read_32bit_le (take 4 (drop 5 m))\<rparr>"

definition with_meta :: "page_metadata \<Rightarrow> bytes \<Rightarrow> bytes" where
  "with_meta meta m =
     (if is_free meta then 0xCC else 0xAF) # ser_write_32bit_le (next_free_page meta)
       @ ser_write_32bit_le (page_number meta) @ drop 9 m"

lemma pagemeta_read_eq:
  "9 \<le> length (page_mem p) \<Longrightarrow> pagemeta_read p = Some (meta_of (page_mem p))"
  by (auto simp: pagemeta_read_def Let_def meta_of_def mem_simps arr_get_def)

lemma length_with_meta [simp]: "9 \<le> length m \<Longrightarrow> length (with_meta meta m) = length m"
  by (simp add: with_meta_def)

lemma pagemeta_write_eq:
  assumes "9 \<le> length (page_mem p)"
  shows "pagemeta_write p meta = Some (p\<lparr>page_mem := with_meta meta (page_mem p)\<rparr>)"
proof -
  obtain b0 rest where m: "page_mem p = b0 # rest" and "8 \<le> length rest"
    using assms by (cases "page_mem p") auto
  then show ?thesis
    by (simp add: pagemeta_write_def Let_def with_meta_def mem_write32_def mem_write_def)
qed

lemma meta_of_with_meta [simp]: "meta_of (with_meta meta m) = meta"
  by (simp add: meta_of_def with_meta_def)

lemma drop_with_meta: "9 \<le> n \<Longrightarrow> drop n (with_meta meta m) = drop n m"
  by (simp add: with_meta_def drop_Cons')

lemma with_meta_with_meta [simp]: "with_meta a (with_meta b m) = with_meta a m"
  by (simp add: with_meta_def)

end
