(* ===== verification/BTreeDefs.thy ===== *)
theory BTreeDefs
  imports Page
begin

text \<open>
  \<open>btree_defs.h\<close>: the error codes, the two structs that overlay a page, and the descriptors of
  nodes, indices and breadcrumbs.  Pointers into a page are offsets into its
  \<open>page_mem\<close>.
\<close>

datatype btree_e =
    BTREE_ERR_INVALID_INVALID
  | BTREE_OK
  | BTREE_ERR_INVALID_PAGE_SIZE_TOO_SMALL
  | BTREE_ERR_NODE_NOT_ENOUGH_SPACE
  | BTREE_ERR_KEY_NOT_FOUND
  | BTREE_ERR_CURSOR_NO_PARENT
  | BTREE_ERR_CURSOR_NO_SIBLING
  | BTREE_ERR_CURSOR_DEPTH_EXCEEDED
  | BTREE_ERR_CORRUPT_CELL
  | BTREE_ERR_CANNOT_MERGE
  | BTREE_ERR_PARENT_DEFICIENT
  | BTREE_ERR_UNDERFLOW
  | BTREE_ERR_PAGING
  | BTREE_ERR_BUFFER_TOO_SMALL
  | BTREE_ERR_NO_MEM
  | BTREE_ERR_ITER_DONE
  | BTREE_NEED_ROOT_INIT
  | BTREE_ERR_UNK
  | BTREE_NEED_ALLOC
  | BTREE_NEED_PAGE

definition BTREE_HEADER_SIZE :: u32 where
  "BTREE_HEADER_SIZE = 100"

text \<open>
  \<open>struct BTreePageHeader\<close>: two \<open>char\<close> fields, two bytes of padding, four \<open>u32\<close> fields.
  The offsets of the fields and the size of the struct.
\<close>

definition hdr_is_leaf :: nat where "hdr_is_leaf = 0"
definition hdr_is_root :: nat where "hdr_is_root = 1"
definition hdr_free_heap :: nat where "hdr_free_heap = 4"
definition hdr_num_keys :: nat where "hdr_num_keys = 8"
definition hdr_right_child :: nat where "hdr_right_child = 12"
definition hdr_cell_high_water_offset :: nat where "hdr_cell_high_water_offset = 16"
definition sizeof_BTreePageHeader :: nat where "sizeof_BTreePageHeader = 20"

text \<open>\<open>struct BTreePageKey\<close>: three \<open>u32\<close> fields.\<close>

record page_key =
  pk_key :: u32
  pk_cell_offset :: u32
  pk_flags :: u32

definition sizeof_BTreePageKey :: nat where "sizeof_BTreePageKey = 12"

lemmas layout_defs =
  hdr_is_leaf_def hdr_is_root_def hdr_free_heap_def hdr_num_keys_def hdr_right_child_def
  hdr_cell_high_water_offset_def sizeof_BTreePageHeader_def sizeof_BTreePageKey_def

text \<open>
  A node holds its page; \<open>node_header\<close> is the offset of the header in the page's memory.
  The keys start right behind the header.
\<close>

record btree_node =
  node_page_number :: u32
  node_header :: nat
  node_page :: page

datatype key_list_index_mode_e = KLIM_END | KLIM_RIGHT_CHILD | KLIM_INDEX

record child_list_index =
  cli_mode :: key_list_index_mode_e
  cli_index :: u32

record insertion_index =
  ii_mode :: key_list_index_mode_e
  ii_index :: u32

record cursor_breadcrumb =
  cb_key_index :: child_list_index
  cb_page_id :: u32

datatype btree_type_e = BTREE_TBL | BTREE_INDEX

text \<open>\<open>btpage_err\<close> of \<open>btree_utils.c\<close>.\<close>

definition btpage_err :: "pager_e \<Rightarrow> btree_e" where
  "btpage_err err =
     (case err of
        PAGER_OK \<Rightarrow> BTREE_OK
      | PAGER_ERR_NO_MEM \<Rightarrow> BTREE_ERR_NO_MEM
      | _ \<Rightarrow> BTREE_ERR_PAGING)"

lemma btpage_err_OK [simp]: "btpage_err err = BTREE_OK \<longleftrightarrow> err = PAGER_OK"
  by (cases err) (simp_all add: btpage_err_def)

lemma btpage_err_PAGER_OK [simp]: "btpage_err PAGER_OK = BTREE_OK"
  by simp

end
