(* ===== verification/BufferWriter.thy ===== *)
theory BufferWriter
  imports Serialization
begin

text \<open>
  \<open>buffer_writer.c\<close>: sequential writing to and reading from a region of memory.  The memory is
  passed along; \<open>bw_head\<close> is the offset of the write head in it.  The callbacks the program
  installs are the two writers and the one reader of this file.
\<close>

datatype writer_t = BW_WRITE_LR | BW_WRITE_RL

record buffer_writer =
  bw_head :: nat
  bw_bytes_written :: u32
  bw_buffer :: nat
  bw_buffer_size :: u32
  bw_write :: writer_t

datatype reader_t = BW_READ_LR

record buffer_reader =
  br_head :: nat
  br_bytes_read :: u32
  br_buffer :: nat
  br_buffer_size :: u32
  br_read :: reader_t

definition bw_write_lr ::
  "buffer_writer \<Rightarrow> bytes \<Rightarrow> bytes \<Rightarrow> u32 \<Rightarrow> (u32 \<times> bytes \<times> buffer_writer) option" where
  "bw_write_lr writer m data data_size =
     (if bw_bytes_written writer + data_size \<le> bw_buffer_size writer then do {
        xs \<leftarrow> mem_read data 0 (unat data_size);
        m \<leftarrow> mem_write m (bw_head writer) xs;
        Some (data_size, m,
              writer\<lparr>bw_head := bw_head writer + unat data_size,
                     bw_bytes_written := bw_bytes_written writer + data_size\<rparr>)
      } else Some (0, m, writer))"

text \<open>The bytes read are returned; the caller stores them in its buffer.\<close>

definition bw_read_lr ::
  "buffer_reader \<Rightarrow> bytes \<Rightarrow> u32 \<Rightarrow> (bytes \<times> buffer_reader) option" where
  "bw_read_lr reader m buffer_size =
     (if br_buffer_size reader - br_bytes_read reader = 0 then Some ([], reader)
      else (let read_bytes = c_min buffer_size (br_buffer_size reader - br_bytes_read reader) in do {
        xs \<leftarrow> mem_read m (br_head reader) (unat read_bytes);
        Some (xs, reader\<lparr>br_head := br_head reader + unat read_bytes,
                         br_bytes_read := br_bytes_read reader + read_bytes\<rparr>)
      }))"

definition bw_write_rl ::
  "buffer_writer \<Rightarrow> bytes \<Rightarrow> bytes \<Rightarrow> u32 \<Rightarrow> (u32 \<times> bytes \<times> buffer_writer) option" where
  "bw_write_rl writer m data data_size =
     (if bw_bytes_written writer + data_size < bw_buffer_size writer then do {
        require (unat data_size \<le> bw_head writer);
        (let head = bw_head writer - unat data_size in do {
           xs \<leftarrow> mem_read data 0 (unat data_size);
           m \<leftarrow> mem_write m head xs;
           Some (data_size, m,
                 writer\<lparr>bw_head := head,
                        bw_bytes_written := bw_bytes_written writer + data_size\<rparr>)
         })
      } else Some (0, m, writer))"

definition buffer_writer_init :: "nat \<Rightarrow> u32 \<Rightarrow> writer_t option \<Rightarrow> buffer_writer" where
  "buffer_writer_init buffer buffer_size writer_cb =
     \<lparr>bw_head = buffer, bw_bytes_written = 0, bw_buffer = buffer, bw_buffer_size = buffer_size,
      bw_write = (case writer_cb of None \<Rightarrow> BW_WRITE_LR | Some cb \<Rightarrow> cb)\<rparr>"

definition buffer_writer_write ::
  "buffer_writer \<Rightarrow> bytes \<Rightarrow> bytes \<Rightarrow> u32 \<Rightarrow> (u32 \<times> bytes \<times> buffer_writer) option" where
  "buffer_writer_write writer m data data_size =
     (case bw_write writer of
        BW_WRITE_LR \<Rightarrow> bw_write_lr writer m data data_size
      | BW_WRITE_RL \<Rightarrow> bw_write_rl writer m data data_size)"

definition buffer_reader_init :: "nat \<Rightarrow> u32 \<Rightarrow> reader_t option \<Rightarrow> buffer_reader" where
  "buffer_reader_init buffer buffer_size reader_cb =
     \<lparr>br_head = buffer, br_bytes_read = 0, br_buffer = buffer, br_buffer_size = buffer_size,
      br_read = (case reader_cb of None \<Rightarrow> BW_READ_LR | Some cb \<Rightarrow> cb)\<rparr>"

definition buffer_reader_read ::
  "buffer_reader \<Rightarrow> bytes \<Rightarrow> u32 \<Rightarrow> (bytes \<times> buffer_reader) option" where
  "buffer_reader_read reader m buffer_size =
     (case br_read reader of BW_READ_LR \<Rightarrow> bw_read_lr reader m buffer_size)"

section \<open>Writers stay inside their region\<close>

text \<open>
  A left-to-right writer that was initialised on \<open>n\<close> bytes has its head \<open>bytes_written\<close> behind
  the start and has written at most \<open>n\<close> bytes.
\<close>

definition writer_ok :: "bytes \<Rightarrow> buffer_writer \<Rightarrow> bool" where
  "writer_ok m w \<longleftrightarrow> bw_write w = BW_WRITE_LR \<and>
     bw_head w = bw_buffer w + unat (bw_bytes_written w) \<and>
     bw_bytes_written w \<le> bw_buffer_size w \<and>
     bw_buffer w + unat (bw_buffer_size w) \<le> length m"

lemma writer_init_ok:
  "off + unat n \<le> length m \<Longrightarrow> writer_ok m (buffer_writer_init off n (Some BW_WRITE_LR))"
  by (simp add: writer_ok_def buffer_writer_init_def)

lemma buffer_writer_write_fits:
  assumes ok: "writer_ok m w" and len: "unat n \<le> length data"
    and fits: "unat (bw_bytes_written w) + unat n \<le> unat (bw_buffer_size w)"
  shows "\<exists>w'. buffer_writer_write w m data n =
      Some (n, patch m (bw_head w) (take (unat n) data), w') \<and>
    writer_ok (patch m (bw_head w) (take (unat n) data)) w' \<and> bw_head w' = bw_head w + unat n \<and>
    unat (bw_bytes_written w') = unat (bw_bytes_written w) + unat n \<and>
    bw_buffer w' = bw_buffer w \<and> bw_buffer_size w' = bw_buffer_size w"
proof -
  have sum: "unat (bw_bytes_written w + n) = unat (bw_bytes_written w) + unat n"
    using fits u32_bound [of "bw_buffer_size w"] by (intro unat_add_ok) linarith
  then have "bw_bytes_written w + n \<le> bw_buffer_size w"
    using fits by (simp add: word_le_nat_alt)
  moreover have "bw_head w + unat n \<le> length m"
    using ok fits by (simp add: writer_ok_def)
  ultimately show ?thesis
    using ok len sum
    by (auto simp: buffer_writer_write_def writer_ok_def bw_write_lr_def mem_write_patch
        mem_read_def min_absorb2)
qed

text \<open>What does not fit is refused as a whole.\<close>

lemma buffer_writer_write_full:
  assumes "writer_ok m w" and "unat (bw_buffer_size w) < unat (bw_bytes_written w) + unat n"
    and "unat (bw_bytes_written w) + unat n < 4294967296"
  shows "buffer_writer_write w m data n = Some (0, m, w)"
  using assms unat_add_ok [OF assms(3)]
  by (simp add: buffer_writer_write_def writer_ok_def bw_write_lr_def word_le_nat_alt)

text \<open>Readers.\<close>

definition reader_ok :: "bytes \<Rightarrow> buffer_reader \<Rightarrow> bool" where
  "reader_ok m r \<longleftrightarrow> br_head r = br_buffer r + unat (br_bytes_read r) \<and>
     br_bytes_read r \<le> br_buffer_size r \<and> unat (br_buffer_size r) < 2147483648 \<and>
     br_buffer r + unat (br_buffer_size r) \<le> length m"

lemma reader_init_ok:
  "off + unat n \<le> length m \<Longrightarrow> unat n < 2147483648
   \<Longrightarrow> reader_ok m (buffer_reader_init off n (Some BW_READ_LR))"
  by (simp add: reader_ok_def buffer_reader_init_def)

lemma buffer_reader_read_ok:
  assumes ok: "reader_ok m r" and n: "unat n < 2147483648"
  shows "\<exists>r'. buffer_reader_read r m n =
      Some (slice m (br_head r) (min (unat n) (unat (br_buffer_size r) - unat (br_bytes_read r))), r') \<and>
    reader_ok m r' \<and> br_buffer r' = br_buffer r \<and> br_buffer_size r' = br_buffer_size r \<and>
    unat (br_bytes_read r') =
      unat (br_bytes_read r) + min (unat n) (unat (br_buffer_size r) - unat (br_bytes_read r))"
proof -
  define left where "left = br_buffer_size r - br_bytes_read r"
  have left: "unat left = unat (br_buffer_size r) - unat (br_bytes_read r)"
    using ok by (simp add: left_def reader_ok_def word_le_nat_alt unat_sub_ok)
  have bs: "unat (br_bytes_read r) \<le> unat (br_buffer_size r)"
    "unat (br_buffer_size r) < 2147483648"
    using ok by (simp_all add: reader_ok_def word_le_nat_alt)
  obtain rr where rr: "br_read r = BW_READ_LR" by (cases "br_read r")
  show ?thesis
  proof (cases "left = 0")
    case True
    then have "unat left = 0" by simp
    with left bs ok True rr show ?thesis
      by (auto simp: buffer_reader_read_def bw_read_lr_def slice_def simp flip: left_def)
  next
    case False
    define k where "k = c_min n left"
    have k: "unat k = min (unat n) (unat left)"
      using n left bs by (simp add: k_def unat_c_min)
    then have kl: "unat k \<le> unat left" "unat k \<le> unat n" by auto
    have sum: "unat (br_bytes_read r + k) = unat (br_bytes_read r) + unat k"
      using kl left bs by (intro unat_add_ok) linarith
    have inm: "br_head r + unat k \<le> length m"
      using ok kl(1) left bs unfolding reader_ok_def by linarith
    have le: "br_bytes_read r + k \<le> br_buffer_size r"
      using sum kl(1) left bs by (simp add: word_le_nat_alt)
    define r' where "r' = r\<lparr>br_head := br_head r + unat k, br_bytes_read := br_bytes_read r + k\<rparr>"
    have run: "buffer_reader_read r m n = Some (slice m (br_head r) (unat k), r')"
      using False rr inm
      by (simp add: buffer_reader_read_def bw_read_lr_def Let_def mem_read_slice r'_def
          flip: left_def k_def)
    show ?thesis
      using run ok sum le by (auto simp: r'_def reader_ok_def k left)
  qed
qed

end
