(* ===== verification/Cell.thy ===== *)
theory Cell
  imports BTreeDefs BufferWriter
begin

text \<open>
  \<open>btree_cell.c\<close>: inline cells (a size field and the payload) and overflow cells (size field,
  total size, first overflow page, and the part of the payload kept in the node).

  A pointer the code only reads through is the list of bytes from it to the end of its
  block, so a read behind that end has no outcome.
\<close>

datatype cell_type_e = CELL_TYPE_UNKNOWN | CELL_TYPE_INLINE | CELL_TYPE_OVERFLOW

record cell_inline =
  ci_inline_size :: u32
  ci_payload :: bytes

record cell_overflow =
  co_inline_size :: u32
  co_total_size :: u32
  co_overflow_page_id :: u32
  co_inline_payload :: bytes

definition btree_cell_inline_size_from_disk_size :: "u32 \<Rightarrow> u32" where
  "btree_cell_inline_size_from_disk_size heap_size = heap_size - 4"

definition btree_cell_inline_disk_size :: "u32 \<Rightarrow> u32" where
  "btree_cell_inline_disk_size data_size = 4 + data_size"

text \<open>Writing at an offset of a memory block.\<close>

definition btree_cell_write_inline :: "cell_inline \<Rightarrow> bytes \<Rightarrow> nat \<Rightarrow> (btree_e \<times> bytes) option" where
  "btree_cell_write_inline cell m buffer =
     do {
       m \<leftarrow> mem_write32 m buffer (ci_inline_size cell);
       xs \<leftarrow> mem_read (ci_payload cell) 0 (unat (ci_inline_size cell));
       m \<leftarrow> mem_write m (buffer + 4) xs;
       Some (BTREE_OK, m)
     }"

text \<open>
  The result is the cell, the caller's buffer, and the value of \<open>*out_total_size\<close>.  Without a
  buffer the payload of the cell is a pointer into the cell buffer.
\<close>

definition btree_cell_read_inline ::
  "bytes \<Rightarrow> bytes option \<Rightarrow> u32 \<Rightarrow> (cell_inline \<times> bytes option \<times> u32) option" where
  "btree_cell_read_inline cell_buffer buffer buffer_size =
     do {
       isz \<leftarrow> mem_read32 cell_buffer 0;
       (case buffer of
          Some b \<Rightarrow>
            if buffer_size \<noteq> 0 then
              (let sz = c_min isz buffer_size in do {
                 xs \<leftarrow> mem_read cell_buffer 4 (unat sz);
                 b \<leftarrow> mem_write b 0 xs;
                 Some (\<lparr>ci_inline_size = sz, ci_payload = b\<rparr>, Some b, isz)
               })
            else Some (\<lparr>ci_inline_size = isz, ci_payload = drop 4 cell_buffer\<rparr>, buffer, isz)
        | None \<Rightarrow> Some (\<lparr>ci_inline_size = isz, ci_payload = drop 4 cell_buffer\<rparr>, buffer, isz))
     }"

definition btree_cell_overflow_min_disk_size :: u32 where
  "btree_cell_overflow_min_disk_size = 0 + 4 + 4 + 4"

definition btree_cell_overflow_disk_size :: "u32 \<Rightarrow> u32" where
  "btree_cell_overflow_disk_size payload_size = btree_cell_overflow_min_disk_size + payload_size"

definition btree_cell_overflow_calc_inline_payload_size :: "u32 \<Rightarrow> u32" where
  "btree_cell_overflow_calc_inline_payload_size inline_size =
     inline_size - btree_cell_overflow_min_disk_size + 4"

definition btree_cell_write_overflow_ex ::
  "cell_overflow \<Rightarrow> buffer_writer \<Rightarrow> bytes \<Rightarrow> (btree_e \<times> bytes \<times> buffer_writer) option" where
  "btree_cell_write_overflow_ex cell writer m =
     do {
       (_, m, writer) \<leftarrow>
         buffer_writer_write writer m (ser_write_32bit_le (co_inline_size cell)) 4;
       (_, m, writer) \<leftarrow>
         buffer_writer_write writer m (ser_write_32bit_le (co_total_size cell)) 4;
       (_, m, writer) \<leftarrow>
         buffer_writer_write writer m (ser_write_32bit_le (co_overflow_page_id cell)) 4;
       (_, m, writer) \<leftarrow>
         buffer_writer_write writer m (co_inline_payload cell)
           (btree_cell_overflow_calc_inline_payload_size (co_inline_size cell));
       Some (BTREE_OK, m, writer)
     }"

text \<open>
  A read of four bytes into the local buffer \<open>buf\<close>, which is \<open>None\<close> while it is
  uninitialised.  What the reader does not deliver stays; using uninitialised bytes has no
  outcome.
\<close>

definition read_buf32 ::
  "buffer_reader \<Rightarrow> bytes \<Rightarrow> bytes option \<Rightarrow> (u32 \<times> bytes option \<times> buffer_reader) option" where
  "read_buf32 reader m buf =
     do {
       (xs, reader) \<leftarrow> buffer_reader_read reader m 4;
       buf \<leftarrow> (case buf of
                 None \<Rightarrow> do { require (length xs = 4); Some xs }
               | Some b \<Rightarrow> mem_write b 0 xs);
       Some (ser_read_32bit_le buf, Some buf, reader)
     }"

text \<open>The result is the cell and the caller's buffer.\<close>

definition btree_cell_read_overflow_ex ::
  "buffer_reader \<Rightarrow> bytes \<Rightarrow> bytes option \<Rightarrow> u32
   \<Rightarrow> (btree_e \<times> cell_overflow \<times> bytes option \<times> buffer_reader) option" where
  "btree_cell_read_overflow_ex reader m buffer buffer_size =
     do {
       (isz, buf, reader) \<leftarrow> read_buf32 reader m None;
       (total, buf, reader) \<leftarrow> read_buf32 reader m buf;
       (ov, buf, reader) \<leftarrow> read_buf32 reader m buf;
       (xs, reader) \<leftarrow> buffer_reader_read reader m
         (c_min (btree_cell_overflow_calc_inline_payload_size isz) buffer_size);
       (payload, buffer) \<leftarrow>
         (case buffer of
            Some b \<Rightarrow> do { b \<leftarrow> mem_write b 0 xs; Some (b, Some b) }
          | None \<Rightarrow> do { require (xs = []); Some (drop (br_head reader) m, None) });
       Some (BTREE_OK,
             \<lparr>co_inline_size = isz, co_total_size = total, co_overflow_page_id = ov,
              co_inline_payload = payload\<rparr>, buffer, reader)
     }"

definition btree_cell_init_overflow_writer :: "nat \<Rightarrow> u32 \<Rightarrow> buffer_writer" where
  "btree_cell_init_overflow_writer buffer buffer_size =
     buffer_writer_init buffer buffer_size (Some BW_WRITE_LR)"

definition btree_cell_init_overflow_reader :: "nat \<Rightarrow> u32 \<Rightarrow> buffer_reader" where
  "btree_cell_init_overflow_reader buffer buffer_size =
     buffer_reader_init buffer buffer_size (Some BW_READ_LR)"

text \<open>\<open>struct CellData\<close>: the pointer and the size field, an \<open>int\<close>, of a cell.\<close>

record cell_data =
  cd_pointer :: bytes
  cd_size :: u32

definition btree_cell_get_size :: "cell_data \<Rightarrow> u32" where
  "btree_cell_get_size cell = cd_size cell"

section \<open>The bytes of a cell\<close>

definition inline_image :: "cell_inline \<Rightarrow> bytes" where
  "inline_image cell = ser_write_32bit_le (ci_inline_size cell)
     @ take (unat (ci_inline_size cell)) (ci_payload cell)"

definition overflow_image :: "cell_overflow \<Rightarrow> bytes" where
  "overflow_image cell = ser_write_32bit_le (co_inline_size cell)
     @ ser_write_32bit_le (co_total_size cell) @ ser_write_32bit_le (co_overflow_page_id cell)
     @ take (unat (co_inline_size cell) - 8) (co_inline_payload cell)"

lemma patch_patch_adjacent:
  "off + length xs + length ys \<le> length m
   \<Longrightarrow> patch (patch m off xs) (off + length xs) ys = patch m off (xs @ ys)"
  by (simp add: patch_def min_absorb1 add_ac)

lemma length_inline_image:
  "unat (ci_inline_size c) \<le> length (ci_payload c)
   \<Longrightarrow> length (inline_image c) = 4 + unat (ci_inline_size c)"
  by (simp add: inline_image_def)

lemma write_inline_image:
  assumes "unat (ci_inline_size c) \<le> length (ci_payload c)"
    and "off + 4 + unat (ci_inline_size c) \<le> length m"
  shows "btree_cell_write_inline c m off = Some (BTREE_OK, patch m off (inline_image c))"
  using assms patch_patch_adjacent [of off "ser_write_32bit_le (ci_inline_size c)"
      "take (unat (ci_inline_size c)) (ci_payload c)" m]
  by (simp add: btree_cell_write_inline_def mem_write32_def mem_write_patch mem_read_def
      inline_image_def)

lemma calc_inline_payload:
  "8 \<le> unat isz \<Longrightarrow> unat (btree_cell_overflow_calc_inline_payload_size isz) = unat isz - 8"
proof -
  assume a: "8 \<le> unat isz"
  have "btree_cell_overflow_calc_inline_payload_size isz = isz - 8"
    by (simp add: btree_cell_overflow_calc_inline_payload_size_def
        btree_cell_overflow_min_disk_size_def)
  with a show ?thesis by (simp add: unat_sub_ok)
qed

lemma length_overflow_image:
  "8 \<le> unat (co_inline_size c) \<Longrightarrow> unat (co_inline_size c) - 8 \<le> length (co_inline_payload c)
   \<Longrightarrow> length (overflow_image c) = 4 + unat (co_inline_size c)"
  by (simp add: overflow_image_def)

lemma write_overflow_image:
  assumes min: "8 \<le> unat (co_inline_size c)"
    and pay: "unat (co_inline_size c) - 8 \<le> length (co_inline_payload c)"
    and size: "unat n = 4 + unat (co_inline_size c)" and inm: "off + unat n \<le> length m"
  shows "\<exists>w. btree_cell_write_overflow_ex c (btree_cell_init_overflow_writer off n) m =
    Some (BTREE_OK, patch m off (overflow_image c), w)"
proof -
  let ?a = "ser_write_32bit_le (co_inline_size c)"
  let ?b = "ser_write_32bit_le (co_total_size c)"
  let ?c = "ser_write_32bit_le (co_overflow_page_id c)"
  let ?n = "unat (co_inline_size c) - 8"
  let ?p = "take ?n (co_inline_payload c)"
  define w0 where "w0 = btree_cell_init_overflow_writer off n"
  have w0: "writer_ok m w0" "bw_head w0 = off" "unat (bw_bytes_written w0) = 0" "bw_buffer_size w0 = n"
    using writer_init_ok [OF inm]
    by (simp_all add: w0_def btree_cell_init_overflow_writer_def buffer_writer_init_def)
  obtain w1 where w1: "buffer_writer_write w0 m ?a 4 = Some (4, patch m off ?a, w1)"
    "writer_ok (patch m off ?a) w1" "bw_head w1 = off + 4" "unat (bw_bytes_written w1) = 4"
    "bw_buffer_size w1 = n"
    using buffer_writer_write_fits [OF w0(1), of 4 ?a] w0 min size by auto
  obtain w2 where w2: "buffer_writer_write w1 (patch m off ?a) ?b 4 =
      Some (4, patch (patch m off ?a) (off + 4) ?b, w2)"
    "writer_ok (patch (patch m off ?a) (off + 4) ?b) w2" "bw_head w2 = off + 8"
    "unat (bw_bytes_written w2) = 8" "bw_buffer_size w2 = n"
    using buffer_writer_write_fits [OF w1(2), of 4 ?b] w1 min size by auto
  define m2 where "m2 = patch (patch m off ?a) (off + 4) ?b"
  obtain w3 where w3: "buffer_writer_write w2 m2 ?c 4 = Some (4, patch m2 (off + 8) ?c, w3)"
    "writer_ok (patch m2 (off + 8) ?c) w3" "bw_head w3 = off + 12"
    "unat (bw_bytes_written w3) = 12" "bw_buffer_size w3 = n"
    using buffer_writer_write_fits [OF w2(2), of 4 ?c] w2 min size by (auto simp: m2_def)
  define m3 where "m3 = patch m2 (off + 8) ?c"
  have pn: "unat (btree_cell_overflow_calc_inline_payload_size (co_inline_size c)) = ?n"
    using calc_inline_payload [OF min] .
  obtain w4 where w4: "buffer_writer_write w3 m3 (co_inline_payload c)
      (btree_cell_overflow_calc_inline_payload_size (co_inline_size c)) =
      Some (btree_cell_overflow_calc_inline_payload_size (co_inline_size c),
            patch m3 (off + 12) ?p, w4)"
    using buffer_writer_write_fits [OF w3(2),
        of "btree_cell_overflow_calc_inline_payload_size (co_inline_size c)" "co_inline_payload c"]
      w3 pay pn min size by (auto simp: m3_def)
  have m2: "m2 = patch m off (?a @ ?b)"
    unfolding m2_def using patch_patch_adjacent [of off ?a ?b m] inm size min by simp
  have m3: "m3 = patch m off ((?a @ ?b) @ ?c)"
    unfolding m3_def m2 using patch_patch_adjacent [of off "?a @ ?b" ?c m] inm size min by simp
  have "patch m3 (off + 12) ?p = patch m off (((?a @ ?b) @ ?c) @ ?p)"
    unfolding m3 using patch_patch_adjacent [of off "(?a @ ?b) @ ?c" ?p m] inm size min pay by simp
  then show ?thesis
    using w1(1) w2(1) w3(1) w4
    by (simp add: btree_cell_write_overflow_ex_def overflow_image_def flip: w0_def m2_def m3_def)
qed

text \<open>Reading an overflow cell back from its bytes.\<close>

lemma read_buf32_ok:
  assumes ok: "reader_ok m r" and buf: "pred_option (\<lambda>b. length b = 4) buf"
    and left: "unat (br_bytes_read r) + 4 \<le> unat (br_buffer_size r)"
  shows "\<exists>r'. read_buf32 r m buf =
      Some (ser_read_32bit_le (slice m (br_head r) 4), Some (slice m (br_head r) 4), r') \<and>
    reader_ok m r' \<and> br_head r' = br_head r + 4 \<and> br_buffer_size r' = br_buffer_size r \<and>
    br_buffer r' = br_buffer r \<and> unat (br_bytes_read r') = unat (br_bytes_read r) + 4"
proof -
  obtain r' where r': "buffer_reader_read r m 4 = Some (slice m (br_head r) 4, r')" "reader_ok m r'"
    "br_buffer r' = br_buffer r" "br_buffer_size r' = br_buffer_size r"
    "unat (br_bytes_read r') = unat (br_bytes_read r) + 4"
    using buffer_reader_read_ok [OF ok, of 4] left by (auto simp: min_absorb1)
  have "br_head r + 4 \<le> length m" using ok left by (simp add: reader_ok_def)
  then have "length (slice m (br_head r) 4) = 4" by simp
  with r' buf ok show ?thesis
    by (cases buf) (simp_all add: read_buf32_def mem_write_def reader_ok_def)
qed

lemma read_overflow_ex_slices:
  assumes inm: "off + unat n \<le> length m" and n: "unat n < 2147483648"
    and n12: "12 \<le> unat n" and isz: "isz = ser_read_32bit_le (slice m off 4)"
    and min: "8 \<le> unat isz" "unat isz < 2147483648"
    and bs: "unat k < 2147483648"
    and b: "buffer = None \<and> k = 0 \<or>
      (\<exists>b. buffer = Some b \<and> min (unat k) (min (unat isz - 8) (unat n - 12)) \<le> length b)"
  shows "\<exists>r. btree_cell_read_overflow_ex (btree_cell_init_overflow_reader off n) m buffer k =
    (let xs = slice m (off + 12) (min (unat k) (min (unat isz - 8) (unat n - 12)));
         b' = map_option (\<lambda>b. xs @ drop (length xs) b) buffer in
     Some (BTREE_OK, \<lparr>co_inline_size = isz,
       co_total_size = ser_read_32bit_le (slice m (off + 4) 4),
       co_overflow_page_id = ser_read_32bit_le (slice m (off + 8) 4),
       co_inline_payload = (case b' of None \<Rightarrow> drop (off + 12) m | Some b \<Rightarrow> b)\<rparr>, b', r))"
proof -
  define r0 where "r0 = btree_cell_init_overflow_reader off n"
  have r0: "reader_ok m r0" "br_head r0 = off" "unat (br_bytes_read r0) = 0" "br_buffer_size r0 = n"
    using reader_init_ok [OF inm n]
    by (simp_all add: r0_def btree_cell_init_overflow_reader_def buffer_reader_init_def)
  have l4: "length (slice m (off + i) 4) = 4" if "i + 4 \<le> 12" for i
    using inm n12 that by simp
  obtain r1 where r1: "read_buf32 r0 m None = Some (isz, Some (slice m off 4), r1)" "reader_ok m r1"
    "br_head r1 = off + 4" "unat (br_bytes_read r1) = 4" "br_buffer_size r1 = n"
    using read_buf32_ok [OF r0(1), of None] r0 n12 isz by auto
  obtain r2 where r2: "read_buf32 r1 m (Some (slice m off 4)) =
      Some (ser_read_32bit_le (slice m (off + 4) 4), Some (slice m (off + 4) 4), r2)" "reader_ok m r2"
    "br_head r2 = off + 8" "unat (br_bytes_read r2) = 8" "br_buffer_size r2 = n"
    using read_buf32_ok [OF r1(2), of "Some (slice m off 4)"] r1 n12 l4 [of 0] by auto
  obtain r3 where r3: "read_buf32 r2 m (Some (slice m (off + 4) 4)) =
      Some (ser_read_32bit_le (slice m (off + 8) 4), Some (slice m (off + 8) 4), r3)" "reader_ok m r3"
    "br_head r3 = off + 12" "unat (br_bytes_read r3) = 12" "br_buffer_size r3 = n"
    using read_buf32_ok [OF r2(2), of "Some (slice m (off + 4) 4)"] r2 n12 l4 [of 4] by auto
  define want where "want = c_min (btree_cell_overflow_calc_inline_payload_size isz) k"
  have want: "unat want = min (unat isz - 8) (unat k)"
    using calc_inline_payload [OF min(1)] min(2) bs by (simp add: want_def unat_c_min)
  define xs where "xs = slice m (off + 12) (min (unat k) (min (unat isz - 8) (unat n - 12)))"
  have len_xs: "length xs = min (unat k) (min (unat isz - 8) (unat n - 12))"
    unfolding xs_def by (rule length_slice) (use inm n12 in linarith)
  obtain r4 where r4: "buffer_reader_read r3 m want = Some (xs, r4)" "br_head r4 = off + 12 + length xs"
    "reader_ok m r4"
  proof -
    have "unat want < 2147483648" using want bs by simp
    from buffer_reader_read_ok [OF r3(2) this] obtain r4 where
      r4: "buffer_reader_read r3 m want = Some (slice m (off + 12) (min (unat want) (unat n - 12)), r4)"
      "reader_ok m r4" "br_buffer r4 = br_buffer r3"
      "unat (br_bytes_read r4) = 12 + min (unat want) (unat n - 12)"
      using r3 by auto
    have eq: "min (unat want) (unat n - 12) = min (unat k) (min (unat isz - 8) (unat n - 12))"
      using want by linarith
    have run: "buffer_reader_read r3 m want = Some (xs, r4)"
      using r4(1) unfolding eq xs_def by simp
    have "br_buffer r3 = off"
      using r3(2,3,4) by (simp add: reader_ok_def)
    moreover have "br_head r4 = br_buffer r4 + unat (br_bytes_read r4)"
      using r4(2) by (simp add: reader_ok_def)
    ultimately have "br_head r4 = off + 12 + length xs"
      using r4(3,4) len_xs eq by linarith
    from run this r4(2) show thesis by (rule that)
  qed
  have head: "btree_cell_read_overflow_ex r0 m buffer k =
    do { (payload, buffer) \<leftarrow>
         (case buffer of
            Some b \<Rightarrow> do { b \<leftarrow> mem_write b 0 xs; Some (b, Some b) }
          | None \<Rightarrow> do { require (xs = []); Some (drop (br_head r4) m, None) });
       Some (BTREE_OK, \<lparr>co_inline_size = isz,
         co_total_size = ser_read_32bit_le (slice m (off + 4) 4),
         co_overflow_page_id = ser_read_32bit_le (slice m (off + 8) 4),
         co_inline_payload = payload\<rparr>, buffer, r4) }"
    using r1(1) r2(1) r3(1) r4(1)
    by (simp add: btree_cell_read_overflow_ex_def flip: want_def)
  show ?thesis
  proof (cases buffer)
    case None
    with b have "k = 0" by simp
    then have "xs = []" using len_xs by simp
    with None r4(2) show ?thesis
      using head unfolding r0_def xs_def [symmetric] Let_def by simp
  next
    case (Some bb)
    with b len_xs have "length xs \<le> length bb" by auto
    with Some show ?thesis
      using head unfolding r0_def xs_def [symmetric] Let_def by (simp add: mem_write_def)
  qed
qed

section \<open>Round trips\<close>

lemma slice_overflow_image:
  assumes "8 \<le> unat (co_inline_size c)"
    and "unat (co_inline_size c) - 8 \<le> length (co_inline_payload c)"
  shows "slice (overflow_image c) 0 4 = ser_write_32bit_le (co_inline_size c)"
    and "slice (overflow_image c) 4 4 = ser_write_32bit_le (co_total_size c)"
    and "slice (overflow_image c) 8 4 = ser_write_32bit_le (co_overflow_page_id c)"
    and "slice (overflow_image c) 12 (unat (co_inline_size c) - 8) =
           take (unat (co_inline_size c) - 8) (co_inline_payload c)"
  using assms by (simp_all add: slice_def overflow_image_def)

text \<open>
  C14: an overflow cell written into a region of the right size is read back with the same size,
  total size, overflow page and payload.
\<close>

theorem overflow_cell_roundtrip:
  assumes "8 \<le> unat (co_inline_size c)" and "unat n < 2147483648"
    and "unat (co_inline_size c) - 8 \<le> length (co_inline_payload c)"
    and "unat n = 4 + unat (co_inline_size c)" and "off + unat n \<le> length m"
    and "unat (co_inline_size c) - 8 \<le> unat k" and "unat k < 2147483648"
    and "unat k \<le> length b"
  shows "\<exists>m' w r. btree_cell_write_overflow_ex c (btree_cell_init_overflow_writer off n) m =
      Some (BTREE_OK, m', w) \<and>
    btree_cell_read_overflow_ex (btree_cell_init_overflow_reader off n) m' (Some b) k =
      (let p = take (unat (co_inline_size c) - 8) (co_inline_payload c)
                 @ drop (unat (co_inline_size c) - 8) b in
       Some (BTREE_OK, c\<lparr>co_inline_payload := p\<rparr>, Some p, r))"
proof -
  define m' where "m' = patch m off (overflow_image c)"
  have len: "length (overflow_image c) = unat n"
    using length_overflow_image [OF assms(1,3)] assms(4) by simp
  obtain w where w: "btree_cell_write_overflow_ex c (btree_cell_init_overflow_writer off n) m =
      Some (BTREE_OK, m', w)"
    using write_overflow_image [OF assms(1,3,4,5)] by (auto simp: m'_def)
  have inside: "slice m' (off + i) j = slice (overflow_image c) i j" if "i + j \<le> unat n" for i j
    using slice_patch_inside [of off "overflow_image c" m "off + i" j] that assms(5) len
    by (simp add: m'_def)
  have sl: "slice m' off 4 = ser_write_32bit_le (co_inline_size c)"
    "slice m' (off + 4) 4 = ser_write_32bit_le (co_total_size c)"
    "slice m' (off + 8) 4 = ser_write_32bit_le (co_overflow_page_id c)"
    "slice m' (off + 12) (unat (co_inline_size c) - 8) =
       take (unat (co_inline_size c) - 8) (co_inline_payload c)"
    using inside [of 0 4] inside [of 4 4] inside [of 8 4]
      inside [of 12 "unat (co_inline_size c) - 8"] slice_overflow_image [OF assms(1,3)]
      assms(1,4) by simp_all
  have lm: "off + unat n \<le> length m'" using assms(5) len by (simp add: m'_def)
  have isz: "co_inline_size c = ser_read_32bit_le (slice m' off 4)" by (simp add: sl)
  have mn: "min (unat k) (min (unat (co_inline_size c) - 8) (unat n - 12)) =
      unat (co_inline_size c) - 8"
    using assms(4,6) by simp
  have "\<exists>r. btree_cell_read_overflow_ex (btree_cell_init_overflow_reader off n) m' (Some b) k =
    (let xs = slice m' (off + 12) (min (unat k) (min (unat (co_inline_size c) - 8) (unat n - 12)));
         b' = map_option (\<lambda>b. xs @ drop (length xs) b) (Some b) in
     Some (BTREE_OK, \<lparr>co_inline_size = co_inline_size c,
       co_total_size = ser_read_32bit_le (slice m' (off + 4) 4),
       co_overflow_page_id = ser_read_32bit_le (slice m' (off + 8) 4),
       co_inline_payload = (case b' of None \<Rightarrow> drop (off + 12) m' | Some b \<Rightarrow> b)\<rparr>, b', r))"
    by (rule read_overflow_ex_slices [OF lm assms(2) _ isz assms(1) _ assms(7)])
      (use assms(1,2,4,6,8) in auto)
  then show ?thesis
    using w assms(3) unfolding mn sl by (auto simp: Let_def min_absorb2)
qed

lemma overflow_cell_roundtrip_witness:
  "\<exists>m' w r. btree_cell_write_overflow_ex \<lparr>co_inline_size = 11, co_total_size = 300,
        co_overflow_page_id = 7, co_inline_payload = [1, 2, 3, 4]\<rparr>
      (btree_cell_init_overflow_writer 1 15) (replicate 20 0) = Some (BTREE_OK, m', w) \<and>
    btree_cell_read_overflow_ex (btree_cell_init_overflow_reader 1 15) m'
        (Some [0, 0, 0, 0, 0]) 5 =
      Some (BTREE_OK, \<lparr>co_inline_size = 11, co_total_size = 300, co_overflow_page_id = 7,
        co_inline_payload = [1, 2, 3, 0, 0]\<rparr>, Some [1, 2, 3, 0, 0], r)"
  using overflow_cell_roundtrip [of "\<lparr>co_inline_size = 11, co_total_size = 300,
      co_overflow_page_id = 7, co_inline_payload = [1, 2, 3, 4]\<rparr>" 15 1 "replicate 20 0"
      5 "[0, 0, 0, 0, 0]"]
  by (simp add: Let_def)

end
