(* ===== verification/BinarySearch.thy ===== *)
theory BinarySearch
  imports Prelude
begin

text \<open>
  The program has three hand-written binary searches of one shape: the page cache
  (\<open>find_in_cache\<close>), the keys of a node (\<open>btu_binary_search_keys\<close>) and the cells of a node
  (\<open>btree_node_search_keys\<close>).  This locale is the contract of that shape: \<open>probe\<close> looks at
  the element at an index and answers the sign of its comparison with the key sought
  (\<open>None\<close>: outside the array), and \<open>search l r\<close> is the C loop started with \<open>left = l\<close> and
  \<open>right = r\<close> on an array of \<open>n\<close> elements.  What such a loop returns is proved once.
\<close>

definition mid_of :: "int \<Rightarrow> int \<Rightarrow> int" where
  "mid_of left right = (right - left) div 2 + left"

lemma mid_of_bounds: "l \<le> r \<Longrightarrow> l \<le> mid_of l r \<and> mid_of l r \<le> r"
  by (simp add: mid_of_def)

text \<open>
  \<open>search_post\<close>: what the caller may rely on for \<open>n\<close> elements.  A hit returns an index at
  which the comparison is equal; a miss returns the insertion point: everything before it
  is smaller than the key, everything from it on is larger.
\<close>

definition search_post :: "(int \<Rightarrow> int option) \<Rightarrow> int \<Rightarrow> int \<Rightarrow> bool \<Rightarrow> bool" where
  "search_post probe n i found \<longleftrightarrow>
     0 \<le> i \<and> i \<le> n \<and>
     (if found then i < n \<and> probe i = Some 0
      else (\<forall>j. 0 \<le> j \<and> j < i \<longrightarrow> (\<exists>c. probe j = Some c \<and> c < 0)) \<and>
           (\<forall>j. i \<le> j \<and> j < n \<longrightarrow> (\<exists>c. probe j = Some c \<and> 0 < c)))"

text \<open>The order the search needs: the comparisons go from negative through zero to positive.\<close>

definition probes_sorted :: "(int \<Rightarrow> int option) \<Rightarrow> int \<Rightarrow> bool" where
  "probes_sorted probe n \<longleftrightarrow>
     (\<forall>i. 0 \<le> i \<and> i < n \<longrightarrow> probe i \<noteq> None) \<and>
     (\<forall>i j. 0 \<le> i \<and> i < j \<and> j < n \<longrightarrow>
        (the (probe j) \<le> 0 \<longrightarrow> the (probe i) < 0) \<and> (0 \<le> the (probe i) \<longrightarrow> 0 < the (probe j)))"

lemma probes_sorted_Some:
  "probes_sorted probe n \<Longrightarrow> 0 \<le> j \<Longrightarrow> j < n \<Longrightarrow> probe j = Some (the (probe j))"
  by (simp add: probes_sorted_def)

lemma search_postI_miss:
  assumes "probes_sorted probe n" and "0 \<le> i" and "i \<le> n"
    and "\<And>j. 0 \<le> j \<Longrightarrow> j < i \<Longrightarrow> the (probe j) < 0"
    and "\<And>j. i \<le> j \<Longrightarrow> j < n \<Longrightarrow> 0 < the (probe j)"
  shows "search_post probe n i False"
proof -
  have "\<exists>c. probe j = Some c \<and> c < 0" if "0 \<le> j" "j < i" for j
    using probes_sorted_Some [OF assms(1), of j] assms(3,4) that by auto
  moreover have "\<exists>c. probe j = Some c \<and> 0 < c" if "i \<le> j" "j < n" for j
    using probes_sorted_Some [OF assms(1), of j] assms(2,5) that by auto
  ultimately show ?thesis using assms(2,3) by (simp add: search_post_def)
qed

lemma search_post_before:
  assumes "search_post probe n i False" and "0 \<le> j" and "j < i"
  shows "the (probe j) < 0"
  using assms by (force simp: search_post_def)

lemma search_post_after:
  assumes "search_post probe n i False" and "i \<le> j" and "j < n"
  shows "0 < the (probe j)"
  using assms by (force simp: search_post_def)

text \<open>The usual case: the probe compares the key sought with an ascending sequence.\<close>

definition compare3 :: "'a::linorder \<Rightarrow> 'a \<Rightarrow> int" where
  "compare3 x y = (if x = y then 0 else if x < y then -1 else 1)"

lemma compare3_sign [simp]:
  "compare3 x y = 0 \<longleftrightarrow> x = y" "compare3 x y < 0 \<longleftrightarrow> x < y" "0 < compare3 x y \<longleftrightarrow> y < x"
  "compare3 x y \<le> 0 \<longleftrightarrow> x \<le> y" "0 \<le> compare3 x y \<longleftrightarrow> y \<le> x" "compare3 x y = -1 \<longleftrightarrow> x < y"
  by (auto simp: compare3_def)

lemma probes_sorted_ascending:
  assumes "\<And>i. 0 \<le> i \<Longrightarrow> i < n \<Longrightarrow> probe i = Some (compare3 (f i) y)"
    and "\<And>i j. 0 \<le> i \<Longrightarrow> i < j \<Longrightarrow> j < n \<Longrightarrow> f i < f j"
  shows "probes_sorted probe n"
  unfolding probes_sorted_def
proof (intro conjI allI impI)
  fix i j assume ij: "0 \<le> i \<and> i < j \<and> j < n"
  then have p: "probe i = Some (compare3 (f i) y)" "probe j = Some (compare3 (f j) y)" "f i < f j"
    using assms by simp_all
  show "the (probe j) \<le> 0 \<Longrightarrow> the (probe i) < 0" using p by auto
  show "0 \<le> the (probe i) \<Longrightarrow> 0 < the (probe j)" using p by auto
qed (use assms(1) in auto)

locale binary_search =
  fixes probe :: "int \<Rightarrow> int option"
    and search :: "int \<Rightarrow> int \<Rightarrow> (int \<times> bool) option"
    and n :: int
  assumes search_done: "r < l \<Longrightarrow> search l r = Some (l, False)"
    and search_step: "0 \<le> l \<Longrightarrow> l \<le> r \<Longrightarrow> r < n \<Longrightarrow> search l r =
      (case probe (mid_of l r) of
         None \<Rightarrow> None
       | Some c \<Rightarrow>
           if c = 0 then Some (mid_of l r, True)
           else if c < 0 then search (mid_of l r + 1) r
           else search l (mid_of l r - 1))"
begin

lemma search_correct_aux:
  assumes "probes_sorted probe n"
    and "0 \<le> l" and "r < n" and "l \<le> r + 1"
    and "\<forall>j. 0 \<le> j \<and> j < l \<longrightarrow> the (probe j) < 0"
    and "\<forall>j. r < j \<and> j < n \<longrightarrow> 0 < the (probe j)"
  shows "\<exists>i found. search l r = Some (i, found) \<and> search_post probe n i found"
  using assms(2-)
proof (induction "nat (r - l + 1)" arbitrary: l r rule: less_induct)
  case less
  show ?case
  proof (cases "l \<le> r")
    case False
    with less.prems have l: "l = r + 1" by simp
    have "search_post probe n l False"
      by (rule search_postI_miss [OF assms(1)]) (use less.prems l in auto)
    with False show ?thesis
      by (intro exI [of _ l] exI [of _ False]) (simp add: search_done)
  next
    case True
    define m where "m = mid_of l r"
    have m: "l \<le> m" "m \<le> r" using mid_of_bounds [OF True] by (simp_all add: m_def)
    have "m < n" "0 \<le> m" using m less.prems by linarith+
    then obtain c where c: "probe m = Some c"
      using probes_sorted_Some [OF assms(1)] by blast
    have step: "search l r =
        (if c = 0 then Some (m, True) else if c < 0 then search (m + 1) r else search l (m - 1))"
      using search_step [OF less.prems(1) True less.prems(2)] c by (simp add: m_def)
    have mono: "\<And>i j. 0 \<le> i \<Longrightarrow> i < j \<Longrightarrow> j < n \<Longrightarrow>
        (the (probe j) \<le> 0 \<longrightarrow> the (probe i) < 0) \<and> (0 \<le> the (probe i) \<longrightarrow> 0 < the (probe j))"
      using assms(1) by (simp add: probes_sorted_def)
    consider "c = 0" | "c < 0" | "0 < c" by linarith
    then show ?thesis
    proof cases
      case 1
      with c \<open>m < n\<close> \<open>0 \<le> m\<close> step show ?thesis
        by (intro exI [of _ m] exI [of _ True]) (simp add: search_post_def)
    next
      case 2
      have "\<exists>i found. search (m + 1) r = Some (i, found) \<and> search_post probe n i found"
      proof (rule less.hyps)
        show "\<forall>j. 0 \<le> j \<and> j < m + 1 \<longrightarrow> the (probe j) < 0"
        proof (intro allI impI)
          fix j assume j: "0 \<le> j \<and> j < m + 1"
          show "the (probe j) < 0"
            using mono [of j m] j c 2 m less.prems by (cases "j = m") auto
        qed
      qed (use m less.prems in auto)
      with 2 step show ?thesis by simp
    next
      case 3
      have "\<exists>i found. search l (m - 1) = Some (i, found) \<and> search_post probe n i found"
      proof (rule less.hyps)
        show "\<forall>j. m - 1 < j \<and> j < n \<longrightarrow> 0 < the (probe j)"
        proof (intro allI impI)
          fix j assume j: "m - 1 < j \<and> j < n"
          show "0 < the (probe j)"
            using mono [of m j] j c 3 m less.prems by (cases "j = m") auto
        qed
      qed (use m less.prems in auto)
      with 3 step show ?thesis by simp
    qed
  qed
qed

theorem search_correct:
  assumes "probes_sorted probe n" and "0 \<le> n"
  shows "\<exists>i found. search 0 (n - 1) = Some (i, found) \<and> search_post probe n i found"
  using assms by (intro search_correct_aux) auto

lemma search_eqI:
  assumes "probes_sorted probe n" and "0 \<le> n" and "search 0 (n - 1) = Some (i, found)"
  shows "search_post probe n i found"
  using search_correct [OF assms(1,2)] assms(3) by auto

end

end
