(* ===== verification/PageCache.thy ===== *)
theory PageCache
  imports Page BinarySearch
begin

text \<open>
  \<open>page_cache.c\<close>: a fixed array of slots, the first \<open>size\<close> of them in use and sorted by page
  number.  A \<open>struct Page*\<close> that points to a cached page is the index of its slot, since the
  cache owns the page; the page of an unused slot is \<open>None\<close> (a null pointer).  The reference count
  is an integer that does not wrap: the code counts the users of a slot in an \<open>int\<close>.
\<close>

record page_cache_key =
  pck_page_id :: u32
  pck_page :: "page option"
  pck_ref :: int

record page_cache =
  pc_pages :: "page_cache_key list"
  pc_size :: nat
  pc_capacity :: nat

definition zero_key :: page_cache_key where
  "zero_key = \<lparr>pck_page_id = 0, pck_page = None, pck_ref = 0\<rparr>"

text \<open>
  The loop of \<open>find_in_cache\<close>; the result is the index and whether it is a hit.  Page
  numbers are compared as \<open>unsigned int\<close>.
\<close>

function find_in_cache_loop ::
  "page_cache_key list \<Rightarrow> u32 \<Rightarrow> int \<Rightarrow> int \<Rightarrow> (int \<times> bool) option" where
  "find_in_cache_loop pages pid left right =
     (if left \<le> right then do {
        k \<leftarrow> arr_get pages (nat (mid_of left right));
        if pck_page_id k = pid then Some (mid_of left right, True)
        else if pck_page_id k < pid
          then find_in_cache_loop pages pid (mid_of left right + 1) right
          else find_in_cache_loop pages pid left (mid_of left right - 1)
      } else Some (left, False))"
  by pat_completeness auto
termination
  by (relation "measure (\<lambda>(pages, pid, l, r). nat (r - l + 1))")
    (use mid_of_bounds in fastforce)+

declare find_in_cache_loop.simps [simp del]

definition find_in_cache :: "page_cache \<Rightarrow> u32 \<Rightarrow> (nat \<times> bool) option" where
  "find_in_cache cache pid =
     do {
       (i, found) \<leftarrow> find_in_cache_loop (pc_pages cache) pid 0 (int (pc_size cache) - 1);
       Some (nat i, found)
     }"

definition page_cache_create :: "nat \<Rightarrow> pager_e \<times> page_cache" where
  "page_cache_create capacity =
     (PAGER_OK, \<lparr>pc_pages = replicate capacity zero_key, pc_size = 0, pc_capacity = capacity\<rparr>)"

definition page_cache_acquire ::
  "page_cache \<Rightarrow> u32 \<Rightarrow> (pager_e \<times> nat option \<times> page_cache) option" where
  "page_cache_acquire cache pnum =
     do {
       (cache_index, page_found) \<leftarrow> find_in_cache cache pnum;
       if page_found then do {
         pck \<leftarrow> arr_get (pc_pages cache) cache_index;
         pages \<leftarrow> arr_set (pc_pages cache) cache_index (pck\<lparr>pck_ref := pck_ref pck + 1\<rparr>);
         Some (PAGER_OK, Some cache_index, cache\<lparr>pc_pages := pages\<rparr>)
       } else Some (PAGER_ERR_CACHE_MISS, None, cache)
     }"

definition page_cache_release :: "page_cache \<Rightarrow> page \<Rightarrow> (pager_e \<times> page_cache) option" where
  "page_cache_release cache page =
     do {
       (cache_index, page_found) \<leftarrow> find_in_cache cache (page_id page);
       if page_found then do {
         pck \<leftarrow> arr_get (pc_pages cache) cache_index;
         pages \<leftarrow> arr_set (pc_pages cache) cache_index
                    (pck\<lparr>pck_ref := pck_ref pck - (if pck_ref pck \<noteq> 0 then 1 else 0)\<rparr>);
         Some (PAGER_OK, cache\<lparr>pc_pages := pages\<rparr>)
       } else Some (PAGER_OK, cache)
     }"

text \<open>The first slot that nobody holds; the loop of \<open>cache_evict\<close>.\<close>

fun find_unreferenced :: "page_cache_key list \<Rightarrow> nat \<Rightarrow> nat option" where
  "find_unreferenced [] i = None"
| "find_unreferenced (k # ks) i = (if pck_ref k = 0 then Some i else find_unreferenced ks (Suc i))"

definition cache_evict :: "page_cache \<Rightarrow> (page option \<times> page_cache) option" where
  "cache_evict cache =
     do {
       require (pc_size cache \<noteq> 0);
       used \<leftarrow> mem_read (pc_pages cache) 0 (pc_size cache);
       evict_index \<leftarrow> find_unreferenced used 0;
       victim \<leftarrow> arr_get (pc_pages cache) evict_index;
       moved \<leftarrow> mem_move (pc_pages cache) evict_index (evict_index + 1)
                  (pc_capacity cache - 1 - evict_index);
       pages \<leftarrow> arr_set moved (pc_capacity cache - 1) zero_key;
       Some (pck_page victim, cache\<lparr>pc_pages := pages, pc_size := pc_size cache - 1\<rparr>)
     }"

text \<open>\<open>assert_cache_correct\<close> compares the \<open>int\<close> page numbers of neighbouring slots.\<close>

fun cache_correct :: "page_cache_key list \<Rightarrow> bool" where
  "cache_correct (a # b # ks) = (pck_page_id a <s pck_page_id b \<and> cache_correct (b # ks))"
| "cache_correct _ = True"

definition page_cache_insert ::
  "page_cache \<Rightarrow> page \<Rightarrow> (pager_e \<times> page option \<times> page_cache) option" where
  "page_cache_insert cache page =
     do {
       require (page_id page \<noteq> 0);
       (evicted, cache) \<leftarrow>
         (if pc_size cache = pc_capacity cache then cache_evict cache else Some (None, cache));
       (cache_index, page_found) \<leftarrow> find_in_cache cache (page_id page);
       require (\<not> page_found);
       moved \<leftarrow> mem_move (pc_pages cache) (cache_index + 1) cache_index
                  (pc_capacity cache - 1 - cache_index);
       pages \<leftarrow> arr_set moved cache_index
                  \<lparr>pck_page_id = page_id page, pck_page = Some page, pck_ref = 1\<rparr>;
       used \<leftarrow> mem_read pages 0 (pc_size cache);
       require (cache_correct used);
       Some (PAGER_OK, evicted, cache\<lparr>pc_pages := pages, pc_size := pc_size cache + 1\<rparr>)
     }"

text \<open>
  The two uses the pager makes of a pointer returned by \<open>page_cache_acquire\<close>: reading the
  page it points to and overwriting that page in place.
\<close>

definition cache_deref :: "page_cache \<Rightarrow> nat \<Rightarrow> page option" where
  "cache_deref cache slot = do { k \<leftarrow> arr_get (pc_pages cache) slot; pck_page k }"

definition cache_store :: "page_cache \<Rightarrow> nat \<Rightarrow> page \<Rightarrow> page_cache option" where
  "cache_store cache slot page =
     do {
       k \<leftarrow> arr_get (pc_pages cache) slot;
       pages \<leftarrow> arr_set (pc_pages cache) slot (k\<lparr>pck_page := Some page\<rparr>);
       Some (cache\<lparr>pc_pages := pages\<rparr>)
     }"

section \<open>The search\<close>

definition cache_probe :: "page_cache_key list \<Rightarrow> u32 \<Rightarrow> int \<Rightarrow> int option" where
  "cache_probe pages pid i =
     map_option (\<lambda>k. compare3 (pck_page_id k) pid) (arr_get pages (nat i))"

interpretation cache_search:
  binary_search "cache_probe pages pid" "find_in_cache_loop pages pid" n for pages pid n
proof
  fix l r :: int
  show "r < l \<Longrightarrow> find_in_cache_loop pages pid l r = Some (l, False)"
    by (simp add: find_in_cache_loop.simps)
  show "0 \<le> l \<Longrightarrow> l \<le> r \<Longrightarrow> r < n \<Longrightarrow> find_in_cache_loop pages pid l r =
    (case cache_probe pages pid (mid_of l r) of
       None \<Rightarrow> None
     | Some c \<Rightarrow>
         if c = 0 then Some (mid_of l r, True)
         else if c < 0 then find_in_cache_loop pages pid (mid_of l r + 1) r
         else find_in_cache_loop pages pid l (mid_of l r - 1))"
    by (subst find_in_cache_loop.simps)
      (cases "arr_get pages (nat (mid_of l r))", simp_all add: cache_probe_def)
qed

section \<open>The invariant and the abstract cache\<close>

definition entries :: "page_cache \<Rightarrow> page_cache_key list" where
  "entries c = take (pc_size c) (pc_pages c)"

text \<open>A slot in use: its page carries the slot's number, a positive \<open>int\<close>.\<close>

definition entry_ok :: "page_cache_key \<Rightarrow> bool" where
  "entry_ok k \<longleftrightarrow> (\<exists>p. pck_page k = Some p \<and> page_id p = pck_page_id k) \<and>
     pck_page_id k \<noteq> 0 \<and> unat (pck_page_id k) < 2147483648 \<and> 0 \<le> pck_ref k"

definition cache_inv :: "page_cache \<Rightarrow> bool" where
  "cache_inv c \<longleftrightarrow> length (pc_pages c) = pc_capacity c \<and> pc_size c \<le> pc_capacity c \<and>
     sorted_wrt (<) (map pck_page_id (entries c)) \<and> (\<forall>k \<in> set (entries c). entry_ok k)"

definition cache_map :: "page_cache \<Rightarrow> u32 \<rightharpoonup> page_cache_key" where
  "cache_map c = map_of (map (\<lambda>k. (pck_page_id k, k)) (entries c))"

lemma length_entries: "cache_inv c \<Longrightarrow> length (entries c) = pc_size c"
  by (simp add: cache_inv_def entries_def)

lemma entries_nth: "i < pc_size c \<Longrightarrow> entries c ! i = pc_pages c ! i"
  by (simp add: entries_def)

lemma cache_inv_sorted:
  "cache_inv c \<Longrightarrow> i < j \<Longrightarrow> j < pc_size c
   \<Longrightarrow> pck_page_id (pc_pages c ! i) < pck_page_id (pc_pages c ! j)"
  by (auto simp: cache_inv_def entries_def sorted_wrt_iff_nth_less)

lemma cache_probes_sorted:
  assumes "cache_inv c"
  shows "probes_sorted (cache_probe (pc_pages c) pid) (int (pc_size c))"
proof -
  have len: "pc_size c \<le> length (pc_pages c)"
    using assms by (simp add: cache_inv_def)
  show ?thesis
  proof (rule probes_sorted_ascending)
    fix i assume "0 \<le> i" "i < int (pc_size c)"
    then have "nat i < length (pc_pages c)" using len by linarith
    then show "cache_probe (pc_pages c) pid i = Some (compare3 (pck_page_id (pc_pages c ! nat i)) pid)"
      by (simp add: cache_probe_def)
  qed (auto intro: cache_inv_sorted [OF assms])
qed

text \<open>What \<open>find_in_cache\<close> returns, in terms of the slots in use.\<close>

lemma find_in_cache_cases:
  assumes "cache_inv c"
  obtains (hit) i where "find_in_cache c pid = Some (i, True)" "i < pc_size c"
      "pck_page_id (pc_pages c ! i) = pid"
  | (miss) i where "find_in_cache c pid = Some (i, False)" "i \<le> pc_size c"
      "\<And>j. j < i \<Longrightarrow> pck_page_id (pc_pages c ! j) < pid"
      "\<And>j. i \<le> j \<Longrightarrow> j < pc_size c \<Longrightarrow> pid < pck_page_id (pc_pages c ! j)"
proof -
  have len: "pc_size c \<le> length (pc_pages c)"
    using assms by (simp add: cache_inv_def)
  obtain i found where
    s: "find_in_cache_loop (pc_pages c) pid 0 (int (pc_size c) - 1) = Some (i, found)"
    and post: "search_post (cache_probe (pc_pages c) pid) (int (pc_size c)) i found"
    using cache_search.search_correct [OF cache_probes_sorted [OF assms, of pid]] by auto
  have find: "find_in_cache c pid = Some (nat i, found)"
    by (simp add: find_in_cache_def s)
  show thesis
  proof (cases found)
    case True
    with post len show thesis
      by (intro hit [of "nat i"])
        (auto simp: find search_post_def cache_probe_def arr_get_def split: if_splits)
  next
    case False
    show thesis
    proof (rule miss [of "nat i"])
      show "find_in_cache c pid = Some (nat i, False)" using find False by simp
      show "nat i \<le> pc_size c" using post by (auto simp: search_post_def)
      fix j
      show "pck_page_id (pc_pages c ! j) < pid" if "j < nat i"
      proof -
        from that have "int j < i" by linarith
        then have "the (cache_probe (pc_pages c) pid (int j)) < 0"
          using search_post_before [of _ _ i "int j"] False post by simp
        moreover have "j < pc_size c"
          using \<open>int j < i\<close> post by (auto simp: search_post_def)
        ultimately show ?thesis using len by (auto simp: cache_probe_def arr_get_def split: if_splits)
      qed
      show "pid < pck_page_id (pc_pages c ! j)" if "nat i \<le> j" "j < pc_size c"
      proof -
        from that have "i \<le> int j" by linarith
        with that False post have "0 < the (cache_probe (pc_pages c) pid (int j))"
          using search_post_after [of _ _ i "int j"] by simp
        with that len show ?thesis by (auto simp: cache_probe_def arr_get_def split: if_splits)
      qed
    qed
  qed
qed

section \<open>Effect of the operations\<close>

lemma cache_map_nth:
  assumes "cache_inv c" and "i < pc_size c"
  shows "cache_map c (pck_page_id (pc_pages c ! i)) = Some (pc_pages c ! i)"
proof -
  have "distinct (map fst (map (\<lambda>k. (pck_page_id k, k)) (entries c)))"
    using assms(1) by (simp add: cache_inv_def comp_def strict_sorted_iff)
  moreover have "pc_pages c ! i \<in> set (entries c)"
    using assms by (metis entries_nth length_entries nth_mem)
  ultimately show ?thesis
    unfolding cache_map_def by (intro map_of_is_SomeI) auto
qed

lemma cache_map_SomeD:
  "cache_map c pid = Some k \<Longrightarrow> k \<in> set (entries c) \<and> pck_page_id k = pid"
  unfolding cache_map_def by (auto dest: map_of_SomeD)

lemma cache_map_None_iff: "cache_map c pid = None \<longleftrightarrow> pid \<notin> pck_page_id ` set (entries c)"
  by (simp add: cache_map_def map_of_eq_None_iff image_image)

lemma in_entries_iff:
  "cache_inv c \<Longrightarrow> k \<in> set (entries c) \<longleftrightarrow> (\<exists>i < pc_size c. k = pc_pages c ! i)"
  by (metis entries_nth in_set_conv_nth length_entries)

lemma find_in_cache_hit:
  assumes "cache_inv c" and "cache_map c pid = Some k"
  shows "\<exists>i. find_in_cache c pid = Some (i, True) \<and> i < pc_size c \<and> pc_pages c ! i = k"
proof -
  from assms obtain j where j: "j < pc_size c" "k = pc_pages c ! j" "pck_page_id k = pid"
    using cache_map_SomeD in_entries_iff by metis
  show ?thesis
  proof (cases rule: find_in_cache_cases [OF assms(1), of pid])
    case (1 i)
    with j have "i = j"
      using cache_inv_sorted [OF assms(1)] by (metis linorder_neq_iff)
    with 1 j show ?thesis by blast
  next
    case (2 i)
    with j show ?thesis by (metis linorder_not_less order_less_irrefl)
  qed
qed

lemma find_in_cache_miss:
  assumes "cache_inv c" and "cache_map c pid = None"
  shows "\<exists>i. find_in_cache c pid = Some (i, False) \<and> i \<le> pc_size c \<and>
    (\<forall>j < i. pck_page_id (pc_pages c ! j) < pid) \<and>
    (\<forall>j. i \<le> j \<and> j < pc_size c \<longrightarrow> pid < pck_page_id (pc_pages c ! j))"
proof (cases rule: find_in_cache_cases [OF assms(1), of pid])
  case (1 i)
  with cache_map_nth [OF assms(1), of i] assms(2) show ?thesis by simp
next
  case (2 i)
  then show ?thesis by blast
qed

text \<open>Replacing the slot of a page by another one for the same page.\<close>

lemma cache_update_slot:
  assumes "cache_inv c" and "i < pc_size c"
    and "pck_page_id k = pck_page_id (pc_pages c ! i)" and "entry_ok k"
  shows "cache_inv (c\<lparr>pc_pages := (pc_pages c)[i := k]\<rparr>)"
    and "cache_map (c\<lparr>pc_pages := (pc_pages c)[i := k]\<rparr>) = (cache_map c)(pck_page_id k \<mapsto> k)"
proof -
  define c' where "c' = c\<lparr>pc_pages := (pc_pages c)[i := k]\<rparr>"
  have ent: "entries c' = (entries c)[i := k]"
    by (simp add: entries_def c'_def take_update_swap)
  have ids: "map pck_page_id (entries c') = map pck_page_id (entries c)"
    using assms(1,2,3) by (simp add: ent map_update entries_nth length_entries list_update_same_conv)
  have "set (entries c') \<subseteq> insert k (set (entries c))"
    unfolding ent by (rule set_update_subset_insert)
  with ids assms(1,4) show inv: "cache_inv c'"
    by (auto simp: cache_inv_def c'_def)
  show "cache_map c' = (cache_map c)(pck_page_id k \<mapsto> k)"
  proof
    fix pid
    have size: "pc_size c' = pc_size c" by (simp add: c'_def)
    have len: "i < length (pc_pages c)" using assms by (simp add: cache_inv_def)
    show "cache_map c' pid = ((cache_map c)(pck_page_id k \<mapsto> k)) pid"
    proof (cases "pid = pck_page_id k")
      case True
      then show ?thesis
        using cache_map_nth [OF inv, of i] assms(2) size len by (simp add: c'_def)
    next
      case False
      show ?thesis
      proof (cases "cache_map c pid")
        case None
        then have "pid \<notin> set (map pck_page_id (entries c'))"
          unfolding ids by (simp add: cache_map_None_iff)
        then have "cache_map c' pid = None" by (simp add: cache_map_None_iff)
        with None False show ?thesis by simp
      next
        case (Some q)
        then obtain j where j: "j < pc_size c" "q = pc_pages c ! j" "pck_page_id q = pid"
          using cache_map_SomeD in_entries_iff [OF assms(1)] by metis
        with False assms(3) have "i \<noteq> j" by auto
        with j have "pc_pages c' ! j = q" by (simp add: c'_def)
        with Some False j size cache_map_nth [OF inv, of j] show ?thesis by simp
      qed
    qed
  qed
qed

lemma entry_ok_ref: "entry_ok k \<Longrightarrow> 0 \<le> r \<Longrightarrow> entry_ok (k\<lparr>pck_ref := r\<rparr>)"
  by (simp add: entry_ok_def)

lemma cache_entry_ok: "cache_inv c \<Longrightarrow> cache_map c pid = Some k \<Longrightarrow> entry_ok k \<and> pck_page_id k = pid"
  using cache_map_SomeD by (auto simp: cache_inv_def)

lemma page_cache_acquire_hit:
  assumes "cache_inv c" and "cache_map c pid = Some k"
  shows "\<exists>i c'. page_cache_acquire c pid = Some (PAGER_OK, Some i, c') \<and> i < pc_size c' \<and>
    cache_deref c' i = pck_page k \<and> cache_inv c' \<and>
    pc_pages c' ! i = k\<lparr>pck_ref := pck_ref k + 1\<rparr> \<and>
    cache_map c' = (cache_map c)(pid \<mapsto> k\<lparr>pck_ref := pck_ref k + 1\<rparr>) \<and>
    pc_size c' = pc_size c \<and> pc_capacity c' = pc_capacity c"
proof -
  obtain i where i: "find_in_cache c pid = Some (i, True)" "i < pc_size c" "pc_pages c ! i = k"
    using find_in_cache_hit [OF assms] by blast
  note k = cache_entry_ok [OF assms]
  have ref: "0 \<le> pck_ref k + 1" using k by (simp add: entry_ok_def)
  have len: "i < length (pc_pages c)" using assms(1) i(2) by (simp add: cache_inv_def)
  note upd = cache_update_slot [OF assms(1) i(2), of "k\<lparr>pck_ref := pck_ref k + 1\<rparr>"]
  show ?thesis
    using i len k upd entry_ok_ref [OF conjunct1 [OF k] ref]
    by (simp add: page_cache_acquire_def cache_deref_def)
qed

lemma page_cache_acquire_miss:
  assumes "cache_inv c" and "cache_map c pid = None"
  shows "page_cache_acquire c pid = Some (PAGER_ERR_CACHE_MISS, None, c)"
  using find_in_cache_miss [OF assms] by (auto simp: page_cache_acquire_def)

lemma page_cache_release_hit:
  assumes "cache_inv c" and "cache_map c (page_id p) = Some k"
  shows "\<exists>c'. page_cache_release c p = Some (PAGER_OK, c') \<and> cache_inv c' \<and>
    cache_map c' = (cache_map c)(page_id p \<mapsto> k\<lparr>pck_ref := max 0 (pck_ref k - 1)\<rparr>) \<and>
    pc_size c' = pc_size c \<and> pc_capacity c' = pc_capacity c"
proof -
  obtain i where i: "find_in_cache c (page_id p) = Some (i, True)" "i < pc_size c"
      "pc_pages c ! i = k"
    using find_in_cache_hit [OF assms] by blast
  note k = cache_entry_ok [OF assms]
  have ref: "pck_ref k - (if pck_ref k \<noteq> 0 then 1 else 0) = max 0 (pck_ref k - 1)"
    using k by (auto simp: entry_ok_def)
  have len: "i < length (pc_pages c)" using assms(1) i(2) by (simp add: cache_inv_def)
  note upd = cache_update_slot [OF assms(1) i(2), of "k\<lparr>pck_ref := max 0 (pck_ref k - 1)\<rparr>"]
  show ?thesis
    using i len k upd entry_ok_ref [OF conjunct1 [OF k], of "max 0 (pck_ref k - 1)"]
    by (simp add: page_cache_release_def ref del: max_def)
qed

lemma page_cache_release_miss:
  assumes "cache_inv c" and "cache_map c (page_id p) = None"
  shows "page_cache_release c p = Some (PAGER_OK, c)"
  using find_in_cache_miss [OF assms] by (auto simp: page_cache_release_def)

lemma cache_store_slot:
  assumes "cache_inv c" and "i < pc_size c" and "page_id q = pck_page_id (pc_pages c ! i)"
  shows "\<exists>c'. cache_store c i q = Some c' \<and> cache_inv c' \<and>
    cache_map c' = (cache_map c)(page_id q \<mapsto> (pc_pages c ! i)\<lparr>pck_page := Some q\<rparr>) \<and>
    pc_size c' = pc_size c \<and> pc_capacity c' = pc_capacity c"
proof -
  have len: "i < length (pc_pages c)" using assms(1,2) by (simp add: cache_inv_def)
  have "pc_pages c ! i \<in> set (entries c)"
    using assms(1,2) by (auto simp: in_entries_iff)
  then have "entry_ok ((pc_pages c ! i)\<lparr>pck_page := Some q\<rparr>)"
    using assms(1,3) by (auto simp: cache_inv_def entry_ok_def)
  with len assms(3) show ?thesis
    using cache_update_slot [OF assms(1,2), of "(pc_pages c ! i)\<lparr>pck_page := Some q\<rparr>"]
    by (simp add: cache_store_def)
qed

section \<open>Eviction and insertion\<close>

lemma cache_map_Some_iff:
  assumes "cache_inv c"
  shows "cache_map c pid = Some k \<longleftrightarrow> k \<in> set (entries c) \<and> pck_page_id k = pid"
proof
  assume "k \<in> set (entries c) \<and> pck_page_id k = pid"
  with assms obtain i where "i < pc_size c" "k = pc_pages c ! i" "pck_page_id k = pid"
    using in_entries_iff [OF assms] by auto
  with cache_map_nth [OF assms] show "cache_map c pid = Some k" by blast
qed (rule cache_map_SomeD)

lemma cache_map_eqI:
  assumes "cache_inv c'"
    and "\<And>pid k. k \<in> set (entries c') \<and> pck_page_id k = pid \<longleftrightarrow> m pid = Some k"
  shows "cache_map c' = m"
proof
  fix pid
  have "cache_map c' pid = Some k \<longleftrightarrow> m pid = Some k" for k
    using assms(2) cache_map_Some_iff [OF assms(1)] by simp
  then show "cache_map c' pid = m pid"
    by (cases "m pid"; cases "cache_map c' pid") auto
qed

lemma find_unreferenced_Some:
  "find_unreferenced ks i = Some e \<Longrightarrow>
     i \<le> e \<and> e - i < length ks \<and> pck_ref (ks ! (e - i)) = 0 \<and> (\<forall>j < e - i. pck_ref (ks ! j) \<noteq> 0)"
proof (induction ks arbitrary: i)
  case (Cons k ks)
  show ?case
  proof (cases "pck_ref k = 0")
    case True
    with Cons.prems show ?thesis by auto
  next
    case False
    with Cons.prems have "find_unreferenced ks (Suc i) = Some e" by simp
    note IH = Cons.IH [OF this]
    then have e: "e - i = Suc (e - Suc i)" by auto
    show ?thesis unfolding e using IH False by (auto simp: less_Suc_eq_0_disj nth_Cons')
  qed
qed simp

lemma find_unreferenced_None:
  "find_unreferenced ks i = None \<longleftrightarrow> (\<forall>k \<in> set ks. pck_ref k \<noteq> 0)"
  by (induction ks arbitrary: i) auto

lemma sorted_ids_distinct:
  "cache_inv c \<Longrightarrow> distinct (map pck_page_id (entries c))"
  by (simp add: cache_inv_def strict_sorted_iff)

lemma set_remove_nth:
  assumes "distinct (map f xs)" and "e < length xs"
  shows "set (take e xs @ drop (Suc e) xs) = {x \<in> set xs. f x \<noteq> f (xs ! e)}"
proof -
  define as x bs where "as = take e xs" and "x = xs ! e" and "bs = drop (Suc e) xs"
  have xs: "xs = as @ x # bs"
    unfolding as_def x_def bs_def by (rule id_take_nth_drop [OF assms(2)])
  have "distinct (map f as @ f x # map f bs)"
    using assms(1) unfolding xs by simp
  then have "set (as @ bs) = {y \<in> set (as @ x # bs). f y \<noteq> f x}"
    by (auto simp: image_iff; metis)
  then show ?thesis
    unfolding xs [symmetric] by (simp only: as_def x_def bs_def)
qed

lemma sorted_remove_nth:
  assumes "sorted_wrt R xs" and "e < length xs"
  shows "sorted_wrt R (take e xs @ drop (Suc e) xs)"
proof -
  define as x bs where "as = take e xs" and "x = xs ! e" and "bs = drop (Suc e) xs"
  have xs: "xs = as @ x # bs"
    unfolding as_def x_def bs_def by (rule id_take_nth_drop [OF assms(2)])
  have "sorted_wrt R (as @ bs)"
    using assms(1) unfolding xs by (simp add: sorted_wrt_append)
  then show ?thesis by (simp only: as_def bs_def)
qed

lemma cache_evict_spec:
  assumes "cache_inv c" and "find_unreferenced (entries c) 0 = Some e"
  shows "\<exists>c'. cache_evict c = Some (pck_page (pc_pages c ! e), c') \<and> cache_inv c' \<and>
    cache_map c' = (cache_map c)(pck_page_id (pc_pages c ! e) := None) \<and>
    pc_size c' = pc_size c - 1 \<and> pc_capacity c' = pc_capacity c"
proof -
  have inv: "length (pc_pages c) = pc_capacity c" "pc_size c \<le> pc_capacity c"
    using assms(1) by (auto simp: cache_inv_def)
  have e: "e < pc_size c"
    using find_unreferenced_Some [OF assms(2)] length_entries [OF assms(1)] by simp
  with inv have el: "e < length (pc_pages c)" by simp
  define c' where "c' = c\<lparr>pc_pages := take e (pc_pages c) @ drop (e + 1) (pc_pages c) @ [zero_key],
    pc_size := pc_size c - 1\<rparr>"
  have read: "mem_read (pc_pages c) 0 (pc_size c) = Some (entries c)"
    using inv by (simp add: mem_read_def entries_def)
  have run: "cache_evict c = Some (pck_page (pc_pages c ! e), c')"
    using mem_move_close [OF el, of zero_key, unfolded inv] e el
    by (simp add: cache_evict_def read assms(2) c'_def bind_option_Some_iff) metis
  have ent: "entries c' = take e (entries c) @ drop (Suc e) (entries c)"
    using e inv by (simp add: entries_def c'_def drop_take min_absorb1 min_absorb2)
  have set: "set (entries c') = {k \<in> set (entries c). pck_page_id k \<noteq> pck_page_id (pc_pages c ! e)}"
    unfolding ent
    using set_remove_nth [OF sorted_ids_distinct [OF assms(1)], of e] e
    by (simp add: length_entries [OF assms(1)] entries_nth)
  have "sorted_wrt (<) (map pck_page_id (entries c'))"
    using sorted_remove_nth [of "(<)" "map pck_page_id (entries c)" e] assms(1) e
    by (simp add: cache_inv_def ent length_entries [OF assms(1)] take_map drop_map)
  moreover have "length (pc_pages c') = pc_capacity c'" "pc_size c' \<le> pc_capacity c'"
    using e inv by (auto simp: c'_def)
  moreover have "\<forall>k \<in> set (entries c'). entry_ok k"
    using assms(1) unfolding set by (simp add: cache_inv_def)
  ultimately have inv': "cache_inv c'"
    by (simp add: cache_inv_def)
  have "cache_map c' = (cache_map c)(pck_page_id (pc_pages c ! e) := None)"
    using set cache_map_Some_iff [OF assms(1)] by (intro cache_map_eqI [OF inv']) auto
  with run inv' show ?thesis by (auto simp: c'_def)
qed

lemma cache_evict_stuck:
  assumes "cache_inv c" and "\<forall>k \<in> set (entries c). pck_ref k \<noteq> 0"
  shows "cache_evict c = None"
proof -
  have "mem_read (pc_pages c) 0 (pc_size c) = Some (entries c)"
    using assms(1) by (simp add: cache_inv_def mem_read_def entries_def)
  then show ?thesis
    using assms(2) find_unreferenced_None [of "entries c" 0]
    by (simp add: cache_evict_def require_def)
qed

text \<open>A page the cache can hold.\<close>

definition cacheable :: "page \<Rightarrow> bool" where
  "cacheable p \<longleftrightarrow> page_id p \<noteq> 0 \<and> unat (page_id p) < 2147483648"

definition fresh_entry :: "page \<Rightarrow> page_cache_key" where
  "fresh_entry p = \<lparr>pck_page_id = page_id p, pck_page = Some p, pck_ref = 1\<rparr>"

text \<open>The tail of \<open>page_cache_insert\<close>, once there is room.\<close>

lemma cache_correct_sorted:
  assumes "sorted_wrt (<) (map pck_page_id ks)" and "\<forall>k \<in> set ks. entry_ok k"
  shows "cache_correct ks"
  using assms
proof (induction ks rule: cache_correct.induct)
  case (1 a b ks)
  then have "unat (pck_page_id a) < 2147483648" "unat (pck_page_id b) < 2147483648"
    by (auto simp: entry_ok_def)
  with 1 show ?case by (simp add: word_sless_u32_small word_less_nat_alt)
qed simp_all

definition insert_at :: "nat \<Rightarrow> 'a \<Rightarrow> 'a list \<Rightarrow> 'a list" where
  "insert_at i x xs = take i xs @ x # drop i xs"

lemma length_insert_at [simp]: "i \<le> length xs \<Longrightarrow> length (insert_at i x xs) = Suc (length xs)"
  by (simp add: insert_at_def)

lemma set_insert_at [simp]: "set (insert_at i x xs) = insert x (set xs)"
  using set_append [of "take i xs" "drop i xs"] by (simp add: insert_at_def)

lemma map_insert_at: "map f (insert_at i x xs) = insert_at i (f x) (map f xs)"
  by (simp add: insert_at_def take_map drop_map)

lemma sorted_insert_at:
  assumes "sorted_wrt (<) xs" and "\<And>j. j < i \<Longrightarrow> j < length xs \<Longrightarrow> xs ! j < x"
    and "\<And>j. i \<le> j \<Longrightarrow> j < length xs \<Longrightarrow> x < xs ! j"
  shows "sorted_wrt (<) (insert_at i (x :: 'a :: linorder) xs)"
proof -
  have "sorted_wrt (<) (take i xs @ drop i xs)" using assms(1) by simp
  moreover have "\<forall>y \<in> set (take i xs). y < x"
    using assms(2) by (force simp: in_set_conv_nth)
  moreover have "\<forall>y \<in> set (drop i xs). x < y"
    using assms(3) by (force simp: in_set_conv_nth)
  ultimately show ?thesis by (simp only: insert_at_def sorted_wrt_append sorted_wrt.simps) auto
qed

lemma page_cache_insert_room:
  assumes inv: "cache_inv c" and room: "pc_size c < pc_capacity c"
    and new: "cache_map c (page_id p) = None" and ok: "cacheable p"
  shows "\<exists>c'. page_cache_insert c p = Some (PAGER_OK, None, c') \<and> cache_inv c' \<and>
    cache_map c' = (cache_map c)(page_id p \<mapsto> fresh_entry p) \<and>
    pc_size c' = pc_size c + 1 \<and> pc_capacity c' = pc_capacity c"
proof -
  have lens: "length (pc_pages c) = pc_capacity c" using inv by (simp add: cache_inv_def)
  obtain i where i: "find_in_cache c (page_id p) = Some (i, False)" "i \<le> pc_size c"
      "\<forall>j < i. pck_page_id (pc_pages c ! j) < page_id p"
      "\<forall>j. i \<le> j \<and> j < pc_size c \<longrightarrow> page_id p < pck_page_id (pc_pages c ! j)"
    using find_in_cache_miss [OF inv new] by blast
  have il: "i < length (pc_pages c)" using i(2) room lens by simp
  define pages where "pages = take i (pc_pages c) @ fresh_entry p #
    take (pc_capacity c - 1 - i) (drop i (pc_pages c))"
  define c' where "c' = c\<lparr>pc_pages := pages, pc_size := pc_size c + 1\<rparr>"
  have ent: "entries c' = insert_at i (fresh_entry p) (entries c)"
    using i(2) room lens
    by (simp add: entries_def c'_def pages_def insert_at_def drop_take min_absorb1 min_absorb2
        Suc_diff_le)
  have plen: "length pages = pc_capacity c"
    using il lens by (simp add: pages_def)
  have "sorted_wrt (<) (map pck_page_id (entries c'))"
    using inv i length_entries [OF inv]
    by (simp add: ent map_insert_at fresh_entry_def cache_inv_def)
      (rule sorted_insert_at, simp_all add: entries_nth)
  moreover have "\<forall>k \<in> set (entries c'). entry_ok k"
    using inv ok by (simp add: ent cache_inv_def entry_ok_def fresh_entry_def cacheable_def)
  ultimately have inv': "cache_inv c'"
    using plen room by (simp add: cache_inv_def c'_def)
  have "pc_size c' = Suc (pc_size c)" by (simp add: c'_def)
  have corr: "cache_correct (take (pc_size c) pages)"
  proof (rule cache_correct_sorted)
    have eq: "take (pc_size c) pages = take (pc_size c) (entries c')"
      by (simp add: entries_def c'_def)
    show "sorted_wrt (<) (map pck_page_id (take (pc_size c) pages))"
      using inv' unfolding eq by (simp add: cache_inv_def sorted_wrt_take flip: take_map)
    show "\<forall>k \<in> set (take (pc_size c) pages). entry_ok k"
      using inv' unfolding eq by (meson cache_inv_def in_set_takeD)
  qed
  obtain moved where
    "mem_move (pc_pages c) (i + 1) i (pc_capacity c - 1 - i) = Some moved"
    "arr_set moved i (fresh_entry p) = Some pages"
    using mem_move_gap [OF il, of "fresh_entry p", unfolded lens]
    by (auto simp: bind_option_Some_iff pages_def)
  then have run: "page_cache_insert c p = Some (PAGER_OK, None, c')"
    using corr plen room ok i(1)
    by (simp add: page_cache_insert_def cacheable_def c'_def fresh_entry_def mem_read_def)
  have fresh: "\<forall>k \<in> set (entries c). pck_page_id k \<noteq> page_id p"
    using new by (auto simp: cache_map_None_iff image_iff)
  have "cache_map c' = (cache_map c)(page_id p \<mapsto> fresh_entry p)"
    using fresh cache_map_Some_iff [OF inv]
    by (intro cache_map_eqI [OF inv']) (auto simp: ent fresh_entry_def)
  with run inv' show ?thesis by (auto simp: c'_def)
qed

text \<open>The slot a full cache gives up: its first unreferenced page.\<close>

definition victim :: "page_cache \<Rightarrow> page_cache_key option" where
  "victim c = map_option (\<lambda>e. pc_pages c ! e) (find_unreferenced (entries c) 0)"

lemma victim_in_cache:
  assumes "cache_inv c" and "victim c = Some v"
  shows "cache_map c (pck_page_id v) = Some v \<and> pck_ref v = 0"
proof -
  obtain e where e: "find_unreferenced (entries c) 0 = Some e" "v = pc_pages c ! e"
    using assms(2) by (auto simp: victim_def)
  have "e < pc_size c" "pck_ref (entries c ! e) = 0"
    using find_unreferenced_Some [OF e(1)] length_entries [OF assms(1)] by auto
  then show ?thesis using cache_map_nth [OF assms(1)] e(2) by (simp add: entries_nth)
qed

lemma victim_None_iff:
  "victim c = None \<longleftrightarrow> (\<forall>k \<in> set (entries c). pck_ref k \<noteq> 0)"
  by (simp add: victim_def find_unreferenced_None)

lemma page_cache_insert_full:
  assumes inv: "cache_inv c" and full: "pc_size c = pc_capacity c" and v: "victim c = Some v"
    and new: "cache_map c (page_id p) = None" and ok: "cacheable p"
  shows "\<exists>c'. page_cache_insert c p = Some (PAGER_OK, pck_page v, c') \<and> cache_inv c' \<and>
    cache_map c' = (cache_map c)(pck_page_id v := None, page_id p \<mapsto> fresh_entry p) \<and>
    pc_size c' = pc_size c \<and> pc_capacity c' = pc_capacity c"
proof -
  obtain e where e: "find_unreferenced (entries c) 0 = Some e" "v = pc_pages c ! e"
    using v by (auto simp: victim_def)
  have "e < pc_size c"
    using find_unreferenced_Some [OF e(1)] length_entries [OF inv] by auto
  then have pos: "pc_size c \<noteq> 0" by simp
  obtain c1 where c1: "cache_evict c = Some (pck_page v, c1)" "cache_inv c1"
      "cache_map c1 = (cache_map c)(pck_page_id v := None)"
      "pc_size c1 = pc_size c - 1" "pc_capacity c1 = pc_capacity c"
    using cache_evict_spec [OF inv e(1)] e(2) by auto
  have room: "pc_size c1 < pc_capacity c1" using c1 pos full by simp
  have "cache_map c1 (page_id p) = None" using new c1(3) by simp
  from page_cache_insert_room [OF c1(2) room this ok]
  obtain c' where c': "page_cache_insert c1 p = Some (PAGER_OK, None, c')" "cache_inv c'"
    "cache_map c' = (cache_map c1)(page_id p \<mapsto> fresh_entry p)"
    "pc_size c' = pc_size c1 + 1" "pc_capacity c' = pc_capacity c1" by auto
  have "page_cache_insert c p = Some (PAGER_OK, pck_page v, c')"
    using c'(1) c1(1) room full
    by (simp add: page_cache_insert_def bind_option_Some_iff)
  with c' c1 pos full show ?thesis by auto
qed

text \<open>A full cache whose pages are all held aborts; so does a cache of capacity zero.\<close>

lemma page_cache_insert_stuck:
  assumes "cache_inv c" and "pc_size c = pc_capacity c" and "victim c = None"
  shows "page_cache_insert c p = None"
  using cache_evict_stuck [OF assms(1)] assms(2,3)
  by (simp add: page_cache_insert_def victim_None_iff require_def)

lemma page_cache_create_inv [simp]:
  "cache_inv (snd (page_cache_create n))" "cache_map (snd (page_cache_create n)) = Map.empty"
  "pc_capacity (snd (page_cache_create n)) = n"
  by (simp_all add: page_cache_create_def cache_inv_def entries_def cache_map_def)

end
