(* ===== verification/PagerOps.thy ===== *)
theory PagerOps
  imports Page
begin

text \<open>
  \<open>pager_ops.h\<close> and \<open>pager_ops_cstd.c\<close>: the table of file operations a pager calls through,
  its implementation with C streams, and the contract the pager relies on.

  A table is a record of functions, as the struct of function pointers is, over any type of
  open file.  The streams of the C library are modelled by what the code uses of them:
  \<open>fopen\<close> with modes \<open>rb+\<close> and \<open>wb+\<close>, \<open>fseek\<close>, \<open>ftell\<close>, and \<open>fread\<close> and \<open>fwrite\<close> of one
  item.  An open stream is the content of its file and the number of bytes the
  disk can hold for it; \<open>fwrite\<close> past that number fails.
\<close>

record 'f pager_ops =
  op_open :: "string \<Rightarrow> pager_e \<times> 'f option"
  op_read :: "'f \<Rightarrow> bytes \<Rightarrow> int \<Rightarrow> int \<Rightarrow> (pager_e \<times> bytes) option"
  op_write :: "'f \<Rightarrow> bytes \<Rightarrow> int \<Rightarrow> int \<Rightarrow> (pager_e \<times> 'f) option"
  op_close :: "'f \<Rightarrow> pager_e"
  op_size :: "'f \<Rightarrow> int"

record cfile =
  cf_data :: bytes
  cf_quota :: nat

record cfs =
  fs_files :: "string \<rightharpoonup> cfile"
  fs_new_quota :: "nat option"

text \<open>
  \<open>fwrite\<close> at a position: a position behind the end of the file fills the gap with zeros.
\<close>

definition blit :: "bytes \<Rightarrow> nat \<Rightarrow> bytes \<Rightarrow> bytes" where
  "blit d off xs = take off (d @ replicate (off - length d) 0) @ xs @ drop (off + length xs) d"

definition co_open :: "cfs \<Rightarrow> string \<Rightarrow> pager_e \<times> cfile option" where
  "co_open fs filename =
     (case fs_files fs filename of
        Some fp \<Rightarrow> (PAGER_OK, Some fp)
      | None \<Rightarrow> (case fs_new_quota fs of
          Some q \<Rightarrow> (PAGER_OK, Some \<lparr>cf_data = [], cf_quota = q\<rparr>)
        | None \<Rightarrow> (PAGER_OPEN_ERR, None)))"

definition co_size :: "cfile \<Rightarrow> int" where
  "co_size file = int (length (cf_data file))"

definition co_close :: "cfile \<Rightarrow> pager_e" where
  "co_close file = PAGER_OK"

definition co_read :: "cfile \<Rightarrow> bytes \<Rightarrow> int \<Rightarrow> int \<Rightarrow> (pager_e \<times> bytes) option" where
  "co_read file buffer offset read_size =
     (if offset < 0 then Some (PAGER_SEEK_ERR, buffer)
      else do {
        require (0 \<le> read_size);
        (let xs = take (nat read_size) (drop (nat offset) (cf_data file)) in do {
           buffer' \<leftarrow> mem_write buffer 0 xs;
           Some (if 0 < read_size \<and> length xs = nat read_size then PAGER_OK else PAGER_READ_ERR,
                 buffer')
         })
      })"

definition co_write :: "cfile \<Rightarrow> bytes \<Rightarrow> int \<Rightarrow> int \<Rightarrow> (pager_e \<times> cfile) option" where
  "co_write file buffer offset write_size =
     do {
       require (offset < 0x10000);
       (if offset < 0 then Some (PAGER_SEEK_ERR, file)
        else do {
          require (0 \<le> write_size);
          data \<leftarrow> mem_read buffer 0 (nat write_size);
          (let xs = take (cf_quota file - nat offset) data in
           Some (if 0 < write_size \<and> length xs = nat write_size then PAGER_OK else PAGER_WRITE_ERR,
                 if xs = [] then file
                 else file\<lparr>cf_data := blit (cf_data file) (nat offset) xs\<rparr>))
        })
     }"

definition CStdOps :: "cfs \<Rightarrow> cfile pager_ops" where
  "CStdOps fs = \<lparr>op_open = co_open fs, op_read = co_read, op_write = co_write,
     op_close = co_close, op_size = co_size\<rparr>"

section \<open>Storing into a file\<close>

lemma length_blit: "length (blit d off xs) = max (length d) (off + length xs)"
  by (simp add: blit_def)

lemma take_drop_blit_same: "take (length xs) (drop off (blit d off xs)) = xs"
  by (simp add: blit_def)

lemma take_drop_blit_before:
  "p + n \<le> off \<Longrightarrow> p + n \<le> length d \<Longrightarrow> take n (drop p (blit d off xs)) = take n (drop p d)"
  by (simp add: blit_def drop_take min_def)

lemma take_drop_blit_after:
  assumes "off + length xs \<le> p"
  shows "take n (drop p (blit d off xs)) = take n (drop p d)"
proof (cases "off + length xs \<le> length d")
  case True
  with assms show ?thesis by (simp add: blit_def min_def drop_Cons')
next
  case False
  with assms show ?thesis by (simp add: blit_def min_def)
qed

section \<open>The contract of a table of operations\<close>

text \<open>
  \<open>contents\<close> is the byte string an open file holds.  The pager relies on five laws: a
  read inside the file returns its bytes; a read that is not covered by the file reports
  \<open>PAGER_READ_ERR\<close>; the size is the length; where \<open>room\<close> says so, a write is accepted and
  takes effect; and room does not shrink.
\<close>

locale block_device =
  fixes ops :: "'f pager_ops"
    and contents :: "'f \<Rightarrow> bytes"
    and room :: "'f \<Rightarrow> int \<Rightarrow> int \<Rightarrow> bool"
  assumes read_inside:
    "0 \<le> off \<Longrightarrow> 0 < n \<Longrightarrow> off + n \<le> int (length (contents f)) \<Longrightarrow> n \<le> int (length buf)
     \<Longrightarrow> op_read ops f buf off n =
         Some (PAGER_OK, take (nat n) (drop (nat off) (contents f)) @ drop (nat n) buf)"
    and read_outside:
    "0 \<le> off \<Longrightarrow> 0 < n \<Longrightarrow> int (length (contents f)) < off + n \<Longrightarrow> n \<le> int (length buf)
     \<Longrightarrow> \<exists>buf'. op_read ops f buf off n = Some (PAGER_READ_ERR, buf')"
    and size_contents: "op_size ops f = int (length (contents f))"
    and write_room:
    "0 \<le> off \<Longrightarrow> 0 < n \<Longrightarrow> n \<le> int (length buf) \<Longrightarrow> room f off n
     \<Longrightarrow> \<exists>f'. op_write ops f buf off n = Some (PAGER_OK, f') \<and>
           contents f' = blit (contents f) (nat off) (take (nat n) buf) \<and> room f' = room f"
begin

lemma write_then_read:
  assumes "0 \<le> off" and "0 < n" and "n \<le> int (length buf)" and "room f off n"
    and "n \<le> int (length buf2)"
  shows "\<exists>f'. op_write ops f buf off n = Some (PAGER_OK, f') \<and>
    op_read ops f' buf2 off n = Some (PAGER_OK, take (nat n) buf @ drop (nat n) buf2)"
proof -
  obtain f' where f': "op_write ops f buf off n = Some (PAGER_OK, f')"
    "contents f' = blit (contents f) (nat off) (take (nat n) buf)"
    using write_room [OF assms(1-4)] by blast
  have len: "nat n \<le> length buf" using assms(3) by linarith
  then have "int (length (contents f')) \<ge> off + n"
    using assms(1,2) by (simp add: f'(2) length_blit)
  moreover have "take (nat n) (drop (nat off) (contents f')) = take (nat n) buf"
    using take_drop_blit_same [of "take (nat n) buf" "nat off" "contents f"] len
    by (simp add: f'(2) min_absorb2)
  ultimately show ?thesis
    using read_inside [OF assms(1,2) _ assms(5), of f'] f'(1) by simp
qed

end

text \<open>The streams: a write needs to start below 64 KiB and to fit on the disk.\<close>

definition co_room :: "cfile \<Rightarrow> int \<Rightarrow> int \<Rightarrow> bool" where
  "co_room f off n \<longleftrightarrow> off < 65536 \<and> off + n \<le> int (cf_quota f)"

lemma co_room_data [simp]: "co_room (f\<lparr>cf_data := d\<rparr>) = co_room f"
  by (simp add: fun_eq_iff co_room_def)

interpretation cstd: block_device "CStdOps fs" cf_data co_room for fs
proof
  fix off n :: int and f :: cfile and buf :: bytes
  assume off: "0 \<le> off" and n: "0 < n" and buf: "n \<le> int (length buf)"
  have nl: "nat n \<le> length buf" using buf by linarith
  show "op_read (CStdOps fs) f buf off n =
         Some (PAGER_OK, take (nat n) (drop (nat off) (cf_data f)) @ drop (nat n) buf)"
    if "off + n \<le> int (length (cf_data f))"
  proof -
    have "nat off + nat n \<le> length (cf_data f)" using that off n by linarith
    then have "length (take (nat n) (drop (nat off) (cf_data f))) = nat n" by simp
    with off n nl show ?thesis
      by (simp add: CStdOps_def co_read_def mem_write_def Let_def)
  qed
  show "\<exists>buf'. op_read (CStdOps fs) f buf off n = Some (PAGER_READ_ERR, buf')"
    if "int (length (cf_data f)) < off + n"
  proof -
    have "length (take (nat n) (drop (nat off) (cf_data f))) < nat n" using that off n by simp
    with off n nl show ?thesis
      by (auto simp: CStdOps_def co_read_def mem_write_def Let_def min_def split: if_splits)
  qed
  show "\<exists>f'. op_write (CStdOps fs) f buf off n = Some (PAGER_OK, f') \<and>
      cf_data f' = blit (cf_data f) (nat off) (take (nat n) buf) \<and> co_room f' = co_room f"
    if "co_room f off n"
  proof -
    have "nat n \<le> cf_quota f - nat off" using that off n unfolding co_room_def by linarith
    with that off n nl show ?thesis
      by (auto simp: CStdOps_def co_write_def co_room_def mem_read_def Let_def min_absorb1 min_absorb2)
  qed
next
  fix f :: cfile
  show "op_size (CStdOps fs) f = int (length (cf_data f))"
    by (simp add: CStdOps_def co_size_def)
qed

end
