(* ===== verification/Pager.thy ===== *)
theory Pager
  imports PageCache PagerOps
begin

text \<open>
  \<open>pager_internal.c\<close>, \<open>pager_freelist.c\<close> and \<open>pager.c\<close>: reading and writing pages through
  the cache, the free list threaded through the metadata of the pages, and the
  allocation of page numbers.  The functions take the pager and return it updated; a page that is
  filled or changed in place is returned as well.  Allocation and release of the page objects is
  not modelled, as \<open>malloc\<close> is taken to succeed.
\<close>

record 'f pager =
  pgr_name :: string
  pgr_ops :: "'f pager_ops"
  pgr_disk_page_size :: u32
  pgr_page_size :: u32
  pgr_max_page :: u32
  pgr_file :: "'f option"
  pgr_cache :: page_cache

definition page_create :: "'f pager \<Rightarrow> (pager_e \<times> page) option" where
  "page_create pager = page_create_sized (pgr_disk_page_size pager) (pgr_page_size pager)"

section \<open>Cached access: \<open>pager_internal.c\<close>\<close>

definition page_commit :: "'f pager \<Rightarrow> page \<Rightarrow> (pager_e \<times> 'f pager) option" where
  "page_commit pager page =
     do {
       require (page_id page \<noteq> 0);
       (_, evicted, cache) \<leftarrow> page_cache_insert (pgr_cache pager) page;
       Some (PAGER_OK, pager\<lparr>pgr_cache := cache\<rparr>)
     }"

definition read_from_disk ::
  "'f pager \<Rightarrow> page_selector \<Rightarrow> page \<Rightarrow> (pager_e \<times> page) option" where
  "read_from_disk pager selector page =
     do {
       require (sel_page_id selector \<noteq> PAGE_CREATE_NEW_PAGE);
       file \<leftarrow> pgr_file pager;
       (let offset = pgr_disk_page_size pager * (sel_page_id selector - 1) in do {
          (pager_result, m) \<leftarrow> op_read (pgr_ops pager) file (page_mem page)
                                 (sint offset) (sint (pgr_disk_page_size pager));
          Some (pager_result, page\<lparr>page_mem := m, page_id := sel_page_id selector\<rparr>)
        })
     }"

definition pager_internal_read ::
  "'f pager \<Rightarrow> page_selector \<Rightarrow> page \<Rightarrow> (pager_e \<times> page) option" where
  "pager_internal_read pager selector page = read_from_disk pager selector page"

text \<open>
  The page that is copied out is the cached one on a hit and the page just read on a miss.
\<close>

definition pager_internal_cached_read ::
  "'f pager \<Rightarrow> page_selector \<Rightarrow> page \<Rightarrow> (pager_e \<times> 'f pager \<times> page) option" where
  "pager_internal_cached_read pager selector page =
     do {
       require (sel_page_id selector \<noteq> PAGE_CREATE_NEW_PAGE);
       (let pid = sel_page_id selector in do {
          (acq, slot, cache) \<leftarrow> page_cache_acquire (pgr_cache pager) pid;
          (let pager = pager\<lparr>pgr_cache := cache\<rparr> in do {
             (result, cached_page, pager) \<leftarrow>
               (if acq = PAGER_ERR_CACHE_MISS then do {
                  (_, fresh) \<leftarrow> page_create pager;
                  (result, fresh) \<leftarrow> pager_internal_read pager selector fresh;
                  if result = PAGER_READ_ERR then Some (PAGER_ERR_NIF, None, pager)
                  else do {
                    (_, pager) \<leftarrow> page_commit pager fresh;
                    Some (PAGER_OK, Some fresh, pager)
                  }
                } else do {
                  i \<leftarrow> slot;
                  cached_page \<leftarrow> cache_deref (pgr_cache pager) i;
                  Some (acq, Some cached_page, pager)
                });
             (pager, page) \<leftarrow>
               (if result = PAGER_OK then do {
                  src \<leftarrow> cached_page;
                  page \<leftarrow> pagemeta_memcpy_page page src (pgr_disk_page_size pager);
                  (_, cache) \<leftarrow> page_cache_release (pgr_cache pager) src;
                  Some (pager\<lparr>pgr_cache := cache\<rparr>, page)
                } else Some (pager, page));
             Some (result, pager, page\<lparr>page_id := pid, page_status := result\<rparr>)
           })
        })
     }"

text \<open>The result of the write operation is not looked at.\<close>

definition pager_internal_write :: "'f pager \<Rightarrow> page \<Rightarrow> (pager_e \<times> 'f pager) option" where
  "pager_internal_write pager page =
     do {
       file \<leftarrow> pgr_file pager;
       (let offset = pgr_disk_page_size pager * (page_id page - 1) in do {
          (_, file') \<leftarrow> op_write (pgr_ops pager) file (page_mem page)
                          (sint offset) (sint (pgr_disk_page_size pager));
          Some (PAGER_OK, pager\<lparr>pgr_file := Some file',
            pgr_max_page := (if page_id page > pgr_max_page pager then page_id page
                             else pgr_max_page pager)\<rparr>)
        })
     }"

definition pager_internal_cached_write ::
  "'f pager \<Rightarrow> page \<Rightarrow> (pager_e \<times> 'f pager \<times> page) option" where
  "pager_internal_cached_write pager page =
     do {
       (acq, slot, cache) \<leftarrow> page_cache_acquire (pgr_cache pager) (page_id page);
       cache \<leftarrow>
         (if acq = PAGER_OK then do {
            i \<leftarrow> slot;
            cached_page \<leftarrow> cache_deref cache i;
            cached_page \<leftarrow> pagemeta_memcpy_page cached_page page (pgr_disk_page_size pager);
            cache \<leftarrow> cache_store cache i cached_page;
            (_, cache) \<leftarrow> page_cache_release cache cached_page;
            Some cache
          } else Some cache);
       (_, pager) \<leftarrow> pager_internal_write (pager\<lparr>pgr_cache := cache\<rparr>) page;
       Some (PAGER_OK, pager, page\<lparr>page_status := PAGER_OK\<rparr>)
     }"

section \<open>The free list: \<open>pager_freelist.c\<close>\<close>

definition pager_freelist_pop ::
  "'f pager \<Rightarrow> (pager_e \<times> u32 option \<times> 'f pager) option" where
  "pager_freelist_pop pager =
     do {
       (_, root_page) \<leftarrow> page_create pager;
       (_, page) \<leftarrow> page_create pager;
       (let selector = \<lparr>sel_page_id = 1\<rparr> in do {
          (result, pager, root_page) \<leftarrow> pager_internal_cached_read pager selector root_page;
          if result \<noteq> PAGER_OK then Some (result, None, pager)
          else do {
            root_meta \<leftarrow> pagemeta_read root_page;
            if next_free_page root_meta = 0 then Some (PAGER_ERR_NO_FREE_PAGE, None, pager)
            else (let selector = pager_reselect selector (next_free_page root_meta) in do {
              (result, pager, page) \<leftarrow> pager_internal_cached_read pager selector page;
              if result \<noteq> PAGER_OK then Some (result, None, pager)
              else do {
                meta \<leftarrow> pagemeta_read page;
                (let out_free_page = next_free_page root_meta in do {
                   root_page \<leftarrow> pagemeta_write root_page
                     (root_meta\<lparr>next_free_page := next_free_page meta\<rparr>);
                   (result, pager, root_page) \<leftarrow> pager_internal_cached_write pager root_page;
                   Some (result, Some out_free_page, pager)
                 })
              }
            })
          }
        })
     }"

definition pager_freelist_push_page ::
  "'f pager \<Rightarrow> page \<Rightarrow> (pager_e \<times> 'f pager \<times> page) option" where
  "pager_freelist_push_page pager page =
     do {
       require (page_id page \<noteq> PAGE_CREATE_NEW_PAGE);
       (_, root_page) \<leftarrow> page_create pager;
       (result, pager, root_page) \<leftarrow>
         pager_internal_cached_read pager \<lparr>sel_page_id = 1\<rparr> root_page;
       if result \<noteq> PAGER_OK then Some (result, pager, page)
       else do {
         meta \<leftarrow> pagemeta_read root_page;
         (let old_free_head_id = next_free_page meta in do {
            root_page \<leftarrow> pagemeta_write root_page (meta\<lparr>next_free_page := page_id page\<rparr>);
            (result, pager, root_page) \<leftarrow> pager_internal_cached_write pager root_page;
            if result \<noteq> PAGER_OK then Some (result, pager, page)
            else do {
              meta \<leftarrow> pagemeta_read page;
              page \<leftarrow> pagemeta_write page
                (meta\<lparr>is_free := True, next_free_page := old_free_head_id\<rparr>);
              pager_internal_cached_write pager page
            }
          })
       }
     }"

definition pager_freelist_push :: "'f pager \<Rightarrow> u32 \<Rightarrow> (pager_e \<times> 'f pager) option" where
  "pager_freelist_push pager pnum =
     do {
       (_, page) \<leftarrow> page_create pager;
       (result, pager, page) \<leftarrow> pager_internal_cached_read pager \<lparr>sel_page_id = pnum\<rparr> page;
       if result \<noteq> PAGER_OK then Some (result, pager)
       else do {
         (result, pager, page) \<leftarrow> pager_freelist_push_page pager page;
         Some (result, pager)
       }
     }"

section \<open>The pager: \<open>pager.c\<close>\<close>

definition pager_create :: "'f pager_ops \<Rightarrow> page_cache \<Rightarrow> u32 \<Rightarrow> pager_e \<times> 'f pager" where
  "pager_create ops cache disk_page_size =
     (PAGER_OK,
      \<lparr>pgr_name = replicate 32 (CHR 0x00), pgr_ops = ops,
       pgr_disk_page_size = disk_page_size,
       pgr_page_size = disk_page_size - of_nat pagemeta_size,
       pgr_max_page = 0, pgr_file = None, pgr_cache = cache\<rparr>)"

text \<open>
  \<open>pager_str\<close> is the C string without its terminator.  The result of \<open>open\<close> is not looked
  at; asking for the size of the null file then is undefined behaviour.
\<close>

definition pager_open :: "'f pager \<Rightarrow> string \<Rightarrow> (pager_e \<times> 'f pager) option" where
  "pager_open pager pager_str =
     do {
       name \<leftarrow> mem_write (pgr_name pager) 0
                 (take (min (length (pgr_name pager) - 1) (length pager_str)) pager_str);
       (let (_, opened) = op_open (pgr_ops pager) (takeWhile (\<lambda>ch. ch \<noteq> CHR 0x00) name) in do {
          file \<leftarrow> (case opened of Some f \<Rightarrow> Some f | None \<Rightarrow> pgr_file pager);
          require (pgr_disk_page_size pager \<noteq> 0);
          Some (PAGER_OK, pager\<lparr>pgr_name := name, pgr_file := Some file,
            pgr_max_page := word_of_int (op_size (pgr_ops pager) file)
                              div pgr_disk_page_size pager\<rparr>)
        })
     }"

definition pager_close :: "'f pager \<Rightarrow> pager_e option" where
  "pager_close pager = do { file \<leftarrow> pgr_file pager; Some (op_close (pgr_ops pager) file) }"

definition pager_read_page ::
  "'f pager \<Rightarrow> page_selector \<Rightarrow> page \<Rightarrow> (pager_e \<times> 'f pager \<times> page) option" where
  "pager_read_page pager selector page = pager_internal_cached_read pager selector page"

definition write_new_page_meta :: "page \<Rightarrow> u32 \<Rightarrow> page option" where
  "write_new_page_meta page pnum =
     pagemeta_write page \<lparr>is_free = False, next_free_page = 0, page_number = pnum\<rparr>"

definition pager_disk_page :: "'f pager \<Rightarrow> page \<Rightarrow> (pager_e \<times> 'f pager \<times> page) option" where
  "pager_disk_page pager page =
     do {
       (result, pager, page) \<leftarrow>
         (if pgr_max_page pager = 0 then Some (PAGER_OK, pager, page\<lparr>page_id := 1\<rparr>)
          else do {
            (result, next_page_id, pager) \<leftarrow> pager_freelist_pop pager;
            if result \<noteq> PAGER_OK \<and> result \<noteq> PAGER_ERR_NO_FREE_PAGE then Some (result, pager, page)
            else if result = PAGER_OK then do {
              pid \<leftarrow> next_page_id;
              Some (PAGER_OK, pager, page\<lparr>page_id := pid\<rparr>)
            } else Some (PAGER_OK, pager, page\<lparr>page_id := pgr_max_page pager + 1\<rparr>)
          });
       if result \<noteq> PAGER_OK then Some (result, pager, page)
       else do {
         page \<leftarrow> write_new_page_meta page (page_id page);
         Some (result, pager, page)
       }
     }"

definition set_in_use :: "page \<Rightarrow> page option" where
  "set_in_use page =
     do {
       old \<leftarrow> pagemeta_read page;
       pagemeta_write page
         \<lparr>is_free = False, next_free_page = next_free_page old, page_number = page_id page\<rparr>
     }"

definition pager_write_page :: "'f pager \<Rightarrow> page \<Rightarrow> (pager_e \<times> 'f pager \<times> page) option" where
  "pager_write_page pager page =
     do {
       (result, pager, page) \<leftarrow>
         (if page_id page = PAGE_CREATE_NEW_PAGE then pager_disk_page pager page
          else Some (PAGER_OK, pager, page));
       if result \<noteq> PAGER_OK then Some (result, pager, page)
       else do {
         page \<leftarrow> set_in_use page;
         pager_internal_cached_write pager page
       }
     }"

definition pager_extend :: "'f pager \<Rightarrow> (pager_e \<times> u32 option \<times> 'f pager) option" where
  "pager_extend pager =
     do {
       (result, page) \<leftarrow> page_create pager;
       if result \<noteq> PAGER_OK then Some (result, None, pager)
       else do {
         (result, pager, page) \<leftarrow>
           pager_write_page pager (page\<lparr>page_id := pgr_max_page pager + 1\<rparr>);
         if result \<noteq> PAGER_OK then Some (result, None, pager)
         else Some (result, Some (page_id page), pager)
       }
     }"

definition pager_next_unused :: "'f pager \<Rightarrow> pager_e \<times> u32" where
  "pager_next_unused pager = (PAGER_OK, pgr_max_page pager + 1)"

definition pager_disk_page_size_for :: "u32 \<Rightarrow> u32" where
  "pager_disk_page_size_for mem_page_size = mem_page_size + of_nat pagemeta_size"

text \<open>\<open>pager_cstd_create\<close> of \<open>pager_ops_cstd.c\<close>.\<close>

definition pager_cstd_create ::
  "cfs \<Rightarrow> page_cache \<Rightarrow> string \<Rightarrow> u32 \<Rightarrow> (pager_e \<times> cfile pager) option" where
  "pager_cstd_create fs cache filename psize =
     (let (pager_result, pager) = pager_create (CStdOps fs) cache psize in
      if pager_result \<noteq> PAGER_OK then Some (pager_result, pager)
      else pager_open pager filename)"

end
