(* ===== verification/PagerSpec.thy ===== *)
theory PagerSpec
  imports Pager
begin

text \<open>
  What the pager promises: an abstract disk that maps the allocated page numbers to their
  bytes, the invariant that ties the cache and the file to it, and the effect of each
  operation of \<open>pager.c\<close> on it.  The operations are followed for any table of file operations
  that keeps the contract \<open>block_device\<close>; the properties are stated for the C
  streams, through the interpretation of that contract.
\<close>

definition page_slice :: "nat \<Rightarrow> bytes \<Rightarrow> u32 \<Rightarrow> bytes" where
  "page_slice d content pid = take d (drop (d * (unat pid - 1)) content)"

definition dps :: "'f pager \<Rightarrow> nat" where
  "dps pg = unat (pgr_disk_page_size pg)"

definition pgr_content :: "('f \<Rightarrow> bytes) \<Rightarrow> 'f pager \<Rightarrow> bytes" where
  "pgr_content contents pg = contents (the (pgr_file pg))"

definition allocated :: "'f pager \<Rightarrow> u32 \<Rightarrow> bool" where
  "allocated pg pid \<longleftrightarrow> pid \<noteq> 0 \<and> pid \<le> pgr_max_page pg"

definition disk_of :: "('f \<Rightarrow> bytes) \<Rightarrow> 'f pager \<Rightarrow> u32 \<rightharpoonup> bytes" where
  "disk_of contents pg pid =
     (if allocated pg pid then Some (page_slice (dps pg) (pgr_content contents pg) pid) else None)"

text \<open>
  The invariant between two calls.  Every cached page is unreferenced and holds the bytes of
  the disk; the file consists of whole pages and its size is an \<open>int\<close>.
\<close>

definition pager_shape :: "('f \<Rightarrow> bytes) \<Rightarrow> 'f pager \<Rightarrow> bool" where
  "pager_shape contents pg \<longleftrightarrow>
     pgr_file pg \<noteq> None \<and> 12 \<le> dps pg \<and>
     dps pg * (unat (pgr_max_page pg) + 1) < 2147483648 \<and>
     length (pgr_content contents pg) = dps pg * unat (pgr_max_page pg)"

definition cache_coherent :: "(u32 \<rightharpoonup> bytes) \<Rightarrow> page_cache \<Rightarrow> bool" where
  "cache_coherent disk c \<longleftrightarrow>
     (\<forall>pid k. cache_map c pid = Some k \<longrightarrow>
        pck_ref k = 0 \<and> (\<exists>p. pck_page k = Some p \<and> disk pid = Some (page_mem p)))"

definition pager_inv :: "('f \<Rightarrow> bytes) \<Rightarrow> 'f pager \<Rightarrow> bool" where
  "pager_inv contents pg \<longleftrightarrow>
     pager_shape contents pg \<and> cache_inv (pgr_cache pg) \<and> 0 < pc_capacity (pgr_cache pg) \<and>
     cache_coherent (disk_of contents pg) (pgr_cache pg)"

text \<open>
  The free list of a disk: it starts at the metadata of page 1 and runs through the metadata
  of the free pages.
\<close>

fun free_path :: "(u32 \<rightharpoonup> bytes) \<Rightarrow> u32 \<Rightarrow> u32 list \<Rightarrow> bool" where
  "free_path disk h [] \<longleftrightarrow> h = 0"
| "free_path disk h (x # xs) \<longleftrightarrow> h = x \<and> x \<noteq> 0 \<and> x \<noteq> 1 \<and> x \<notin> set xs \<and>
     (case disk x of None \<Rightarrow> False
      | Some m \<Rightarrow> is_free (meta_of m) \<and> free_path disk (next_free_page (meta_of m)) xs)"

definition free_list :: "(u32 \<rightharpoonup> bytes) \<Rightarrow> u32 list \<Rightarrow> bool" where
  "free_list disk ids \<longleftrightarrow>
     (case disk 1 of None \<Rightarrow> False | Some m \<Rightarrow> free_path disk (next_free_page (meta_of m)) ids)"

text \<open>A page object of the pager: its block has the size of a page on disk.\<close>

definition page_for :: "'f pager \<Rightarrow> page \<Rightarrow> bool" where
  "page_for pg p \<longleftrightarrow> length (page_mem p) = dps pg"

text \<open>What a write of page \<open>pid\<close> needs: the disk takes it and the file stays addressable.\<close>

definition can_write :: "('f \<Rightarrow> int \<Rightarrow> int \<Rightarrow> bool) \<Rightarrow> 'f pager \<Rightarrow> u32 \<Rightarrow> bool" where
  "can_write room pg pid \<longleftrightarrow>
     pid \<noteq> 0 \<and> unat pid \<le> unat (pgr_max_page pg) + 1 \<and> dps pg * (unat pid + 1) < 2147483648 \<and>
     room (the (pgr_file pg)) (int (dps pg * (unat pid - 1))) (int (dps pg))"

text \<open>What no operation changes.\<close>

definition same_pager :: "('f \<Rightarrow> int \<Rightarrow> int \<Rightarrow> bool) \<Rightarrow> 'f pager \<Rightarrow> 'f pager \<Rightarrow> bool" where
  "same_pager room pg pg' \<longleftrightarrow>
     pgr_name pg' = pgr_name pg \<and> pgr_ops pg' = pgr_ops pg \<and>
     pgr_disk_page_size pg' = pgr_disk_page_size pg \<and> pgr_page_size pg' = pgr_page_size pg \<and>
     room (the (pgr_file pg')) = room (the (pgr_file pg))"

text \<open>
  Overwriting a page marks its metadata as in use; the payload is the caller's.  A page that
  is written for the first time gets page 1 of an empty file, the head of the free list, or the
  number behind the last page.
\<close>

definition in_use :: "page \<Rightarrow> bytes" where
  "in_use p = with_meta \<lparr>is_free = False, next_free_page = next_free_page (meta_of (page_mem p)),
     page_number = page_id p\<rparr> (page_mem p)"

definition new_meta :: "u32 \<Rightarrow> page_metadata" where
  "new_meta pid = \<lparr>is_free = False, next_free_page = 0, page_number = pid\<rparr>"

definition fresh_id :: "'f pager \<Rightarrow> u32 list \<Rightarrow> u32" where
  "fresh_id pg xs = (if pgr_max_page pg = 0 then 1
     else case xs of [] \<Rightarrow> pgr_max_page pg + 1 | x # _ \<Rightarrow> x)"

text \<open>Two disks agree on everything but the metadata of their pages.\<close>

definition payload_eq :: "(u32 \<rightharpoonup> bytes) \<Rightarrow> (u32 \<rightharpoonup> bytes) \<Rightarrow> bool" where
  "payload_eq d1 d2 \<longleftrightarrow> (\<forall>j. map_option (drop 9) (d1 j) = map_option (drop 9) (d2 j))"

section \<open>Facts about the shape\<close>

lemma disk_of_cache [simp]: "disk_of contents (pg\<lparr>pgr_cache := c\<rparr>) = disk_of contents pg"
  by (simp add: fun_eq_iff disk_of_def allocated_def dps_def pgr_content_def)

lemma shape_cache [simp]: "pager_shape contents (pg\<lparr>pgr_cache := c\<rparr>) = pager_shape contents pg"
  by (simp add: pager_shape_def dps_def pgr_content_def)

lemma shape_id_bound:
  assumes "pager_shape contents pg" and "pid \<le> pgr_max_page pg"
  shows "dps pg * unat pid < 2147483648" and "unat pid < 2147483648"
proof -
  have "unat pid \<le> unat (pgr_max_page pg)" using assms(2) by (simp add: word_le_nat_alt)
  then have "dps pg * unat pid \<le> dps pg * (unat (pgr_max_page pg) + 1)"
    by (intro mult_le_mono2) simp
  with assms(1) show 1: "dps pg * unat pid < 2147483648" by (simp add: pager_shape_def)
  have "0 < dps pg" using assms(1) by (simp add: pager_shape_def)
  then have "unat pid \<le> dps pg * unat pid" by simp
  with 1 show "unat pid < 2147483648" by linarith
qed

lemma dps_small: "pager_shape contents pg \<Longrightarrow> dps pg < 2147483648"
  by (simp add: pager_shape_def)

lemma sint_dps: "pager_shape contents pg \<Longrightarrow> sint (pgr_disk_page_size pg) = int (dps pg)"
  using dps_small [of contents pg] by (simp add: sint_u32_small dps_def)

text \<open>The file offset of a page, as the code computes it.\<close>

lemma page_offset:
  assumes "pid \<noteq> 0" and "dps pg * (unat pid - 1) < 2147483648"
  shows "sint (pgr_disk_page_size pg * (pid - 1)) = int (dps pg * (unat pid - 1))"
proof -
  have "1 \<le> unat pid" using assms(1) by (simp add: Suc_leI unat_gt_0)
  then have "unat (pid - 1) = unat pid - 1" by (simp add: unat_sub_ok)
  then have "unat (pgr_disk_page_size pg * (pid - 1)) = dps pg * (unat pid - 1)"
    using assms(2) by (simp add: unat_mult_ok dps_def)
  with assms(2) show ?thesis by (simp add: sint_u32_small uint_nat)
qed

lemma page_inside:
  assumes "pager_shape contents pg" and "allocated pg pid"
  shows "dps pg * (unat pid - 1) + dps pg \<le> length (pgr_content contents pg)"
proof -
  have "unat pid \<le> unat (pgr_max_page pg)" "1 \<le> unat pid"
    using assms(2) by (auto simp: allocated_def word_le_nat_alt Suc_leI unat_gt_0)
  then have "dps pg * ((unat pid - 1) + 1) \<le> dps pg * unat (pgr_max_page pg)"
    by (intro mult_le_mono2) simp
  then show ?thesis using assms(1) by (simp add: pager_shape_def)
qed

lemma length_page_slice:
  "pager_shape contents pg \<Longrightarrow> allocated pg pid
   \<Longrightarrow> length (page_slice (dps pg) (pgr_content contents pg) pid) = dps pg"
  using page_inside [of contents pg pid] by (simp add: page_slice_def)

lemma disk_of_length: "pager_shape contents pg \<Longrightarrow> disk_of contents pg pid = Some m \<Longrightarrow> length m = dps pg"
  using length_page_slice [of contents pg pid] by (auto simp: disk_of_def split: if_splits)

section \<open>Cache traffic of one access\<close>

text \<open>
  Every access holds a page and gives it back, so outside of an access nothing is held.
\<close>

definition unheld :: "page_cache \<Rightarrow> bool" where
  "unheld c \<longleftrightarrow> (\<forall>pid k. cache_map c pid = Some k \<longrightarrow> pck_ref k = 0)"

lemma coherent_unheld: "cache_coherent disk c \<Longrightarrow> unheld c"
  by (auto simp: cache_coherent_def unheld_def)

lemma unheld_victim:
  assumes "cache_inv c" and "unheld c" and "0 < pc_size c"
  shows "\<exists>v. victim c = Some v"
proof -
  have "pc_pages c ! 0 \<in> set (entries c)"
    using assms(1,3) by (auto simp: in_entries_iff)
  moreover have "pck_ref (pc_pages c ! 0) = 0"
    using cache_map_nth [OF assms(1,3)] assms(2) by (auto simp: unheld_def)
  ultimately show ?thesis
    using victim_None_iff [of c] by (cases "victim c") auto
qed

lemma cache_add:
  assumes inv: "cache_inv c" and cap: "0 < pc_capacity c" and un: "unheld c"
    and new: "cache_map c (page_id p) = None" and ok: "cacheable p"
  shows "\<exists>ev c1 c2. page_cache_insert c p = Some (PAGER_OK, ev, c1) \<and>
    page_cache_release c1 p = Some (PAGER_OK, c2) \<and> cache_inv c2 \<and>
    pc_capacity c2 = pc_capacity c \<and>
    cache_map c2 (page_id p) = Some ((fresh_entry p)\<lparr>pck_ref := 0\<rparr>) \<and>
    (\<forall>pid k. pid \<noteq> page_id p \<longrightarrow> cache_map c2 pid = Some k \<longrightarrow> cache_map c pid = Some k)"
proof -
  obtain ev c1 where c1: "page_cache_insert c p = Some (PAGER_OK, ev, c1)" "cache_inv c1"
    "pc_capacity c1 = pc_capacity c" "cache_map c1 (page_id p) = Some (fresh_entry p)"
    "\<And>pid k. pid \<noteq> page_id p \<Longrightarrow> cache_map c1 pid = Some k \<Longrightarrow> cache_map c pid = Some k"
  proof (cases "pc_size c = pc_capacity c")
    case True
    then obtain v where "victim c = Some v"
      using unheld_victim [OF inv un] cap by auto
    from page_cache_insert_full [OF inv True this new ok] show thesis
      by (auto intro: that split: if_splits)
  next
    case False
    then have "pc_size c < pc_capacity c" using inv by (simp add: cache_inv_def)
    from page_cache_insert_room [OF inv this new ok] show thesis
      by (auto intro: that)
  qed
  from page_cache_release_hit [OF c1(2,4)] obtain c2 where
    "page_cache_release c1 p = Some (PAGER_OK, c2)" "cache_inv c2"
    "cache_map c2 = (cache_map c1)(page_id p \<mapsto>
       (fresh_entry p)\<lparr>pck_ref := max 0 (pck_ref (fresh_entry p) - 1)\<rparr>)"
    "pc_capacity c2 = pc_capacity c1"
    by auto
  with c1 show ?thesis by (auto simp: fresh_entry_def)
qed

lemma cache_touch:
  assumes inv: "cache_inv c" and hit: "cache_map c pid = Some k" and "pck_ref k = 0"
  shows "\<exists>i c1. page_cache_acquire c pid = Some (PAGER_OK, Some i, c1) \<and>
    cache_deref c1 i = pck_page k \<and>
    (\<forall>q. page_id q = pid \<longrightarrow> (\<exists>c2. page_cache_release c1 q = Some (PAGER_OK, c2) \<and> cache_inv c2 \<and>
       cache_map c2 = cache_map c \<and> pc_capacity c2 = pc_capacity c)) \<and>
    (\<forall>q. page_id q = pid \<longrightarrow> (\<exists>c2 c3. cache_store c1 i q = Some c2 \<and>
       page_cache_release c2 q = Some (PAGER_OK, c3) \<and> cache_inv c3 \<and>
       cache_map c3 = (cache_map c)(pid \<mapsto> k\<lparr>pck_page := Some q\<rparr>) \<and>
       pc_capacity c3 = pc_capacity c))"
proof -
  obtain i c1 where c1: "page_cache_acquire c pid = Some (PAGER_OK, Some i, c1)" "i < pc_size c1"
    "cache_deref c1 i = pck_page k" "cache_inv c1"
    "pc_pages c1 ! i = k\<lparr>pck_ref := 1\<rparr>" "cache_map c1 = (cache_map c)(pid \<mapsto> k\<lparr>pck_ref := 1\<rparr>)"
    "pc_capacity c1 = pc_capacity c"
    using page_cache_acquire_hit [OF inv hit] assms(3) by auto
  have pid: "pck_page_id k = pid" using cache_entry_ok [OF inv hit] by simp
  have k0: "k\<lparr>pck_ref := 0\<rparr> = k" using assms(3) by simp
  have "\<exists>c2. page_cache_release c1 q = Some (PAGER_OK, c2) \<and> cache_inv c2 \<and>
       cache_map c2 = cache_map c \<and> pc_capacity c2 = pc_capacity c" if "page_id q = pid" for q
    using page_cache_release_hit [OF c1(4), of q "k\<lparr>pck_ref := 1\<rparr>"] that c1 hit
    by (auto simp: k0 fun_upd_idem)
  moreover have "\<exists>c2 c3. cache_store c1 i q = Some c2 \<and>
       page_cache_release c2 q = Some (PAGER_OK, c3) \<and> cache_inv c3 \<and>
       cache_map c3 = (cache_map c)(pid \<mapsto> k\<lparr>pck_page := Some q\<rparr>) \<and>
       pc_capacity c3 = pc_capacity c" if q: "page_id q = pid" for q
  proof -
    obtain c2 where c2: "cache_store c1 i q = Some c2" "cache_inv c2"
      "cache_map c2 = (cache_map c1)(pid \<mapsto> k\<lparr>pck_ref := 1, pck_page := Some q\<rparr>)"
      "pc_capacity c2 = pc_capacity c1"
      using cache_store_slot [OF c1(4,2), of q] q pid c1(5) by auto
    from page_cache_release_hit [OF c2(2), of q "k\<lparr>pck_ref := 1, pck_page := Some q\<rparr>"]
    obtain c3 where "page_cache_release c2 q = Some (PAGER_OK, c3)" "cache_inv c3"
      "cache_map c3 = (cache_map c2)(pid \<mapsto> k\<lparr>pck_page := Some q, pck_ref := 0\<rparr>)"
      "pc_capacity c3 = pc_capacity c2"
      using q c2(3) by auto
    moreover have "k\<lparr>pck_page := Some q, pck_ref := 0\<rparr> = k\<lparr>pck_page := Some q\<rparr>"
      using assms(3) by (cases k) simp
    ultimately show ?thesis using c2 c1 by simp
  qed
  ultimately show ?thesis using c1 by blast
qed

section \<open>Reading and writing over any block device\<close>

lemma coherent_hit:
  assumes "cache_coherent disk c" and "cache_inv c" and "cache_map c pid = Some k"
  shows "\<exists>q. pck_page k = Some q \<and> page_id q = pid \<and> disk pid = Some (page_mem q) \<and> pck_ref k = 0"
proof -
  obtain q where "pck_page k = Some q" "disk pid = Some (page_mem q)" "pck_ref k = 0"
    using assms(1,3) by (auto simp: cache_coherent_def)
  with cache_entry_ok [OF assms(2,3)] show ?thesis by (auto simp: entry_ok_def)
qed

lemma page_create_eq:
  "page_create pg = Some (PAGER_OK, \<lparr>page_id = 0, page_size = pgr_page_size pg,
     page_status = PAGER_ERR_PAGE_PERSISTENCE_UNKNOWN, page_mem = replicate (dps pg) 0\<rparr>)"
  by (simp add: page_create_def page_create_sized_eq dps_def)

lemma page_end: "1 \<le> n \<Longrightarrow> d * (n - 1) + d = d * (n :: nat)"
  by (cases n) simp_all

context block_device
begin

text \<open>The read operation of the table at the offset of an allocated page, and past the end.\<close>

lemma internal_read_present:
  assumes shape: "pager_shape contents pg" and m: "disk_of contents pg (sel_page_id sel) = Some m"
    and p: "page_for pg p" and ops: "pgr_ops pg = ops"
  shows "pager_internal_read pg sel p =
    Some (PAGER_OK, p\<lparr>page_mem := m, page_id := sel_page_id sel\<rparr>)"
proof -
  define pid where "pid = sel_page_id sel"
  have al: "allocated pg pid" and mm: "m = page_slice (dps pg) (pgr_content contents pg) pid"
    using m by (auto simp: disk_of_def pid_def split: if_splits)
  obtain f where f: "pgr_file pg = Some f" using shape by (auto simp: pager_shape_def)
  have nz: "pid \<noteq> 0" using al by (simp add: allocated_def)
  have ins: "dps pg * (unat pid - 1) + dps pg \<le> length (contents f)"
    using page_inside [OF shape al] f by (simp add: pgr_content_def)
  have "dps pg * unat pid < 2147483648"
    using shape_id_bound [OF shape] al by (simp add: allocated_def)
  then have "dps pg * (unat pid - 1) < 2147483648"
    by (meson diff_le_self le_less_trans mult_le_mono2)
  note off = page_offset [OF nz this]
  have pos: "0 < dps pg" using shape by (simp add: pager_shape_def)
  have ins': "int (dps pg * (unat pid - 1)) + int (dps pg) \<le> int (length (contents f))"
    using ins by linarith
  have "op_read ops f (page_mem p) (int (dps pg * (unat pid - 1))) (int (dps pg)) =
      Some (PAGER_OK, m)"
    using read_inside [of "int (dps pg * (unat pid - 1))" "int (dps pg)" f "page_mem p"]
      ins' pos p f mm
    by (simp add: page_for_def page_slice_def pgr_content_def nat_mult_distrib)
  then show ?thesis
    using nz off sint_dps [OF shape] f ops
    by (simp add: pager_internal_read_def read_from_disk_def PAGE_CREATE_NEW_PAGE_def
        flip: pid_def)
qed

lemma internal_read_absent:
  assumes shape: "pager_shape contents pg" and pid: "pgr_max_page pg < sel_page_id sel"
    and fits: "dps pg * unat (sel_page_id sel) < 2147483648"
    and p: "page_for pg p" and ops: "pgr_ops pg = ops"
  shows "\<exists>q. pager_internal_read pg sel p = Some (PAGER_READ_ERR, q)"
proof -
  define i where "i = sel_page_id sel"
  obtain f where f: "pgr_file pg = Some f" using shape by (auto simp: pager_shape_def)
  have nz: "i \<noteq> 0" using pid by (auto simp: i_def)
  have "dps pg * (unat i - 1) < 2147483648"
    using fits unfolding i_def by (meson diff_le_self le_less_trans mult_le_mono2)
  note off = page_offset [OF nz this]
  have pos: "0 < dps pg" using shape by (simp add: pager_shape_def)
  have "unat (pgr_max_page pg) \<le> unat i - 1"
    using pid by (simp add: i_def word_less_nat_alt)
  then have "dps pg * unat (pgr_max_page pg) \<le> dps pg * (unat i - 1)"
    by (rule mult_le_mono2)
  with shape f have out: "length (contents f) \<le> dps pg * (unat i - 1)"
    by (simp add: pager_shape_def pgr_content_def)
  have "\<exists>b. op_read ops f (page_mem p) (int (dps pg * (unat i - 1))) (int (dps pg)) =
      Some (PAGER_READ_ERR, b)"
    using out pos p by (intro read_outside) (simp_all add: page_for_def flip: of_nat_mult)
  then show ?thesis
    using nz off sint_dps [OF shape] f ops
    by (auto simp: pager_internal_read_def read_from_disk_def PAGE_CREATE_NEW_PAGE_def
        simp flip: i_def)
qed

text \<open>A read of an allocated page returns its bytes and leaves the disk as it is.\<close>

lemma cached_read_present:
  assumes inv: "pager_inv contents pg" and m: "disk_of contents pg (sel_page_id sel) = Some m"
    and p: "page_for pg p" and ops: "pgr_ops pg = ops"
  shows "\<exists>c. pager_internal_cached_read pg sel p =
      Some (PAGER_OK, pg\<lparr>pgr_cache := c\<rparr>,
            p\<lparr>page_id := sel_page_id sel, page_status := PAGER_OK, page_mem := m\<rparr>) \<and>
    pager_inv contents (pg\<lparr>pgr_cache := c\<rparr>)"
proof -
  define pid where "pid = sel_page_id sel"
  define c where "c = pgr_cache pg"
  have shape: "pager_shape contents pg" and cinv: "cache_inv c" and cap: "0 < pc_capacity c"
    and coh: "cache_coherent (disk_of contents pg) c"
    using inv by (auto simp: pager_inv_def c_def)
  have al: "allocated pg pid"
    using m by (auto simp: disk_of_def pid_def split: if_splits)
  have nz: "pid \<noteq> 0" using al by (simp add: allocated_def)
  have len: "length m = unat (pgr_disk_page_size pg)"
    using disk_of_length [OF shape m] by (simp add: dps_def)
  have plen: "length (page_mem p) = unat (pgr_disk_page_size pg)"
    using p by (simp add: page_for_def dps_def)
  show ?thesis
  proof (cases "cache_map c pid")
    case (Some k)
    obtain q where q: "pck_page k = Some q" "page_id q = pid" "page_mem q = m" "pck_ref k = 0"
      using coherent_hit [OF coh cinv Some] m by (auto simp: pid_def)
    obtain i c1 c2 where "page_cache_acquire c pid = Some (PAGER_OK, Some i, c1)"
      "cache_deref c1 i = Some q" "page_cache_release c1 q = Some (PAGER_OK, c2)"
      "cache_inv c2" "cache_map c2 = cache_map c" "pc_capacity c2 = pc_capacity c"
      using cache_touch [OF cinv Some q(4)] q(1,2) by metis
    moreover have "pagemeta_memcpy_page p q (pgr_disk_page_size pg) = Some (p\<lparr>page_mem := m\<rparr>)"
      using pagemeta_memcpy_eq [of q _ p] len plen q(3) by simp
    ultimately show ?thesis
      using nz shape cap coh q
      by (intro exI [of _ c2])
        (simp add: pager_internal_cached_read_def PAGE_CREATE_NEW_PAGE_def Let_def pager_inv_def
          cache_coherent_def flip: c_def pid_def)
  next
    case None
    define q where "q = \<lparr>page_id = pid, page_size = pgr_page_size pg,
      page_status = PAGER_ERR_PAGE_PERSISTENCE_UNKNOWN, page_mem = m\<rparr>"
    have "unat pid < 2147483648"
      using shape_id_bound(2) [OF shape] al by (simp add: allocated_def)
    then have ok: "cacheable q" using nz by (simp add: cacheable_def q_def)
    have "cache_map c (page_id q) = None" using None by (simp add: q_def)
    from cache_add [OF cinv cap coherent_unheld [OF coh] this ok] obtain ev c1 c2 where
      c12: "page_cache_insert c q = Some (PAGER_OK, ev, c1)"
      "page_cache_release c1 q = Some (PAGER_OK, c2)" "cache_inv c2"
      "pc_capacity c2 = pc_capacity c"
      "cache_map c2 pid = Some ((fresh_entry q)\<lparr>pck_ref := 0\<rparr>)"
      "\<And>j k. j \<noteq> pid \<Longrightarrow> cache_map c2 j = Some k \<Longrightarrow> cache_map c j = Some k"
      by (auto simp: q_def)
    have coh2: "cache_coherent (disk_of contents pg) c2"
      unfolding cache_coherent_def
    proof (intro allI impI)
      fix j k assume jk: "cache_map c2 j = Some k"
      show "pck_ref k = 0 \<and> (\<exists>p. pck_page k = Some p \<and> disk_of contents pg j = Some (page_mem p))"
      proof (cases "j = pid")
        case True
        with jk c12(5) m show ?thesis by (auto simp: fresh_entry_def q_def pid_def)
      next
        case False
        from c12(6) [OF this jk] coh show ?thesis unfolding cache_coherent_def by blast
      qed
    qed
    obtain fresh where fresh: "page_create pg = Some (PAGER_OK, fresh)" "page_for pg fresh"
      "fresh\<lparr>page_mem := m, page_id := pid\<rparr> = q"
      by (simp add: page_create_eq page_for_def q_def)
    have "page_cache_acquire c pid = Some (PAGER_ERR_CACHE_MISS, None, c)"
      using page_cache_acquire_miss [OF cinv None] .
    moreover have same: "pg\<lparr>pgr_cache := c\<rparr> = pg" by (simp add: c_def)
    moreover have "pager_internal_read pg sel fresh = Some (PAGER_OK, q)"
      using internal_read_present [OF shape m fresh(2) ops] fresh(3) by (simp add: pid_def)
    moreover have "page_commit pg q = Some (PAGER_OK, pg\<lparr>pgr_cache := c1\<rparr>)"
      using c12(1) nz by (simp add: page_commit_def q_def flip: c_def)
    moreover have "pagemeta_memcpy_page p q (pgr_disk_page_size pg) = Some (p\<lparr>page_mem := m\<rparr>)"
      using pagemeta_memcpy_eq [of q _ p] len plen by (simp add: q_def)
    ultimately show ?thesis
      using nz shape cap coh2 c12 fresh(1)
      by (intro exI [of _ c2])
        (simp add: pager_internal_cached_read_def PAGE_CREATE_NEW_PAGE_def Let_def pager_inv_def
          same flip: c_def pid_def)
  qed
qed

text \<open>A read past the last page reports that the page is not in the file.\<close>

lemma cached_read_absent:
  assumes inv: "pager_inv contents pg" and pid: "pgr_max_page pg < sel_page_id sel"
    and fits: "dps pg * unat (sel_page_id sel) < 2147483648" and ops: "pgr_ops pg = ops"
  shows "pager_internal_cached_read pg sel p =
      Some (PAGER_ERR_NIF, pg, p\<lparr>page_id := sel_page_id sel, page_status := PAGER_ERR_NIF\<rparr>)"
proof -
  define i where "i = sel_page_id sel"
  define c where "c = pgr_cache pg"
  have shape: "pager_shape contents pg" and cinv: "cache_inv c"
    and coh: "cache_coherent (disk_of contents pg) c"
    using inv by (auto simp: pager_inv_def c_def)
  have "disk_of contents pg i = None"
    using pid by (auto simp: disk_of_def allocated_def i_def)
  then have miss: "cache_map c i = None"
    using coh by (cases "cache_map c i") (force simp: cache_coherent_def)+
  obtain fresh where fresh: "page_create pg = Some (PAGER_OK, fresh)" "page_for pg fresh"
    by (simp add: page_create_eq page_for_def)
  obtain q where "pager_internal_read pg sel fresh = Some (PAGER_READ_ERR, q)"
    using internal_read_absent [OF shape pid fits fresh(2) ops] by blast
  moreover have same: "pg\<lparr>pgr_cache := c\<rparr> = pg" by (simp add: c_def)
  moreover have "i \<noteq> 0" using pid by (auto simp: i_def)
  ultimately show ?thesis
    using page_cache_acquire_miss [OF cinv miss] fresh(1)
    by (simp add: pager_internal_cached_read_def PAGE_CREATE_NEW_PAGE_def Let_def same
        flip: c_def i_def)
qed

text \<open>A write of an allocated page, or of the page behind the last one.\<close>

lemma internal_write_ok:
  assumes shape: "pager_shape contents pg" and w: "can_write room pg (page_id p)"
    and p: "page_for pg p" and ops: "pgr_ops pg = ops"
  shows "\<exists>pg'. pager_internal_write pg p = Some (PAGER_OK, pg') \<and> pager_shape contents pg' \<and>
    disk_of contents pg' = (disk_of contents pg)(page_id p \<mapsto> page_mem p) \<and>
    pgr_max_page pg' = max (pgr_max_page pg) (page_id p) \<and> pgr_cache pg' = pgr_cache pg \<and>
    same_pager room pg pg'"
proof -
  define i where "i = page_id p"
  define d where "d = dps pg"
  define mx where "mx = unat (pgr_max_page pg)"
  obtain f where f: "pgr_file pg = Some f" using shape by (auto simp: pager_shape_def)
  have nz: "i \<noteq> 0" and imax: "unat i \<le> mx + 1" and fits: "d * (unat i + 1) < 2147483648"
    and rm: "room f (int (d * (unat i - 1))) (int d)"
    using w f by (auto simp: can_write_def i_def d_def mx_def)
  have lenf: "length (contents f) = d * mx"
    using shape f by (simp add: pager_shape_def pgr_content_def d_def mx_def)
  have plen: "length (page_mem p) = d" using p by (simp add: page_for_def d_def)
  have i1: "1 \<le> unat i" using nz by (simp add: Suc_leI unat_gt_0)
  have pos: "0 < d" using shape by (simp add: pager_shape_def d_def)
  have "d * (unat i - 1) \<le> d * (unat i + 1)" by (intro mult_le_mono2) simp
  then have "d * (unat i - 1) < 2147483648" using fits by linarith
  note off = page_offset [OF nz this [unfolded d_def], folded d_def]
  obtain f' where f': "op_write ops f (page_mem p) (int (d * (unat i - 1))) (int d) = Some (PAGER_OK, f')"
    "contents f' = blit (contents f) (d * (unat i - 1)) (page_mem p)" "room f' = room f"
    using write_room [of "int (d * (unat i - 1))" "int d" "page_mem p" f] rm pos plen
    by (auto simp flip: of_nat_mult)
  define pg' where "pg' = pg\<lparr>pgr_file := Some f',
    pgr_max_page := (if i > pgr_max_page pg then i else pgr_max_page pg)\<rparr>"
  have run: "pager_internal_write pg p = Some (PAGER_OK, pg')"
    using f f'(1) off sint_dps [OF shape] ops
    by (simp add: pager_internal_write_def Let_def pg'_def flip: i_def d_def)
  have d': "dps pg' = d" by (simp add: pg'_def dps_def d_def)
  have mx': "unat (pgr_max_page pg') = max mx (unat i)"
    by (auto simp: pg'_def mx_def word_less_nat_alt)
  have end_i: "d * (unat i - 1) + d = d * unat i"
    using i1 by (rule page_end)
  have len': "length (contents f') = d * max mx (unat i)"
    using plen lenf end_i by (simp add: f'(2) length_blit nat_mult_max_right)
  have fitm: "d * (max mx (unat i) + 1) < 2147483648"
    using fits shape by (auto simp: max_def pager_shape_def d_def mx_def)
  have shape': "pager_shape contents pg'"
    using shape len' fitm mx' d' by (simp add: pager_shape_def pgr_content_def d_def pg'_def)
  have slice_same: "page_slice d (contents f') i = page_mem p"
    using take_drop_blit_same [of "page_mem p"] by (simp add: page_slice_def f'(2) plen)
  have slice_other: "page_slice d (contents f') j = page_slice d (contents f) j"
    if j: "j \<noteq> i" "j \<noteq> 0" "unat j \<le> mx" for j
  proof -
    have j1: "1 \<le> unat j" using j(2) by (simp add: Suc_leI unat_gt_0)
    have jm: "d * (unat j - 1) + d \<le> d * mx"
    proof -
      have "d * (unat j - 1) + d = d * unat j"
        using j1 by (rule page_end)
      then show ?thesis using j(3) by simp
    qed
    have "unat j \<noteq> unat i" using j(1) by (auto dest: u32_eqI)
    then consider "unat j < unat i" | "unat i < unat j" by linarith
    then show ?thesis
    proof cases
      case 1
      then have "d * unat j \<le> d * (unat i - 1)" by (intro mult_le_mono2) simp
      moreover have "d * (unat j - 1) + d = d * unat j"
        using j1 by (rule page_end)
      ultimately show ?thesis
        using jm lenf by (simp add: page_slice_def f'(2) take_drop_blit_before)
    next
      case 2
      then have "d * unat i \<le> d * (unat j - 1)" by (intro mult_le_mono2) simp
      then show ?thesis
        using end_i plen by (simp add: page_slice_def f'(2) take_drop_blit_after)
    qed
  qed
  have disk': "disk_of contents pg' = (disk_of contents pg)(i \<mapsto> page_mem p)"
  proof
    fix j
    have "contents f' = pgr_content contents pg'" "contents f = pgr_content contents pg"
      using f by (simp_all add: pgr_content_def pg'_def)
    note c = this [symmetric]
    have al: "allocated pg' j \<longleftrightarrow> j = i \<or> allocated pg j"
      using imax nz mx' i1
      by (auto simp: allocated_def word_le_nat_alt mx_def le_max_iff_disj unat_gt_0
          intro: u32_eqI dest: antisym)
    show "disk_of contents pg' j = ((disk_of contents pg)(i \<mapsto> page_mem p)) j"
    proof (cases "j = i")
      case True
      with slice_same d' al show ?thesis by (simp add: disk_of_def c)
    next
      case False
      have "page_slice d (contents f') j = page_slice d (contents f) j" if a: "allocated pg j"
        using slice_other [OF False] a by (simp add: allocated_def word_le_nat_alt mx_def)
      with False al d' show ?thesis by (simp add: disk_of_def c d_def)
    qed
  qed
  have "pgr_max_page pg' = max (pgr_max_page pg) i"
    by (auto simp: pg'_def max_def)
  with run shape' disk' show ?thesis
    using f f'(3) by (auto simp: same_pager_def pg'_def i_def)
qed

lemma cached_write_ok:
  assumes inv: "pager_inv contents pg" and w: "can_write room pg (page_id p)"
    and p: "page_for pg p" and ops: "pgr_ops pg = ops"
  shows "\<exists>pg'. pager_internal_cached_write pg p =
      Some (PAGER_OK, pg', p\<lparr>page_status := PAGER_OK\<rparr>) \<and> pager_inv contents pg' \<and>
    disk_of contents pg' = (disk_of contents pg)(page_id p \<mapsto> page_mem p) \<and>
    pgr_max_page pg' = max (pgr_max_page pg) (page_id p) \<and> same_pager room pg pg'"
proof -
  define i where "i = page_id p"
  define c where "c = pgr_cache pg"
  let ?disk = "(disk_of contents pg)(i \<mapsto> page_mem p)"
  have shape: "pager_shape contents pg" and cinv: "cache_inv c" and cap: "0 < pc_capacity c"
    and coh: "cache_coherent (disk_of contents pg) c"
    using inv by (auto simp: pager_inv_def c_def)
  have plen: "length (page_mem p) = unat (pgr_disk_page_size pg)"
    using p by (simp add: page_for_def dps_def)
  text \<open>The cache after the page has been brought up to date there.\<close>
  have "\<exists>c'. cache_inv c' \<and> 0 < pc_capacity c' \<and> cache_coherent ?disk c' \<and>
    pager_internal_cached_write pg p =
      do { (_, pg) \<leftarrow> pager_internal_write (pg\<lparr>pgr_cache := c'\<rparr>) p;
           Some (PAGER_OK, pg, p\<lparr>page_status := PAGER_OK\<rparr>) }"
  proof (cases "cache_map c i")
    case (Some k)
    obtain q where q: "pck_page k = Some q" "page_id q = i" "pck_ref k = 0"
      "disk_of contents pg i = Some (page_mem q)"
      using coherent_hit [OF coh cinv Some] by blast
    have "length (page_mem q) = unat (pgr_disk_page_size pg)"
      using disk_of_length [OF shape q(4)] by (simp add: dps_def)
    then have cpy: "pagemeta_memcpy_page q p (pgr_disk_page_size pg) =
        Some (q\<lparr>page_mem := page_mem p\<rparr>)"
      using plen by (intro pagemeta_memcpy_eq)
    define q' where "q' = q\<lparr>page_mem := page_mem p\<rparr>"
    have "page_id q' = i" using q(2) by (simp add: q'_def)
    then obtain s c1 c2 c3 where t: "page_cache_acquire c i = Some (PAGER_OK, Some s, c1)"
      "cache_deref c1 s = Some q" "cache_store c1 s q' = Some c2"
      "page_cache_release c2 q' = Some (PAGER_OK, c3)" "cache_inv c3"
      "cache_map c3 = (cache_map c)(i \<mapsto> k\<lparr>pck_page := Some q'\<rparr>)"
      "pc_capacity c3 = pc_capacity c"
      using cache_touch [OF cinv Some q(3)] q(1) by metis
    have "cache_coherent ?disk c3"
      using coh q(3) by (auto simp: cache_coherent_def t(6) q'_def)
    moreover have "pager_internal_cached_write pg p =
      do { (_, pg) \<leftarrow> pager_internal_write (pg\<lparr>pgr_cache := c3\<rparr>) p;
           Some (PAGER_OK, pg, p\<lparr>page_status := PAGER_OK\<rparr>) }"
      using t(1,2,3,4) cpy
      by (simp add: pager_internal_cached_write_def flip: c_def i_def q'_def)
    ultimately show ?thesis using t(5,7) cap by auto
  next
    case None
    have "cache_coherent ?disk c"
      using coh None unfolding cache_coherent_def by (metis fun_upd_other option.distinct(1))
    then show ?thesis
      using page_cache_acquire_miss [OF cinv None] cinv cap
      by (intro exI [of _ c])
        (simp add: pager_internal_cached_write_def flip: c_def i_def)
  qed
  then obtain c' where c': "cache_inv c'" "0 < pc_capacity c'" "cache_coherent ?disk c'"
    "pager_internal_cached_write pg p =
      do { (_, pg) \<leftarrow> pager_internal_write (pg\<lparr>pgr_cache := c'\<rparr>) p;
           Some (PAGER_OK, pg, p\<lparr>page_status := PAGER_OK\<rparr>) }" by blast
  have "\<exists>pg'. pager_internal_write (pg\<lparr>pgr_cache := c'\<rparr>) p = Some (PAGER_OK, pg') \<and>
    pager_shape contents pg' \<and> disk_of contents pg' = ?disk \<and>
    pgr_max_page pg' = max (pgr_max_page pg) i \<and> pgr_cache pg' = c' \<and> same_pager room pg pg'"
    using internal_write_ok [of "pg\<lparr>pgr_cache := c'\<rparr>" p] shape w p ops
    by (simp add: can_write_def page_for_def dps_def same_pager_def i_def)
  with c' show ?thesis by (auto simp: pager_inv_def i_def)
qed

section \<open>The free list over any block device\<close>

text \<open>Taking the head of the free list rewrites the metadata of page 1 only.\<close>

lemma freelist_pop_Cons:
  assumes inv: "pager_inv contents pg" and ops: "pgr_ops pg = ops"
    and m1: "disk_of contents pg 1 = Some m1" and fl: "free_list (disk_of contents pg) (x # xs)"
    and w: "can_write room pg 1"
  shows "\<exists>pg' m1'. pager_freelist_pop pg = Some (PAGER_OK, Some x, pg') \<and> pager_inv contents pg' \<and>
    disk_of contents pg' = (disk_of contents pg)(1 \<mapsto> m1') \<and> drop 9 m1' = drop 9 m1 \<and>
    length m1' = length m1 \<and> free_list (disk_of contents pg') xs \<and>
    pgr_max_page pg' = pgr_max_page pg \<and> same_pager room pg pg'"
proof -
  have shape: "pager_shape contents pg" using inv by (simp add: pager_inv_def)
  define meta1 where "meta1 = meta_of m1"
  obtain mx where mx: "disk_of contents pg x = Some mx" "is_free (meta_of mx)"
    "free_path (disk_of contents pg) (next_free_page (meta_of mx)) xs"
    and x: "next_free_page meta1 = x" "x \<noteq> 0" "x \<noteq> 1" "x \<notin> set xs"
    using fl m1 by (auto simp: free_list_def meta1_def split: option.splits)
  define meta1' where "meta1' = meta1\<lparr>next_free_page := next_free_page (meta_of mx)\<rparr>"
  define m1' where "m1' = with_meta meta1' m1"
  have len1: "length m1 = dps pg" and lenx: "length mx = dps pg"
    using disk_of_length [OF shape] m1 mx(1) by auto
  have d12: "12 \<le> dps pg" using shape by (simp add: pager_shape_def)
  define fresh where "fresh = \<lparr>page_id = 0, page_size = pgr_page_size pg,
     page_status = PAGER_ERR_PAGE_PERSISTENCE_UNKNOWN, page_mem = replicate (dps pg) 0\<rparr>"
  have new: "page_create pg = Some (PAGER_OK, fresh)" by (simp add: page_create_eq fresh_def)
  have pf: "page_for pg fresh" by (simp add: page_for_def fresh_def)
  obtain c1 where r1: "pager_internal_cached_read pg \<lparr>sel_page_id = 1\<rparr> fresh =
      Some (PAGER_OK, pg\<lparr>pgr_cache := c1\<rparr>,
            fresh\<lparr>page_id := 1, page_status := PAGER_OK, page_mem := m1\<rparr>)"
    and i1: "pager_inv contents (pg\<lparr>pgr_cache := c1\<rparr>)"
    using cached_read_present [of pg "\<lparr>sel_page_id = 1\<rparr>" m1 fresh] inv m1 pf ops by auto
  define p1 where "p1 = fresh\<lparr>page_id := 1, page_status := PAGER_OK, page_mem := m1\<rparr>"
  define pg1 where "pg1 = pg\<lparr>pgr_cache := c1\<rparr>"
  have e1: "pgr_ops pg1 = ops" "page_for pg1 fresh" "disk_of contents pg1 = disk_of contents pg"
    using ops pf by (simp_all add: pg1_def page_for_def dps_def)
  obtain c2 where r2: "pager_internal_cached_read pg1 \<lparr>sel_page_id = x\<rparr> fresh =
      Some (PAGER_OK, pg1\<lparr>pgr_cache := c2\<rparr>,
            fresh\<lparr>page_id := x, page_status := PAGER_OK, page_mem := mx\<rparr>)"
    and i2: "pager_inv contents (pg1\<lparr>pgr_cache := c2\<rparr>)"
    using cached_read_present [of pg1 "\<lparr>sel_page_id = x\<rparr>" mx fresh] i1 mx(1) e1
    by (auto simp flip: pg1_def)
  define pg2 where "pg2 = pg1\<lparr>pgr_cache := c2\<rparr>"
  define p1' where "p1' = p1\<lparr>page_mem := m1'\<rparr>"
  have rm: "pagemeta_read p1 = Some meta1"
    using len1 d12 by (simp add: pagemeta_read_eq p1_def meta1_def)
  have rmx: "pagemeta_read (fresh\<lparr>page_id := x, page_status := PAGER_OK, page_mem := mx\<rparr>) =
      Some (meta_of mx)"
    using lenx d12 by (simp add: pagemeta_read_eq)
  have wm: "pagemeta_write p1 meta1' = Some p1'"
    using len1 d12 by (simp add: pagemeta_write_eq p1_def p1'_def m1'_def)
  have len1': "length m1' = dps pg" using len1 d12 by (simp add: m1'_def)
  have e2: "pgr_ops pg2 = ops" "page_for pg2 p1'" "disk_of contents pg2 = disk_of contents pg"
    "can_write room pg2 (page_id p1')" "page_id p1' = 1" "page_mem p1' = m1'"
    "pgr_max_page pg2 = pgr_max_page pg"
    using ops w len1'
    by (simp_all add: pg2_def pg1_def page_for_def dps_def p1'_def p1_def can_write_def)
  obtain pg' where r3: "pager_internal_cached_write pg2 p1' =
      Some (PAGER_OK, pg', p1'\<lparr>page_status := PAGER_OK\<rparr>)" "pager_inv contents pg'"
    "disk_of contents pg' = (disk_of contents pg)(1 \<mapsto> m1')"
    "pgr_max_page pg' = max (pgr_max_page pg) 1" "same_pager room pg2 pg'"
    using cached_write_ok [of pg2 p1'] i2 e2 by (auto simp flip: pg2_def)
  have max: "pgr_max_page pg' = pgr_max_page pg"
    using r3(4) m1 by (auto simp: disk_of_def allocated_def split: if_splits)
  have run: "pager_freelist_pop pg = Some (PAGER_OK, Some x, pg')"
    using new r1 rm x r2 rmx wm r3(1)
    by (simp add: pager_freelist_pop_def Let_def pager_reselect_def meta1'_def
        flip: p1_def pg1_def pg2_def)
  have path: "free_path (disk_of contents pg') h ys" if "free_path (disk_of contents pg) h ys" for h ys
    using that by (induction ys arbitrary: h) (auto simp: r3(3) split: option.splits)
  have "free_list (disk_of contents pg') xs"
    using path [OF mx(3)] by (simp add: free_list_def r3(3) m1'_def meta1'_def)
  then show ?thesis
    using run r3 max len1 len1' drop_with_meta [of 9 meta1' m1]
    by (auto simp: same_pager_def pg2_def pg1_def m1'_def)
qed

lemma freelist_pop_Nil:
  assumes inv: "pager_inv contents pg" and ops: "pgr_ops pg = ops"
    and fl: "free_list (disk_of contents pg) []"
  shows "\<exists>c. pager_freelist_pop pg = Some (PAGER_ERR_NO_FREE_PAGE, None, pg\<lparr>pgr_cache := c\<rparr>) \<and>
    pager_inv contents (pg\<lparr>pgr_cache := c\<rparr>)"
proof -
  have shape: "pager_shape contents pg" using inv by (simp add: pager_inv_def)
  obtain m1 where m1: "disk_of contents pg 1 = Some m1" "next_free_page (meta_of m1) = 0"
    using fl by (auto simp: free_list_def split: option.splits)
  have len1: "9 \<le> length m1"
    using disk_of_length [OF shape m1(1)] shape by (simp add: pager_shape_def)
  obtain fresh where new: "page_create pg = Some (PAGER_OK, fresh)" and pf: "page_for pg fresh"
    by (simp add: page_create_eq page_for_def)
  obtain c1 where "pager_internal_cached_read pg \<lparr>sel_page_id = 1\<rparr> fresh =
      Some (PAGER_OK, pg\<lparr>pgr_cache := c1\<rparr>,
            fresh\<lparr>page_id := 1, page_status := PAGER_OK, page_mem := m1\<rparr>)"
    and "pager_inv contents (pg\<lparr>pgr_cache := c1\<rparr>)"
    using cached_read_present [of pg "\<lparr>sel_page_id = 1\<rparr>" m1 fresh] inv m1 pf ops by auto
  with new m1 len1 show ?thesis
    by (auto simp: pager_freelist_pop_def Let_def pagemeta_read_eq)
qed

text \<open>
  Giving a page back puts it in front of the list; the payload of the page object is written
  with it.
\<close>

lemma freelist_push_page_ok:
  assumes inv: "pager_inv contents pg" and ops: "pgr_ops pg = ops"
    and fl: "free_list (disk_of contents pg) xs" and p: "page_for pg p"
    and x: "page_id p \<noteq> 0" "page_id p \<noteq> 1" "page_id p \<notin> set xs" "page_id p \<le> pgr_max_page pg"
    and w: "can_write room pg 1" "can_write room pg (page_id p)"
  shows "\<exists>pg' p' m1 m1'. pager_freelist_push_page pg p = Some (PAGER_OK, pg', p') \<and>
    pager_inv contents pg' \<and> free_list (disk_of contents pg') (page_id p # xs) \<and>
    disk_of contents pg 1 = Some m1 \<and>
    disk_of contents pg' = (disk_of contents pg)(1 \<mapsto> m1', page_id p \<mapsto> page_mem p') \<and>
    drop 9 m1' = drop 9 m1 \<and> drop 9 (page_mem p') = drop 9 (page_mem p) \<and>
    pgr_max_page pg' = pgr_max_page pg \<and> same_pager room pg pg'"
proof -
  have shape: "pager_shape contents pg" using inv by (simp add: pager_inv_def)
  obtain m1 where m1: "disk_of contents pg 1 = Some m1"
    and fp: "free_path (disk_of contents pg) (next_free_page (meta_of m1)) xs"
    using fl by (auto simp: free_list_def split: option.splits)
  define meta1 where "meta1 = meta_of m1"
  define m1' where "m1' = with_meta (meta1\<lparr>next_free_page := page_id p\<rparr>) m1"
  define metap where "metap = (meta_of (page_mem p))\<lparr>is_free := True,
    next_free_page := next_free_page meta1\<rparr>"
  define q where "q = p\<lparr>page_mem := with_meta metap (page_mem p)\<rparr>"
  have len1: "length m1 = dps pg" and lenp: "length (page_mem p) = dps pg"
    using disk_of_length [OF shape m1] p by (auto simp: page_for_def)
  have d12: "12 \<le> dps pg" using shape by (simp add: pager_shape_def)
  obtain fresh where new: "page_create pg = Some (PAGER_OK, fresh)" and pf: "page_for pg fresh"
    by (simp add: page_create_eq page_for_def)
  define p1 where "p1 = fresh\<lparr>page_id := 1, page_status := PAGER_OK, page_mem := m1\<rparr>"
  define p1' where "p1' = p1\<lparr>page_mem := m1'\<rparr>"
  obtain c1 where r1: "pager_internal_cached_read pg \<lparr>sel_page_id = 1\<rparr> fresh =
      Some (PAGER_OK, pg\<lparr>pgr_cache := c1\<rparr>, p1)"
    and i1: "pager_inv contents (pg\<lparr>pgr_cache := c1\<rparr>)"
    using cached_read_present [of pg "\<lparr>sel_page_id = 1\<rparr>" m1 fresh] inv m1 pf ops
    by (auto simp: p1_def)
  define pg1 where "pg1 = pg\<lparr>pgr_cache := c1\<rparr>"
  have rm: "pagemeta_read p1 = Some meta1"
    using len1 d12 by (simp add: pagemeta_read_eq p1_def meta1_def)
  have wm: "pagemeta_write p1 (meta1\<lparr>next_free_page := page_id p\<rparr>) = Some p1'"
    using len1 d12 by (simp add: pagemeta_write_eq p1_def p1'_def m1'_def)
  have "length m1' = dps pg" using len1 d12 by (simp add: m1'_def)
  then have e1: "pgr_ops pg1 = ops" "page_for pg1 p1'" "disk_of contents pg1 = disk_of contents pg"
    "can_write room pg1 (page_id p1')" "page_id p1' = 1" "page_mem p1' = m1'"
    "pgr_max_page pg1 = pgr_max_page pg"
    using ops w by (simp_all add: pg1_def page_for_def dps_def p1'_def p1_def can_write_def)
  obtain pg2 where r2: "pager_internal_cached_write pg1 p1' =
      Some (PAGER_OK, pg2, p1'\<lparr>page_status := PAGER_OK\<rparr>)" "pager_inv contents pg2"
    "disk_of contents pg2 = (disk_of contents pg)(1 \<mapsto> m1')"
    "pgr_max_page pg2 = max (pgr_max_page pg) 1" "same_pager room pg1 pg2"
    using cached_write_ok [of pg1 p1'] i1 e1 by (auto simp flip: pg1_def)
  have max: "pgr_max_page pg2 = pgr_max_page pg"
    using r2(4) m1 by (auto simp: disk_of_def allocated_def split: if_splits)
  have same2: "same_pager room pg pg2"
    using r2(5) by (simp add: same_pager_def pg1_def)
  have rq: "pagemeta_read p = Some (meta_of (page_mem p))"
    using lenp d12 by (simp add: pagemeta_read_eq)
  have wq: "pagemeta_write p metap = Some q"
    using lenp d12 by (simp add: pagemeta_write_eq q_def)
  have e2: "pgr_ops pg2 = ops" "page_for pg2 q" "can_write room pg2 (page_id q)" "page_id q = page_id p"
    using ops same2 w(2) max lenp d12
    by (simp_all add: same_pager_def page_for_def q_def dps_def can_write_def)
  obtain pg' where r3: "pager_internal_cached_write pg2 q =
      Some (PAGER_OK, pg', q\<lparr>page_status := PAGER_OK\<rparr>)" "pager_inv contents pg'"
    "disk_of contents pg' = (disk_of contents pg)(1 \<mapsto> m1', page_id p \<mapsto> page_mem q)"
    "pgr_max_page pg' = max (pgr_max_page pg2) (page_id p)" "same_pager room pg2 pg'"
    using cached_write_ok [of pg2 q] r2(2,3) e2 by auto
  have run: "pager_freelist_push_page pg p = Some (PAGER_OK, pg', q\<lparr>page_status := PAGER_OK\<rparr>)"
    using x(1) new r1 rm wm r2(1) rq wq r3(1)
    by (simp add: pager_freelist_push_page_def PAGE_CREATE_NEW_PAGE_def Let_def metap_def
        flip: pg1_def)
  have path: "free_path (disk_of contents pg') h ys"
    if "free_path (disk_of contents pg) h ys" "page_id p \<notin> set ys" for h ys
    using that by (induction ys arbitrary: h) (auto simp: r3(3) split: option.splits)
  have fl': "free_list (disk_of contents pg') (page_id p # xs)"
    using path [OF fp x(3)] x
    by (simp add: free_list_def r3(3) m1'_def q_def metap_def meta1_def)
  have "drop 9 m1' = drop 9 m1" "drop 9 (page_mem q) = drop 9 (page_mem p)"
    by (simp_all add: m1'_def q_def drop_with_meta)
  with run r3(2,3) fl' m1 max r3(4,5) same2 x(4) show ?thesis
    by (intro exI [of _ pg'] exI [of _ "q\<lparr>page_status := PAGER_OK\<rparr>"] exI [of _ m1] exI [of _ m1'])
      (auto simp: same_pager_def max_def)
qed

section \<open>Writing a page over any block device\<close>

lemma write_page_existing:
  assumes inv: "pager_inv contents pg" and ops: "pgr_ops pg = ops" and p: "page_for pg p"
    and w: "can_write room pg (page_id p)"
  shows "\<exists>pg'. pager_write_page pg p =
      Some (PAGER_OK, pg', p\<lparr>page_mem := in_use p, page_status := PAGER_OK\<rparr>) \<and>
    pager_inv contents pg' \<and>
    disk_of contents pg' = (disk_of contents pg)(page_id p \<mapsto> in_use p) \<and>
    pgr_max_page pg' = max (pgr_max_page pg) (page_id p) \<and> same_pager room pg pg'"
proof -
  have d: "9 \<le> length (page_mem p)"
    using inv p by (simp add: pager_inv_def pager_shape_def page_for_def)
  define q where "q = p\<lparr>page_mem := in_use p\<rparr>"
  have u: "set_in_use p = Some q"
    using d by (simp add: set_in_use_def pagemeta_read_eq pagemeta_write_eq q_def in_use_def)
  have "page_for pg q" "page_id q = page_id p" "page_mem q = in_use p"
    using p d by (simp_all add: page_for_def q_def in_use_def)
  then show ?thesis
    using cached_write_ok [of pg q] inv w ops u
    by (auto simp: pager_write_page_def PAGE_CREATE_NEW_PAGE_def can_write_def q_def)
qed

text \<open>Writing a page object without a number.\<close>

lemma disk_page_ok:
  assumes inv: "pager_inv contents pg" and ops: "pgr_ops pg = ops" and p: "page_for pg p"
    and fl: "pgr_max_page pg = 0 \<or> free_list (disk_of contents pg) xs"
    and w: "pgr_max_page pg = 0 \<or> can_write room pg 1"
  shows "\<exists>pg'. pager_disk_page pg p = Some (PAGER_OK, pg', p\<lparr>page_id := fresh_id pg xs,
        page_mem := with_meta (new_meta (fresh_id pg xs)) (page_mem p)\<rparr>) \<and>
    pager_inv contents pg' \<and> pgr_max_page pg' = pgr_max_page pg \<and> same_pager room pg pg' \<and>
    (pgr_max_page pg = 0 \<or> free_list (disk_of contents pg') (tl xs)) \<and>
    payload_eq (disk_of contents pg') (disk_of contents pg) \<and>
    (\<forall>j. j \<noteq> 1 \<longrightarrow> disk_of contents pg' j = disk_of contents pg j)"
proof -
  have d: "9 \<le> length (page_mem p)"
    using inv p by (simp add: pager_inv_def pager_shape_def page_for_def)
  have same: "same_pager room pg pg" by (simp add: same_pager_def)
  have meta: "write_new_page_meta (p\<lparr>page_id := i\<rparr>) i =
      Some (p\<lparr>page_id := i, page_mem := with_meta (new_meta i) (page_mem p)\<rparr>)" for i
    using d by (simp add: write_new_page_meta_def new_meta_def pagemeta_write_eq)
  show ?thesis
  proof (cases "pgr_max_page pg = 0")
    case True
    with meta inv same show ?thesis
      by (auto simp: pager_disk_page_def fresh_id_def payload_eq_def)
  next
    case False
    then have fl: "free_list (disk_of contents pg) xs" and w: "can_write room pg 1"
      using fl w by auto
    show ?thesis
    proof (cases xs)
      case Nil
      obtain c where pop: "pager_freelist_pop pg =
          Some (PAGER_ERR_NO_FREE_PAGE, None, pg\<lparr>pgr_cache := c\<rparr>)"
        "pager_inv contents (pg\<lparr>pgr_cache := c\<rparr>)"
        using freelist_pop_Nil [OF inv ops] fl Nil by auto
      then show ?thesis
        using False meta Nil fl
        by (auto simp: pager_disk_page_def fresh_id_def payload_eq_def same_pager_def)
    next
      case (Cons x ys)
      obtain m1 where m1: "disk_of contents pg 1 = Some m1"
        using fl by (auto simp: free_list_def split: option.splits)
      obtain pg' m1' where pop: "pager_freelist_pop pg = Some (PAGER_OK, Some x, pg')"
        "pager_inv contents pg'" "disk_of contents pg' = (disk_of contents pg)(1 \<mapsto> m1')"
        "drop 9 m1' = drop 9 m1" "free_list (disk_of contents pg') ys"
        "pgr_max_page pg' = pgr_max_page pg" "same_pager room pg pg'"
        using freelist_pop_Cons [OF inv ops m1 fl [unfolded Cons] w] by blast
      have "payload_eq (disk_of contents pg') (disk_of contents pg)"
        using pop(3,4) m1 by (auto simp: payload_eq_def)
      with pop False meta Cons show ?thesis
        by (auto simp: pager_disk_page_def fresh_id_def)
    qed
  qed
qed

lemma write_page_new:
  assumes inv: "pager_inv contents pg" and ops: "pgr_ops pg = ops" and p: "page_for pg p"
    and new: "page_id p = 0"
    and fl: "pgr_max_page pg = 0 \<or> free_list (disk_of contents pg) xs"
    and w: "pgr_max_page pg = 0 \<or> can_write room pg 1" "can_write room pg (fresh_id pg xs)"
  shows "\<exists>pg' disk1. pager_write_page pg p =
      Some (PAGER_OK, pg', p\<lparr>page_id := fresh_id pg xs, page_status := PAGER_OK,
        page_mem := with_meta (new_meta (fresh_id pg xs)) (page_mem p)\<rparr>) \<and>
    pager_inv contents pg' \<and>
    disk_of contents pg' = disk1(fresh_id pg xs \<mapsto>
      with_meta (new_meta (fresh_id pg xs)) (page_mem p)) \<and>
    payload_eq disk1 (disk_of contents pg) \<and>
    (\<forall>j. j \<noteq> 1 \<longrightarrow> disk1 j = disk_of contents pg j) \<and>
    (pgr_max_page pg = 0 \<or> free_list disk1 (tl xs)) \<and>
    pgr_max_page pg' = max (pgr_max_page pg) (fresh_id pg xs) \<and> same_pager room pg pg'"
proof -
  define i where "i = fresh_id pg xs"
  define q where "q = p\<lparr>page_id := i, page_mem := with_meta (new_meta i) (page_mem p)\<rparr>"
  have d: "9 \<le> length (page_mem p)"
    using inv p by (simp add: pager_inv_def pager_shape_def page_for_def)
  obtain pg1 where pg1: "pager_disk_page pg p = Some (PAGER_OK, pg1, q)" "pager_inv contents pg1"
    "pgr_max_page pg1 = pgr_max_page pg" "same_pager room pg pg1"
    "pgr_max_page pg = 0 \<or> free_list (disk_of contents pg1) (tl xs)"
    "payload_eq (disk_of contents pg1) (disk_of contents pg)"
    "\<forall>j. j \<noteq> 1 \<longrightarrow> disk_of contents pg1 j = disk_of contents pg j"
    using disk_page_ok [OF inv ops p fl w(1)] unfolding q_def i_def by blast
  have use: "in_use q = page_mem q"
    by (simp add: in_use_def q_def new_meta_def)
  have "pgr_ops pg1 = ops" "page_for pg1 q" "can_write room pg1 (page_id q)"
    using ops pg1(3,4) p d w(2)
    by (simp_all add: same_pager_def page_for_def dps_def q_def can_write_def i_def)
  from write_page_existing [OF pg1(2) this] obtain pg' where
    pg': "pager_write_page pg1 q = Some (PAGER_OK, pg', q\<lparr>page_status := PAGER_OK\<rparr>)"
    "pager_inv contents pg'" "disk_of contents pg' = (disk_of contents pg1)(i \<mapsto> page_mem q)"
    "pgr_max_page pg' = max (pgr_max_page pg1) i" "same_pager room pg1 pg'"
    unfolding use by (auto simp: q_def)
  have "i \<noteq> 0" using w(2) by (simp add: can_write_def i_def)
  then have "pager_write_page pg p = Some (PAGER_OK, pg', q\<lparr>page_status := PAGER_OK\<rparr>)"
    using pg1(1) pg'(1) new
    by (simp add: pager_write_page_def PAGE_CREATE_NEW_PAGE_def q_def)
  with pg1 pg' show ?thesis
    by (intro exI [of _ pg'] exI [of _ "disk_of contents pg1"])
      (simp add: same_pager_def q_def i_def)
qed

end

end
