(* ===== verification/PagerProps.thy ===== *)
theory PagerProps
  imports PagerSpec
begin

text \<open>
  The properties of the pager over C streams: the lemmas of \<open>PagerSpec\<close> at the interpretation
  \<open>cstd\<close> of the block device, opening a file, and what happens when the disk refuses a write.
  A concrete pager with two pages shows that the hypotheses can hold.
\<close>

section \<open>Checking the invariant of a concrete pager\<close>

definition entry_check :: "(u32 \<rightharpoonup> bytes) \<Rightarrow> page_cache_key \<Rightarrow> bool" where
  "entry_check disk k \<longleftrightarrow> pck_page_id k \<noteq> 0 \<and> unat (pck_page_id k) < 2147483648 \<and>
     pck_ref k = 0 \<and>
     (case pck_page k of None \<Rightarrow> False
      | Some p \<Rightarrow> page_id p = pck_page_id k \<and> disk (pck_page_id k) = Some (page_mem p))"

definition pager_check :: "('f \<Rightarrow> bytes) \<Rightarrow> 'f pager \<Rightarrow> bool" where
  "pager_check contents pg \<longleftrightarrow>
     (case pgr_file pg of None \<Rightarrow> False
      | Some f \<Rightarrow> length (contents f) = dps pg * unat (pgr_max_page pg)) \<and>
     12 \<le> dps pg \<and> dps pg * (unat (pgr_max_page pg) + 1) < 2147483648 \<and>
     length (pc_pages (pgr_cache pg)) = pc_capacity (pgr_cache pg) \<and>
     pc_size (pgr_cache pg) \<le> pc_capacity (pgr_cache pg) \<and> 0 < pc_capacity (pgr_cache pg) \<and>
     sorted_wrt (<) (map pck_page_id (entries (pgr_cache pg))) \<and>
     list_all (entry_check (disk_of contents pg)) (entries (pgr_cache pg))"

lemma entry_check_ok: "entry_check disk k \<Longrightarrow> entry_ok k"
  by (auto simp: entry_check_def entry_ok_def split: option.splits)

lemma pager_checkI:
  assumes "pager_check contents pg"
  shows "pager_inv contents pg"
proof -
  have chk: "\<forall>k \<in> set (entries (pgr_cache pg)). entry_check (disk_of contents pg) k"
    using assms by (simp add: pager_check_def list_all_iff)
  have "cache_inv (pgr_cache pg)"
    using assms chk entry_check_ok by (auto simp: pager_check_def cache_inv_def)
  moreover have "cache_coherent (disk_of contents pg) (pgr_cache pg)"
    unfolding cache_coherent_def
  proof (intro allI impI)
    fix pid k assume "cache_map (pgr_cache pg) pid = Some k"
    then have "k \<in> set (entries (pgr_cache pg))" "pck_page_id k = pid"
      using cache_map_SomeD by auto
    with chk show "pck_ref k = 0 \<and>
        (\<exists>p. pck_page k = Some p \<and> disk_of contents pg pid = Some (page_mem p))"
      by (auto simp: entry_check_def split: option.splits)
  qed
  moreover have "pager_shape contents pg"
    using assms by (auto simp: pager_check_def pager_shape_def pgr_content_def split: option.splits)
  ultimately show ?thesis
    using assms by (simp add: pager_inv_def pager_check_def)
qed

text \<open>
  A file of three 16-byte pages, the third of them on the free list, and a cache of two slots
  that holds page 2.
\<close>

definition demo_fs :: cfs where
  "demo_fs = \<lparr>fs_files = Map.empty, fs_new_quota = Some 80\<rparr>"

definition demo_page2 :: bytes where
  "demo_page2 = [0xAF, 0, 0, 0, 0, 2, 0, 0, 0, 0, 0, 0, 20, 21, 22, 23]"

definition demo_file :: bytes where
  "demo_file = [0xAF, 3, 0, 0, 0, 1, 0, 0, 0, 0, 0, 0, 10, 11, 12, 13] @ demo_page2 @
     [0xCC, 0, 0, 0, 0, 3, 0, 0, 0, 0, 0, 0, 30, 31, 32, 33]"

definition demo_cache :: page_cache where
  "demo_cache = \<lparr>pc_pages =
      [\<lparr>pck_page_id = 2,
        pck_page = Some \<lparr>page_id = 2, page_size = 4, page_status = PAGER_OK, page_mem = demo_page2\<rparr>,
        pck_ref = 0\<rparr>, zero_key],
     pc_size = 1, pc_capacity = 2\<rparr>"

definition demo_pager :: "cfile pager" where
  "demo_pager = \<lparr>pgr_name = ''demo'', pgr_ops = CStdOps demo_fs, pgr_disk_page_size = 16,
     pgr_page_size = 4, pgr_max_page = 3, pgr_file = Some \<lparr>cf_data = demo_file, cf_quota = 80\<rparr>,
     pgr_cache = demo_cache\<rparr>"

definition demo_page :: "u32 \<Rightarrow> page" where
  "demo_page pid = \<lparr>page_id = pid, page_size = 4, page_status = PAGER_OK,
     page_mem = replicate 12 0 @ [7, 7, 7, 7]\<rparr>"

lemmas demo_defs = demo_pager_def demo_cache_def demo_file_def demo_page2_def demo_page_def
  demo_fs_def

lemma demo_pager_inv: "pager_inv cf_data demo_pager"
  by (rule pager_checkI)
    (simp add: pager_check_def demo_defs dps_def entries_def entry_check_def disk_of_def
      allocated_def pgr_content_def page_slice_def)

lemma demo_pager_ops: "pgr_ops demo_pager = CStdOps demo_fs"
  by (simp add: demo_pager_def)

lemma demo_page_for: "page_for demo_pager (demo_page i)"
  by (simp add: page_for_def demo_pager_def demo_page_def dps_def)

lemma demo_can_write:
  "can_write co_room demo_pager 1" "can_write co_room demo_pager 2"
  "can_write co_room demo_pager 3" "can_write co_room demo_pager 4"
  by (simp_all add: can_write_def demo_pager_def dps_def co_room_def)

lemma demo_free_list: "free_list (disk_of cf_data demo_pager) [3]"
  by code_simp

section \<open>Reading\<close>

text \<open>
  C7: reading an allocated page fills the caller's page with the bytes that page has on disk,
  whether the cache holds it or not, and neither the file nor any page changes.
\<close>

theorem pager_read_page_present:
  assumes "pager_inv cf_data pg" and "pgr_ops pg = CStdOps fs"
    and "disk_of cf_data pg (sel_page_id sel) = Some m" and "page_for pg p"
  shows "\<exists>c. pager_read_page pg sel p =
      Some (PAGER_OK, pg\<lparr>pgr_cache := c\<rparr>,
            p\<lparr>page_id := sel_page_id sel, page_status := PAGER_OK, page_mem := m\<rparr>) \<and>
    pager_inv cf_data (pg\<lparr>pgr_cache := c\<rparr>) \<and>
    disk_of cf_data (pg\<lparr>pgr_cache := c\<rparr>) = disk_of cf_data pg"
  using cstd.cached_read_present [OF assms(1,3,4,2)] by (simp add: pager_read_page_def)

lemma pager_read_page_present_witness:
  "\<exists>c. pager_read_page demo_pager \<lparr>sel_page_id = 2\<rparr> (demo_page 0) =
      Some (PAGER_OK, demo_pager\<lparr>pgr_cache := c\<rparr>, (demo_page 0)\<lparr>page_id := 2,
        page_status := PAGER_OK, page_mem := demo_page2\<rparr>) \<and>
    pager_inv cf_data (demo_pager\<lparr>pgr_cache := c\<rparr>) \<and>
    disk_of cf_data (demo_pager\<lparr>pgr_cache := c\<rparr>) = disk_of cf_data demo_pager"
proof -
  have "disk_of cf_data demo_pager (sel_page_id \<lparr>sel_page_id = 2\<rparr>) = Some demo_page2"
    by code_simp
  from pager_read_page_present [OF demo_pager_inv demo_pager_ops this demo_page_for]
  show ?thesis by simp
qed

text \<open>
  C8: reading a page behind the last one reports \<open>PAGER_ERR_NIF\<close>, in the result and in the
  page's status, and leaves the pager and the caller's bytes as they were, as long as the offset of
  the page is below \<open>2 ^ 31\<close>.
\<close>

theorem pager_read_page_absent:
  assumes "pager_inv cf_data pg" and "pgr_ops pg = CStdOps fs"
    and "pgr_max_page pg < sel_page_id sel"
    and "dps pg * unat (sel_page_id sel) < 2147483648"
  shows "pager_read_page pg sel p =
    Some (PAGER_ERR_NIF, pg, p\<lparr>page_id := sel_page_id sel, page_status := PAGER_ERR_NIF\<rparr>)"
  using cstd.cached_read_absent [OF assms(1,3,4,2)] by (simp add: pager_read_page_def)

lemma pager_read_page_absent_witness:
  "pager_read_page demo_pager \<lparr>sel_page_id = 4\<rparr> (demo_page 0) =
    Some (PAGER_ERR_NIF, demo_pager, (demo_page 0)\<lparr>page_id := 4, page_status := PAGER_ERR_NIF\<rparr>)"
  using pager_read_page_absent [OF demo_pager_inv demo_pager_ops,
      of "\<lparr>sel_page_id = 4\<rparr>" "demo_page 0"]
  by (simp add: demo_pager_def dps_def)

section \<open>Writing\<close>

text \<open>
  C9: writing a page that has a number stores its bytes, marked as in use, under that number
  and changes no other page; the next read of the page sees them.
\<close>

theorem pager_write_then_read:
  assumes "pager_inv cf_data pg" and "pgr_ops pg = CStdOps fs" and "page_for pg p"
    and "can_write co_room pg (page_id p)" and "page_for pg q"
  shows "\<exists>pg' c. pager_write_page pg p =
      Some (PAGER_OK, pg', p\<lparr>page_mem := in_use p, page_status := PAGER_OK\<rparr>) \<and>
    pager_inv cf_data pg' \<and>
    disk_of cf_data pg' = (disk_of cf_data pg)(page_id p \<mapsto> in_use p) \<and>
    pager_read_page pg' \<lparr>sel_page_id = page_id p\<rparr> q =
      Some (PAGER_OK, pg'\<lparr>pgr_cache := c\<rparr>,
            q\<lparr>page_id := page_id p, page_status := PAGER_OK, page_mem := in_use p\<rparr>)"
proof -
  obtain pg' where pg': "pager_write_page pg p =
      Some (PAGER_OK, pg', p\<lparr>page_mem := in_use p, page_status := PAGER_OK\<rparr>)"
    "pager_inv cf_data pg'" "disk_of cf_data pg' = (disk_of cf_data pg)(page_id p \<mapsto> in_use p)"
    "same_pager co_room pg pg'"
    using cstd.write_page_existing [OF assms(1,2,3,4)] by auto
  have "pgr_ops pg' = CStdOps fs" "page_for pg' q"
    using pg'(4) assms(2,5) by (simp_all add: same_pager_def page_for_def dps_def)
  from cstd.cached_read_present [of pg' "\<lparr>sel_page_id = page_id p\<rparr>" "in_use p" q, OF pg'(2) _ this(2,1)]
  show ?thesis using pg' by (auto simp: pager_read_page_def)
qed

lemma pager_write_then_read_witness:
  "\<exists>pg' c. pager_write_page demo_pager (demo_page 1) =
      Some (PAGER_OK, pg', (demo_page 1)\<lparr>page_mem := in_use (demo_page 1), page_status := PAGER_OK\<rparr>) \<and>
    pager_inv cf_data pg' \<and>
    disk_of cf_data pg' = (disk_of cf_data demo_pager)(1 \<mapsto> in_use (demo_page 1)) \<and>
    pager_read_page pg' \<lparr>sel_page_id = 1\<rparr> (demo_page 0) =
      Some (PAGER_OK, pg'\<lparr>pgr_cache := c\<rparr>, (demo_page 0)\<lparr>page_id := 1, page_status := PAGER_OK,
              page_mem := in_use (demo_page 1)\<rparr>)"
proof -
  have "page_id (demo_page 1) = 1" by (simp add: demo_page_def)
  then show ?thesis
    using pager_write_then_read [OF demo_pager_inv demo_pager_ops demo_page_for [of 1] _
        demo_page_for [of 0]] demo_can_write(1)
    by simp
qed

section \<open>Allocation and the free list\<close>

text \<open>
  C10: writing a page without a number allocates one: page 1 of an empty file, else the head of
  the free list, else the number behind the last page.  The page is stored under it, the
  free list loses its head, and no other page's payload changes.
\<close>

theorem pager_write_page_allocates:
  assumes "pager_inv cf_data pg" and "pgr_ops pg = CStdOps fs" and "page_for pg p"
    and "page_id p = PAGE_CREATE_NEW_PAGE"
    and "pgr_max_page pg = 0 \<or> free_list (disk_of cf_data pg) xs"
    and "pgr_max_page pg = 0 \<or> can_write co_room pg 1" and "can_write co_room pg (fresh_id pg xs)"
  shows "\<exists>pg' disk1. pager_write_page pg p =
      Some (PAGER_OK, pg', p\<lparr>page_id := fresh_id pg xs, page_status := PAGER_OK,
        page_mem := with_meta (new_meta (fresh_id pg xs)) (page_mem p)\<rparr>) \<and>
    pager_inv cf_data pg' \<and>
    disk_of cf_data pg' = disk1(fresh_id pg xs \<mapsto>
      with_meta (new_meta (fresh_id pg xs)) (page_mem p)) \<and>
    payload_eq disk1 (disk_of cf_data pg) \<and>
    (\<forall>j. j \<noteq> 1 \<longrightarrow> disk1 j = disk_of cf_data pg j) \<and>
    (pgr_max_page pg = 0 \<or> free_list disk1 (tl xs)) \<and>
    pgr_max_page pg' = max (pgr_max_page pg) (fresh_id pg xs)"
  using cstd.write_page_new [OF assms(1-3) _ assms(5-7)] assms(4)
  unfolding PAGE_CREATE_NEW_PAGE_def by blast

lemma pager_write_page_allocates_witness:
  "\<exists>pg' disk1. pager_write_page demo_pager (demo_page 0) =
      Some (PAGER_OK, pg', (demo_page 0)\<lparr>page_id := 3, page_status := PAGER_OK,
        page_mem := with_meta (new_meta 3) (page_mem (demo_page 0))\<rparr>) \<and>
    free_list disk1 []"
proof -
  have id: "fresh_id demo_pager [3] = 3" by (simp add: fresh_id_def demo_pager_def)
  have "pgr_max_page demo_pager \<noteq> 0" by (simp add: demo_pager_def)
  with pager_write_page_allocates [OF demo_pager_inv demo_pager_ops demo_page_for [of 0] _
      disjI2 [OF demo_free_list] disjI2 [OF demo_can_write(1)]] demo_can_write(3)
  show ?thesis by (auto simp: id demo_page_def PAGE_CREATE_NEW_PAGE_def)
qed

text \<open>
  C11: the free list is a stack.  Pushing a page in use and popping afterwards yields that page
  and the old list again, and neither step touches the payload of any page.
\<close>

theorem freelist_push_pop:
  assumes "pager_inv cf_data pg" and "pgr_ops pg = CStdOps fs"
    and "free_list (disk_of cf_data pg) xs" and "x \<noteq> 1" and "x \<notin> set xs"
    and "allocated pg x" and "can_write co_room pg 1" and "can_write co_room pg x"
  shows "\<exists>pg1 pg2. pager_freelist_push pg x = Some (PAGER_OK, pg1) \<and>
    pager_inv cf_data pg1 \<and> free_list (disk_of cf_data pg1) (x # xs) \<and>
    payload_eq (disk_of cf_data pg1) (disk_of cf_data pg) \<and>
    pager_freelist_pop pg1 = Some (PAGER_OK, Some x, pg2) \<and>
    pager_inv cf_data pg2 \<and> free_list (disk_of cf_data pg2) xs \<and>
    payload_eq (disk_of cf_data pg2) (disk_of cf_data pg)"
proof -
  obtain fresh where new: "page_create pg = Some (PAGER_OK, fresh)" and pf: "page_for pg fresh"
    by (simp add: page_create_eq page_for_def)
  obtain m where m: "disk_of cf_data pg x = Some m"
    using assms(6) by (simp add: disk_of_def)
  obtain c where r: "pager_internal_cached_read pg \<lparr>sel_page_id = x\<rparr> fresh =
      Some (PAGER_OK, pg\<lparr>pgr_cache := c\<rparr>,
            fresh\<lparr>page_id := x, page_status := PAGER_OK, page_mem := m\<rparr>)"
    and i0: "pager_inv cf_data (pg\<lparr>pgr_cache := c\<rparr>)"
    using cstd.cached_read_present [of pg "\<lparr>sel_page_id = x\<rparr>" m fresh] assms(1,2) m pf by auto
  define pg0 p where "pg0 = pg\<lparr>pgr_cache := c\<rparr>"
    and "p = fresh\<lparr>page_id := x, page_status := PAGER_OK, page_mem := m\<rparr>"
  have len: "length m = dps pg"
    using assms(1) m disk_of_length by (auto simp: pager_inv_def)
  have a: "pager_inv cf_data pg0" "pgr_ops pg0 = CStdOps fs"
    "free_list (disk_of cf_data pg0) xs" "page_for pg0 p" "page_id p \<noteq> 0" "page_id p \<noteq> 1"
    "page_id p \<notin> set xs" "page_id p \<le> pgr_max_page pg0" "can_write co_room pg0 1"
    "can_write co_room pg0 (page_id p)"
    using i0 assms len
    by (simp_all add: pg0_def p_def page_for_def dps_def allocated_def can_write_def)
  obtain pg1 p' m1 m1' where push:
    "pager_freelist_push_page pg0 p = Some (PAGER_OK, pg1, p')"
    "pager_inv cf_data pg1" "free_list (disk_of cf_data pg1) (page_id p # xs)"
    "disk_of cf_data pg0 1 = Some m1"
    "disk_of cf_data pg1 = (disk_of cf_data pg0)(1 \<mapsto> m1', page_id p \<mapsto> page_mem p')"
    "drop 9 m1' = drop 9 m1" "drop 9 (page_mem p') = drop 9 (page_mem p)"
    "pgr_max_page pg1 = pgr_max_page pg0" "same_pager co_room pg0 pg1"
    using cstd.freelist_push_page_ok [OF a] by blast
  have px: "page_id p = x" by (simp add: p_def)
  have pay1: "payload_eq (disk_of cf_data pg1) (disk_of cf_data pg)"
    using push(4-7) m by (simp add: payload_eq_def pg0_def p_def)
  have ops1: "pgr_ops pg1 = CStdOps fs" and w1: "can_write co_room pg1 1"
    using push(8,9) a(2,9) by (simp_all add: same_pager_def can_write_def dps_def)
  have d11: "disk_of cf_data pg1 1 = Some m1'"
    using push(5) a(6) by simp
  from cstd.freelist_pop_Cons [OF push(2) ops1 d11 push(3) w1]
  obtain pg2 m2 where pop: "pager_freelist_pop pg1 = Some (PAGER_OK, Some x, pg2)"
    "pager_inv cf_data pg2" "disk_of cf_data pg2 = (disk_of cf_data pg1)(1 \<mapsto> m2)"
    "drop 9 m2 = drop 9 m1'" "free_list (disk_of cf_data pg2) xs"
    unfolding px by blast
  have "payload_eq (disk_of cf_data pg2) (disk_of cf_data pg)"
  proof -
    have "map_option (drop 9) (disk_of cf_data pg2 j) = map_option (drop 9) (disk_of cf_data pg1 j)"
      for j using pop(3,4) d11 by simp
    with pay1 show ?thesis by (simp add: payload_eq_def)
  qed
  moreover have "pager_freelist_push pg x = Some (PAGER_OK, pg1)"
    using new r push(1) by (simp add: pager_freelist_push_def flip: pg0_def p_def)
  ultimately show ?thesis
    using push(2,3) pop pay1 px by blast
qed

lemma freelist_push_pop_witness:
  "\<exists>pg1 pg2. pager_freelist_push demo_pager 2 = Some (PAGER_OK, pg1) \<and>
    free_list (disk_of cf_data pg1) [2, 3] \<and>
    pager_freelist_pop pg1 = Some (PAGER_OK, Some 2, pg2) \<and>
    free_list (disk_of cf_data pg2) [3]"
proof -
  have "allocated demo_pager 2" by (simp add: allocated_def demo_pager_def)
  from freelist_push_pop [OF demo_pager_inv demo_pager_ops demo_free_list _ _ this
      demo_can_write(1,2)]
  show ?thesis by auto
qed

section \<open>Opening a file, and a full disk\<close>

text \<open>
  C12: opening a file that consists of whole pages, with an empty cache, gives a pager in
  which exactly these pages are allocated, each with its bytes in the file.
\<close>

theorem pager_cstd_create_open:
  assumes "fs_files fs filename = Some f" and "length filename \<le> 31"
    and "list_all (\<lambda>ch. ch \<noteq> CHR 0x00) filename"
    and "length (cf_data f) = unat psize * n" and "12 \<le> unat psize"
    and "unat psize * (n + 1) < 2147483648" and "0 < cap"
  shows "\<exists>pg. pager_cstd_create fs (snd (page_cache_create cap)) filename psize =
      Some (PAGER_OK, pg) \<and> pager_inv cf_data pg \<and> pgr_ops pg = CStdOps fs \<and>
    unat (pgr_max_page pg) = n \<and>
    (\<forall>pid. disk_of cf_data pg pid =
       (if pid \<noteq> 0 \<and> unat pid \<le> n
        then Some (take (unat psize) (drop (unat psize * (unat pid - 1)) (cf_data f))) else None))"
proof -
  define name where "name = filename @ replicate (32 - length filename) (CHR 0x00)"
  define mx :: u32 where "mx = word_of_int (int (length (cf_data f))) div psize"
  define pg where "pg = \<lparr>pgr_name = name, pgr_ops = CStdOps fs, pgr_disk_page_size = psize,
    pgr_page_size = psize - 12, pgr_max_page = mx, pgr_file = Some f,
    pgr_cache = snd (page_cache_create cap)\<rparr>"
  have "takeWhile (\<lambda>ch. ch \<noteq> CHR 0x00) name = filename"
    using assms(2,3) by (simp add: name_def takeWhile_append list_all_iff)
  moreover have "mem_write (replicate 32 (CHR 0x00)) 0 filename = Some name"
    using assms(2) by (simp add: mem_write_def name_def)
  moreover have "psize \<noteq> 0" using assms(5) by auto
  ultimately have run: "pager_cstd_create fs (snd (page_cache_create cap)) filename psize =
      Some (PAGER_OK, pg)"
    using assms(1,2)
    by (simp add: pager_cstd_create_def pager_create_def pager_open_def Let_def CStdOps_def
        co_open_def co_size_def pg_def mx_def min_absorb2)
  have small: "unat psize * n < 2147483648"
    using assms(6) by (meson le_add1 le_less_trans mult_le_mono2)
  then have "unat (word_of_int (int (length (cf_data f))) :: u32) = unat psize * n"
    using assms(4) unat_u32_of_nat [of "unat psize * n"] by simp
  then have mx: "unat mx = n"
    using assms(5) by (simp add: mx_def unat_div)
  have shape: "pager_shape cf_data pg"
    using assms(4,5,6) mx by (simp add: pager_shape_def dps_def pgr_content_def pg_def)
  have "cache_coherent (disk_of cf_data pg) (pgr_cache pg)"
    by (simp add: cache_coherent_def pg_def)
  with shape assms(7) have "pager_inv cf_data pg"
    by (simp add: pager_inv_def pg_def)
  with run mx show ?thesis
    by (auto simp: pg_def disk_of_def allocated_def dps_def pgr_content_def page_slice_def
        word_le_nat_alt)
qed

lemma pager_cstd_create_open_witness:
  "\<exists>pg. pager_cstd_create \<lparr>fs_files = [''a.db'' \<mapsto> \<lparr>cf_data = demo_file, cf_quota = 80\<rparr>],
      fs_new_quota = None\<rparr> (snd (page_cache_create 2)) ''a.db'' 16 = Some (PAGER_OK, pg) \<and>
    pager_inv cf_data pg \<and> disk_of cf_data pg 2 = Some demo_page2 \<and> disk_of cf_data pg 4 = None"
proof -
  define fs where "fs = \<lparr>fs_files = [''a.db'' \<mapsto> \<lparr>cf_data = demo_file, cf_quota = 80\<rparr>],
      fs_new_quota = None\<rparr>"
  have "fs_files fs ''a.db'' = Some \<lparr>cf_data = demo_file, cf_quota = 80\<rparr>"
    by (simp add: fs_def)
  from pager_cstd_create_open [OF this, of 16 3 2]
  show ?thesis unfolding fs_def by (auto simp: demo_file_def demo_page2_def)
qed

text \<open>
  C13: a write the disk refuses is reported as a success.  When the page lies behind the last byte
  the disk can hold and is not cached, the file is left as it was, yet the
  result and the page's status are \<open>PAGER_OK\<close>.
\<close>

theorem pager_write_full_disk:
  assumes "pager_inv cf_data pg" and "pgr_ops pg = CStdOps fs" and "page_for pg p"
    and "pgr_file pg = Some f" and "page_id p \<noteq> 0"
    and "cf_quota f \<le> dps pg * (unat (page_id p) - 1)"
    and "dps pg * (unat (page_id p) - 1) < 65536"
    and "cache_map (pgr_cache pg) (page_id p) = None"
  shows "\<exists>pg'. pager_write_page pg p =
      Some (PAGER_OK, pg', p\<lparr>page_mem := in_use p, page_status := PAGER_OK\<rparr>) \<and>
    pgr_file pg' = Some f"
proof -
  have shape: "pager_shape cf_data pg" and cinv: "cache_inv (pgr_cache pg)"
    using assms(1) by (auto simp: pager_inv_def)
  define q where "q = p\<lparr>page_mem := in_use p\<rparr>"
  have d: "9 \<le> length (page_mem p)"
    using shape assms(3) by (simp add: pager_shape_def page_for_def)
  have u: "set_in_use p = Some q"
    using d by (simp add: set_in_use_def pagemeta_read_eq pagemeta_write_eq q_def in_use_def)
  have lenq: "length (page_mem q) = dps pg"
    using assms(3) d by (simp add: page_for_def q_def in_use_def)
  have off: "sint (pgr_disk_page_size pg * (page_id p - 1)) = int (dps pg * (unat (page_id p) - 1))"
    using assms(7) by (intro page_offset [OF assms(5)]) simp
  have "int (dps pg * (unat (page_id p) - 1)) < 65536" using assms(7) by linarith
  then have "co_write f (page_mem q) (int (dps pg * (unat (page_id p) - 1))) (int (dps pg)) =
      Some (PAGER_WRITE_ERR, f)"
    using assms(6) lenq shape
    by (simp add: co_write_def mem_read_def pager_shape_def Let_def del: of_nat_mult)
  moreover have "pg\<lparr>pgr_cache := pgr_cache pg\<rparr> = pg" by simp
  ultimately have "\<exists>pg'. pager_internal_cached_write pg q =
      Some (PAGER_OK, pg', q\<lparr>page_status := PAGER_OK\<rparr>) \<and> pgr_file pg' = Some f"
    using page_cache_acquire_miss [OF cinv assms(8)] off sint_dps [OF shape] assms(2,4)
    by (auto simp: pager_internal_cached_write_def pager_internal_write_def q_def CStdOps_def Let_def)
  with u show ?thesis
    using assms(5) by (auto simp: pager_write_page_def PAGE_CREATE_NEW_PAGE_def q_def)
qed

lemma pager_write_full_disk_witness:
  "\<exists>pg'. pager_write_page demo_pager (demo_page 6) =
      Some (PAGER_OK, pg', (demo_page 6)\<lparr>page_mem := in_use (demo_page 6), page_status := PAGER_OK\<rparr>) \<and>
    pgr_file pg' = Some \<lparr>cf_data = demo_file, cf_quota = 80\<rparr>"
proof -
  have "cache_map (pgr_cache demo_pager) 6 = None"
    by (simp add: cache_map_None_iff entries_def demo_pager_def demo_cache_def)
  then show ?thesis
    using pager_write_full_disk [OF demo_pager_inv demo_pager_ops demo_page_for [of 6],
        of "\<lparr>cf_data = demo_file, cf_quota = 80\<rparr>"]
    by (simp add: demo_pager_def demo_page_def dps_def)
qed

end
