(* ===== verification/Overflow.thy ===== *)
theory Overflow
  imports BTreeDefs PagerProps
begin

text \<open>
  \<open>btree_overflow.c\<close>: one page of an overflow chain holds the next page's number, the number of
  payload bytes, and the payload.
\<close>

record overflow_read_result =
  orr_next_page_id :: u32
  orr_payload_bytes :: u32

definition btree_overflow_max_write_size :: "'f pager \<Rightarrow> u32" where
  "btree_overflow_max_write_size pager = pgr_page_size pager - 4 * 2"

text \<open>The last component is \<open>*out_payload\<close>, a pointer into the page.\<close>

definition btree_overflow_peek ::
  "'f pager \<Rightarrow> page \<Rightarrow> u32
   \<Rightarrow> (btree_e \<times> 'f pager \<times> page \<times> overflow_read_result \<times> bytes option) option" where
  "btree_overflow_peek pager page pid =
     (let out = \<lparr>orr_next_page_id = 0, orr_payload_bytes = 0\<rparr>;
          selector = pager_reselect \<lparr>sel_page_id = 0\<rparr> pid in do {
        (e, pager, page) \<leftarrow> pager_read_page pager selector page;
        (let read_result = btpage_err e in
         if read_result \<noteq> BTREE_OK then Some (read_result, pager, page, out, None)
         else do {
           next_page_id \<leftarrow> mem_read32 (page_mem page) page_buffer_off;
           bytes_on_page \<leftarrow> mem_read32 (page_mem page) (page_buffer_off + 4);
           require (bytes_on_page < pgr_page_size pager);
           Some (read_result, pager, page,
                 \<lparr>orr_next_page_id = next_page_id, orr_payload_bytes = bytes_on_page\<rparr>,
                 Some (drop (page_buffer_off + 8) (page_mem page)))
         })
      })"

definition btree_overflow_read ::
  "'f pager \<Rightarrow> u32 \<Rightarrow> bytes \<Rightarrow> u32
   \<Rightarrow> (btree_e \<times> 'f pager \<times> bytes \<times> overflow_read_result) option" where
  "btree_overflow_read pager pid buffer buffer_size =
     do {
       (e, page) \<leftarrow> page_create pager;
       if btpage_err e \<noteq> BTREE_OK
       then Some (btpage_err e, pager, buffer, \<lparr>orr_next_page_id = 0, orr_payload_bytes = 0\<rparr>)
       else do {
         (read_result, pager, page, out, payload) \<leftarrow> btree_overflow_peek pager page pid;
         if read_result \<noteq> BTREE_OK then Some (read_result, pager, buffer, out)
         else if orr_payload_bytes out > buffer_size
         then Some (BTREE_ERR_NODE_NOT_ENOUGH_SPACE, pager, buffer, out)
         else do {
           p \<leftarrow> payload;
           xs \<leftarrow> mem_read p 0 (unat (orr_payload_bytes out));
           buffer \<leftarrow> mem_write buffer 0 xs;
           Some (read_result, pager, buffer, out)
         }
       }
     }"

text \<open>The last component is \<open>out->page_id\<close>, set on success only.\<close>

definition btree_overflow_write ::
  "'f pager \<Rightarrow> bytes \<Rightarrow> u32 \<Rightarrow> u32 \<Rightarrow> (btree_e \<times> 'f pager \<times> u32 option) option" where
  "btree_overflow_write pager data data_size follow_page_id =
     (if data_size > btree_overflow_max_write_size pager
      then Some (BTREE_ERR_NODE_NOT_ENOUGH_SPACE, pager, None)
      else do {
        (e, page) \<leftarrow> page_create pager;
        if btpage_err e \<noteq> BTREE_OK then Some (btpage_err e, pager, None)
        else do {
          m \<leftarrow> mem_write32 (page_mem page) page_buffer_off follow_page_id;
          m \<leftarrow> mem_write32 m (page_buffer_off + 4) data_size;
          xs \<leftarrow> mem_read data 0 (unat data_size);
          m \<leftarrow> mem_write m (page_buffer_off + 8) xs;
          (e, pager, page) \<leftarrow> pager_write_page pager (page\<lparr>page_mem := m\<rparr>);
          if btpage_err e \<noteq> BTREE_OK then Some (btpage_err e, pager, None)
          else Some (btpage_err e, pager, Some (page_id page))
        }
      })"

end
