(* ===== verification/Node.thy ===== *)
theory Node
  imports Cell Overflow
begin

text \<open>
  \<open>btree_utils.c\<close> and \<open>btree_node.c\<close>: a node is a page seen through a header, an array of
  keys growing from the left, and a heap of cells growing from the right.  All of it is read and
  written in the memory of the page.
\<close>

section \<open>The structs in the page\<close>

definition node_mem :: "btree_node \<Rightarrow> bytes" where
  "node_mem node = page_mem (node_page node)"

definition set_node_mem :: "btree_node \<Rightarrow> bytes \<Rightarrow> btree_node" where
  "set_node_mem node m = node\<lparr>node_page := (node_page node)\<lparr>page_mem := m\<rparr>\<rparr>"

definition hdr_get :: "btree_node \<Rightarrow> nat \<Rightarrow> u32 option" where
  "hdr_get node field = mem_read32 (node_mem node) (node_header node + field)"

definition hdr_set :: "btree_node \<Rightarrow> nat \<Rightarrow> u32 \<Rightarrow> btree_node option" where
  "hdr_set node field v =
     do { m \<leftarrow> mem_write32 (node_mem node) (node_header node + field) v;
          Some (set_node_mem node m) }"

text \<open>\<open>node->keys\<close> and the array element \<open>node->keys[i]\<close>.\<close>

definition node_keys :: "btree_node \<Rightarrow> nat" where
  "node_keys node = node_header node + sizeof_BTreePageHeader"

definition key_off :: "btree_node \<Rightarrow> u32 \<Rightarrow> nat" where
  "key_off node i = node_keys node + sizeof_BTreePageKey * unat i"

definition key_at :: "btree_node \<Rightarrow> u32 \<Rightarrow> page_key option" where
  "key_at node i =
     do {
       k \<leftarrow> mem_read32 (node_mem node) (key_off node i);
       c \<leftarrow> mem_read32 (node_mem node) (key_off node i + 4);
       f \<leftarrow> mem_read32 (node_mem node) (key_off node i + 8);
       Some \<lparr>pk_key = k, pk_cell_offset = c, pk_flags = f\<rparr>
     }"

definition pkey_bytes :: "page_key \<Rightarrow> bytes" where
  "pkey_bytes k = ser_write_32bit_le (pk_key k) @ ser_write_32bit_le (pk_cell_offset k)
     @ ser_write_32bit_le (pk_flags k)"

section \<open>The accessors at the end of \<open>btree_node.c\<close>\<close>

definition node_is_root :: "btree_node \<Rightarrow> bool option" where
  "node_is_root node =
     do { b \<leftarrow> arr_get (node_mem node) (node_header node + hdr_is_root); Some (b \<noteq> 0) }"

definition node_is_leaf :: "btree_node \<Rightarrow> bool option" where
  "node_is_leaf node =
     do { b \<leftarrow> arr_get (node_mem node) (node_header node + hdr_is_leaf); Some (b \<noteq> 0) }"

definition node_is_leaf_set :: "btree_node \<Rightarrow> bool \<Rightarrow> btree_node option" where
  "node_is_leaf_set node is_leaf =
     do { m \<leftarrow> arr_set (node_mem node) (node_header node + hdr_is_leaf) (if is_leaf then 1 else 0);
          Some (set_node_mem node m) }"

definition node_num_keys :: "btree_node \<Rightarrow> u32 option" where
  "node_num_keys node = hdr_get node hdr_num_keys"

definition node_right_child :: "btree_node \<Rightarrow> u32 option" where
  "node_right_child node = hdr_get node hdr_right_child"

definition node_right_child_set :: "btree_node \<Rightarrow> u32 \<Rightarrow> (u32 \<times> btree_node) option" where
  "node_right_child_set node right_child =
     do { node \<leftarrow> hdr_set node hdr_right_child right_child; Some (right_child, node) }"

definition node_flags_at :: "btree_node \<Rightarrow> u32 \<Rightarrow> u32 option" where
  "node_flags_at node index = mem_read32 (node_mem node) (key_off node index + 8)"

definition node_key_at :: "btree_node \<Rightarrow> u32 \<Rightarrow> u32 option" where
  "node_key_at node index = mem_read32 (node_mem node) (key_off node index)"

definition node_key_at_set :: "btree_node \<Rightarrow> u32 \<Rightarrow> u32 \<Rightarrow> (u32 \<times> btree_node) option" where
  "node_key_at_set node index key =
     do { m \<leftarrow> mem_write32 (node_mem node) (key_off node index) key;
          Some (key, set_node_mem node m) }"

text \<open>The other header fields are accessed in place.\<close>

definition node_free_heap :: "btree_node \<Rightarrow> u32 option" where
  "node_free_heap node = hdr_get node hdr_free_heap"

definition node_high_water :: "btree_node \<Rightarrow> u32 option" where
  "node_high_water node = hdr_get node hdr_cell_high_water_offset"

section \<open>Sizes and cell pointers: \<open>btree_utils.c\<close>\<close>

definition btu_get_node_size :: "btree_node \<Rightarrow> u32" where
  "btu_get_node_size node =
     page_size (node_page node) - (if node_page_number node = 1 then BTREE_HEADER_SIZE else 0)"

definition btu_get_node_heap_size :: "btree_node \<Rightarrow> u32" where
  "btu_get_node_heap_size node = btu_get_node_size node - of_nat sizeof_BTreePageHeader"

definition btu_get_node_buffer :: "btree_node \<Rightarrow> nat" where
  "btu_get_node_buffer node =
     page_buffer_off + (if node_page_number node = 1 then unat BTREE_HEADER_SIZE else 0)"

text \<open>The pointer must stay inside the page; size and high-water mark are \<open>int\<close>s.\<close>

definition btu_calc_highwater_offset :: "btree_node \<Rightarrow> u32 \<Rightarrow> nat option" where
  "btu_calc_highwater_offset node highwater =
     (let p = int (btu_get_node_buffer node) + sint (btu_get_node_size node) - sint highwater in do {
        require (0 \<le> p \<and> p \<le> int (length (node_mem node)));
        Some (nat p)
      })"

definition btu_read_cell :: "btree_node \<Rightarrow> u32 \<Rightarrow> cell_data option" where
  "btu_read_cell node index =
     do {
       k \<leftarrow> key_at node index;
       cell_buffer \<leftarrow> btu_calc_highwater_offset node (pk_cell_offset k);
       sz \<leftarrow> mem_read32 (node_mem node) cell_buffer;
       Some \<lparr>cd_pointer = drop (cell_buffer + 4) (node_mem node), cd_size = sz\<rparr>
     }"

definition btu_get_cell_buffer :: "btree_node \<Rightarrow> u32 \<Rightarrow> nat option" where
  "btu_get_cell_buffer node index =
     do { k \<leftarrow> key_at node index; btu_calc_highwater_offset node (pk_cell_offset k) }"

definition btu_get_cell_buffer_size :: "btree_node \<Rightarrow> u32 \<Rightarrow> u32 option" where
  "btu_get_cell_buffer_size node index =
     do {
       buffer \<leftarrow> btu_get_cell_buffer node index;
       inline_size \<leftarrow> mem_read32 (node_mem node) buffer;
       Some (inline_size + 4)
     }"

definition btu_get_cell_flags :: "btree_node \<Rightarrow> u32 \<Rightarrow> u32 option" where
  "btu_get_cell_flags node index = do { k \<leftarrow> key_at node index; Some (pk_flags k) }"

definition btu_calc_cell_size :: "u32 \<Rightarrow> u32" where
  "btu_calc_cell_size sz = sz + 4"

text \<open>
  \<open>num_keys\<close> is passed as an \<open>unsigned char\<close>; the key, an \<open>int\<close>, is compared as unsigned.
\<close>

function btu_binary_search_keys_loop ::
  "page_key list \<Rightarrow> u32 \<Rightarrow> int \<Rightarrow> int \<Rightarrow> (int \<times> bool) option" where
  "btu_binary_search_keys_loop arr key left right =
     (if left \<le> right then do {
        k \<leftarrow> arr_get arr (nat (mid_of left right));
        if pk_key k = key then Some (mid_of left right, True)
        else if pk_key k < key
          then btu_binary_search_keys_loop arr key (mid_of left right + 1) right
          else btu_binary_search_keys_loop arr key left (mid_of left right - 1)
      } else Some (left, False))"
  by pat_completeness auto
termination
  by (relation "measure (\<lambda>(arr, key, l, r). nat (r - l + 1))")
    (use mid_of_bounds in fastforce)+

declare btu_binary_search_keys_loop.simps [simp del]

definition btu_binary_search_keys :: "page_key list \<Rightarrow> byte \<Rightarrow> u32 \<Rightarrow> (u32 \<times> bool) option" where
  "btu_binary_search_keys arr num_keys key =
     do {
       (i, found) \<leftarrow> btu_binary_search_keys_loop arr key 0 (int (unat num_keys) - 1);
       Some (word_of_int i, found)
     }"

definition btu_init_keylistindex_from_index :: "btree_node \<Rightarrow> u32 \<Rightarrow> child_list_index option" where
  "btu_init_keylistindex_from_index node index =
     do {
       num_keys \<leftarrow> node_num_keys node;
       is_leaf \<leftarrow> node_is_leaf node;
       Some (if index < num_keys then \<lparr>cli_mode = KLIM_INDEX, cli_index = index\<rparr>
             else if \<not> is_leaf then \<lparr>cli_mode = KLIM_RIGHT_CHILD, cli_index = num_keys\<rparr>
             else \<lparr>cli_mode = KLIM_END, cli_index = num_keys\<rparr>)
     }"

definition btu_init_insertion_index_from_index :: "btree_node \<Rightarrow> u32 \<Rightarrow> insertion_index option" where
  "btu_init_insertion_index_from_index node index =
     do {
       num_keys \<leftarrow> node_num_keys node;
       Some (if index < num_keys then \<lparr>ii_mode = KLIM_INDEX, ii_index = index\<rparr>
             else \<lparr>ii_mode = KLIM_END, ii_index = num_keys\<rparr>)
     }"

section \<open>Flags and sizes: \<open>btree_node.c\<close>\<close>

datatype btree_page_key_flags_e =
  PKEY_FLAG_UNKNOWN | PKEY_FLAG_CELL_TYPE_OVERFLOW | PKEY_FLAG_CELL_TYPE_INLINE

definition cell_type_code :: "btree_page_key_flags_e \<Rightarrow> u32" where
  "cell_type_code flag =
     (case flag of
        PKEY_FLAG_CELL_TYPE_INLINE \<Rightarrow> 1
      | PKEY_FLAG_CELL_TYPE_OVERFLOW \<Rightarrow> 2
      | _ \<Rightarrow> 0)"

text \<open>The heap size is divided as an \<open>unsigned int\<close>.\<close>

definition btree_node_max_cell_size :: "btree_node \<Rightarrow> u32" where
  "btree_node_max_cell_size node = btu_get_node_heap_size node div 4"

definition btree_pkey_set_cell_type :: "u32 \<Rightarrow> btree_page_key_flags_e \<Rightarrow> u32" where
  "btree_pkey_set_cell_type flags flag =
     (let code = cell_type_code flag in if code = 0 then flags else flags OR code)"

definition btree_pkey_is_cell_type :: "u32 \<Rightarrow> btree_page_key_flags_e \<Rightarrow> bool" where
  "btree_pkey_is_cell_type flags flag =
     (let test = cell_type_code flag in if test = 0 then False else flags AND 0xF = test)"

definition btree_node_heap_required_for_insertion :: "u32 \<Rightarrow> u32" where
  "btree_node_heap_required_for_insertion cell_disk_size =
     cell_disk_size + of_nat sizeof_BTreePageKey"

definition btree_node_calc_heap_capacity :: "btree_node \<Rightarrow> u32" where
  "btree_node_calc_heap_capacity node =
     page_size (node_page node) - of_nat sizeof_BTreePageHeader
       - (if page_id (node_page node) = 1 then BTREE_HEADER_SIZE else 0)"

section \<open>Making a node from a page\<close>

definition btree_node_init_from_page :: "page \<Rightarrow> (btree_e \<times> btree_node) option" where
  "btree_node_init_from_page page =
     (let offset = (if page_id page = 1 then BTREE_HEADER_SIZE else 0);
          node = \<lparr>node_page_number = page_id page, node_header = page_buffer_off + unat offset,
                  node_page = page\<rparr> in do {
        num_keys \<leftarrow> node_num_keys node;
        node \<leftarrow> (if num_keys = 0
                 then hdr_set node hdr_free_heap (btree_node_calc_heap_capacity node)
                 else Some node);
        Some (BTREE_OK, node)
      })"

text \<open>On a failed read the page, but not the node, has been changed.\<close>

definition btree_node_init_from_read ::
  "btree_node \<Rightarrow> page \<Rightarrow> 'f pager \<Rightarrow> u32
   \<Rightarrow> (btree_e \<times> 'f pager \<times> page \<times> btree_node) option" where
  "btree_node_init_from_read node page pager pid =
     (let selector = pager_reselect \<lparr>sel_page_id = 0\<rparr> pid in do {
        (e, pager, page) \<leftarrow> pager_read_page pager selector page;
        if btpage_err e \<noteq> BTREE_OK then Some (btpage_err e, pager, page, node)
        else do {
          (result, node) \<leftarrow> btree_node_init_from_page page;
          Some (result, pager, node_page node, node)
        }
      })"

definition btree_node_create_from_page :: "page \<Rightarrow> (btree_e \<times> btree_node) option" where
  "btree_node_create_from_page page =
     do { (_, node) \<leftarrow> btree_node_init_from_page page; Some (BTREE_OK, node) }"

definition btree_node_create_as_page_number :: "u32 \<Rightarrow> page \<Rightarrow> (btree_e \<times> btree_node) option" where
  "btree_node_create_as_page_number pnum page =
     btree_node_create_from_page (page\<lparr>page_id := pnum\<rparr>)"

definition btree_node_init_as_page_number :: "u32 \<Rightarrow> page \<Rightarrow> (btree_e \<times> btree_node) option" where
  "btree_node_init_as_page_number pnum page = btree_node_init_from_page (page\<lparr>page_id := pnum\<rparr>)"

definition btree_node_create_empty :: "page \<Rightarrow> (btree_e \<times> btree_node) option" where
  "btree_node_create_empty page =
     do { (_, node) \<leftarrow> btree_node_init_from_page page; Some (BTREE_OK, node) }"

section \<open>Insertion\<close>

definition insert_page_key ::
  "bytes \<Rightarrow> nat \<Rightarrow> u32 \<Rightarrow> page_key \<Rightarrow> u32 \<Rightarrow> bytes option" where
  "insert_page_key m array array_size key index_number =
     (let elem = array + sizeof_BTreePageKey * unat index_number in do {
        require (array_size \<ge> index_number);
        m \<leftarrow> mem_move m (elem + sizeof_BTreePageKey) elem
               (unat (array_size - index_number) * sizeof_BTreePageKey);
        mem_write m elem (pkey_bytes key)
      })"

definition write_page_key ::
  "btree_node \<Rightarrow> insertion_index \<Rightarrow> u32 \<Rightarrow> u32 \<Rightarrow> u32 \<Rightarrow> (btree_e \<times> btree_node) option" where
  "write_page_key node index key cell_size flags =
     do {
       num_keys \<leftarrow> node_num_keys node;
       hwm \<leftarrow> node_high_water node;
       (let index_number = (if ii_mode index = KLIM_END then num_keys else ii_index index);
            page_key = \<lparr>pk_key = key, pk_cell_offset = hwm + cell_size, pk_flags = flags\<rparr> in do {
          m \<leftarrow> insert_page_key (node_mem node) (node_keys node) num_keys page_key index_number;
          node \<leftarrow> Some (set_node_mem node m);
          num_keys \<leftarrow> node_num_keys node;
          node \<leftarrow> hdr_set node hdr_num_keys (num_keys + 1);
          hwm \<leftarrow> node_high_water node;
          node \<leftarrow> hdr_set node hdr_cell_high_water_offset (hwm + cell_size);
          fh \<leftarrow> node_free_heap node;
          node \<leftarrow> hdr_set node hdr_free_heap (fh - btree_node_heap_required_for_insertion cell_size);
          Some (BTREE_OK, node)
        })
     }"

definition btree_node_insert_inline_ex ::
  "btree_node \<Rightarrow> insertion_index \<Rightarrow> u32 \<Rightarrow> cell_inline \<Rightarrow> u32 \<Rightarrow> (btree_e \<times> btree_node) option" where
  "btree_node_insert_inline_ex node index key cell flags =
     (let cell_size = btree_cell_inline_disk_size (ci_inline_size cell);
          heap_needed = btree_node_heap_required_for_insertion cell_size in do {
        free_heap \<leftarrow> node_free_heap node;
        if free_heap < heap_needed then Some (BTREE_ERR_NODE_NOT_ENOUGH_SPACE, node)
        else do {
          hwm \<leftarrow> node_high_water node;
          cell_left_edge \<leftarrow> btu_calc_highwater_offset node (hwm + cell_size);
          (result, m) \<leftarrow> btree_cell_write_inline cell (node_mem node) cell_left_edge;
          (let node = set_node_mem node m in
           if result \<noteq> BTREE_OK then Some (result, node)
           else write_page_key node index key cell_size flags)
        }
      })"

definition btree_node_insert_inline ::
  "btree_node \<Rightarrow> insertion_index \<Rightarrow> u32 \<Rightarrow> cell_inline \<Rightarrow> (btree_e \<times> btree_node) option" where
  "btree_node_insert_inline node index key cell =
     btree_node_insert_inline_ex node index key cell
       (btree_pkey_set_cell_type 0 PKEY_FLAG_CELL_TYPE_INLINE)"

definition btree_node_insert_overflow ::
  "btree_node \<Rightarrow> insertion_index \<Rightarrow> u32 \<Rightarrow> cell_overflow \<Rightarrow> (btree_e \<times> btree_node) option" where
  "btree_node_insert_overflow node index key cell =
     (let cell_size = btree_cell_inline_disk_size (co_inline_size cell);
          heap_needed = btree_node_heap_required_for_insertion cell_size in do {
        free_heap \<leftarrow> node_free_heap node;
        if free_heap < heap_needed then Some (BTREE_ERR_NODE_NOT_ENOUGH_SPACE, node)
        else do {
          hwm \<leftarrow> node_high_water node;
          cell_left_edge \<leftarrow> btu_calc_highwater_offset node (hwm + cell_size);
          (result, m, _) \<leftarrow> btree_cell_write_overflow_ex cell
            (btree_cell_init_overflow_writer cell_left_edge cell_size) (node_mem node);
          (let node = set_node_mem node m in
           if result \<noteq> BTREE_OK then Some (result, node)
           else write_page_key node index key cell_size
                  (btree_pkey_set_cell_type 0 PKEY_FLAG_CELL_TYPE_OVERFLOW))
        }
      })"

text \<open>
  The local buffer \<open>read_buf\<close> is uninitialised; a cell with fewer than four bytes has no outcome.
\<close>

definition btree_node_read_inline_as_page ::
  "btree_node \<Rightarrow> child_list_index \<Rightarrow> (btree_e \<times> u32) option" where
  "btree_node_read_inline_as_page internal_node index =
     do {
       is_leaf \<leftarrow> node_is_leaf internal_node;
       require (\<not> is_leaf);
       num_keys \<leftarrow> node_num_keys internal_node;
       if cli_index index = num_keys \<or> cli_mode index \<noteq> KLIM_INDEX then do {
         right_child \<leftarrow> node_right_child internal_node;
         Some (BTREE_OK, right_child)
       } else do {
         cell_buffer \<leftarrow> btu_get_cell_buffer internal_node (cli_index index);
         (cell, read_buf, _) \<leftarrow> btree_cell_read_inline
           (drop cell_buffer (node_mem internal_node)) (Some (replicate 4 0)) 4;
         require (ci_inline_size cell = 4);
         Some (BTREE_OK, ser_read_32bit_le (the read_buf))
       }
     }"

section \<open>Moving cells between nodes\<close>

text \<open>
  The pager may be null; it is only looked at when the cell does not fit.
\<close>

definition btree_node_move_cell_from_data ::
  "btree_node \<Rightarrow> insertion_index \<Rightarrow> u32 \<Rightarrow> u32 \<Rightarrow> bytes \<Rightarrow> u32 \<Rightarrow> 'f pager option
   \<Rightarrow> (btree_e \<times> btree_node \<times> 'f pager option) option" where
  "btree_node_move_cell_from_data dest_node insert_index key flags cell_buffer cell_buffer_size pager =
     do {
       (cell, _, _) \<leftarrow> btree_cell_read_inline cell_buffer None 0;
       (let dest_max_size = btree_node_max_cell_size dest_node in
        if cell_buffer_size \<le> dest_max_size then do {
          (result, dest_node) \<leftarrow>
            btree_node_insert_inline_ex dest_node insert_index key cell flags;
          Some (result, dest_node, pager)
        } else
          (let is_overflow = btree_pkey_is_cell_type flags PKEY_FLAG_CELL_TYPE_OVERFLOW;
               bytes_overflown =
                 btree_node_heap_required_for_insertion cell_buffer_size - dest_max_size;
               inline_size = ci_inline_size cell - bytes_overflown;
               new_inline_payload_size =
                 btree_cell_overflow_calc_inline_payload_size inline_size in do {
             (payload, overflow_payload_size, follow_page_id) \<leftarrow>
               (if is_overflow then do {
                  (_, read_cell, _, _) \<leftarrow> btree_cell_read_overflow_ex
                    (btree_cell_init_overflow_reader 0 cell_buffer_size) cell_buffer None 0;
                  Some (co_inline_payload read_cell,
                        btree_cell_overflow_calc_inline_payload_size (ci_inline_size cell)
                          - new_inline_payload_size,
                        co_overflow_page_id read_cell)
                } else
                  Some (ci_payload cell, ci_inline_size cell - new_inline_payload_size, 0));
             pg \<leftarrow> pager;
             (result, pg, out_page_id) \<leftarrow> btree_overflow_write pg
               (drop (unat new_inline_payload_size) payload) overflow_payload_size follow_page_id;
             if result \<noteq> BTREE_OK then Some (result, dest_node, Some pg)
             else do {
               pid \<leftarrow> out_page_id;
               (result, dest_node) \<leftarrow> btree_node_insert_overflow dest_node insert_index key
                 \<lparr>co_inline_size = inline_size, co_total_size = ci_inline_size cell,
                  co_overflow_page_id = pid, co_inline_payload = payload\<rparr>;
               Some (result, dest_node, Some pg)
             }
           }))
     }"

definition btree_node_move_cell_ex_to ::
  "btree_node \<Rightarrow> btree_node \<Rightarrow> u32 \<Rightarrow> insertion_index \<Rightarrow> u32 \<Rightarrow> 'f pager option
   \<Rightarrow> (btree_e \<times> btree_node \<times> 'f pager option) option" where
  "btree_node_move_cell_ex_to source_node dest_node source_index dest_index new_key pager =
     do {
       k \<leftarrow> key_at source_node source_index;
       cell_data \<leftarrow> btu_get_cell_buffer source_node source_index;
       cell_data_size \<leftarrow> btu_get_cell_buffer_size source_node source_index;
       btree_node_move_cell_from_data dest_node dest_index new_key (pk_flags k)
         (drop cell_data (node_mem source_node)) cell_data_size pager
     }"

definition btree_node_move_cell_ex ::
  "btree_node \<Rightarrow> btree_node \<Rightarrow> u32 \<Rightarrow> u32 \<Rightarrow> 'f pager option
   \<Rightarrow> (btree_e \<times> btree_node \<times> 'f pager option) option" where
  "btree_node_move_cell_ex source_node other source_index new_key pager =
     btree_node_move_cell_ex_to source_node other source_index
       \<lparr>ii_mode = KLIM_END, ii_index = 0\<rparr> new_key pager"

definition btree_node_move_cell ::
  "btree_node \<Rightarrow> btree_node \<Rightarrow> u32 \<Rightarrow> 'f pager option
   \<Rightarrow> (btree_e \<times> btree_node \<times> 'f pager option) option" where
  "btree_node_move_cell source_node other source_index pager =
     do {
       k \<leftarrow> key_at source_node source_index;
       btree_node_move_cell_ex source_node other source_index (pk_key k) pager
     }"

section \<open>Copy, reset, removal\<close>

definition btree_node_copy :: "btree_node \<Rightarrow> btree_node \<Rightarrow> (btree_e \<times> btree_node) option" where
  "btree_node_copy dest_node src_node =
     do {
       require (btu_get_node_size src_node = btu_get_node_size dest_node);
       xs \<leftarrow> mem_read (node_mem src_node) (btu_get_node_buffer src_node)
              (unat (btu_get_node_size src_node));
       m \<leftarrow> mem_write (node_mem dest_node) (btu_get_node_buffer dest_node) xs;
       btree_node_init_from_page (node_page (set_node_mem dest_node m))
     }"

definition btree_node_reset :: "btree_node \<Rightarrow> (btree_e \<times> btree_node) option" where
  "btree_node_reset node =
     do {
       m \<leftarrow> mem_set (node_mem node) (btu_get_node_buffer node) 0 (unat (btu_get_node_size node));
       btree_node_init_from_page (node_page (set_node_mem node m))
     }"

text \<open>One round of the loop of \<open>gc_node\<close>, and the loop, which rereads the number of keys.\<close>

definition gc_step :: "btree_node \<Rightarrow> u32 \<Rightarrow> u32 \<Rightarrow> u32 \<Rightarrow> btree_node option" where
  "gc_step node deleted_offset shift_size i =
     do {
       k \<leftarrow> key_at node i;
       (let offset = pk_cell_offset k in
        if offset < deleted_offset then Some node
        else do {
          cell \<leftarrow> btu_read_cell node i;
          src \<leftarrow> btu_calc_highwater_offset node offset;
          dest \<leftarrow> btu_calc_highwater_offset node (offset - shift_size);
          m \<leftarrow> mem_move (node_mem node) dest src (unat (cd_size cell + 4));
          old \<leftarrow> mem_read32 m (key_off node i + 4);
          m \<leftarrow> mem_write32 m (key_off node i + 4) (old - shift_size);
          Some (set_node_mem node m)
        })
     }"

function gc_loop :: "btree_node \<Rightarrow> u32 \<Rightarrow> u32 \<Rightarrow> nat \<Rightarrow> btree_node option" where
  "gc_loop node deleted_offset shift_size i =
     do {
       num_keys \<leftarrow> node_num_keys node;
       if i < unat num_keys then do {
         node \<leftarrow> gc_step node deleted_offset shift_size (of_nat i);
         gc_loop node deleted_offset shift_size (Suc i)
       } else Some node
     }"
  by pat_completeness auto
termination
proof (relation "measure (\<lambda>(node, d, s, i). 4294967296 - i)", simp)
  fix node :: btree_node and d s :: u32 and i :: nat and num_keys :: u32 and node' :: btree_node
  assume "i < unat num_keys"
  then have "i < 4294967296" using u32_bound [of num_keys] by linarith
  then show "((node', d, s, Suc i), node, d, s, i) \<in> measure (\<lambda>(node, d, s, i). 4294967296 - i)"
    by simp
qed

declare gc_loop.simps [simp del]

definition gc_node :: "btree_node \<Rightarrow> u32 \<Rightarrow> u32 \<Rightarrow> (btree_e \<times> btree_node) option" where
  "gc_node node deleted_offset deleted_size =
     do {
       node \<leftarrow> gc_loop node deleted_offset (deleted_size + 4) 0;
       hwm \<leftarrow> node_high_water node;
       node \<leftarrow> hdr_set node hdr_cell_high_water_offset (hwm - (deleted_size + 4));
       fh \<leftarrow> node_free_heap node;
       node \<leftarrow> hdr_set node hdr_free_heap
         (fh + btree_node_heap_required_for_insertion (deleted_size + 4));
       Some (BTREE_OK, node)
     }"

text \<open>Closing the gap in the key array.\<close>

definition slide_keys :: "btree_node \<Rightarrow> u32 \<Rightarrow> btree_node option" where
  "slide_keys node index_number =
     do {
       num_keys \<leftarrow> node_num_keys node;
       m \<leftarrow> mem_move (node_mem node) (key_off node index_number)
              (key_off node index_number + sizeof_BTreePageKey)
              (unat (num_keys - index_number) * sizeof_BTreePageKey);
       hdr_set (set_node_mem node m) hdr_num_keys (num_keys - 1)
     }"

text \<open>
  The branch of \<open>btree_node_remove\<close> for a key in the array.  The results are the node, the
  removed cell and the caller's buffer.
\<close>

definition btree_node_remove_at ::
  "btree_node \<Rightarrow> u32 \<Rightarrow> bytes option \<Rightarrow> u32
   \<Rightarrow> (btree_e \<times> btree_node \<times> (u32 \<times> bytes option) \<times> bytes option) option" where
  "btree_node_remove_at node index_number buffer buffer_size =
     do {
       num_keys \<leftarrow> node_num_keys node;
       require (index_number < num_keys);
       k \<leftarrow> key_at node index_number;
       cell \<leftarrow> btu_read_cell node index_number;
       (let deleted_offset = pk_cell_offset k; deleted_inline_size = btree_cell_get_size cell in do {
          buffer \<leftarrow>
            (case buffer of
               None \<Rightarrow> Some None
             | Some b \<Rightarrow> do {
                 xs \<leftarrow> mem_read (cd_pointer cell) 0 (unat (c_min buffer_size deleted_inline_size));
                 b \<leftarrow> mem_write b 0 xs;
                 Some (Some b)
               });
          node \<leftarrow> slide_keys node index_number;
          (_, node) \<leftarrow> gc_node node deleted_offset deleted_inline_size;
          Some (BTREE_OK, node, (deleted_inline_size, buffer), buffer)
        })
     }"

text \<open>
  \<open>removed_cell\<close> is \<open>None\<close> where the code does not set it; its payload is the caller's buffer.
\<close>

definition btree_node_remove ::
  "btree_node \<Rightarrow> child_list_index \<Rightarrow> bytes option \<Rightarrow> u32
   \<Rightarrow> (btree_e \<times> btree_node \<times> (u32 \<times> bytes option) option \<times> bytes option) option" where
  "btree_node_remove node index buffer buffer_size =
     do {
       require (cli_mode index \<noteq> KLIM_END);
       if cli_mode index = KLIM_RIGHT_CHILD then do {
         is_leaf \<leftarrow> node_is_leaf node;
         num_keys \<leftarrow> node_num_keys node;
         if is_leaf then Some (BTREE_ERR_KEY_NOT_FOUND, node, None, buffer)
         else if num_keys = 0 then Some (BTREE_ERR_UNK, node, None, buffer)
         else do {
           (result, node, _, buf) \<leftarrow>
             btree_node_remove_at node (num_keys - 1) (Some (replicate 4 0)) 4;
           if result \<noteq> BTREE_OK then Some (BTREE_ERR_UNK, node, None, buffer)
           else do {
             node \<leftarrow> hdr_set node hdr_right_child (ser_read_32bit_le (the buf));
             Some (BTREE_OK, node, None, buffer)
           }
         }
       } else do {
         (result, node, cell, buffer) \<leftarrow> btree_node_remove_at node (cli_index index) buffer buffer_size;
         Some (result, node, Some cell, buffer)
       }
     }"

definition ibtree_node_remove_at ::
  "btree_node \<Rightarrow> u32 \<Rightarrow> btree_node option \<Rightarrow> (btree_e \<times> btree_node \<times> btree_node option) option" where
  "ibtree_node_remove_at node index_number holding_node =
     do {
       k \<leftarrow> key_at node index_number;
       (result, holding_node) \<leftarrow>
         (case holding_node of
            None \<Rightarrow> Some (BTREE_OK, None)
          | Some h \<Rightarrow> do {
              (result, h, _) \<leftarrow>
                btree_node_move_cell node h index_number (None :: unit pager option);
              Some (result, Some h)
            });
       if result \<noteq> BTREE_OK then Some (result, node, holding_node)
       else do {
         cell \<leftarrow> btu_read_cell node index_number;
         node \<leftarrow> slide_keys node index_number;
         (_, node) \<leftarrow> gc_node node (pk_cell_offset k) (btree_cell_get_size cell);
         Some (BTREE_OK, node, holding_node)
       }
     }"

definition ibtree_node_remove ::
  "btree_node \<Rightarrow> child_list_index \<Rightarrow> btree_node option
   \<Rightarrow> (btree_e \<times> btree_node \<times> btree_node option) option" where
  "ibtree_node_remove node index holding_node =
     do {
       require (cli_mode index \<noteq> KLIM_END);
       if cli_mode index = KLIM_RIGHT_CHILD then do {
         is_leaf \<leftarrow> node_is_leaf node;
         num_keys \<leftarrow> node_num_keys node;
         if is_leaf then Some (BTREE_ERR_KEY_NOT_FOUND, node, holding_node)
         else if num_keys = 0 then Some (BTREE_ERR_UNK, node, holding_node)
         else do {
           rightmost_key \<leftarrow> key_at node (num_keys - 1);
           (result, node, holding_node) \<leftarrow>
             ibtree_node_remove_at node (num_keys - 1) holding_node;
           if result \<noteq> BTREE_OK then Some (result, node, holding_node)
           else do {
             node \<leftarrow> hdr_set node hdr_right_child (pk_key rightmost_key);
             Some (BTREE_OK, node, holding_node)
           }
         }
       } else ibtree_node_remove_at node (cli_index index) holding_node
     }"

end
