(* ===== verification/NodeSearch.thy ===== *)
theory NodeSearch
  imports Node
begin

text \<open>
  Searching a node: \<open>btree_node_compare_cell\<close> and \<open>btree_node_search_keys\<close> of \<open>btree_node.c\<close>,
  the callbacks a tree is built with (\<open>btree_defs.h\<close>), and the callbacks of the two kinds of
  tree (\<open>btree.c\<close>, \<open>ibtree.c\<close>).

  A callback that keeps state between calls gets it as \<open>'c\<close>, the object \<open>compare_context\<close>
  points to.  Windows and keys are pointers, so lists of bytes.
\<close>

record 'c btree_compare_fns =
  fn_keyof :: "'c \<Rightarrow> btree_node \<Rightarrow> u32 \<Rightarrow> (bytes \<times> u32 \<times> u32 \<times> u32) option"
  fn_compare :: "'c \<Rightarrow> bytes \<Rightarrow> u32 \<Rightarrow> u32 \<Rightarrow> bytes \<Rightarrow> u32 \<Rightarrow> u32 \<Rightarrow> (int \<times> u32 \<times> u32 \<times> 'c) option"
  fn_reset :: "'c \<Rightarrow> 'c"

text \<open>\<open>struct BTree\<close>; the pager it points to is passed along as the state.\<close>

record 'c btree =
  tr_root_page_id :: u32
  tr_type :: btree_type_e
  tr_underflow :: u32
  tr_fns :: "'c btree_compare_fns"

definition btree_underflow_lim :: "'c btree \<Rightarrow> u32" where
  "btree_underflow_lim tree = tr_underflow tree"

definition btree_underflow_lim_set :: "'c btree \<Rightarrow> u32 \<Rightarrow> u32 \<times> 'c btree" where
  "btree_underflow_lim_set tree underflow = (underflow, tree\<lparr>tr_underflow := underflow\<rparr>)"

section \<open>Comparing a key with a cell\<close>

text \<open>
  The loop over the overflow pages of a cell.  It may run for ever on a cyclic chain of
  empty pages; that is the value \<open>None\<close>, as an abort is.
\<close>

partial_function (option) compare_overflow_loop ::
  "'c btree_compare_fns \<Rightarrow> 'c \<Rightarrow> 'f pager \<Rightarrow> page \<Rightarrow> u32 \<Rightarrow> u32 \<Rightarrow> u32 \<Rightarrow> bytes \<Rightarrow> u32 \<Rightarrow> int
   \<Rightarrow> (btree_e \<times> int \<times> 'c \<times> 'f pager) option" where
  "compare_overflow_loop fns ctx pager page next_page_id bytes_compared cmp_total_size key key_size
     out_result =
     do {
       (result, pager, page, ov, payload) \<leftarrow> btree_overflow_peek pager page next_page_id;
       if result \<noteq> BTREE_OK then Some (result, out_result, ctx, pager)
       else do {
         cmp \<leftarrow> payload;
         (out_result, comparison_bytes_count, key_size_remaining, ctx) \<leftarrow>
           fn_compare fns ctx cmp (orr_payload_bytes ov) cmp_total_size key key_size bytes_compared;
         if out_result \<noteq> 0 then Some (result, out_result, ctx, pager)
         else if orr_next_page_id ov \<noteq> 0 \<and>
                 bytes_compared + comparison_bytes_count < cmp_total_size \<and> key_size_remaining \<noteq> 0
         then compare_overflow_loop fns ctx pager page (orr_next_page_id ov)
                (bytes_compared + comparison_bytes_count) cmp_total_size key key_size out_result
         else Some (result, out_result, ctx, pager)
       }
     }"

definition btree_node_compare_cell ::
  "'c btree_compare_fns \<Rightarrow> 'c \<Rightarrow> 'f pager \<Rightarrow> btree_node \<Rightarrow> u32 \<Rightarrow> bytes \<Rightarrow> u32
   \<Rightarrow> (btree_e \<times> int \<times> 'c \<times> 'f pager) option" where
  "btree_node_compare_cell fns ctx pager node index key key_size =
     do {
       (cmp, cmp_size, cmp_total_size, next_page_id) \<leftarrow> fn_keyof fns ctx node index;
       (out_result, comparison_bytes_count, key_size_remaining, ctx) \<leftarrow>
         fn_compare fns ctx cmp cmp_size cmp_total_size key key_size 0;
       if comparison_bytes_count = 0 then Some (BTREE_ERR_UNK, out_result, ctx, pager)
       else if out_result \<noteq> 0 \<or> key_size_remaining = 0 then Some (BTREE_OK, out_result, ctx, pager)
       else if next_page_id = 0 then Some (BTREE_OK, out_result, ctx, pager)
       else do {
         (e, page) \<leftarrow> page_create pager;
         if btpage_err e \<noteq> BTREE_OK then Some (btpage_err e, out_result, ctx, pager)
         else compare_overflow_loop fns ctx pager page next_page_id comparison_bytes_count
                cmp_total_size key key_size out_result
       }
     }"

section \<open>Binary search over the keys of a node\<close>

text \<open>
  The first three results are the error, the index stored in \<open>*out_index\<close> and whether it was
  stored.  Only \<open>-1\<close> sends the search to the right.
\<close>

function search_keys_loop ::
  "'c btree_compare_fns \<Rightarrow> 'c \<Rightarrow> 'f pager \<Rightarrow> btree_node \<Rightarrow> bytes \<Rightarrow> u32 \<Rightarrow> int \<Rightarrow> int
   \<Rightarrow> (btree_e \<times> int option \<times> 'c \<times> 'f pager) option" where
  "search_keys_loop fns ctx pager node key key_size left right =
     (if left \<le> right then do {
        (result, compare_result, ctx, pager) \<leftarrow>
          btree_node_compare_cell fns (fn_reset fns ctx) pager node
            (word_of_int (mid_of left right)) key key_size;
        if result \<noteq> BTREE_OK then Some (result, None, ctx, pager)
        else if compare_result = 0 then Some (BTREE_OK, Some (mid_of left right), ctx, pager)
        else if compare_result = -1
        then search_keys_loop fns ctx pager node key key_size (mid_of left right + 1) right
        else search_keys_loop fns ctx pager node key key_size left (mid_of left right - 1)
      } else Some (BTREE_ERR_KEY_NOT_FOUND, Some left, ctx, pager))"
  by pat_completeness auto
termination
  by (relation "measure (\<lambda>(fns, ctx, pager, node, key, key_size, l, r). nat (r - l + 1))")
    (use mid_of_bounds in fastforce)+

declare search_keys_loop.simps [simp del]

definition btree_node_search_keys ::
  "'c btree_compare_fns \<Rightarrow> 'c \<Rightarrow> 'f pager \<Rightarrow> btree_node \<Rightarrow> bytes \<Rightarrow> u32
   \<Rightarrow> (btree_e \<times> u32 option \<times> 'c \<times> 'f pager) option" where
  "btree_node_search_keys fns ctx pager node key key_size =
     do {
       num_keys \<leftarrow> node_num_keys node;
       (result, out_index, ctx, pager) \<leftarrow>
         search_keys_loop fns ctx pager node key key_size 0 (sint (num_keys - 1));
       Some (result, map_option word_of_int out_index, ctx, pager)
     }"

section \<open>The callbacks of a table tree: \<open>btree.c\<close>\<close>

definition btree_compare ::
  "unit \<Rightarrow> bytes \<Rightarrow> u32 \<Rightarrow> u32 \<Rightarrow> bytes \<Rightarrow> u32 \<Rightarrow> u32 \<Rightarrow> (int \<times> u32 \<times> u32 \<times> unit) option" where
  "btree_compare compare_context cmp_window cmp_window_size cmp_total_size right right_size
     bytes_compared =
     do {
       require (cmp_window_size = 4);
       left_val \<leftarrow> mem_read32 cmp_window 0;
       right_val \<leftarrow> mem_read32 right 0;
       Some (if left_val = right_val then 0 else if left_val < right_val then -1 else 1,
             cmp_window_size, 0, compare_context)
     }"

definition btree_compare_reset :: "unit \<Rightarrow> unit" where
  "btree_compare_reset compare_context = compare_context"

definition btree_keyof ::
  "unit \<Rightarrow> btree_node \<Rightarrow> u32 \<Rightarrow> (bytes \<times> u32 \<times> u32 \<times> u32) option" where
  "btree_keyof compare_context node index =
     do {
       require (key_off node index \<le> length (node_mem node));
       Some (drop (key_off node index) (node_mem node), 4, 4, 0)
     }"

definition btree_fns :: "unit btree_compare_fns" where
  "btree_fns = \<lparr>fn_keyof = btree_keyof, fn_compare = btree_compare, fn_reset = btree_compare_reset\<rparr>"

section \<open>The callbacks of an index tree: \<open>ibtree.c\<close>\<close>

text \<open>\<open>memcmp\<close>; only the sign of its result is used here.\<close>

fun memcmp :: "bytes \<Rightarrow> bytes \<Rightarrow> int" where
  "memcmp (x # xs) (y # ys) = (if x = y then memcmp xs ys else if x < y then -1 else 1)"
| "memcmp _ _ = 0"

definition ibtree_compare ::
  "unit \<Rightarrow> bytes \<Rightarrow> u32 \<Rightarrow> u32 \<Rightarrow> bytes \<Rightarrow> u32 \<Rightarrow> u32 \<Rightarrow> (int \<times> u32 \<times> u32 \<times> unit) option" where
  "ibtree_compare compare_context left left_size cmp_total_size right right_size bytes_compared =
     do {
       require (right_size > bytes_compared);
       (let out_bytes_compared = c_min left_size (right_size - bytes_compared);
            new_total_bytes_compared = bytes_compared + out_bytes_compared;
            out_key_size_remaining = right_size - new_total_bytes_compared in do {
          xs \<leftarrow> mem_read left 0 (unat out_bytes_compared);
          ys \<leftarrow> mem_read right (unat bytes_compared) (unat out_bytes_compared);
          (let cmp = memcmp xs ys in
           Some
             (if cmp = 0 then
                (if out_key_size_remaining = 0 \<and> new_total_bytes_compared < cmp_total_size then 1
                 else if out_key_size_remaining \<noteq> 0 \<and> new_total_bytes_compared = cmp_total_size
                   then -1
                 else cmp)
              else if cmp < 0 then -1 else 1,
              out_bytes_compared, out_key_size_remaining, compare_context))
        })
     }"

definition ibtree_compare_reset :: "unit \<Rightarrow> unit" where
  "ibtree_compare_reset compare_context = compare_context"

definition ibtree_keyof ::
  "'c \<Rightarrow> btree_node \<Rightarrow> u32 \<Rightarrow> (bytes \<times> u32 \<times> u32 \<times> u32) option" where
  "ibtree_keyof compare_context node index =
     do {
       key \<leftarrow> key_at node index;
       cell_data \<leftarrow> btu_get_cell_buffer node index;
       cell_data_size \<leftarrow> btu_get_cell_buffer_size node index;
       if btree_pkey_is_cell_type (pk_flags key) PKEY_FLAG_CELL_TYPE_OVERFLOW then do {
         (_, read_cell, _, _) \<leftarrow> btree_cell_read_overflow_ex
           (btree_cell_init_overflow_reader cell_data cell_data_size) (node_mem node) None 0;
         Some (co_inline_payload read_cell,
               btree_cell_overflow_calc_inline_payload_size (co_inline_size read_cell),
               co_total_size read_cell, co_overflow_page_id read_cell)
       } else do {
         (cell, _, _) \<leftarrow> btree_cell_read_inline (drop cell_data (node_mem node)) None 0;
         Some (ci_payload cell, ci_inline_size cell, ci_inline_size cell, 0)
       }
     }"

definition ibtree_fns :: "unit btree_compare_fns" where
  "ibtree_fns =
     \<lparr>fn_keyof = ibtree_keyof, fn_compare = ibtree_compare, fn_reset = ibtree_compare_reset\<rparr>"

end
