(* ===== verification/NodeIO.thy ===== *)
theory NodeIO
  imports NodeSearch
begin

text \<open>
  Nodes and pages together: \<open>noderc.c\<close>, \<open>btree_node_writer.c\<close> and \<open>btree_node_reader.c\<close>.

  A \<open>struct NodeView\<close> holds a node and the page it is a view of; the model's node
  contains its page, so a view is a node.  Where the node has not been initialised, its header is
  a null pointer: an offset behind the block, through which every access is without outcome.
\<close>

section \<open>Node views: \<open>noderc.c\<close>\<close>

type_synonym node_view = btree_node

definition null_view :: "page \<Rightarrow> node_view" where
  "null_view page =
     \<lparr>node_page_number = 0, node_header = length (page_mem page), node_page = page\<rparr>"

definition noderc_acquire :: "'f pager \<Rightarrow> (btree_e \<times> node_view) option" where
  "noderc_acquire pager =
     do {
       (e, page) \<leftarrow> page_create pager;
       if btpage_err e \<noteq> BTREE_OK then Some (btpage_err e, null_view page)
       else btree_node_init_from_page page
     }"

definition noderc_acquire_load ::
  "'f pager \<Rightarrow> u32 \<Rightarrow> (btree_e \<times> 'f pager \<times> node_view) option" where
  "noderc_acquire_load pager pid =
     do {
       (e, page) \<leftarrow> page_create pager;
       if btpage_err e \<noteq> BTREE_OK then Some (btpage_err e, pager, null_view page)
       else do {
         (result, pager, page, node) \<leftarrow>
           btree_node_init_from_read (null_view page) page pager pid;
         Some (result, pager, node\<lparr>node_page := page\<rparr>)
       }
     }"

text \<open>Page 0 stands for a fresh page; the views behind the first failure stay zeroed.\<close>

fun noderc_acquire_load_n ::
  "'f pager \<Rightarrow> u32 list \<Rightarrow> (btree_e \<times> 'f pager \<times> node_view list) option" where
  "noderc_acquire_load_n pager [] = Some (BTREE_OK, pager, [])"
| "noderc_acquire_load_n pager (pnum # pnums) =
     do {
       (result, pager, node) \<leftarrow>
         (if pnum = 0 then do {
            (result, node) \<leftarrow> noderc_acquire pager; Some (result, pager, node)
          } else noderc_acquire_load pager pnum);
       if result \<noteq> BTREE_OK then Some (result, pager, [node])
       else do {
         (result, pager, nodes) \<leftarrow> noderc_acquire_load_n pager pnums;
         Some (result, pager, node # nodes)
       }
     }"

text \<open>Writing views back; \<open>pager_write_page\<close> may give a page its number.\<close>

fun noderc_persist_n ::
  "'f pager \<Rightarrow> node_view list \<Rightarrow> (btree_e \<times> 'f pager \<times> node_view list) option" where
  "noderc_persist_n pager [] = Some (BTREE_OK, pager, [])"
| "noderc_persist_n pager (nv # nvs) =
     do {
       (e, pager, page) \<leftarrow> pager_write_page pager (node_page nv);
       (let nv = nv\<lparr>node_page := page\<rparr> in
        if btpage_err e \<noteq> BTREE_OK then Some (btpage_err e, pager, nv # nvs)
        else do {
          (result, pager, nvs) \<leftarrow> noderc_persist_n pager nvs;
          Some (result, pager, nv # nvs)
        })
     }"

definition noderc_reinit_read ::
  "'f pager \<Rightarrow> node_view \<Rightarrow> u32 \<Rightarrow> (btree_e \<times> 'f pager \<times> node_view) option" where
  "noderc_reinit_read pager out_view pid =
     do {
       (result, pager, page, node) \<leftarrow>
         btree_node_init_from_read out_view (node_page out_view) pager pid;
       Some (result, pager, node\<lparr>node_page := page\<rparr>)
     }"

definition noderc_reinit_as :: "node_view \<Rightarrow> u32 \<Rightarrow> (btree_e \<times> node_view) option" where
  "noderc_reinit_as out_view pid = btree_node_init_as_page_number pid (node_page out_view)"

section \<open>Writing: \<open>btree_node_writer.c\<close>\<close>

datatype writer_ex_mode_e = WRITER_EX_MODE_RAW | WRITER_EX_MODE_CELL_MOVE

text \<open>Finding the last slice of the data: the offset in the data, its size, the number of pages.\<close>

partial_function (option) last_slice ::
  "u32 \<Rightarrow> nat \<Rightarrow> u32 \<Rightarrow> u32 \<Rightarrow> (nat \<times> u32 \<times> u32) option" where
  "last_slice writable off page_write_size num_overflow_pages =
     (if page_write_size > writable
      then last_slice writable (off + unat writable) (page_write_size - writable)
             (num_overflow_pages + 1)
      else Some (off, page_write_size, num_overflow_pages))"

text \<open>
  The loop that writes the overflow pages from the last slice to the first.  \<open>to_write\<close> is the
  number of bytes to write, \<open>off\<close> the position of \<open>overflow_data\<close> in the data.
\<close>

function write_slices ::
  "'f pager \<Rightarrow> bytes \<Rightarrow> u32 \<Rightarrow> u32 \<Rightarrow> u32 \<Rightarrow> nat \<Rightarrow> u32 \<Rightarrow> u32 \<Rightarrow> u32 \<Rightarrow> u32
   \<Rightarrow> (btree_e \<times> 'f pager \<times> nat \<times> u32) option" where
  "write_slices pager data inline_payload_size writable to_write off page_write_size
     num_overflow_pages bytes_written last_page_id =
     do {
       (result, pager, out_page_id) \<leftarrow>
         btree_overflow_write pager (drop off data) page_write_size last_page_id;
       if result \<noteq> BTREE_OK then Some (result, pager, off, last_page_id)
       else do {
         pid \<leftarrow> out_page_id;
         require (num_overflow_pages > 0);
         (let back = unat (if num_overflow_pages = 1 then inline_payload_size else writable) in do {
            require (back \<le> off);
            if bytes_written + page_write_size < to_write
            then write_slices pager data inline_payload_size writable to_write (off - back)
                   writable (num_overflow_pages - 1) (bytes_written + page_write_size) pid
            else Some (BTREE_OK, pager, off - back, pid)
          })
       }
     }"
  by pat_completeness auto
termination
  by (relation "measure (\<lambda>(pager, data, i, w, t, off, s, n, b, l). unat n)")
    (auto intro: u32_pred_less)

declare write_slices.simps [simp del]

definition btree_node_write_ex ::
  "btree_node \<Rightarrow> 'f pager \<Rightarrow> insertion_index \<Rightarrow> u32 \<Rightarrow> u32 \<Rightarrow> bytes \<Rightarrow> u32 \<Rightarrow> writer_ex_mode_e
   \<Rightarrow> (btree_e \<times> 'f pager \<times> btree_node) option" where
  "btree_node_write_ex node pager insertion_index key flags data data_size mode =
     (if mode = WRITER_EX_MODE_CELL_MOVE then do {
        (result, node, pg) \<leftarrow> btree_node_move_cell_from_data node insertion_index key flags data
          data_size (Some pager);
        pager \<leftarrow> pg;
        if result = BTREE_OK then do {
          (e, pager, page) \<leftarrow> pager_write_page pager (node_page node);
          Some (btpage_err e, pager, node\<lparr>node_page := page\<rparr>)
        } else Some (result, pager, node)
      } else do {
        free_heap \<leftarrow> node_free_heap node;
        (let max_data_size = btree_node_max_cell_size node;
             max_heap_usage = c_min max_data_size free_heap;
             heap_size = btree_node_heap_required_for_insertion
               (btree_cell_inline_disk_size data_size) in
         if heap_size \<le> max_data_size then do {
           (result, node) \<leftarrow> btree_node_insert_inline node insertion_index key
             \<lparr>ci_inline_size = data_size, ci_payload = data\<rparr>;
           if result = BTREE_OK then do {
             (e, pager, page) \<leftarrow> pager_write_page pager (node_page node);
             Some (btpage_err e, pager, node\<lparr>node_page := page\<rparr>)
           } else Some (result, pager, node)
         } else
           (let min_heap_required = btree_node_heap_required_for_insertion
                  btree_cell_overflow_min_disk_size in
            if min_heap_required > max_heap_usage
            then Some (BTREE_ERR_NODE_NOT_ENOUGH_SPACE, pager, node)
            else
              (let inline_payload_size = max_heap_usage - min_heap_required;
                   writable = btree_overflow_max_write_size pager in do {
                 (off, page_write_size, num_overflow_pages) \<leftarrow>
                   last_slice writable (unat inline_payload_size) (data_size - inline_payload_size) 1;
                 (result, pager, off, last_page_id) \<leftarrow>
                   write_slices pager data inline_payload_size writable
                     (data_size - inline_payload_size) off page_write_size num_overflow_pages 0 0;
                 if result \<noteq> BTREE_OK then Some (result, pager, node)
                 else
                   (let write_payload =
                      \<lparr>co_inline_size = btree_cell_inline_size_from_disk_size
                         (btree_cell_overflow_disk_size inline_payload_size),
                       co_total_size = data_size, co_overflow_page_id = last_page_id,
                       co_inline_payload = drop off data\<rparr> in do {
                     (e, pager, page) \<leftarrow> pager_read_page pager
                       \<lparr>sel_page_id = page_id (node_page node)\<rparr> (node_page node);
                     (let node = node\<lparr>node_page := page\<rparr> in
                      if btpage_err e \<noteq> BTREE_OK then Some (btpage_err e, pager, node)
                      else do {
                        (result, node) \<leftarrow>
                          btree_node_insert_overflow node insertion_index key write_payload;
                        if result = BTREE_OK then do {
                          (e, pager, page) \<leftarrow> pager_write_page pager (node_page node);
                          Some (btpage_err e, pager, node\<lparr>node_page := page\<rparr>)
                        } else Some (result, pager, node)
                      })
                   })
               })))
      })"

text \<open>
  The keys as the array \<open>btu_binary_search_keys\<close> is given; the number of keys is cut to a byte.
\<close>

definition node_key_array :: "btree_node \<Rightarrow> u32 \<Rightarrow> page_key list option" where
  "node_key_array node n =
     those (map (\<lambda>i. key_at node (of_nat i)) [0..<unat n])"

definition btree_node_write ::
  "btree_node \<Rightarrow> 'f pager \<Rightarrow> u32 \<Rightarrow> bytes \<Rightarrow> u32 \<Rightarrow> (btree_e \<times> 'f pager \<times> btree_node) option" where
  "btree_node_write node pager key data data_size =
     do {
       num_keys \<leftarrow> node_num_keys node;
       arr \<leftarrow> node_key_array node num_keys;
       (insertion_index_number, found) \<leftarrow> btu_binary_search_keys arr (ucast num_keys) key;
       insertion_index \<leftarrow> btu_init_insertion_index_from_index node insertion_index_number;
       btree_node_write_ex node pager insertion_index key 0 data data_size WRITER_EX_MODE_RAW
     }"

definition btree_node_write_at ::
  "btree_node \<Rightarrow> 'f pager \<Rightarrow> insertion_index \<Rightarrow> u32 \<Rightarrow> bytes \<Rightarrow> u32
   \<Rightarrow> (btree_e \<times> 'f pager \<times> btree_node) option" where
  "btree_node_write_at node pager insertion_index key data data_size =
     btree_node_write_ex node pager insertion_index key 0 data data_size WRITER_EX_MODE_RAW"

text \<open>Giving the overflow pages of a cell back to the pager.  A cyclic chain never ends.\<close>

partial_function (option) free_overflow_chain ::
  "'f pager \<Rightarrow> page \<Rightarrow> u32 \<Rightarrow> (btree_e \<times> 'f pager) option" where
  "free_overflow_chain pager temp_page next_page_id =
     (if next_page_id = 0 then Some (BTREE_OK, pager)
      else do {
        (result, pager, temp_page, peek, _) \<leftarrow> btree_overflow_peek pager temp_page next_page_id;
        if result \<noteq> BTREE_OK then Some (result, pager)
        else do {
          (e, pager) \<leftarrow> pager_freelist_push pager next_page_id;
          if btpage_err e \<noteq> BTREE_OK then Some (btpage_err e, pager)
          else free_overflow_chain pager temp_page (orr_next_page_id peek)
        }
      })"

text \<open>
  A failure to read the node back after the chain has been freed is not reported: the code
  jumps to the end, which returns \<open>BTREE_OK\<close>.
\<close>

definition btree_node_delete ::
  "'c btree \<Rightarrow> 'f pager \<Rightarrow> node_view \<Rightarrow> child_list_index
   \<Rightarrow> (btree_e \<times> 'f pager \<times> node_view) option" where
  "btree_node_delete tree pager nv index =
     do {
       require (cli_mode index = KLIM_INDEX);
       cell_buffer \<leftarrow> btu_get_cell_buffer nv (cli_index index);
       right_edge \<leftarrow> btu_calc_highwater_offset nv 0;
       flags \<leftarrow> btu_get_cell_flags nv (cli_index index);
       (stop, result, pager, nv) \<leftarrow>
         (if btree_pkey_is_cell_type flags PKEY_FLAG_CELL_TYPE_OVERFLOW then do {
            (result, cell, _, _) \<leftarrow> btree_cell_read_overflow_ex
              (btree_cell_init_overflow_reader cell_buffer (of_nat (right_edge - cell_buffer)))
              (node_mem nv) None 0;
            if result \<noteq> BTREE_OK then Some (True, result, pager, nv)
            else do {
              (e, temp_page) \<leftarrow> page_create pager;
              (_, pager) \<leftarrow>
                (if btpage_err e \<noteq> BTREE_OK then Some (btpage_err e, pager)
                 else free_overflow_chain pager temp_page (co_overflow_page_id cell));
              (result, pager, nv) \<leftarrow> noderc_reinit_read pager nv (page_id (node_page nv));
              Some (result \<noteq> BTREE_OK, BTREE_OK, pager, nv)
            }
          } else Some (False, BTREE_OK, pager, nv));
       if stop then Some (result, pager, nv)
       else do {
         (result, nv) \<leftarrow>
           (case tr_type tree of
              BTREE_INDEX \<Rightarrow> do {
                (result, nv, _) \<leftarrow> ibtree_node_remove nv index None; Some (result, nv) }
            | BTREE_TBL \<Rightarrow> do {
                (result, nv, _, _) \<leftarrow> btree_node_remove nv index None 0; Some (result, nv) });
         if result \<noteq> BTREE_OK then Some (result, pager, nv)
         else do {
           (result, pager, nvs) \<leftarrow> noderc_persist_n pager [nv];
           Some (result, pager, hd nvs)
         }
       }
     }"

section \<open>Reading: \<open>btree_node_reader.c\<close>\<close>

text \<open>
  The loop over the overflow pages.  \<open>written_size\<close> counts what has been stored in the buffer,
  \<open>pos\<close> is the position of \<open>next_buffer\<close> in it.
\<close>

partial_function (option) read_overflow_chain ::
  "'f pager \<Rightarrow> u32 \<Rightarrow> bytes \<Rightarrow> u32 \<Rightarrow> nat \<Rightarrow> u32 \<Rightarrow> (btree_e \<times> 'f pager \<times> bytes) option" where
  "read_overflow_chain pager next_page_id buffer buffer_size pos written_size =
     (if next_page_id \<noteq> 0 \<and> buffer_size > written_size then do {
        require (pos \<le> length buffer);
        (result, pager, rest, ov) \<leftarrow>
          btree_overflow_read pager next_page_id (drop pos buffer) (buffer_size - written_size);
        (let buffer = take pos buffer @ rest in
         if result \<noteq> BTREE_OK then Some (result, pager, buffer)
         else read_overflow_chain pager (orr_next_page_id ov) buffer buffer_size
                (pos + unat (orr_payload_bytes ov)) (written_size + orr_payload_bytes ov))
      } else Some (BTREE_OK, pager, buffer))"

definition btree_node_read_at ::
  "'f pager \<Rightarrow> btree_node \<Rightarrow> u32 \<Rightarrow> bytes \<Rightarrow> u32 \<Rightarrow> (btree_e \<times> 'f pager \<times> bytes) option" where
  "btree_node_read_at pager node key_index buffer buffer_size =
     do {
       flags \<leftarrow> btu_get_cell_flags node key_index;
       cell_buffer \<leftarrow> btu_get_cell_buffer node key_index;
       right_edge \<leftarrow> btu_calc_highwater_offset node 0;
       if \<not> btree_pkey_is_cell_type flags PKEY_FLAG_CELL_TYPE_OVERFLOW then do {
         (cell, buf, total_size) \<leftarrow> btree_cell_read_inline (drop cell_buffer (node_mem node))
           (Some buffer) buffer_size;
         Some (if total_size > buffer_size then BTREE_ERR_BUFFER_TOO_SMALL else BTREE_OK,
               pager, the buf)
       } else do {
         (result, cell, buf, _) \<leftarrow> btree_cell_read_overflow_ex
           (btree_cell_init_overflow_reader cell_buffer (of_nat (right_edge - cell_buffer)))
           (node_mem node) (Some buffer) buffer_size;
         (let buffer = the buf in
          if result \<noteq> BTREE_OK then Some (result, pager, buffer)
          else if co_total_size cell > buffer_size
          then Some (BTREE_ERR_BUFFER_TOO_SMALL, pager, buffer)
          else
            (let written_size =
               btree_cell_overflow_calc_inline_payload_size (co_inline_size cell) in
             read_overflow_chain pager (co_overflow_page_id cell) buffer buffer_size
               (unat written_size) written_size))
       }
     }"

definition btree_node_read_ex2 ::
  "'c btree \<Rightarrow> 'c \<Rightarrow> 'f pager \<Rightarrow> btree_node \<Rightarrow> bytes \<Rightarrow> u32 \<Rightarrow> bytes \<Rightarrow> u32
   \<Rightarrow> (btree_e \<times> 'c \<times> 'f pager \<times> bytes) option" where
  "btree_node_read_ex2 tree compare_ctx pager node key key_size buffer buffer_size =
     do {
       (result, key_index, compare_ctx, pager) \<leftarrow>
         btree_node_search_keys (tr_fns tree) compare_ctx pager node key key_size;
       if result \<noteq> BTREE_OK then Some (result, compare_ctx, pager, buffer)
       else do {
         key_index \<leftarrow> key_index;
         (result, pager, buffer) \<leftarrow> btree_node_read_at pager node key_index buffer buffer_size;
         Some (result, compare_ctx, pager, buffer)
       }
     }"

text \<open>The context is a null pointer here, so it is of use to trees without one.\<close>

definition btree_node_read_ex ::
  "unit btree \<Rightarrow> 'f pager \<Rightarrow> btree_node \<Rightarrow> bytes \<Rightarrow> u32 \<Rightarrow> bytes \<Rightarrow> u32
   \<Rightarrow> (btree_e \<times> 'f pager \<times> bytes) option" where
  "btree_node_read_ex tree pager node key key_size buffer buffer_size =
     do {
       (result, _, pager, buffer) \<leftarrow>
         btree_node_read_ex2 tree () pager node key key_size buffer buffer_size;
       Some (result, pager, buffer)
     }"

definition btree_node_read ::
  "unit btree \<Rightarrow> 'f pager \<Rightarrow> btree_node \<Rightarrow> u32 \<Rightarrow> bytes \<Rightarrow> u32
   \<Rightarrow> (btree_e \<times> 'f pager \<times> bytes) option" where
  "btree_node_read tree pager node key buffer buffer_size =
     btree_node_read_ex tree pager node (ser_write_32bit_le key) 4 buffer buffer_size"

text \<open>The size is stored on success only.\<close>

definition btree_node_payload_size_at :: "btree_node \<Rightarrow> u32 \<Rightarrow> (btree_e \<times> u32 option) option" where
  "btree_node_payload_size_at node index =
     do {
       cell_buffer \<leftarrow> btu_get_cell_buffer node index;
       right_edge \<leftarrow> btu_calc_highwater_offset node 0;
       flags \<leftarrow> btu_get_cell_flags node index;
       if btree_pkey_is_cell_type flags PKEY_FLAG_CELL_TYPE_OVERFLOW then do {
         (result, cell, _, _) \<leftarrow> btree_cell_read_overflow_ex
           (btree_cell_init_overflow_reader cell_buffer (of_nat (right_edge - cell_buffer)))
           (node_mem node) None 0;
         if result \<noteq> BTREE_OK then Some (result, None)
         else Some (BTREE_OK, Some (co_total_size cell))
       } else do {
         (_, _, total_size) \<leftarrow>
           btree_cell_read_inline (drop cell_buffer (node_mem node)) None 0;
         Some (BTREE_OK, Some total_size)
       }
     }"

end
