(* ===== verification/Cursor.thy ===== *)
theory Cursor
  imports NodeIO
begin

text \<open>
  \<open>btree_cursor.c\<close>: a cursor is a position in a tree together with the path to it, a stack of
  at most eight breadcrumbs (the newest one last; the array slots behind the size are never
  read).  Every loop of the file pushes or pops a breadcrumb in each round, which bounds it.
\<close>

record 'c cursor =
  cur_tree :: "'c btree"
  cur_page_id :: u32
  cur_key_index :: child_list_index
  cur_breadcrumbs :: "cursor_breadcrumb list"
  cur_compare_context :: 'c

datatype cursor_sibling_e = CURSOR_SIBLING_LEFT | CURSOR_SIBLING_RIGHT

definition MAX_CRUMBS :: nat where
  "MAX_CRUMBS = 8"

definition zero_index :: child_list_index where
  "zero_index = \<lparr>cli_mode = KLIM_END, cli_index = 0\<rparr>"

section \<open>The stack of breadcrumbs\<close>

definition cursor_push :: "'c cursor \<Rightarrow> btree_e \<times> 'c cursor" where
  "cursor_push cursor =
     (if length (cur_breadcrumbs cursor) = MAX_CRUMBS
      then (BTREE_ERR_CURSOR_DEPTH_EXCEEDED, cursor)
      else (BTREE_OK, cursor\<lparr>cur_breadcrumbs := cur_breadcrumbs cursor @
              [\<lparr>cb_key_index = cur_key_index cursor, cb_page_id = cur_page_id cursor\<rparr>]\<rparr>))"

definition cursor_push_crumb :: "'c cursor \<Rightarrow> cursor_breadcrumb \<Rightarrow> btree_e \<times> 'c cursor" where
  "cursor_push_crumb cursor crumb =
     (if length (cur_breadcrumbs cursor) = MAX_CRUMBS
      then (BTREE_ERR_CURSOR_DEPTH_EXCEEDED, cursor)
      else (BTREE_OK, cursor\<lparr>cur_breadcrumbs := cur_breadcrumbs cursor @ [crumb],
              cur_page_id := cb_page_id crumb, cur_key_index := cb_key_index crumb\<rparr>))"

text \<open>The popped breadcrumb is \<open>None\<close> where the code leaves \<open>*crumb\<close> as it was.\<close>

definition cursor_pop :: "'c cursor \<Rightarrow> btree_e \<times> cursor_breadcrumb option \<times> 'c cursor" where
  "cursor_pop cursor =
     (if cur_breadcrumbs cursor = [] then (BTREE_ERR_CURSOR_NO_PARENT, None, cursor)
      else
        (let rest = butlast (cur_breadcrumbs cursor) in
         (BTREE_OK, Some (last (cur_breadcrumbs cursor)),
          if rest = []
          then cursor\<lparr>cur_breadcrumbs := [], cur_page_id := 0, cur_key_index := zero_index\<rparr>
          else cursor\<lparr>cur_breadcrumbs := rest, cur_page_id := cb_page_id (last rest),
                      cur_key_index := cb_key_index (last rest)\<rparr>)))"

text \<open>The breadcrumbs that were popped, the newest first.\<close>

fun cursor_pop_n :: "'c cursor \<Rightarrow> nat \<Rightarrow> btree_e \<times> cursor_breadcrumb list \<times> 'c cursor" where
  "cursor_pop_n cursor 0 = (BTREE_OK, [], cursor)"
| "cursor_pop_n cursor (Suc n) =
     (case cursor_pop cursor of
        (result, Some crumb, cursor) \<Rightarrow>
          (case cursor_pop_n cursor n of (result, crumbs, cursor) \<Rightarrow> (result, crumb # crumbs, cursor))
      | (result, None, cursor) \<Rightarrow> (result, [], cursor))"

definition cursor_peek :: "'c cursor \<Rightarrow> btree_e \<times> cursor_breadcrumb option" where
  "cursor_peek cursor =
     (if cur_breadcrumbs cursor = [] then (BTREE_ERR_CURSOR_NO_PARENT, None)
      else (BTREE_OK, Some (last (cur_breadcrumbs cursor))))"

text \<open>The breadcrumbs are given as \<open>cursor_pop_n\<close> stores them, so the last one is pushed first.\<close>

fun push_crumbs :: "'c cursor \<Rightarrow> cursor_breadcrumb list \<Rightarrow> btree_e \<times> 'c cursor" where
  "push_crumbs cursor [] = (BTREE_OK, cursor)"
| "push_crumbs cursor (crumb # crumbs) =
     (case cursor_push_crumb cursor crumb of
        (result, cursor) \<Rightarrow>
          if result \<noteq> BTREE_OK then (result, cursor) else push_crumbs cursor crumbs)"

definition cursor_restore :: "'c cursor \<Rightarrow> cursor_breadcrumb list \<Rightarrow> btree_e \<times> 'c cursor" where
  "cursor_restore cursor crumbs = push_crumbs cursor (rev crumbs)"

definition cursor_create_ex :: "'c btree \<Rightarrow> 'c \<Rightarrow> 'c cursor" where
  "cursor_create_ex tree compare_context =
     snd (cursor_push
       \<lparr>cur_tree = tree, cur_page_id = tr_root_page_id tree,
        cur_key_index = \<lparr>cli_mode = KLIM_INDEX, cli_index = 0\<rparr>, cur_breadcrumbs = [],
        cur_compare_context = compare_context\<rparr>)"

definition cursor_create :: "unit btree \<Rightarrow> unit cursor" where
  "cursor_create tree = cursor_create_ex tree ()"

text \<open>
  On an empty stack \<open>cursor_parent_crumb\<close> pushes its uninitialised local breadcrumb, which has no
  outcome; without a parent the caller's breadcrumb is left as it was.
\<close>

definition cursor_parent_crumb ::
  "'c cursor \<Rightarrow> (btree_e \<times> cursor_breadcrumb option \<times> 'c cursor) option" where
  "cursor_parent_crumb cursor =
     (case cursor_pop cursor of
        (_, None, _) \<Rightarrow> None
      | (_, Some child, cursor) \<Rightarrow>
          (let out_crumb = snd (cursor_peek cursor);
               (result, cursor) = cursor_push_crumb cursor child in
           Some (result, out_crumb, cursor)))"

definition cursor_parent_index ::
  "'c cursor \<Rightarrow> (btree_e \<times> child_list_index option \<times> 'c cursor) option" where
  "cursor_parent_index cursor =
     do {
       (result, crumb, cursor) \<leftarrow> cursor_parent_crumb cursor;
       if result = BTREE_OK then do {
         crumb \<leftarrow> crumb;
         Some (result, Some (cb_key_index crumb), cursor)
       } else Some (result, None, cursor)
     }"

section \<open>Moving inside a node\<close>

definition move_right :: "'c cursor \<Rightarrow> node_view \<Rightarrow> (btree_e \<times> 'c cursor) option" where
  "move_right cursor nv =
     (case cursor_pop cursor of
        (result, None, cursor) \<Rightarrow> Some (result, cursor)
      | (result, Some crumb, cursor) \<Rightarrow> do {
          num_keys \<leftarrow> node_num_keys nv;
          is_leaf \<leftarrow> node_is_leaf nv;
          (let idx = cb_key_index crumb;
               i = cli_index idx + 1;
               (result, idx) =
                 (if cli_index idx < num_keys then
                    (if num_keys = i then
                       (if is_leaf then (BTREE_ERR_CURSOR_NO_SIBLING, \<lparr>cli_mode = KLIM_END, cli_index = i\<rparr>)
                        else (result, \<lparr>cli_mode = KLIM_RIGHT_CHILD, cli_index = i\<rparr>))
                     else (result, idx\<lparr>cli_index := i\<rparr>))
                  else (BTREE_ERR_CURSOR_NO_SIBLING, idx)) in
           Some (result, snd (cursor_push_crumb cursor (crumb\<lparr>cb_key_index := idx\<rparr>))))
        })"

datatype mover_fn = MOVE_TO_END | MOVE_TO_BEGIN

definition move_to_end :: "'c cursor \<Rightarrow> node_view \<Rightarrow> 'c cursor option" where
  "move_to_end cursor nv =
     do {
       is_leaf \<leftarrow> node_is_leaf nv;
       num_keys \<leftarrow> node_num_keys nv;
       Some (cursor\<lparr>
         cur_key_index := (if is_leaf then \<lparr>cli_mode = KLIM_INDEX, cli_index = num_keys - 1\<rparr>
                           else \<lparr>cli_mode = KLIM_RIGHT_CHILD, cli_index = num_keys\<rparr>),
         cur_page_id := page_id (node_page nv)\<rparr>)
     }"

definition move_to_begin :: "'c cursor \<Rightarrow> node_view \<Rightarrow> 'c cursor option" where
  "move_to_begin cursor nv =
     Some (cursor\<lparr>cur_key_index := \<lparr>cli_mode = KLIM_INDEX, cli_index = 0\<rparr>,
                  cur_page_id := page_id (node_page nv)\<rparr>)"

definition run_mover :: "mover_fn \<Rightarrow> 'c cursor \<Rightarrow> node_view \<Rightarrow> 'c cursor option" where
  "run_mover mover = (case mover of MOVE_TO_END \<Rightarrow> move_to_end | MOVE_TO_BEGIN \<Rightarrow> move_to_begin)"

text \<open>The page number of a child: the payload of its cell, or its key in an index tree.\<close>

definition read_cell_page ::
  "'c cursor \<Rightarrow> btree_node \<Rightarrow> u32 \<Rightarrow> (btree_e \<times> 'c cursor) option" where
  "read_cell_page cursor node child_key_index =
     do {
       num_keys \<leftarrow> node_num_keys node;
       if child_key_index \<ge> num_keys then do {
         right_child \<leftarrow> node_right_child node;
         Some (BTREE_OK, cursor\<lparr>cur_page_id := right_child\<rparr>)
       } else if tr_type (cur_tree cursor) = BTREE_TBL then do {
         cell \<leftarrow> btu_read_cell node child_key_index;
         if btree_cell_get_size cell \<noteq> 4 then Some (BTREE_ERR_CORRUPT_CELL, cursor)
         else do {
           pid \<leftarrow> mem_read32 (cd_pointer cell) 0;
           Some (BTREE_OK, cursor\<lparr>cur_page_id := pid\<rparr>)
         }
       } else do {
         key \<leftarrow> node_key_at node child_key_index;
         Some (BTREE_OK, cursor\<lparr>cur_page_id := key\<rparr>)
       }
     }"

section \<open>Descending\<close>

lemma cursor_push_grows:
  "cursor_push c = (BTREE_OK, c') \<Longrightarrow> length (cur_breadcrumbs c') = Suc (length (cur_breadcrumbs c)) \<and>
     length (cur_breadcrumbs c) \<noteq> MAX_CRUMBS"
  by (auto simp: cursor_push_def split: if_splits)

lemma read_cell_page_crumbs:
  "read_cell_page c node i = Some (e, c') \<Longrightarrow> cur_breadcrumbs c' = cur_breadcrumbs c"
  by (auto simp: read_cell_page_def bind_option_Some_iff split: if_splits)

lemma run_mover_crumbs:
  "run_mover mover c nv = Some c' \<Longrightarrow> cur_breadcrumbs c' = cur_breadcrumbs c"
  by (cases mover)
    (auto simp: run_mover_def move_to_end_def move_to_begin_def bind_option_Some_iff)

text \<open>
  One round of the loops that descend leaves the cursor at the child to continue with, or
  reports the result of the whole loop.  Rounds that continue have pushed a breadcrumb.
\<close>

datatype ('a, 'b) round = Stop 'a | Go_on 'b

definition traverse_round ::
  "'c cursor \<Rightarrow> 'f pager \<Rightarrow> node_view \<Rightarrow> bytes \<Rightarrow> u32 \<Rightarrow> bool
   \<Rightarrow> (btree_e \<times> bool \<times> 'c cursor \<times> 'f pager, bool \<times> 'c cursor \<times> 'f pager \<times> node_view) round option"
  where
  "traverse_round cursor pager nv key key_size found =
     do {
       (result, pager, nv) \<leftarrow> noderc_reinit_read pager nv (cur_page_id cursor);
       if result \<noteq> BTREE_OK then Some (Stop (result, found, cursor, pager))
       else do {
         (result, out_index, ctx, pager) \<leftarrow>
           btree_node_search_keys (tr_fns (cur_tree cursor)) (cur_compare_context cursor) pager nv
             key key_size;
         (let cursor = cursor\<lparr>cur_compare_context := ctx\<rparr>;
              found = (found \<or> result = BTREE_OK) in
          if result \<noteq> BTREE_OK \<and> result \<noteq> BTREE_ERR_KEY_NOT_FOUND
          then Some (Stop (result, found, cursor, pager))
          else do {
            child_key_index \<leftarrow> out_index;
            idx \<leftarrow> btu_init_keylistindex_from_index nv child_key_index;
            (let (result, cursor) = cursor_push (cursor\<lparr>cur_key_index := idx\<rparr>) in
             if result \<noteq> BTREE_OK then Some (Stop (result, found, cursor, pager))
             else do {
               is_leaf \<leftarrow> node_is_leaf nv;
               if \<not> is_leaf \<and> (tr_type (cur_tree cursor) \<noteq> BTREE_INDEX \<or> \<not> found) then do {
                 (result, cursor) \<leftarrow> read_cell_page cursor nv child_key_index;
                 Some (if result \<noteq> BTREE_OK then Stop (result, found, cursor, pager)
                       else Go_on (found, cursor, pager, nv))
               } else Some (Stop (BTREE_OK, found, cursor, pager))
             })
          })
       }
     }"

lemma traverse_round_grows:
  assumes "traverse_round c pg nv key n found = Some (Go_on (found', c', pg', nv'))"
  shows "length (cur_breadcrumbs c') = Suc (length (cur_breadcrumbs c)) \<and>
    length (cur_breadcrumbs c) \<noteq> MAX_CRUMBS"
  using assms
  by (auto simp: traverse_round_def cursor_push_def bind_option_Some_iff Let_def
      split: if_splits dest!: read_cell_page_crumbs)

text \<open>
  The measure of the descending loops: the breadcrumbs still free.  A cursor never holds more
  than eight; one that did would run out of the array, which has no outcome.
\<close>

function traverse_loop ::
  "'c cursor \<Rightarrow> 'f pager \<Rightarrow> node_view \<Rightarrow> bytes \<Rightarrow> u32 \<Rightarrow> bool
   \<Rightarrow> (btree_e \<times> bool \<times> 'c cursor \<times> 'f pager) option" where
  "traverse_loop cursor pager nv key key_size found =
     do {
       require (length (cur_breadcrumbs cursor) \<le> MAX_CRUMBS);
       r \<leftarrow> traverse_round cursor pager nv key key_size found;
       (case r of
          Stop out \<Rightarrow> Some out
        | Go_on (found, cursor, pager, nv) \<Rightarrow> traverse_loop cursor pager nv key key_size found)
     }"
  by pat_completeness auto
termination
  by (relation "measure (\<lambda>(c, pg, nv, k, n, f). Suc MAX_CRUMBS - length (cur_breadcrumbs c))")
    (auto dest!: traverse_round_grows)

declare traverse_loop.simps [simp del]

definition cursor_traverse_to_ex ::
  "'c cursor \<Rightarrow> 'f pager \<Rightarrow> bytes \<Rightarrow> u32 \<Rightarrow> (btree_e \<times> bool \<times> 'c cursor \<times> 'f pager) option" where
  "cursor_traverse_to_ex cursor pager key key_size =
     do {
       (result, nv) \<leftarrow> noderc_acquire pager;
       if result \<noteq> BTREE_OK then Some (result, False, cursor, pager)
       else traverse_loop cursor pager nv key key_size False
     }"

definition cursor_traverse_to ::
  "'c cursor \<Rightarrow> 'f pager \<Rightarrow> u32 \<Rightarrow> (btree_e \<times> bool \<times> 'c cursor \<times> 'f pager) option" where
  "cursor_traverse_to cursor pager key =
     cursor_traverse_to_ex cursor pager (ser_write_32bit_le key) 4"

definition mover_round ::
  "mover_fn \<Rightarrow> 'c cursor \<Rightarrow> 'f pager \<Rightarrow> node_view
   \<Rightarrow> (btree_e \<times> 'c cursor \<times> 'f pager, 'c cursor \<times> 'f pager \<times> node_view) round option" where
  "mover_round mover cursor pager nv =
     (case cursor_peek cursor of
        (result, None) \<Rightarrow> Some (Stop (result, cursor, pager))
      | (_, Some crumb) \<Rightarrow> do {
          (result, pager, nv) \<leftarrow> noderc_reinit_read pager nv (cb_page_id crumb);
          if result \<noteq> BTREE_OK then Some (Stop (result, cursor, pager))
          else do {
            cursor \<leftarrow> run_mover mover cursor nv;
            is_leaf \<leftarrow> node_is_leaf nv;
            if \<not> is_leaf then do {
              (result, cursor) \<leftarrow> read_cell_page cursor nv (cli_index (cur_key_index cursor));
              if result \<noteq> BTREE_OK then Some (Stop (result, cursor, pager))
              else
                (let (result, cursor) = cursor_push cursor in
                 Some (if result \<noteq> BTREE_OK then Stop (result, cursor, pager)
                       else Go_on (cursor, pager, nv)))
            } else Some (Stop (BTREE_OK, cursor, pager))
          }
        })"

lemma mover_round_grows:
  assumes "mover_round mover c pg nv = Some (Go_on (c', pg', nv'))"
  shows "length (cur_breadcrumbs c') = Suc (length (cur_breadcrumbs c)) \<and>
    length (cur_breadcrumbs c) \<noteq> MAX_CRUMBS"
  using assms
  by (auto simp: mover_round_def cursor_push_def cursor_peek_def bind_option_Some_iff Let_def
      split: if_splits dest!: read_cell_page_crumbs run_mover_crumbs)

function mover_loop ::
  "mover_fn \<Rightarrow> 'c cursor \<Rightarrow> 'f pager \<Rightarrow> node_view \<Rightarrow> (btree_e \<times> 'c cursor \<times> 'f pager) option" where
  "mover_loop mover cursor pager nv =
     do {
       require (length (cur_breadcrumbs cursor) \<le> MAX_CRUMBS);
       r \<leftarrow> mover_round mover cursor pager nv;
       (case r of
          Stop out \<Rightarrow> Some out
        | Go_on (cursor, pager, nv) \<Rightarrow> mover_loop mover cursor pager nv)
     }"
  by pat_completeness auto
termination
  by (relation "measure (\<lambda>(m, c, pg, nv). Suc MAX_CRUMBS - length (cur_breadcrumbs c))")
    (auto dest!: mover_round_grows)

declare mover_loop.simps [simp del]

definition cursor_traverse_by_mover ::
  "mover_fn \<Rightarrow> 'c cursor \<Rightarrow> 'f pager \<Rightarrow> (btree_e \<times> 'c cursor \<times> 'f pager) option" where
  "cursor_traverse_by_mover mover cursor pager =
     do {
       (result, nv) \<leftarrow> noderc_acquire pager;
       if result \<noteq> BTREE_OK then Some (result, cursor, pager)
       else mover_loop mover cursor pager nv
     }"

definition cursor_traverse_largest ::
  "'c cursor \<Rightarrow> 'f pager \<Rightarrow> (btree_e \<times> 'c cursor \<times> 'f pager) option" where
  "cursor_traverse_largest cursor pager = cursor_traverse_by_mover MOVE_TO_END cursor pager"

definition cursor_traverse_smallest ::
  "'c cursor \<Rightarrow> 'f pager \<Rightarrow> (btree_e \<times> 'c cursor \<times> 'f pager) option" where
  "cursor_traverse_smallest cursor pager = cursor_traverse_by_mover MOVE_TO_BEGIN cursor pager"

definition cursor_iter_begin ::
  "'c cursor \<Rightarrow> 'f pager \<Rightarrow> (btree_e \<times> 'c cursor \<times> 'f pager) option" where
  "cursor_iter_begin cursor pager = cursor_traverse_smallest cursor pager"

section \<open>Iterating\<close>

lemma cursor_pop_crumbs [simp]:
  "cur_breadcrumbs (snd (snd (cursor_pop c))) = butlast (cur_breadcrumbs c)"
  by (simp add: cursor_pop_def Let_def)

lemma cursor_pop_OK [simp]: "fst (cursor_pop c) = BTREE_OK \<longleftrightarrow> cur_breadcrumbs c \<noteq> []"
  by (simp add: cursor_pop_def Let_def)

lemma move_right_crumbs:
  assumes "move_right c nv = Some (e, c')"
  shows "length (cur_breadcrumbs c') \<le> length (cur_breadcrumbs c)"
proof (cases "cur_breadcrumbs c = []")
  case True
  with assms show ?thesis by (simp add: move_right_def cursor_pop_def)
next
  case False
  define d where "d = snd (snd (cursor_pop c))"
  have len: "Suc (length (cur_breadcrumbs d)) = length (cur_breadcrumbs c)"
    using False by (simp add: d_def)
  obtain cr where "cursor_pop c = (BTREE_OK, Some cr, d)"
    using False by (simp add: d_def cursor_pop_def Let_def)
  with assms len show ?thesis
    by (auto simp: move_right_def bind_option_Some_iff Let_def cursor_push_crumb_def
        split: if_splits)
qed

text \<open>
  The loop that leaves the nodes whose right child has been visited.  In an index tree the
  test for page 0 is missing; there the mode is \<open>KLIM_END\<close>.
\<close>

function pop_right :: "bool \<Rightarrow> 'c cursor \<Rightarrow> btree_e \<times> 'c cursor" where
  "pop_right check_page cursor =
     (let popped = cursor_pop cursor; cursor' = snd (snd popped) in
      if fst popped \<noteq> BTREE_OK then (fst popped, cursor')
      else if cli_mode (cur_key_index cursor') = KLIM_RIGHT_CHILD \<and>
              (\<not> check_page \<or> cur_page_id cursor' \<noteq> 0)
      then pop_right check_page cursor'
      else (BTREE_OK, cursor'))"
  by pat_completeness auto
termination
  by (relation "measure (\<lambda>(b, c). length (cur_breadcrumbs c))") (auto simp: Let_def)

declare pop_right.simps [simp del]

lemma pop_right_shrinks:
  "pop_right b c = (BTREE_OK, c') \<Longrightarrow> length (cur_breadcrumbs c') < length (cur_breadcrumbs c)"
proof (induction b c rule: pop_right.induct)
  case (1 b c)
  define d where "d = snd (snd (cursor_pop c))"
  have "fst (cursor_pop c) = BTREE_OK"
  proof (rule ccontr)
    assume no: "fst (cursor_pop c) \<noteq> BTREE_OK"
    with "1.prems" have "fst (cursor_pop c) = BTREE_OK"
      by (subst (asm) pop_right.simps) (simp add: Let_def del: cursor_pop_OK)
    with no show False ..
  qed
  then have ne: "cur_breadcrumbs c \<noteq> []" by simp
  then have lt: "length (cur_breadcrumbs d) < length (cur_breadcrumbs c)" by (simp add: d_def)
  show ?case
  proof (cases "cli_mode (cur_key_index d) = KLIM_RIGHT_CHILD \<and> (\<not> b \<or> cur_page_id d \<noteq> 0)")
    case True
    with "1.prems" ne have "pop_right b d = (BTREE_OK, c')"
      by (subst (asm) pop_right.simps) (simp add: Let_def d_def)
    with "1.IH" [OF refl refl] True ne lt show ?thesis by (simp add: d_def)
  next
    case False
    with "1.prems" ne have "c' = d"
      by (subst (asm) pop_right.simps) (auto simp: Let_def d_def)
    with lt show ?thesis by simp
  qed
qed

text \<open>After a step to the right in an inner node: down to the smallest cell of that child.\<close>

definition descend_right ::
  "'c cursor \<Rightarrow> 'f pager \<Rightarrow> node_view \<Rightarrow> (btree_e \<times> 'c cursor \<times> 'f pager) option" where
  "descend_right cursor pager nv =
     do {
       is_leaf \<leftarrow> node_is_leaf nv;
       if is_leaf then Some (BTREE_OK, cursor, pager)
       else do {
         (result, cursor) \<leftarrow> read_cell_page cursor nv (cli_index (cur_key_index cursor));
         if result \<noteq> BTREE_OK then Some (result, cursor, pager)
         else
           (let (result, cursor) = cursor_push
              (cursor\<lparr>cur_key_index := \<lparr>cli_mode = KLIM_INDEX, cli_index = 0\<rparr>\<rparr>) in
            if result \<noteq> BTREE_OK then Some (result, cursor, pager)
            else cursor_traverse_smallest cursor pager)
       }
     }"

function btree_iter_loop ::
  "'c cursor \<Rightarrow> 'f pager \<Rightarrow> node_view \<Rightarrow> (btree_e \<times> 'c cursor \<times> 'f pager) option" where
  "btree_iter_loop cursor pager nv =
     do {
       (result, pager, nv) \<leftarrow> noderc_reinit_read pager nv (cur_page_id cursor);
       if result \<noteq> BTREE_OK then Some (result, cursor, pager)
       else do {
         (moved, cursor') \<leftarrow> move_right cursor nv;
         if moved = BTREE_OK then descend_right cursor' pager nv
         else
           (case pop_right True cursor' of
              (result, cursor'') \<Rightarrow>
                if result \<noteq> BTREE_OK then Some (result, cursor'', pager)
                else if cur_page_id cursor'' \<noteq> 0 then btree_iter_loop cursor'' pager nv
                else Some (BTREE_OK, cursor'', pager))
       }
     }"
  by pat_completeness auto
termination
  by (relation "measure (\<lambda>(c, pg, nv). length (cur_breadcrumbs c))")
    (auto dest!: move_right_crumbs dest: pop_right_shrinks [OF sym])

declare btree_iter_loop.simps [simp del]

definition iter_result :: "btree_e \<times> 'c cursor \<times> 'f pager \<Rightarrow> btree_e \<times> 'c cursor \<times> 'f pager" where
  "iter_result out =
     (case out of (result, cursor, pager) \<Rightarrow>
        (if cur_breadcrumbs cursor = [] then BTREE_ERR_ITER_DONE else result, cursor, pager))"

definition btree_iter_next ::
  "'c cursor \<Rightarrow> 'f pager \<Rightarrow> (btree_e \<times> 'c cursor \<times> 'f pager) option" where
  "btree_iter_next cursor pager =
     do {
       require (cur_page_id cursor \<noteq> 0);
       require (cli_mode (cur_key_index cursor) \<noteq> KLIM_RIGHT_CHILD);
       (result, nv) \<leftarrow> noderc_acquire pager;
       out \<leftarrow> (if result \<noteq> BTREE_OK then Some (result, cursor, pager)
               else btree_iter_loop cursor pager nv);
       Some (iter_result out)
     }"

definition ibtree_iter_next ::
  "'c cursor \<Rightarrow> 'f pager \<Rightarrow> (btree_e \<times> 'c cursor \<times> 'f pager) option" where
  "ibtree_iter_next cursor pager =
     do {
       require (cur_page_id cursor \<noteq> 0);
       require (cli_mode (cur_key_index cursor) \<noteq> KLIM_RIGHT_CHILD);
       (result, nv) \<leftarrow> noderc_acquire pager;
       out \<leftarrow>
         (if result \<noteq> BTREE_OK then Some (result, cursor, pager)
          else do {
            (result, pager, nv) \<leftarrow> noderc_reinit_read pager nv (cur_page_id cursor);
            if result \<noteq> BTREE_OK then Some (result, cursor, pager)
            else do {
              (moved, cursor) \<leftarrow> move_right cursor nv;
              if moved = BTREE_OK then descend_right cursor pager nv
              else (let (result, cursor) = pop_right False cursor in Some (result, cursor, pager))
            }
          });
       Some (iter_result out)
     }"

definition cursor_tree_type :: "'c cursor \<Rightarrow> btree_type_e" where
  "cursor_tree_type cursor = tr_type (cur_tree cursor)"

definition cursor_iter_next ::
  "'c cursor \<Rightarrow> 'f pager \<Rightarrow> (btree_e \<times> 'c cursor \<times> 'f pager) option" where
  "cursor_iter_next cursor pager =
     (case cursor_tree_type cursor of
        BTREE_INDEX \<Rightarrow> ibtree_iter_next cursor pager
      | BTREE_TBL \<Rightarrow> btree_iter_next cursor pager)"

section \<open>Siblings and parents\<close>

text \<open>The index of the sibling in the parent, if there is one.\<close>

definition sibling_index ::
  "cursor_sibling_e \<Rightarrow> child_list_index \<Rightarrow> u32 \<Rightarrow> u32 \<Rightarrow> child_list_index option" where
  "sibling_index sibling pidx num_keys right_child =
     (if sibling = CURSOR_SIBLING_LEFT then
        (if cli_index pidx = 0 then None
         else Some \<lparr>cli_mode = KLIM_INDEX, cli_index = cli_index pidx - 1\<rparr>)
      else if (cli_index pidx + 1 = num_keys \<and> right_child = 0) \<or> cli_mode pidx \<noteq> KLIM_INDEX
        then None
      else if cli_index pidx + 1 = num_keys
        then Some \<lparr>cli_mode = KLIM_RIGHT_CHILD, cli_index = num_keys\<rparr>
      else Some \<lparr>cli_mode = KLIM_INDEX, cli_index = cli_index pidx + 1\<rparr>)"

text \<open>
  From the parent at \<open>idx\<close> to the first cell of that child.  In every case the number that the code
  gives to \<open>read_cell_page\<close> is the one in \<open>idx\<close>.
\<close>

definition enter_child ::
  "'c cursor \<Rightarrow> node_view \<Rightarrow> u32 \<Rightarrow> child_list_index \<Rightarrow> (btree_e \<times> 'c cursor) option" where
  "enter_child cursor nv parent_page idx =
     (let (result, cursor) =
        cursor_push (cursor\<lparr>cur_key_index := idx, cur_page_id := parent_page\<rparr>) in
      if result \<noteq> BTREE_OK then Some (result, cursor)
      else do {
        (result, cursor) \<leftarrow> read_cell_page cursor nv (cli_index idx);
        if result \<noteq> BTREE_OK then Some (result, cursor)
        else Some (cursor_push
          (cursor\<lparr>cur_key_index := \<lparr>cli_mode = KLIM_INDEX, cli_index = 0\<rparr>\<rparr>))
      })"

definition cursor_sibling ::
  "'c cursor \<Rightarrow> 'f pager \<Rightarrow> cursor_sibling_e \<Rightarrow> (btree_e \<times> 'c cursor \<times> 'f pager) option" where
  "cursor_sibling cursor pager sibling =
     (if length (cur_breadcrumbs cursor) < 2 then Some (BTREE_ERR_CURSOR_NO_PARENT, cursor, pager)
      else
        (let (result, crumbs, cursor) = cursor_pop_n cursor 2 in
         if result \<noteq> BTREE_OK then Some (result, cursor, pager)
         else
           (let parent = crumbs ! 1 in do {
              (result, pager, nv) \<leftarrow> noderc_acquire_load pager (cb_page_id parent);
              if result \<noteq> BTREE_OK then Some (result, cursor, pager)
              else do {
                num_keys \<leftarrow> node_num_keys nv;
                right_child \<leftarrow> node_right_child nv;
                (case sibling_index sibling (cb_key_index parent) num_keys right_child of
                   None \<Rightarrow>
                     (let (result, cursor) = cursor_restore cursor crumbs in
                      Some (if result \<noteq> BTREE_OK then result else BTREE_ERR_CURSOR_NO_SIBLING,
                            cursor, pager))
                 | Some idx \<Rightarrow> do {
                     (result, cursor) \<leftarrow> enter_child cursor nv (cb_page_id parent) idx;
                     Some (result, cursor, pager)
                   })
              }
            })))"

definition cursor_read_parent ::
  "'c cursor \<Rightarrow> 'f pager \<Rightarrow> node_view
   \<Rightarrow> (btree_e \<times> 'c cursor \<times> 'f pager \<times> node_view) option" where
  "cursor_read_parent cursor pager out_view =
     (case cursor_pop cursor of
        (result, None, cursor) \<Rightarrow> Some (result, cursor, pager, out_view)
      | (_, Some crumb, cursor) \<Rightarrow> do {
          (result, pager, out_view) \<leftarrow> noderc_reinit_read pager out_view (cur_page_id cursor);
          if result \<noteq> BTREE_OK then Some (result, cursor, pager, out_view)
          else
            (let (result, cursor) = cursor_push_crumb cursor crumb in
             Some (result, cursor, pager, out_view))
        })"

definition cursor_read_current ::
  "'c cursor \<Rightarrow> 'f pager \<Rightarrow> node_view \<Rightarrow> (btree_e \<times> 'f pager \<times> node_view) option" where
  "cursor_read_current cursor pager out_nv =
     noderc_reinit_read pager out_nv (cur_page_id cursor)"

end
