(* ===== verification/BTreeAlg.thy ===== *)
theory BTreeAlg
  imports Cursor
begin

text \<open>
  \<open>btree_alg.c\<close>: splitting nodes of table trees, and rebalancing by rotation and merging.

  The functions get the node they change and the pager, or a cursor and the pager, and return
  them as they leave them, also on an error.  Node views that a function acquires are local to it.
\<close>

section \<open>Splitting\<close>

definition read_key_cell :: "btree_node \<Rightarrow> u32 \<Rightarrow> u32 option" where
  "read_key_cell source_node index =
     do { cell \<leftarrow> btu_read_cell source_node index; mem_read32 (cd_pointer cell) 0 }"

text \<open>
  Moving the cells with the given indices to the end of \<open>dest\<close>.  \<open>split_node\<close> ignores what
  \<open>btree_node_move_cell\<close> returns; the loops of \<open>bta_merge\<close> and \<open>bta_rebalance_root\<close> stop at an error.
\<close>

fun move_cells_unchecked ::
  "btree_node \<Rightarrow> btree_node \<Rightarrow> nat list \<Rightarrow> 'f pager \<Rightarrow> (btree_node \<times> 'f pager) option" where
  "move_cells_unchecked source_node dest [] pager = Some (dest, pager)"
| "move_cells_unchecked source_node dest (i # is) pager =
     do {
       (_, dest, pg) \<leftarrow> btree_node_move_cell source_node dest (of_nat i) (Some pager);
       pager \<leftarrow> pg;
       move_cells_unchecked source_node dest is pager
     }"

fun move_cells ::
  "btree_node \<Rightarrow> btree_node \<Rightarrow> nat list \<Rightarrow> 'f pager \<Rightarrow> (btree_e \<times> btree_node \<times> 'f pager) option" where
  "move_cells source_node dest [] pager = Some (BTREE_OK, dest, pager)"
| "move_cells source_node dest (i # is) pager =
     do {
       (result, dest, pg) \<leftarrow> btree_node_move_cell source_node dest (of_nat i) (Some pager);
       pager \<leftarrow> pg;
       if result \<noteq> BTREE_OK then Some (result, dest, pager)
       else move_cells source_node dest is pager
     }"

text \<open>
  The results are the high key of the left child, the two halves and the pager; the function
  never fails.
\<close>

definition split_node ::
  "btree_node \<Rightarrow> 'f pager \<Rightarrow> btree_node \<Rightarrow> btree_node
   \<Rightarrow> (u32 \<times> btree_node \<times> btree_node \<times> 'f pager) option" where
  "split_node source_node pager left right =
     do {
       num_keys \<leftarrow> node_num_keys source_node;
       if num_keys = 0 then Some (0, left, right, pager)
       else
         (let first_half = unat ((num_keys + 1) div 2) in do {
            k \<leftarrow> key_at source_node (of_nat first_half - 1);
            (left, pager) \<leftarrow> move_cells_unchecked source_node left [0..<first_half - 1] pager;
            is_leaf \<leftarrow> node_is_leaf source_node;
            (left, pager) \<leftarrow>
              (if \<not> is_leaf then do {
                 child \<leftarrow> read_key_cell source_node (of_nat first_half - 1);
                 (_, left) \<leftarrow> node_right_child_set left child;
                 Some (left, pager)
               } else move_cells_unchecked source_node left [first_half - 1] pager);
            (right, pager) \<leftarrow>
              move_cells_unchecked source_node right [first_half..<unat num_keys] pager;
            right \<leftarrow>
              (if \<not> is_leaf then do {
                 right_child \<leftarrow> node_right_child source_node;
                 (_, right) \<leftarrow> node_right_child_set right right_child;
                 Some right
               } else Some right);
            Some (pk_key k, left, right, pager)
          })
     }"

record split_page_as_parent =
  sap_left_child_page_id :: u32
  sap_left_child_high_key :: u32
  sap_right_child_page_id :: u32

record split_page =
  sp_left_page_id :: u32
  sp_left_page_high_key :: u32

text \<open>
  The steps between the split and the end of \<open>bta_split_node_as_parent\<close>, with their own result.
\<close>

definition split_as_parent_steps ::
  "btree_node \<Rightarrow> 'f pager \<Rightarrow> split_page_as_parent \<Rightarrow> node_view \<Rightarrow> node_view \<Rightarrow> node_view
   \<Rightarrow> (btree_e \<times> 'f pager \<times> btree_node \<times> split_page_as_parent) option" where
  "split_as_parent_steps node pager split_page parent left right =
     do {
       (result, parent) \<leftarrow> noderc_reinit_as parent (node_page_number node);
       if result \<noteq> BTREE_OK then Some (result, pager, node, split_page)
       else do {
         (left_child_high_key, left, right, pager) \<leftarrow> split_node node pager left right;
         is_leaf \<leftarrow> node_is_leaf node;
         left \<leftarrow> node_is_leaf_set left is_leaf;
         right \<leftarrow> node_is_leaf_set right is_leaf;
         (result, pager, nvs) \<leftarrow> noderc_persist_n pager [left, right];
         if result \<noteq> BTREE_OK then Some (result, pager, node, split_page)
         else
           (let left_id = page_id (node_page (nvs ! 0)); right_id = page_id (node_page (nvs ! 1)) in do {
              parent \<leftarrow> node_is_leaf_set parent False;
              (_, parent) \<leftarrow> node_right_child_set parent right_id;
              (result, parent) \<leftarrow> btree_node_insert_inline parent \<lparr>ii_mode = KLIM_END, ii_index = 0\<rparr>
                left_child_high_key
                \<lparr>ci_inline_size = 4, ci_payload = ser_write_32bit_le left_id\<rparr>;
              if result \<noteq> BTREE_OK then Some (result, pager, node, split_page)
              else do {
                (result, node) \<leftarrow> btree_node_copy node parent;
                if result \<noteq> BTREE_OK then Some (result, pager, node, split_page)
                else do {
                  (e, pager, page) \<leftarrow> pager_write_page pager (node_page node);
                  (let node = node\<lparr>node_page := page\<rparr> in
                   Some (btpage_err e, pager, node,
                     if btpage_err e \<noteq> BTREE_OK then split_page
                     else \<lparr>sap_left_child_page_id = left_id,
                           sap_left_child_high_key = left_child_high_key,
                           sap_right_child_page_id = right_id\<rparr>))
                }
              }
            })
       }
     }"

text \<open>Whatever happened, the function returns \<open>BTREE_OK\<close>.\<close>

definition bta_split_node_as_parent ::
  "btree_node \<Rightarrow> 'f pager \<Rightarrow> split_page_as_parent
   \<Rightarrow> (btree_e \<times> 'f pager \<times> btree_node \<times> split_page_as_parent) option" where
  "bta_split_node_as_parent node pager split_page =
     do {
       (result, pager, nvs) \<leftarrow> noderc_acquire_load_n pager [0, 0, 0];
       if result \<noteq> BTREE_OK then Some (BTREE_OK, pager, node, split_page)
       else do {
         (_, out) \<leftarrow> split_as_parent_steps node pager split_page (nvs ! 0) (nvs ! 1) (nvs ! 2);
         Some (BTREE_OK, out)
       }
     }"

text \<open>The right half keeps the page number of the node that is split.\<close>

definition bta_split_node ::
  "btree_node \<Rightarrow> 'f pager \<Rightarrow> split_page
   \<Rightarrow> (btree_e \<times> 'f pager \<times> btree_node \<times> split_page) option" where
  "bta_split_node node pager split_page =
     do {
       (result, pager, nvs) \<leftarrow> noderc_acquire_load_n pager [0, 0];
       if result \<noteq> BTREE_OK then Some (result, pager, node, split_page)
       else do {
         (result, right) \<leftarrow> noderc_reinit_as (nvs ! 1) (node_page_number node);
         if result \<noteq> BTREE_OK then Some (result, pager, node, split_page)
         else do {
           (left_child_high_key, left, right, pager) \<leftarrow> split_node node pager (nvs ! 0) right;
           is_leaf \<leftarrow> node_is_leaf node;
           left \<leftarrow> node_is_leaf_set left is_leaf;
           right \<leftarrow> node_is_leaf_set right is_leaf;
           (result, pager, nvs) \<leftarrow> noderc_persist_n pager [right, left];
           if result \<noteq> BTREE_OK then Some (result, pager, node, split_page)
           else do {
             (result, node) \<leftarrow> btree_node_copy node (nvs ! 0);
             if result \<noteq> BTREE_OK then Some (result, pager, node, split_page)
             else Some (BTREE_OK, pager, node,
               \<lparr>sp_left_page_id = page_id (node_page (nvs ! 1)),
                sp_left_page_high_key = left_child_high_key\<rparr>)
           }
         }
       }
     }"

definition calc_heap_used :: "btree_node \<Rightarrow> u32 option" where
  "calc_heap_used node =
     do { free_heap \<leftarrow> node_free_heap node; Some (btree_node_calc_heap_capacity node - free_heap) }"

section \<open>Rotating\<close>

datatype bta_rebalance_mode_e =
    BTA_REBALANCE_MODE_UNK
  | BTA_REBALANCE_MODE_ROTATE_RIGHT
  | BTA_REBALANCE_MODE_ROTATE_LEFT
  | BTA_REBALANCE_MODE_MERGE_RIGHT
  | BTA_REBALANCE_MODE_MERGE_LEFT

text \<open>
  Where the cursor goes before a rotation: to the sibling that gives a cell away.  The second
  component of the result is the index of the parent's key between the two nodes.
\<close>

definition rotate_to_source ::
  "'c cursor \<Rightarrow> 'f pager \<Rightarrow> bta_rebalance_mode_e
   \<Rightarrow> (btree_e \<times> child_list_index option \<times> 'c cursor \<times> 'f pager) option" where
  "rotate_to_source cursor pager mode =
     (if mode = BTA_REBALANCE_MODE_ROTATE_LEFT then do {
        (result, parent_index, cursor) \<leftarrow> cursor_parent_index cursor;
        if result \<noteq> BTREE_OK then Some (result, None, cursor, pager)
        else do {
          (result, cursor, pager) \<leftarrow> cursor_sibling cursor pager CURSOR_SIBLING_RIGHT;
          Some (result, parent_index, cursor, pager)
        }
      } else do {
        (result, cursor, pager) \<leftarrow> cursor_sibling cursor pager CURSOR_SIBLING_LEFT;
        if result \<noteq> BTREE_OK then Some (result, None, cursor, pager)
        else do {
          (result, parent_index, cursor) \<leftarrow> cursor_parent_index cursor;
          Some (result, parent_index, cursor, pager)
        }
      })"

text \<open>Between leaves the cell keeps its key, and the parent gets the last key of the left one.\<close>

definition rotate_leaf ::
  "bool \<Rightarrow> node_view \<Rightarrow> node_view \<Rightarrow> node_view \<Rightarrow> u32 \<Rightarrow> u32 \<Rightarrow> u32 \<Rightarrow> 'f pager
   \<Rightarrow> (btree_e \<times> node_view \<times> node_view \<times> node_view \<times> 'f pager) option" where
  "rotate_leaf right source dest parent parent_index source_index dest_index pager =
     do {
       key \<leftarrow> node_key_at source source_index;
       (result, dest, pg) \<leftarrow> btree_node_move_cell_ex_to source dest source_index
         \<lparr>ii_mode = KLIM_INDEX, ii_index = dest_index\<rparr> key (Some pager);
       pager \<leftarrow> pg;
       if result \<noteq> BTREE_OK then Some (result, source, dest, parent, pager)
       else do {
         (result, source, _, _) \<leftarrow> btree_node_remove source
           \<lparr>cli_mode = KLIM_INDEX, cli_index = source_index\<rparr> None 0;
         if result \<noteq> BTREE_OK then Some (result, source, dest, parent, pager)
         else
           (let left_node = (if right then source else dest) in do {
              num_keys \<leftarrow> node_num_keys left_node;
              new_last_child_key \<leftarrow> node_key_at left_node (num_keys - 1);
              (_, parent) \<leftarrow> node_key_at_set parent parent_index new_last_child_key;
              Some (BTREE_OK, source, dest, parent, pager)
            })
       }
     }"

text \<open>
  Between inner nodes the cell goes through the parent: the left node gets a new right child,
  the old one goes with the parent's key to the destination, which is written at once.
\<close>

definition rotate_inner ::
  "bool \<Rightarrow> node_view \<Rightarrow> node_view \<Rightarrow> node_view \<Rightarrow> u32 \<Rightarrow> u32 \<Rightarrow> u32 \<Rightarrow> u32 \<Rightarrow> 'f pager
   \<Rightarrow> (btree_e \<times> node_view \<times> node_view \<times> node_view \<times> 'f pager) option" where
  "rotate_inner right source dest parent parent_index parent_key source_index dest_index pager =
     do {
       (result, child) \<leftarrow> btree_node_read_inline_as_page source
         \<lparr>cli_mode = KLIM_INDEX, cli_index = source_index\<rparr>;
       if result \<noteq> BTREE_OK then Some (result, source, dest, parent, pager)
       else do {
         prev_right_child \<leftarrow> node_right_child (if right then source else dest);
         (source, dest) \<leftarrow>
           (if right then do { (_, source) \<leftarrow> node_right_child_set source child; Some (source, dest) }
            else do { (_, dest) \<leftarrow> node_right_child_set dest child; Some (source, dest) });
         (result, pager, dest) \<leftarrow> btree_node_write_ex dest pager
           \<lparr>ii_mode = KLIM_INDEX, ii_index = dest_index\<rparr> parent_key 0
           (ser_write_32bit_le prev_right_child) 4 WRITER_EX_MODE_RAW;
         if result \<noteq> BTREE_OK then Some (result, source, dest, parent, pager)
         else do {
           source_key \<leftarrow> node_key_at source source_index;
           (_, parent) \<leftarrow> node_key_at_set parent parent_index source_key;
           (result, source, _, _) \<leftarrow> btree_node_remove source
             \<lparr>cli_mode = KLIM_INDEX, cli_index = source_index\<rparr> None 0;
           Some (result, source, dest, parent, pager)
         }
       }
     }"

definition bta_rotate ::
  "'c cursor \<Rightarrow> 'f pager \<Rightarrow> bta_rebalance_mode_e \<Rightarrow> (btree_e \<times> 'c cursor \<times> 'f pager) option" where
  "bta_rotate cursor pager mode =
     do {
       require (mode = BTA_REBALANCE_MODE_ROTATE_LEFT \<or> mode = BTA_REBALANCE_MODE_ROTATE_RIGHT);
       (let right = (mode = BTA_REBALANCE_MODE_ROTATE_RIGHT) in do {
          (result, pager, nvs) \<leftarrow> noderc_acquire_load_n pager [0, 0, 0];
          if result \<noteq> BTREE_OK then Some (result, cursor, pager)
          else do {
            (result, cursor, pager, parent) \<leftarrow> cursor_read_parent cursor pager (nvs ! 2);
            if result \<noteq> BTREE_OK then Some (result, cursor, pager)
            else do {
              (result, pager, dest) \<leftarrow> noderc_reinit_read pager (nvs ! 1) (cur_page_id cursor);
              if result \<noteq> BTREE_OK then Some (result, cursor, pager)
              else do {
                (result, parent_index, cursor, pager) \<leftarrow> rotate_to_source cursor pager mode;
                if result \<noteq> BTREE_OK then Some (result, cursor, pager)
                else do {
                  idx \<leftarrow> parent_index;
                  (result, pager, source) \<leftarrow> noderc_reinit_read pager (nvs ! 0) (cur_page_id cursor);
                  if result \<noteq> BTREE_OK then Some (result, cursor, pager)
                  else do {
                    parent_key \<leftarrow> node_key_at parent (cli_index idx);
                    dest_keys \<leftarrow> node_num_keys dest;
                    source_keys \<leftarrow> node_num_keys source;
                    dest_leaf \<leftarrow> node_is_leaf dest;
                    (let dest_index = (if right then 0 else dest_keys);
                         source_index = (if right then source_keys - 1 else 0) in do {
                       (result, source, dest, parent, pager) \<leftarrow>
                         (if dest_leaf then
                            rotate_leaf right source dest parent (cli_index idx) source_index
                              dest_index pager
                          else
                            rotate_inner right source dest parent (cli_index idx) parent_key
                              source_index dest_index pager);
                       if result \<noteq> BTREE_OK then Some (result, cursor, pager)
                       else do {
                         (result, pager, _) \<leftarrow> noderc_persist_n pager [source, dest, parent];
                         Some (result, cursor, pager)
                       }
                     })
                  }
                }
              }
            }
          }
        })
     }"

section \<open>Merging\<close>

definition zero_crumb :: cursor_breadcrumb where
  "zero_crumb = \<lparr>cb_key_index = zero_index, cb_page_id = 0\<rparr>"

text \<open>
  The pages that are merged and the breadcrumb of the parent at the key between them.  The local
  breadcrumb starts out zeroed.
\<close>

definition merge_pages ::
  "'c cursor \<Rightarrow> 'f pager \<Rightarrow> bta_rebalance_mode_e
   \<Rightarrow> (btree_e \<times> u32 \<times> u32 \<times> cursor_breadcrumb \<times> 'c cursor \<times> 'f pager) option" where
  "merge_pages cursor pager mode =
     (if mode = BTA_REBALANCE_MODE_MERGE_RIGHT then
        (let left_page_id = cur_page_id cursor in do {
           (result, crumb, cursor) \<leftarrow> cursor_parent_crumb cursor;
           (let crumb = case_option zero_crumb id crumb in
            if result \<noteq> BTREE_OK then Some (result, left_page_id, 0, crumb, cursor, pager)
            else do {
              (result, cursor, pager) \<leftarrow> cursor_sibling cursor pager CURSOR_SIBLING_RIGHT;
              Some (result, left_page_id, cur_page_id cursor, crumb, cursor, pager)
            })
         })
      else
        (let right_page_id = cur_page_id cursor in do {
           (result, cursor, pager) \<leftarrow> cursor_sibling cursor pager CURSOR_SIBLING_LEFT;
           if result \<noteq> BTREE_OK then Some (result, 0, right_page_id, zero_crumb, cursor, pager)
           else do {
             (result, crumb, cursor) \<leftarrow> cursor_parent_crumb cursor;
             Some (result, cur_page_id cursor, right_page_id, case_option zero_crumb id crumb,
                   cursor, pager)
           }
         }))"

text \<open>
  The cells of the right node go behind those of the left one; between inner nodes the parent's
  key comes in between, with the left node's right child.
\<close>

definition merge_into_left ::
  "node_view \<Rightarrow> node_view \<Rightarrow> u32 \<Rightarrow> 'f pager \<Rightarrow> (btree_e \<times> node_view \<times> 'f pager) option" where
  "merge_into_left left right parent_key pager =
     do {
       is_leaf \<leftarrow> node_is_leaf left;
       num_keys \<leftarrow> node_num_keys right;
       if is_leaf then move_cells right left [0..<unat num_keys] pager
       else do {
         rchild_of_lnode \<leftarrow> node_right_child left;
         (result, pager, left) \<leftarrow> btree_node_write_ex left pager
           \<lparr>ii_mode = KLIM_END, ii_index = 0\<rparr> parent_key 0
           (ser_write_32bit_le rchild_of_lnode) 4 WRITER_EX_MODE_RAW;
         if result \<noteq> BTREE_OK then Some (result, left, pager)
         else do {
           (result, left, pager) \<leftarrow> move_cells right left [0..<unat num_keys] pager;
           if result \<noteq> BTREE_OK then Some (result, left, pager)
           else do {
             right_child \<leftarrow> node_right_child right;
             (_, left) \<leftarrow> node_right_child_set left right_child;
             Some (BTREE_OK, left, pager)
           }
         }
       }
     }"

definition bta_merge ::
  "'c cursor \<Rightarrow> 'f pager \<Rightarrow> bta_rebalance_mode_e \<Rightarrow> (btree_e \<times> 'c cursor \<times> 'f pager) option" where
  "bta_merge cursor pager mode =
     do {
       require (mode = BTA_REBALANCE_MODE_MERGE_LEFT \<or> mode = BTA_REBALANCE_MODE_MERGE_RIGHT);
       (result, left_page_id, right_page_id, crumb, cursor, pager) \<leftarrow> merge_pages cursor pager mode;
       if result \<noteq> BTREE_OK then Some (result, cursor, pager)
       else do {
         (result, pager, nvs) \<leftarrow>
           noderc_acquire_load_n pager [left_page_id, right_page_id, cb_page_id crumb];
         if result \<noteq> BTREE_OK then Some (result, cursor, pager)
         else
           (let left = nvs ! 0; right = nvs ! 1; parent = nvs ! 2 in do {
              parent_key \<leftarrow> node_key_at parent (cli_index (cb_key_index crumb));
              (result, left, pager) \<leftarrow> merge_into_left left right parent_key pager;
              if result \<noteq> BTREE_OK then Some (result, cursor, pager)
              else do {
                (result, parent, _, _) \<leftarrow> btree_node_remove parent (cb_key_index crumb) None 0;
                if result \<noteq> BTREE_OK then Some (result, cursor, pager)
                else do {
                  (result, right) \<leftarrow> btree_node_copy right left;
                  if result \<noteq> BTREE_OK then Some (result, cursor, pager)
                  else do {
                    parent_keys \<leftarrow> node_num_keys parent;
                    (result, pager, nvs) \<leftarrow> noderc_persist_n pager [left, right, parent];
                    if result \<noteq> BTREE_OK then Some (result, cursor, pager)
                    else do {
                      (e, pager, _) \<leftarrow> pager_freelist_push_page pager (node_page (nvs ! 0));
                      Some (if btpage_err e \<noteq> BTREE_OK then btpage_err e
                            else if parent_keys < btree_underflow_lim (cur_tree cursor)
                            then BTREE_ERR_PARENT_DEFICIENT
                            else BTREE_OK,
                            cursor, pager)
                    }
                  }
                }
              }
            })
       }
     }"

section \<open>Choosing what to do\<close>

text \<open>
  Two breadcrumbs are popped before \<open>cursor_sibling\<close>, which pops two more: what is looked at is a
  sibling two levels above the cursor.
\<close>

definition bta_check_sibling ::
  "'c cursor \<Rightarrow> 'f pager \<Rightarrow> cursor_sibling_e \<Rightarrow> (btree_e \<times> 'c cursor \<times> 'f pager) option" where
  "bta_check_sibling cursor pager sibling =
     (let (result, crumbs, cursor) = cursor_pop_n cursor 2 in
      if result \<noteq> BTREE_OK then
        Some (if result = BTREE_ERR_CURSOR_NO_SIBLING then BTREE_OK else result, cursor, pager)
      else do {
        (check_result, cursor, pager) \<leftarrow>
          do {
            (result, cursor, pager) \<leftarrow> cursor_sibling cursor pager sibling;
            if result \<noteq> BTREE_OK then Some (result, cursor, pager)
            else do {
              (result, pager, nv) \<leftarrow> noderc_acquire_load pager (cur_page_id cursor);
              if result \<noteq> BTREE_OK then Some (result, cursor, pager)
              else do {
                num_keys \<leftarrow> node_num_keys nv;
                Some (if num_keys \<le> btree_underflow_lim (cur_tree cursor)
                      then BTREE_ERR_NODE_NOT_ENOUGH_SPACE else BTREE_OK,
                      cursor, pager)
              }
            }
          };
        (let (result, cursor) = cursor_restore cursor crumbs in
         Some (if result = BTREE_OK \<or> result = BTREE_ERR_CURSOR_NO_SIBLING then check_result else result,
               cursor, pager))
      })"

text \<open>The mode is \<open>None\<close> where \<open>*out_mode\<close> is left as it was.\<close>

definition bta_decide_rebalance_mode ::
  "'c cursor \<Rightarrow> 'f pager \<Rightarrow> (btree_e \<times> bta_rebalance_mode_e option \<times> 'c cursor \<times> 'f pager) option" where
  "bta_decide_rebalance_mode cursor pager =
     do {
       (right_result, cursor, pager) \<leftarrow> bta_check_sibling cursor pager CURSOR_SIBLING_RIGHT;
       if right_result = BTREE_OK
       then Some (right_result, Some BTA_REBALANCE_MODE_ROTATE_LEFT, cursor, pager)
       else if right_result \<noteq> BTREE_ERR_CURSOR_NO_SIBLING \<and>
               right_result \<noteq> BTREE_ERR_NODE_NOT_ENOUGH_SPACE
       then Some (right_result, None, cursor, pager)
       else do {
         (result, cursor, pager) \<leftarrow> bta_check_sibling cursor pager CURSOR_SIBLING_LEFT;
         if result = BTREE_OK
         then Some (result, Some BTA_REBALANCE_MODE_ROTATE_RIGHT, cursor, pager)
         else if result \<noteq> BTREE_ERR_CURSOR_NO_SIBLING \<and> result \<noteq> BTREE_ERR_NODE_NOT_ENOUGH_SPACE
         then Some (result, None, cursor, pager)
         else do {
           require (result \<noteq> BTREE_ERR_CURSOR_NO_SIBLING \<or>
                    right_result \<noteq> BTREE_ERR_CURSOR_NO_SIBLING);
           Some (result,
                 Some (if result \<noteq> BTREE_ERR_CURSOR_NO_SIBLING then BTA_REBALANCE_MODE_MERGE_LEFT
                       else BTA_REBALANCE_MODE_MERGE_RIGHT),
                 cursor, pager)
         }
       }
     }"

section \<open>The root\<close>

text \<open>
  The root that has lost its last key and has one child left.  In neither branch is the root
  itself written, except by \<open>btree_node_write_ex\<close>.
\<close>

definition root_new_child ::
  "node_view \<Rightarrow> node_view \<Rightarrow> 'f pager \<Rightarrow> (btree_e \<times> 'f pager) option" where
  "root_new_child root right pager =
     do {
       (result, empty_nv) \<leftarrow> noderc_acquire pager;
       if result \<noteq> BTREE_OK then Some (result, pager)
       else do {
         empty_nv \<leftarrow> node_is_leaf_set empty_nv True;
         (result, pager, nvs) \<leftarrow> noderc_persist_n pager [empty_nv];
         if result \<noteq> BTREE_OK then Some (result, pager)
         else
           (let empty_id = page_id (node_page (nvs ! 0)) in do {
              require (empty_id \<noteq> 0);
              (_, root) \<leftarrow> node_right_child_set root empty_id;
              num_keys \<leftarrow> node_num_keys right;
              high_key \<leftarrow> node_key_at right (num_keys - 1);
              (result, pager, _) \<leftarrow> btree_node_write_ex root pager
                \<lparr>ii_mode = KLIM_END, ii_index = 0\<rparr> high_key 0
                (ser_write_32bit_le (node_page_number right)) 4 WRITER_EX_MODE_RAW;
              Some (result, pager)
            })
       }
     }"

definition root_shrink ::
  "node_view \<Rightarrow> node_view \<Rightarrow> 'f pager \<Rightarrow> (btree_e \<times> 'f pager) option" where
  "root_shrink root right pager =
     do {
       root \<leftarrow> node_is_leaf_set root True;
       (result, root) \<leftarrow> btree_node_reset root;
       if result \<noteq> BTREE_OK then Some (result, pager)
       else do {
         num_keys \<leftarrow> node_num_keys right;
         (result, root, pager) \<leftarrow> move_cells right root [0..<unat num_keys] pager;
         if result \<noteq> BTREE_OK then Some (result, pager)
         else do {
           (e, pager, _) \<leftarrow> pager_freelist_push_page pager (node_page right);
           Some (btpage_err e, pager)
         }
       }
     }"

definition bta_rebalance_root ::
  "'c cursor \<Rightarrow> 'f pager \<Rightarrow> (btree_e \<times> 'f pager) option" where
  "bta_rebalance_root cursor pager =
     do {
       (result, pager, root) \<leftarrow> noderc_acquire_load pager (tr_root_page_id (cur_tree cursor));
       if result \<noteq> BTREE_OK then Some (result, pager)
       else do {
         is_leaf \<leftarrow> node_is_leaf root;
         require (\<not> is_leaf);
         num_keys \<leftarrow> node_num_keys root;
         if num_keys > 0 then Some (BTREE_OK, pager)
         else do {
           right_child \<leftarrow> node_right_child root;
           (result, pager, right) \<leftarrow> noderc_acquire_load pager right_child;
           if result \<noteq> BTREE_OK then Some (result, pager)
           else do {
             is_leaf \<leftarrow> node_is_leaf right;
             require is_leaf;
             used \<leftarrow> calc_heap_used right;
             if used > btree_node_calc_heap_capacity root
             then root_new_child root right pager
             else root_shrink root right pager
           }
         }
       }
     }"

section \<open>The loop up the tree\<close>

text \<open>No step leaves the cursor deeper than it was.\<close>

abbreviation depth :: "'c cursor \<Rightarrow> nat" where
  "depth cursor \<equiv> length (cur_breadcrumbs cursor)"

lemma cursor_push_depth: "cursor_push c = (e, c') \<Longrightarrow> depth c' \<le> Suc (depth c)"
  by (auto simp: cursor_push_def split: if_splits)

lemma cursor_push_crumb_depth: "cursor_push_crumb c cr = (e, c') \<Longrightarrow> depth c' \<le> Suc (depth c)"
  by (auto simp: cursor_push_crumb_def split: if_splits)

lemma cursor_pop_Some: "cursor_pop c = (e, Some cr, c') \<Longrightarrow> e = BTREE_OK \<and> Suc (depth c') = depth c"
  by (cases "cur_breadcrumbs c" rule: rev_cases)
    (auto simp: cursor_pop_def Let_def split: if_splits)

lemma cursor_pop_None: "cursor_pop c = (e, None, c') \<Longrightarrow> e \<noteq> BTREE_OK \<and> c' = c"
  by (auto simp: cursor_pop_def Let_def split: if_splits)

lemma cursor_pop_n_depth: "cursor_pop_n c n = (e, crs, c') \<Longrightarrow> depth c' + length crs = depth c"
proof (induction n arbitrary: c e crs c')
  case (Suc n)
  obtain e1 cr c1 where pop: "cursor_pop c = (e1, cr, c1)" by (cases "cursor_pop c")
  show ?case
  proof (cases cr)
    case None
    with Suc.prems pop cursor_pop_None [of c e1 c1] show ?thesis by auto
  next
    case (Some x)
    obtain e2 crs2 c2 where rest: "cursor_pop_n c1 n = (e2, crs2, c2)" by (cases "cursor_pop_n c1 n")
    from Suc.IH [OF rest] cursor_pop_Some [of c e1 x c1] pop Some rest Suc.prems
    show ?thesis by auto
  qed
qed simp

lemma push_crumbs_depth: "push_crumbs c crs = (e, c') \<Longrightarrow> depth c' \<le> depth c + length crs"
proof (induction crs arbitrary: c e c')
  case (Cons cr crs)
  obtain e1 c1 where push: "cursor_push_crumb c cr = (e1, c1)" by (cases "cursor_push_crumb c cr")
  note d = cursor_push_crumb_depth [OF push]
  show ?case
  proof (cases "e1 = BTREE_OK")
    case True
    with Cons.prems push have "push_crumbs c1 crs = (e, c')" by simp
    from Cons.IH [OF this] d show ?thesis by simp
  next
    case False
    with Cons.prems push d show ?thesis by simp
  qed
qed simp

lemma cursor_restore_depth: "cursor_restore c crs = (e, c') \<Longrightarrow> depth c' \<le> depth c + length crs"
  using push_crumbs_depth [of c "rev crs"] by (simp add: cursor_restore_def)

lemma cursor_parent_crumb_depth:
  "cursor_parent_crumb c = Some (e, cr, c') \<Longrightarrow> depth c' \<le> depth c"
  by (auto simp: cursor_parent_crumb_def Let_def split: prod.splits option.splits
      dest!: cursor_pop_Some cursor_push_crumb_depth)

lemma cursor_parent_index_depth:
  "cursor_parent_index c = Some (e, i, c') \<Longrightarrow> depth c' \<le> depth c"
  by (auto simp: cursor_parent_index_def bind_option_Some_iff split: if_splits
      dest!: cursor_parent_crumb_depth)

lemma cursor_read_parent_depth:
  "cursor_read_parent c pg nv = Some (e, c', pg', nv') \<Longrightarrow> depth c' \<le> depth c"
  by (auto simp: cursor_read_parent_def bind_option_Some_iff Let_def split: prod.splits option.splits if_splits
      dest!: cursor_pop_Some cursor_pop_None cursor_push_crumb_depth)

lemma enter_child_depth:
  assumes "enter_child c nv pid idx = Some (e, c')"
  shows "depth c' \<le> Suc (Suc (depth c))"
proof -
  obtain e1 c1 where push: "cursor_push (c\<lparr>cur_key_index := idx, cur_page_id := pid\<rparr>) = (e1, c1)"
    by (cases "cursor_push (c\<lparr>cur_key_index := idx, cur_page_id := pid\<rparr>)")
  from cursor_push_depth [OF push] have d1: "depth c1 \<le> Suc (depth c)" by simp
  show ?thesis
  proof (cases "e1 = BTREE_OK")
    case True
    with assms push obtain e2 c2 where "read_cell_page c1 nv (cli_index idx) = Some (e2, c2)"
      "c' = c2 \<or> (e, c') = cursor_push (c2\<lparr>cur_key_index := \<lparr>cli_mode = KLIM_INDEX, cli_index = 0\<rparr>\<rparr>)"
      by (auto simp: enter_child_def bind_option_Some_iff split: if_splits)
    with d1 show ?thesis
      by (auto dest!: read_cell_page_crumbs dest: cursor_push_depth [OF sym])
  next
    case False
    with assms push d1 show ?thesis by (simp add: enter_child_def)
  qed
qed

lemma cursor_pop_n_OK: "cursor_pop_n c n = (BTREE_OK, crs, c') \<Longrightarrow> length crs = n"
proof (induction n arbitrary: c crs c')
  case (Suc n)
  obtain e1 cr c1 where pop: "cursor_pop c = (e1, cr, c1)" by (cases "cursor_pop c")
  show ?case
  proof (cases cr)
    case None
    with Suc.prems pop cursor_pop_None [of c e1 c1] show ?thesis by auto
  next
    case (Some x)
    obtain e2 crs2 c2 where rest: "cursor_pop_n c1 n = (e2, crs2, c2)" by (cases "cursor_pop_n c1 n")
    with Suc pop Some show ?thesis by auto
  qed
qed simp

lemma cursor_sibling_depth:
  assumes "cursor_sibling c pg s = Some (e, c', pg')"
  shows "depth c' \<le> depth c"
proof (cases "depth c < 2")
  case True
  with assms show ?thesis by (simp add: cursor_sibling_def)
next
  case deep: False
  obtain e1 crs c1 where pop: "cursor_pop_n c 2 = (e1, crs, c1)" by (cases "cursor_pop_n c 2")
  note d1 = cursor_pop_n_depth [OF pop]
  show ?thesis
  proof (cases "e1 = BTREE_OK")
    case True
    then have len: "length crs = 2" using cursor_pop_n_OK [of c 2 crs c1] pop by simp
    from assms deep pop True consider "c' = c1"
      | nv idx where "enter_child c1 nv (cb_page_id (crs ! 1)) idx = Some (e, c')"
      | r where "cursor_restore c1 crs = (r, c')"
      by (auto simp: cursor_sibling_def Let_def bind_option_Some_iff
          split: prod.splits if_splits option.splits)
    then show ?thesis
      using enter_child_depth cursor_restore_depth d1 len by cases force+
  next
    case False
    with assms pop deep d1 show ?thesis by (simp add: cursor_sibling_def)
  qed
qed

lemma merge_pages_depth:
  "merge_pages c pg mode = Some (e, l, r, crumb, c', pg') \<Longrightarrow> depth c' \<le> depth c"
  by (auto simp: merge_pages_def Let_def bind_option_Some_iff split: if_splits
      dest!: cursor_sibling_depth cursor_parent_crumb_depth)

lemma bta_merge_depth:
  assumes "bta_merge c pg mode = Some (e, c', pg')"
  shows "depth c' \<le> depth c"
proof -
  have "yields (\<lambda>(e, c', pg'). depth c' \<le> depth c) (bta_merge c pg mode)"
    unfolding bta_merge_def
    by (intro yields_intro; hypsubst?) (auto dest!: merge_pages_depth)
  from yieldsD [OF this assms] show ?thesis by simp
qed

lemma bta_check_sibling_depth:
  assumes "bta_check_sibling c pg s = Some (e, c', pg')"
  shows "depth c' \<le> depth c"
proof -
  have inner: "yields (\<lambda>(r, c2, pg2). depth c2 \<le> depth c1)
      (do {
         (result, cursor, pager) \<leftarrow> cursor_sibling c1 pg s;
         if result \<noteq> BTREE_OK then Some (result, cursor, pager)
         else do {
           (result, pager, nv) \<leftarrow> noderc_acquire_load pager (cur_page_id cursor);
           if result \<noteq> BTREE_OK then Some (result, cursor, pager)
           else do {
             num_keys \<leftarrow> node_num_keys nv;
             Some (if num_keys \<le> btree_underflow_lim (cur_tree cursor)
                   then BTREE_ERR_NODE_NOT_ENOUGH_SPACE else BTREE_OK, cursor, pager)
           }
         }
       })" for c1 :: "'a cursor"
    by (intro yields_intro; hypsubst?) (auto dest!: cursor_sibling_depth)
  have "yields (\<lambda>(e, c', pg'). depth c' \<le> depth c) (bta_check_sibling c pg s)"
    unfolding bta_check_sibling_def
    apply (intro yields_intro; hypsubst?)
     apply (auto dest!: cursor_pop_n_depth) [1]
    using inner by (fastforce dest!: cursor_pop_n_depth cursor_restore_depth yieldsD)
  from yieldsD [OF this assms] show ?thesis by simp
qed

lemma bta_decide_rebalance_mode_depth:
  assumes "bta_decide_rebalance_mode c pg = Some (e, m, c', pg')"
  shows "depth c' \<le> depth c"
proof -
  have "yields (\<lambda>(e, m, c', pg'). depth c' \<le> depth c) (bta_decide_rebalance_mode c pg)"
    unfolding bta_decide_rebalance_mode_def
    by (intro yields_intro; hypsubst?) (force dest: bta_check_sibling_depth)+
  from yieldsD [OF this assms] show ?thesis by simp
qed

lemma rotate_to_source_depth:
  "rotate_to_source c pg mode = Some (e, i, c', pg') \<Longrightarrow> depth c' \<le> depth c"
  by (auto simp: rotate_to_source_def bind_option_Some_iff split: if_splits
      dest!: cursor_sibling_depth cursor_parent_index_depth)

lemma bta_rotate_depth:
  assumes "bta_rotate c pg mode = Some (e, c', pg')"
  shows "depth c' \<le> depth c"
proof -
  have "yields (\<lambda>(e, c', pg'). depth c' \<le> depth c) (bta_rotate c pg mode)"
    unfolding bta_rotate_def
    by (intro yields_intro; hypsubst?) (force dest: cursor_read_parent_depth rotate_to_source_depth)+
  from yieldsD [OF this assms] show ?thesis by simp
qed

definition rebalance_by_mode ::
  "'c cursor \<Rightarrow> 'f pager \<Rightarrow> bta_rebalance_mode_e \<Rightarrow> (btree_e \<times> 'c cursor \<times> 'f pager) option" where
  "rebalance_by_mode cursor pager mode =
     (case mode of
        BTA_REBALANCE_MODE_UNK \<Rightarrow> Some (BTREE_ERR_UNK, cursor, pager)
      | BTA_REBALANCE_MODE_ROTATE_LEFT \<Rightarrow> bta_rotate cursor pager mode
      | BTA_REBALANCE_MODE_ROTATE_RIGHT \<Rightarrow> bta_rotate cursor pager mode
      | BTA_REBALANCE_MODE_MERGE_LEFT \<Rightarrow> bta_merge cursor pager mode
      | BTA_REBALANCE_MODE_MERGE_RIGHT \<Rightarrow> bta_merge cursor pager mode)"

lemma rebalance_by_mode_depth:
  "rebalance_by_mode c pg mode = Some (e, c', pg') \<Longrightarrow> depth c' \<le> depth c"
  by (cases mode) (auto simp: rebalance_by_mode_def dest: bta_rotate_depth bta_merge_depth)

text \<open>
  One round: decide, rotate or merge, and go up if the parent has become deficient.  \<open>mode\<close> keeps
  its value from the round before where nothing is decided.
\<close>

definition rebalance_round ::
  "'c cursor \<Rightarrow> 'f pager \<Rightarrow> bta_rebalance_mode_e
   \<Rightarrow> (btree_e \<times> 'c cursor \<times> 'f pager, bta_rebalance_mode_e \<times> 'c cursor \<times> 'f pager) round option" where
  "rebalance_round cursor pager mode =
     do {
       (result, decided, cursor, pager) \<leftarrow> bta_decide_rebalance_mode cursor pager;
       (let mode = case_option mode id decided in
        if result = BTREE_ERR_CURSOR_NO_PARENT then do {
          (result, pager) \<leftarrow> bta_rebalance_root cursor pager;
          Some (Stop (result, cursor, pager))
        } else do {
          (result, cursor, pager) \<leftarrow> rebalance_by_mode cursor pager mode;
          if result \<noteq> BTREE_ERR_PARENT_DEFICIENT then Some (Stop (result, cursor, pager))
          else
            (let (popped, _, cursor) = cursor_pop cursor in
             Some (if popped \<noteq> BTREE_OK then Stop (result, cursor, pager)
                   else Go_on (mode, cursor, pager)))
        })
     }"

lemma rebalance_round_shrinks:
  assumes "rebalance_round c pg mode = Some (Go_on (mode', c', pg'))"
  shows "depth c' < depth c"
proof -
  have pop: "Suc (depth c2) = depth c1" if "cursor_pop c1 = (BTREE_OK, cr, c2)" for c1 c2 :: "'a cursor" and cr
    using that cursor_pop_Some [of c1 BTREE_OK _ c2] cursor_pop_None [of c1 BTREE_OK c2] by (cases cr) auto
  have "yields (\<lambda>r. case r of Go_on (m, c', pg') \<Rightarrow> depth c' < depth c | Stop _ \<Rightarrow> True)
      (rebalance_round c pg mode)"
    unfolding rebalance_round_def
    by (intro yields_intro; hypsubst?)
      (auto dest!: rebalance_by_mode_depth bta_decide_rebalance_mode_depth pop)
  from yieldsD [OF this assms] show ?thesis by simp
qed

function rebalance_loop ::
  "'c cursor \<Rightarrow> 'f pager \<Rightarrow> bta_rebalance_mode_e \<Rightarrow> (btree_e \<times> 'c cursor \<times> 'f pager) option" where
  "rebalance_loop cursor pager mode =
     do {
       r \<leftarrow> rebalance_round cursor pager mode;
       (case r of
          Stop out \<Rightarrow> Some out
        | Go_on (mode, cursor, pager) \<Rightarrow> rebalance_loop cursor pager mode)
     }"
  by pat_completeness auto
termination
  by (relation "measure (\<lambda>(c, pg, mode). depth c)") (auto dest!: rebalance_round_shrinks)

declare rebalance_loop.simps [simp del]

definition bta_rebalance :: "'c cursor \<Rightarrow> 'f pager \<Rightarrow> (btree_e \<times> 'c cursor \<times> 'f pager) option" where
  "bta_rebalance cursor pager = rebalance_loop cursor pager BTA_REBALANCE_MODE_UNK"

end
