(* ===== verification/IBTreeAlg.thy ===== *)
theory IBTreeAlg
  imports BTreeAlg
begin

text \<open>
  \<open>ibtree_alg.c\<close>: the same for index trees.  Here the key field of a cell is the page of its left
  child, a split moves the middle cell up, and the payloads are the keys.
\<close>

section \<open>Splitting\<close>

text \<open>
  Without a holding node the middle cell stays in the source.  The results are the index of
  that cell, the two halves, the holding node and the pager.
\<close>

definition isplit_node ::
  "btree_node \<Rightarrow> 'f pager \<Rightarrow> btree_node \<Rightarrow> btree_node \<Rightarrow> btree_node option
   \<Rightarrow> (u32 \<times> btree_node \<times> btree_node \<times> btree_node option \<times> 'f pager) option" where
  "isplit_node source_node pager left right holding_node =
     do {
       num_keys \<leftarrow> node_num_keys source_node;
       if num_keys = 0 then Some (0, left, right, holding_node, pager)
       else
         (let first_half = unat ((num_keys + 1) div 2) in do {
            (left, pager) \<leftarrow> move_cells_unchecked source_node left [0..<first_half - 1] pager;
            (left, holding_node, pager) \<leftarrow>
              (if first_half > 0 then do {
                 (holding_node, pager) \<leftarrow>
                   (case holding_node of
                      None \<Rightarrow> Some (None, pager)
                    | Some h \<Rightarrow> do {
                        (h, pager) \<leftarrow> move_cells_unchecked source_node h [first_half - 1] pager;
                        Some (Some h, pager)
                      });
                 key \<leftarrow> node_key_at source_node (of_nat first_half - 1);
                 (_, left) \<leftarrow> node_right_child_set left key;
                 Some (left, holding_node, pager)
               } else Some (left, holding_node, pager));
            (right, pager) \<leftarrow>
              move_cells_unchecked source_node right [first_half..<unat num_keys] pager;
            is_leaf \<leftarrow> node_is_leaf source_node;
            right \<leftarrow>
              (if \<not> is_leaf then do {
                 right_child \<leftarrow> node_right_child source_node;
                 (_, right) \<leftarrow> node_right_child_set right right_child;
                 Some right
               } else Some right);
            Some (of_nat first_half - 1, left, right, holding_node, pager)
          })
     }"

text \<open>
  \<open>split_page\<close> is \<open>None\<close> as long as the caller's record is uninitialised; again the function
  itself returns \<open>BTREE_OK\<close> in any case.
\<close>

definition isplit_as_parent_steps ::
  "btree_node \<Rightarrow> 'f pager \<Rightarrow> node_view \<Rightarrow> node_view \<Rightarrow> node_view
   \<Rightarrow> (btree_e \<times> 'f pager \<times> btree_node \<times> split_page_as_parent option) option" where
  "isplit_as_parent_steps node pager parent left right =
     do {
       (result, parent) \<leftarrow> noderc_reinit_as parent (node_page_number node);
       if result \<noteq> BTREE_OK then Some (result, pager, node, None)
       else do {
         (left_child_index, left, right, _, pager) \<leftarrow> isplit_node node pager left right None;
         is_leaf \<leftarrow> node_is_leaf node;
         left \<leftarrow> node_is_leaf_set left is_leaf;
         right \<leftarrow> node_is_leaf_set right is_leaf;
         (result, pager, nvs) \<leftarrow> noderc_persist_n pager [left, right];
         if result \<noteq> BTREE_OK then Some (result, pager, node, None)
         else
           (let left_id = page_id (node_page (nvs ! 0)); right_id = page_id (node_page (nvs ! 1)) in do {
              (result, parent, pg) \<leftarrow>
                btree_node_move_cell_ex node parent left_child_index left_id (Some pager);
              pager \<leftarrow> pg;
              if result \<noteq> BTREE_OK then Some (result, pager, node, None)
              else do {
                parent \<leftarrow> node_is_leaf_set parent False;
                (_, parent) \<leftarrow> node_right_child_set parent right_id;
                (result, node) \<leftarrow> btree_node_copy node parent;
                if result \<noteq> BTREE_OK then Some (result, pager, node, None)
                else do {
                  (e, pager, page) \<leftarrow> pager_write_page pager (node_page node);
                  (let node = node\<lparr>node_page := page\<rparr> in
                   Some (btpage_err e, pager, node,
                     if btpage_err e \<noteq> BTREE_OK then None
                     else Some \<lparr>sap_left_child_page_id = left_id,
                                sap_left_child_high_key = left_child_index,
                                sap_right_child_page_id = right_id\<rparr>))
                }
              }
            })
       }
     }"

definition ibta_split_node_as_parent ::
  "btree_node \<Rightarrow> 'f pager \<Rightarrow> (btree_e \<times> 'f pager \<times> btree_node \<times> split_page_as_parent option) option"
  where
  "ibta_split_node_as_parent node pager =
     do {
       (result, pager, nvs) \<leftarrow> noderc_acquire_load_n pager [0, 0, 0];
       if result \<noteq> BTREE_OK then Some (BTREE_OK, pager, node, None)
       else do {
         (_, out) \<leftarrow> isplit_as_parent_steps node pager (nvs ! 0) (nvs ! 1) (nvs ! 2);
         Some (BTREE_OK, out)
       }
     }"

definition ibta_split_node ::
  "btree_node \<Rightarrow> 'f pager \<Rightarrow> btree_node
   \<Rightarrow> (btree_e \<times> 'f pager \<times> btree_node \<times> btree_node \<times> split_page option) option" where
  "ibta_split_node node pager holding_node =
     do {
       (result, pager, nvs) \<leftarrow> noderc_acquire_load_n pager [0, 0];
       if result \<noteq> BTREE_OK then Some (result, pager, node, holding_node, None)
       else do {
         (result, right) \<leftarrow> noderc_reinit_as (nvs ! 1) (node_page_number node);
         if result \<noteq> BTREE_OK then Some (result, pager, node, holding_node, None)
         else do {
           (left_child_index, left, right, holding, pager) \<leftarrow>
             isplit_node node pager (nvs ! 0) right (Some holding_node);
           holding_node \<leftarrow> holding;
           is_leaf \<leftarrow> node_is_leaf node;
           left \<leftarrow> node_is_leaf_set left is_leaf;
           right \<leftarrow> node_is_leaf_set right is_leaf;
           (result, pager, nvs) \<leftarrow> noderc_persist_n pager [right, left];
           if result \<noteq> BTREE_OK then Some (result, pager, node, holding_node, None)
           else do {
             (result, node) \<leftarrow> btree_node_copy node (nvs ! 0);
             if result \<noteq> BTREE_OK then Some (result, pager, node, holding_node, None)
             else Some (BTREE_OK, pager, node, holding_node,
               Some \<lparr>sp_left_page_id = page_id (node_page (nvs ! 1)),
                     sp_left_page_high_key = left_child_index\<rparr>)
           }
         }
       }
     }"

section \<open>Inserting at the cursor\<close>

definition from_cli :: "child_list_index \<Rightarrow> insertion_index" where
  "from_cli cli =
     \<lparr>ii_mode = (if cli_mode cli = KLIM_RIGHT_CHILD then KLIM_END else cli_mode cli),
      ii_index = cli_index cli\<rparr>"

text \<open>Whether a cell goes to the left half of a node that is split.\<close>

definition left_insertion :: "insertion_index \<Rightarrow> u32 \<Rightarrow> bool" where
  "left_insertion index num_keys \<longleftrightarrow>
     ii_mode index = KLIM_INDEX \<and> ii_index index < (num_keys + 1) div 2"

record ibta_insert_at =
  ins_data :: bytes
  ins_data_size :: u32
  ins_flags :: u32
  ins_key :: u32
  ins_mode :: writer_ex_mode_e

definition ibta_insert_at_init_ex ::
  "bytes \<Rightarrow> u32 \<Rightarrow> u32 \<Rightarrow> u32 \<Rightarrow> writer_ex_mode_e \<Rightarrow> ibta_insert_at" where
  "ibta_insert_at_init_ex data data_size flags key mode =
     \<lparr>ins_data = data, ins_data_size = data_size, ins_flags = flags, ins_key = key, ins_mode = mode\<rparr>"

definition ibta_insert_at_init :: "bytes \<Rightarrow> u32 \<Rightarrow> ibta_insert_at" where
  "ibta_insert_at_init data data_size =
     ibta_insert_at_init_ex data data_size 0 0 WRITER_EX_MODE_RAW"

definition write_insert ::
  "btree_node \<Rightarrow> 'f pager \<Rightarrow> insertion_index \<Rightarrow> ibta_insert_at
   \<Rightarrow> (btree_e \<times> 'f pager \<times> btree_node) option" where
  "write_insert node pager index ins =
     btree_node_write_ex node pager index (ins_key ins) (ins_flags ins) (ins_data ins)
       (ins_data_size ins) (ins_mode ins)"

text \<open>The cell goes to one of the two new children of the root.\<close>

definition iinsert_into_split_root ::
  "'f pager \<Rightarrow> node_view \<Rightarrow> insertion_index \<Rightarrow> u32 \<Rightarrow> ibta_insert_at \<Rightarrow> (btree_e \<times> 'f pager) option"
  where
  "iinsert_into_split_root pager nv index num_keys ins =
     do {
       (result, pager, nv, split) \<leftarrow> ibta_split_node_as_parent nv pager;
       if result \<noteq> BTREE_OK then Some (result, pager)
       else do {
         split \<leftarrow> split;
         (result, pager, nv) \<leftarrow> noderc_reinit_read pager nv
           (if left_insertion index num_keys then sap_left_child_page_id split
            else sap_right_child_page_id split);
         if result \<noteq> BTREE_OK then Some (result, pager)
         else do {
           (result, pager, _) \<leftarrow> write_insert nv pager
             (if left_insertion index num_keys then index
              else index\<lparr>ii_index := ii_index index - (num_keys + 1) div 2\<rparr>) ins;
           Some (result, pager)
         }
       }
     }"

text \<open>
  An inner node or leaf is split; the middle cell is left in \<open>holding\<close> and becomes what the next
  round inserts into the parent.
\<close>

definition iinsert_split ::
  "'c cursor \<Rightarrow> 'f pager \<Rightarrow> node_view \<Rightarrow> node_view \<Rightarrow> insertion_index \<Rightarrow> u32
   \<Rightarrow> ibta_insert_at
   \<Rightarrow> (btree_e \<times> 'f pager,
       'c cursor \<times> 'f pager \<times> node_view \<times> node_view \<times> ibta_insert_at) round option" where
  "iinsert_split cursor pager nv holding index num_keys ins =
     do {
       (result, holding) \<leftarrow> btree_node_reset holding;
       if result \<noteq> BTREE_OK then Some (Stop (result, pager))
       else do {
         (result, pager, nv, holding, split) \<leftarrow> ibta_split_node nv pager holding;
         if result \<noteq> BTREE_OK then Some (Stop (result, pager))
         else do {
           split \<leftarrow> split;
           (result, pager, nv) \<leftarrow>
             (if left_insertion index num_keys
              then noderc_reinit_read pager nv (sp_left_page_id split)
              else Some (BTREE_OK, pager, nv));
           if result \<noteq> BTREE_OK then Some (Stop (result, pager))
           else do {
             (result, pager, nv) \<leftarrow> write_insert nv pager
               (if left_insertion index num_keys then index
                else index\<lparr>ii_index := ii_index index - (num_keys + 1) div 2\<rparr>) ins;
             if result \<noteq> BTREE_OK then Some (Stop (result, pager))
             else
               (case cursor_pop cursor of
                  (result, None, _) \<Rightarrow> Some (Stop (result, pager))
                | (_, Some crumb, cursor) \<Rightarrow>
                    (let (result, cursor) = cursor_push_crumb cursor
                       (crumb\<lparr>cb_key_index := (cb_key_index crumb)\<lparr>cli_mode := KLIM_INDEX\<rparr>\<rparr>) in
                     if result \<noteq> BTREE_OK then Some (Stop (result, pager))
                     else do {
                       flags \<leftarrow> node_flags_at holding 0;
                       payload \<leftarrow> btu_get_cell_buffer holding 0;
                       payload_size \<leftarrow> btu_get_cell_buffer_size holding 0;
                       Some (Go_on (cursor, pager, nv, holding,
                         ibta_insert_at_init_ex (drop payload (node_mem holding)) payload_size flags
                           (sp_left_page_id split) WRITER_EX_MODE_CELL_MOVE))
                     }))
           }
         }
       }
     }"

text \<open>One round of the loop; the two holding nodes change places behind a split.\<close>

definition iinsert_round ::
  "'c cursor \<Rightarrow> 'f pager \<Rightarrow> node_view \<Rightarrow> node_view \<Rightarrow> ibta_insert_at
   \<Rightarrow> (btree_e \<times> 'f pager,
       'c cursor \<times> 'f pager \<times> node_view \<times> node_view \<times> ibta_insert_at) round option" where
  "iinsert_round cursor pager nv holding ins =
     (case cursor_pop cursor of
        (result, None, _) \<Rightarrow> Some (Stop (result, pager))
      | (_, Some crumb, cursor) \<Rightarrow> do {
          (result, pager, nv) \<leftarrow> noderc_reinit_read pager nv (cb_page_id crumb);
          if result \<noteq> BTREE_OK then Some (Stop (result, pager))
          else
            (let index = from_cli (cb_key_index crumb) in do {
               (result, pager, nv) \<leftarrow> write_insert nv pager index ins;
               if result \<noteq> BTREE_ERR_NODE_NOT_ENOUGH_SPACE then Some (Stop (result, pager))
               else do {
                 num_keys \<leftarrow> node_num_keys nv;
                 if page_id (node_page nv) = tr_root_page_id (cur_tree cursor) then do {
                   out \<leftarrow> iinsert_into_split_root pager nv index num_keys ins;
                   Some (Stop out)
                 } else iinsert_split cursor pager nv holding index num_keys ins
               }
             })
        })"

lemma iinsert_split_depth:
  assumes "iinsert_split c pg nv h i n ins = Some (Go_on (c', out))"
  shows "depth c' \<le> depth c"
proof -
  have "yields (\<lambda>r. case r of Go_on (c', out) \<Rightarrow> depth c' \<le> depth c | Stop _ \<Rightarrow> True)
      (iinsert_split c pg nv h i n ins)"
    unfolding iinsert_split_def
    by (intro yields_intro; hypsubst?) (auto dest!: cursor_pop_Some cursor_push_crumb_depth)
  from yieldsD [OF this assms] show ?thesis by (cases out) simp
qed

lemma iinsert_split_yields:
  "Suc (depth c1) = n \<Longrightarrow>
   yields (\<lambda>r. case r of Go_on (c', out) \<Rightarrow> depth c' < n | Stop _ \<Rightarrow> True)
     (iinsert_split c1 pg nv h i k ins)"
  by (auto simp: yields_def split: round.splits dest!: iinsert_split_depth)

lemma iinsert_round_shrinks:
  assumes "iinsert_round c pg nv h ins = Some (Go_on (c', out))"
  shows "depth c' < depth c"
proof -
  have "yields (\<lambda>r. case r of Go_on (c', out) \<Rightarrow> depth c' < depth c | Stop _ \<Rightarrow> True)
      (iinsert_round c pg nv h ins)"
    unfolding iinsert_round_def
    by (intro yields_intro iinsert_split_yields; hypsubst?) (auto dest!: cursor_pop_Some)
  from yieldsD [OF this assms] show ?thesis by (cases out) simp
qed

function iinsert_loop ::
  "'c cursor \<Rightarrow> 'f pager \<Rightarrow> node_view \<Rightarrow> node_view \<Rightarrow> node_view \<Rightarrow> ibta_insert_at
   \<Rightarrow> (btree_e \<times> 'f pager) option" where
  "iinsert_loop cursor pager nv holding other_holding ins =
     do {
       r \<leftarrow> iinsert_round cursor pager nv holding ins;
       (case r of
          Stop out \<Rightarrow> Some out
        | Go_on (cursor, pager, nv, holding, ins) \<Rightarrow>
            iinsert_loop cursor pager nv other_holding holding ins)
     }"
  by pat_completeness auto
termination
  by (relation "measure (\<lambda>(c, pg, nv, h1, h2, ins). depth c)") (auto dest!: iinsert_round_shrinks)

declare iinsert_loop.simps [simp del]

text \<open>\<open>ibta_insert_at\<close>; the cursor is used up.\<close>

definition ibta_insert_at_cursor ::
  "'c cursor \<Rightarrow> 'f pager \<Rightarrow> ibta_insert_at \<Rightarrow> (btree_e \<times> 'f pager) option" where
  "ibta_insert_at_cursor cursor pager ins =
     do {
       (result, pager, nvs) \<leftarrow> noderc_acquire_load_n pager [0, 0, 0];
       if result \<noteq> BTREE_OK then Some (result, pager)
       else iinsert_loop cursor pager (nvs ! 0) (nvs ! 1) (nvs ! 2) ins
     }"

section \<open>Rotating\<close>

text \<open>The key of the parent between the two nodes, seen from the node that is to be filled.\<close>

definition rotate_parent_index :: "bool \<Rightarrow> child_list_index \<Rightarrow> u32 \<Rightarrow> u32" where
  "rotate_parent_index right idx parent_keys =
     (if right then
        (if cli_mode idx = KLIM_RIGHT_CHILD then parent_keys - 1 else cli_index idx - 1)
      else cli_index idx)"

text \<open>The parent's cell goes down, and leaves the parent in memory.\<close>

definition rotate_lower ::
  "bool \<Rightarrow> node_view \<Rightarrow> node_view \<Rightarrow> u32 \<Rightarrow> 'f pager
   \<Rightarrow> (btree_e \<times> node_view \<times> node_view \<times> u32 \<times> 'f pager) option" where
  "rotate_lower right parent nv parent_index pager =
     do {
       num_keys \<leftarrow> node_num_keys nv;
       (let lowered = (if right then 0 else num_keys) in do {
          (result, nv, pg) \<leftarrow> btree_node_move_cell_ex_to parent nv parent_index
            \<lparr>ii_mode = (if right then KLIM_INDEX else KLIM_END), ii_index = lowered\<rparr> 0 (Some pager);
          pager \<leftarrow> pg;
          if result \<noteq> BTREE_OK then Some (result, parent, nv, lowered, pager)
          else do {
            (result, pager, nvs) \<leftarrow> noderc_persist_n pager [nv];
            if result \<noteq> BTREE_OK then Some (result, parent, hd nvs, lowered, pager)
            else do {
              (result, parent, _, _) \<leftarrow> btree_node_remove parent
                \<lparr>cli_mode = KLIM_INDEX, cli_index = parent_index\<rparr> None 0;
              Some (result, parent, hd nvs, lowered, pager)
            }
          }
        })
     }"

text \<open>
  A cell of the sibling goes up.  The fourth result is the page that the lowered cell, or the
  node it went to, has to point to.
\<close>

definition rotate_raise ::
  "bool \<Rightarrow> node_view \<Rightarrow> node_view \<Rightarrow> u32 \<Rightarrow> u32 \<Rightarrow> 'f pager
   \<Rightarrow> (btree_e \<times> node_view \<times> node_view \<times> u32 \<times> 'f pager) option" where
  "rotate_raise right parent nv parent_index orphaned_page_id pager =
     do {
       num_keys \<leftarrow> node_num_keys nv;
       (let source_index = (if right then num_keys - 1 else 0) in do {
          (result, parent, pg) \<leftarrow> btree_node_move_cell_ex_to nv parent source_index
            \<lparr>ii_mode = KLIM_INDEX, ii_index = parent_index\<rparr> orphaned_page_id (Some pager);
          pager \<leftarrow> pg;
          if result \<noteq> BTREE_OK then Some (result, parent, nv, 0, pager)
          else do {
            (result, pager, nvs) \<leftarrow> noderc_persist_n pager [parent];
            if result \<noteq> BTREE_OK then Some (result, hd nvs, nv, 0, pager)
            else do {
              child \<leftarrow> node_key_at nv source_index;
              (orphaned, nv) \<leftarrow>
                (if right then do {
                   prev \<leftarrow> node_right_child nv;
                   (_, nv) \<leftarrow> node_right_child_set nv child;
                   Some (prev, nv)
                 } else Some (child, nv));
              (result, nv, _, _) \<leftarrow> btree_node_remove nv
                \<lparr>cli_mode = KLIM_INDEX, cli_index = source_index\<rparr> None 0;
              if result \<noteq> BTREE_OK then Some (result, hd nvs, nv, orphaned, pager)
              else do {
                (result, pager, nvs') \<leftarrow> noderc_persist_n pager [nv];
                Some (result, hd nvs, hd nvs', orphaned, pager)
              }
            }
          }
        })
     }"

text \<open>Back in the node that has got the cell: its children are put right.\<close>

definition rotate_fix ::
  "bool \<Rightarrow> node_view \<Rightarrow> u32 \<Rightarrow> u32 \<Rightarrow> 'f pager \<Rightarrow> (btree_e \<times> 'f pager) option" where
  "rotate_fix right nv lowered orphaned pager =
     do {
       nv \<leftarrow>
         (if right then do { (_, nv) \<leftarrow> node_key_at_set nv lowered orphaned; Some nv }
          else do {
            prev \<leftarrow> node_right_child nv;
            (_, nv) \<leftarrow> node_right_child_set nv orphaned;
            (_, nv) \<leftarrow> node_key_at_set nv lowered prev;
            Some nv
          });
       (result, pager, _) \<leftarrow> noderc_persist_n pager [nv];
       Some (result, pager)
     }"

definition ibta_rotate ::
  "'c cursor \<Rightarrow> 'f pager \<Rightarrow> bta_rebalance_mode_e \<Rightarrow> (btree_e \<times> 'c cursor \<times> 'f pager) option" where
  "ibta_rotate cursor pager mode =
     do {
       require (mode = BTA_REBALANCE_MODE_ROTATE_LEFT \<or> mode = BTA_REBALANCE_MODE_ROTATE_RIGHT);
       (let right = (mode = BTA_REBALANCE_MODE_ROTATE_RIGHT) in do {
          (result, pager, nvs) \<leftarrow> noderc_acquire_load_n pager [0, cur_page_id cursor];
          if result \<noteq> BTREE_OK then Some (result, cursor, pager)
          else do {
            (result, cursor, pager, parent) \<leftarrow> cursor_read_parent cursor pager (nvs ! 0);
            if result \<noteq> BTREE_OK then Some (result, cursor, pager)
            else do {
              (result, parent_idx, cursor) \<leftarrow> cursor_parent_index cursor;
              if result \<noteq> BTREE_OK then Some (result, cursor, pager)
              else do {
                idx \<leftarrow> parent_idx;
                parent_keys \<leftarrow> node_num_keys parent;
                (let parent_index = rotate_parent_index right idx parent_keys in do {
                   (result, parent, nv, lowered, pager) \<leftarrow>
                     rotate_lower right parent (nvs ! 1) parent_index pager;
                   if result \<noteq> BTREE_OK then Some (result, cursor, pager)
                   else
                     (let filled_page = node_page_number nv in do {
                        (result, cursor, pager) \<leftarrow> cursor_sibling cursor pager
                          (if right then CURSOR_SIBLING_LEFT else CURSOR_SIBLING_RIGHT);
                        if result \<noteq> BTREE_OK then Some (result, cursor, pager)
                        else do {
                          (result, pager, nv) \<leftarrow> noderc_reinit_read pager nv (cur_page_id cursor);
                          if result \<noteq> BTREE_OK then Some (result, cursor, pager)
                          else do {
                            (result, parent, nv, orphaned, pager) \<leftarrow>
                              rotate_raise right parent nv parent_index
                                (if right then cur_page_id cursor else filled_page) pager;
                            if result \<noteq> BTREE_OK then Some (result, cursor, pager)
                            else do {
                              (result, cursor, pager) \<leftarrow> cursor_sibling cursor pager
                                (if right then CURSOR_SIBLING_RIGHT else CURSOR_SIBLING_LEFT);
                              if result \<noteq> BTREE_OK then Some (result, cursor, pager)
                              else do {
                                (result, pager, nv) \<leftarrow>
                                  noderc_reinit_read pager nv (cur_page_id cursor);
                                if result \<noteq> BTREE_OK then Some (result, cursor, pager)
                                else do {
                                  (result, pager) \<leftarrow> rotate_fix right nv lowered orphaned pager;
                                  Some (result, cursor, pager)
                                }
                              }
                            }
                          }
                        }
                      })
                 })
              }
            }
          }
        })
     }"

section \<open>Merging\<close>

text \<open>The two nodes and the parent's index between them.\<close>

definition imerge_nodes ::
  "'c cursor \<Rightarrow> 'f pager \<Rightarrow> bta_rebalance_mode_e \<Rightarrow> node_view \<Rightarrow> node_view
   \<Rightarrow> (btree_e \<times> child_list_index option \<times> node_view \<times> node_view \<times> 'c cursor \<times> 'f pager) option"
  where
  "imerge_nodes cursor pager mode left right =
     (if mode = BTA_REBALANCE_MODE_MERGE_RIGHT then do {
        (result, pager, left) \<leftarrow> noderc_reinit_read pager left (cur_page_id cursor);
        if result \<noteq> BTREE_OK then Some (result, None, left, right, cursor, pager)
        else do {
          (result, idx, cursor) \<leftarrow> cursor_parent_index cursor;
          if result \<noteq> BTREE_OK then Some (result, None, left, right, cursor, pager)
          else do {
            (result, cursor, pager) \<leftarrow> cursor_sibling cursor pager CURSOR_SIBLING_RIGHT;
            if result \<noteq> BTREE_OK then Some (result, None, left, right, cursor, pager)
            else do {
              (result, pager, right) \<leftarrow> noderc_reinit_read pager right (cur_page_id cursor);
              Some (result, idx, left, right, cursor, pager)
            }
          }
        }
      } else do {
        (result, pager, right) \<leftarrow> noderc_reinit_read pager right (cur_page_id cursor);
        if result \<noteq> BTREE_OK then Some (result, None, left, right, cursor, pager)
        else do {
          (result, cursor, pager) \<leftarrow> cursor_sibling cursor pager CURSOR_SIBLING_LEFT;
          if result \<noteq> BTREE_OK then Some (result, None, left, right, cursor, pager)
          else do {
            (result, pager, left) \<leftarrow> noderc_reinit_read pager left (cur_page_id cursor);
            if result \<noteq> BTREE_OK then Some (result, None, left, right, cursor, pager)
            else do {
              (result, idx, cursor) \<leftarrow> cursor_parent_index cursor;
              Some (result, idx, left, right, cursor, pager)
            }
          }
        }
      })"

text \<open>
  The merged cells end up on the right page, because the parent's next key points to it; and that
  page is then put on the free list.
\<close>

definition imerge_into_right ::
  "node_view \<Rightarrow> node_view \<Rightarrow> 'f pager \<Rightarrow> (btree_e \<times> 'f pager) option" where
  "imerge_into_right left right pager =
     do {
       num_keys \<leftarrow> node_num_keys right;
       (result, left, pager) \<leftarrow> move_cells right left [0..<unat num_keys] pager;
       if result \<noteq> BTREE_OK then Some (result, pager)
       else do {
         right_child \<leftarrow> node_right_child right;
         (_, left) \<leftarrow> node_right_child_set left right_child;
         (result, right) \<leftarrow> btree_node_copy right left;
         if result \<noteq> BTREE_OK then Some (result, pager)
         else do {
           (result, pager, nvs) \<leftarrow> noderc_persist_n pager [right];
           if result \<noteq> BTREE_OK then Some (result, pager)
           else do {
             (e, pager, _) \<leftarrow> pager_freelist_push_page pager (node_page (hd nvs));
             Some (btpage_err e, pager)
           }
         }
       }
     }"

definition ibta_merge ::
  "'c cursor \<Rightarrow> 'f pager \<Rightarrow> bta_rebalance_mode_e \<Rightarrow> (btree_e \<times> 'c cursor \<times> 'f pager) option" where
  "ibta_merge cursor pager mode =
     do {
       require (mode = BTA_REBALANCE_MODE_MERGE_LEFT \<or> mode = BTA_REBALANCE_MODE_MERGE_RIGHT);
       (result, pager, nvs) \<leftarrow> noderc_acquire_load_n pager [0, 0, 0];
       if result \<noteq> BTREE_OK then Some (result, cursor, pager)
       else do {
         (result, cursor, pager, parent) \<leftarrow> cursor_read_parent cursor pager (nvs ! 0);
         if result \<noteq> BTREE_OK then Some (result, cursor, pager)
         else do {
           (result, parent_idx, left, right, cursor, pager) \<leftarrow>
             imerge_nodes cursor pager mode (nvs ! 1) (nvs ! 2);
           if result \<noteq> BTREE_OK then Some (result, cursor, pager)
           else do {
             idx \<leftarrow> parent_idx;
             left_child \<leftarrow> node_right_child left;
             (result, left, pg) \<leftarrow>
               btree_node_move_cell_ex parent left (cli_index idx) left_child (Some pager);
             pager \<leftarrow> pg;
             if result \<noteq> BTREE_OK then Some (result, cursor, pager)
             else do {
               (result, parent, _, _) \<leftarrow> btree_node_remove parent idx None 0;
               if result \<noteq> BTREE_OK then Some (result, cursor, pager)
               else do {
                 (result, pager, nvs) \<leftarrow> noderc_persist_n pager [left, parent];
                 if result \<noteq> BTREE_OK then Some (result, cursor, pager)
                 else do {
                   parent_keys \<leftarrow> node_num_keys (nvs ! 1);
                   (result, pager) \<leftarrow> imerge_into_right (nvs ! 0) right pager;
                   Some (if result = BTREE_OK \<and> parent_keys < btree_underflow_lim (cur_tree cursor)
                         then BTREE_ERR_PARENT_DEFICIENT else result,
                         cursor, pager)
                 }
               }
             }
           }
         }
       }
     }"

section \<open>The root\<close>

definition iroot_new_child ::
  "node_view \<Rightarrow> node_view \<Rightarrow> 'f pager
   \<Rightarrow> (btree_e \<times> node_view \<times> node_view \<times> 'f pager) option" where
  "iroot_new_child root right pager =
     do {
       (result, empty_nv) \<leftarrow> noderc_acquire pager;
       if result \<noteq> BTREE_OK then Some (result, root, right, pager)
       else do {
         empty_nv \<leftarrow> node_is_leaf_set empty_nv True;
         (result, pager, nvs) \<leftarrow> noderc_persist_n pager [empty_nv];
         if result \<noteq> BTREE_OK then Some (result, root, right, pager)
         else
           (let empty_id = page_id (node_page (hd nvs)) in do {
              require (empty_id \<noteq> 0);
              (_, root) \<leftarrow> node_right_child_set root empty_id;
              num_keys \<leftarrow> node_num_keys right;
              (result, root, pg) \<leftarrow> btree_node_move_cell_ex right root (num_keys - 1)
                (node_page_number right) (Some pager);
              pager \<leftarrow> pg;
              if result \<noteq> BTREE_OK then Some (result, root, right, pager)
              else do {
                (result, right, _, _) \<leftarrow> btree_node_remove right
                  \<lparr>cli_mode = KLIM_INDEX, cli_index = num_keys - 1\<rparr> None 0;
                Some (result, root, right, pager)
              }
            })
       }
     }"

definition iroot_shrink ::
  "node_view \<Rightarrow> node_view \<Rightarrow> 'f pager
   \<Rightarrow> (btree_e \<times> node_view \<times> node_view \<times> 'f pager) option" where
  "iroot_shrink root right pager =
     do {
       (result, root) \<leftarrow> btree_node_reset root;
       if result \<noteq> BTREE_OK then Some (result, root, right, pager)
       else do {
         root \<leftarrow> node_is_leaf_set root True;
         num_keys \<leftarrow> node_num_keys right;
         (result, root, pager) \<leftarrow> move_cells right root [0..<unat num_keys] pager;
         if result \<noteq> BTREE_OK then Some (result, root, right, pager)
         else do {
           (e, pager, page) \<leftarrow> pager_freelist_push_page pager (node_page right);
           Some (btpage_err e, root, right\<lparr>node_page := page\<rparr>, pager)
         }
       }
     }"

text \<open>
  Both nodes are written at the end, so the right one also after it has gone to the free list.
\<close>

definition ibta_rebalance_root ::
  "'c cursor \<Rightarrow> 'f pager \<Rightarrow> (btree_e \<times> 'f pager) option" where
  "ibta_rebalance_root cursor pager =
     do {
       (result, pager, root) \<leftarrow> noderc_acquire_load pager (tr_root_page_id (cur_tree cursor));
       if result \<noteq> BTREE_OK then Some (result, pager)
       else do {
         is_leaf \<leftarrow> node_is_leaf root;
         require (\<not> is_leaf);
         num_keys \<leftarrow> node_num_keys root;
         if num_keys > 0 then Some (BTREE_OK, pager)
         else do {
           right_child \<leftarrow> node_right_child root;
           (result, pager, right) \<leftarrow> noderc_acquire_load pager right_child;
           if result \<noteq> BTREE_OK then Some (result, pager)
           else do {
             is_leaf \<leftarrow> node_is_leaf right;
             require is_leaf;
             used \<leftarrow> calc_heap_used right;
             (result, root, right, pager) \<leftarrow>
               (if used > btree_node_calc_heap_capacity root then iroot_new_child root right pager
                else iroot_shrink root right pager);
             if result \<noteq> BTREE_OK then Some (result, pager)
             else do {
               (result, pager, _) \<leftarrow> noderc_persist_n pager [root, right];
               Some (result, pager)
             }
           }
         }
       }
     }"

section \<open>The loop up the tree\<close>

definition irebalance_by_mode ::
  "'c cursor \<Rightarrow> 'f pager \<Rightarrow> bta_rebalance_mode_e \<Rightarrow> (btree_e \<times> 'c cursor \<times> 'f pager) option" where
  "irebalance_by_mode cursor pager mode =
     (case mode of
        BTA_REBALANCE_MODE_UNK \<Rightarrow> Some (BTREE_ERR_UNK, cursor, pager)
      | BTA_REBALANCE_MODE_ROTATE_LEFT \<Rightarrow> ibta_rotate cursor pager mode
      | BTA_REBALANCE_MODE_ROTATE_RIGHT \<Rightarrow> ibta_rotate cursor pager mode
      | BTA_REBALANCE_MODE_MERGE_LEFT \<Rightarrow> ibta_merge cursor pager mode
      | BTA_REBALANCE_MODE_MERGE_RIGHT \<Rightarrow> ibta_merge cursor pager mode)"

lemma ibta_rotate_depth:
  assumes "ibta_rotate c pg mode = Some (e, c', pg')"
  shows "depth c' \<le> depth c"
proof -
  have "yields (\<lambda>(e, c', pg'). depth c' \<le> depth c) (ibta_rotate c pg mode)"
    unfolding ibta_rotate_def
    by (intro yields_intro; hypsubst?)
      (auto dest!: cursor_read_parent_depth cursor_parent_index_depth cursor_sibling_depth)
  from yieldsD [OF this assms] show ?thesis by simp
qed

lemma imerge_nodes_depth:
  assumes "imerge_nodes c pg mode l r = Some (e, i, l', r', c', pg')"
  shows "depth c' \<le> depth c"
proof -
  have "yields (\<lambda>(e, i, l', r', c', pg'). depth c' \<le> depth c) (imerge_nodes c pg mode l r)"
    unfolding imerge_nodes_def
    by (intro yields_intro; hypsubst?)
      (auto dest!: cursor_parent_index_depth cursor_sibling_depth)
  from yieldsD [OF this assms] show ?thesis by simp
qed

lemma ibta_merge_depth:
  assumes "ibta_merge c pg mode = Some (e, c', pg')"
  shows "depth c' \<le> depth c"
proof -
  have "yields (\<lambda>(e, c', pg'). depth c' \<le> depth c) (ibta_merge c pg mode)"
    unfolding ibta_merge_def
    by (intro yields_intro; hypsubst?) (auto dest!: cursor_read_parent_depth imerge_nodes_depth)
  from yieldsD [OF this assms] show ?thesis by simp
qed

lemma irebalance_by_mode_depth:
  "irebalance_by_mode c pg mode = Some (e, c', pg') \<Longrightarrow> depth c' \<le> depth c"
  by (cases mode) (auto simp: irebalance_by_mode_def dest: ibta_rotate_depth ibta_merge_depth)

definition irebalance_round ::
  "'c cursor \<Rightarrow> 'f pager \<Rightarrow> bta_rebalance_mode_e
   \<Rightarrow> (btree_e \<times> 'c cursor \<times> 'f pager, bta_rebalance_mode_e \<times> 'c cursor \<times> 'f pager) round option" where
  "irebalance_round cursor pager mode =
     do {
       (result, decided, cursor, pager) \<leftarrow> bta_decide_rebalance_mode cursor pager;
       (let mode = case_option mode id decided in
        if result = BTREE_ERR_CURSOR_NO_PARENT then do {
          (result, pager) \<leftarrow> ibta_rebalance_root cursor pager;
          Some (Stop (result, cursor, pager))
        } else do {
          (result, cursor, pager) \<leftarrow> irebalance_by_mode cursor pager mode;
          if result \<noteq> BTREE_ERR_PARENT_DEFICIENT then Some (Stop (result, cursor, pager))
          else
            (let (popped, _, cursor) = cursor_pop cursor in
             Some (if popped \<noteq> BTREE_OK then Stop (result, cursor, pager)
                   else Go_on (mode, cursor, pager)))
        })
     }"

lemma irebalance_round_shrinks:
  assumes "irebalance_round c pg mode = Some (Go_on (mode', c', pg'))"
  shows "depth c' < depth c"
proof -
  have pop: "Suc (depth c2) = depth c1" if "cursor_pop c1 = (BTREE_OK, cr, c2)" for c1 c2 :: "'a cursor" and cr
    using that cursor_pop_Some [of c1 BTREE_OK _ c2] cursor_pop_None [of c1 BTREE_OK c2] by (cases cr) auto
  have "yields (\<lambda>r. case r of Go_on (m, c', pg') \<Rightarrow> depth c' < depth c | Stop _ \<Rightarrow> True)
      (irebalance_round c pg mode)"
    unfolding irebalance_round_def
    by (intro yields_intro; hypsubst?)
      (auto dest!: irebalance_by_mode_depth bta_decide_rebalance_mode_depth pop)
  from yieldsD [OF this assms] show ?thesis by simp
qed

function irebalance_loop ::
  "'c cursor \<Rightarrow> 'f pager \<Rightarrow> bta_rebalance_mode_e \<Rightarrow> (btree_e \<times> 'c cursor \<times> 'f pager) option" where
  "irebalance_loop cursor pager mode =
     do {
       r \<leftarrow> irebalance_round cursor pager mode;
       (case r of
          Stop out \<Rightarrow> Some out
        | Go_on (mode, cursor, pager) \<Rightarrow> irebalance_loop cursor pager mode)
     }"
  by pat_completeness auto
termination
  by (relation "measure (\<lambda>(c, pg, mode). depth c)") (auto dest!: irebalance_round_shrinks)

declare irebalance_loop.simps [simp del]

definition ibta_rebalance :: "'c cursor \<Rightarrow> 'f pager \<Rightarrow> (btree_e \<times> 'c cursor \<times> 'f pager) option" where
  "ibta_rebalance cursor pager = irebalance_loop cursor pager BTA_REBALANCE_MODE_UNK"

end
