(* ===== verification/BTree.thy ===== *)
theory BTree
  imports BTreeAlg
begin

text \<open>
  \<open>btree.c\<close>: table trees, whose keys are integers.  A tree is opened, written, deleted from and
  looked up through a cursor that is created for the call.
\<close>

section \<open>Opening a tree\<close>

definition init_new_root_page :: "page \<Rightarrow> u32 \<Rightarrow> (btree_e \<times> page) option" where
  "init_new_root_page page pid =
     do {
       (result, temp_node) \<leftarrow> btree_node_init_from_page (page\<lparr>page_id := pid\<rparr>);
       if result \<noteq> BTREE_OK then Some (result, node_page temp_node)
       else do {
         temp_node \<leftarrow> node_is_leaf_set temp_node True;
         Some (BTREE_OK, node_page temp_node)
       }
     }"

definition btree_init_root_page :: "'f pager \<Rightarrow> page \<Rightarrow> u32 \<Rightarrow> (btree_e \<times> 'f pager \<times> page) option" where
  "btree_init_root_page pager page pid =
     do {
       (pager_status, pager, page) \<leftarrow> pager_read_page pager (pager_reselect \<lparr>sel_page_id = 0\<rparr> pid) page;
       if pager_status = PAGER_ERR_NIF then do {
         (result, page) \<leftarrow> init_new_root_page page pid;
         if result \<noteq> BTREE_OK then Some (result, pager, page)
         else do {
           (e, pager, page) \<leftarrow> pager_write_page pager (page\<lparr>page_id := PAGE_CREATE_NEW_PAGE\<rparr>);
           Some (btpage_err e, pager, page)
         }
       }
       else if pager_status \<noteq> PAGER_OK then Some (BTREE_ERR_PAGING, pager, page)
       else Some (BTREE_OK, pager, page)
     }"

definition btree_min_page_size :: u32 where
  "btree_min_page_size =
     BTREE_HEADER_SIZE
       + 4 * btree_node_heap_required_for_insertion btree_cell_overflow_min_disk_size
       + of_nat sizeof_BTreePageHeader"

text \<open>
  The tree is the caller's block of memory.  The limit for underflow is not set here, and where the
  page is too small the root page stays as it was.
\<close>

definition btree_open_root ::
  "'c btree \<Rightarrow> 'f pager \<Rightarrow> u32 \<Rightarrow> (btree_e \<times> 'c btree \<times> 'f pager) option" where
  "btree_open_root tree pager root_page_id =
     (if pgr_page_size pager < btree_min_page_size
      then Some (BTREE_ERR_INVALID_PAGE_SIZE_TOO_SMALL, tree, pager)
      else
        (let tree = tree\<lparr>tr_root_page_id := root_page_id\<rparr> in do {
           (e, page) \<leftarrow> page_create pager;
           if btpage_err e \<noteq> BTREE_OK then Some (btpage_err e, tree, pager)
           else do {
             (result, pager, _) \<leftarrow> btree_init_root_page pager page root_page_id;
             Some (result, tree, pager)
           }
         }))"

definition btree_init ::
  "unit btree \<Rightarrow> 'f pager \<Rightarrow> u32 \<Rightarrow> (btree_e \<times> unit btree \<times> 'f pager) option" where
  "btree_init tree pager root_page_id =
     btree_open_root (tree\<lparr>tr_type := BTREE_TBL, tr_fns := btree_fns\<rparr>) pager root_page_id"

section \<open>Inserting\<close>

text \<open>
  What \<open>data\<close> points to: the caller's bytes, or \<open>split_result.left_page_id\<close>, which the next split
  overwrites.
\<close>

datatype insert_data = Caller_data bytes | Left_page_id

definition insert_bytes :: "insert_data \<Rightarrow> split_page \<Rightarrow> bytes" where
  "insert_bytes data split_result =
     (case data of
        Caller_data xs \<Rightarrow> xs
      | Left_page_id \<Rightarrow> ser_write_32bit_le (sp_left_page_id split_result))"

text \<open>The root has no room: it becomes the parent of two new pages, and the cell goes to one of them.\<close>

definition insert_into_split_root ::
  "'f pager \<Rightarrow> node_view \<Rightarrow> u32 \<Rightarrow> bytes \<Rightarrow> u32 \<Rightarrow> 'f pager option" where
  "insert_into_split_root pager nv key data data_size =
     do {
       (result, pager, nv, root_split) \<leftarrow> bta_split_node_as_parent nv pager
         \<lparr>sap_left_child_page_id = 0, sap_left_child_high_key = 0, sap_right_child_page_id = 0\<rparr>;
       if result \<noteq> BTREE_OK then Some pager
       else do {
         (result, pager, nv) \<leftarrow> noderc_reinit_read pager nv
           (if key \<le>s sap_left_child_high_key root_split
            then sap_left_child_page_id root_split else sap_right_child_page_id root_split);
         if result \<noteq> BTREE_OK then Some pager
         else do {
           (_, pager, _) \<leftarrow> btree_node_write nv pager key data data_size;
           Some pager
         }
       }
     }"

text \<open>One round of the loop: the node at the top of the cursor gets the cell, or is split.\<close>

definition insert_round ::
  "unit cursor \<Rightarrow> 'f pager \<Rightarrow> node_view \<Rightarrow> u32 \<Rightarrow> insert_data \<Rightarrow> u32 \<Rightarrow> split_page
   \<Rightarrow> ('f pager, unit cursor \<times> 'f pager \<times> node_view \<times> u32 \<times> split_page) round option" where
  "insert_round cursor pager nv key data data_size split_result =
     (case cursor_pop cursor of
        (_, None, _) \<Rightarrow> Some (Stop pager)
      | (_, Some crumb, cursor) \<Rightarrow> do {
          (result, pager, nv) \<leftarrow> noderc_reinit_read pager nv (cb_page_id crumb);
          if result \<noteq> BTREE_OK then Some (Stop pager)
          else do {
            (result, pager, nv) \<leftarrow>
              btree_node_write nv pager key (insert_bytes data split_result) data_size;
            if result \<noteq> BTREE_ERR_NODE_NOT_ENOUGH_SPACE then Some (Stop pager)
            else if page_id (node_page nv) = tr_root_page_id (cur_tree cursor) then do {
              pager \<leftarrow> insert_into_split_root pager nv key (insert_bytes data split_result) data_size;
              Some (Stop pager)
            } else do {
              (result, pager, nv, split_result) \<leftarrow> bta_split_node nv pager split_result;
              if result \<noteq> BTREE_OK then Some (Stop pager)
              else do {
                (result, pager, nv) \<leftarrow>
                  (if key \<le>s sp_left_page_high_key split_result
                   then noderc_reinit_read pager nv (sp_left_page_id split_result)
                   else Some (BTREE_OK, pager, nv));
                if result \<noteq> BTREE_OK then Some (Stop pager)
                else do {
                  (result, pager, nv) \<leftarrow>
                    btree_node_write nv pager key (insert_bytes data split_result) data_size;
                  if result \<noteq> BTREE_OK then Some (Stop pager)
                  else
                    (case cursor_pop cursor of
                       (_, None, _) \<Rightarrow> Some (Stop pager)
                     | (_, Some crumb, cursor) \<Rightarrow>
                         (let (result, cursor) = cursor_push_crumb cursor
                            (crumb\<lparr>cb_key_index := (cb_key_index crumb)\<lparr>cli_mode := KLIM_INDEX\<rparr>\<rparr>) in
                          Some (if result \<noteq> BTREE_OK then Stop pager
                                else Go_on (cursor, pager, nv, sp_left_page_high_key split_result,
                                            split_result))))
                }
              }
            }
          }
        })"

lemma insert_round_shrinks:
  assumes "insert_round c pg nv key data n sr = Some (Go_on (c', out))"
  shows "depth c' < depth c"
proof -
  have "yields (\<lambda>r. case r of Go_on (c', out) \<Rightarrow> depth c' < depth c | Stop _ \<Rightarrow> True)
      (insert_round c pg nv key data n sr)"
    unfolding insert_round_def
    by (intro yields_intro; hypsubst?)
      (auto dest!: cursor_pop_Some cursor_push_crumb_depth)
  from yieldsD [OF this assms] show ?thesis by (cases out) simp
qed

text \<open>Behind a split the loop goes on with the new left page and its high key.\<close>

function insert_loop ::
  "unit cursor \<Rightarrow> 'f pager \<Rightarrow> node_view \<Rightarrow> u32 \<Rightarrow> insert_data \<Rightarrow> u32 \<Rightarrow> split_page \<Rightarrow> 'f pager option" where
  "insert_loop cursor pager nv key data data_size split_result =
     do {
       r \<leftarrow> insert_round cursor pager nv key data data_size split_result;
       (case r of
          Stop pager \<Rightarrow> Some pager
        | Go_on (cursor, pager, nv, key, split_result) \<Rightarrow>
            insert_loop cursor pager nv key Left_page_id 4 split_result)
     }"
  by pat_completeness auto
termination
  by (relation "measure (\<lambda>(c, pg, nv, key, data, n, sr). depth c)") (auto dest!: insert_round_shrinks)

declare insert_loop.simps [simp del]

text \<open>Errors end the insertion, but the function returns \<open>BTREE_OK\<close> whatever happened.\<close>

definition btree_insert ::
  "unit btree \<Rightarrow> 'f pager \<Rightarrow> u32 \<Rightarrow> bytes \<Rightarrow> u32 \<Rightarrow> (btree_e \<times> 'f pager) option" where
  "btree_insert tree pager key data data_size =
     do {
       (result, nv) \<leftarrow> noderc_acquire pager;
       if result \<noteq> BTREE_OK then Some (BTREE_OK, pager)
       else do {
         (result, found, cursor, pager) \<leftarrow> cursor_traverse_to (cursor_create tree) pager key;
         if result \<noteq> BTREE_OK then Some (BTREE_OK, pager)
         else do {
           pager \<leftarrow> insert_loop cursor pager nv key (Caller_data data) data_size
             \<lparr>sp_left_page_id = 0, sp_left_page_high_key = 0\<rparr>;
           Some (BTREE_OK, pager)
         }
       }
     }"

section \<open>Deleting and looking up\<close>

text \<open>A key that is not found is not an error.\<close>

definition delete_single ::
  "'c cursor \<Rightarrow> 'f pager \<Rightarrow> u32 \<Rightarrow> (btree_e \<times> 'c cursor \<times> 'f pager) option" where
  "delete_single cursor pager key =
     do {
       (result, found, cursor, pager) \<leftarrow> cursor_traverse_to cursor pager key;
       if result \<noteq> BTREE_OK \<or> \<not> found then Some (result, cursor, pager)
       else
         (case cursor_peek cursor of
            (result, None) \<Rightarrow> Some (result, cursor, pager)
          | (_, Some crumb) \<Rightarrow> do {
              (result, pager, nv) \<leftarrow> noderc_acquire_load pager (cb_page_id crumb);
              if result \<noteq> BTREE_OK then Some (result, cursor, pager)
              else do {
                (result, nv, _, _) \<leftarrow> btree_node_remove nv (cb_key_index crumb) None 0;
                if result \<noteq> BTREE_OK then Some (result, cursor, pager)
                else do {
                  (result, pager, nvs) \<leftarrow> noderc_persist_n pager [nv];
                  if result \<noteq> BTREE_OK then Some (result, cursor, pager)
                  else do {
                    num_keys \<leftarrow> node_num_keys (hd nvs);
                    Some (if num_keys = 0 then BTREE_ERR_UNDERFLOW else BTREE_OK, cursor, pager)
                  }
                }
              }
            })
     }"

definition btree_delete :: "unit btree \<Rightarrow> 'f pager \<Rightarrow> u32 \<Rightarrow> (btree_e \<times> 'f pager) option" where
  "btree_delete tree pager key =
     do {
       (result, cursor, pager) \<leftarrow> delete_single (cursor_create tree) pager key;
       if result = BTREE_ERR_UNDERFLOW then do {
         (result, _, pager) \<leftarrow> bta_rebalance cursor pager;
         Some (result, pager)
       } else Some (result, pager)
     }"

definition btree_select_ex ::
  "unit btree \<Rightarrow> 'f pager \<Rightarrow> u32 \<Rightarrow> bytes \<Rightarrow> u32 \<Rightarrow> (btree_e \<times> 'f pager \<times> bytes) option" where
  "btree_select_ex tree pager key buffer buffer_size =
     do {
       (result, nv) \<leftarrow> noderc_acquire pager;
       if result \<noteq> BTREE_OK then Some (result, pager, buffer)
       else do {
         (result, found, cursor, pager) \<leftarrow> cursor_traverse_to (cursor_create tree) pager key;
         if result \<noteq> BTREE_OK then Some (result, pager, buffer)
         else if \<not> found then Some (BTREE_ERR_KEY_NOT_FOUND, pager, buffer)
         else do {
           (result, pager, nv) \<leftarrow> cursor_read_current cursor pager nv;
           if result \<noteq> BTREE_OK then Some (result, pager, buffer)
           else do {
             num_keys \<leftarrow> node_num_keys nv;
             require (cli_index (cur_key_index cursor) \<noteq> num_keys);
             btree_node_read_at pager nv (cli_index (cur_key_index cursor)) buffer buffer_size
           }
         }
       }
     }"

end
