(* ===== verification/IBTree.thy ===== *)
theory IBTree
  imports IBTreeAlg BTree
begin

text \<open>
  \<open>ibtree.c\<close>: index trees.  The payload is the key; how payloads are compared is a parameter of
  the tree, the callbacks \<open>compare\<close> and \<open>reset_compare\<close> with the context they work on.
\<close>

definition ibtree_init ::
  "'c btree \<Rightarrow> 'f pager \<Rightarrow> u32
   \<Rightarrow> ('c \<Rightarrow> bytes \<Rightarrow> u32 \<Rightarrow> u32 \<Rightarrow> bytes \<Rightarrow> u32 \<Rightarrow> u32 \<Rightarrow> (int \<times> u32 \<times> u32 \<times> 'c) option)
   \<Rightarrow> ('c \<Rightarrow> 'c) \<Rightarrow> (btree_e \<times> 'c btree \<times> 'f pager) option" where
  "ibtree_init tree pager root_page_id compare_fn reset_compare =
     do {
       (result, tree, pager) \<leftarrow> btree_open_root tree pager root_page_id;
       Some (result,
         tree\<lparr>tr_type := BTREE_INDEX,
              tr_fns := \<lparr>fn_keyof = ibtree_keyof, fn_compare = compare_fn, fn_reset = reset_compare\<rparr>\<rparr>,
         pager)
     }"

definition ibtree_insert_ex ::
  "'c btree \<Rightarrow> 'f pager \<Rightarrow> bytes \<Rightarrow> u32 \<Rightarrow> 'c \<Rightarrow> (btree_e \<times> 'f pager) option" where
  "ibtree_insert_ex tree pager payload payload_size cmp_ctx =
     do {
       (result, found, cursor, pager) \<leftarrow>
         cursor_traverse_to_ex (cursor_create_ex tree cmp_ctx) pager payload payload_size;
       if result \<noteq> BTREE_OK then Some (result, pager)
       else ibta_insert_at_cursor cursor pager (ibta_insert_at_init payload payload_size)
     }"

definition ibtree_insert :: "unit btree \<Rightarrow> 'f pager \<Rightarrow> bytes \<Rightarrow> u32 \<Rightarrow> (btree_e \<times> 'f pager) option" where
  "ibtree_insert tree pager payload payload_size = ibtree_insert_ex tree pager payload payload_size ()"

section \<open>Deleting\<close>

text \<open>
  The cell of an inner node is replaced by the largest one of its left subtree; \<open>holding\<close> holds the
  removed cell, whose key is that subtree.
\<close>

definition idelete_inner ::
  "'c cursor \<Rightarrow> 'f pager \<Rightarrow> node_view \<Rightarrow> node_view \<Rightarrow> cursor_breadcrumb
   \<Rightarrow> (btree_e \<times> 'c cursor \<times> 'f pager) option" where
  "idelete_inner cursor pager nv holding crumb =
     do {
       left_child \<leftarrow> node_key_at holding 0;
       (let (result, cursor) = cursor_push_crumb cursor
          \<lparr>cb_key_index = \<lparr>cli_mode = KLIM_INDEX, cli_index = 0\<rparr>, cb_page_id = left_child\<rparr> in
        if result \<noteq> BTREE_OK then Some (result, cursor, pager)
        else do {
          (result, cursor, pager) \<leftarrow> cursor_traverse_largest cursor pager;
          if result \<noteq> BTREE_OK then Some (result, cursor, pager)
          else
            (case cursor_peek cursor of
               (result, None) \<Rightarrow> Some (result, cursor, pager)
             | (_, Some replacement) \<Rightarrow> do {
                 (result, pager, holding) \<leftarrow>
                   noderc_reinit_read pager holding (cb_page_id replacement);
                 if result \<noteq> BTREE_OK then Some (result, cursor, pager)
                 else do {
                   num_keys \<leftarrow> node_num_keys holding;
                   (result, nv, pg) \<leftarrow> btree_node_move_cell_ex_to holding nv (num_keys - 1)
                     \<lparr>ii_mode = (if cli_mode (cb_key_index crumb) = KLIM_RIGHT_CHILD then KLIM_END
                                else KLIM_INDEX),
                      ii_index = cli_index (cb_key_index crumb)\<rparr>
                     left_child (Some pager);
                   pager \<leftarrow> pg;
                   if result \<noteq> BTREE_OK then Some (result, cursor, pager)
                   else do {
                     (result, holding, _) \<leftarrow> ibtree_node_remove holding
                       \<lparr>cli_mode = KLIM_INDEX, cli_index = num_keys - 1\<rparr> None;
                     if result \<noteq> BTREE_OK then Some (result, cursor, pager)
                     else do {
                       (result, pager, nvs) \<leftarrow> noderc_persist_n pager [nv, holding];
                       if result \<noteq> BTREE_OK then Some (result, cursor, pager)
                       else do {
                         left_keys \<leftarrow> node_num_keys (nvs ! 1);
                         Some (if left_keys < btree_underflow_lim (cur_tree cursor)
                               then BTREE_ERR_UNDERFLOW else BTREE_OK, cursor, pager)
                       }
                     }
                   }
                 }
               })
        })
     }"

definition idelete_single ::
  "'c cursor \<Rightarrow> 'f pager \<Rightarrow> bytes \<Rightarrow> u32 \<Rightarrow> (btree_e \<times> 'c cursor \<times> 'f pager) option" where
  "idelete_single cursor pager key key_size =
     do {
       (result, pager, nvs) \<leftarrow> noderc_acquire_load_n pager [0, 0];
       if result \<noteq> BTREE_OK then Some (result, cursor, pager)
       else do {
         (result, found, cursor, pager) \<leftarrow> cursor_traverse_to_ex cursor pager key key_size;
         if result \<noteq> BTREE_OK \<or> \<not> found then Some (result, cursor, pager)
         else
           (case cursor_peek cursor of
              (result, None) \<Rightarrow> Some (result, cursor, pager)
            | (_, Some crumb) \<Rightarrow> do {
                (result, pager, nv) \<leftarrow> noderc_reinit_read pager (nvs ! 0) (cb_page_id crumb);
                if result \<noteq> BTREE_OK then Some (result, cursor, pager)
                else do {
                  (result, nv, holding) \<leftarrow>
                    ibtree_node_remove nv (cb_key_index crumb) (Some (nvs ! 1));
                  holding \<leftarrow> holding;
                  if result \<noteq> BTREE_OK then Some (result, cursor, pager)
                  else do {
                    (result, pager, nvs') \<leftarrow> noderc_persist_n pager [nv];
                    if result \<noteq> BTREE_OK then Some (result, cursor, pager)
                    else do {
                      is_leaf \<leftarrow> node_is_leaf (hd nvs');
                      if \<not> is_leaf then idelete_inner cursor pager (hd nvs') holding crumb
                      else do {
                        num_keys \<leftarrow> node_num_keys (hd nvs');
                        Some (if num_keys < btree_underflow_lim (cur_tree cursor)
                              then BTREE_ERR_UNDERFLOW else BTREE_OK, cursor, pager)
                      }
                    }
                  }
                }
              })
       }
     }"

definition ibtree_delete_ex ::
  "'c btree \<Rightarrow> 'f pager \<Rightarrow> bytes \<Rightarrow> u32 \<Rightarrow> 'c \<Rightarrow> (btree_e \<times> 'f pager) option" where
  "ibtree_delete_ex tree pager key key_size cmp_ctx =
     do {
       (result, cursor, pager) \<leftarrow> idelete_single (cursor_create_ex tree cmp_ctx) pager key key_size;
       if result = BTREE_ERR_UNDERFLOW then do {
         (result, _, pager) \<leftarrow> ibta_rebalance cursor pager;
         Some (result, pager)
       } else Some (result, pager)
     }"

definition ibtree_delete :: "unit btree \<Rightarrow> 'f pager \<Rightarrow> bytes \<Rightarrow> u32 \<Rightarrow> (btree_e \<times> 'f pager) option" where
  "ibtree_delete tree pager key key_size = ibtree_delete_ex tree pager key key_size ()"

section \<open>Looking up\<close>

definition ibtree_select_ex ::
  "'c btree \<Rightarrow> 'f pager \<Rightarrow> 'c \<Rightarrow> bytes \<Rightarrow> u32 \<Rightarrow> bytes \<Rightarrow> u32
   \<Rightarrow> (btree_e \<times> 'f pager \<times> bytes) option" where
  "ibtree_select_ex tree pager cmp_ctx key key_size buffer buffer_size =
     do {
       (result, nv) \<leftarrow> noderc_acquire pager;
       if result \<noteq> BTREE_OK then Some (result, pager, buffer)
       else do {
         (result, found, cursor, pager) \<leftarrow>
           cursor_traverse_to_ex (cursor_create_ex tree cmp_ctx) pager key key_size;
         if result \<noteq> BTREE_OK then Some (result, pager, buffer)
         else if \<not> found then Some (BTREE_ERR_KEY_NOT_FOUND, pager, buffer)
         else do {
           (result, pager, nv) \<leftarrow> cursor_read_current cursor pager nv;
           if result \<noteq> BTREE_OK then Some (result, pager, buffer)
           else do {
             num_keys \<leftarrow> node_num_keys nv;
             require (cli_index (cur_key_index cursor) \<noteq> num_keys);
             btree_node_read_at pager nv (cli_index (cur_key_index cursor)) buffer buffer_size
           }
         }
       }
     }"

end
