(* ===== verification/NodeSpec.thy ===== *)
theory NodeSpec
  imports Node
begin

text \<open>
  What a node is for its users: a list of entries, each a key, its flags and the bytes of its
  cell.  The invariant ties the header, the key array and the heap together; the
  operations of \<open>btree_node.c\<close> are shown to act on the list as their names say.
\<close>

section \<open>Reading words at offsets\<close>

definition rd32 :: "bytes \<Rightarrow> nat \<Rightarrow> u32" where
  "rd32 m off = ser_read_32bit_le (slice m off 4)"

lemma mem_read32_rd32: "off + 4 \<le> length m \<Longrightarrow> mem_read32 m off = Some (rd32 m off)"
  by (simp add: mem_read32_def mem_read_slice rd32_def)

lemma mem_write32_patch:
  "off + 4 \<le> length m \<Longrightarrow> mem_write32 m off v = Some (patch m off (ser_write_32bit_le v))"
  by (simp add: mem_write32_def mem_write_patch)

lemma rd32_patch_same [simp]:
  "off + 4 \<le> length m \<Longrightarrow> rd32 (patch m off (ser_write_32bit_le v)) off = v"
  by (simp add: rd32_def)

lemma rd32_patch_disjoint:
  "off + length xs \<le> length m \<Longrightarrow> p + 4 \<le> off \<or> off + length xs \<le> p
   \<Longrightarrow> rd32 (patch m off xs) p = rd32 m p"
  by (simp add: rd32_def slice_patch_disjoint)

lemma rd32_patch_inside:
  "off + length xs \<le> length m \<Longrightarrow> off \<le> p \<Longrightarrow> p + 4 \<le> off + length xs
   \<Longrightarrow> rd32 (patch m off xs) p = rd32 xs (p - off)"
  by (simp add: rd32_def slice_patch_inside)

lemma rd32_slice: "i + 4 \<le> n \<Longrightarrow> rd32 (slice m off n) i = rd32 m (off + i)"
  by (simp add: rd32_def slice_slice)

section \<open>The geometry of a node\<close>

definition node_end :: "btree_node \<Rightarrow> nat" where
  "node_end node = length (node_mem node)"

text \<open>
  The header sits where the page number says, the page is 12 bytes larger than its usable part,
  and everything is addressable with an \<open>int\<close>.
\<close>

definition node_shape :: "btree_node \<Rightarrow> bool" where
  "node_shape node \<longleftrightarrow>
     node_page_number node = page_id (node_page node) \<and>
     node_header node = btu_get_node_buffer node \<and>
     node_end node = 12 + unat (page_size (node_page node)) \<and>
     unat (page_size (node_page node)) < 2147483648 \<and>
     node_header node + 20 \<le> node_end node"

definition n_keys :: "btree_node \<Rightarrow> nat" where
  "n_keys node = unat (rd32 (node_mem node) (node_header node + 8))"

definition n_free :: "btree_node \<Rightarrow> nat" where
  "n_free node = unat (rd32 (node_mem node) (node_header node + 4))"

definition n_hwm :: "btree_node \<Rightarrow> nat" where
  "n_hwm node = unat (rd32 (node_mem node) (node_header node + 16))"

definition pkey_of :: "bytes \<Rightarrow> nat \<Rightarrow> page_key" where
  "pkey_of m off =
     \<lparr>pk_key = rd32 m off, pk_cell_offset = rd32 m (off + 4), pk_flags = rd32 m (off + 8)\<rparr>"

definition pkey :: "btree_node \<Rightarrow> nat \<Rightarrow> page_key" where
  "pkey node i = pkey_of (node_mem node) (node_header node + 20 + 12 * i)"

definition cell_off :: "btree_node \<Rightarrow> nat \<Rightarrow> nat" where
  "cell_off node i = unat (pk_cell_offset (pkey node i))"

text \<open>The size field and the payload of the cell that starts \<open>off\<close> bytes before the end.\<close>

definition cell_size :: "btree_node \<Rightarrow> nat \<Rightarrow> nat" where
  "cell_size node off = unat (rd32 (node_mem node) (node_end node - off))"

definition cell_payload :: "btree_node \<Rightarrow> nat \<Rightarrow> bytes" where
  "cell_payload node off = slice (node_mem node) (node_end node - off + 4) (cell_size node off)"

type_synonym entry = "u32 \<times> u32 \<times> bytes"

definition node_entry :: "btree_node \<Rightarrow> nat \<Rightarrow> entry" where
  "node_entry node i =
     (pk_key (pkey node i), pk_flags (pkey node i), cell_payload node (cell_off node i))"

definition node_abs :: "btree_node \<Rightarrow> entry list" where
  "node_abs node = map (node_entry node) [0..<n_keys node]"

definition cell_ok :: "btree_node \<Rightarrow> nat \<Rightarrow> bool" where
  "cell_ok node i \<longleftrightarrow> cell_off node i \<le> n_hwm node \<and>
     cell_size node (cell_off node i) + 4 \<le> cell_off node i"

text \<open>
  Header, keys, free space and heap fill the node; every cell lies inside the heap.
\<close>

definition node_inv :: "btree_node \<Rightarrow> bool" where
  "node_inv node \<longleftrightarrow> node_shape node \<and>
     node_header node + 20 + 12 * n_keys node + n_free node + n_hwm node = node_end node \<and>
     (\<forall>i < n_keys node. cell_ok node i)"

section \<open>Accesses that are in range\<close>

lemma node_mem_set [simp]:
  "node_mem (set_node_mem node m) = m"
  "node_header (set_node_mem node m) = node_header node"
  "node_page_number (set_node_mem node m) = node_page_number node"
  "page_id (node_page (set_node_mem node m)) = page_id (node_page node)"
  "page_size (node_page (set_node_mem node m)) = page_size (node_page node)"
  "btu_get_node_buffer (set_node_mem node m) = btu_get_node_buffer node"
  "btu_get_node_size (set_node_mem node m) = btu_get_node_size node"
  "btree_node_max_cell_size (set_node_mem node m) = btree_node_max_cell_size node"
  "btree_node_calc_heap_capacity (set_node_mem node m) = btree_node_calc_heap_capacity node"
  "set_node_mem (set_node_mem node m') m = set_node_mem node m"
  by (simp_all add: set_node_mem_def node_mem_def btu_get_node_buffer_def btu_get_node_size_def
      btree_node_max_cell_size_def btu_get_node_heap_size_def btree_node_calc_heap_capacity_def)

lemma shape_set_mem [simp]:
  "length m = node_end node \<Longrightarrow> node_shape (set_node_mem node m) = node_shape node"
  by (simp add: node_shape_def node_end_def)

lemma node_end_set [simp]: "length m = node_end node \<Longrightarrow> node_end (set_node_mem node m) = node_end node"
  by (simp add: node_end_def)

lemma header_gets:
  assumes "node_shape node"
  shows "node_num_keys node = Some (of_nat (n_keys node))"
    and "node_free_heap node = Some (of_nat (n_free node))"
    and "node_high_water node = Some (of_nat (n_hwm node))"
  using assms
  by (simp_all add: node_num_keys_def node_free_heap_def node_high_water_def hdr_get_def
      mem_read32_rd32 layout_defs node_shape_def node_end_def n_keys_def n_free_def n_hwm_def)

lemma key_at_pkey:
  assumes "node_shape node" and "node_header node + 20 + 12 * (unat i + 1) \<le> node_end node"
  shows "key_at node i = Some (pkey node (unat i))"
  using assms
  by (simp add: key_at_def key_off_def node_keys_def layout_defs mem_read32_rd32 node_end_def
      pkey_def pkey_of_def add.assoc)

lemma node_size_eq:
  assumes "node_shape node"
  shows "btu_get_node_buffer node + unat (btu_get_node_size node) = node_end node"
    and "unat (btu_get_node_size node) < 2147483648"
proof -
  have le: "unat (btu_get_node_size node) =
      unat (page_size (node_page node)) - (if node_page_number node = 1 then 100 else 0)"
    using assms
    by (auto simp: btu_get_node_size_def BTREE_HEADER_SIZE_def node_shape_def
        btu_get_node_buffer_def unat_sub_ok)
  with assms show "btu_get_node_buffer node + unat (btu_get_node_size node) = node_end node"
    and "unat (btu_get_node_size node) < 2147483648"
    by (auto simp: node_shape_def btu_get_node_buffer_def BTREE_HEADER_SIZE_def split: if_splits)
qed

lemma highwater_offset:
  assumes "node_shape node" and "unat hw \<le> node_end node" and "unat hw < 2147483648"
  shows "btu_calc_highwater_offset node hw = Some (node_end node - unat hw)"
proof -
  have "int (btu_get_node_buffer node) + int (unat (btu_get_node_size node)) = int (node_end node)"
    using node_size_eq(1) [OF assms(1)] by linarith
  then have "int (btu_get_node_buffer node) + sint (btu_get_node_size node) - sint hw =
      int (node_end node - unat hw)"
    using node_size_eq(2) [OF assms(1)] assms(2,3) by (simp add: sint_u32_small)
  then show ?thesis
    by (simp add: btu_calc_highwater_offset_def node_end_def)
qed

section \<open>Opening a slot in the key array\<close>

definition key_insert :: "bytes \<Rightarrow> nat \<Rightarrow> nat \<Rightarrow> nat \<Rightarrow> page_key \<Rightarrow> bytes" where
  "key_insert m base n i pk =
     patch (patch m (base + 12 * i + 12) (slice m (base + 12 * i) (12 * (n - i))))
       (base + 12 * i) (pkey_bytes pk)"

lemma length_pkey_bytes [simp]: "length (pkey_bytes k) = 12"
  by (simp add: pkey_bytes_def)

lemma pkey_of_bytes: "off + 12 \<le> length m \<Longrightarrow> pkey_of (patch m off (pkey_bytes k)) off = k"
  by (simp add: pkey_of_def rd32_patch_inside) (simp add: rd32_def pkey_bytes_def slice_def)

lemma pkey_of_patch_disjoint:
  "off + length xs \<le> length m \<Longrightarrow> p + 12 \<le> off \<or> off + length xs \<le> p
   \<Longrightarrow> pkey_of (patch m off xs) p = pkey_of m p"
  by (auto simp: pkey_of_def rd32_patch_disjoint)

lemma pkey_of_patch_slice:
  assumes "dst + k \<le> length m" and "src + k \<le> length m" and "dst \<le> p" and "p + 12 \<le> dst + k"
  shows "pkey_of (patch m dst (slice m src k)) p = pkey_of m (src + (p - dst))"
proof -
  have "rd32 (patch m dst (slice m src k)) (p + j) = rd32 m (src + (p - dst) + j)"
    if "j + 4 \<le> 12" for j
  proof -
    have "rd32 (patch m dst (slice m src k)) (p + j) = rd32 (slice m src k) (p + j - dst)"
      using assms that by (intro rd32_patch_inside) simp_all
    also have "\<dots> = rd32 m (src + (p + j - dst))"
      using assms that by (intro rd32_slice) linarith
    finally show ?thesis using assms(3) by (simp add: add.assoc)
  qed
  from this [of 0] this [of 4] this [of 8] show ?thesis by (simp add: pkey_of_def)
qed

lemma insert_page_key_eq:
  assumes "i \<le> n" and "n < 4294967296" and "base + 12 * n + 12 \<le> length m"
  shows "insert_page_key m base (of_nat n) pk (of_nat i) = Some (key_insert m base n i pk)"
proof -
  have n: "unat (of_nat n :: u32) = n" and i: "unat (of_nat i :: u32) = i"
    using assms(1,2) by (auto intro: unat_u32_of_nat)
  have ge: "(of_nat i :: u32) \<le> of_nat n"
    using assms(1) by (simp add: word_le_nat_alt n i)
  have d: "unat (of_nat n - of_nat i :: u32) = n - i"
    using unat_sub_ok [of "of_nat i" "of_nat n"] assms(1) by (simp add: n i)
  have dist: "12 * (n - i) = 12 * n - 12 * i" by (rule diff_mult_distrib2)
  have le: "12 * i \<le> 12 * n" using assms(1) by simp
  show ?thesis
    using ge le assms(3)
    by (simp add: insert_page_key_def Let_def layout_defs i d mem_move_def mem_read_slice
        mem_write_patch key_insert_def dist mult.commute [of _ 12])
qed

lemma key_insert_frame:
  assumes "i \<le> n" and "base + 12 * n + 12 \<le> length m"
  shows "length (key_insert m base n i pk) = length m"
    and "p + k \<le> base \<or> base + 12 * n + 12 \<le> p
         \<Longrightarrow> slice (key_insert m base n i pk) p k = slice m p k"
proof -
  have dist: "12 * (n - i) = 12 * n - 12 * i" by (rule diff_mult_distrib2)
  have le: "12 * i \<le> 12 * n" using assms(1) by simp
  have len: "length (slice m (base + 12 * i) (12 * (n - i))) = 12 * n - 12 * i"
    using assms(2) le by (simp add: dist)
  show "length (key_insert m base n i pk) = length m"
    using assms(2) le len by (simp add: key_insert_def)
  show "slice (key_insert m base n i pk) p k = slice m p k"
    if "p + k \<le> base \<or> base + 12 * n + 12 \<le> p"
    using assms(2) le len that
    by (auto simp: key_insert_def slice_patch_disjoint)
qed

lemma pkey_of_key_insert:
  assumes "i \<le> n" and "base + 12 * n + 12 \<le> length m" and "j \<le> n"
  shows "pkey_of (key_insert m base n i pk) (base + 12 * j) =
    (if j < i then pkey_of m (base + 12 * j) else if j = i then pk
     else pkey_of m (base + 12 * (j - 1)))"
proof -
  have dist: "12 * (n - i) = 12 * n - 12 * i" by (rule diff_mult_distrib2)
  have le: "12 * i \<le> 12 * n" "12 * j \<le> 12 * n" using assms by simp_all
  define m1 where "m1 = patch m (base + 12 * i + 12) (slice m (base + 12 * i) (12 * (n - i)))"
  have len: "length (slice m (base + 12 * i) (12 * (n - i))) = 12 * n - 12 * i"
    using assms(2) le by (simp add: dist)
  have len1: "length m1 = length m" using assms(2) le len by (simp add: m1_def)
  have k: "key_insert m base n i pk = patch m1 (base + 12 * i) (pkey_bytes pk)"
    by (simp add: key_insert_def m1_def)
  consider "j < i" | "j = i" | "i < j" by linarith
  then show ?thesis
  proof cases
    case 1
    then have "base + 12 * j + 12 \<le> base + 12 * i" by simp
    with 1 assms le len len1 show ?thesis
      by (simp add: k pkey_of_patch_disjoint m1_def)
  next
    case 2
    with assms len1 show ?thesis by (simp add: k pkey_of_bytes)
  next
    case 3
    then have ij: "12 * i + 12 \<le> 12 * j" by simp
    have "pkey_of m1 (base + 12 * j) = pkey_of m (base + 12 * i + (base + 12 * j - (base + 12 * i + 12)))"
      unfolding m1_def
      by (rule pkey_of_patch_slice) (use assms(2) le ij dist in linarith)+
    also have "base + 12 * i + (base + 12 * j - (base + 12 * i + 12)) = base + 12 * (j - 1)"
      using ij by (simp add: diff_mult_distrib2)
    finally have "pkey_of m1 (base + 12 * j) = pkey_of m (base + 12 * (j - 1))" .
    with 3 ij assms le len1 show ?thesis
      by (simp add: k pkey_of_patch_disjoint)
  qed
qed

section \<open>Insertion\<close>

definition insert_pos :: "btree_node \<Rightarrow> insertion_index \<Rightarrow> nat" where
  "insert_pos node index =
     (if ii_mode index = KLIM_END then n_keys node else unat (ii_index index))"

lemma hdr_set_eq:
  assumes "node_shape node" and "field + 4 \<le> 20"
  shows "hdr_set node field v =
    Some (set_node_mem node (patch (node_mem node) (node_header node + field) (ser_write_32bit_le v)))"
  using assms by (simp add: hdr_set_def mem_write32_patch node_shape_def node_end_def)

lemma u32_of_nat_unat [simp]: "(of_nat (unat w) :: u32) = w"
  by simp

lemma rd32_key_insert_hdr:
  assumes "i \<le> n" and "base + 12 * n + 12 \<le> length m" and "p + 4 \<le> base"
  shows "rd32 (key_insert m base n i pk) p = rd32 m p"
  using key_insert_frame(2) [OF assms(1,2), of p 4] assms(3) by (simp add: rd32_def)

text \<open>The memory after \<open>write_page_key\<close>: the slot is filled and three header fields are updated.\<close>

definition page_key_written :: "btree_node \<Rightarrow> nat \<Rightarrow> u32 \<Rightarrow> nat \<Rightarrow> u32 \<Rightarrow> bytes" where
  "page_key_written node i key cs flags =
     (let h = node_header node;
          pk = \<lparr>pk_key = key, pk_cell_offset = of_nat (n_hwm node + cs), pk_flags = flags\<rparr>;
          m = key_insert (node_mem node) (h + 20) (n_keys node) i pk;
          m = patch m (h + 8) (ser_write_32bit_le (of_nat (n_keys node + 1)));
          m = patch m (h + 16) (ser_write_32bit_le (of_nat (n_hwm node + cs))) in
      patch m (h + 4) (ser_write_32bit_le (of_nat (n_free node - (cs + 12)))))"

lemma n_bounds: "n_keys node < 4294967296" "n_free node < 4294967296" "n_hwm node < 4294967296"
  by (simp_all add: n_keys_def n_free_def n_hwm_def u32_bound)

lemma write_page_key_eq:
  assumes shape: "node_shape node" and pos: "insert_pos node index \<le> n_keys node"
    and room: "node_header node + 20 + 12 * n_keys node + 12 \<le> node_end node"
    and fits: "cs + 12 \<le> n_free node"
  shows "write_page_key node index key (of_nat cs) flags =
    Some (BTREE_OK, set_node_mem node (page_key_written node (insert_pos node index) key cs flags))"
proof -
  let ?h = "node_header node" and ?i = "insert_pos node index" and ?n = "n_keys node"
  define pk where "pk = \<lparr>pk_key = key, pk_cell_offset = of_nat (n_hwm node + cs), pk_flags = flags\<rparr>"
  define m2 where "m2 = key_insert (node_mem node) (?h + 20) ?n ?i pk"
  define m3 where "m3 = patch m2 (?h + 8) (ser_write_32bit_le (of_nat (?n + 1)))"
  define m4 where "m4 = patch m3 (?h + 16) (ser_write_32bit_le (of_nat (n_hwm node + cs)))"
  have lm: "length (node_mem node) = node_end node" by (simp add: node_end_def)
  have room': "?h + 20 + 12 * ?n + 12 \<le> length (node_mem node)" using room by (simp add: lm)
  have l2: "length m2 = node_end node"
    using key_insert_frame(1) [OF pos room'] by (simp add: m2_def lm)
  have l3: "length m3 = node_end node" using l2 room by (simp add: m3_def)
  have l4: "length m4 = node_end node" using l3 room by (simp add: m4_def)
  have ins: "insert_page_key (node_mem node) (node_keys node) (of_nat ?n)
      \<lparr>pk_key = key, pk_cell_offset = of_nat (n_hwm node) + of_nat cs, pk_flags = flags\<rparr>
      (if ii_mode index = KLIM_END then of_nat ?n else ii_index index) = Some m2"
  proof -
    have "(if ii_mode index = KLIM_END then of_nat ?n else ii_index index) = (of_nat ?i :: u32)"
      by (simp add: insert_pos_def)
    with insert_page_key_eq [OF pos n_bounds(1) room', of pk] show ?thesis
      by (simp add: node_keys_def layout_defs m2_def pk_def)
  qed
  have r2: "rd32 m2 p = rd32 (node_mem node) p" if "p + 4 \<le> ?h + 20" for p
    using rd32_key_insert_hdr [OF pos room' that] by (simp add: m2_def)
  have nk2: "node_num_keys (set_node_mem node m2) = Some (of_nat ?n)"
    using header_gets(1) [of "set_node_mem node m2"] shape l2 r2 by (simp add: n_keys_def)
  have hw3: "node_high_water (set_node_mem node m3) = Some (of_nat (n_hwm node))"
    using header_gets(3) [of "set_node_mem node m3"] shape l2 l3 r2 room
    by (simp add: n_hwm_def m3_def rd32_patch_disjoint)
  have fh4: "node_free_heap (set_node_mem node m4) = Some (of_nat (n_free node))"
    using header_gets(2) [of "set_node_mem node m4"] shape l2 l3 l4 r2 room
    by (simp add: n_free_def m3_def m4_def rd32_patch_disjoint)
  have s3: "hdr_set (set_node_mem node m2) hdr_num_keys (of_nat ?n + 1) = Some (set_node_mem node m3)"
    using hdr_set_eq [of "set_node_mem node m2" 8] shape l2
    by (simp add: m3_def layout_defs add.commute)
  have s4: "hdr_set (set_node_mem node m3) hdr_cell_high_water_offset (of_nat (n_hwm node) + of_nat cs) =
      Some (set_node_mem node m4)"
    using hdr_set_eq [of "set_node_mem node m3" 16] shape l3
    by (simp add: m4_def layout_defs)
  have sub: "of_nat (n_free node) - btree_node_heap_required_for_insertion (of_nat cs) =
      (of_nat (n_free node - (cs + 12)) :: u32)"
    using fits by (simp add: btree_node_heap_required_for_insertion_def layout_defs of_nat_diff)
  have s5: "hdr_set (set_node_mem node m4) hdr_free_heap
      (of_nat (n_free node) - btree_node_heap_required_for_insertion (of_nat cs)) =
      Some (set_node_mem node (page_key_written node ?i key cs flags))"
    using hdr_set_eq [of "set_node_mem node m4" 4] shape l4
    by (simp add: sub layout_defs page_key_written_def Let_def m4_def m3_def m2_def pk_def)
  show ?thesis
    using header_gets [OF shape] ins nk2 s3 hw3 s4 fh4 s5
    by (simp add: write_page_key_def Let_def)
qed

lemma slice_patch_word:
  "off + 4 \<le> length m \<Longrightarrow> p + k \<le> off \<or> off + 4 \<le> p
   \<Longrightarrow> slice (patch m off (ser_write_32bit_le v)) p k = slice m p k"
  by (simp add: slice_patch_disjoint)

lemma page_key_written_facts:
  fixes node :: btree_node and key flags :: u32
  defines "h \<equiv> node_header node" and "n \<equiv> n_keys node"
  assumes room: "h + 20 + 12 * n + 12 \<le> node_end node" and i: "i \<le> n"
    and small: "node_end node < 4294967296" and hw: "n_hwm node + cs < 4294967296"
    and fits: "cs + 12 \<le> n_free node"
  defines "node' \<equiv> set_node_mem node (page_key_written node i key cs flags)"
  shows "node_end node' = node_end node"
    and "n_keys node' = n + 1" and "n_hwm node' = n_hwm node + cs"
    and "n_free node' = n_free node - (cs + 12)"
    and "j \<le> n \<Longrightarrow> pkey node' j = (if j < i then pkey node j
           else if j = i then \<lparr>pk_key = key, pk_cell_offset = of_nat (n_hwm node + cs), pk_flags = flags\<rparr>
           else pkey node (j - 1))"
    and "h + 20 + 12 * n + 12 \<le> p \<or> p + k \<le> h + 4 \<or> (h + 12 \<le> p \<and> p + k \<le> h + 16)
         \<Longrightarrow> slice (node_mem node') p k = slice (node_mem node) p k"
proof -
  define pk where "pk = \<lparr>pk_key = key, pk_cell_offset = of_nat (n_hwm node + cs), pk_flags = flags\<rparr>"
  define m2 where "m2 = key_insert (node_mem node) (h + 20) n i pk"
  define m3 where "m3 = patch m2 (h + 8) (ser_write_32bit_le (of_nat (n + 1)))"
  define m4 where "m4 = patch m3 (h + 16) (ser_write_32bit_le (of_nat (n_hwm node + cs)))"
  define m5 where "m5 = patch m4 (h + 4) (ser_write_32bit_le (of_nat (n_free node - (cs + 12))))"
  have mem': "node_mem node' = m5"
    by (simp add: node'_def page_key_written_def Let_def h_def n_def m5_def m4_def m3_def m2_def pk_def)
  have hdr': "node_header node' = h" by (simp add: node'_def h_def)
  have lm: "length (node_mem node) = node_end node" by (simp add: node_end_def)
  have room': "h + 20 + 12 * n + 12 \<le> length (node_mem node)" using room by (simp add: lm)
  have l2: "length m2 = node_end node"
    using key_insert_frame(1) [OF i room'] by (simp add: m2_def lm)
  have l3: "length m3 = node_end node" using l2 room by (simp add: m3_def)
  have l4: "length m4 = node_end node" using l3 room by (simp add: m4_def)
  have l5: "length m5 = node_end node" using l4 room by (simp add: m5_def)
  show "node_end node' = node_end node" unfolding node_end_def [of node'] mem' by (rule l5)
  have r5: "rd32 m5 (h + f) = rd32 m4 (h + f)" if "f = 8 \<or> f = 16" for f
    unfolding m5_def by (rule rd32_patch_disjoint) (use l4 room that in auto)
  have r4: "rd32 m4 (h + 8) = rd32 m3 (h + 8)"
    unfolding m4_def by (rule rd32_patch_disjoint) (use l3 room in auto)
  have k8: "rd32 m5 (h + 8) = of_nat (n + 1)"
    using r5 [of 8] r4 l2 room by (simp add: m3_def)
  have k16: "rd32 m5 (h + 16) = of_nat (n_hwm node + cs)"
    using r5 [of 16] l3 room by (simp add: m4_def)
  have k4: "rd32 m5 (h + 4) = of_nat (n_free node - (cs + 12))"
    using l4 room by (simp add: m5_def)
  have "n + 1 < 4294967296" using room small by linarith
  then show "n_keys node' = n + 1"
    unfolding n_keys_def mem' hdr' k8 by (rule unat_u32_of_nat)
  show "n_hwm node' = n_hwm node + cs"
    unfolding n_hwm_def [of node'] mem' hdr' k16 using hw by (rule unat_u32_of_nat)
  have "n_free node - (cs + 12) < 4294967296" using n_bounds(2) [of node] by linarith
  then show "n_free node' = n_free node - (cs + 12)"
    unfolding n_free_def [of node'] mem' hdr' k4 by (rule unat_u32_of_nat)
  have sl: "slice m5 p k = slice m2 p k"
    if "h + 20 \<le> p \<or> p + k \<le> h + 4 \<or> (h + 12 \<le> p \<and> p + k \<le> h + 16)" for p k
  proof -
    have "slice m5 p k = slice m4 p k" unfolding m5_def
      using l4 room that by (intro slice_patch_word) auto
    also have "\<dots> = slice m3 p k" unfolding m4_def
      using l3 room that by (intro slice_patch_word) auto
    also have "\<dots> = slice m2 p k" unfolding m3_def
      using l2 room that by (intro slice_patch_word) auto
    finally show ?thesis .
  qed
  show "pkey node' j = (if j < i then pkey node j
      else if j = i then \<lparr>pk_key = key, pk_cell_offset = of_nat (n_hwm node + cs), pk_flags = flags\<rparr>
      else pkey node (j - 1))" if "j \<le> n"
  proof -
    have "pkey node' j = pkey_of m2 (h + 20 + 12 * j)"
      using sl by (simp add: pkey_def pkey_of_def rd32_def mem' hdr')
    also have "\<dots> = (if j < i then pkey node j else if j = i then pk else pkey node (j - 1))"
      using pkey_of_key_insert [OF i room' that, of pk] by (simp add: m2_def pkey_def h_def)
    finally show ?thesis by (simp add: pk_def)
  qed
  show "slice (node_mem node') p k = slice (node_mem node) p k"
    if a: "h + 20 + 12 * n + 12 \<le> p \<or> p + k \<le> h + 4 \<or> (h + 12 \<le> p \<and> p + k \<le> h + 16)"
  proof -
    have "slice m5 p k = slice m2 p k" using a by (intro sl) auto
    also have "\<dots> = slice (node_mem node) p k" unfolding m2_def
      using a by (intro key_insert_frame(2) [OF i room']) auto
    finally show ?thesis by (simp add: mem')
  qed
qed

lemma node_inv_shape: "node_inv node \<Longrightarrow> node_shape node"
  by (simp add: node_inv_def)

lemma node_end_small: "node_shape node \<Longrightarrow> node_end node < 2147483648 + 12"
  by (simp add: node_shape_def)

text \<open>A cell whose bytes do not change keeps its size and payload.\<close>

lemma cell_frame:
  assumes "node_end node' = node_end node" and "cell_size node off + 4 \<le> off" and "off \<le> node_end node"
    and "\<And>p k. node_end node - off \<le> p \<Longrightarrow> p + k \<le> node_end node
          \<Longrightarrow> slice (node_mem node') p k = slice (node_mem node) p k"
  shows "cell_size node' off = cell_size node off" "cell_payload node' off = cell_payload node off"
proof -
  have "slice (node_mem node') (node_end node - off) 4 = slice (node_mem node) (node_end node - off) 4"
    using assms(2,3) by (intro assms(4)) linarith+
  then show sz: "cell_size node' off = cell_size node off"
    by (simp add: cell_size_def rd32_def assms(1))
  have "slice (node_mem node') (node_end node - off + 4) (cell_size node off) =
      slice (node_mem node) (node_end node - off + 4) (cell_size node off)"
    using assms(2,3) by (intro assms(4)) linarith+
  then show "cell_payload node' off = cell_payload node off"
    by (simp add: cell_payload_def sz assms(1))
qed

lemma upt_insert: "i \<le> n \<Longrightarrow> [0..<Suc n] = [0..<i] @ i # map Suc [i..<n]"
  using upt_add_eq_append [of 0 i "Suc n - i"] by (simp add: upt_conv_Cons map_Suc_upt)

text \<open>
  The common part of all insertions: the bytes of a cell are put in front of the heap and a key
  for it into the array.
\<close>

definition cell_written :: "btree_node \<Rightarrow> bytes \<Rightarrow> btree_node" where
  "cell_written node img = set_node_mem node
     (patch (node_mem node) (node_end node - (n_hwm node + length img)) img)"

definition cell_inserted :: "btree_node \<Rightarrow> nat \<Rightarrow> u32 \<Rightarrow> bytes \<Rightarrow> u32 \<Rightarrow> btree_node" where
  "cell_inserted node i key img flags =
     (let node1 = cell_written node img in
      set_node_mem node1 (page_key_written node1 i key (length img) flags))"

lemma insert_room:
  assumes "node_inv node" and "length img + 12 \<le> n_free node"
  shows "node_header node + 20 + 12 * n_keys node + 12 + length img + n_hwm node \<le> node_end node"
    and "n_hwm node + length img < 4294967296" "node_end node < 4294967296"
proof -
  show 1: "node_header node + 20 + 12 * n_keys node + 12 + length img + n_hwm node \<le> node_end node"
    using assms by (simp add: node_inv_def)
  show 2: "node_end node < 4294967296"
    using node_end_small [OF node_inv_shape [OF assms(1)]] by simp
  from 1 2 show "n_hwm node + length img < 4294967296" by linarith
qed

lemma cell_written_facts:
  assumes inv: "node_inv node" and fits: "length img + 12 \<le> n_free node"
  shows "node_end (cell_written node img) = node_end node"
    and "node_header (cell_written node img) = node_header node"
    and "node_shape (cell_written node img)"
    and "n_keys (cell_written node img) = n_keys node"
    and "n_free (cell_written node img) = n_free node"
    and "n_hwm (cell_written node img) = n_hwm node"
    and "j < n_keys node \<Longrightarrow> pkey (cell_written node img) j = pkey node j"
    and "p + k \<le> node_end node - (n_hwm node + length img) \<or> node_end node - n_hwm node \<le> p
         \<Longrightarrow> slice (node_mem (cell_written node img)) p k = slice (node_mem node) p k"
    and "slice (node_mem (cell_written node img)) (node_end node - (n_hwm node + length img))
           (length img) = img"
proof -
  let ?h = "node_header node" and ?n = "n_keys node" and ?e = "node_end node" and ?w = "n_hwm node"
  define at where "at = ?e - (?w + length img)"
  note room = insert_room [OF assms]
  have at_ge: "?h + 20 + 12 * ?n + 12 \<le> at" and at_end: "at + length img + ?w = ?e"
    using room(1) by (simp_all add: at_def)
  have lm: "length (node_mem node) = ?e" by (simp add: node_end_def)
  have mem: "node_mem (cell_written node img) = patch (node_mem node) at img"
    by (simp add: cell_written_def at_def)
  have inm: "at + length img \<le> length (node_mem node)" using at_end lm by simp
  have l1: "length (patch (node_mem node) at img) = ?e"
    using inm lm by simp
  then show "node_end (cell_written node img) = ?e"
    by (simp add: node_end_def [of "cell_written node img"] mem)
  show h1: "node_header (cell_written node img) = ?h" by (simp add: cell_written_def)
  show "node_shape (cell_written node img)"
    using node_inv_shape [OF inv] l1 by (simp add: cell_written_def at_def)
  have sl: "slice (patch (node_mem node) at img) p k = slice (node_mem node) p k"
    if "p + k \<le> at \<or> at + length img \<le> p" for p k
    using inm that by (rule slice_patch_disjoint)
  have hd1: "rd32 (patch (node_mem node) at img) p = rd32 (node_mem node) p" if "p + 4 \<le> at" for p
    using sl [of p 4] that by (simp add: rd32_def)
  show "n_keys (cell_written node img) = ?n" "n_free (cell_written node img) = n_free node"
    "n_hwm (cell_written node img) = ?w"
    using hd1 at_ge by (simp_all add: n_keys_def n_free_def n_hwm_def h1 mem)
  show "pkey (cell_written node img) j = pkey node j" if "j < ?n"
  proof -
    have "?h + 20 + 12 * j + 12 \<le> at" using that at_ge by simp
    then show ?thesis using hd1 by (simp add: pkey_def pkey_of_def h1 mem)
  qed
  show "slice (node_mem (cell_written node img)) p k = slice (node_mem node) p k"
    if "p + k \<le> ?e - (?w + length img) \<or> ?e - ?w \<le> p"
  proof -
    have "p + k \<le> at \<or> at + length img \<le> p"
      using that at_end unfolding at_def by linarith
    then show ?thesis unfolding mem by (rule sl)
  qed
  show "slice (node_mem (cell_written node img)) (?e - (?w + length img)) (length img) = img"
    unfolding mem at_def [symmetric] using inm by (intro slice_patch_same) simp_all
qed

lemma cell_inserted_facts:
  fixes key flags :: u32
  assumes inv: "node_inv node" and i: "i \<le> n_keys node" and fits: "length img + 12 \<le> n_free node"
  defines "node' \<equiv> cell_inserted node i key img flags"
  shows "node_end node' = node_end node" and "node_header node' = node_header node"
    and "node_shape node'"
    and "n_keys node' = n_keys node + 1" and "n_free node' = n_free node - (length img + 12)"
    and "n_hwm node' = n_hwm node + length img"
    and "j \<le> n_keys node \<Longrightarrow> pkey node' j = (if j < i then pkey node j
           else if j = i then \<lparr>pk_key = key, pk_cell_offset = of_nat (n_hwm node + length img),
             pk_flags = flags\<rparr>
           else pkey node (j - 1))"
    and "p + k \<le> node_header node + 4 \<or>
           (node_header node + 12 \<le> p \<and> p + k \<le> node_header node + 16) \<or>
           node_end node - n_hwm node \<le> p
         \<Longrightarrow> slice (node_mem node') p k = slice (node_mem node) p k"
    and "slice (node_mem node') (node_end node - (n_hwm node + length img)) (length img) = img"
proof -
  let ?h = "node_header node" and ?n = "n_keys node" and ?e = "node_end node" and ?w = "n_hwm node"
  define node1 where "node1 = cell_written node img"
  note F = cell_written_facts [OF inv fits, folded node1_def]
  note room = insert_room [OF inv fits]
  have node': "node' = set_node_mem node1 (page_key_written node1 i key (length img) flags)"
    by (simp add: node'_def cell_inserted_def Let_def node1_def)
  have r: "node_header node1 + 20 + 12 * n_keys node1 + 12 \<le> node_end node1"
    using room(1) by (simp add: F)
  have i1: "i \<le> n_keys node1" using i by (simp add: F)
  have s1: "node_end node1 < 4294967296" "n_hwm node1 + length img < 4294967296"
    using room(2,3) by (simp_all add: F)
  have f1: "length img + 12 \<le> n_free node1" using fits by (simp add: F)
  note W = page_key_written_facts [OF r i1 s1 f1, where key = key and flags = flags, folded node']
  show end': "node_end node' = ?e" using W(1) by (simp add: F)
  show "node_header node' = ?h" by (simp add: node' F)
  have "length (page_key_written node1 i key (length img) flags) = node_end node1"
    using W(1) unfolding node_end_def [of node'] unfolding node' by simp
  then show "node_shape node'" using F(3) by (simp add: node')
  show "n_keys node' = ?n + 1" "n_free node' = n_free node - (length img + 12)"
    "n_hwm node' = ?w + length img"
    using W(2,3,4) by (simp_all add: F)
  show "pkey node' j = (if j < i then pkey node j
      else if j = i then \<lparr>pk_key = key, pk_cell_offset = of_nat (?w + length img), pk_flags = flags\<rparr>
      else pkey node (j - 1))" if "j \<le> ?n"
  proof -
    have "pkey node1 j = pkey node j" if "j < i" using that i by (intro F(7)) simp
    moreover have "pkey node1 (j - 1) = pkey node (j - 1)" if "\<not> j < i" "j \<noteq> i"
      using that \<open>j \<le> ?n\<close> by (intro F(7)) simp
    ultimately show ?thesis using W(5) [of j] that by (simp add: F)
  qed
  have above: "?h + 20 + 12 * ?n + 12 \<le> ?e - (?w + length img)" using room(1) by simp
  show "slice (node_mem node') p k = slice (node_mem node) p k"
    if a: "p + k \<le> ?h + 4 \<or> (?h + 12 \<le> p \<and> p + k \<le> ?h + 16) \<or> ?e - ?w \<le> p"
  proof -
    have "slice (node_mem node') p k = slice (node_mem node1) p k"
      using a above by (intro W(6)) (simp add: F, linarith)
    also have "\<dots> = slice (node_mem node) p k"
      using a above by (intro F(8)) linarith
    finally show ?thesis .
  qed
  show "slice (node_mem node') (?e - (?w + length img)) (length img) = img"
    using W(6) [of "?e - (?w + length img)" "length img"] above F(9) by (simp add: F)
qed

text \<open>
  Why that is an insertion: the new entry has the bytes behind the size field as its payload,
  all other entries keep theirs.
\<close>

lemma insert_cell:
  fixes key flags :: u32
  assumes inv: "node_inv node" and i: "i \<le> n_keys node" and fits: "length img + 12 \<le> n_free node"
    and img: "4 \<le> length img" "unat (rd32 img 0) + 4 = length img"
  defines "node' \<equiv> cell_inserted node i key img flags"
  shows "node_inv node'"
    and "node_abs node' = insert_at i (key, flags, drop 4 img) (node_abs node)"
proof -
  let ?n = "n_keys node" and ?w = "n_hwm node" and ?e = "node_end node"
  note F = cell_inserted_facts [OF inv i fits, where key = key and flags = flags, folded node'_def]
  have acct: "node_header node + 20 + 12 * ?n + n_free node + ?w = ?e"
    using inv by (simp add: node_inv_def)
  have off_new: "unat (of_nat (?w + length img) :: u32) = ?w + length img"
    using insert_room(2) [OF inv fits] by (rule unat_u32_of_nat)
  have off': "cell_off node' j = (if j < i then cell_off node j else if j = i then ?w + length img
      else cell_off node (j - 1))" if "j \<le> ?n" for j
    using F(7) [OF that] off_new by (simp add: cell_off_def)
  define at where "at = ?e - (?w + length img)"
  have word: "slice (node_mem node') at 4 = slice img 0 4"
    using arg_cong [OF F(9), of "\<lambda>b. slice b 0 4"] img(1) by (simp add: slice_slice flip: at_def)
  have size_new: "cell_size node' (?w + length img) = length img - 4"
    using word img(2) by (simp add: cell_size_def F(1) rd32_def flip: at_def)
  have pay_new: "cell_payload node' (?w + length img) = drop 4 img"
    using arg_cong [OF F(9), of "\<lambda>b. slice b 4 (length img - 4)"] img(1)
    by (simp add: cell_payload_def size_new F(1) slice_slice flip: at_def) (simp add: slice_def)
  have old: "cell_ok node' j' \<and> cell_payload node' (cell_off node j) = cell_payload node (cell_off node j)"
    if "j < ?n" "cell_off node' j' = cell_off node j" for j j'
  proof -
    have ok: "cell_off node j \<le> ?w" "cell_size node (cell_off node j) + 4 \<le> cell_off node j"
      using inv that(1) by (simp_all add: node_inv_def cell_ok_def)
    have "cell_off node j \<le> ?e" using ok(1) acct by linarith
    note fr = cell_frame [OF F(1) ok(2) this]
    have "slice (node_mem node') p k = slice (node_mem node) p k" if "?e - cell_off node j \<le> p" for p k
      using that ok(1) by (intro F(8)) linarith
    with fr ok that(2) show ?thesis by (simp add: cell_ok_def F(6))
  qed
  have ok': "cell_ok node' j" if "j \<le> ?n" for j
    using old [of "if j < i then j else j - 1" j] off' [OF that] that i img(1) size_new
    by (cases "j = i") (auto simp: cell_ok_def F(6) split: if_splits)
  show "node_inv node'"
    using acct fits ok' by (auto simp: node_inv_def F(1-6))
  have ent: "node_entry node' j = (if j < i then node_entry node j
      else if j = i then (key, flags, drop 4 img) else node_entry node (j - 1))" if "j \<le> ?n" for j
    using old [of "if j < i then j else j - 1" j] off' [OF that] F(7) [OF that] that i pay_new
    by (auto simp: node_entry_def)
  have "map (node_entry node') [0..<i] = map (node_entry node) [0..<i]"
    using ent i by simp
  moreover have "map (node_entry node' \<circ> Suc) [i..<?n] = map (node_entry node) [i..<?n]"
    using ent by simp
  moreover have "insert_at i x (node_abs node) =
      map (node_entry node) [0..<i] @ x # map (node_entry node) [i..<?n]" for x
    using i by (simp add: insert_at_def node_abs_def take_map drop_map)
  ultimately show "node_abs node' = insert_at i (key, flags, drop 4 img) (node_abs node)"
    using upt_insert [OF i] ent [OF i] by (simp add: node_abs_def F(4) del: upt_Suc)
qed

section \<open>The insertion functions\<close>

lemma cell_sizes:
  assumes "unat isz < 2147483648"
  shows "unat (btree_cell_inline_disk_size isz) = unat isz + 4"
    and "unat (btree_node_heap_required_for_insertion (btree_cell_inline_disk_size isz)) = unat isz + 16"
proof -
  show 1: "unat (btree_cell_inline_disk_size isz) = unat isz + 4"
    using assms unat_add_ok [of 4 isz] by (simp add: btree_cell_inline_disk_size_def)
  show "unat (btree_node_heap_required_for_insertion (btree_cell_inline_disk_size isz)) = unat isz + 16"
    using assms 1 unat_add_ok [of "btree_cell_inline_disk_size isz" 12]
    by (simp add: btree_node_heap_required_for_insertion_def layout_defs)
qed

lemma n_free_word: "unat (of_nat (n_free node) :: u32) = n_free node"
  by (rule unat_u32_of_nat [OF n_bounds(2)])

text \<open>The insertion point of a cell that fits, and the key written for it.\<close>

lemma insertion_run:
  assumes inv: "node_inv node" and pos: "insert_pos node index \<le> n_keys node"
    and fits: "length img + 12 \<le> n_free node" and cs: "unat cs = length img"
  shows "btu_calc_highwater_offset node (of_nat (n_hwm node) + cs) =
      Some (node_end node - (n_hwm node + length img))"
    and "write_page_key (cell_written node img) index key cs flags =
      Some (BTREE_OK, cell_inserted node (insert_pos node index) key img flags)"
proof -
  note room = insert_room [OF inv fits]
  note F = cell_written_facts [OF inv fits]
  have sum: "unat (of_nat (n_hwm node) + cs :: u32) = n_hwm node + length img"
    using room(2) cs unat_add_ok [of "of_nat (n_hwm node)" cs] n_bounds(3) [of node]
    by (simp add: unat_u32_of_nat)
  have "n_hwm node + length img < 2147483648"
    using room(1) node_end_small [OF node_inv_shape [OF inv]] by linarith
  then show "btu_calc_highwater_offset node (of_nat (n_hwm node) + cs) =
      Some (node_end node - (n_hwm node + length img))"
    using highwater_offset [OF node_inv_shape [OF inv], of "of_nat (n_hwm node) + cs"] sum room(1)
    by simp
  have "insert_pos (cell_written node img) index = insert_pos node index"
    by (simp add: insert_pos_def F)
  moreover have "of_nat (length img) = cs" using cs by (simp flip: cs)
  ultimately show "write_page_key (cell_written node img) index key cs flags =
      Some (BTREE_OK, cell_inserted node (insert_pos node index) key img flags)"
    using write_page_key_eq [OF F(3), of index "length img" key flags] pos room(1) fits
    by (simp add: F cell_inserted_def Let_def)
qed

lemma insert_inline_ex_full:
  assumes "node_inv node" and "unat (ci_inline_size cell) < 2147483648"
    and "n_free node < unat (ci_inline_size cell) + 16"
  shows "btree_node_insert_inline_ex node index key cell flags =
    Some (BTREE_ERR_NODE_NOT_ENOUGH_SPACE, node)"
  using assms header_gets(2) [OF node_inv_shape [OF assms(1)]] cell_sizes(2) [OF assms(2)]
  by (simp add: btree_node_insert_inline_ex_def Let_def word_less_nat_alt n_free_word)

lemma insert_inline_ex_fits:
  assumes inv: "node_inv node" and pos: "insert_pos node index \<le> n_keys node"
    and pay: "unat (ci_inline_size cell) \<le> length (ci_payload cell)"
    and size: "unat (ci_inline_size cell) < 2147483648"
    and fits: "unat (ci_inline_size cell) + 16 \<le> n_free node"
  shows "btree_node_insert_inline_ex node index key cell flags =
    Some (BTREE_OK, cell_inserted node (insert_pos node index) key (inline_image cell) flags)"
proof -
  have len: "length (inline_image cell) = unat (ci_inline_size cell) + 4"
    using length_inline_image [OF pay] by simp
  have fits': "length (inline_image cell) + 12 \<le> n_free node" using len fits by simp
  have cs: "unat (btree_cell_inline_disk_size (ci_inline_size cell)) = length (inline_image cell)"
    using cell_sizes(1) [OF size] len by simp
  note run = insertion_run [OF inv pos fits' cs]
  have "node_end node - (n_hwm node + length (inline_image cell)) + 4 + unat (ci_inline_size cell) \<le>
      length (node_mem node)"
    using insert_room(1) [OF inv fits'] len by (simp add: node_end_def)
  from write_inline_image [OF pay this] show ?thesis
    using run header_gets [OF node_inv_shape [OF inv]] cell_sizes(2) [OF size] fits
    by (simp add: btree_node_insert_inline_ex_def Let_def word_less_nat_alt n_free_word
        flip: cell_written_def)
qed

lemma insert_overflow_full:
  assumes "node_inv node" and "unat (co_inline_size cell) < 2147483648"
    and "n_free node < unat (co_inline_size cell) + 16"
  shows "btree_node_insert_overflow node index key cell =
    Some (BTREE_ERR_NODE_NOT_ENOUGH_SPACE, node)"
  using assms header_gets(2) [OF node_inv_shape [OF assms(1)]] cell_sizes(2) [OF assms(2)]
  by (simp add: btree_node_insert_overflow_def Let_def word_less_nat_alt n_free_word)

definition overflow_flags :: u32 where
  "overflow_flags = btree_pkey_set_cell_type 0 PKEY_FLAG_CELL_TYPE_OVERFLOW"

lemma insert_overflow_fits:
  assumes inv: "node_inv node" and pos: "insert_pos node index \<le> n_keys node"
    and pay: "unat (co_inline_size cell) - 8 \<le> length (co_inline_payload cell)"
    and size: "8 \<le> unat (co_inline_size cell)" "unat (co_inline_size cell) < 2147483648"
    and fits: "unat (co_inline_size cell) + 16 \<le> n_free node"
  shows "btree_node_insert_overflow node index key cell =
    Some (BTREE_OK, cell_inserted node (insert_pos node index) key (overflow_image cell) overflow_flags)"
proof -
  have len: "length (overflow_image cell) = unat (co_inline_size cell) + 4"
    using length_overflow_image [OF size(1) pay] by simp
  have fits': "length (overflow_image cell) + 12 \<le> n_free node" using len fits by simp
  have cs: "unat (btree_cell_inline_disk_size (co_inline_size cell)) = length (overflow_image cell)"
    using cell_sizes(1) [OF size(2)] len by simp
  note run = insertion_run [OF inv pos fits' cs]
  have inm: "node_end node - (n_hwm node + length (overflow_image cell)) +
      unat (btree_cell_inline_disk_size (co_inline_size cell)) \<le> length (node_mem node)"
    using insert_room(1) [OF inv fits'] cs by (simp add: node_end_def)
  have sz: "unat (btree_cell_inline_disk_size (co_inline_size cell)) = 4 + unat (co_inline_size cell)"
    using cs len by simp
  obtain w where "btree_cell_write_overflow_ex cell (btree_cell_init_overflow_writer
      (node_end node - (n_hwm node + length (overflow_image cell)))
      (btree_cell_inline_disk_size (co_inline_size cell))) (node_mem node) =
      Some (BTREE_OK, patch (node_mem node)
        (node_end node - (n_hwm node + length (overflow_image cell))) (overflow_image cell), w)"
    using write_overflow_image [OF size(1) pay sz inm] by blast
  then show ?thesis
    using run header_gets [OF node_inv_shape [OF inv]] cell_sizes(2) [OF size(2)] fits
    by (simp add: btree_node_insert_overflow_def Let_def word_less_nat_alt n_free_word
        overflow_flags_def flip: cell_written_def)
qed

end
