(* ===== verification/NodeRemove.thy ===== *)
theory NodeRemove
  imports NodeSpec
begin

text \<open>
  Removal: \<open>slide_keys\<close> closes the gap in the key array, \<open>gc_node\<close> closes the gap in the heap by
  moving, in the order of the keys, every cell that lies to the left of the removed one.  A
  cell that has not been moved yet survives when the cells to move appear in the heap in the
  order of their keys, the last key leftmost.  The loop invariant keeps the bytes found at the
  place of each cell as a parameter, the image, so that it also describes a round that moves one
  cell over another.
\<close>

section \<open>Disjoint cells\<close>

text \<open>Cell \<open>j\<close> occupies the distances \<open>cell_lo j < d \<le> cell_off j\<close> from the right edge.\<close>

definition cell_lo :: "btree_node \<Rightarrow> nat \<Rightarrow> nat" where
  "cell_lo node j = cell_off node j - (cell_size node (cell_off node j) + 4)"

definition cells_disjoint :: "btree_node \<Rightarrow> bool" where
  "cells_disjoint node \<longleftrightarrow> (\<forall>j < n_keys node. \<forall>k < n_keys node. j \<noteq> k \<longrightarrow>
     cell_off node j \<le> cell_lo node k \<or> cell_off node k \<le> cell_lo node j)"

text \<open>The cells left of distance \<open>d\<close> lie in the order of their keys.\<close>

definition heap_in_order :: "btree_node \<Rightarrow> nat \<Rightarrow> bool" where
  "heap_in_order node d \<longleftrightarrow> (\<forall>j k. j < k \<and> k < n_keys node \<and> d < cell_off node j \<and> d < cell_off node k \<longrightarrow>
     cell_off node j < cell_off node k)"

section \<open>The heap loop\<close>

text \<open>
  What the loop finds: \<open>del\<close> is the offset of the removed cell, \<open>shift\<close> its size on disk.
\<close>

definition gc_pre :: "btree_node \<Rightarrow> nat \<Rightarrow> nat \<Rightarrow> bool" where
  "gc_pre node del shift \<longleftrightarrow> node_shape node \<and>
     node_header node + 20 + 12 * n_keys node + n_hwm node \<le> node_end node \<and>
     shift \<le> del \<and> del \<le> n_hwm node \<and>
     (\<forall>j < n_keys node. cell_ok node j \<and> cell_off node j \<noteq> del \<and>
        (del < cell_off node j \<longrightarrow> del \<le> cell_lo node j) \<and>
        (cell_off node j < del \<longrightarrow> cell_off node j \<le> del - shift)) \<and>
     cells_disjoint node"

definition gc_off :: "btree_node \<Rightarrow> nat \<Rightarrow> nat \<Rightarrow> nat \<Rightarrow> nat" where
  "gc_off node del shift j =
     (if del < cell_off node j then cell_off node j - shift else cell_off node j)"

definition cell_bytes :: "btree_node \<Rightarrow> nat \<Rightarrow> nat \<Rightarrow> bytes" where
  "cell_bytes node off n = slice (node_mem node) (node_end node - off) n"

definition cell_len :: "btree_node \<Rightarrow> nat \<Rightarrow> nat" where
  "cell_len node j = cell_size node (cell_off node j) + 4"

text \<open>
  The state after \<open>t\<close> rounds, relative to the node at the start: the place of key \<open>j\<close> holds the
  bytes \<open>img j\<close>.
\<close>

definition gc_state :: "btree_node \<Rightarrow> nat \<Rightarrow> nat \<Rightarrow> (nat \<Rightarrow> bytes) \<Rightarrow> nat \<Rightarrow> btree_node \<Rightarrow> bool" where
  "gc_state node del shift img t st \<longleftrightarrow>
     (\<exists>m. st = set_node_mem node m \<and> length m = node_end node) \<and>
     (\<forall>p k. p + k \<le> node_header node + 20 \<longrightarrow>
        slice (node_mem st) p k = slice (node_mem node) p k) \<and>
     (\<forall>j < n_keys node. pkey st j = (pkey node j)\<lparr>pk_cell_offset :=
        of_nat (if j < t then gc_off node del shift j else cell_off node j)\<rparr>) \<and>
     (\<forall>j < n_keys node.
        cell_bytes st (if j < t then gc_off node del shift j else cell_off node j) (cell_len node j)
          = img j)"

text \<open>The bytes of the cell of key \<open>j\<close> in the node itself.\<close>

definition own_cell :: "btree_node \<Rightarrow> nat \<Rightarrow> bytes" where
  "own_cell node j = cell_bytes node (cell_off node j) (cell_len node j)"

lemma gc_preD:
  assumes "gc_pre node del shift" and "j < n_keys node"
  shows "cell_off node j \<le> n_hwm node" "cell_len node j \<le> cell_off node j"
    "cell_off node j \<noteq> del" "del < cell_off node j \<Longrightarrow> del + cell_len node j \<le> cell_off node j"
    "cell_off node j < del \<Longrightarrow> cell_off node j + shift \<le> del"
    "cell_off node j < 2147483648"
proof -
  have ok: "cell_ok node j" "cell_off node j \<noteq> del"
    "del < cell_off node j \<Longrightarrow> del \<le> cell_lo node j"
    "cell_off node j < del \<Longrightarrow> cell_off node j \<le> del - shift" "shift \<le> del"
    "node_shape node" "n_hwm node \<le> node_end node - 20" "20 \<le> node_end node"
    using assms by (auto simp: gc_pre_def)
  from ok(1) show le: "cell_off node j \<le> n_hwm node" and len: "cell_len node j \<le> cell_off node j"
    by (simp_all add: cell_ok_def cell_len_def)
  show "cell_off node j \<noteq> del" by (rule ok(2))
  show "del + cell_len node j \<le> cell_off node j" if "del < cell_off node j"
    using ok(3) [OF that] len by (simp add: cell_lo_def cell_len_def)
  show "cell_off node j + shift \<le> del" if "cell_off node j < del"
    using ok(4) [OF that] ok(5) by simp
  show "cell_off node j < 2147483648"
    using le ok(7,8) node_end_small [OF ok(6)] by linarith
qed

text \<open>
  The place a cell is moved to is free of every other cell, moved or not, that lies in the heap in
  the order of the keys.
\<close>

lemma gc_move_disjoint:
  assumes pre: "gc_pre node del shift" and t: "t < n_keys node" and k: "k < n_keys node" "k \<noteq> t"
    and mv: "del < cell_off node t"
    and ord: "k < t \<Longrightarrow> del < cell_off node k \<Longrightarrow> cell_off node k < cell_off node t"
      "t < k \<Longrightarrow> del < cell_off node k \<Longrightarrow> cell_off node t < cell_off node k"
  defines "cur \<equiv> (if k < t then gc_off node del shift k else cell_off node k)"
  shows "cur + cell_len node t \<le> cell_off node t - shift \<or> cell_off node t - shift + cell_len node k \<le> cur"
proof -
  note T = gc_preD [OF pre t] and K = gc_preD [OF pre k(1)]
  have disj: "cell_off node t \<le> cell_lo node k \<or> cell_off node k \<le> cell_lo node t"
    using pre t k by (auto simp: gc_pre_def cells_disjoint_def)
  have lo: "cell_lo node k = cell_off node k - cell_len node k"
    "cell_lo node t = cell_off node t - cell_len node t"
    by (simp_all add: cell_lo_def cell_len_def)
  have sh: "shift \<le> del" using pre by (simp add: gc_pre_def)
  have len1: "0 < cell_len node t" "0 < cell_len node k" by (simp_all add: cell_len_def)
  consider (below) "cell_off node k < del" | (left) "del < cell_off node k" using K(3) by linarith
  then show ?thesis
  proof cases
    case below
    then have "cur = cell_off node k" by (simp add: cur_def gc_off_def)
    with K(5) [OF below] T(4) [OF mv] sh show ?thesis by linarith
  next
    case left
    show ?thesis
    proof (cases "k < t")
      case True
      then have "cell_off node k < cell_off node t" using left by (rule ord(1))
      with disj lo len1 K(2) T(2) have "cell_off node k + cell_len node t \<le> cell_off node t"
        by linarith
      moreover have "cur = cell_off node k - shift" using True left by (simp add: cur_def gc_off_def)
      ultimately show ?thesis using left sh by linarith
    next
      case False
      then have "t < k" using k(2) by simp
      then have "cell_off node t < cell_off node k" using left by (rule ord(2))
      with disj lo len1 K(2) T(2) have "cell_off node t + cell_len node k \<le> cell_off node k"
        by linarith
      moreover have "cur = cell_off node k" using False by (simp add: cur_def)
      ultimately show ?thesis by linarith
    qed
  qed
qed

definition cur_off :: "btree_node \<Rightarrow> nat \<Rightarrow> nat \<Rightarrow> nat \<Rightarrow> nat \<Rightarrow> nat" where
  "cur_off node del shift t j = (if j < t then gc_off node del shift j else cell_off node j)"

lemma gc_state_facts:
  assumes pre: "gc_pre node del shift" and st: "gc_state node del shift img t st"
  shows "node_end st = node_end node" "node_header st = node_header node" "node_shape st"
    "n_keys st = n_keys node" "n_hwm st = n_hwm node" "n_free st = n_free node"
    and "j < n_keys node \<Longrightarrow> pkey st j = (pkey node j)\<lparr>pk_cell_offset := of_nat (cur_off node del shift t j)\<rparr>"
    and "j < n_keys node \<Longrightarrow> cell_bytes st (cur_off node del shift t j) (cell_len node j) = img j"
proof -
  obtain m where m: "st = set_node_mem node m" "length m = node_end node"
    using st by (auto simp: gc_state_def)
  show "node_end st = node_end node" "node_header st = node_header node" "node_shape st"
    using m pre by (simp_all add: gc_pre_def)
  have "rd32 (node_mem st) p = rd32 (node_mem node) p" if "p + 4 \<le> node_header node + 20" for p
    using st that by (simp add: gc_state_def rd32_def)
  then show "n_keys st = n_keys node" "n_hwm st = n_hwm node" "n_free st = n_free node"
    using m by (simp_all add: n_keys_def n_hwm_def n_free_def)
  show "pkey st j = (pkey node j)\<lparr>pk_cell_offset := of_nat (cur_off node del shift t j)\<rparr>"
    and "cell_bytes st (cur_off node del shift t j) (cell_len node j) = img j" if "j < n_keys node"
    using st that by (simp_all add: gc_state_def cur_off_def)
qed

lemma rd32_cell_bytes:
  "4 \<le> n \<Longrightarrow> rd32 (cell_bytes node off n) 0 = rd32 (node_mem node) (node_end node - off)"
  by (simp add: cell_bytes_def rd32_slice)

text \<open>The memory after a round that moves cell \<open>t\<close>.\<close>

definition gc_moved :: "btree_node \<Rightarrow> btree_node \<Rightarrow> nat \<Rightarrow> nat \<Rightarrow> btree_node" where
  "gc_moved node st shift t =
     (let o' = cell_off node t; e = node_end node in
      set_node_mem st
        (patch (patch (node_mem st) (e - (o' - shift)) (slice (node_mem st) (e - o') (cell_len node t)))
          (node_header node + 20 + 12 * t + 4) (ser_write_32bit_le (of_nat (o' - shift)))))"

lemma gc_step_move:
  assumes pre: "gc_pre node del shift" and st: "gc_state node del shift img t st"
    and t: "t < n_keys node" and mv: "del < cell_off node t"
    and size: "rd32 (img t) 0 = rd32 (node_mem node) (node_end node - cell_off node t)"
  shows "gc_step st (of_nat del) (of_nat shift) (of_nat t) = Some (gc_moved node st shift t)"
proof -
  let ?h = "node_header node" and ?e = "node_end node"
  define off where "off = cell_off node t"
  note F = gc_state_facts [OF pre st] and T = gc_preD [OF pre t, folded off_def]
  have cur: "cur_off node del shift t t = off" by (simp add: cur_off_def off_def)
  have sh: "shift \<le> del" and fit: "?h + 20 + 12 * n_keys node + n_hwm node \<le> ?e"
    using pre by (auto simp: gc_pre_def)
  have tt: "?h + 20 + 12 * t + 12 + n_hwm node \<le> ?e" using fit t by simp
  have small: "?e < 4294967296"
    using node_end_small [OF F(3)] by (simp add: F)
  have unt: "unat (of_nat t :: u32) = t" using tt small by (intro unat_u32_of_nat) linarith
  have uno: "unat (of_nat off :: u32) = off" using T(6) by (intro unat_u32_of_nat) linarith
  have und: "unat (of_nat del :: u32) = del" using mv T(6) by (intro unat_u32_of_nat) (simp add: off_def)
  have key: "key_at st (of_nat t) = Some ((pkey node t)\<lparr>pk_cell_offset := of_nat off\<rparr>)"
    using key_at_pkey [OF F(3), of "of_nat t"] tt F(7) [OF t] by (simp add: F unt cur)
  have lt: "\<not> (of_nat off :: u32) < of_nat del"
    using mv by (simp add: word_less_nat_alt uno und flip: off_def)
  have off_le: "off \<le> ?e" using T(1) tt by linarith
  have src: "btu_calc_highwater_offset st (of_nat off) = Some (?e - off)"
    using highwater_offset [OF F(3), of "of_nat off"] off_le T(6) by (simp add: uno F)
  have ofd: "(of_nat off :: u32) - of_nat shift = of_nat (off - shift)"
    using mv sh by (simp add: of_nat_diff off_def)
  have und': "unat (of_nat (off - shift) :: u32) = off - shift"
    using T(6) by (intro unat_u32_of_nat) linarith
  have dst: "btu_calc_highwater_offset st (of_nat (off - shift)) = Some (?e - (off - shift))"
    using highwater_offset [OF F(3), of "of_nat (off - shift)"] off_le T(6) by (simp add: und' F)
  have lm: "length (node_mem st) = ?e" using F(1) by (simp add: node_end_def [of st])
  have len: "4 \<le> cell_len node t" by (simp add: cell_len_def)
  have size: "rd32 (node_mem st) (?e - off) = rd32 (node_mem node) (?e - off)"
    using arg_cong [OF F(8) [OF t], of "\<lambda>b. rd32 b 0"] rd32_cell_bytes [OF len] size
    by (simp add: cur F(1) off_def)
  have in4: "?e - off + 4 \<le> length (node_mem st)" using T(2) len off_le lm by linarith
  have cs: "unat (rd32 (node_mem node) (?e - off) + 4) = cell_len node t"
  proof -
    have "unat (rd32 (node_mem node) (?e - off)) + 4 = cell_len node t"
      by (simp add: cell_len_def cell_size_def off_def)
    moreover have "cell_len node t < 4294967296" using T(2,6) by linarith
    ultimately show ?thesis using unat_add_ok [of "rd32 (node_mem node) (?e - off)" 4] by simp
  qed
  have mvd: "mem_move (node_mem st) (?e - (off - shift)) (?e - off) (cell_len node t) =
      Some (patch (node_mem st) (?e - (off - shift)) (slice (node_mem st) (?e - off) (cell_len node t)))"
  proof -
    have "?e - off + cell_len node t \<le> length (node_mem st)" using T(2) off_le lm by linarith
    moreover have "?e - (off - shift) + cell_len node t \<le> length (node_mem st)"
      using T(4) mv sh off_le lm unfolding off_def by linarith
    ultimately show ?thesis by (simp add: mem_move_def mem_read_slice mem_write_patch)
  qed
  define m1 where "m1 = patch (node_mem st) (?e - (off - shift))
    (slice (node_mem st) (?e - off) (cell_len node t))"
  have lsl: "length (slice (node_mem st) (?e - off) (cell_len node t)) = cell_len node t"
    using T(2) off_le lm by (intro length_slice) linarith
  have dlen: "?e - (off - shift) + cell_len node t \<le> ?e"
    using T(4) mv sh off_le unfolding off_def by linarith
  have l1: "length m1 = ?e" using dlen lm lsl by (simp add: m1_def)
  have "rd32 m1 (?h + 20 + 12 * t + 4) = rd32 (node_mem st) (?h + 20 + 12 * t + 4)"
    unfolding m1_def
    by (rule rd32_patch_disjoint) (use dlen lm lsl tt T(1) in linarith)+
  also have "\<dots> = of_nat off"
    using arg_cong [OF F(7) [OF t], of pk_cell_offset] by (simp add: pkey_def pkey_of_def F(2) cur add.assoc)
  finally have old: "rd32 m1 (?h + 20 + 12 * t + 4) = of_nat off" .
  have ko: "key_off st (of_nat t) = ?h + 20 + 12 * t"
    by (simp add: key_off_def node_keys_def layout_defs F unt)
  have kin: "?h + 20 + 12 * t + 4 + 4 \<le> ?e" using tt by linarith
  have "btu_read_cell st (of_nat t) =
      Some \<lparr>cd_pointer = drop (?e - off + 4) (node_mem st), cd_size = rd32 (node_mem node) (?e - off)\<rparr>"
    using key src in4 by (simp add: btu_read_cell_def mem_read32_rd32 size)
  then show ?thesis
    using key lt src dst mvd l1 kin old
    by (simp add: gc_step_def ofd cs ko mem_read32_rd32 mem_write32_patch gc_moved_def
        flip: m1_def off_def)
qed

lemma cur_off_Suc:
  "j \<noteq> t \<Longrightarrow> cur_off node del shift (Suc t) j = cur_off node del shift t j"
  "cur_off node del shift (Suc t) t = gc_off node del shift t"
  by (auto simp: cur_off_def)

lemma cur_off_bounds:
  assumes "gc_pre node del shift" and "j < n_keys node"
  shows "cur_off node del shift t j \<le> n_hwm node" "cell_len node j \<le> cur_off node del shift t j"
  using gc_preD [OF assms] assms(1) by (auto simp: cur_off_def gc_off_def gc_pre_def)

lemma gc_state_altI:
  assumes "st = set_node_mem node m" and "length m = node_end node"
    and "\<And>p k. p + k \<le> node_header node + 20 \<Longrightarrow> slice m p k = slice (node_mem node) p k"
    and "\<And>j. j < n_keys node \<Longrightarrow> pkey_of m (node_header node + 20 + 12 * j) =
      (pkey node j)\<lparr>pk_cell_offset := of_nat (cur_off node del shift t j)\<rparr>"
    and "\<And>j. j < n_keys node \<Longrightarrow> slice m (node_end node - cur_off node del shift t j) (cell_len node j) =
      img j"
  shows "gc_state node del shift img t st"
  using assms by (auto simp: gc_state_def pkey_def cur_off_def cell_bytes_def)

text \<open>
  What a round does to the cell of key \<open>k\<close> when it moves cell \<open>t\<close>: a cell that is out of the way
  keeps its image, and a cell of the same length at the very place gets the image of cell \<open>t\<close>.
\<close>

definition gc_meets :: "btree_node \<Rightarrow> nat \<Rightarrow> nat \<Rightarrow> nat \<Rightarrow> nat \<Rightarrow> (nat \<Rightarrow> bytes) \<Rightarrow> bytes \<Rightarrow> bool" where
  "gc_meets node del shift t k img b \<longleftrightarrow>
     (cur_off node del shift t k + cell_len node t \<le> cell_off node t - shift \<or>
      cell_off node t - shift + cell_len node k \<le> cur_off node del shift t k) \<and> b = img k \<or>
     cur_off node del shift t k = cell_off node t - shift \<and> cell_len node k = cell_len node t \<and> b = img t"

lemma gc_moved_state:
  assumes pre: "gc_pre node del shift" and st: "gc_state node del shift img t st"
    and t: "t < n_keys node" and mv: "del < cell_off node t"
    and own: "img' t = img t"
    and others: "\<And>k. k < n_keys node \<Longrightarrow> k \<noteq> t \<Longrightarrow> gc_meets node del shift t k img (img' k)"
  shows "gc_state node del shift img' (Suc t) (gc_moved node st shift t)"
proof -
  let ?h = "node_header node" and ?e = "node_end node" and ?n = "n_keys node"
  define off where "off = cell_off node t"
  note F = gc_state_facts [OF pre st] and T = gc_preD [OF pre t, folded off_def]
  have cur: "cur_off node del shift t t = off" by (simp add: cur_off_def off_def)
  have sh: "shift \<le> del" and fit: "?h + 20 + 12 * ?n + n_hwm node \<le> ?e"
    using pre by (auto simp: gc_pre_def)
  define new where "new = off - shift"
  have new: "new + shift = off" "del + cell_len node t \<le> off" "cell_len node t \<le> new" "new \<le> n_hwm node"
    using T(1,4) mv sh by (simp_all add: new_def off_def)
  define cell where "cell = slice (node_mem st) (?e - off) (cell_len node t)"
  define m1 where "m1 = patch (node_mem st) (?e - new) cell"
  define kp where "kp = ?h + 20 + 12 * t + 4"
  define m2 where "m2 = patch m1 kp (ser_write_32bit_le (of_nat new))"
  have moved: "gc_moved node st shift t = set_node_mem node m2"
    using st by (auto simp: gc_state_def gc_moved_def Let_def m2_def m1_def cell_def kp_def new_def off_def)
  have lm: "length (node_mem st) = ?e" using F(1) by (simp add: node_end_def [of st])
  have off_le: "off \<le> ?e" using T(1) fit by linarith
  have lcell: "length cell = cell_len node t"
    unfolding cell_def using T(2) off_le lm by (intro length_slice) linarith
  have in1: "?e - new + length cell \<le> length (node_mem st)"
    using new fit lm lcell by linarith
  have l1: "length m1 = ?e" using in1 lm by (simp add: m1_def)
  have kp_le: "kp + 8 + n_hwm node \<le> ?e" using fit t by (simp add: kp_def)
  have l2: "length m2 = ?e" using l1 kp_le by (simp add: m2_def)
  text \<open>What the two stores leave alone.\<close>
  have sl1: "slice m1 p k = slice (node_mem st) p k"
    if "p + k \<le> ?e - new \<or> ?e - new + cell_len node t \<le> p" for p k
    unfolding m1_def using in1 that lcell by (intro slice_patch_disjoint) auto
  have sl2: "slice m2 p k = slice m1 p k" if "p + k \<le> kp \<or> kp + 4 \<le> p" for p k
    unfolding m2_def using l1 kp_le that by (intro slice_patch_word) auto
  have low: "slice m2 p k = slice (node_mem st) p k" if "p + k \<le> kp \<or> (kp + 4 \<le> p \<and> p + k \<le> ?e - n_hwm node)" for p k
    using sl1 [of p k] sl2 [of p k] that kp_le new(4) by fastforce
  show ?thesis
  proof (rule gc_state_altI [OF moved l2])
    fix p k assume "p + k \<le> ?h + 20"
    then show "slice m2 p k = slice (node_mem node) p k"
      using low [of p k] st by (simp add: kp_def gc_state_def)
  next
    fix j assume j: "j < ?n"
    have st_j: "pkey_of (node_mem st) (?h + 20 + 12 * j) =
        (pkey node j)\<lparr>pk_cell_offset := of_nat (cur_off node del shift t j)\<rparr>"
      using F(7) [OF j] by (simp add: pkey_def [of st] F(2))
    have jn: "?h + 20 + 12 * j + 12 \<le> ?e - n_hwm node" using fit j by simp
    show "pkey_of m2 (?h + 20 + 12 * j) =
        (pkey node j)\<lparr>pk_cell_offset := of_nat (cur_off node del shift (Suc t) j)\<rparr>"
    proof (cases "j = t")
      case True
      have a: "rd32 m2 (?h + 20 + 12 * j) = rd32 (node_mem st) (?h + 20 + 12 * j)"
        and b: "rd32 m2 (?h + 20 + 12 * j + 8) = rd32 (node_mem st) (?h + 20 + 12 * j + 8)"
        unfolding rd32_def by (intro arg_cong [of _ _ ser_read_32bit_le] low;
          use True jn in \<open>simp add: kp_def; linarith?\<close>)+
      have c: "rd32 m2 (?h + 20 + 12 * j + 4) = of_nat new"
        using True l1 kp_le by (simp add: m2_def kp_def)
      have "cur_off node del shift (Suc t) t = new"
        using mv by (simp add: cur_off_Suc gc_off_def new_def off_def)
      with True a b c st_j show ?thesis by (cases "pkey node t") (simp add: pkey_of_def)
    next
      case False
      then have "12 * j + 12 \<le> 12 * t \<or> 12 * t + 12 \<le> 12 * j" by linarith
      then have "slice m2 (?h + 20 + 12 * j + i) 4 = slice (node_mem st) (?h + 20 + 12 * j + i) 4"
        if "i + 4 \<le> 12" for i using that jn by (intro low) (auto simp: kp_def)
      from this [of 0] this [of 4] this [of 8] st_j False show ?thesis
        by (simp add: pkey_of_def rd32_def cur_off_Suc)
    qed
  next
    fix j assume j: "j < ?n"
    have kp_out: "slice m2 (?e - d) k = slice m1 (?e - d) k" if "d \<le> n_hwm node" for d k
      using that kp_le by (intro sl2) linarith
    have same: "slice m1 (?e - new) (cell_len node t) = img t"
    proof -
      have "slice m1 (?e - new) (cell_len node t) = cell"
        unfolding m1_def using in1 lcell by (intro slice_patch_same) simp_all
      also have "cell = img t"
        using F(8) [OF t] by (simp add: cur cell_def cell_bytes_def F(1))
      finally show ?thesis .
    qed
    show "slice m2 (?e - cur_off node del shift (Suc t) j) (cell_len node j) = img' j"
    proof (cases "j = t")
      case True
      have "cur_off node del shift (Suc t) t = new"
        using mv by (simp add: cur_off_Suc gc_off_def new_def off_def)
      then show ?thesis using True kp_out [OF new(4)] same own by simp
    next
      case False
      note B = cur_off_bounds [OF pre j, of t]
      consider (apart) "cur_off node del shift t j + cell_len node t \<le> new \<or>
            new + cell_len node j \<le> cur_off node del shift t j" "img' j = img j"
        | (over) "cur_off node del shift t j = new" "cell_len node j = cell_len node t" "img' j = img t"
        using others [OF j False] unfolding gc_meets_def new_def off_def by blast
      then show ?thesis
      proof cases
        case apart
        have "slice m1 (?e - cur_off node del shift t j) (cell_len node j) =
            slice (node_mem st) (?e - cur_off node del shift t j) (cell_len node j)"
          using B new fit apart(1) by (intro sl1) linarith
        then show ?thesis
          using False kp_out [OF B(1)] F(8) [OF j] apart(2) by (simp add: cur_off_Suc cell_bytes_def F(1))
      next
        case over
        then show ?thesis using False kp_out [OF B(1)] same by (simp add: cur_off_Suc)
      qed
    qed
  qed
qed

lemma gc_step_stay:
  assumes pre: "gc_pre node del shift" and st: "gc_state node del shift img t st"
    and t: "t < n_keys node" and mv: "cell_off node t < del"
  shows "gc_step st (of_nat del) (of_nat shift) (of_nat t) = Some st"
    and "gc_state node del shift img (Suc t) st"
proof -
  note F = gc_state_facts [OF pre st] and T = gc_preD [OF pre t]
  have fit: "node_header node + 20 + 12 * n_keys node + n_hwm node \<le> node_end node"
    and dl: "del \<le> n_hwm node" using pre by (auto simp: gc_pre_def)
  have tt: "node_header node + 20 + 12 * t + 12 \<le> node_end node" using fit t by simp
  have small: "node_end node < 4294967296"
    using node_end_small [OF F(3)] by (simp add: F)
  have unt: "unat (of_nat t :: u32) = t" using tt small by (intro unat_u32_of_nat) linarith
  have "key_at st (of_nat t) = Some ((pkey node t)\<lparr>pk_cell_offset := of_nat (cell_off node t)\<rparr>)"
    using key_at_pkey [OF F(3), of "of_nat t"] tt F(7) [OF t] by (simp add: F unt cur_off_def)
  moreover have "(of_nat (cell_off node t) :: u32) < of_nat del"
    using mv dl fit small T(6) by (simp add: word_less_nat_alt unat_u32_of_nat)
  ultimately show "gc_step st (of_nat del) (of_nat shift) (of_nat t) = Some st"
    by (simp add: gc_step_def Let_def)
  have "gc_off node del shift t = cell_off node t" using mv by (simp add: gc_off_def)
  then have "(if j < Suc t then gc_off node del shift j else cell_off node j) =
      (if j < t then gc_off node del shift j else cell_off node j)" for j
    by (simp add: less_Suc_eq)
  with st show "gc_state node del shift img (Suc t) st" by (simp add: gc_state_def)
qed

text \<open>
  A sequence of images, \<open>I t\<close> before round \<open>t\<close>, that the rounds produce: every cell still has its own
  size when it is moved.
\<close>

definition gc_images :: "btree_node \<Rightarrow> nat \<Rightarrow> nat \<Rightarrow> (nat \<Rightarrow> nat \<Rightarrow> bytes) \<Rightarrow> bool" where
  "gc_images node del shift I \<longleftrightarrow> I 0 = own_cell node \<and> (\<forall>t < n_keys node.
     rd32 (I t t) 0 = rd32 (node_mem node) (node_end node - cell_off node t) \<and>
     (if del < cell_off node t
      then I (Suc t) t = I t t \<and>
        (\<forall>k < n_keys node. k \<noteq> t \<longrightarrow> gc_meets node del shift t k (I t) (I (Suc t) k))
      else I (Suc t) = I t))"

lemma gc_imagesD:
  assumes "gc_images node del shift I" and "t < n_keys node"
  shows "rd32 (I t t) 0 = rd32 (node_mem node) (node_end node - cell_off node t)"
    and "del < cell_off node t \<Longrightarrow> I (Suc t) t = I t t"
    and "del < cell_off node t \<Longrightarrow> k < n_keys node \<Longrightarrow> k \<noteq> t \<Longrightarrow>
      gc_meets node del shift t k (I t) (I (Suc t) k)"
    and "\<not> del < cell_off node t \<Longrightarrow> I (Suc t) = I t"
  using assms by (auto simp: gc_images_def)

lemma gc_loop_ok:
  assumes pre: "gc_pre node del shift" and im: "gc_images node del shift I"
    and "gc_state node del shift (I t) t st" and "t \<le> n_keys node"
  shows "\<exists>st'. gc_loop st (of_nat del) (of_nat shift) t = Some st' \<and>
    gc_state node del shift (I (n_keys node)) (n_keys node) st'"
  using assms(3,4)
proof (induction "n_keys node - t" arbitrary: t st)
  case 0
  then have "t = n_keys node" by simp
  with 0 gc_state_facts [OF pre 0(2)] header_gets(1) [of st] show ?case
    by (subst gc_loop.simps) (simp add: unat_u32_of_nat n_bounds)
next
  case (Suc r)
  then have t: "t < n_keys node" by simp
  note F = gc_state_facts [OF pre Suc.prems(1)] and I = gc_imagesD [OF im t]
  obtain st1 where step: "gc_step st (of_nat del) (of_nat shift) (of_nat t) = Some st1"
    "gc_state node del shift (I (Suc t)) (Suc t) st1"
  proof (cases "del < cell_off node t")
    case True
    show thesis
      by (rule that [OF gc_step_move [OF pre Suc.prems(1) t True I(1)]
            gc_moved_state [OF pre Suc.prems(1) t True I(2) [OF True] I(3) [OF True]]])
  next
    case False
    with gc_preD(3) [OF pre t] have "cell_off node t < del" by simp
    from that gc_step_stay [OF pre Suc.prems(1) t this] show thesis
      by (simp add: I(4) [OF False])
  qed
  have "r = n_keys node - Suc t" using Suc.hyps(2) by simp
  from Suc.hyps(1) [OF this step(2)] t obtain st' where
    "gc_loop st1 (of_nat del) (of_nat shift) (Suc t) = Some st'"
    "gc_state node del shift (I (n_keys node)) (n_keys node) st'" by auto
  with step(1) t header_gets(1) [OF F(3)] show ?case
    by (subst gc_loop.simps) (simp add: unat_u32_of_nat n_bounds F)
qed

lemma rd32_own_cell:
  "rd32 (own_cell node j) 0 = rd32 (node_mem node) (node_end node - cell_off node j)"
  by (simp add: own_cell_def rd32_cell_bytes cell_len_def)

text \<open>A heap in order keeps every image.\<close>

lemma gc_images_in_order:
  assumes pre: "gc_pre node del shift" and ord: "heap_in_order node del"
  shows "gc_images node del shift (\<lambda>t. own_cell node)"
proof -
  have "gc_meets node del shift t k (own_cell node) (own_cell node k)"
    if "t < n_keys node" "k < n_keys node" "k \<noteq> t" "del < cell_off node t" for t k
    using gc_move_disjoint [OF pre that] ord that
    by (auto simp: gc_meets_def cur_off_def heap_in_order_def)
  then show ?thesis by (auto simp: gc_images_def rd32_own_cell)
qed

text \<open>
  A heap in order but for one pair: the cell of \<open>b\<close> lies to the right of the cell of \<open>a\<close>, whose key
  comes first, and both cells have the size of the gap.  The round of \<open>a\<close> moves its cell over the
  one of \<open>b\<close>.
\<close>

definition swapped_pair :: "btree_node \<Rightarrow> nat \<Rightarrow> nat \<Rightarrow> nat \<Rightarrow> nat \<Rightarrow> bool" where
  "swapped_pair node del shift a b \<longleftrightarrow> a < b \<and> b < n_keys node \<and> del < cell_off node b \<and>
     cell_off node a = cell_off node b + shift \<and> cell_len node a = shift \<and> cell_len node b = shift \<and>
     (\<forall>j k. j < k \<and> k < n_keys node \<and> (j, k) \<noteq> (a, b) \<and> del < cell_off node j \<and> del < cell_off node k \<longrightarrow>
        cell_off node j < cell_off node k)"

definition swapped_images :: "btree_node \<Rightarrow> nat \<Rightarrow> nat \<Rightarrow> nat \<Rightarrow> nat \<Rightarrow> bytes" where
  "swapped_images node a b t k = own_cell node (if k = b \<and> a < t then a else k)"

lemma cell_len_rd32:
  "cell_len node a = cell_len node b \<Longrightarrow>
    rd32 (node_mem node) (node_end node - cell_off node a) =
    rd32 (node_mem node) (node_end node - cell_off node b)"
  by (simp add: cell_len_def cell_size_def word_unat_eq_iff)

lemma gc_images_swapped:
  assumes pre: "gc_pre node del shift" and sw: "swapped_pair node del shift a b"
  shows "gc_images node del shift (swapped_images node a b)"
proof -
  have ab: "a < b" "b < n_keys node" "del < cell_off node b" "cell_off node a = cell_off node b + shift"
    "cell_len node a = shift" "cell_len node b = shift" "del < cell_off node a"
    "shift \<le> del"
    using sw pre by (auto simp: swapped_pair_def gc_pre_def)
  have ord: "cell_off node j < cell_off node k"
    if "j < k" "k < n_keys node" "(j, k) \<noteq> (a, b)" "del < cell_off node j" "del < cell_off node k" for j k
    using sw that unfolding swapped_pair_def by blast
  have size: "rd32 (swapped_images node a b t t) 0 = rd32 (node_mem node) (node_end node - cell_off node t)" for t
    using cell_len_rd32 [of node a b] ab by (simp add: swapped_images_def rd32_own_cell)
  have meets: "gc_meets node del shift t k (swapped_images node a b t) (swapped_images node a b (Suc t) k)"
    if t: "t < n_keys node" and k: "k < n_keys node" "k \<noteq> t" and mv: "del < cell_off node t" for t k
  proof -
    consider (over) "t = a" "k = b" | (down) "t = b" "k = a" | (apart) "(t, k) \<noteq> (a, b)" "(k, t) \<noteq> (a, b)"
      by blast
    then show ?thesis
    proof cases
      case over
      with ab show ?thesis by (simp add: gc_meets_def cur_off_def swapped_images_def)
    next
      case down
      with ab show ?thesis
        by (simp add: gc_meets_def cur_off_def gc_off_def swapped_images_def)
    next
      case apart
      then have "swapped_images node a b (Suc t) k = swapped_images node a b t k"
        using k(2) by (auto simp: swapped_images_def less_Suc_eq)
      moreover have "cur_off node del shift t k + cell_len node t \<le> cell_off node t - shift \<or>
          cell_off node t - shift + cell_len node k \<le> cur_off node del shift t k"
        unfolding cur_off_def
        by (rule gc_move_disjoint [OF pre t k mv]) (use ord t k mv apart in blast)+
      ultimately show ?thesis by (simp add: gc_meets_def)
    qed
  qed
  have stay: "swapped_images node a b (Suc t) = swapped_images node a b t" if "\<not> del < cell_off node t" for t
    using that ab by (auto simp: swapped_images_def less_Suc_eq fun_eq_iff)
  have own: "swapped_images node a b (Suc t) t = swapped_images node a b t t" for t
    using ab by (simp add: swapped_images_def)
  have "swapped_images node a b 0 = own_cell node"
    by (simp add: swapped_images_def fun_eq_iff)
  with size meets stay own show ?thesis by (simp add: gc_images_def)
qed

section \<open>Closing the gap in the key array\<close>

definition slid_mem :: "btree_node \<Rightarrow> nat \<Rightarrow> bytes" where
  "slid_mem node d =
     (let base = node_header node + 20 + 12 * d in
      patch (patch (node_mem node) base (slice (node_mem node) (base + 12) (12 * (n_keys node - d))))
        (node_header node + 8) (ser_write_32bit_le (of_nat (n_keys node - 1))))"

definition skip :: "nat \<Rightarrow> nat \<Rightarrow> nat" where
  "skip d j = (if j < d then j else Suc j)"

lemma skip_lt: "d < n \<Longrightarrow> j < n - 1 \<Longrightarrow> skip d j < n \<and> skip d j \<noteq> d"
  by (auto simp: skip_def)

lemma skip_mono: "j < k \<Longrightarrow> skip d j < skip d k"
  by (auto simp: skip_def)

lemma slide_keys_facts:
  assumes shape: "node_shape node" and d: "d < n_keys node"
    and room: "node_header node + 20 + 12 * n_keys node + 12 \<le> node_end node"
    and heap: "node_header node + 20 + 12 * n_keys node + n_hwm node \<le> node_end node"
  defines "s \<equiv> set_node_mem node (slid_mem node d)"
  shows "slide_keys node (of_nat d) = Some s"
    and "length (slid_mem node d) = node_end node"
    and "n_keys s = n_keys node - 1" and "n_free s = n_free node" and "n_hwm s = n_hwm node"
    and "p + k \<le> node_header node + 8 \<or> node_header node + 12 \<le> p \<and> p + k \<le> node_header node + 20
      \<or> node_header node + 20 + 12 * n_keys node \<le> p
      \<Longrightarrow> slice (slid_mem node d) p k = slice (node_mem node) p k"
    and "j < n_keys node - 1 \<Longrightarrow> pkey s j = pkey node (skip d j)"
proof -
  let ?h = "node_header node" and ?n = "n_keys node" and ?e = "node_end node"
  define base where "base = ?h + 20 + 12 * d"
  define m1 where "m1 = patch (node_mem node) base (slice (node_mem node) (base + 12) (12 * (?n - d)))"
  have lm: "length (node_mem node) = ?e" by (simp add: node_end_def)
  have dist: "12 * (?n - d) = 12 * ?n - 12 * d" by (rule diff_mult_distrib2)
  have le: "12 * d + 12 \<le> 12 * ?n" using d by simp
  have lsl: "length (slice (node_mem node) (base + 12) (12 * (?n - d))) = 12 * (?n - d)"
    by (rule length_slice) (use room le dist lm in \<open>simp add: base_def\<close>)
  have bd: "base + 12 * (?n - d) = ?h + 20 + 12 * ?n" using le dist by (simp add: base_def)
  have l1: "length m1 = ?e" using lm lsl bd room by (simp add: m1_def)
  have sm: "slid_mem node d = patch m1 (?h + 8) (ser_write_32bit_le (of_nat (?n - 1)))"
    by (simp add: slid_mem_def Let_def m1_def base_def)
  have in8: "?h + 8 + 4 \<le> ?e" using room by linarith
  show ls: "length (slid_mem node d) = ?e" using l1 in8 by (simp add: sm)
  have frame: "slice (slid_mem node d) p k = slice m1 p k" if "p + k \<le> ?h + 8 \<or> ?h + 12 \<le> p" for p k
    unfolding sm using l1 in8 that by (intro slice_patch_word) auto
  have frame1: "slice m1 p k = slice (node_mem node) p k" if "p + k \<le> base \<or> ?h + 20 + 12 * ?n \<le> p" for p k
    unfolding m1_def using lsl bd room lm that by (intro slice_patch_disjoint) auto
  show "slice (slid_mem node d) p k = slice (node_mem node) p k"
    if "p + k \<le> ?h + 8 \<or> ?h + 12 \<le> p \<and> p + k \<le> ?h + 20 \<or> ?h + 20 + 12 * ?n \<le> p" for p k
    using frame [of p k] frame1 [of p k] that by (auto simp: base_def)
  from this [of "?h + 4" 4] this [of "?h + 16" 4] ls l1 in8
  show "n_keys s = ?n - 1" and "n_free s = n_free node" and "n_hwm s = n_hwm node"
    using n_bounds(1) [of node]
    by (simp_all add: s_def n_keys_def n_free_def n_hwm_def rd32_def)
      (simp add: sm rd32_def unat_u32_of_nat flip: rd32_def n_keys_def)+
  show "pkey s j = pkey node (skip d j)" if "j < ?n - 1"
  proof -
    have jle: "12 * j + 24 \<le> 12 * ?n" using that by simp
    have "pkey_of (slid_mem node d) (?h + 20 + 12 * j) = pkey_of m1 (?h + 20 + 12 * j)"
      using frame by (simp add: pkey_of_def rd32_def)
    also have "\<dots> = pkey_of (node_mem node) (?h + 20 + 12 * skip d j)"
    proof (cases "j < d")
      case True
      then have "12 * j + 12 \<le> 12 * d" by simp
      with True frame1 show ?thesis by (simp add: pkey_of_def rd32_def skip_def base_def)
    next
      case False
      then have dj: "12 * d \<le> 12 * j" by simp
      have "pkey_of m1 (?h + 20 + 12 * j) = pkey_of (node_mem node) (base + 12 + (?h + 20 + 12 * j - base))"
        unfolding m1_def
        by (rule pkey_of_patch_slice) (use bd room lm jle dj dist le in \<open>simp_all add: base_def\<close>)
      also have "base + 12 + (?h + 20 + 12 * j - base) = ?h + 20 + 12 * Suc j"
        using dj by (simp add: base_def)
      finally show ?thesis using False by (simp add: skip_def)
    qed
    finally show ?thesis by (simp add: pkey_def s_def)
  qed
  have small: "?n < 4294967296" by (rule n_bounds)
  have und: "unat (of_nat d :: u32) = d" using d small by (intro unat_u32_of_nat) simp
  have sub: "unat (of_nat ?n - of_nat d :: u32) = ?n - d"
    using unat_sub_ok [of "of_nat d" "of_nat ?n"] d small by (simp add: und unat_u32_of_nat)
  have one: "(of_nat ?n :: u32) - 1 = of_nat (?n - 1)" using d by (simp add: of_nat_diff)
  have mv: "mem_move (node_mem node) base (base + 12) (12 * (?n - d)) = Some m1"
    using lsl bd room lm le dist
    by (simp add: mem_move_def mem_read_slice mem_write_patch m1_def base_def)
  have shape1: "node_shape (set_node_mem node m1)" using shape l1 by simp
  have ko: "key_off node (of_nat d) = base"
    by (simp add: key_off_def node_keys_def layout_defs und base_def)
  show "slide_keys node (of_nat d) = Some s"
    using mv hdr_set_eq [OF shape1, of 8] header_gets(1) [OF shape]
    by (simp add: slide_keys_def ko sub one layout_defs mult.commute [of _ 12] s_def sm)
qed

end
