(* ===== verification/NodeProps.thy ===== *)
theory NodeProps
  imports NodeRemove
begin

text \<open>
  The correctness of insertion and removal in one node, stated on the list of its entries.
\<close>

section \<open>Removal\<close>

definition remove_nth :: "nat \<Rightarrow> 'a list \<Rightarrow> 'a list" where
  "remove_nth i xs = take i xs @ drop (Suc i) xs"

lemma map_skip: "d < n \<Longrightarrow> map (\<lambda>j. f (skip d j)) [0..<n - 1] = remove_nth d (map f [0..<n])"
  by (rule nth_equalityI) (auto simp: remove_nth_def skip_def nth_append)

text \<open>
  The cells that lie to the left of cell \<open>d\<close> appear in the heap in the order of their keys.
\<close>

definition others_in_order :: "btree_node \<Rightarrow> nat \<Rightarrow> bool" where
  "others_in_order node d \<longleftrightarrow> (\<forall>k < n_keys node. \<forall>j < k. j \<noteq> d \<and> k \<noteq> d \<and>
     cell_off node d < cell_off node j \<and> cell_off node d < cell_off node k \<longrightarrow>
     cell_off node j < cell_off node k)"

text \<open>The header fields that \<open>gc_node\<close> sets last.\<close>

definition gc_done :: "btree_node \<Rightarrow> nat \<Rightarrow> btree_node" where
  "gc_done st shift = set_node_mem st
     (patch (patch (node_mem st) (node_header st + 16) (ser_write_32bit_le (of_nat (n_hwm st - shift))))
        (node_header st + 4) (ser_write_32bit_le (of_nat (n_free st + shift + 12))))"

lemma gc_done_facts:
  assumes "node_shape st" and "n_free st + shift + 12 < 4294967296" and "shift \<le> n_hwm st"
  defines "nd \<equiv> gc_done st shift"
  shows "node_shape nd" "node_end nd = node_end st" "node_header nd = node_header st"
    "n_keys nd = n_keys st" "n_free nd = n_free st + shift + 12" "n_hwm nd = n_hwm st - shift"
    and "pkey nd j = pkey st j"
    and "node_header st + 20 \<le> p \<Longrightarrow> slice (node_mem nd) p k = slice (node_mem st) p k"
proof -
  let ?h = "node_header st"
  define m1 where "m1 = patch (node_mem st) (?h + 16) (ser_write_32bit_le (of_nat (n_hwm st - shift)))"
  define m2 where "m2 = patch m1 (?h + 4) (ser_write_32bit_le (of_nat (n_free st + shift + 12)))"
  have lm: "length (node_mem st) = node_end st" by (simp add: node_end_def)
  have h: "?h + 20 \<le> node_end st" using assms(1) by (simp add: node_shape_def)
  have l1: "length m1 = node_end st" using h lm by (simp add: m1_def)
  have l2: "length m2 = node_end st" using h l1 by (simp add: m2_def)
  have nd: "nd = set_node_mem st m2" by (simp add: nd_def gc_done_def m2_def m1_def)
  show "node_shape nd" "node_end nd = node_end st" "node_header nd = node_header st"
    using assms(1) l2 by (simp_all add: nd)
  have up: "slice m2 p k = slice (node_mem st) p k"
    if "p + k \<le> ?h + 4 \<or> ?h + 8 \<le> p \<and> p + k \<le> ?h + 16 \<or> ?h + 20 \<le> p" for p k
  proof -
    have "slice m2 p k = slice m1 p k"
      unfolding m2_def using l1 h that by (intro slice_patch_word) auto
    also have "\<dots> = slice (node_mem st) p k"
      unfolding m1_def using lm h that by (intro slice_patch_word) auto
    finally show ?thesis .
  qed
  show "slice (node_mem nd) p k = slice (node_mem st) p k" if "?h + 20 \<le> p"
    using up that by (simp add: nd)
  show "n_keys nd = n_keys st" using up [of "?h + 8" 4] by (simp add: nd n_keys_def rd32_def)
  show "pkey nd j = pkey st j" by (simp add: nd pkey_def pkey_of_def rd32_def up)
  have "rd32 m2 (?h + 4) = of_nat (n_free st + shift + 12)"
    unfolding m2_def using l1 h by (intro rd32_patch_same) linarith
  then show "n_free nd = n_free st + shift + 12"
    using unat_u32_of_nat [OF assms(2)] by (simp add: nd n_free_def [of "set_node_mem _ _"] del: of_nat_add)
  have "rd32 m2 (?h + 16) = rd32 m1 (?h + 16)"
    unfolding m2_def using l1 h by (intro rd32_patch_disjoint) auto
  also have "\<dots> = of_nat (n_hwm st - shift)"
    unfolding m1_def using lm h by (intro rd32_patch_same) linarith
  finally show "n_hwm nd = n_hwm st - shift"
    using n_bounds(3) [of st] by (simp add: nd n_hwm_def [of "set_node_mem _ _"] unat_u32_of_nat)
qed

lemma set_node_mem_same: "set_node_mem node (node_mem node) = node"
  by (simp add: set_node_mem_def node_mem_def)

lemma gc_node_ok:
  assumes pre: "gc_pre node del (unat sz + 4)" and im: "gc_images node del (unat sz + 4) I"
    and free: "n_free node + unat sz + 16 < 4294967296"
  shows "\<exists>st. gc_state node del (unat sz + 4) (I (n_keys node)) (n_keys node) st \<and>
    gc_node node (of_nat del) sz = Some (BTREE_OK, gc_done st (unat sz + 4))"
proof -
  have "gc_state node del (unat sz + 4) (I 0) 0 node"
    using set_node_mem_same [of node] im
    by (auto simp: gc_state_def gc_images_def own_cell_def node_end_def cell_off_def intro!: exI [of _ "node_mem node"])
  from gc_loop_ok [OF pre im this] obtain st where
    loop: "gc_loop node (of_nat del) (of_nat (unat sz + 4)) 0 = Some st"
    and st: "gc_state node del (unat sz + 4) (I (n_keys node)) (n_keys node) st" by auto
  note F = gc_state_facts [OF pre st]
  have le: "unat sz + 4 \<le> n_hwm st" using pre F(5) by (simp add: gc_pre_def)
  then have hw: "(of_nat (n_hwm st) :: u32) - (sz + 4) = of_nat (n_hwm st - (unat sz + 4))"
    by (simp add: of_nat_diff)
  have fr: "(of_nat (n_free st) :: u32) + btree_node_heap_required_for_insertion (sz + 4) =
      of_nat (n_free st + (unat sz + 4) + 12)"
    by (simp add: btree_node_heap_required_for_insertion_def layout_defs)
  define st1 where "st1 = set_node_mem st
    (patch (node_mem st) (node_header st + 16) (ser_write_32bit_le (of_nat (n_hwm st - (unat sz + 4)))))"
  have h: "node_header st + 20 \<le> length (node_mem st)"
    using F(3) by (simp add: node_shape_def node_end_def)
  have s1: "node_shape st1" using F(3) h by (simp add: st1_def node_end_def)
  have "n_free st1 = n_free st"
    using h by (simp add: st1_def n_free_def rd32_patch_disjoint)
  then have "gc_node node (of_nat del) sz = Some (BTREE_OK, gc_done st (unat sz + 4))"
    using loop header_gets [OF F(3)] header_gets(2) [OF s1] hw fr
    by (simp add: gc_node_def hdr_set_eq [OF F(3)] hdr_set_eq [OF s1] layout_defs gc_done_def
        flip: st1_def) (simp add: st1_def ac_simps)
  with st show ?thesis by blast
qed

text \<open>The collected node, seen as a list of entries.\<close>

lemma cell_bytes_payload:
  "cell_size node off = n \<Longrightarrow> cell_payload node off = drop 4 (cell_bytes node off (n + 4))"
  by (simp add: cell_payload_def cell_bytes_def slice_def drop_take add.commute)

lemma gc_done_entries:
  assumes pre: "gc_pre node del shift" and st: "gc_state node del shift img (n_keys node) st"
    and free: "n_free node + shift + 12 < 4294967296" and j: "j < n_keys node"
    and size: "rd32 (img j) 0 = rd32 (node_mem node) (node_end node - cell_off node j)"
  defines "nd \<equiv> gc_done st shift"
  shows "cell_off nd j = gc_off node del shift j"
    and "cell_size nd (cell_off nd j) = cell_size node (cell_off node j)"
    and "node_entry nd j = (pk_key (pkey node j), pk_flags (pkey node j), drop 4 (img j))"
proof -
  note F = gc_state_facts [OF pre st] and T = gc_preD [OF pre j]
  have sh: "shift \<le> n_hwm st" and fit: "node_header node + 20 + n_hwm node \<le> node_end node"
    using pre by (auto simp: gc_pre_def F)
  note D = gc_done_facts [OF F(3) _ sh, folded nd_def]
  have free': "n_free st + shift + 12 < 4294967296" using free by (simp add: F)
  have co: "cur_off node del shift (n_keys node) j = gc_off node del shift j"
    using j by (simp add: cur_off_def)
  have gl: "cell_len node j \<le> gc_off node del shift j" "gc_off node del shift j \<le> n_hwm node"
    using cur_off_bounds [OF pre j, of "n_keys node"] by (simp_all add: co)
  have "unat (of_nat (gc_off node del shift j) :: u32) = gc_off node del shift j"
    using gl(2) n_bounds(3) [of node] by (intro unat_u32_of_nat) linarith
  then show off: "cell_off nd j = gc_off node del shift j"
    using F(7) [OF j] by (simp add: cell_off_def D(7) [OF free'] co)
  have "slice (node_mem nd) (node_end node - gc_off node del shift j) k =
      slice (node_mem st) (node_end node - gc_off node del shift j) k" for k
    using fit gl(2) by (intro D(8) [OF free']) (simp add: F)
  then have bytes: "cell_bytes nd (gc_off node del shift j) k = cell_bytes st (gc_off node del shift j) k" for k
    by (simp add: cell_bytes_def D(2) [OF free'] F)
  with F(8) [OF j] have eq: "cell_bytes nd (gc_off node del shift j) (cell_len node j) = img j"
    by (simp add: co)
  have "4 \<le> cell_len node j" by (simp add: cell_len_def)
  then show sz: "cell_size nd (cell_off nd j) = cell_size node (cell_off node j)"
    using arg_cong [OF eq, of "\<lambda>b. rd32 b 0"] size by (simp add: rd32_cell_bytes cell_size_def off)
  have "cell_payload nd (cell_off nd j) = drop 4 (img j)"
    using cell_bytes_payload [OF sz] eq by (simp add: off cell_len_def)
  then show "node_entry nd j = (pk_key (pkey node j), pk_flags (pkey node j), drop 4 (img j))"
    using F(7) [OF j] by (simp add: node_entry_def D(7) [OF free'])
qed

lemma drop_own_cell: "drop 4 (own_cell node j) = cell_payload node (cell_off node j)"
  by (simp add: own_cell_def cell_len_def cell_bytes_payload [OF refl])

definition node_wf :: "btree_node \<Rightarrow> bool" where
  "node_wf node \<longleftrightarrow> node_inv node \<and> cells_disjoint node"

text \<open>What the caller's buffer holds after the copy.\<close>

definition taken :: "bytes option \<Rightarrow> u32 \<Rightarrow> bytes \<Rightarrow> bytes option" where
  "taken buffer buffer_size payload =
     map_option (\<lambda>b. patch b 0 (take (unat buffer_size) payload)) buffer"

definition takes :: "bytes option \<Rightarrow> u32 \<Rightarrow> bytes \<Rightarrow> bool" where
  "takes buffer buffer_size payload \<longleftrightarrow>
     (case buffer of None \<Rightarrow> True
      | Some b \<Rightarrow> unat buffer_size < 2147483648 \<and> min (unat buffer_size) (length payload) \<le> length b)"

definition slid :: "btree_node \<Rightarrow> nat \<Rightarrow> btree_node" where
  "slid node d = set_node_mem node (slid_mem node d)"

lemma cell_facts:
  assumes "node_wf node" and "j < n_keys node"
  shows "cell_len node j \<le> cell_off node j" "cell_off node j \<le> n_hwm node"
    "node_header node + 20 + 12 * n_keys node + n_free node + n_hwm node = node_end node"
    "node_shape node" "length (cell_payload node (cell_off node j)) = cell_size node (cell_off node j)"
proof -
  show le: "cell_len node j \<le> cell_off node j" "cell_off node j \<le> n_hwm node"
    "node_header node + 20 + 12 * n_keys node + n_free node + n_hwm node = node_end node"
    "node_shape node"
    using assms by (auto simp: node_wf_def node_inv_def cell_ok_def cell_len_def)
  show "length (cell_payload node (cell_off node j)) = cell_size node (cell_off node j)"
    unfolding cell_payload_def using le
    by (intro length_slice) (fold node_end_def, simp add: cell_len_def)
qed

lemma slid_entries:
  assumes wf: "node_wf node" and d: "d < n_keys node" and room: "12 \<le> n_free node + n_hwm node"
    and j: "j < n_keys node - 1"
  shows "cell_off (slid node d) j = cell_off node (skip d j)"
    and "cell_size (slid node d) (cell_off node (skip d j)) = cell_size node (cell_off node (skip d j))"
    and "node_entry (slid node d) j = node_entry node (skip d j)"
proof -
  have sk: "skip d j < n_keys node" using skip_lt [OF d j] by simp
  note C = cell_facts [OF wf sk]
  have S: "node_header node + 20 + 12 * n_keys node + 12 \<le> node_end node"
    "node_header node + 20 + 12 * n_keys node + n_hwm node \<le> node_end node" using C(3) room by linarith+
  note F = slide_keys_facts [OF C(4) d S, folded slid_def]
  show off: "cell_off (slid node d) j = cell_off node (skip d j)"
    using F(7) [OF j] by (simp add: cell_off_def)
  have e: "node_end (slid node d) = node_end node" using F(2) by (simp add: slid_def)
  have fr: "slice (node_mem (slid node d)) p k = slice (node_mem node) p k"
    if "node_end node - cell_off node (skip d j) \<le> p" for p k
  proof -
    have "node_header node + 20 + 12 * n_keys node \<le> p" using that S C(2) by linarith
    with F(6) [of p k] show ?thesis by (simp add: slid_def)
  qed
  have "cell_off node (skip d j) \<le> node_end node" using C(2) S by linarith
  from cell_frame [OF e _ this fr] C(1)
  have cf: "cell_size (slid node d) (cell_off node (skip d j)) = cell_size node (cell_off node (skip d j))"
    "cell_payload (slid node d) (cell_off node (skip d j)) = cell_payload node (cell_off node (skip d j))"
    by (simp_all add: cell_len_def)
  then show "cell_size (slid node d) (cell_off node (skip d j)) = cell_size node (cell_off node (skip d j))"
    by simp
  show "node_entry (slid node d) j = node_entry node (skip d j)"
    using F(7) [OF j] cf off by (simp add: node_entry_def)
qed

lemma slid_gc_pre:
  assumes wf: "node_wf node" and d: "d < n_keys node" and room: "12 \<le> n_free node + n_hwm node"
  shows "gc_pre (slid node d) (cell_off node d) (cell_len node d)"
proof -
  note C = cell_facts [OF wf d] and E = slid_entries [OF wf d room]
  have S: "node_header node + 20 + 12 * n_keys node + 12 \<le> node_end node"
    "node_header node + 20 + 12 * n_keys node + n_hwm node \<le> node_end node" using C(3) room by linarith+
  note F = slide_keys_facts [OF C(4) d S, folded slid_def]
  have e: "node_end (slid node d) = node_end node" "node_header (slid node d) = node_header node"
    using F(2) by (simp_all add: slid_def)
  have lo: "cell_lo (slid node d) j = cell_lo node (skip d j)" if "j < n_keys node - 1" for j
    using E(1,2) [OF that] by (simp add: cell_lo_def)
  have dj: "cell_off node j \<le> cell_lo node k \<or> cell_off node k \<le> cell_lo node j"
    if "j < n_keys node" "k < n_keys node" "j \<noteq> k" for j k
    using wf that by (simp add: node_wf_def cells_disjoint_def)
  have cells: "cell_ok (slid node d) j \<and> cell_off (slid node d) j \<noteq> cell_off node d \<and>
      (cell_off node d < cell_off (slid node d) j \<longrightarrow> cell_off node d \<le> cell_lo (slid node d) j) \<and>
      (cell_off (slid node d) j < cell_off node d \<longrightarrow>
        cell_off (slid node d) j \<le> cell_off node d - cell_len node d)" if "j < n_keys node - 1" for j
  proof -
    have sk: "skip d j < n_keys node" "skip d j \<noteq> d" using skip_lt [OF d that] by auto
    note K = cell_facts [OF wf sk(1)]
    have "cell_lo node d = cell_off node d - cell_len node d" "0 < cell_len node d"
      "cell_lo node (skip d j) = cell_off node (skip d j) - cell_len node (skip d j)"
      "0 < cell_len node (skip d j)"
      by (simp_all add: cell_lo_def cell_len_def)
    with dj [OF sk(1) d sk(2)] K C E(1,2) [OF that] lo [OF that] show ?thesis
      by (auto simp: cell_ok_def F(5) cell_len_def)
  qed
  have disj: "cells_disjoint (slid node d)"
    unfolding cells_disjoint_def F(3)
  proof (intro allI impI)
    fix j k assume jk: "j < n_keys node - 1" "k < n_keys node - 1" "j \<noteq> k"
    then have "skip d j \<noteq> skip d k" by (auto simp: skip_def)
    with dj skip_lt [OF d jk(1)] skip_lt [OF d jk(2)] E(1) jk lo
    show "cell_off (slid node d) j \<le> cell_lo (slid node d) k \<or>
        cell_off (slid node d) k \<le> cell_lo (slid node d) j" by simp
  qed
  have "node_header node + 20 + 12 * (n_keys node - 1) + n_hwm node \<le> node_end node"
    using S by linarith
  moreover have "node_shape (slid node d)" using C(4) F(2) by (simp add: slid_def)
  ultimately show ?thesis
    using C(1,2) cells disj by (simp add: gc_pre_def F(3,5) e)
qed

text \<open>The conditions on the slid node, read on the node itself.\<close>

lemma slid_own:
  assumes wf: "node_wf node" and d: "d < n_keys node" and room: "12 \<le> n_free node + n_hwm node"
    and j: "j < n_keys node - 1"
  shows "cell_len (slid node d) j = cell_len node (skip d j)"
    and "drop 4 (own_cell (slid node d) j) = cell_payload node (cell_off node (skip d j))"
    and "rd32 (own_cell (slid node d) j) 0 = rd32 (node_mem node) (node_end node - cell_off node (skip d j))"
    and "pk_key (pkey (slid node d) j) = pk_key (pkey node (skip d j))"
    and "pk_flags (pkey (slid node d) j) = pk_flags (pkey node (skip d j))"
proof -
  note E = slid_entries [OF wf d room j]
  show len: "cell_len (slid node d) j = cell_len node (skip d j)"
    using E(1,2) by (simp add: cell_len_def)
  show "drop 4 (own_cell (slid node d) j) = cell_payload node (cell_off node (skip d j))"
    and "pk_key (pkey (slid node d) j) = pk_key (pkey node (skip d j))"
    and "pk_flags (pkey (slid node d) j) = pk_flags (pkey node (skip d j))"
    using E(3) by (simp_all add: node_entry_def drop_own_cell)
  show "rd32 (own_cell (slid node d) j) 0 = rd32 (node_mem node) (node_end node - cell_off node (skip d j))"
    using E(1,2) by (simp add: rd32_own_cell cell_size_def word_unat_eq_iff)
qed

lemma slid_n_keys:
  assumes wf: "node_wf node" and d: "d < n_keys node" and room: "12 \<le> n_free node + n_hwm node"
  shows "n_keys (slid node d) = n_keys node - 1"
proof -
  note C = cell_facts [OF wf d]
  have "node_header node + 20 + 12 * n_keys node + 12 \<le> node_end node"
    "node_header node + 20 + 12 * n_keys node + n_hwm node \<le> node_end node" using C(3) room by linarith+
  from slide_keys_facts(3) [OF C(4) d this] show ?thesis by (simp add: slid_def)
qed

lemma slid_in_order:
  assumes wf: "node_wf node" and d: "d < n_keys node" and room: "12 \<le> n_free node + n_hwm node"
    and ord: "others_in_order node d"
  shows "heap_in_order (slid node d) (cell_off node d)"
  unfolding heap_in_order_def slid_n_keys [OF wf d room]
proof (intro allI impI)
  fix j k assume jk: "j < k \<and> k < n_keys node - 1 \<and> cell_off node d < cell_off (slid node d) j \<and>
    cell_off node d < cell_off (slid node d) k"
  then have "j < n_keys node - 1" "k < n_keys node - 1" by auto
  note L = skip_lt [OF d this(1)] skip_lt [OF d this(2)] slid_entries(1) [OF wf d room this(1)]
    slid_entries(1) [OF wf d room this(2)]
  from ord jk L skip_mono [of j k d] show "cell_off (slid node d) j < cell_off (slid node d) k"
    unfolding others_in_order_def by auto
qed

text \<open>The whole removal, for any sequence of images.\<close>

lemma remove_gc_images:
  assumes wf: "node_wf node" and d: "d < n_keys node" and room: "12 \<le> n_free node + n_hwm node"
    and im: "gc_images (slid node d) (cell_off node d) (cell_len node d) I"
    and size: "\<And>j. j < n_keys node - 1 \<Longrightarrow> rd32 (I (n_keys node - 1) j) 0 =
      rd32 (own_cell (slid node d) j) 0"
  shows "\<exists>nd. gc_node (slid node d) (of_nat (cell_off node d)) (of_nat (cell_size node (cell_off node d)))
      = Some (BTREE_OK, nd) \<and>
    node_wf nd \<and> node_abs nd = map (\<lambda>j. (pk_key (pkey node (skip d j)), pk_flags (pkey node (skip d j)),
      drop 4 (I (n_keys node - 1) j))) [0..<n_keys node - 1] \<and>
    n_free nd = n_free node + cell_size node (cell_off node d) + 16 \<and>
    node_end nd = node_end node \<and> node_header nd = node_header node"
proof -
  define del where "del = cell_off node d"
  define shift where "shift = cell_len node d"
  define m where "m = n_keys node - 1"
  note C = cell_facts [OF wf d]
  note E = slid_entries [OF wf d room, folded m_def]
  have S: "node_header node + 20 + 12 * n_keys node + 12 \<le> node_end node"
    "node_header node + 20 + 12 * n_keys node + n_hwm node \<le> node_end node" using C(3) room by linarith+
  note F = slide_keys_facts [OF C(4) d S, folded slid_def m_def]
  have e: "node_end (slid node d) = node_end node" "node_header (slid node d) = node_header node"
    using F(2) by (simp_all add: slid_def)
  note pre = slid_gc_pre [OF wf d room, folded del_def shift_def]
  have sz: "unat (of_nat (cell_size node (cell_off node d)) :: u32) = cell_size node (cell_off node d)"
    by (simp add: cell_size_def)
  have sh: "shift = cell_size node (cell_off node d) + 4" by (simp add: shift_def cell_len_def)
  have n1: "12 * n_keys node = 12 * m + 12" using d by (simp add: m_def)
  have free: "n_free node + shift + 12 < 4294967296"
    using C(1,2,3) n1 node_end_small [OF C(4)] by (simp add: shift_def)
  obtain st where st: "gc_state (slid node d) del shift (I m) m st"
    and run: "gc_node (slid node d) (of_nat del) (of_nat (cell_size node (cell_off node d))) =
      Some (BTREE_OK, gc_done st shift)"
    using gc_node_ok [of "slid node d" del "of_nat (cell_size node (cell_off node d))" I]
      pre im [folded del_def shift_def] free
    by (auto simp: sz sh F(3,4))
  define nd where "nd = gc_done st shift"
  note G = gc_state_facts [OF pre st]
  have le: "shift \<le> n_hwm st" using C(1,2) by (simp add: G F shift_def)
  note D = gc_done_facts [OF G(3) _ le, folded nd_def]
  have fr': "n_free st + shift + 12 < 4294967296" using free by (simp add: G F)
  note D = D [OF fr']
  note O = slid_own [OF wf d room, folded m_def]
  have size': "rd32 (I m j) 0 = rd32 (node_mem (slid node d))
      (node_end (slid node d) - cell_off (slid node d) j)" if "j < m" for j
    using size [folded m_def, OF that] by (simp add: rd32_own_cell)
  note N = gc_done_entries [OF pre, unfolded F(3,4), OF st free _ size', folded nd_def]
  have keys: "n_keys nd = m" by (simp add: D G F)
  have off: "cell_off nd j = gc_off (slid node d) del shift j" if "j < m" for j by (rule N(1) [OF that that])
  have size: "cell_size nd (cell_off nd j) = cell_size (slid node d) (cell_off (slid node d) j)"
    if "j < m" for j by (rule N(2) [OF that that])
  have T: "cell_len (slid node d) j \<le> cell_off (slid node d) j"
    "cell_off (slid node d) j \<le> n_hwm node" "cell_off (slid node d) j \<noteq> del"
    "del < cell_off (slid node d) j \<Longrightarrow> del + cell_len (slid node d) j \<le> cell_off (slid node d) j"
    "cell_off (slid node d) j < del \<Longrightarrow> cell_off (slid node d) j + shift \<le> del" if "j < m" for j
    using gc_preD [OF pre] that by (simp_all add: F)
  have sd: "shift \<le> del" "del \<le> n_hwm node" using C(1,2) by (simp_all add: shift_def del_def)
  have ok: "cell_ok nd j" if "j < m" for j
    using T(1-5) [OF that] sd size [OF that] off [OF that]
    by (auto simp: cell_ok_def D G F gc_off_def cell_len_def)
  have "node_inv nd"
    using ok C(3) D n1 sh C(1,2) by (auto simp: node_inv_def keys G F e shift_def [symmetric] del_def)
  moreover have "cells_disjoint nd"
    unfolding cells_disjoint_def keys
  proof (intro allI impI)
    fix j k assume jk: "j < m" "k < m" "j \<noteq> k"
    have "cell_off (slid node d) j \<le> cell_lo (slid node d) k \<or>
        cell_off (slid node d) k \<le> cell_lo (slid node d) j"
      using pre jk by (simp add: gc_pre_def cells_disjoint_def F)
    with T [OF jk(1)] T [OF jk(2)] size [OF jk(1)] size [OF jk(2)] off [OF jk(1)] off [OF jk(2)] sd
    show "cell_off nd j \<le> cell_lo nd k \<or> cell_off nd k \<le> cell_lo nd j"
      by (auto simp: cell_lo_def cell_len_def gc_off_def)
  qed
  moreover have "node_abs nd = map (\<lambda>j. (pk_key (pkey node (skip d j)), pk_flags (pkey node (skip d j)),
      drop 4 (I m j))) [0..<m]"
    using N(3) O(4,5) by (simp add: node_abs_def keys)
  ultimately show ?thesis
    using run [folded nd_def] by (auto simp: node_wf_def D G F e sh del_def m_def)
qed

text \<open>With the other cells in order every entry keeps its own payload.\<close>

lemma remove_gc:
  assumes wf: "node_wf node" and d: "d < n_keys node" and room: "12 \<le> n_free node + n_hwm node"
    and ord: "others_in_order node d"
  shows "\<exists>nd. gc_node (slid node d) (of_nat (cell_off node d)) (of_nat (cell_size node (cell_off node d)))
      = Some (BTREE_OK, nd) \<and>
    node_wf nd \<and> node_abs nd = remove_nth d (node_abs node) \<and>
    n_free nd = n_free node + cell_size node (cell_off node d) + 16 \<and>
    node_end nd = node_end node \<and> node_header nd = node_header node"
proof -
  note im = gc_images_in_order [OF slid_gc_pre [OF wf d room] slid_in_order [OF wf d room ord]]
  have "map (\<lambda>j. (pk_key (pkey node (skip d j)), pk_flags (pkey node (skip d j)),
      drop 4 (own_cell (slid node d) j))) [0..<n_keys node - 1] = remove_nth d (node_abs node)"
    unfolding node_abs_def map_skip [OF d, symmetric]
    by (rule map_cong [OF refl]) (simp add: slid_own(2) [OF wf d room] node_entry_def)
  with remove_gc_images [OF wf d room im] show ?thesis by simp
qed

lemma read_cell_at:
  assumes wf: "node_wf node" and d: "d < n_keys node"
  shows "btu_read_cell node (of_nat d) =
      Some \<lparr>cd_pointer = drop (node_end node - cell_off node d + 4) (node_mem node),
        cd_size = of_nat (cell_size node (cell_off node d))\<rparr>"
    and "key_at node (of_nat d) = Some (pkey node d)"
proof -
  note C = cell_facts [OF wf d]
  have d1: "12 * (d + 1) \<le> 12 * n_keys node" using d by simp
  have und: "unat (of_nat d :: u32) = d" using d n_bounds(1) [of node] by (intro unat_u32_of_nat) simp
  show key: "key_at node (of_nat d) = Some (pkey node d)"
    using key_at_pkey [OF C(4), of "of_nat d"] C(3) d1 by (simp add: und)
  have "cell_off node d \<le> node_end node" "cell_off node d < 2147483648"
    using C(2,3) node_end_small [OF C(4)] C(4) by (simp_all add: node_shape_def)
  then have hw: "btu_calc_highwater_offset node (pk_cell_offset (pkey node d)) =
      Some (node_end node - cell_off node d)"
    using highwater_offset [OF C(4), of "pk_cell_offset (pkey node d)"] by (simp add: cell_off_def)
  have "node_end node - cell_off node d + 4 \<le> length (node_mem node)"
    using C(1-3) by (simp add: cell_len_def flip: node_end_def)
  then show "btu_read_cell node (of_nat d) =
      Some \<lparr>cd_pointer = drop (node_end node - cell_off node d + 4) (node_mem node),
        cd_size = of_nat (cell_size node (cell_off node d))\<rparr>"
    using key hw by (simp add: btu_read_cell_def mem_read32_rd32 cell_size_def)
qed

text \<open>What happens around the collection of the heap.\<close>

lemma remove_at_run:
  assumes wf: "node_wf node" and d: "d < n_keys node" and room: "12 \<le> n_free node + n_hwm node"
    and gc: "gc_node (slid node d) (of_nat (cell_off node d)) (of_nat (cell_size node (cell_off node d)))
      = Some (BTREE_OK, nd)"
    and buf: "takes buffer buffer_size (cell_payload node (cell_off node d))"
  defines "buffer' \<equiv> taken buffer buffer_size (cell_payload node (cell_off node d))"
  shows "btree_node_remove_at node (of_nat d) buffer buffer_size =
      Some (BTREE_OK, nd, (of_nat (cell_size node (cell_off node d)), buffer'), buffer')"
proof -
  let ?sz = "cell_size node (cell_off node d)"
  note C = cell_facts [OF wf d] and R = read_cell_at [OF wf d]
  have S: "node_header node + 20 + 12 * n_keys node + 12 \<le> node_end node"
    "node_header node + 20 + 12 * n_keys node + n_hwm node \<le> node_end node" using C(3) room by linarith+
  note slide = slide_keys_facts(1) [OF C(4) d S, folded slid_def]
  have lt: "(of_nat d :: u32) < of_nat (n_keys node)"
    using d n_bounds(1) [of node] by (simp add: word_less_nat_alt unat_u32_of_nat)
  have co: "pk_cell_offset (pkey node d) = of_nat (cell_off node d)" by (simp add: cell_off_def)
  have buf': "(case buffer of None \<Rightarrow> Some None
      | Some b \<Rightarrow> do {
          xs \<leftarrow> mem_read (drop (node_end node - cell_off node d + 4) (node_mem node)) 0
            (unat (c_min buffer_size (of_nat ?sz)));
          b \<leftarrow> mem_write b 0 xs;
          Some (Some b) }) = Some buffer'"
  proof (cases buffer)
    case (Some b)
    have "?sz < 2147483648"
      using C(1-3) node_end_small [OF C(4)] C(4) by (simp add: cell_len_def node_shape_def)
    moreover have "unat (of_nat ?sz :: u32) = ?sz" by (simp add: cell_size_def)
    moreover have bs: "unat buffer_size < 2147483648" "min (unat buffer_size) ?sz \<le> length b"
      using buf Some by (simp_all add: takes_def C(5))
    ultimately have mn: "unat (c_min buffer_size (of_nat ?sz)) = min (unat buffer_size) ?sz"
      by (simp add: unat_c_min)
    have fit: "node_end node - cell_off node d + 4 + ?sz \<le> length (node_mem node)"
      using C(1-3) by (simp add: cell_len_def flip: node_end_def)
    have "take (min (unat buffer_size) ?sz) (drop (node_end node - cell_off node d + 4) (node_mem node)) =
        take (unat buffer_size) (cell_payload node (cell_off node d))"
      by (simp add: cell_payload_def slice_def)
    moreover have "length (take (unat buffer_size) (cell_payload node (cell_off node d))) =
        min (unat buffer_size) ?sz" by (simp add: C(5) min.commute)
    ultimately show ?thesis
      using Some bs fit
      by (simp add: mn mem_read_def buffer'_def taken_def mem_write_patch)
  qed (simp add: buffer'_def taken_def)
  show ?thesis
    using header_gets(1) [OF C(4)] R lt slide gc buf' co
    by (cases buffer)
      (auto simp: btree_node_remove_at_def Let_def require_def btree_cell_get_size_def bind_option_Some_iff)
qed

lemma remove_at_ok:
  assumes wf: "node_wf node" and d: "d < n_keys node" and room: "12 \<le> n_free node + n_hwm node"
    and ord: "others_in_order node d"
    and buf: "takes buffer buffer_size (cell_payload node (cell_off node d))"
  defines "buffer' \<equiv> taken buffer buffer_size (cell_payload node (cell_off node d))"
  shows "\<exists>nd. btree_node_remove_at node (of_nat d) buffer buffer_size =
      Some (BTREE_OK, nd, (of_nat (cell_size node (cell_off node d)), buffer'), buffer') \<and>
    node_wf nd \<and> node_abs nd = remove_nth d (node_abs node) \<and>
    n_free nd = n_free node + cell_size node (cell_off node d) + 16"
proof -
  obtain nd where nd: "gc_node (slid node d) (of_nat (cell_off node d))
      (of_nat (cell_size node (cell_off node d))) = Some (BTREE_OK, nd)"
    "node_wf nd" "node_abs nd = remove_nth d (node_abs node)"
    "n_free nd = n_free node + cell_size node (cell_off node d) + 16"
    using remove_gc [OF wf d room ord] by blast
  with remove_at_run [OF wf d room nd(1) buf] show ?thesis unfolding buffer'_def by blast
qed

text \<open>
  The order broken by one pair: the cell of \<open>k\<close> lies right of the cell of \<open>j\<close>, whose key comes first,
  and both have the size of the removed cell.
\<close>

definition pair_out_of_order :: "btree_node \<Rightarrow> nat \<Rightarrow> nat \<Rightarrow> nat \<Rightarrow> bool" where
  "pair_out_of_order node d j k \<longleftrightarrow> j < k \<and> k < n_keys node \<and> j \<noteq> d \<and> k \<noteq> d \<and>
     cell_off node d < cell_off node k \<and> cell_off node j = cell_off node k + cell_len node d \<and>
     cell_len node j = cell_len node d \<and> cell_len node k = cell_len node d \<and>
     (\<forall>b < n_keys node. \<forall>a < b. a \<noteq> d \<and> b \<noteq> d \<and> (a, b) \<noteq> (j, k) \<and>
        cell_off node d < cell_off node a \<and> cell_off node d < cell_off node b \<longrightarrow>
        cell_off node a < cell_off node b)"

lemma skip_onto: "j \<noteq> d \<Longrightarrow> j < n \<Longrightarrow> d < n \<Longrightarrow> \<exists>j' < n - 1. skip d j' = j"
  by (rule exI [of _ "if j < d then j else j - 1"]) (auto simp: skip_def)

lemma skip_less: "skip d a < skip d b \<longleftrightarrow> a < b" and skip_eq: "skip d a = skip d b \<longleftrightarrow> a = b"
  by (auto simp: skip_def)

lemma slid_swapped_pair:
  assumes wf: "node_wf node" and d: "d < n_keys node" and room: "12 \<le> n_free node + n_hwm node"
    and pair: "pair_out_of_order node d (skip d a) (skip d b)" and ab: "a < n_keys node - 1" "b < n_keys node - 1"
  shows "swapped_pair (slid node d) (cell_off node d) (cell_len node d) a b"
  unfolding swapped_pair_def slid_n_keys [OF wf d room]
proof (intro conjI allI impI)
  note E = slid_entries(1) [OF wf d room] and L = slid_own(1) [OF wf d room]
  show "a < b" "b < n_keys node - 1" "cell_off node d < cell_off (slid node d) b"
    "cell_off (slid node d) a = cell_off (slid node d) b + cell_len node d"
    "cell_len (slid node d) a = cell_len node d" "cell_len (slid node d) b = cell_len node d"
    using pair ab E [OF ab(1)] E [OF ab(2)] L [OF ab(1)] L [OF ab(2)]
    by (simp_all add: pair_out_of_order_def skip_less)
  fix j k assume jk: "j < k \<and> k < n_keys node - 1 \<and> (j, k) \<noteq> (a, b) \<and>
    cell_off node d < cell_off (slid node d) j \<and> cell_off node d < cell_off (slid node d) k"
  then have lt: "j < n_keys node - 1" "k < n_keys node - 1" by auto
  note S = skip_lt [OF d lt(1)] skip_lt [OF d lt(2)]
  have "(skip d j, skip d k) \<noteq> (skip d a, skip d b)" using jk by (simp add: skip_eq)
  with pair jk S E [OF lt(1)] E [OF lt(2)] show "cell_off (slid node d) j < cell_off (slid node d) k"
    unfolding pair_out_of_order_def by (simp add: skip_less)
qed

lemma remove_gc_pair:
  assumes wf: "node_wf node" and d: "d < n_keys node" and room: "12 \<le> n_free node + n_hwm node"
    and pair: "pair_out_of_order node d j k"
  shows "\<exists>nd. gc_node (slid node d) (of_nat (cell_off node d)) (of_nat (cell_size node (cell_off node d)))
      = Some (BTREE_OK, nd) \<and> node_wf nd \<and>
    node_abs nd = remove_nth d ((node_abs node)[k := (pk_key (pkey node k), pk_flags (pkey node k),
      cell_payload node (cell_off node j))]) \<and>
    n_free nd = n_free node + cell_size node (cell_off node d) + 16"
proof -
  have jk: "j < k" "k < n_keys node" "j \<noteq> d" "k \<noteq> d" "j < n_keys node"
    using pair by (auto simp: pair_out_of_order_def)
  obtain a b where ab: "a < n_keys node - 1" "skip d a = j" "b < n_keys node - 1" "skip d b = k"
    using skip_onto [OF jk(3,5) d] skip_onto [OF jk(4,2) d] by blast
  note sw = slid_swapped_pair [OF wf d room _ ab(1,3), unfolded ab(2,4), OF pair]
  note pre = slid_gc_pre [OF wf d room]
  let ?I = "swapped_images (slid node d) a b"
  have lt: "a < n_keys node - 1" using ab(1) .
  have sizes: "rd32 (?I (n_keys node - 1) x) 0 = rd32 (own_cell (slid node d) x) 0" for x
    using sw cell_len_rd32 [of "slid node d" a b]
    by (simp add: swapped_images_def swapped_pair_def rd32_own_cell)
  define e where "e x = (if x = k then (pk_key (pkey node k), pk_flags (pkey node k),
    cell_payload node (cell_off node j)) else node_entry node x)" for x
  have "(node_abs node)[k := e k] = map e [0..<n_keys node]"
    using jk(2) by (intro nth_equalityI) (auto simp: node_abs_def nth_list_update e_def)
  then have abs: "map (\<lambda>x. e (skip d x)) [0..<n_keys node - 1] =
      remove_nth d ((node_abs node)[k := (pk_key (pkey node k), pk_flags (pkey node k),
        cell_payload node (cell_off node j))])"
    using map_skip [OF d, of e] by (simp add: e_def)
  have "(pk_key (pkey node (skip d x)), pk_flags (pkey node (skip d x)),
      drop 4 (?I (n_keys node - 1) x)) = e (skip d x)" if "x < n_keys node - 1" for x
    using slid_own(2) [OF wf d room that] slid_own(2) [OF wf d room lt] ab lt skip_eq [of d x b]
    by (simp add: swapped_images_def e_def node_entry_def)
  then have "map (\<lambda>x. (pk_key (pkey node (skip d x)), pk_flags (pkey node (skip d x)),
      drop 4 (?I (n_keys node - 1) x))) [0..<n_keys node - 1] = map (\<lambda>x. e (skip d x)) [0..<n_keys node - 1]"
    by (intro map_cong [OF refl]) simp
  with abs remove_gc_images [OF wf d room gc_images_swapped [OF pre sw] sizes] show ?thesis by auto
qed

end
