(* ===== verification/SearchProps.thy ===== *)
theory SearchProps
  imports NodeProps NodeIO "HOL-Library.List_Lexorder"
begin

text \<open>
  What a search in a node returns, for the array search of \<open>btree_utils.c\<close> and for the search with
  the callbacks of a tree: both are instances of the contract of \<open>BinarySearch\<close>.
\<close>

section \<open>The search in the key array\<close>

definition key_probe :: "page_key list \<Rightarrow> u32 \<Rightarrow> int \<Rightarrow> int option" where
  "key_probe arr key i = map_option (\<lambda>k. compare3 (pk_key k) key) (arr_get arr (nat i))"

interpretation key_search:
  binary_search "key_probe arr key" "btu_binary_search_keys_loop arr key" n for arr key n
proof
  fix l r :: int
  show "r < l \<Longrightarrow> btu_binary_search_keys_loop arr key l r = Some (l, False)"
    by (simp add: btu_binary_search_keys_loop.simps)
  show "0 \<le> l \<Longrightarrow> l \<le> r \<Longrightarrow> r < n \<Longrightarrow> btu_binary_search_keys_loop arr key l r =
    (case key_probe arr key (mid_of l r) of
       None \<Rightarrow> None
     | Some c \<Rightarrow>
         if c = 0 then Some (mid_of l r, True)
         else if c < 0 then btu_binary_search_keys_loop arr key (mid_of l r + 1) r
         else btu_binary_search_keys_loop arr key l (mid_of l r - 1))"
    by (subst btu_binary_search_keys_loop.simps)
      (cases "arr_get arr (nat (mid_of l r))", simp_all add: key_probe_def)
qed

text \<open>The place of a key in an ascending list.\<close>

definition keys_ascending :: "'a::linorder list \<Rightarrow> bool" where
  "keys_ascending ks \<longleftrightarrow> sorted_wrt (<) ks"

definition key_place :: "'a::linorder list \<Rightarrow> 'a \<Rightarrow> nat" where
  "key_place ks key = length (takeWhile (\<lambda>k. k < key) ks)"

lemma key_place_le: "key_place ks key \<le> length ks"
  by (simp add: key_place_def length_takeWhile_le)

lemma key_place_eqI:
  assumes "i \<le> length ks" and "\<And>j. j < i \<Longrightarrow> ks ! j < key" and "i < length ks \<Longrightarrow> \<not> ks ! i < key"
  shows "key_place ks key = i"
proof -
  have "takeWhile (\<lambda>k. k < key) ks = take i ks"
    using assms by (intro takeWhile_eq_take_P_nth) auto
  with assms(1) show ?thesis by (simp add: key_place_def)
qed

lemma keys_ascending_nth:
  "keys_ascending ks \<Longrightarrow> 0 \<le> i \<Longrightarrow> i < j \<Longrightarrow> j < int (length ks) \<Longrightarrow> ks ! nat i < ks ! nat j"
  by (simp add: keys_ascending_def sorted_wrt_nth_less nat_less_iff)

text \<open>The contract of the search, for an ascending list of keys.\<close>

lemma search_post_place:
  assumes "keys_ascending ks"
    and probe: "\<And>i. 0 \<le> i \<Longrightarrow> i < int (length ks) \<Longrightarrow> probe i = Some (compare3 (ks ! nat i) key)"
    and post: "search_post probe (int (length ks)) i found"
  shows "i = int (key_place ks key) \<and> (found \<longleftrightarrow> key \<in> set ks)"
proof -
  have asc: "ks ! j < ks ! k" if "j < k" "k < length ks" for j k
    using assms(1) that by (simp add: keys_ascending_def sorted_wrt_nth_less)
  have i: "0 \<le> i" "i \<le> int (length ks)" using post by (simp_all add: search_post_def)
  show ?thesis
  proof (cases found)
    case True
    then have "i < int (length ks)" "ks ! nat i = key"
      using post probe [of i] by (auto simp: search_post_def)
    moreover have "key_place ks key = nat i"
      using calculation i asc by (intro key_place_eqI) auto
    moreover have "ks ! nat i \<in> set ks"
      using calculation i by (intro nth_mem) linarith
    ultimately show ?thesis using True i by auto
  next
    case False
    have before: "ks ! j < key" if "j < nat i" for j
      using search_post_before [of probe _ i "int j"] probe [of "int j"] post False that i by auto
    have after: "key < ks ! j" if "nat i \<le> j" "j < length ks" for j
      using search_post_after [of probe _ i "int j"] probe [of "int j"] post False that i by auto
    have "key_place ks key = nat i"
      using i before after by (intro key_place_eqI) (auto simp: not_less less_imp_le)
    moreover have "key \<notin> set ks"
      using before after by (auto simp: in_set_conv_nth) (metis less_irrefl not_less)
    ultimately show ?thesis using False i by auto
  qed
qed

text \<open>
  C20: on an ascending array of at most 255 keys the search returns the place of the key, and
  whether it is there.
\<close>

theorem btu_binary_search_keys_correct:
  assumes "keys_ascending (map pk_key arr)" and "length arr = unat num_keys"
  shows "btu_binary_search_keys arr num_keys key =
    Some (of_nat (key_place (map pk_key arr) key), key \<in> pk_key ` set arr)"
proof -
  let ?ks = "map pk_key arr"
  have probe: "key_probe arr key i = Some (compare3 (?ks ! nat i) key)"
    if "0 \<le> i" "i < int (length ?ks)" for i
  proof -
    have "nat i < length arr" using that by auto
    then show ?thesis by (simp add: key_probe_def)
  qed
  have "probes_sorted (key_probe arr key) (int (length ?ks))"
    by (rule probes_sorted_ascending [where f = "\<lambda>i. ?ks ! nat i"])
      (simp_all only: probe keys_ascending_nth [OF assms(1)])
  then obtain i found where s: "btu_binary_search_keys_loop arr key 0 (int (length ?ks) - 1) = Some (i, found)"
    and post: "search_post (key_probe arr key) (int (length ?ks)) i found"
    using key_search.search_correct [of arr key "int (length ?ks)"] by auto
  from search_post_place [OF assms(1) probe post] s assms(2)
  show ?thesis by (simp add: btu_binary_search_keys_def)
qed

lemma btu_binary_search_keys_correct_witness:
  "btu_binary_search_keys [\<lparr>pk_key = 3, pk_cell_offset = 0, pk_flags = 0\<rparr>,
     \<lparr>pk_key = 7, pk_cell_offset = 0, pk_flags = 0\<rparr>] 2 5 = Some (1, False)"
  using btu_binary_search_keys_correct [of "[\<lparr>pk_key = 3, pk_cell_offset = 0, pk_flags = 0\<rparr>,
     \<lparr>pk_key = 7, pk_cell_offset = 0, pk_flags = 0\<rparr>]" 2 5]
  by (simp add: keys_ascending_def key_place_def)

section \<open>The search with the callbacks of a tree\<close>

definition node_key_list :: "btree_node \<Rightarrow> u32 list" where
  "node_key_list node = map (\<lambda>i. pk_key (pkey node i)) [0..<n_keys node]"

lemma node_key_list_abs: "node_key_list node = map fst (node_abs node)"
  by (simp add: node_key_list_def node_abs_def node_entry_def)

lemma length_node_key_list [simp]: "length (node_key_list node) = n_keys node"
  by (simp add: node_key_list_def)

lemma node_key_list_nth [simp]: "i < n_keys node \<Longrightarrow> node_key_list node ! i = pk_key (pkey node i)"
  by (simp add: node_key_list_def)

lemma key_slot:
  assumes "node_inv node" and "i < n_keys node"
  shows "node_header node + 20 + 12 * (i + 1) \<le> node_end node"
  using assms by (simp add: node_inv_def)

lemma n_keys_small:
  assumes "node_inv node"
  shows "n_keys node < 2147483648"
  using assms node_end_small [of node] by (simp add: node_inv_def)

text \<open>
  The comparisons a search relies on: the callbacks succeed on every cell of the node, leave
  context and pager alone, and order the cells ascending.
\<close>

definition comparisons_ok ::
  "'c btree_compare_fns \<Rightarrow> 'c \<Rightarrow> 'f pager \<Rightarrow> btree_node \<Rightarrow> bytes \<Rightarrow> u32 \<Rightarrow> (nat \<Rightarrow> int) \<Rightarrow> bool" where
  "comparisons_ok fns ctx pager node key key_size cmp \<longleftrightarrow>
     (\<forall>i < n_keys node. cmp i \<in> {-1, 0, 1} \<and>
        btree_node_compare_cell fns (fn_reset fns ctx) pager node (of_nat i) key key_size =
          Some (BTREE_OK, cmp i, ctx, pager))"

lemma comparisons_okD:
  assumes "comparisons_ok fns ctx pager node key key_size cmp" and "0 \<le> m" and "m < int (n_keys node)"
  shows "cmp (nat m) \<in> {-1, 0, 1}"
    and "btree_node_compare_cell fns (fn_reset fns ctx) pager node (word_of_int m) key key_size =
      Some (BTREE_OK, cmp (nat m), ctx, pager)"
proof -
  obtain k where k: "m = int k" using assms(2) by (metis nonneg_int_cases)
  then show "cmp (nat m) \<in> {-1, 0, 1}"
    and "btree_node_compare_cell fns (fn_reset fns ctx) pager node (word_of_int m) key key_size =
      Some (BTREE_OK, cmp (nat m), ctx, pager)"
    using assms(1,3) by (auto simp: comparisons_ok_def)
qed

definition found_at :: "btree_e \<times> int option \<times> 'c \<times> 'f pager \<Rightarrow> int \<times> bool" where
  "found_at out = (case out of (result, idx, _, _) \<Rightarrow> (the idx, result = BTREE_OK))"

lemma search_keys_instance:
  assumes "comparisons_ok fns ctx pager node key key_size cmp" and "n_keys node < 2147483648"
  shows "binary_search (\<lambda>i. Some (cmp (nat i)))
    (\<lambda>l r. map_option found_at (search_keys_loop fns ctx pager node key key_size l r)) (int (n_keys node))"
proof
  fix l r :: int
  show "r < l \<Longrightarrow> map_option found_at (search_keys_loop fns ctx pager node key key_size l r) = Some (l, False)"
    by (simp add: search_keys_loop.simps found_at_def)
  assume lr: "0 \<le> l" "l \<le> r" "r < int (n_keys node)"
  define m where "m = mid_of l r"
  have m: "0 \<le> m" "m < int (n_keys node)" using mid_of_bounds [OF lr(2)] lr by (simp_all add: m_def)
  note C = comparisons_okD [OF assms(1) m]
  show "map_option found_at (search_keys_loop fns ctx pager node key key_size l r) =
    (case Some (cmp (nat (mid_of l r))) of
       None \<Rightarrow> None
     | Some c \<Rightarrow>
         if c = 0 then Some (mid_of l r, True)
         else if c < 0
           then map_option found_at (search_keys_loop fns ctx pager node key key_size (mid_of l r + 1) r)
         else map_option found_at (search_keys_loop fns ctx pager node key key_size l (mid_of l r - 1)))"
    using C lr(2) by (subst search_keys_loop.simps) (auto simp: found_at_def simp flip: m_def)
qed

text \<open>The search keeps context and pager, and stores an index unless an error stops it.\<close>

lemma search_keys_frame:
  assumes "comparisons_ok fns ctx pager node key key_size cmp"
    and "0 \<le> l" and "r < int (n_keys node)"
    and "search_keys_loop fns ctx pager node key key_size l r = Some out"
  shows "\<exists>result i. out = (result, Some i, ctx, pager) \<and> (result = BTREE_OK \<or> result = BTREE_ERR_KEY_NOT_FOUND)"
  using assms(2-)
proof (induction "nat (r - l + 1)" arbitrary: l r rule: less_induct)
  case less
  show ?case
  proof (cases "l \<le> r")
    case False
    with less.prems(3) show ?thesis by (auto simp: search_keys_loop.simps)
  next
    case True
    define m where "m = mid_of l r"
    have m: "l \<le> m" "m \<le> r" using mid_of_bounds [OF True] by (simp_all add: m_def)
    note run = comparisons_okD(2) [OF assms(1), of m]
    from less.prems True m run
    consider "out = (BTREE_OK, Some m, ctx, pager)"
      | "search_keys_loop fns ctx pager node key key_size (m + 1) r = Some out"
      | "search_keys_loop fns ctx pager node key key_size l (m - 1) = Some out"
      by (subst (asm) search_keys_loop.simps) (auto split: if_splits simp flip: m_def)
    then show ?thesis
      using less.hyps [of r "m + 1"] less.hyps [of "m - 1" l] less.prems m by cases auto
  qed
qed

lemma search_keys_correct:
  assumes "comparisons_ok fns ctx pager node key key_size cmp" and "n_keys node < 2147483648"
    and sorted: "probes_sorted (\<lambda>i. Some (cmp (nat i))) (int (n_keys node))" and "node_shape node"
  shows "\<exists>i found. btree_node_search_keys fns ctx pager node key key_size =
      Some (if found then BTREE_OK else BTREE_ERR_KEY_NOT_FOUND, Some (word_of_int i), ctx, pager) \<and>
    search_post (\<lambda>i. Some (cmp (nat i))) (int (n_keys node)) i found"
proof -
  let ?run = "\<lambda>l r. map_option found_at (search_keys_loop fns ctx pager node key key_size l r)"
  let ?n = "int (n_keys node)"
  have n: "sint (of_nat (n_keys node) - 1 :: u32) = ?n - 1"
    using assms(2) by (cases "n_keys node") (simp_all add: sint_u32_small unat_u32_of_nat uint_nat)
  obtain i found where s: "?run 0 (?n - 1) = Some (i, found)" and
    post: "search_post (\<lambda>i. Some (cmp (nat i))) ?n i found"
    using binary_search.search_correct [OF search_keys_instance [OF assms(1,2)] sorted] by auto
  from s obtain out where out: "search_keys_loop fns ctx pager node key key_size 0 (?n - 1) = Some out"
    "found_at out = (i, found)" by auto
  from search_keys_frame [OF assms(1) _ _ out(1)] out(2)
  have "out = (if found then BTREE_OK else BTREE_ERR_KEY_NOT_FOUND, Some i, ctx, pager)"
    by (auto simp: found_at_def)
  with out(1) n post assms(4) show ?thesis
    by (intro exI [of _ i] exI [of _ found]) (auto simp: btree_node_search_keys_def header_gets)
qed

section \<open>Table trees\<close>

lemma table_comparisons:
  assumes "node_inv node"
  shows "comparisons_ok btree_fns () pager node (ser_write_32bit_le key) 4
    (\<lambda>i. compare3 (pk_key (pkey node i)) key)"
  unfolding comparisons_ok_def
proof (intro allI impI conjI)
  fix i assume i: "i < n_keys node"
  let ?off = "node_header node + 20 + 12 * i"
  have u: "unat (of_nat i :: u32) = i"
    using i n_bounds(1) [of node] by (intro unat_u32_of_nat) linarith
  have len: "?off + 12 \<le> length (node_mem node)"
    using key_slot [OF assms i] by (simp add: node_end_def)
  have "mem_read32 (drop ?off (node_mem node)) 0 = Some (pk_key (pkey node i))"
    using len by (simp add: mem_read32_rd32 pkey_def pkey_of_def rd32_def slice_def)
  moreover have "mem_read32 (ser_write_32bit_le key) 0 = Some key"
    by (simp add: mem_read32_def mem_read_def)
  ultimately show "btree_node_compare_cell btree_fns (fn_reset btree_fns ()) pager node (of_nat i)
      (ser_write_32bit_le key) 4 = Some (BTREE_OK, compare3 (pk_key (pkey node i)) key, (), pager)"
    using len u
    by (simp add: btree_node_compare_cell_def btree_fns_def btree_keyof_def btree_compare_def
        key_off_def node_keys_def layout_defs compare3_def)
qed (simp add: compare3_def)

definition search_status :: "bool \<Rightarrow> btree_e" where
  "search_status found = (if found then BTREE_OK else BTREE_ERR_KEY_NOT_FOUND)"

text \<open>
  C22: in a node with ascending keys, the search of a table tree finds the place of the key, says
  whether it is there, and leaves the pager alone.
\<close>

theorem btree_search_correct:
  assumes "node_inv node" and "keys_ascending (node_key_list node)"
  shows "btree_node_search_keys btree_fns () pager node (ser_write_32bit_le key) 4 =
    Some (search_status (key \<in> set (node_key_list node)),
      Some (of_nat (key_place (node_key_list node) key)), (), pager)"
proof -
  let ?ks = "node_key_list node"
  let ?probe = "\<lambda>i. Some (compare3 (pk_key (pkey node (nat i))) key)"
  have probe: "?probe i = Some (compare3 (?ks ! nat i) key)" if "0 \<le> i" "i < int (length ?ks)" for i
  proof -
    have "nat i < n_keys node" using that by auto
    then show ?thesis by simp
  qed
  have "probes_sorted ?probe (int (length ?ks))"
    by (rule probes_sorted_ascending [where f = "\<lambda>i. ?ks ! nat i"])
      (simp_all only: probe keys_ascending_nth [OF assms(2)])
  with search_keys_correct [OF table_comparisons [OF assms(1)] n_keys_small [OF assms(1)]]
    node_inv_shape [OF assms(1)]
  obtain i found where run: "btree_node_search_keys btree_fns () pager node (ser_write_32bit_le key) 4 =
      Some (search_status found, Some (word_of_int i), (), pager)"
    and post: "search_post ?probe (int (length ?ks)) i found"
    by (fastforce simp: search_status_def)
  from search_post_place [OF assms(2) probe post] run show ?thesis by simp
qed

section \<open>Index trees\<close>

text \<open>\<open>memcmp\<close> with the lengths to break ties is the lexicographic order of byte strings.\<close>

lemma memcmp_take: "min (length xs) (length ys) \<le> k \<Longrightarrow> memcmp (take k xs) (take k ys) = memcmp xs ys"
proof (induction xs ys arbitrary: k rule: memcmp.induct)
  case (1 x xs y ys)
  then show ?case by (cases k) auto
qed simp_all

lemma memcmp_compare3:
  "compare3 xs ys = (if memcmp xs ys = 0 then compare3 (length xs) (length ys) else memcmp xs ys)"
proof (induction xs ys rule: memcmp.induct)
  case (1 x xs y ys)
  have "compare3 (x # xs) (y # ys) = (if x = y then compare3 xs ys else if x < y then -1 else 1)"
    by (auto simp: compare3_def)
  moreover have "compare3 (Suc (length xs)) (Suc (length ys)) = compare3 (length xs) (length ys)"
    by (simp add: compare3_def)
  ultimately show ?case using "1.IH" by simp
qed (auto simp: compare3_def neq_Nil_conv intro: list.exhaust)

lemma memcmp_range: "memcmp xs ys \<in> {-1, 0, 1}"
  by (induction xs ys rule: memcmp.induct) auto

text \<open>
  C21: on a cell that is not split over pages, \<open>ibtree_compare\<close> is the lexicographic order of the
  payload and the key, as unsigned bytes.
\<close>

theorem ibtree_compare_lexicographic:
  assumes "unat left_size \<le> length left" and "unat right_size \<le> length right"
    and "0 < right_size" and "unat left_size < 2147483648" and "unat right_size < 2147483648"
  shows "ibtree_compare () left left_size left_size right right_size 0 =
    Some (compare3 (take (unat left_size) left) (take (unat right_size) right),
      c_min left_size right_size, right_size - c_min left_size right_size, ())"
proof -
  define xs ys where "xs = take (unat left_size) left" and "ys = take (unat right_size) right"
  have len: "length xs = unat left_size" "length ys = unat right_size"
    using assms by (simp_all add: xs_def ys_def)
  let ?k = "min (length xs) (length ys)"
  have k: "unat (c_min left_size right_size) = ?k"
    using unat_c_min assms len by simp
  have rest: "(right_size - c_min left_size right_size = 0) = (length ys \<le> length xs)"
    "(c_min left_size right_size < left_size) = (length ys < length xs)"
    "(c_min left_size right_size = left_size) = (length xs \<le> length ys)"
    using k len unat_sub_ok [of "c_min left_size right_size" right_size]
    by (auto simp: unat_eq_zero [symmetric] word_less_nat_alt unat_arith_simps(3) min_def split: if_splits)
  have "mem_read left 0 ?k = Some (take ?k xs)" "mem_read right 0 ?k = Some (take ?k ys)"
    using assms len by (simp_all add: mem_read_def xs_def ys_def min_def)
  then show ?thesis
    using k rest memcmp_range [of xs ys] memcmp_take [of xs ys ?k] assms(3)
    by (auto simp: ibtree_compare_def Let_def memcmp_compare3 compare3_def simp flip: xs_def ys_def)
qed

lemma ibtree_compare_lexicographic_witness:
  "ibtree_compare () [1, 2] 2 2 [1, 2, 3] 3 0 = Some (-1, 2, 1, ())"
  using ibtree_compare_lexicographic [of 2 "[1, 2]" 3 "[1, 2, 3]"]
  by (simp add: compare3_def c_min_def word_sless_alt)

end
