(* ===== verification/NodeTheorems.thy ===== *)
theory NodeTheorems
  imports NodeProps
begin

text \<open>
  The properties of a single node: a reset node is empty, insertion and removal act on the list
  of entries, a refused insertion changes nothing, and the order in which \<open>gc_node\<close> moves cells
  matters.
\<close>

section \<open>A small node\<close>

definition blank_page :: "u32 \<Rightarrow> page" where
  "blank_page pid = \<lparr>page_id = pid, page_size = 80, page_status = PAGER_OK,
     page_mem = replicate 92 0\<rparr>"

definition blank_node :: btree_node where
  "blank_node = \<lparr>node_page_number = 2, node_header = 12, node_page = blank_page 2\<rparr>"

definition at_index :: "u32 \<Rightarrow> insertion_index" where
  "at_index i = \<lparr>ii_mode = KLIM_INDEX, ii_index = i\<rparr>"

definition small_cell :: "byte \<Rightarrow> cell_inline" where
  "small_cell b = \<lparr>ci_inline_size = 4, ci_payload = [b, b, b, b]\<rparr>"

section \<open>Reset\<close>

text \<open>The stretch that \<open>btree_node_reset\<close> clears, and the header it then writes.\<close>

definition cleared :: "btree_node \<Rightarrow> bytes" where
  "cleared node = patch (node_mem node) (node_header node)
     (replicate (node_end node - node_header node) 0)"

lemma rd32_zero: "p + 4 \<le> n \<Longrightarrow> rd32 (replicate n 0) p = 0"
  by (simp add: rd32_def slice_def ser_read_32bit_le_def upt_rec numeral_eq_Suc)

definition emptied :: "btree_node \<Rightarrow> btree_node" where
  "emptied node = set_node_mem node
     (patch (cleared node) (node_header node + 4)
       (ser_write_32bit_le (of_nat (node_end node - node_header node - 20))))"

lemma emptied_facts:
  assumes "node_shape node"
  shows "node_end (emptied node) = node_end node" "node_header (emptied node) = node_header node"
    "node_shape (emptied node)" "n_keys (emptied node) = 0" "n_hwm (emptied node) = 0"
    "n_free (emptied node) = node_end node - node_header node - 20"
proof -
  let ?h = "node_header node" and ?e = "node_end node"
  have h: "?h + 20 \<le> ?e" using assms by (simp add: node_shape_def)
  have lm: "length (node_mem node) = ?e" by (simp add: node_end_def)
  have lc: "length (cleared node) = ?e" using h lm by (simp add: cleared_def)
  show "node_end (emptied node) = ?e" "node_header (emptied node) = ?h" "node_shape (emptied node)"
    using h lc assms by (simp_all add: emptied_def)
  have z: "rd32 (cleared node) (?h + i) = 0" if "i + 4 \<le> 20" for i
    unfolding cleared_def using h lm that
    by (subst rd32_patch_inside) (auto simp: rd32_zero)
  show "n_keys (emptied node) = 0" "n_hwm (emptied node) = 0"
    using h lc z by (simp_all add: emptied_def n_keys_def n_hwm_def rd32_patch_disjoint)
  show "n_free (emptied node) = ?e - ?h - 20"
    using h lc node_end_small [OF assms] unat_u32_of_nat [of "?e - ?h - 20"]
    by (simp add: emptied_def n_free_def [of "set_node_mem _ _"] del: of_nat_diff)
qed

lemma heap_capacity:
  assumes "node_shape node"
  shows "btree_node_calc_heap_capacity node = of_nat (node_end node - node_header node - 20)"
proof -
  have "node_header node + 20 \<le> node_end node" using assms by (simp add: node_shape_def)
  with assms show ?thesis
    by (auto simp: node_shape_def btree_node_calc_heap_capacity_def btu_get_node_buffer_def
        layout_defs BTREE_HEADER_SIZE_def page_buffer_off_def of_nat_diff)
qed

lemma init_shape:
  assumes "node_shape node"
  shows "\<lparr>node_page_number = page_id (node_page node),
      node_header = page_buffer_off + unat (if page_id (node_page node) = 1 then BTREE_HEADER_SIZE else 0),
      node_page = node_page node\<rparr> = node"
  using assms by (cases node) (auto simp: node_shape_def btu_get_node_buffer_def)

lemma init_from_page_run:
  assumes "node_shape node"
  shows "btree_node_init_from_page (node_page node) = Some (BTREE_OK,
    if n_keys node = 0
    then set_node_mem node (patch (node_mem node) (node_header node + 4)
      (ser_write_32bit_le (of_nat (node_end node - node_header node - 20))))
    else node)"
proof -
  have zero: "(of_nat (n_keys node) :: u32) = 0 \<longleftrightarrow> n_keys node = 0"
  proof
    assume z: "(of_nat (n_keys node) :: u32) = 0"
    have "n_keys node = unat (of_nat (n_keys node) :: u32)" by (simp add: unat_u32_of_nat n_bounds)
    with z show "n_keys node = 0" by simp
  qed simp
  show ?thesis
    unfolding btree_node_init_from_page_def Let_def init_shape [OF assms]
    using header_gets(1) [OF assms] hdr_set_eq [OF assms, of hdr_free_heap] heap_capacity [OF assms]
    by (simp add: zero layout_defs)
qed

lemma reset_run:
  assumes "node_shape node"
  shows "btree_node_reset node = Some (BTREE_OK, emptied node)"
proof -
  let ?h = "node_header node" and ?e = "node_end node"
  define nd where "nd = set_node_mem node (cleared node)"
  have h: "?h + 20 \<le> ?e" "?h = btu_get_node_buffer node" using assms by (simp_all add: node_shape_def)
  have lm: "length (node_mem node) = ?e" by (simp add: node_end_def)
  have lc: "length (cleared node) = ?e" using h lm by (simp add: cleared_def)
  have sz: "unat (btu_get_node_size node) = ?e - ?h" using node_size_eq(1) [OF assms] h by linarith
  have ms: "mem_set (node_mem node) (btu_get_node_buffer node) 0 (unat (btu_get_node_size node)) =
      Some (cleared node)"
    using h lm by (simp add: mem_set_def mem_write_patch sz cleared_def)
  have shape: "node_shape nd" using assms lc by (simp add: nd_def)
  have nd: "node_end nd = ?e" "node_header nd = ?h" using lc by (simp_all add: nd_def)
  have "rd32 (cleared node) (?h + 8) = 0"
    unfolding cleared_def using h lm by (subst rd32_patch_inside) (auto simp: rd32_zero)
  then have "n_keys nd = 0" by (simp add: nd_def n_keys_def)
  then show ?thesis
    using ms init_from_page_run [OF shape] nd
    by (simp add: btree_node_reset_def flip: nd_def) (simp add: nd_def emptied_def)
qed

text \<open>
  A reset node is a well-formed node without entries, and everything behind its header is free.
\<close>

lemma btree_node_reset_empty:
  assumes "node_shape node"
  shows "\<exists>nd. btree_node_reset node = Some (BTREE_OK, nd) \<and> node_wf nd \<and> node_abs nd = [] \<and>
    n_free nd = node_end node - node_header node - 20 \<and> node_end nd = node_end node"
proof -
  have "node_header node + 20 \<le> node_end node" using assms by (simp add: node_shape_def)
  then show ?thesis
    using reset_run [OF assms] emptied_facts [OF assms]
    by (simp add: node_wf_def node_inv_def cells_disjoint_def node_abs_def)
qed

lemma blank_node_shape: "node_shape blank_node"
  by (simp add: node_shape_def blank_node_def blank_page_def btu_get_node_buffer_def node_end_def
      node_mem_def page_buffer_off_def)

lemma btree_node_reset_empty_witness:
  "\<exists>nd. btree_node_reset blank_node = Some (BTREE_OK, nd) \<and> node_wf nd \<and> node_abs nd = [] \<and>
    n_free nd = 60 \<and> node_end nd = 92"
  using btree_node_reset_empty [OF blank_node_shape]
  by (simp add: blank_node_def blank_page_def node_end_def node_mem_def)

section \<open>Insertion\<close>

text \<open>Inserted cells keep the heap free of overlaps.\<close>

lemma insert_cell_wf:
  fixes key flags :: u32
  assumes wf: "node_wf node" and i: "i \<le> n_keys node" and fits: "length img + 12 \<le> n_free node"
    and img: "4 \<le> length img" "unat (rd32 img 0) + 4 = length img"
  defines "node' \<equiv> cell_inserted node i key img flags"
  shows "node_wf node'"
    and "node_abs node' = insert_at i (key, flags, drop 4 img) (node_abs node)"
    and "j \<le> n_keys node \<Longrightarrow> cell_off node' j = (if j < i then cell_off node j
      else if j = i then n_hwm node + length img else cell_off node (j - 1))"
proof -
  have inv: "node_inv node" using wf by (simp add: node_wf_def)
  note I = insert_cell [OF inv i fits img, where key = key and flags = flags, folded node'_def]
  note F = cell_inserted_facts [OF inv i fits, where key = key and flags = flags, folded node'_def]
  have off_new: "unat (of_nat (n_hwm node + length img) :: u32) = n_hwm node + length img"
    using insert_room(2) [OF inv fits] by (rule unat_u32_of_nat)
  show off': "cell_off node' j = (if j < i then cell_off node j
      else if j = i then n_hwm node + length img else cell_off node (j - 1))" if "j \<le> n_keys node" for j
    using F(7) [OF that] off_new by (simp add: cell_off_def)
  have rd: "rd32 (node_mem node') (node_end node - (n_hwm node + length img)) = rd32 img 0"
    using arg_cong [OF F(9), of "\<lambda>b. slice b 0 4"] img(1) by (simp add: rd32_def slice_slice)
  have new: "cell_lo node' i = n_hwm node"
    using off' [OF i] rd img by (simp add: cell_lo_def cell_size_def F(1))
  have old: "cell_lo node' j' = cell_lo node j" if "j < n_keys node" "cell_off node' j' = cell_off node j" for j j'
  proof -
    note C = cell_facts [OF wf that(1)]
    have "slice (node_mem node') p k = slice (node_mem node) p k" if "node_end node - cell_off node j \<le> p" for p k
      using that C(2) by (intro F(8)) linarith
    moreover have "cell_off node j \<le> node_end node" using C(2,3) by linarith
    ultimately have "cell_size node' (cell_off node j) = cell_size node (cell_off node j)"
      using cell_frame(1) [OF F(1)] C(1) by (simp add: cell_len_def)
    with that(2) show ?thesis by (simp add: cell_lo_def)
  qed
  have le: "cell_off node j \<le> n_hwm node" "cell_lo node j \<le> n_hwm node" if "j < n_keys node" for j
    using cell_facts(2) [OF wf that] by (simp_all add: cell_lo_def)
  have "cells_disjoint node'"
    unfolding cells_disjoint_def F(4)
  proof (intro allI impI)
    fix j k assume jk: "j < n_keys node + 1" "k < n_keys node + 1" "j \<noteq> k"
    define src where "src x = (if x < i then x else x - 1)" for x
    have o: "cell_off node' x = cell_off node (src x) \<and> cell_lo node' x = cell_lo node (src x) \<and>
        src x < n_keys node" if "x < n_keys node + 1" "x \<noteq> i" for x
      using off' [of x] old [of "src x" x] that i by (auto simp: src_def)
    have inj: "src j \<noteq> src k" if "j \<noteq> i" "k \<noteq> i" using that jk(3) by (auto simp: src_def)
    have dj: "cell_off node x \<le> cell_lo node y \<or> cell_off node y \<le> cell_lo node x"
      if "x < n_keys node" "y < n_keys node" "x \<noteq> y" for x y
      using wf that by (simp add: node_wf_def cells_disjoint_def)
    consider "j = i" | "k = i" | "j \<noteq> i" "k \<noteq> i" by blast
    then show "cell_off node' j \<le> cell_lo node' k \<or> cell_off node' k \<le> cell_lo node' j"
    proof cases
      case 1
      with o [OF jk(2)] jk(3) new le show ?thesis by auto
    next
      case 2
      with o [OF jk(1)] jk(3) new le show ?thesis by auto
    next
      case 3
      with o [OF jk(1)] o [OF jk(2)] inj dj show ?thesis by simp
    qed
  qed
  then show "node_wf node'" using I(1) by (simp add: node_wf_def)
  show "node_abs node' = insert_at i (key, flags, drop 4 img) (node_abs node)" by (rule I(2))
qed

lemma overflow_image_parts:
  assumes "8 \<le> unat (co_inline_size c)" and "unat (co_inline_size c) - 8 \<le> length (co_inline_payload c)"
  shows "rd32 (overflow_image c) 0 = co_inline_size c"
    and "drop 4 (overflow_image c) = ser_write_32bit_le (co_total_size c) @
      ser_write_32bit_le (co_overflow_page_id c) @
      take (unat (co_inline_size c) - 8) (co_inline_payload c)"
  using slice_overflow_image(1) [OF assms] by (simp_all add: rd32_def overflow_image_def)

definition inline_flags :: u32 where
  "inline_flags = btree_pkey_set_cell_type 0 PKEY_FLAG_CELL_TYPE_INLINE"

text \<open>
  C15: inserting an inline cell that fits, with its key, its 12-byte slot and its size field, puts
  one entry at the position asked for and keeps the node well-formed; a cell that does not fit is
  refused and the node keeps every byte.
\<close>

theorem btree_node_insert_inline_refines:
  assumes "node_wf node" and "insert_pos node index \<le> n_keys node"
    and "unat (ci_inline_size cell) \<le> length (ci_payload cell)"
    and "unat (ci_inline_size cell) < 2147483648"
  shows "if unat (ci_inline_size cell) + 16 \<le> n_free node
    then \<exists>nd. btree_node_insert_inline node index key cell = Some (BTREE_OK, nd) \<and> node_wf nd \<and>
      node_abs nd = insert_at (insert_pos node index)
        (key, inline_flags, take (unat (ci_inline_size cell)) (ci_payload cell)) (node_abs node) \<and>
      n_free nd = n_free node - (unat (ci_inline_size cell) + 16)
    else btree_node_insert_inline node index key cell = Some (BTREE_ERR_NODE_NOT_ENOUGH_SPACE, node)"
proof -
  define img where "img = inline_image cell"
  define i where "i = insert_pos node index"
  have inv: "node_inv node" using assms(1) by (simp add: node_wf_def)
  have len: "length img = unat (ci_inline_size cell) + 4"
    using length_inline_image [OF assms(3)] by (simp add: img_def)
  show ?thesis
  proof (cases "unat (ci_inline_size cell) + 16 \<le> n_free node")
    case True
    have fits: "length img + 12 \<le> n_free node" using True len by simp
    have "rd32 img 0 = ci_inline_size cell" "drop 4 img = take (unat (ci_inline_size cell)) (ci_payload cell)"
      by (simp_all add: img_def inline_image_def rd32_def slice_def)
    then show ?thesis
      using True insert_inline_ex_fits [OF inv assms(2-4) True, of key inline_flags, folded img_def i_def]
        insert_cell_wf [OF assms(1) assms(2) [folded i_def] fits, where key = key and flags = inline_flags]
        cell_inserted_facts(5) [OF inv assms(2) [folded i_def] fits, where key = key and flags = inline_flags] len
      by (simp add: btree_node_insert_inline_def inline_flags_def [symmetric] i_def)
  next
    case False
    with insert_inline_ex_full [OF inv assms(4)] show ?thesis
      by (simp add: btree_node_insert_inline_def)
  qed
qed

text \<open>
  C16: the same for an overflow cell, whose entry carries the total size, the page of the rest and the
  inline part of the payload.
\<close>

theorem btree_node_insert_overflow_refines:
  assumes "node_wf node" and "insert_pos node index \<le> n_keys node"
    and "unat (co_inline_size cell) - 8 \<le> length (co_inline_payload cell)"
    and "8 \<le> unat (co_inline_size cell)" and "unat (co_inline_size cell) < 2147483648"
  shows "if unat (co_inline_size cell) + 16 \<le> n_free node
    then \<exists>nd. btree_node_insert_overflow node index key cell = Some (BTREE_OK, nd) \<and> node_wf nd \<and>
      node_abs nd = insert_at (insert_pos node index)
        (key, overflow_flags, ser_write_32bit_le (co_total_size cell) @
           ser_write_32bit_le (co_overflow_page_id cell) @
           take (unat (co_inline_size cell) - 8) (co_inline_payload cell)) (node_abs node) \<and>
      n_free nd = n_free node - (unat (co_inline_size cell) + 16)
    else btree_node_insert_overflow node index key cell = Some (BTREE_ERR_NODE_NOT_ENOUGH_SPACE, node)"
proof -
  define img where "img = overflow_image cell"
  define i where "i = insert_pos node index"
  have inv: "node_inv node" using assms(1) by (simp add: node_wf_def)
  note P = overflow_image_parts [OF assms(4,3), folded img_def]
  have len: "length img = unat (co_inline_size cell) + 4"
    using length_overflow_image [OF assms(4,3)] by (simp add: img_def)
  show ?thesis
  proof (cases "unat (co_inline_size cell) + 16 \<le> n_free node")
    case True
    have fits: "length img + 12 \<le> n_free node" using True len by simp
    show ?thesis
      using True insert_overflow_fits [OF inv assms(2-5) True, of key, folded img_def i_def] P
        insert_cell_wf [OF assms(1) assms(2) [folded i_def] fits, where key = key and flags = overflow_flags]
        cell_inserted_facts(5) [OF inv assms(2) [folded i_def] fits, where key = key and flags = overflow_flags] len
      by (simp add: i_def)
  next
    case False
    with insert_overflow_full [OF inv assms(5)] show ?thesis by simp
  qed
qed

definition fresh_node :: btree_node where
  "fresh_node = emptied blank_node"

lemma fresh_node_facts:
  "node_wf fresh_node" "n_keys fresh_node = 0" "n_free fresh_node = 60" "n_hwm fresh_node = 0"
  "node_abs fresh_node = []" "node_end fresh_node = 92" "node_header fresh_node = 12"
proof -
  note E = emptied_facts [OF blank_node_shape, folded fresh_node_def]
  have "node_end blank_node = 92" "node_header blank_node = 12"
    by (simp_all add: blank_node_def blank_page_def node_end_def node_mem_def)
  with E show "node_wf fresh_node" "n_keys fresh_node = 0" "n_free fresh_node = 60"
    "n_hwm fresh_node = 0" "node_abs fresh_node = []" "node_end fresh_node = 92"
    "node_header fresh_node = 12"
    by (simp_all add: node_wf_def node_inv_def cells_disjoint_def node_abs_def)
qed

lemma btree_node_insert_inline_refines_witness:
  "\<exists>nd. btree_node_insert_inline fresh_node (at_index 0) 5 (small_cell 1) = Some (BTREE_OK, nd) \<and>
    node_wf nd \<and> node_abs nd = [(5, inline_flags, [1, 1, 1, 1])] \<and> n_free nd = 40"
  using btree_node_insert_inline_refines [of fresh_node "at_index 0" "small_cell 1" 5]
  by (simp add: fresh_node_facts at_index_def small_cell_def insert_pos_def insert_at_def)

lemma btree_node_insert_overflow_refines_witness:
  "\<exists>nd. btree_node_insert_overflow fresh_node (at_index 0) 5
      \<lparr>co_inline_size = 10, co_total_size = 30, co_overflow_page_id = 4, co_inline_payload = [8, 9]\<rparr> =
        Some (BTREE_OK, nd) \<and> node_wf nd \<and>
    node_abs nd = [(5, overflow_flags, ser_write_32bit_le 30 @ ser_write_32bit_le 4 @ [8, 9])] \<and>
    n_free nd = 34"
  using btree_node_insert_overflow_refines [of fresh_node "at_index 0"
      "\<lparr>co_inline_size = 10, co_total_size = 30, co_overflow_page_id = 4, co_inline_payload = [8, 9]\<rparr>" 5]
  by (simp add: fresh_node_facts at_index_def insert_pos_def insert_at_def)

section \<open>Removal\<close>

lemma remove_index_run:
  assumes "cli_mode index = KLIM_INDEX"
  shows "btree_node_remove node index buffer buffer_size =
    do { (result, node, cell, buffer) \<leftarrow> btree_node_remove_at node (cli_index index) buffer buffer_size;
         Some (result, node, Some cell, buffer) }"
  using assms by (simp add: btree_node_remove_def require_def)

text \<open>
  C17: removing a key takes exactly its entry out of the node, hands the caller the bytes of the
  cell, returns its space and its slot, and leaves a well-formed node, provided that the cells left
  of the removed one lie in the heap in the order of their keys.
\<close>

theorem btree_node_remove_refines:
  assumes "node_wf node" and "d < n_keys node" and "12 \<le> n_free node + n_hwm node"
    and "others_in_order node d" and "cli_mode index = KLIM_INDEX" and "cli_index index = of_nat d"
    and "takes buffer buffer_size (cell_payload node (cell_off node d))"
  shows "\<exists>nd cell. btree_node_remove node index buffer buffer_size =
      Some (BTREE_OK, nd, Some cell,
        taken buffer buffer_size (cell_payload node (cell_off node d))) \<and>
    cell = (of_nat (cell_size node (cell_off node d)),
      taken buffer buffer_size (cell_payload node (cell_off node d))) \<and>
    node_wf nd \<and> node_abs nd = remove_nth d (node_abs node) \<and>
    n_free nd = n_free node + cell_size node (cell_off node d) + 16"
  using remove_at_ok [OF assms(1-4,7)] remove_index_run [OF assms(5)] assms(6) by auto

text \<open>Two cells in order.\<close>

definition small_image :: "byte \<Rightarrow> bytes" where
  "small_image b = inline_image (small_cell b)"

definition one_node :: btree_node where
  "one_node = cell_inserted fresh_node 0 5 (small_image 0x55) inline_flags"

definition two_node :: btree_node where
  "two_node = cell_inserted one_node 1 7 (small_image 0x77) inline_flags"

lemma small_image:
  "length (small_image b) = 8" "4 \<le> length (small_image b)"
  "unat (rd32 (small_image b) 0) + 4 = length (small_image b)" "drop 4 (small_image b) = [b, b, b, b]"
  by (simp_all add: small_image_def small_cell_def inline_image_def rd32_def slice_def)

lemma two_node_facts:
  "node_wf two_node" "n_keys two_node = 2" "n_free two_node = 20" "n_hwm two_node = 16"
  "node_abs two_node = [(5, inline_flags, [0x55, 0x55, 0x55, 0x55]), (7, inline_flags, [0x77, 0x77, 0x77, 0x77])]"
  "cell_off two_node 0 = 8" "cell_off two_node 1 = 16"
proof -
  note inv = fresh_node_facts(1) [unfolded node_wf_def, THEN conjunct1]
  have r1: "0 \<le> n_keys fresh_node" "length (small_image 0x55) + 12 \<le> n_free fresh_node"
    by (simp_all add: fresh_node_facts small_image)
  note F1 = cell_inserted_facts [OF inv r1, where key = 5 and flags = inline_flags, folded one_node_def]
  note W1 = insert_cell_wf [OF fresh_node_facts(1) r1 small_image(2,3), where key = 5 and flags = inline_flags,
      folded one_node_def]
  have r2: "1 \<le> n_keys one_node" "length (small_image 0x77) + 12 \<le> n_free one_node"
    by (simp_all add: F1 fresh_node_facts small_image)
  note F2 = cell_inserted_facts [OF W1(1) [unfolded node_wf_def, THEN conjunct1] r2,
      where key = 7 and flags = inline_flags, folded two_node_def]
  note W2 = insert_cell_wf [OF W1(1) r2 small_image(2,3), where key = 7 and flags = inline_flags,
      folded two_node_def]
  show "node_wf two_node" by (rule W2(1))
  show "n_keys two_node = 2" "n_free two_node = 20" "n_hwm two_node = 16"
    by (simp_all add: F1 F2 fresh_node_facts small_image)
  show "node_abs two_node = [(5, inline_flags, [0x55, 0x55, 0x55, 0x55]), (7, inline_flags, [0x77, 0x77, 0x77, 0x77])]"
    by (simp add: W1(2) W2(2) fresh_node_facts insert_at_def small_image)
  show "cell_off two_node 0 = 8" "cell_off two_node 1 = 16"
    using W2(3) [of 0] W2(3) [of 1] W1(3) [of 0]
    by (simp_all add: F1 fresh_node_facts small_image)
qed

lemma btree_node_remove_refines_witness:
  "\<exists>nd cell. btree_node_remove two_node \<lparr>cli_mode = KLIM_INDEX, cli_index = 0\<rparr> (Some [0, 0, 0, 0]) 0 =
      Some (BTREE_OK, nd, Some cell, taken (Some [0, 0, 0, 0]) 0 (cell_payload two_node 8)) \<and>
    node_wf nd \<and> node_abs nd = [(7, inline_flags, [0x77, 0x77, 0x77, 0x77])]"
proof -
  have "others_in_order two_node 0"
    by (auto simp: others_in_order_def two_node_facts less_2_cases_iff)
  moreover have "takes (Some [0, 0, 0, 0]) 0 (cell_payload two_node (cell_off two_node 0))"
    by (simp add: takes_def)
  ultimately show ?thesis
    using btree_node_remove_refines [OF two_node_facts(1), of 0 "\<lparr>cli_mode = KLIM_INDEX, cli_index = 0\<rparr>"
        "Some [0, 0, 0, 0]" 0]
    by (auto simp: two_node_facts remove_nth_def)
qed

text \<open>A cell inserted last is the leftmost one, so no other cell has to move when it goes.\<close>

lemma insert_leftmost:
  fixes key flags :: u32
  assumes wf: "node_wf node" and i: "i \<le> n_keys node" and fits: "length img + 12 \<le> n_free node"
    and img: "4 \<le> length img" "unat (rd32 img 0) + 4 = length img"
  defines "node' \<equiv> cell_inserted node i key img flags"
  shows "others_in_order node' i" and "i < n_keys node'" and "12 \<le> n_free node' + n_hwm node' \<or> length img < 12"
proof -
  have inv: "node_inv node" using wf by (simp add: node_wf_def)
  note F = cell_inserted_facts [OF inv i fits, where key = key and flags = flags, folded node'_def]
  note off = insert_cell_wf(3) [OF wf i fits img, where key = key and flags = flags, folded node'_def]
  have hw: "cell_off node j \<le> n_hwm node" if "j < n_keys node" for j
    using cell_facts(2) [OF wf that] .
  have "cell_off node' j \<le> cell_off node' i" if "j < n_keys node'" for j
  proof -
    consider "j < i" | "j = i" | "i < j" by linarith
    then show ?thesis
    proof cases
      case 3
      then have "j - 1 < n_keys node" using that F(4) by linarith
      with 3 show ?thesis using off [of j] off [OF i] hw [of "j - 1"] that F(4) by simp
    qed (use off [of j] off [OF i] hw [of j] that i F(4) in auto)
  qed
  then show "others_in_order node' i"
    unfolding others_in_order_def by (meson leD less_trans)
  show "i < n_keys node'" using i F(4) by simp
  show "12 \<le> n_free node' + n_hwm node' \<or> length img < 12" using F(6) by linarith
qed

lemma remove_insert_at: "i \<le> length xs \<Longrightarrow> remove_nth i (insert_at i x xs) = xs"
  by (simp add: remove_nth_def insert_at_def)

text \<open>
  C18: removing a cell right after it was inserted undoes the insertion, wherever the other cells lie:
  the entries and the free space are as before.
\<close>

theorem insert_then_remove:
  assumes "node_wf node" and "insert_pos node index \<le> n_keys node"
    and "unat (ci_inline_size cell) \<le> length (ci_payload cell)"
    and "unat (ci_inline_size cell) < 2147483648"
    and "unat (ci_inline_size cell) + 16 \<le> n_free node" and "8 \<le> unat (ci_inline_size cell)"
    and "cli_mode del = KLIM_INDEX" and "cli_index del = of_nat (insert_pos node index)"
  shows "\<exists>n1 n2 c. btree_node_insert_inline node index key cell = Some (BTREE_OK, n1) \<and>
    btree_node_remove n1 del None 0 = Some (BTREE_OK, n2, c, None) \<and>
    node_wf n2 \<and> node_abs n2 = node_abs node \<and> n_free n2 = n_free node"
proof -
  define img where "img = inline_image cell"
  define i where "i = insert_pos node index"
  define n1 where "n1 = cell_inserted node i key img inline_flags"
  have inv: "node_inv node" using assms(1) by (simp add: node_wf_def)
  have len: "length img = unat (ci_inline_size cell) + 4"
    using length_inline_image [OF assms(3)] by (simp add: img_def)
  have fits: "length img + 12 \<le> n_free node" using assms(5) len by simp
  have rd: "rd32 img 0 = ci_inline_size cell"
    by (simp add: img_def inline_image_def rd32_def slice_def)
  have img: "4 \<le> length img" "unat (rd32 img 0) + 4 = length img" using len rd by simp_all
  note i = assms(2) [folded i_def]
  note ins = insert_inline_ex_fits [OF inv assms(2-5), of key inline_flags, folded img_def i_def n1_def]
  note W = insert_cell_wf [OF assms(1) i fits img, where key = key and flags = inline_flags, folded n1_def]
  note F = cell_inserted_facts [OF inv i fits, where key = key and flags = inline_flags, folded n1_def]
  note L = insert_leftmost [OF assms(1) i fits img, where key = key and flags = inline_flags, folded n1_def]
  have room: "12 \<le> n_free n1 + n_hwm n1" using L(3) len assms(6) by simp
  have off: "cell_off n1 i = n_hwm node + length img" using W(3) [OF i] by simp
  have "rd32 (node_mem n1) (node_end node - (n_hwm node + length img)) = rd32 img 0"
    using arg_cong [OF F(9), of "\<lambda>b. slice b 0 4"] img(1) by (simp add: rd32_def slice_slice)
  then have size: "cell_size n1 (cell_off n1 i) = unat (ci_inline_size cell)"
    by (simp add: cell_size_def off F(1) rd)
  obtain n2 where n2: "btree_node_remove_at n1 (of_nat i) None 0 =
      Some (BTREE_OK, n2, (of_nat (cell_size n1 (cell_off n1 i)), None), None)"
    "node_wf n2" "node_abs n2 = remove_nth i (node_abs n1)"
    "n_free n2 = n_free n1 + cell_size n1 (cell_off n1 i) + 16"
    using remove_at_ok [OF W(1) L(2) room L(1), of None 0] by (auto simp: takes_def taken_def)
  have "length (node_abs node) = n_keys node" by (simp add: node_abs_def)
  then have "node_abs n2 = node_abs node" using n2(3) W(2) i by (simp add: remove_insert_at)
  moreover have "n_free n2 = n_free node" using n2(4) F(5) fits len by (simp add: size)
  ultimately show ?thesis
    using ins n2 remove_index_run [OF assms(7), of n1 None 0] assms(8)
    by (auto simp: btree_node_insert_inline_def inline_flags_def [symmetric] n1_def i_def)
qed

lemma insert_then_remove_witness:
  "\<exists>n1 n2 c. btree_node_insert_inline fresh_node (at_index 0) 5
      \<lparr>ci_inline_size = 8, ci_payload = [1, 2, 3, 4, 5, 6, 7, 8]\<rparr> = Some (BTREE_OK, n1) \<and>
    btree_node_remove n1 \<lparr>cli_mode = KLIM_INDEX, cli_index = 0\<rparr> None 0 = Some (BTREE_OK, n2, c, None) \<and>
    node_wf n2 \<and> node_abs n2 = [] \<and> n_free n2 = 60"
  using insert_then_remove [of fresh_node "at_index 0" "\<lparr>ci_inline_size = 8, ci_payload = [1, 2, 3, 4, 5, 6, 7, 8]\<rparr>"
      "\<lparr>cli_mode = KLIM_INDEX, cli_index = 0\<rparr>" 5]
  by (simp add: fresh_node_facts at_index_def insert_pos_def)

section \<open>The order of the moves\<close>

lemma remove_nth_inject:
  assumes "d < length xs" and "length ys = length xs" and "xs ! d = ys ! d"
    and "remove_nth d xs = remove_nth d ys"
  shows "xs = ys"
proof -
  have "take d xs = take d ys \<and> drop (Suc d) xs = drop (Suc d) ys"
    using assms(1,2,4) unfolding remove_nth_def by (intro append_eq_append_conv [THEN iffD1]) simp_all
  with assms(3) have "take d xs @ xs ! d # drop (Suc d) xs = take d ys @ ys ! d # drop (Suc d) ys" by simp
  then show ?thesis unfolding id_take_nth_drop [OF assms(1), symmetric]
      id_take_nth_drop [OF assms(1) [folded assms(2)], symmetric] .
qed

text \<open>
  C19: without the order condition the removal is wrong.  When the cells left of the removed one lie in
  the order of their keys but for one pair of neighbours, both of the size of the removed cell, then
  after the removal the second key of the pair answers with the payload of the first: \<open>gc_node\<close>
  moves the first cell over the second before it moves that.  If the two payloads differ, the
  result is not the list of the other entries.
\<close>

theorem gc_node_overwrites:
  assumes "node_wf node" and "d < n_keys node" and "12 \<le> n_free node + n_hwm node"
    and "pair_out_of_order node d j k" and "cli_mode index = KLIM_INDEX" and "cli_index index = of_nat d"
    and "takes buffer buffer_size (cell_payload node (cell_off node d))"
  shows "\<exists>nd cell. btree_node_remove node index buffer buffer_size =
      Some (BTREE_OK, nd, Some cell, taken buffer buffer_size (cell_payload node (cell_off node d))) \<and>
    node_wf nd \<and>
    node_abs nd = remove_nth d ((node_abs node)[k :=
      (fst (node_abs node ! k), fst (snd (node_abs node ! k)), snd (snd (node_abs node ! j)))]) \<and>
    (snd (snd (node_abs node ! j)) \<noteq> snd (snd (node_abs node ! k)) \<longrightarrow>
      node_abs nd \<noteq> remove_nth d (node_abs node))"
proof -
  have jk: "j < n_keys node" "k < n_keys node" "k \<noteq> d"
    using assms(4) by (auto simp: pair_out_of_order_def)
  let ?e = "(fst (node_abs node ! k), fst (snd (node_abs node ! k)), snd (snd (node_abs node ! j)))"
  have e: "?e = (pk_key (pkey node k), pk_flags (pkey node k), cell_payload node (cell_off node j))"
    using jk by (simp add: node_abs_def node_entry_def)
  have "\<exists>nd. gc_node (slid node d) (of_nat (cell_off node d)) (of_nat (cell_size node (cell_off node d)))
      = Some (BTREE_OK, nd) \<and> node_wf nd \<and> node_abs nd = remove_nth d ((node_abs node)[k := ?e]) \<and>
    n_free nd = n_free node + cell_size node (cell_off node d) + 16"
    unfolding e by (rule remove_gc_pair [OF assms(1-4)])
  then obtain nd where nd: "gc_node (slid node d) (of_nat (cell_off node d))
      (of_nat (cell_size node (cell_off node d))) = Some (BTREE_OK, nd)"
    "node_wf nd" "node_abs nd = remove_nth d ((node_abs node)[k := ?e])"
    by (elim exE conjE) (rule that)
  have len: "length (node_abs node) = n_keys node" by (simp add: node_abs_def)
  have ne: "snd (snd (node_abs node ! j)) \<noteq> snd (snd (node_abs node ! k)) \<longrightarrow>
      node_abs nd \<noteq> remove_nth d (node_abs node)"
  proof (intro impI notI)
    assume differ: "snd (snd (node_abs node ! j)) \<noteq> snd (snd (node_abs node ! k))"
      and "node_abs nd = remove_nth d (node_abs node)"
    then have eq: "remove_nth d ((node_abs node)[k := ?e]) = remove_nth d (node_abs node)"
      by (simp only: nd(3))
    have "(node_abs node)[k := ?e] = node_abs node"
      by (rule remove_nth_inject [OF _ _ _ eq]) (use assms(2) jk(3) len in simp_all)
    then have "(node_abs node)[k := ?e] ! k = node_abs node ! k" by simp
    then have "?e = node_abs node ! k" using jk(2) len by simp
    then have "snd (snd ?e) = snd (snd (node_abs node ! k))" by simp
    with differ show False by simp
  qed
  have run: "btree_node_remove node index buffer buffer_size =
      Some (BTREE_OK, nd, Some (of_nat (cell_size node (cell_off node d)),
        taken buffer buffer_size (cell_payload node (cell_off node d))),
        taken buffer buffer_size (cell_payload node (cell_off node d)))"
    using remove_at_run [OF assms(1-3) nd(1) assms(7)] remove_index_run [OF assms(5)] assms(6)
    by simp
  show ?thesis by (intro exI conjI) (rule run, rule nd(2), rule nd(3), rule ne)
qed

text \<open>
  Key 6 inserted between 5 and 7, each with a four-byte cell: the cell of 6 is the leftmost one, but
  its key comes before that of 7.
\<close>

definition three_node :: btree_node where
  "three_node = cell_inserted two_node 1 6 (small_image 0x66) inline_flags"

lemma three_node_facts:
  "btree_node_insert_inline two_node (at_index 1) 6 (small_cell 0x66) = Some (BTREE_OK, three_node)"
  "node_wf three_node" "n_keys three_node = 3" "12 \<le> n_free three_node + n_hwm three_node"
  "node_abs three_node = [(5, inline_flags, [0x55, 0x55, 0x55, 0x55]), (6, inline_flags, [0x66, 0x66, 0x66, 0x66]),
    (7, inline_flags, [0x77, 0x77, 0x77, 0x77])]"
  "pair_out_of_order three_node 0 1 2"
proof -
  note inv = two_node_facts(1) [unfolded node_wf_def, THEN conjunct1]
  have r: "1 \<le> n_keys two_node" "length (small_image 0x66) + 12 \<le> n_free two_node"
    by (simp_all add: two_node_facts small_image)
  note F = cell_inserted_facts [OF inv r, where key = 6 and flags = inline_flags, folded three_node_def]
  note W = insert_cell_wf [OF two_node_facts(1) r small_image(2,3), where key = 6 and flags = inline_flags,
      folded three_node_def]
  have pos: "insert_pos two_node (at_index 1) = 1" by (simp add: insert_pos_def at_index_def)
  show "btree_node_insert_inline two_node (at_index 1) 6 (small_cell 0x66) = Some (BTREE_OK, three_node)"
    using insert_inline_ex_fits [OF inv, of "at_index 1" "small_cell 0x66" 6 inline_flags] pos
    by (simp add: btree_node_insert_inline_def inline_flags_def [symmetric] three_node_def
        small_image_def two_node_facts small_cell_def)
  show wf: "node_wf three_node" by (rule W(1))
  show n: "n_keys three_node = 3" and "12 \<le> n_free three_node + n_hwm three_node"
    by (simp_all add: F two_node_facts small_image)
  show abs: "node_abs three_node = [(5, inline_flags, [0x55, 0x55, 0x55, 0x55]), (6, inline_flags, [0x66, 0x66, 0x66, 0x66]),
      (7, inline_flags, [0x77, 0x77, 0x77, 0x77])]"
    by (simp add: W(2) two_node_facts insert_at_def small_image)
  have off: "cell_off three_node 0 = 8" "cell_off three_node 1 = 24" "cell_off three_node 2 = 16"
    using W(3) [of 0] W(3) [of 1] W(3) [of 2] by (simp_all add: two_node_facts [simplified] small_image)
  have len: "cell_len three_node j = 8" if "j < 3" for j
  proof -
    have "cell_payload three_node (cell_off three_node j) = snd (snd (node_abs three_node ! j))"
      using that by (simp add: node_abs_def node_entry_def n)
    moreover have "j = 0 \<or> j = 1 \<or> j = 2" using that by linarith
    ultimately have "length (cell_payload three_node (cell_off three_node j)) = 4" by (auto simp: abs)
    with cell_facts(5) [OF wf] that show ?thesis by (simp add: cell_len_def n)
  qed
  have only: "(a, b) = (1, 2)" if "b < 3" "a < b" "a \<noteq> 0" for a b :: nat using that by auto
  show "pair_out_of_order three_node 0 1 2"
    unfolding pair_out_of_order_def n off len [OF zero_less_numeral]
    by (intro conjI; (use only in blast | simp add: len [simplified]))
qed

lemma gc_node_overwrites_witness:
  "\<exists>node nd c. btree_node_insert_inline two_node (at_index 1) 6 (small_cell 0x66) = Some (BTREE_OK, node) \<and>
    node_abs node = [(5, inline_flags, [0x55, 0x55, 0x55, 0x55]), (6, inline_flags, [0x66, 0x66, 0x66, 0x66]),
      (7, inline_flags, [0x77, 0x77, 0x77, 0x77])] \<and>
    btree_node_remove node \<lparr>cli_mode = KLIM_INDEX, cli_index = 0\<rparr> None 0 = Some (BTREE_OK, nd, c, None) \<and>
    node_abs nd = [(6, inline_flags, [0x66, 0x66, 0x66, 0x66]), (7, inline_flags, [0x66, 0x66, 0x66, 0x66])] \<and>
    node_abs nd \<noteq> remove_nth 0 (node_abs node)"
proof -
  have "(0::nat) < n_keys three_node" by (simp add: three_node_facts)
  from gc_node_overwrites [OF three_node_facts(2) this three_node_facts(4,6),
      of "\<lparr>cli_mode = KLIM_INDEX, cli_index = 0\<rparr>" None 0]
  show ?thesis
    by (auto simp: three_node_facts(1,5) takes_def taken_def remove_nth_def)
qed

end
