(* ===== verification/NodeLookup.thy ===== *)
theory NodeLookup
  imports SearchProps NodeTheorems
begin

text \<open>
  Looking up a key in a node: the cells as the readers see them, the search in an index node, and
  reading the payload that belongs to a key.
\<close>

section \<open>Cells as the readers see them\<close>

lemma cell_access:
  assumes "node_wf node" and "d < n_keys node"
  shows "btu_get_cell_buffer node (of_nat d) = Some (node_end node - cell_off node d)"
    and "btu_get_cell_flags node (of_nat d) = Some (pk_flags (pkey node d))"
    and "btu_calc_highwater_offset node 0 = Some (node_end node)"
    and "cell_off node d \<le> node_end node" and "cell_off node d < 2147483648"
    and "cell_size node (cell_off node d) < 2147483648"
proof -
  note C = cell_facts [OF assms]
  have "node_header node + 20 \<le> node_end node" "12 \<le> node_header node"
    using C(4) by (auto simp: node_shape_def btu_get_node_buffer_def page_buffer_off_def)
  then show off: "cell_off node d \<le> node_end node" "cell_off node d < 2147483648"
    using C(2,3) node_end_small [OF C(4)] by linarith+
  then show "cell_size node (cell_off node d) < 2147483648"
    using C(1) by (simp add: cell_len_def)
  have "btu_calc_highwater_offset node (pk_cell_offset (pkey node d)) = Some (node_end node - cell_off node d)"
    using highwater_offset [OF C(4), of "pk_cell_offset (pkey node d)"] off by (simp add: cell_off_def)
  then show "btu_get_cell_buffer node (of_nat d) = Some (node_end node - cell_off node d)"
    by (simp add: btu_get_cell_buffer_def read_cell_at(2) [OF assms])
  show "btu_get_cell_flags node (of_nat d) = Some (pk_flags (pkey node d))"
    by (simp add: btu_get_cell_flags_def read_cell_at(2) [OF assms])
  show "btu_calc_highwater_offset node 0 = Some (node_end node)"
    using highwater_offset [OF C(4), of 0] by simp
qed

text \<open>The cell at its pointer: the size field, then the payload.\<close>

definition cell_ptr :: "btree_node \<Rightarrow> nat \<Rightarrow> bytes" where
  "cell_ptr node d = drop (node_end node - cell_off node d) (node_mem node)"

lemma cell_ptr_parts:
  assumes "node_wf node" and "d < n_keys node"
  shows "mem_read32 (cell_ptr node d) 0 = Some (of_nat (cell_size node (cell_off node d)))"
    and "take (cell_size node (cell_off node d)) (drop 4 (cell_ptr node d)) =
      cell_payload node (cell_off node d)"
    and "cell_size node (cell_off node d) + 4 \<le> length (cell_ptr node d)"
proof -
  note C = cell_facts [OF assms] and A = cell_access [OF assms]
  have len: "length (cell_ptr node d) = cell_off node d"
    using A(4) by (simp add: cell_ptr_def node_end_def)
  then show "cell_size node (cell_off node d) + 4 \<le> length (cell_ptr node d)"
    using C(1) by (simp add: cell_len_def)
  then show "mem_read32 (cell_ptr node d) 0 = Some (of_nat (cell_size node (cell_off node d)))"
    by (simp add: mem_read32_rd32 cell_size_def rd32_def slice_def cell_ptr_def)
  show "take (cell_size node (cell_off node d)) (drop 4 (cell_ptr node d)) =
      cell_payload node (cell_off node d)"
    by (simp add: cell_payload_def slice_def cell_ptr_def add.commute)
qed

lemma cell_size_word:
  assumes "node_wf node" and "d < n_keys node"
  shows "unat (of_nat (cell_size node (cell_off node d)) :: u32) = cell_size node (cell_off node d)"
  using cell_access(6) [OF assms] by (simp add: unat_u32_of_nat)

definition is_inline :: "btree_node \<Rightarrow> nat \<Rightarrow> bool" where
  "is_inline node d \<longleftrightarrow> \<not> btree_pkey_is_cell_type (pk_flags (pkey node d)) PKEY_FLAG_CELL_TYPE_OVERFLOW"

definition payload_at :: "btree_node \<Rightarrow> nat \<Rightarrow> bytes" where
  "payload_at node d = cell_payload node (cell_off node d)"

lemma length_payload_at:
  "node_wf node \<Longrightarrow> d < n_keys node \<Longrightarrow> length (payload_at node d) = cell_size node (cell_off node d)"
  by (simp add: payload_at_def cell_facts(5))

section \<open>Index nodes\<close>

lemma index_comparisons:
  assumes wf: "node_wf node" and inl: "\<forall>i < n_keys node. is_inline node i \<and> payload_at node i \<noteq> []"
    and key: "0 < key_size" "unat key_size \<le> length key" "unat key_size < 2147483648"
  shows "comparisons_ok ibtree_fns () pager node key key_size
    (\<lambda>i. compare3 (payload_at node i) (take (unat key_size) key))"
  unfolding comparisons_ok_def
proof (intro allI impI conjI)
  fix i assume i: "i < n_keys node"
  let ?sz = "of_nat (cell_size node (cell_off node i)) :: u32"
  note P = cell_ptr_parts [OF wf i] and A = cell_access [OF wf i]
  note sz = cell_size_word [OF wf i]
  have keyof: "ibtree_keyof () node (of_nat i) = Some (drop 4 (cell_ptr node i), ?sz, ?sz, 0)"
    using inl i P A read_cell_at(2) [OF wf i]
    by (simp add: ibtree_keyof_def is_inline_def btree_cell_read_inline_def btu_get_cell_buffer_size_def
        flip: cell_ptr_def)
      (simp add: cell_ptr_def mem_read32_rd32 rd32_def slice_def node_end_def)
  have "payload_at node i \<noteq> []" using inl i by simp
  then have pos: "0 < cell_size node (cell_off node i)"
    using length_payload_at [OF wf i] by (metis length_greater_0_conv)
  have cmp: "ibtree_compare () (drop 4 (cell_ptr node i)) ?sz ?sz key key_size 0 =
      Some (compare3 (payload_at node i) (take (unat key_size) key), c_min ?sz key_size,
        key_size - c_min ?sz key_size, ())"
    using ibtree_compare_lexicographic [of ?sz "drop 4 (cell_ptr node i)" key_size key] P A(6) sz key
    by (simp add: payload_at_def)
  have "unat (c_min ?sz key_size) = min (cell_size node (cell_off node i)) (unat key_size)"
    using unat_c_min [of ?sz key_size] sz A(6) key by simp
  then have "c_min ?sz key_size \<noteq> 0" using pos key(1) by (auto simp: u32_pos_iff)
  then show "btree_node_compare_cell ibtree_fns (fn_reset ibtree_fns ()) pager node (of_nat i) key key_size =
      Some (BTREE_OK, compare3 (payload_at node i) (take (unat key_size) key), (), pager)"
    using keyof cmp by (simp add: btree_node_compare_cell_def ibtree_fns_def)
qed (simp add: compare3_def)

definition payload_list :: "btree_node \<Rightarrow> bytes list" where
  "payload_list node = map (payload_at node) [0..<n_keys node]"

text \<open>
  C23: in an index node whose cells are inline, not empty and ascending as byte strings, the search
  finds the place of the key in the lexicographic order.
\<close>

theorem ibtree_search_correct:
  assumes wf: "node_wf node" and inl: "\<forall>i < n_keys node. is_inline node i \<and> payload_at node i \<noteq> []"
    and asc: "keys_ascending (payload_list node)"
    and key: "0 < key_size" "unat key_size \<le> length key" "unat key_size < 2147483648"
  shows "btree_node_search_keys ibtree_fns () pager node key key_size =
    Some (search_status (take (unat key_size) key \<in> set (payload_list node)),
      Some (of_nat (key_place (payload_list node) (take (unat key_size) key))), (), pager)"
proof -
  let ?ks = "payload_list node" and ?key = "take (unat key_size) key"
  let ?probe = "\<lambda>i. Some (compare3 (payload_at node (nat i)) ?key)"
  have inv: "node_inv node" using wf by (simp add: node_wf_def)
  have probe: "?probe i = Some (compare3 (?ks ! nat i) ?key)" if "0 \<le> i" "i < int (length ?ks)" for i
  proof -
    have "nat i < n_keys node" using that by (auto simp: payload_list_def)
    then show ?thesis by (simp add: payload_list_def)
  qed
  have "probes_sorted ?probe (int (length ?ks))"
    by (rule probes_sorted_ascending [where f = "\<lambda>i. ?ks ! nat i"])
      (simp_all only: probe keys_ascending_nth [OF asc])
  with search_keys_correct [OF index_comparisons [OF wf inl key] n_keys_small [OF inv]]
    node_inv_shape [OF inv]
  obtain i found where run: "btree_node_search_keys ibtree_fns () pager node key key_size =
      Some (search_status found, Some (word_of_int i), (), pager)"
    and post: "search_post ?probe (int (length ?ks)) i found"
    by (fastforce simp: search_status_def payload_list_def)
  from search_post_place [OF asc probe post] run show ?thesis by simp
qed

section \<open>Reading a payload\<close>

text \<open>The caller's buffer after a payload has been copied into it, as far as it fits.\<close>

definition filled :: "bytes \<Rightarrow> bytes \<Rightarrow> bytes" where
  "filled buffer payload = take (length buffer) payload @ drop (length payload) buffer"

definition read_status :: "bytes \<Rightarrow> bytes \<Rightarrow> btree_e" where
  "read_status buffer payload =
     (if length payload > length buffer then BTREE_ERR_BUFFER_TOO_SMALL else BTREE_OK)"

lemma read_inline_at:
  assumes wf: "node_wf node" and d: "d < n_keys node" and inl: "is_inline node d"
    and len: "length buffer < 2147483648"
  shows "btree_node_read_at pager node (of_nat d) buffer (of_nat (length buffer)) =
    Some (read_status buffer (payload_at node d), pager, filled buffer (payload_at node d))"
proof -
  let ?n = "cell_size node (cell_off node d)"
  note P = cell_ptr_parts [OF wf d] and A = cell_access [OF wf d]
  have sz: "unat (of_nat ?n :: u32) = ?n" using cell_size_word [OF wf d] .
  have bs: "unat (of_nat (length buffer) :: u32) = length buffer"
    using len by (simp add: unat_u32_of_nat)
  have m: "unat (c_min (of_nat ?n) (of_nat (length buffer))) = min ?n (length buffer)"
    using unat_c_min [of "of_nat ?n" "of_nat (length buffer)"] sz bs A(6) len by simp
  have pay: "length (payload_at node d) = ?n" using length_payload_at [OF wf d] .
  have rd: "mem_read (cell_ptr node d) 4 (min ?n (length buffer)) =
      Some (take (length buffer) (payload_at node d))"
    using P(2,3) by (simp add: mem_read_def payload_at_def min_def flip: P(2))
  have wr: "mem_write buffer 0 (take (length buffer) (payload_at node d)) =
      Some (filled buffer (payload_at node d))"
    by (simp add: mem_write_def filled_def min_def)
  have gt: "(of_nat (length buffer) < (of_nat ?n :: u32)) = (length buffer < ?n)"
    using sz bs by (simp add: word_less_nat_alt)
  show ?thesis
  proof (cases "buffer = []")
    case True
    then show ?thesis
      using A inl P gt pay
      by (simp add: btree_node_read_at_def is_inline_def btree_cell_read_inline_def read_status_def
          filled_def flip: cell_ptr_def)
  next
    case False
    then have "(of_nat (length buffer) :: u32) \<noteq> 0"
      using bs by (metis length_0_conv unsigned_0)
    then show ?thesis
      using A inl P gt pay m rd wr
      by (simp add: btree_node_read_at_def is_inline_def btree_cell_read_inline_def read_status_def
          flip: cell_ptr_def)
  qed
qed

text \<open>What a table node holds for its clients: a map from keys to payloads.\<close>

definition node_lookup :: "btree_node \<Rightarrow> u32 \<rightharpoonup> bytes" where
  "node_lookup node = map_of (map (\<lambda>(k, f, p). (k, p)) (node_abs node))"

lemma node_lookup_place:
  assumes "keys_ascending (node_key_list node)"
  shows "node_lookup node key =
    (if key \<in> set (node_key_list node)
     then Some (payload_at node (key_place (node_key_list node) key)) else None)"
proof -
  let ?xs = "map (\<lambda>(k, f, p). (k, p)) (node_abs node)"
  have xs: "?xs = map (\<lambda>i. (pk_key (pkey node i), payload_at node i)) [0..<n_keys node]"
    by (simp add: node_abs_def node_entry_def payload_at_def)
  have keys: "map fst ?xs = node_key_list node" by (simp add: xs node_key_list_def comp_def)
  have dist: "distinct (map fst ?xs)"
    unfolding keys using assms by (auto simp: keys_ascending_def sorted_wrt_iff_nth_less distinct_conv_nth)
      (metis less_irrefl linorder_neqE_nat)
  show ?thesis
  proof (cases "key \<in> set (node_key_list node)")
    case True
    then obtain i where i: "i < n_keys node" "node_key_list node ! i = key"
      by (auto simp: in_set_conv_nth)
    have "key_place (node_key_list node) key = i"
      using i assms by (intro key_place_eqI) (auto simp: keys_ascending_def sorted_wrt_iff_nth_less)
    moreover have "(key, payload_at node i) \<in> set ?xs" unfolding xs using i by force
    ultimately show ?thesis using True dist by (simp add: node_lookup_def map_of_eq_Some_iff)
  next
    case False
    then have "key \<notin> fst ` set ?xs" using keys by (metis image_set)
    then show ?thesis using False by (simp add: node_lookup_def map_of_eq_None_iff)
  qed
qed

text \<open>
  C24: reading by key from a table node with ascending keys and inline cells is looking the key up in
  the node's map; the payload is copied as far as the buffer goes, and a buffer that is too small is
  reported.
\<close>

theorem btree_node_read_lookup:
  assumes "node_wf node" and "keys_ascending (node_key_list node)"
    and "\<forall>i < n_keys node. is_inline node i" and "length buffer < 2147483648" and "tr_fns tree = btree_fns"
  shows "btree_node_read tree pager node key buffer (of_nat (length buffer)) =
    (case node_lookup node key of
       None \<Rightarrow> Some (BTREE_ERR_KEY_NOT_FOUND, pager, buffer)
     | Some payload \<Rightarrow> Some (read_status buffer payload, pager, filled buffer payload))"
proof -
  let ?i = "key_place (node_key_list node) key"
  have inv: "node_inv node" using assms(1) by (simp add: node_wf_def)
  note S = btree_search_correct [OF inv assms(2), of pager key]
  show ?thesis
  proof (cases "key \<in> set (node_key_list node)")
    case True
    then have i: "?i < n_keys node"
    proof -
      obtain j where j: "j < n_keys node" "node_key_list node ! j = key"
        using True by (auto simp: in_set_conv_nth)
      have "?i = j"
        using j assms(2) by (intro key_place_eqI) (auto simp: keys_ascending_def sorted_wrt_iff_nth_less)
      with j show ?thesis by simp
    qed
    then have "is_inline node ?i" using assms(3) by simp
    then show ?thesis
      using S True read_inline_at [OF assms(1) i _ assms(4), where pager = pager] assms(5)
      by (simp add: btree_node_read_def btree_node_read_ex_def btree_node_read_ex2_def search_status_def
          node_lookup_place [OF assms(2)])
  next
    case False
    then show ?thesis
      using S assms(5)
      by (simp add: btree_node_read_def btree_node_read_ex_def btree_node_read_ex2_def search_status_def
          node_lookup_place [OF assms(2)])
  qed
qed

section \<open>On the small node\<close>

lemma node_abs_nth:
  "i < n_keys node \<Longrightarrow> node_abs node ! i = (pk_key (pkey node i), pk_flags (pkey node i), payload_at node i)"
  by (simp add: node_abs_def node_entry_def payload_at_def)

lemma payload_list_abs: "payload_list node = map (snd \<circ> snd) (node_abs node)"
  by (simp add: payload_list_def node_abs_def node_entry_def payload_at_def)

lemma two_node_entries:
  "\<forall>i < n_keys two_node. is_inline two_node i \<and> payload_at two_node i \<noteq> []"
  "node_key_list two_node = [5, 7]"
  "payload_list two_node = [[0x55, 0x55, 0x55, 0x55], [0x77, 0x77, 0x77, 0x77]]"
proof -
  show "node_key_list two_node = [5, 7]"
    by (simp add: node_key_list_abs two_node_facts)
  show "payload_list two_node = [[0x55, 0x55, 0x55, 0x55], [0x77, 0x77, 0x77, 0x77]]"
    by (simp add: payload_list_abs two_node_facts)
  have "is_inline two_node i \<and> payload_at two_node i \<noteq> []" if "i < 2" for i
  proof -
    have "btree_pkey_is_cell_type inline_flags PKEY_FLAG_CELL_TYPE_OVERFLOW = False"
      by (simp add: inline_flags_def btree_pkey_set_cell_type_def btree_pkey_is_cell_type_def
          cell_type_code_def)
    then show ?thesis
      using node_abs_nth [of i two_node] that
      by (auto simp: two_node_facts is_inline_def less_2_cases_iff)
  qed
  then show "\<forall>i < n_keys two_node. is_inline two_node i \<and> payload_at two_node i \<noteq> []"
    by (simp add: two_node_facts)
qed

definition table_tree :: "u32 \<Rightarrow> unit btree" where
  "table_tree root = \<lparr>tr_root_page_id = root, tr_type = BTREE_TBL, tr_underflow = 0, tr_fns = btree_fns\<rparr>"

lemma btree_search_correct_witness:
  "btree_node_search_keys btree_fns () demo_pager two_node (ser_write_32bit_le 6) 4 =
    Some (BTREE_ERR_KEY_NOT_FOUND, Some 1, (), demo_pager)"
  using btree_search_correct [of two_node demo_pager 6] two_node_facts(1)
  by (simp add: two_node_entries node_wf_def keys_ascending_def search_status_def key_place_def)

lemma ibtree_search_correct_witness:
  "btree_node_search_keys ibtree_fns () demo_pager two_node [0x60] 1 =
    Some (BTREE_ERR_KEY_NOT_FOUND, Some 1, (), demo_pager)"
  using ibtree_search_correct [OF two_node_facts(1) two_node_entries(1), of 1 "[0x60]" demo_pager]
  by (simp add: two_node_entries keys_ascending_def search_status_def key_place_def)

lemma btree_node_read_lookup_witness:
  "btree_node_read (table_tree 1) demo_pager two_node 7 [0, 0, 0, 0, 0] 5 =
    Some (BTREE_OK, demo_pager, [0x77, 0x77, 0x77, 0x77, 0])"
  using btree_node_read_lookup [OF two_node_facts(1), of "[0, 0, 0, 0, 0]" "table_tree 1" demo_pager 7]
    two_node_entries(1)
  by (simp add: two_node_entries keys_ascending_def node_lookup_def two_node_facts table_tree_def
      read_status_def filled_def)

end
