(* ===== verification/CursorProps.thy ===== *)
theory CursorProps
  imports IBTree NodeLookup
begin

text \<open>
  The breadcrumbs of a cursor: pushing and popping, the bound on the depth, and what the way
  \<open>bta_check_sibling\<close> uses them means for rebalancing.
\<close>

section \<open>Pushing and popping\<close>

text \<open>A cursor between two calls stands where its newest breadcrumb says.\<close>

definition in_step :: "'c cursor \<Rightarrow> bool" where
  "in_step c \<longleftrightarrow> (if cur_breadcrumbs c = [] then cur_page_id c = 0 \<and> cur_key_index c = zero_index
     else cur_page_id c = cb_page_id (last (cur_breadcrumbs c)) \<and>
          cur_key_index c = cb_key_index (last (cur_breadcrumbs c)))"

definition at_crumbs :: "'c cursor \<Rightarrow> cursor_breadcrumb list \<Rightarrow> 'c cursor" where
  "at_crumbs c crumbs = c\<lparr>cur_breadcrumbs := crumbs,
     cur_page_id := (if crumbs = [] then 0 else cb_page_id (last crumbs)),
     cur_key_index := (if crumbs = [] then zero_index else cb_key_index (last crumbs))\<rparr>"

lemma at_crumbs_simps [simp]:
  "cur_breadcrumbs (at_crumbs c crumbs) = crumbs" "cur_tree (at_crumbs c crumbs) = cur_tree c"
  "cur_compare_context (at_crumbs c crumbs) = cur_compare_context c"
  "at_crumbs (at_crumbs c crumbs') crumbs = at_crumbs c crumbs"
  "in_step (at_crumbs c crumbs)"
  by (simp_all add: at_crumbs_def in_step_def)

lemma at_crumbs_self: "in_step c \<Longrightarrow> at_crumbs c (cur_breadcrumbs c) = c"
  by (cases c) (auto simp: at_crumbs_def in_step_def split: if_splits)

lemma pop_snoc:
  "cur_breadcrumbs c = crumbs @ [cr] \<Longrightarrow> cursor_pop c = (BTREE_OK, Some cr, at_crumbs c crumbs)"
  by (simp add: cursor_pop_def at_crumbs_def)

lemma push_crumb_snoc:
  "length crumbs < MAX_CRUMBS \<Longrightarrow>
   cursor_push_crumb (at_crumbs c crumbs) cr = (BTREE_OK, at_crumbs c (crumbs @ [cr]))"
  by (simp add: cursor_push_crumb_def at_crumbs_def)

lemma pop_n_append:
  "cur_breadcrumbs c = crumbs @ upper \<Longrightarrow> in_step c \<Longrightarrow>
   cursor_pop_n c (length upper) = (BTREE_OK, rev upper, at_crumbs c crumbs)"
proof (induction upper arbitrary: c rule: rev_induct)
  case Nil
  then show ?case using at_crumbs_self [of c] by simp
next
  case (snoc cr upper)
  have "cursor_pop c = (BTREE_OK, Some cr, at_crumbs c (crumbs @ upper))"
    using snoc.prems(1) by (simp add: pop_snoc)
  moreover have "cursor_pop_n (at_crumbs c (crumbs @ upper)) (length upper) =
      (BTREE_OK, rev upper, at_crumbs c crumbs)"
    using snoc.IH [of "at_crumbs c (crumbs @ upper)"] by simp
  ultimately show ?case by simp
qed

lemma push_crumbs_append:
  "length crumbs + length upper \<le> MAX_CRUMBS \<Longrightarrow>
   push_crumbs (at_crumbs c crumbs) upper = (BTREE_OK, at_crumbs c (crumbs @ upper))"
proof (induction upper arbitrary: crumbs)
  case (Cons cr upper)
  then show ?case by (simp add: push_crumb_snoc)
qed simp

text \<open>
  C25: a cursor that is popped \<open>n\<close> times and restored with what was popped is the cursor it was, if
  its current page and index are those of its last breadcrumb.
\<close>

theorem cursor_pop_restore:
  assumes "in_step c" and "n \<le> length (cur_breadcrumbs c)" and "length (cur_breadcrumbs c) \<le> MAX_CRUMBS"
  shows "\<exists>crumbs c'. cursor_pop_n c n = (BTREE_OK, crumbs, c') \<and> length crumbs = n \<and>
    cur_breadcrumbs c' = take (length (cur_breadcrumbs c) - n) (cur_breadcrumbs c) \<and>
    cursor_restore c' crumbs = (BTREE_OK, c)"
proof -
  let ?k = "length (cur_breadcrumbs c) - n"
  define lower upper where "lower = take ?k (cur_breadcrumbs c)" and "upper = drop ?k (cur_breadcrumbs c)"
  have split: "cur_breadcrumbs c = lower @ upper" "length upper = n"
    using assms(2) by (simp_all add: lower_def upper_def)
  have "cursor_pop_n c n = (BTREE_OK, rev upper, at_crumbs c lower)"
    using pop_n_append [OF split(1) assms(1)] split(2) by simp
  moreover have "cursor_restore (at_crumbs c lower) (rev upper) = (BTREE_OK, c)"
    using push_crumbs_append [of lower upper c] assms(3) split(1) at_crumbs_self [OF assms(1)]
    by (simp add: cursor_restore_def)
  ultimately show ?thesis using split(2) by (simp add: lower_def)
qed

section \<open>The bound on the depth\<close>

lemma traverse_round_depth:
  assumes "traverse_round c pg nv key n found = Some r" and "depth c \<le> MAX_CRUMBS"
  shows "case r of Stop (e, f, c', pg') \<Rightarrow> depth c' \<le> MAX_CRUMBS
    | Go_on (f, c', pg', nv') \<Rightarrow> depth c' \<le> MAX_CRUMBS"
proof -
  have push: "depth c2 \<le> MAX_CRUMBS" if "cursor_push c1 = (e, c2)" "depth c1 \<le> MAX_CRUMBS" for c1 c2 :: "'a cursor" and e
    using that by (auto simp: cursor_push_def split: if_splits)
  have "yields (\<lambda>r. case r of Stop (e, f, c', pg') \<Rightarrow> depth c' \<le> MAX_CRUMBS
      | Go_on (f, c', pg', nv') \<Rightarrow> depth c' \<le> MAX_CRUMBS) (traverse_round c pg nv key n found)"
    unfolding traverse_round_def
    by (intro yields_intro; hypsubst?)
      (use assms(2) in \<open>auto dest!: read_cell_page_crumbs push\<close>)
  from yieldsD [OF this assms(1)] show ?thesis .
qed

lemma traverse_loop_depth:
  assumes "traverse_loop c pg nv key n found = Some (e, f, c', pg')"
  shows "depth c' \<le> MAX_CRUMBS"
  using assms
proof (induction c pg nv key n found rule: traverse_loop.induct)
  case (1 c pg nv key n found)
  from "1.prems" obtain r where d: "depth c \<le> MAX_CRUMBS" and r: "traverse_round c pg nv key n found = Some r"
    and rest: "(case r of Stop out \<Rightarrow> Some out
      | Go_on (found, c, pg, nv) \<Rightarrow> traverse_loop c pg nv key n found) = Some (e, f, c', pg')"
    by (subst (asm) traverse_loop.simps) (auto simp: bind_option_Some_iff)
  note D = traverse_round_depth [OF r d]
  show ?case
  proof (cases r)
    case (Stop out)
    with rest D show ?thesis by auto
  next
    case (Go_on s)
    obtain found2 c2 pg2 nv2 where s: "s = (found2, c2, pg2, nv2)" by (cases s)
    have "require (depth c \<le> MAX_CRUMBS) = Some ()" using d by simp
    from "1.IH" [OF this r Go_on s [symmetric] refl refl] rest Go_on s show ?thesis by simp
  qed
qed

text \<open>
  C26: descending to a key never leaves more than eight breadcrumbs on a cursor, and a tree that is
  too deep for them ends the descent with an error and not with a write behind the array.
\<close>

theorem cursor_traverse_depth:
  assumes "cursor_traverse_to_ex c pg key n = Some (e, f, c', pg')" and "depth c \<le> MAX_CRUMBS"
  shows "depth c' \<le> MAX_CRUMBS"
  using assms
  by (auto simp: cursor_traverse_to_ex_def bind_option_Some_iff split: if_splits dest: traverse_loop_depth)

section \<open>Rebalancing under a short path\<close>

lemma pop_n_short:
  "depth c < n \<Longrightarrow> \<exists>crumbs. cursor_pop_n c n = (BTREE_ERR_CURSOR_NO_PARENT, crumbs, at_crumbs c []) \<or>
     cur_breadcrumbs c = [] \<and> cursor_pop_n c n = (BTREE_ERR_CURSOR_NO_PARENT, crumbs, c)"
proof (induction n arbitrary: c)
  case (Suc n)
  show ?case
  proof (cases "cur_breadcrumbs c" rule: rev_cases)
    case Nil
    then show ?thesis by (auto simp: cursor_pop_def)
  next
    case (snoc crumbs cr)
    have d: "depth (at_crumbs c crumbs) < n" using Suc.prems snoc by simp
    have "at_crumbs c crumbs = at_crumbs c []" if "crumbs = []" using that by simp
    with Suc.IH [OF d] pop_snoc [OF snoc] show ?thesis by auto
  qed
qed simp

lemma check_sibling_shallow:
  assumes "in_step c" and "depth c \<le> 3"
  shows "\<exists>c'. bta_check_sibling c pg s = Some (BTREE_ERR_CURSOR_NO_PARENT, c', pg) \<and> cur_tree c' = cur_tree c"
proof (cases "depth c < 2")
  case True
  from pop_n_short [OF this] show ?thesis by (auto simp: bta_check_sibling_def Let_def)
next
  case False
  then obtain crumbs c' where pop: "cursor_pop_n c 2 = (BTREE_OK, crumbs, c')" "depth c' < 2"
    and res: "cursor_restore c' crumbs = (BTREE_OK, c)"
    using cursor_pop_restore [OF assms(1), of 2] assms(2) by (auto simp: MAX_CRUMBS_def)
  then have "cursor_sibling c' pg s = Some (BTREE_ERR_CURSOR_NO_PARENT, c', pg)"
    by (simp add: cursor_sibling_def)
  with pop(1) res show ?thesis by (simp add: bta_check_sibling_def)
qed

lemma decide_shallow:
  assumes "in_step c" and "depth c \<le> 3"
  shows "\<exists>c'. bta_decide_rebalance_mode c pg = Some (BTREE_ERR_CURSOR_NO_PARENT, None, c', pg) \<and>
    cur_tree c' = cur_tree c"
  using check_sibling_shallow [OF assms, of pg CURSOR_SIBLING_RIGHT]
  by (auto simp: bta_decide_rebalance_mode_def)

definition with_cursor :: "'c cursor \<Rightarrow> btree_e \<times> 'f pager \<Rightarrow> btree_e \<times> 'c cursor \<times> 'f pager" where
  "with_cursor c out = (fst out, c, snd out)"

text \<open>
  C27: with at most three breadcrumbs, which is what a cursor has in a tree of one or two levels, no
  sibling is ever looked at: rebalancing a table tree does nothing but rebalance the root, however
  empty the node at the cursor is.
\<close>

theorem bta_rebalance_shallow:
  assumes "in_step c" and "depth c \<le> 3"
  shows "\<exists>c'. cur_tree c' = cur_tree c \<and>
    bta_rebalance c pg = map_option (with_cursor c') (bta_rebalance_root c pg)"
proof -
  obtain c' where dec: "bta_decide_rebalance_mode c pg = Some (BTREE_ERR_CURSOR_NO_PARENT, None, c', pg)"
    and tree: "cur_tree c' = cur_tree c"
    using decide_shallow [OF assms] by blast
  have "bta_rebalance_root c' pg = bta_rebalance_root c pg"
    using tree by (simp add: bta_rebalance_root_def)
  with dec have "rebalance_round c pg BTA_REBALANCE_MODE_UNK =
      map_option (\<lambda>out. Stop (with_cursor c' out)) (bta_rebalance_root c pg)"
    by (cases "bta_rebalance_root c pg") (auto simp: rebalance_round_def with_cursor_def)
  then have "bta_rebalance c pg = map_option (with_cursor c') (bta_rebalance_root c pg)"
    unfolding bta_rebalance_def
    by (subst rebalance_loop.simps) (cases "bta_rebalance_root c pg", simp_all)
  with tree show ?thesis by blast
qed

text \<open>
  The same for index trees, which decide with the same function.
\<close>

lemma ibta_rebalance_shallow:
  assumes "in_step c" and "depth c \<le> 3"
  shows "\<exists>c'. cur_tree c' = cur_tree c \<and>
    ibta_rebalance c pg = map_option (with_cursor c') (ibta_rebalance_root c pg)"
proof -
  obtain c' where dec: "bta_decide_rebalance_mode c pg = Some (BTREE_ERR_CURSOR_NO_PARENT, None, c', pg)"
    and tree: "cur_tree c' = cur_tree c"
    using decide_shallow [OF assms] by blast
  have "ibta_rebalance_root c' pg = ibta_rebalance_root c pg"
    using tree by (simp add: ibta_rebalance_root_def)
  with dec have "irebalance_round c pg BTA_REBALANCE_MODE_UNK =
      map_option (\<lambda>out. Stop (with_cursor c' out)) (ibta_rebalance_root c pg)"
    by (cases "ibta_rebalance_root c pg") (auto simp: irebalance_round_def with_cursor_def)
  then have "ibta_rebalance c pg = map_option (with_cursor c') (ibta_rebalance_root c pg)"
    unfolding ibta_rebalance_def
    by (subst irebalance_loop.simps) (cases "ibta_rebalance_root c pg", simp_all)
  with tree show ?thesis by blast
qed

end
