(* ===== verification/LeafTree.thy ===== *)
theory LeafTree
  imports CursorProps
begin

text \<open>
  A table tree whose root is a leaf, from the client's side: a map from keys to payloads that lives
  on one page of the disk.  The theorems go through every layer: cursor, node search, node, cell,
  pager, cache and file.
\<close>

section \<open>A node whose page is written or read again\<close>

text \<open>The metadata of a page lies in front of everything a node looks at.\<close>

definition same_payload :: "page \<Rightarrow> page \<Rightarrow> bool" where
  "same_payload p q \<longleftrightarrow> page_id p = page_id q \<and> page_size p = page_size q \<and>
     length (page_mem p) = length (page_mem q) \<and> drop 12 (page_mem p) = drop 12 (page_mem q)"

lemma slice_behind_meta: "drop 12 m' = drop 12 m \<Longrightarrow> 12 \<le> p \<Longrightarrow> slice m' p n = slice m p n"
proof -
  assume "drop 12 m' = drop 12 m" "12 \<le> p"
  then have "drop p m' = drop p m"
    by (metis drop_drop le_add_diff_inverse2)
  then show ?thesis by (simp add: slice_def)
qed

lemma node_shape_header: "node_shape node \<Longrightarrow> 12 \<le> node_header node"
  by (auto simp: node_shape_def btu_get_node_buffer_def page_buffer_off_def)

lemma same_payload_node:
  assumes wf: "node_wf node" and p: "same_payload p (node_page node)"
  defines "node' \<equiv> node\<lparr>node_page := p\<rparr>"
  shows "node_wf node'" "node_abs node' = node_abs node" "n_keys node' = n_keys node"
    "n_free node' = n_free node" "n_hwm node' = n_hwm node" "node_is_leaf node' = node_is_leaf node"
    "\<And>i. pkey node' i = pkey node i"
proof -
  have shape: "node_shape node" using wf by (simp add: node_wf_def node_inv_def)
  have h: "12 \<le> node_header node" by (rule node_shape_header [OF shape])
  have d: "drop 12 (node_mem node') = drop 12 (node_mem node)"
    and len: "length (node_mem node') = length (node_mem node)"
    using p by (simp_all add: node'_def node_mem_def same_payload_def)
  have rd: "rd32 (node_mem node') q = rd32 (node_mem node) q" if "12 \<le> q" for q
    using slice_behind_meta [OF d that] by (simp add: rd32_def)
  have e: "node_end node' = node_end node" "node_header node' = node_header node"
    using len by (simp_all add: node_end_def node'_def)
  show nk: "n_keys node' = n_keys node" and fr: "n_free node' = n_free node" and hw: "n_hwm node' = n_hwm node"
    using rd h e by (simp_all add: n_keys_def n_free_def n_hwm_def)
  show pk: "pkey node' i = pkey node i" for i
    using rd h e by (simp add: pkey_def pkey_of_def)
  have off: "cell_off node' i = cell_off node i" for i by (simp add: cell_off_def pk)
  have in_heap: "12 \<le> node_end node - cell_off node i" if "i < n_keys node" for i
    using cell_facts(2,3) [OF wf that] h by linarith
  have sz: "cell_size node' (cell_off node i) = cell_size node (cell_off node i)" if "i < n_keys node" for i
    using rd [OF in_heap [OF that]] by (simp add: cell_size_def e)
  have pay: "cell_payload node' (cell_off node i) = cell_payload node (cell_off node i)"
    if "i < n_keys node" for i
    using slice_behind_meta [OF d, of "node_end node - cell_off node i + 4"] in_heap [OF that]
    by (simp add: cell_payload_def e sz [OF that])
  show "node_abs node' = node_abs node"
    by (simp add: node_abs_def nk node_entry_def pk off pay)
  have buf: "btu_get_node_buffer node' = btu_get_node_buffer node"
    by (simp add: btu_get_node_buffer_def node'_def)
  have flds: "node_page_number node' = node_page_number node"
    "page_id (node_page node') = page_id (node_page node)"
    "page_size (node_page node') = page_size (node_page node)"
    using p by (simp_all add: node'_def same_payload_def)
  have "node_shape node'"
    using shape by (simp add: node_shape_def e buf flds)
  moreover have "cell_ok node' i" if "i < n_keys node" for i
    using wf that sz [OF that] by (simp add: node_wf_def node_inv_def cell_ok_def off hw)
  ultimately have inv: "node_inv node'"
    using wf by (simp add: node_wf_def node_inv_def e nk fr hw)
  have "cell_lo node' i = cell_lo node i" if "i < n_keys node" for i
    by (simp add: cell_lo_def off sz [OF that])
  then have "cells_disjoint node'"
    using wf unfolding node_wf_def cells_disjoint_def nk off by metis
  with inv show "node_wf node'" by (simp add: node_wf_def)
  have arr: "arr_get m' q = arr_get m q" if "drop 12 m' = drop 12 m" "length m' = length m" "12 \<le> q" for m m' :: bytes and q
    using that nth_drop [of 12 m' "q - 12"] nth_drop [of 12 m "q - 12"] by (auto simp: arr_get_def)
  show "node_is_leaf node' = node_is_leaf node"
    unfolding node_is_leaf_def e arr [OF d len trans_le_add1 [OF h]] by (rule refl)
qed

lemma in_use_same_payload: "page_mem p = m \<Longrightarrow> 12 \<le> length m \<Longrightarrow>
  same_payload (p\<lparr>page_mem := in_use p, page_status := st\<rparr>) p"
  by (auto simp: same_payload_def in_use_def drop_with_meta)

section \<open>The tree\<close>

text \<open>
  The root page on disk is the page of a well-formed leaf with ascending keys and inline cells.
  With no key the heap is empty, too: a node is then taken for a fresh one when it is read.
\<close>

definition leaf_node :: "btree_node \<Rightarrow> bool" where
  "leaf_node node \<longleftrightarrow> node_wf node \<and> node_is_leaf node = Some True \<and>
     keys_ascending (node_key_list node) \<and> (\<forall>i < n_keys node. is_inline node i) \<and>
     n_keys node < 256 \<and> (n_keys node = 0 \<longrightarrow> n_hwm node = 0)"

definition node_on :: "cfile pager \<Rightarrow> btree_node \<Rightarrow> bool" where
  "node_on pg node \<longleftrightarrow> page_status (node_page node) = PAGER_OK \<and>
     page_size (node_page node) = pgr_page_size pg \<and>
     disk_of cf_data pg (node_page_number node) = Some (node_mem node)"

definition pager_ready :: "cfile pager \<Rightarrow> bool" where
  "pager_ready pg \<longleftrightarrow> pager_inv cf_data pg \<and> (\<exists>fs. pgr_ops pg = CStdOps fs)"

definition leaf_tree :: "unit btree \<Rightarrow> cfile pager \<Rightarrow> btree_node \<Rightarrow> bool" where
  "leaf_tree tree pg node \<longleftrightarrow> tr_type tree = BTREE_TBL \<and> tr_fns tree = btree_fns \<and>
     tr_root_page_id tree = node_page_number node \<and> pager_ready pg \<and> node_on pg node \<and> leaf_node node"

lemma pager_ready_cache:
  "pager_ready pg \<Longrightarrow> pager_inv cf_data (pg\<lparr>pgr_cache := c\<rparr>) \<Longrightarrow> pager_ready (pg\<lparr>pgr_cache := c\<rparr>)"
  by (simp add: pager_ready_def)

lemma node_on_cache [simp]: "node_on (pg\<lparr>pgr_cache := c\<rparr>) node = node_on pg node"
  by (simp add: node_on_def)

text \<open>A view that a node can be read into.\<close>

definition view_for :: "'f pager \<Rightarrow> btree_node \<Rightarrow> bool" where
  "view_for pg nv \<longleftrightarrow> page_for pg (node_page nv) \<and> page_size (node_page nv) = pgr_page_size pg"

lemma view_for_cache [simp]: "view_for (pg\<lparr>pgr_cache := c\<rparr>) nv = view_for pg nv"
  by (simp add: view_for_def page_for_def dps_def)

lemma node_on_length:
  assumes "pager_ready pg" and "node_on pg node"
  shows "length (node_mem node) = dps pg"
  using disk_of_length [of cf_data pg "node_page_number node"] assms
  by (simp add: pager_ready_def pager_inv_def node_on_def)

lemma node_on_view: "pager_ready pg \<Longrightarrow> node_on pg node \<Longrightarrow> view_for pg node"
  using node_on_length by (simp add: view_for_def page_for_def node_on_def node_mem_def)

lemma acquire_view:
  assumes "pager_ready pg" and "node_on pg node" and "node_shape node"
  shows "\<exists>nv. noderc_acquire pg = Some (BTREE_OK, nv) \<and> view_for pg nv"
proof -
  have "32 \<le> dps pg"
    using node_on_length [OF assms(1,2)] node_shape_header [OF assms(3)] assms(3)
    by (simp add: node_shape_def node_end_def)
  then show ?thesis
    by (auto simp: noderc_acquire_def page_create_eq btree_node_init_from_page_def Let_def
        node_num_keys_def hdr_get_def hdr_set_def mem_read32_ok mem_write32_def mem_write_patch
        node_mem_def layout_defs page_buffer_off_def set_node_mem_def view_for_def page_for_def dps_def)
qed

lemma patch_same: "off + n \<le> length m \<Longrightarrow> patch m off (slice m off n) = m"
  by (simp add: patch_def slice_def) (metis append_take_drop_id drop_drop add.commute)

text \<open>Initialising the node from its page gives the node back.\<close>

lemma init_leaf:
  assumes "node_shape node" and "n_keys node = 0 \<longrightarrow> n_free node = node_end node - node_header node - 20"
  shows "btree_node_init_from_page (node_page node) = Some (BTREE_OK, node)"
proof -
  have h: "node_header node + 20 \<le> length (node_mem node)"
    using assms(1) by (simp add: node_shape_def node_end_def)
  have "ser_write_32bit_le (of_nat (n_free node)) = slice (node_mem node) (node_header node + 4) 4"
    using h by (simp add: n_free_def rd32_def ser_write_read)
  then have "patch (node_mem node) (node_header node + 4) (ser_write_32bit_le (of_nat (n_free node))) =
      node_mem node"
    using h by (simp add: patch_same)
  moreover have "set_node_mem node (node_mem node) = node"
    by (simp add: set_node_mem_def node_mem_def)
  ultimately show ?thesis
    using init_from_page_run [OF assms(1)] assms(2) by auto
qed

text \<open>What a node of either kind needs for the descent.\<close>

definition sorted_node :: "btree_node \<Rightarrow> bool" where
  "sorted_node node \<longleftrightarrow> node_wf node \<and> keys_ascending (node_key_list node) \<and> n_keys node < 256 \<and>
     (n_keys node = 0 \<longrightarrow> n_hwm node = 0)"

lemma leaf_sorted: "leaf_node node \<Longrightarrow> sorted_node node"
  by (simp add: leaf_node_def sorted_node_def)

lemma sorted_init: "sorted_node node \<Longrightarrow> btree_node_init_from_page (node_page node) = Some (BTREE_OK, node)"
  by (rule init_leaf) (auto simp: sorted_node_def node_wf_def node_inv_def)

lemma reinit_sorted:
  assumes "pager_ready pg" and on: "node_on pg node" and leaf: "sorted_node node" and view: "view_for pg nv"
  shows "\<exists>c. noderc_reinit_read pg nv (node_page_number node) =
      Some (BTREE_OK, pg\<lparr>pgr_cache := c\<rparr>, node) \<and> pager_ready (pg\<lparr>pgr_cache := c\<rparr>)"
proof -
  obtain fs where inv: "pager_inv cf_data pg" and ops: "pgr_ops pg = CStdOps fs"
    using assms(1) by (auto simp: pager_ready_def)
  have disk: "disk_of cf_data pg (sel_page_id \<lparr>sel_page_id = node_page_number node\<rparr>) = Some (node_mem node)"
    using on by (simp add: node_on_def)
  have pf: "page_for pg (node_page nv)" using view by (simp add: view_for_def)
  obtain c where rd: "pager_read_page pg \<lparr>sel_page_id = node_page_number node\<rparr> (node_page nv) =
      Some (PAGER_OK, pg\<lparr>pgr_cache := c\<rparr>, (node_page nv)\<lparr>page_id := node_page_number node,
        page_status := PAGER_OK, page_mem := node_mem node\<rparr>)"
    and inv': "pager_inv cf_data (pg\<lparr>pgr_cache := c\<rparr>)"
    using cstd.cached_read_present [OF inv disk pf ops] by (auto simp: pager_read_page_def)
  have "node_page_number node = page_id (node_page node)"
    using leaf by (simp add: sorted_node_def node_wf_def node_inv_def node_shape_def)
  then have "(node_page nv)\<lparr>page_id := node_page_number node, page_status := PAGER_OK,
      page_mem := node_mem node\<rparr> = node_page node"
    using on view by (simp add: node_on_def view_for_def node_mem_def)
  with rd sorted_init [OF leaf]
  have "noderc_reinit_read pg nv (node_page_number node) = Some (BTREE_OK, pg\<lparr>pgr_cache := c\<rparr>, node)"
    by (simp add: noderc_reinit_read_def btree_node_init_from_read_def pager_reselect_def)
  with inv' assms(1) show ?thesis by (auto intro: pager_ready_cache)
qed

lemmas reinit_leaf = reinit_sorted [OF _ _ leaf_sorted]

section \<open>The descent\<close>

definition leaf_index :: "btree_node \<Rightarrow> u32 \<Rightarrow> child_list_index" where
  "leaf_index node key =
     (let i = key_place (node_key_list node) key in
      \<lparr>cli_mode = (if i < n_keys node then KLIM_INDEX else KLIM_END), cli_index = of_nat i\<rparr>)"

text \<open>The two breadcrumbs: the one the cursor was created with and that of the leaf.\<close>

definition leaf_cursor :: "unit btree \<Rightarrow> btree_node \<Rightarrow> u32 \<Rightarrow> unit cursor" where
  "leaf_cursor tree node key = at_crumbs (cursor_create tree)
     [\<lparr>cb_key_index = \<lparr>cli_mode = KLIM_INDEX, cli_index = 0\<rparr>, cb_page_id = tr_root_page_id tree\<rparr>,
      \<lparr>cb_key_index = leaf_index node key, cb_page_id = tr_root_page_id tree\<rparr>]"

lemma place_of_key:
  assumes "keys_ascending ks" and "key \<in> set ks"
  shows "key_place ks key < length ks \<and> ks ! key_place ks key = key"
proof -
  obtain j where j: "j < length ks" "ks ! j = key" using assms(2) by (auto simp: in_set_conv_nth)
  have "key_place ks key = j"
    using j assms(1) by (intro key_place_eqI) (auto simp: keys_ascending_def sorted_wrt_iff_nth_less)
  with j show ?thesis by simp
qed

lemma sorted_facts:
  assumes "sorted_node node"
  shows "node_inv node" "node_shape node" "node_num_keys node = Some (of_nat (n_keys node))"
    "unat (of_nat (n_keys node) :: u32) = n_keys node"
    "unat (of_nat (key_place (node_key_list node) key) :: u32) = key_place (node_key_list node) key"
    "key_place (node_key_list node) key \<le> n_keys node"
proof -
  show inv: "node_inv node" and shape: "node_shape node"
    using assms by (simp_all add: sorted_node_def node_wf_def node_inv_def)
  show "node_num_keys node = Some (of_nat (n_keys node))" by (rule header_gets(1) [OF shape])
  show le: "key_place (node_key_list node) key \<le> n_keys node"
    using key_place_le [of "node_key_list node" key] by simp
  have "n_keys node < 256" using assms by (simp add: sorted_node_def)
  then show "unat (of_nat (n_keys node) :: u32) = n_keys node"
    "unat (of_nat (key_place (node_key_list node) key) :: u32) = key_place (node_key_list node) key"
    using le by (simp_all add: unat_u32_of_nat)
qed

lemmas leaf_facts = sorted_facts [OF leaf_sorted]

text \<open>The same for both kinds of nodes: behind the last key of an inner node is its right child.\<close>

definition node_index :: "bool \<Rightarrow> btree_node \<Rightarrow> u32 \<Rightarrow> child_list_index" where
  "node_index is_leaf node key =
     (let i = key_place (node_key_list node) key in
      \<lparr>cli_mode = (if i < n_keys node then KLIM_INDEX else if is_leaf then KLIM_END else KLIM_RIGHT_CHILD),
       cli_index = of_nat i\<rparr>)"

lemma node_index_init:
  assumes "sorted_node node" and leaf: "node_is_leaf node = Some is_leaf"
  shows "btu_init_keylistindex_from_index node (of_nat (key_place (node_key_list node) key)) =
    Some (node_index is_leaf node key)"
proof -
  note F = sorted_facts [OF assms(1)]
  have "(of_nat (key_place (node_key_list node) key) < (of_nat (n_keys node) :: u32)) =
      (key_place (node_key_list node) key < n_keys node)"
    using F(4,5) by (simp add: word_less_nat_alt)
  moreover have "key_place (node_key_list node) key = n_keys node"
    if "\<not> key_place (node_key_list node) key < n_keys node"
    using F(6) [of key] that by simp
  ultimately show ?thesis
    using F(3) leaf by (auto simp: btu_init_keylistindex_from_index_def node_index_def)
qed

lemma leaf_index_init:
  assumes "leaf_node node"
  shows "btu_init_keylistindex_from_index node (of_nat (key_place (node_key_list node) key)) =
    Some (leaf_index node key)"
  using node_index_init [OF leaf_sorted [OF assms], of True key] assms
  by (simp add: leaf_node_def node_index_def leaf_index_def)

lemma traverse_leaf:
  assumes "leaf_tree tree pg node"
  shows "\<exists>c. cursor_traverse_to (cursor_create tree) pg key =
      Some (BTREE_OK, key \<in> set (node_key_list node), leaf_cursor tree node key, pg\<lparr>pgr_cache := c\<rparr>) \<and>
    leaf_tree tree (pg\<lparr>pgr_cache := c\<rparr>) node"
proof -
  have T: "tr_type tree = BTREE_TBL" "tr_fns tree = btree_fns" "tr_root_page_id tree = node_page_number node"
    "pager_ready pg" "node_on pg node" "leaf_node node"
    using assms by (simp_all add: leaf_tree_def)
  note F = leaf_facts [OF T(6)]
  have asc: "keys_ascending (node_key_list node)" and leaf: "node_is_leaf node = Some True"
    using T(6) by (simp_all add: leaf_node_def)
  obtain nv where nv: "noderc_acquire pg = Some (BTREE_OK, nv)" "view_for pg nv"
    using acquire_view [OF T(4,5) F(2)] by blast
  obtain c where rd: "noderc_reinit_read pg nv (node_page_number node) =
      Some (BTREE_OK, pg\<lparr>pgr_cache := c\<rparr>, node)" and ready: "pager_ready (pg\<lparr>pgr_cache := c\<rparr>)"
    using reinit_leaf [OF T(4-6) nv(2)] by blast
  let ?c0 = "cursor_create tree" and ?found = "key \<in> set (node_key_list node)"
  have c0: "cur_tree ?c0 = tree" "cur_page_id ?c0 = node_page_number node" "cur_compare_context ?c0 = ()"
    "cur_breadcrumbs ?c0 = [\<lparr>cb_key_index = \<lparr>cli_mode = KLIM_INDEX, cli_index = 0\<rparr>,
      cb_page_id = tr_root_page_id tree\<rparr>]"
    using T(3) by (simp_all add: cursor_create_def cursor_create_ex_def cursor_push_def MAX_CRUMBS_def)
  have push: "cursor_push (?c0\<lparr>cur_compare_context := (), cur_key_index := leaf_index node key\<rparr>) =
      (BTREE_OK, leaf_cursor tree node key)"
    using c0 T(3) by (simp add: cursor_push_def MAX_CRUMBS_def leaf_cursor_def at_crumbs_def)
  have "traverse_round ?c0 pg nv (ser_write_32bit_le key) 4 False =
      Some (Stop (BTREE_OK, ?found, leaf_cursor tree node key, pg\<lparr>pgr_cache := c\<rparr>))"
    using rd btree_search_correct [OF F(1) asc, of "pg\<lparr>pgr_cache := c\<rparr>" key] leaf_index_init [OF T(6), of key]
      push leaf
    by (cases ?found) (simp_all add: traverse_round_def c0 T(1,2) search_status_def)
  then have "traverse_loop ?c0 pg nv (ser_write_32bit_le key) 4 False =
      Some (BTREE_OK, ?found, leaf_cursor tree node key, pg\<lparr>pgr_cache := c\<rparr>)"
    by (subst traverse_loop.simps) (simp add: c0 MAX_CRUMBS_def)
  with nv(1) T ready show ?thesis
    by (intro exI [of _ c])
      (simp add: cursor_traverse_to_def cursor_traverse_to_ex_def leaf_tree_def)
qed

section \<open>Looking a key up\<close>

text \<open>
  Selecting a key from a tree of one leaf is looking it up in the leaf's map.  The payload is
  copied as far as the buffer goes; the tree stays as it was.
\<close>

lemma btree_select_leaf:
  assumes "leaf_tree tree pg node" and "length buffer < 2147483648"
  shows "\<exists>pg'. btree_select_ex tree pg key buffer (of_nat (length buffer)) =
    Some (case node_lookup node key of
        None \<Rightarrow> (BTREE_ERR_KEY_NOT_FOUND, pg', buffer)
      | Some payload \<Rightarrow> (read_status buffer payload, pg', filled buffer payload)) \<and>
    leaf_tree tree pg' node \<and> disk_of cf_data pg' = disk_of cf_data pg"
proof -
  obtain c where tr: "cursor_traverse_to (cursor_create tree) pg key =
      Some (BTREE_OK, key \<in> set (node_key_list node), leaf_cursor tree node key, pg\<lparr>pgr_cache := c\<rparr>)"
    and t1: "leaf_tree tree (pg\<lparr>pgr_cache := c\<rparr>) node"
    using traverse_leaf [OF assms(1)] by blast
  have T: "pager_ready pg" "node_on pg node" "leaf_node node" "tr_root_page_id tree = node_page_number node"
    using assms(1) by (simp_all add: leaf_tree_def)
  note F = leaf_facts [OF T(3)]
  have wf: "node_wf node" and asc: "keys_ascending (node_key_list node)" using T(3) by (simp_all add: leaf_node_def)
  obtain nv where nv: "noderc_acquire pg = Some (BTREE_OK, nv)" "view_for pg nv"
    using acquire_view [OF T(1,2) F(2)] by blast
  show ?thesis
  proof (cases "key \<in> set (node_key_list node)")
    case False
    then show ?thesis
      using tr t1 nv by (intro exI [of _ "pg\<lparr>pgr_cache := c\<rparr>"])
        (simp add: btree_select_ex_def node_lookup_place [OF asc])
  next
    case True
    let ?i = "key_place (node_key_list node) key"
    have i: "?i < n_keys node" using place_of_key [OF asc True] by simp
    have "pager_ready (pg\<lparr>pgr_cache := c\<rparr>)" using t1 by (simp add: leaf_tree_def)
    then obtain c' where rd: "noderc_reinit_read (pg\<lparr>pgr_cache := c\<rparr>) nv (node_page_number node) =
        Some (BTREE_OK, pg\<lparr>pgr_cache := c'\<rparr>, node)" and ready: "pager_ready (pg\<lparr>pgr_cache := c'\<rparr>)"
      using reinit_leaf [of "pg\<lparr>pgr_cache := c\<rparr>" node nv] T nv(2) by auto
    have "(of_nat ?i :: u32) \<noteq> of_nat (n_keys node)" using F(4) F(5) [of key] i by (metis less_irrefl)
    moreover have "is_inline node ?i" using T(3) i by (simp add: leaf_node_def)
    ultimately show ?thesis
      using tr rd nv True read_inline_at [OF wf i _ assms(2), where pager = "pg\<lparr>pgr_cache := c'\<rparr>"]
        F(3) ready assms(1)
      by (intro exI [of _ "pg\<lparr>pgr_cache := c'\<rparr>"])
        (simp add: btree_select_ex_def node_lookup_place [OF asc] cursor_read_current_def
          leaf_cursor_def at_crumbs_def T(4) leaf_index_def Let_def leaf_tree_def)
  qed
qed

end
