(* ===== verification/LeafInsert.thy ===== *)
theory LeafInsert
  imports LeafTree
begin

text \<open>Inserting into a tree of one leaf, and the client's view of a series of insertions.\<close>

section \<open>Sorted insertion\<close>

lemma key_place_nth:
  assumes "keys_ascending ks"
  shows "j < key_place ks key \<Longrightarrow> ks ! j < key"
    and "key_place ks key \<le> j \<Longrightarrow> j < length ks \<Longrightarrow> key \<le> ks ! j"
proof -
  let ?P = "\<lambda>k. k < key"
  show "ks ! j < key" if "j < key_place ks key"
    using that nth_mem [of j "takeWhile ?P ks"] set_takeWhileD [of "ks ! j" ?P ks]
    by (simp add: key_place_def takeWhile_nth)
  show "key \<le> ks ! j" if j: "key_place ks key \<le> j" "j < length ks"
  proof -
    have "\<not> ks ! key_place ks key < key"
      using nth_length_takeWhile [of ?P ks] j by (simp add: key_place_def)
    moreover have "ks ! key_place ks key \<le> ks ! j"
      using assms j by (cases "key_place ks key = j")
        (auto simp: keys_ascending_def sorted_wrt_iff_nth_less less_imp_le)
    ultimately show ?thesis by (meson leD leI less_le_trans)
  qed
qed

lemma ascending_insert:
  assumes "keys_ascending ks" and "key \<notin> set ks"
  shows "keys_ascending (insert_at (key_place ks key) key ks)"
  unfolding keys_ascending_def
proof (rule sorted_insert_at)
  show "sorted_wrt (<) ks" using assms(1) by (simp add: keys_ascending_def)
  show "ks ! j < key" if "j < key_place ks key" for j by (rule key_place_nth(1) [OF assms(1) that])
  show "key < ks ! j" if "key_place ks key \<le> j" "j < length ks" for j
    using key_place_nth(2) [OF assms(1) that] assms(2) nth_mem [OF that(2)] by (metis order_le_less)
qed

lemma map_of_insert_at:
  "k \<notin> fst ` set xs \<Longrightarrow> map_of (insert_at i (k, v) xs) = (map_of xs)(k \<mapsto> v)"
proof -
  assume k: "k \<notin> fst ` set xs"
  have "map_of xs = map_of (take i xs @ drop i xs)" by simp
  then have "map_of xs = map_of (drop i xs) ++ map_of (take i xs)" by (simp only: map_of_append)
  moreover have "k \<notin> dom (map_of (take i xs))"
    using k by (auto simp: dom_map_of_conv_image_fst dest: in_set_takeD)
  ultimately show ?thesis
    by (auto simp: insert_at_def fun_eq_iff map_add_def split: option.splits)
qed

section \<open>One page\<close>

definition inline_entries :: "entry list \<Rightarrow> bool" where
  "inline_entries es \<longleftrightarrow>
     (\<forall>(k, f, p) \<in> set es. \<not> btree_pkey_is_cell_type f PKEY_FLAG_CELL_TYPE_OVERFLOW)"

lemma inline_entries_abs: "(\<forall>i < n_keys node. is_inline node i) = inline_entries (node_abs node)"
  by (auto simp: inline_entries_def node_abs_def node_entry_def is_inline_def)

lemma inline_flags_inline: "\<not> btree_pkey_is_cell_type inline_flags PKEY_FLAG_CELL_TYPE_OVERFLOW"
  by (simp add: inline_flags_def btree_pkey_set_cell_type_def btree_pkey_is_cell_type_def cell_type_code_def)

text \<open>The room a payload needs: it stays inline, and the free heap takes it.\<close>

definition leaf_room :: "btree_node \<Rightarrow> bytes \<Rightarrow> bool" where
  "leaf_room node payload \<longleftrightarrow> length payload + 16 \<le> unat (btree_node_max_cell_size node) \<and>
     length payload + 16 \<le> n_free node \<and> n_keys node < 255"

definition cell_of :: "bytes \<Rightarrow> cell_inline" where
  "cell_of payload = \<lparr>ci_inline_size = of_nat (length payload), ci_payload = payload\<rparr>"

definition leaf_inserted :: "btree_node \<Rightarrow> u32 \<Rightarrow> bytes \<Rightarrow> btree_node" where
  "leaf_inserted node key payload =
     cell_inserted node (key_place (node_key_list node) key) key (inline_image (cell_of payload)) inline_flags"

lemma inserted_facts:
  assumes node: "sorted_node node" and room: "leaf_room node payload" and new: "key \<notin> set (node_key_list node)"
  defines "nd \<equiv> leaf_inserted node key payload"
  shows "sorted_node nd"
    "node_abs nd = insert_at (key_place (node_key_list node) key) (key, inline_flags, payload) (node_abs node)"
    "n_keys nd = n_keys node + 1" "n_free nd = n_free node - (length payload + 16)"
    "length (node_mem nd) = length (node_mem node)"
    "btree_node_max_cell_size nd = btree_node_max_cell_size node"
    "node_page nd = (node_page node)\<lparr>page_mem := node_mem nd\<rparr>" "node_page_number nd = node_page_number node"
    "node_is_leaf nd = node_is_leaf node" "node_header nd = node_header node"
    "rd32 (node_mem nd) (node_header node + 12) = rd32 (node_mem node) (node_header node + 12)"
proof -
  let ?i = "key_place (node_key_list node) key" and ?img = "inline_image (cell_of payload)"
  have wf: "node_wf node" and inv: "node_inv node" and asc: "keys_ascending (node_key_list node)"
    using node by (simp_all add: sorted_node_def node_wf_def)
  have i: "?i \<le> n_keys node" using key_place_le [of "node_key_list node" key] by simp
  have "length payload + 16 < 4294967296" using room n_bounds(2) [of node] by (simp add: leaf_room_def)
  then have u: "unat (ci_inline_size (cell_of payload)) = length payload"
    by (simp add: cell_of_def unat_u32_of_nat)
  have len: "length ?img = length payload + 4"
    using length_inline_image [of "cell_of payload"] u by (simp add: cell_of_def)
  have img: "4 \<le> length ?img" "unat (rd32 ?img 0) + 4 = length ?img" "drop 4 ?img = payload"
    using len u by (simp_all add: inline_image_def rd32_def slice_def cell_of_def)
  have fits: "length ?img + 12 \<le> n_free node" using room len by (simp add: leaf_room_def)
  note W = insert_cell_wf [OF wf i fits img(1,2), where key = key and flags = inline_flags,
      folded leaf_inserted_def, folded nd_def]
  note F = cell_inserted_facts [OF inv i fits, where key = key and flags = inline_flags,
      folded leaf_inserted_def, folded nd_def]
  show nk: "n_keys nd = n_keys node + 1" by (rule F(4))
  show "n_free nd = n_free node - (length payload + 16)" using F(5) len by simp
  show mem: "length (node_mem nd) = length (node_mem node)" using F(1) by (simp add: node_end_def)
  show "btree_node_max_cell_size nd = btree_node_max_cell_size node"
    by (simp add: nd_def leaf_inserted_def cell_inserted_def cell_written_def Let_def)
  show "node_page nd = (node_page node)\<lparr>page_mem := node_mem nd\<rparr>" "node_page_number nd = node_page_number node"
    by (simp_all add: nd_def leaf_inserted_def cell_inserted_def cell_written_def Let_def
        set_node_mem_def node_mem_def)
  show hdr: "node_header nd = node_header node" by (rule F(2))
  show abs: "node_abs nd = insert_at ?i (key, inline_flags, payload) (node_abs node)" by (simp add: W(2) img(3))
  have keys: "node_key_list nd = insert_at ?i key (node_key_list node)"
    by (simp add: node_key_list_abs abs map_insert_at)
  have "keys_ascending (node_key_list nd)"
    unfolding keys by (rule ascending_insert [OF asc new])
  then show "sorted_node nd" using W(1) room nk by (simp add: sorted_node_def leaf_room_def)
  have "slice (node_mem nd) (node_header node) 4 = slice (node_mem node) (node_header node) 4"
    by (rule F(8)) simp
  moreover have "node_header node + 20 \<le> length (node_mem node)"
    using sorted_facts(2) [OF node] by (simp add: node_shape_def node_end_def)
  ultimately have "node_mem nd ! node_header node = node_mem node ! node_header node"
    using F(1) nth_take [of 0 4 "drop (node_header node) (node_mem nd)"]
      nth_take [of 0 4 "drop (node_header node) (node_mem node)"]
    by (simp add: slice_def node_end_def)
  then show "node_is_leaf nd = node_is_leaf node"
    using F(1,2) by (simp add: node_is_leaf_def arr_get_def node_end_def layout_defs)
  show "rd32 (node_mem nd) (node_header node + 12) = rd32 (node_mem node) (node_header node + 12)"
    using F(8) by (simp add: rd32_def)
qed

lemma leaf_inserted_facts:
  assumes leaf: "leaf_node node" and room: "leaf_room node payload" and new: "key \<notin> set (node_key_list node)"
  defines "nd \<equiv> leaf_inserted node key payload"
  shows "leaf_node nd" "node_lookup nd = (node_lookup node)(key \<mapsto> payload)"
    "n_keys nd = n_keys node + 1" "n_free nd = n_free node - (length payload + 16)"
    "length (node_mem nd) = length (node_mem node)"
    "btree_node_max_cell_size nd = btree_node_max_cell_size node"
    "node_page nd = (node_page node)\<lparr>page_mem := node_mem nd\<rparr>" "node_page_number nd = node_page_number node"
    "node_abs nd = insert_at (key_place (node_key_list node) key) (key, inline_flags, payload) (node_abs node)"
proof -
  note F = inserted_facts [OF leaf_sorted [OF leaf] room new, folded nd_def]
  show "n_keys nd = n_keys node + 1" "n_free nd = n_free node - (length payload + 16)"
    "length (node_mem nd) = length (node_mem node)" "btree_node_max_cell_size nd = btree_node_max_cell_size node"
    "node_page nd = (node_page node)\<lparr>page_mem := node_mem nd\<rparr>" "node_page_number nd = node_page_number node"
    and abs: "node_abs nd = insert_at (key_place (node_key_list node) key) (key, inline_flags, payload) (node_abs node)"
    by (fact F)+
  have "inline_entries (node_abs nd)"
    using leaf inline_flags_inline abs inline_entries_abs [of node]
    by (auto simp: leaf_node_def inline_entries_def)
  then show "leaf_node nd"
    using F(1,9) leaf inline_entries_abs [of nd] by (simp add: leaf_node_def sorted_node_def)
  have "key \<notin> fst ` set (map (\<lambda>(k, f, p). (k, p)) (node_abs node))"
    using new by (force simp: node_key_list_abs)
  then show "node_lookup nd = (node_lookup node)(key \<mapsto> payload)"
    by (simp add: node_lookup_def abs map_insert_at map_of_insert_at)
qed

text \<open>The node as it is on the page after the write, which marks the page as in use.\<close>

definition stored :: "btree_node \<Rightarrow> btree_node" where
  "stored node = node\<lparr>node_page :=
     (node_page node)\<lparr>page_mem := in_use (node_page node), page_status := PAGER_OK\<rparr>\<rparr>"

lemma stored_facts:
  assumes "leaf_node node"
  shows "leaf_node (stored node)" "node_abs (stored node) = node_abs node"
    "node_lookup (stored node) = node_lookup node" "n_free (stored node) = n_free node"
    "n_keys (stored node) = n_keys node" "node_key_list (stored node) = node_key_list node"
    "btree_node_max_cell_size (stored node) = btree_node_max_cell_size node"
    "node_page_number (stored node) = node_page_number node"
proof -
  have wf: "node_wf node" and shape: "node_shape node"
    using assms by (simp_all add: leaf_node_def node_wf_def node_inv_def)
  have "12 \<le> length (page_mem (node_page node))"
    using shape node_shape_header [OF shape] by (simp add: node_shape_def node_end_def node_mem_def)
  then have p: "same_payload ((node_page node)\<lparr>page_mem := in_use (node_page node),
      page_status := PAGER_OK\<rparr>) (node_page node)"
    by (rule in_use_same_payload [OF refl])
  note S = same_payload_node [OF wf p, folded stored_def]
  show abs: "node_abs (stored node) = node_abs node" and "n_free (stored node) = n_free node"
    and nk: "n_keys (stored node) = n_keys node"
    by (rule S(2), rule S(4), rule S(3))
  show keys: "node_key_list (stored node) = node_key_list node" by (simp add: node_key_list_abs abs)
  show "node_lookup (stored node) = node_lookup node" by (simp add: node_lookup_def abs)
  show "btree_node_max_cell_size (stored node) = btree_node_max_cell_size node"
    by (simp add: stored_def btree_node_max_cell_size_def btu_get_node_heap_size_def btu_get_node_size_def)
  show "node_page_number (stored node) = node_page_number node" by (simp add: stored_def)
  show "leaf_node (stored node)"
    using assms S inline_entries_abs [of node] inline_entries_abs [of "stored node"] keys
    by (simp add: leaf_node_def)
qed

lemma write_node:
  assumes "pager_ready pg" and shape: "node_shape node" and num: "can_write co_room pg (node_page_number node)"
    and len: "length (node_mem node) = dps pg" and sz: "page_size (node_page node) = pgr_page_size pg"
  shows "\<exists>pg'. pager_write_page pg (node_page node) = Some (PAGER_OK, pg', node_page (stored node)) \<and>
    pager_ready pg' \<and> node_on pg' (stored node) \<and>
    disk_of cf_data pg' = (disk_of cf_data pg)(node_page_number node \<mapsto> node_mem (stored node)) \<and>
    same_pager co_room pg pg' \<and> pgr_max_page pg' = max (pgr_max_page pg) (node_page_number node)"
proof -
  obtain fs where inv: "pager_inv cf_data pg" and ops: "pgr_ops pg = CStdOps fs"
    using assms(1) by (auto simp: pager_ready_def)
  have pid: "page_id (node_page node) = node_page_number node"
    using shape by (simp add: node_shape_def)
  have pf: "page_for pg (node_page node)" using len by (simp add: page_for_def node_mem_def)
  from cstd.write_page_existing [OF inv ops pf] num pid
  obtain pg' where W: "pager_write_page pg (node_page node) = Some (PAGER_OK, pg', node_page (stored node))"
    "pager_inv cf_data pg'"
    "disk_of cf_data pg' = (disk_of cf_data pg)(node_page_number node \<mapsto> in_use (node_page node))"
    "same_pager co_room pg pg'" "pgr_max_page pg' = max (pgr_max_page pg) (node_page_number node)"
    by (auto simp: stored_def)
  moreover have "node_mem (stored node) = in_use (node_page node)" by (simp add: stored_def node_mem_def)
  moreover have "pager_ready pg'" using W(2,4) ops by (auto simp: pager_ready_def same_pager_def)
  moreover have "node_on pg' (stored node)"
    using W(3,4) sz by (simp add: node_on_def same_pager_def stored_def node_mem_def)
  ultimately show ?thesis by auto
qed

lemmas write_leaf = write_node [OF _ leaf_facts(2)]

lemma those_map_Some: "(\<And>x. x \<in> set xs \<Longrightarrow> f x = Some (g x)) \<Longrightarrow> those (map f xs) = Some (map g xs)"
  by (induction xs) simp_all

definition place_index :: "btree_node \<Rightarrow> u32 \<Rightarrow> insertion_index" where
  "place_index node key =
     \<lparr>ii_mode = (if key_place (node_key_list node) key < n_keys node then KLIM_INDEX else KLIM_END),
      ii_index = of_nat (key_place (node_key_list node) key)\<rparr>"

lemma write_place:
  assumes "sorted_node node"
  shows "node_key_array node (of_nat (n_keys node)) = Some (map (pkey node) [0..<n_keys node])"
    and "\<exists>found. btu_binary_search_keys (map (pkey node) [0..<n_keys node])
      (ucast (of_nat (n_keys node) :: u32)) key = Some (of_nat (key_place (node_key_list node) key), found)"
    and "btu_init_insertion_index_from_index node (of_nat (key_place (node_key_list node) key)) =
      Some (place_index node key)"
    and "insert_pos node (place_index node key) = key_place (node_key_list node) key"
proof -
  note F = sorted_facts [OF assms]
  have wf: "node_wf node" and asc: "keys_ascending (node_key_list node)" and small: "n_keys node < 256"
    using assms by (simp_all add: sorted_node_def)
  let ?arr = "map (pkey node) [0..<n_keys node]"
  show "node_key_array node (of_nat (n_keys node)) = Some ?arr"
    unfolding node_key_array_def F(4) by (rule those_map_Some) (simp add: read_cell_at(2) [OF wf])
  have ks: "map pk_key ?arr = node_key_list node" by (simp add: node_key_list_def)
  have "unat (ucast (of_nat (n_keys node) :: u32) :: byte) = n_keys node"
    using small F(4) by (simp add: unsigned_ucast_eq take_bit_nat_eq_self)
  then show "\<exists>found. btu_binary_search_keys ?arr (ucast (of_nat (n_keys node) :: u32)) key =
      Some (of_nat (key_place (node_key_list node) key), found)"
    using btu_binary_search_keys_correct [of ?arr "ucast (of_nat (n_keys node) :: u32)" key] asc
    unfolding ks by simp
  have "(of_nat (key_place (node_key_list node) key) < (of_nat (n_keys node) :: u32)) =
      (key_place (node_key_list node) key < n_keys node)"
    using F(4,5) by (simp add: word_less_nat_alt)
  with F(3,6) show "btu_init_insertion_index_from_index node (of_nat (key_place (node_key_list node) key)) =
      Some (place_index node key)"
    by (auto simp: btu_init_insertion_index_from_index_def place_index_def not_less dest: le_antisym)
  show "insert_pos node (place_index node key) = key_place (node_key_list node) key"
    using F(5,6) [of key] by (auto simp: insert_pos_def place_index_def not_less dest: le_antisym)
qed

lemma node_write_sorted:
  assumes ready: "pager_ready pg" and node: "sorted_node node" and room: "leaf_room node payload"
    and new: "key \<notin> set (node_key_list node)" and w: "can_write co_room pg (node_page_number node)"
    and len: "length (node_mem node) = dps pg" and sz: "page_size (node_page node) = pgr_page_size pg"
  shows "\<exists>pg'. btree_node_write node pg key payload (of_nat (length payload)) =
      Some (BTREE_OK, pg', stored (leaf_inserted node key payload)) \<and>
    pager_ready pg' \<and> node_on pg' (stored (leaf_inserted node key payload)) \<and>
    disk_of cf_data pg' = (disk_of cf_data pg)(node_page_number node \<mapsto>
      node_mem (stored (leaf_inserted node key payload))) \<and>
    same_pager co_room pg pg' \<and> pgr_max_page pg' = max (pgr_max_page pg) (node_page_number node)"
proof -
  let ?nd = "leaf_inserted node key payload"
  note F = sorted_facts [OF node] and L = inserted_facts [OF node room new]
  note P = write_place [OF node]
  obtain found where s: "btu_binary_search_keys (map (pkey node) [0..<n_keys node])
      (ucast (of_nat (n_keys node) :: u32)) key = Some (of_nat (key_place (node_key_list node) key), found)"
    using P(2) by blast
  have small: "length payload + 16 < 2147483648"
    using room node_end_small [OF F(2)] F(1) node_shape_header [OF F(2)]
    by (simp add: leaf_room_def node_inv_def)
  then have u: "unat (ci_inline_size (cell_of payload)) = length payload"
    by (simp add: cell_of_def unat_u32_of_nat)
  have ins: "btree_node_insert_inline node (place_index node key) key (cell_of payload) = Some (BTREE_OK, ?nd)"
    using insert_inline_ex_fits [OF F(1), of "place_index node key" "cell_of payload" key inline_flags]
      P(4) F(6) [of key] u small room
    by (simp add: btree_node_insert_inline_def leaf_inserted_def inline_flags_def [symmetric] leaf_room_def
        cell_of_def)
  have "unat (btree_node_heap_required_for_insertion (btree_cell_inline_disk_size (of_nat (length payload)))) =
      length payload + 16"
    using small by (simp add: btree_node_heap_required_for_insertion_def btree_cell_inline_disk_size_def
        layout_defs unat_add_ok unat_u32_of_nat)
  then have le: "btree_node_heap_required_for_insertion (btree_cell_inline_disk_size (of_nat (length payload))) \<le>
      btree_node_max_cell_size node"
    using room by (simp add: leaf_room_def word_le_nat_alt)
  obtain pg' where W: "pager_write_page pg (node_page ?nd) = Some (PAGER_OK, pg', node_page (stored ?nd))"
    "pager_ready pg'" "node_on pg' (stored ?nd)"
    "disk_of cf_data pg' = (disk_of cf_data pg)(node_page_number node \<mapsto> node_mem (stored ?nd))"
    "same_pager co_room pg pg'" "pgr_max_page pg' = max (pgr_max_page pg) (node_page_number node)"
    using write_node [OF ready sorted_facts(2) [OF L(1)], unfolded L(8), OF w] L(5,7) len sz by auto
  have "btree_node_write_ex node pg (place_index node key) key 0 payload (of_nat (length payload))
      WRITER_EX_MODE_RAW = Some (BTREE_OK, pg', stored ?nd)"
    using ins le W(1) header_gets(2) [OF F(2)]
    by (simp add: btree_node_write_ex_def cell_of_def Let_def) (simp add: stored_def)
  then have "btree_node_write node pg key payload (of_nat (length payload)) = Some (BTREE_OK, pg', stored ?nd)"
    using F(3) P(1,3) s by (simp add: btree_node_write_def)
  with W show ?thesis by blast
qed

lemmas node_write_leaf = node_write_sorted [OF _ leaf_sorted]

section \<open>Inserting into the tree\<close>

lemma insert_leaf_run:
  assumes tree: "leaf_tree tree pg node" and room: "leaf_room node payload"
    and new: "node_lookup node key = None" and w: "can_write co_room pg (tr_root_page_id tree)"
  defines "node' \<equiv> stored (leaf_inserted node key payload)"
  shows "\<exists>pg'. btree_insert tree pg key payload (of_nat (length payload)) = Some (BTREE_OK, pg') \<and>
    leaf_tree tree pg' node' \<and> node_lookup node' = (node_lookup node)(key \<mapsto> payload) \<and>
    n_free node' = n_free node - (length payload + 16) \<and> n_keys node' = n_keys node + 1 \<and>
    btree_node_max_cell_size node' = btree_node_max_cell_size node \<and>
    disk_of cf_data pg' = (disk_of cf_data pg)(tr_root_page_id tree \<mapsto> node_mem node') \<and>
    can_write co_room pg' (tr_root_page_id tree)"
proof -
  have T: "tr_type tree = BTREE_TBL" "tr_fns tree = btree_fns" "tr_root_page_id tree = node_page_number node"
    "pager_ready pg" "node_on pg node" "leaf_node node"
    using tree by (simp_all add: leaf_tree_def)
  note F = leaf_facts [OF T(6)]
  have "keys_ascending (node_key_list node)" using T(6) by (simp add: leaf_node_def)
  then have new': "key \<notin> set (node_key_list node)"
    using new by (simp add: node_lookup_place split: if_splits)
  obtain c where tr: "cursor_traverse_to (cursor_create tree) pg key =
      Some (BTREE_OK, key \<in> set (node_key_list node), leaf_cursor tree node key, pg\<lparr>pgr_cache := c\<rparr>)"
    and t1: "leaf_tree tree (pg\<lparr>pgr_cache := c\<rparr>) node"
    using traverse_leaf [OF tree] by blast
  obtain nv where nv: "noderc_acquire pg = Some (BTREE_OK, nv)" "view_for pg nv"
    using acquire_view [OF T(4,5) F(2)] by blast
  have r1: "pager_ready (pg\<lparr>pgr_cache := c\<rparr>)" using t1 by (simp add: leaf_tree_def)
  then obtain c' where rd: "noderc_reinit_read (pg\<lparr>pgr_cache := c\<rparr>) nv (node_page_number node) =
      Some (BTREE_OK, pg\<lparr>pgr_cache := c'\<rparr>, node)" and r2: "pager_ready (pg\<lparr>pgr_cache := c'\<rparr>)"
    using reinit_leaf [of "pg\<lparr>pgr_cache := c\<rparr>" node nv] T nv(2) by auto
  have len: "length (node_mem node) = dps (pg\<lparr>pgr_cache := c'\<rparr>)"
    using node_on_length [OF T(4,5)] by (simp add: dps_def)
  have sz: "page_size (node_page node) = pgr_page_size (pg\<lparr>pgr_cache := c'\<rparr>)"
    using T(5) by (simp add: node_on_def)
  have w': "can_write co_room (pg\<lparr>pgr_cache := c'\<rparr>) (node_page_number node)"
    using w T(3) by (simp add: can_write_def dps_def)
  obtain pg' where W: "btree_node_write node (pg\<lparr>pgr_cache := c'\<rparr>) key payload (of_nat (length payload)) =
      Some (BTREE_OK, pg', node')" "pager_ready pg'" "node_on pg' node'"
    "disk_of cf_data pg' = (disk_of cf_data pg)(node_page_number node \<mapsto> node_mem node')"
    "same_pager co_room (pg\<lparr>pgr_cache := c'\<rparr>) pg'" "pgr_max_page pg \<le> pgr_max_page pg'"
    using node_write_leaf [OF r2 T(6) room new' w' len sz, folded node'_def] by auto
  have pop: "cursor_pop (leaf_cursor tree node key) = (BTREE_OK,
      Some \<lparr>cb_key_index = leaf_index node key, cb_page_id = tr_root_page_id tree\<rparr>,
      at_crumbs (cursor_create tree) [\<lparr>cb_key_index = \<lparr>cli_mode = KLIM_INDEX, cli_index = 0\<rparr>,
        cb_page_id = tr_root_page_id tree\<rparr>])"
    by (simp add: pop_snoc leaf_cursor_def)
  have "insert_round (leaf_cursor tree node key) (pg\<lparr>pgr_cache := c\<rparr>) nv key (Caller_data payload)
      (of_nat (length payload)) sr = Some (Stop pg')" for sr
    using pop rd W(1) T(3) by (simp add: insert_round_def insert_bytes_def)
  then have "insert_loop (leaf_cursor tree node key) (pg\<lparr>pgr_cache := c\<rparr>) nv key (Caller_data payload)
      (of_nat (length payload)) sr = Some pg'" for sr
    by (subst insert_loop.simps) simp
  then have run: "btree_insert tree pg key payload (of_nat (length payload)) = Some (BTREE_OK, pg')"
    using nv(1) tr by (simp add: btree_insert_def)
  note L = leaf_inserted_facts [OF T(6) room new'] and S = stored_facts [OF leaf_inserted_facts(1) [OF T(6) room new']]
  have "can_write co_room pg' (tr_root_page_id tree)"
    using w W(5,6) by (auto simp: can_write_def same_pager_def dps_def word_le_nat_alt)
  with run W T L S show ?thesis
    by (intro exI [of _ pg']) (simp add: leaf_tree_def node'_def)
qed

end
