(* ===== verification/LeafStore.thy ===== *)
theory LeafStore
  imports LeafInsert
begin

text \<open>
  The contract of a key-value store with limited room, which a tree of one leaf keeps, and what its
  clients may conclude: a batch of insertions succeeds and can be read back.
\<close>

section \<open>The contract\<close>

primrec put_all ::
  "('s \<Rightarrow> 'k \<Rightarrow> 'v \<Rightarrow> 's option) \<Rightarrow> 's \<Rightarrow> ('k \<times> 'v) list \<Rightarrow> 's option" where
  "put_all put s [] = Some s"
| "put_all put s (kv # kvs) = do { s \<leftarrow> put s (fst kv) (snd kv); put_all put s kvs }"

locale kv_store =
  fixes inv :: "'s \<Rightarrow> bool"
    and content :: "'s \<Rightarrow> 'k \<rightharpoonup> 'v"
    and spare :: "'s \<Rightarrow> nat"
    and slots :: "'s \<Rightarrow> nat"
    and limit :: "'s \<Rightarrow> nat"
    and need :: "'v \<Rightarrow> nat"
    and put :: "'s \<Rightarrow> 'k \<Rightarrow> 'v \<Rightarrow> 's option"
  assumes put_ok: "inv s \<Longrightarrow> content s k = None \<Longrightarrow> need v \<le> spare s \<Longrightarrow> need v \<le> limit s \<Longrightarrow> 0 < slots s
      \<Longrightarrow> \<exists>s'. put s k v = Some s' \<and> inv s' \<and> content s' = (content s)(k \<mapsto> v) \<and>
        spare s' = spare s - need v \<and> slots s' = slots s - 1 \<and> limit s' = limit s"
begin

lemma put_all_ok:
  assumes "inv s" and "distinct (map fst kvs)" and "\<forall>kv \<in> set kvs. content s (fst kv) = None \<and> need (snd kv) \<le> limit s"
    and "(\<Sum>kv \<leftarrow> kvs. need (snd kv)) \<le> spare s" and "length kvs \<le> slots s"
  shows "\<exists>s'. put_all put s kvs = Some s' \<and> inv s' \<and> content s' = content s ++ map_of kvs"
  using assms
proof (induction kvs arbitrary: s)
  case (Cons kv kvs)
  obtain k v where kv: "kv = (k, v)" by (cases kv)
  obtain s1 where s1: "put s k v = Some s1" "inv s1" "content s1 = (content s)(k \<mapsto> v)"
    "spare s1 = spare s - need v" "slots s1 = slots s - 1" "limit s1 = limit s"
    using put_ok [of s k v] Cons.prems kv by auto
  have "\<exists>s'. put_all put s1 kvs = Some s' \<and> inv s' \<and> content s' = content s1 ++ map_of kvs"
    using s1 Cons.prems kv by (intro Cons.IH) (auto simp: image_iff)
  then obtain s' where s': "put_all put s1 kvs = Some s'" "inv s'" "content s' = content s1 ++ map_of kvs"
    by blast
  have "content s1 ++ map_of kvs = content s ++ map_of (kv # kvs)"
  proof -
    have "map_of kvs k = None" using Cons.prems(2) kv by (simp add: map_of_eq_None_iff)
    then show ?thesis using s1(3) kv by (auto simp: map_add_def fun_eq_iff split: option.splits)
  qed
  then have "content s' = content s ++ map_of (kv # kvs)" using s'(3) by (simp only:)
  with s1(1) s'(1,2) kv show ?case
    by (intro exI [of _ s'] conjI) (simp_all only: put_all.simps fst_conv snd_conv bind.bind_lunit)
qed simp

end

section \<open>A tree of one leaf is such a store\<close>

text \<open>The leaf as the disk has it.\<close>

definition root_node :: "unit btree \<Rightarrow> cfile pager \<Rightarrow> btree_node" where
  "root_node tree pg =
     (let pid = tr_root_page_id tree in
      \<lparr>node_page_number = pid,
       node_header = page_buffer_off + (if pid = 1 then unat BTREE_HEADER_SIZE else 0),
       node_page = \<lparr>page_id = pid, page_size = pgr_page_size pg, page_status = PAGER_OK,
         page_mem = the (disk_of cf_data pg pid)\<rparr>\<rparr>)"

lemma leaf_tree_root: "leaf_tree tree pg node \<Longrightarrow> node = root_node tree pg"
  using leaf_facts(2) [of node]
  by (cases node; cases "node_page node")
    (auto simp: leaf_tree_def node_on_def root_node_def Let_def node_shape_def btu_get_node_buffer_def
      node_mem_def)

definition store_inv :: "unit btree \<Rightarrow> cfile pager \<Rightarrow> bool" where
  "store_inv tree pg \<longleftrightarrow> leaf_tree tree pg (root_node tree pg) \<and> can_write co_room pg (tr_root_page_id tree)"

definition tree_content :: "unit btree \<Rightarrow> cfile pager \<Rightarrow> u32 \<rightharpoonup> bytes" where
  "tree_content tree pg = node_lookup (root_node tree pg)"

definition put_key :: "unit btree \<Rightarrow> cfile pager \<Rightarrow> u32 \<Rightarrow> bytes \<Rightarrow> cfile pager option" where
  "put_key tree pg key payload =
     (case btree_insert tree pg key payload (of_nat (length payload)) of
        Some (BTREE_OK, pg') \<Rightarrow> Some pg' | _ \<Rightarrow> None)"

definition cell_need :: "bytes \<Rightarrow> nat" where
  "cell_need payload = length payload + 16"

interpretation leaf_store: kv_store "store_inv tree" "tree_content tree"
  "\<lambda>pg. n_free (root_node tree pg)" "\<lambda>pg. 255 - n_keys (root_node tree pg)"
  "\<lambda>pg. unat (btree_node_max_cell_size (root_node tree pg))" cell_need "put_key tree" for tree
proof
  fix pg key payload
  let ?node = "root_node tree pg"
  assume a: "store_inv tree pg" "tree_content tree pg key = None" "cell_need payload \<le> n_free ?node"
    "cell_need payload \<le> unat (btree_node_max_cell_size ?node)" "0 < 255 - n_keys ?node"
  have room: "leaf_room ?node payload" using a(3-5) by (simp add: leaf_room_def cell_need_def)
  have new: "node_lookup ?node key = None" using a(2) by (simp add: tree_content_def)
  have t: "leaf_tree tree pg ?node" and w: "can_write co_room pg (tr_root_page_id tree)"
    using a(1) by (simp_all add: store_inv_def)
  obtain pg' where P: "btree_insert tree pg key payload (of_nat (length payload)) = Some (BTREE_OK, pg')"
    "leaf_tree tree pg' (stored (leaf_inserted ?node key payload))"
    "node_lookup (stored (leaf_inserted ?node key payload)) = (node_lookup ?node)(key \<mapsto> payload)"
    "n_free (stored (leaf_inserted ?node key payload)) = n_free ?node - (length payload + 16)"
    "n_keys (stored (leaf_inserted ?node key payload)) = n_keys ?node + 1"
    "btree_node_max_cell_size (stored (leaf_inserted ?node key payload)) = btree_node_max_cell_size ?node"
    "can_write co_room pg' (tr_root_page_id tree)"
    using insert_leaf_run [OF t room new w] by blast
  note R = leaf_tree_root [OF P(2), symmetric]
  show "\<exists>pg'. put_key tree pg key payload = Some pg' \<and> store_inv tree pg' \<and>
      tree_content tree pg' = (tree_content tree pg)(key \<mapsto> payload) \<and>
      n_free (root_node tree pg') = n_free ?node - cell_need payload \<and>
      255 - n_keys (root_node tree pg') = 255 - n_keys ?node - 1 \<and>
      unat (btree_node_max_cell_size (root_node tree pg')) = unat (btree_node_max_cell_size ?node)"
    using P by (intro exI [of _ pg']) (simp add: put_key_def store_inv_def tree_content_def cell_need_def R)
qed

text \<open>
  C28: a batch of new keys that fits into the root leaf is inserted, and afterwards every key of the
  batch, and every key that was there before, is selected with its payload.
\<close>

theorem insert_all_then_select:
  assumes "store_inv tree pg" and "distinct (map fst kvs)"
    and "\<forall>kv \<in> set kvs. tree_content tree pg (fst kv) = None \<and>
      cell_need (snd kv) \<le> unat (btree_node_max_cell_size (root_node tree pg))"
    and "(\<Sum>kv \<leftarrow> kvs. cell_need (snd kv)) \<le> n_free (root_node tree pg)"
    and "length kvs + n_keys (root_node tree pg) \<le> 255" and "length buffer < 2147483648"
  shows "\<exists>pg' pg''. put_all (put_key tree) pg kvs = Some pg' \<and> store_inv tree pg' \<and>
    btree_select_ex tree pg' key buffer (of_nat (length buffer)) =
      Some (case (tree_content tree pg ++ map_of kvs) key of
          None \<Rightarrow> (BTREE_ERR_KEY_NOT_FOUND, pg'', buffer)
        | Some payload \<Rightarrow> (read_status buffer payload, pg'', filled buffer payload))"
proof -
  have "length kvs \<le> 255 - n_keys (root_node tree pg)" using assms(5) by simp
  from leaf_store.put_all_ok [OF assms(1-4) this]
  obtain pg' where P: "put_all (put_key tree) pg kvs = Some pg'" "store_inv tree pg'"
    "tree_content tree pg' = tree_content tree pg ++ map_of kvs" by blast
  have "leaf_tree tree pg' (root_node tree pg')" using P(2) by (simp add: store_inv_def)
  from btree_select_leaf [OF this assms(6), of key]
  obtain pg'' where "btree_select_ex tree pg' key buffer (of_nat (length buffer)) =
      Some (case node_lookup (root_node tree pg') key of
          None \<Rightarrow> (BTREE_ERR_KEY_NOT_FOUND, pg'', buffer)
        | Some payload \<Rightarrow> (read_status buffer payload, pg'', filled buffer payload))" by blast
  then have "btree_select_ex tree pg' key buffer (of_nat (length buffer)) =
      Some (case (tree_content tree pg ++ map_of kvs) key of
          None \<Rightarrow> (BTREE_ERR_KEY_NOT_FOUND, pg'', buffer)
        | Some payload \<Rightarrow> (read_status buffer payload, pg'', filled buffer payload))"
    unfolding P(3) [symmetric] unfolding tree_content_def .
  with P(1,2) show ?thesis by blast
qed

end
