(* ===== verification/LeafDemo.thy ===== *)
theory LeafDemo
  imports LeafStore
begin

text \<open>
  A file of two pages of 232 bytes whose second page is an empty root leaf: the theorems on
  cursors and on trees of one leaf, applied to it.
\<close>

definition leaf_page :: bytes where
  "leaf_page = [0xAF, 0, 0, 0, 0, 2, 0, 0, 0, 0, 0, 0,
     1, 0, 0, 0, 200, 0, 0, 0, 0, 0, 0, 0, 0, 0, 0, 0, 0, 0, 0, 0] @ replicate 200 0"

definition leaf_file :: cfile where
  "leaf_file = \<lparr>cf_data = [0xAF, 0, 0, 0, 0, 1] @ replicate 226 0 @ leaf_page, cf_quota = 2000\<rparr>"

definition leaf_pager :: "cfile pager" where
  "leaf_pager = \<lparr>pgr_name = ''leaf'', pgr_ops = CStdOps \<lparr>fs_files = Map.empty, fs_new_quota = None\<rparr>,
     pgr_disk_page_size = 232, pgr_page_size = 220, pgr_max_page = 2, pgr_file = Some leaf_file,
     pgr_cache = \<lparr>pc_pages = [zero_key, zero_key], pc_size = 0, pc_capacity = 2\<rparr>\<rparr>"

definition empty_leaf :: btree_node where
  "empty_leaf = \<lparr>node_page_number = 2, node_header = 12,
     node_page = \<lparr>page_id = 2, page_size = 220, page_status = PAGER_OK, page_mem = leaf_page\<rparr>\<rparr>"

definition tree2 :: "unit btree" where
  "tree2 = table_tree 2"

lemma leaf_pager_inv: "pager_inv cf_data leaf_pager"
  by (rule pager_checkI)
    (simp add: pager_check_def leaf_pager_def leaf_file_def leaf_page_def dps_def entries_def)

lemma leaf_page_disk: "disk_of cf_data leaf_pager 2 = Some leaf_page"
proof -
  define first where "first = [0xAF, 0, 0, 0, 0, 1 :: byte] @ replicate 226 0"
  have "length first = 232" "length leaf_page = 232" by (simp_all add: first_def leaf_page_def)
  moreover have "cf_data leaf_file = first @ leaf_page" by (simp add: leaf_file_def first_def)
  ultimately show ?thesis
    by (simp add: disk_of_def allocated_def pgr_content_def page_slice_def leaf_pager_def dps_def slice_def)
qed

lemma empty_leaf_parts:
  "n_keys empty_leaf = 0" "n_free empty_leaf = 200" "n_hwm empty_leaf = 0" "node_end empty_leaf = 232"
  "node_shape empty_leaf"
proof -
  have slices: "slice leaf_page 16 4 = [200, 0, 0, 0]" "slice leaf_page 20 4 = [0, 0, 0, 0]"
    "slice leaf_page 28 4 = [0, 0, 0, 0]" "length leaf_page = 232"
    by (simp_all add: leaf_page_def slice_def)
  then show "n_keys empty_leaf = 0" "n_free empty_leaf = 200" "n_hwm empty_leaf = 0" "node_end empty_leaf = 232"
    "node_shape empty_leaf"
    by (simp_all add: empty_leaf_def n_keys_def n_free_def n_hwm_def node_end_def node_mem_def
        node_shape_def btu_get_node_buffer_def rd32_def ser_read_bytes layout_defs page_buffer_off_def)
qed

lemma empty_leaf_leaf: "leaf_node empty_leaf"
proof -
  have "node_is_leaf empty_leaf = Some True"
    by (simp add: node_is_leaf_def arr_get_def empty_leaf_def node_mem_def leaf_page_def layout_defs)
  then show ?thesis
    using empty_leaf_parts
    by (simp add: leaf_node_def node_wf_def node_inv_def cells_disjoint_def node_key_list_def
        keys_ascending_def empty_leaf_def)
qed

lemma empty_leaf_content: "node_lookup empty_leaf = Map.empty"
  by (simp add: node_lookup_def node_abs_def empty_leaf_parts)

lemma demo_tree: "leaf_tree tree2 leaf_pager empty_leaf"
proof -
  have "pager_ready leaf_pager" using leaf_pager_inv by (auto simp: pager_ready_def leaf_pager_def)
  moreover have "node_on leaf_pager empty_leaf"
    using leaf_page_disk by (simp add: node_on_def) (simp add: empty_leaf_def leaf_pager_def node_mem_def)
  ultimately show ?thesis
    using empty_leaf_leaf by (simp add: leaf_tree_def tree2_def table_tree_def) (simp add: empty_leaf_def)
qed

lemma demo_room: "can_write co_room leaf_pager 2"
  by (simp add: can_write_def leaf_pager_def leaf_file_def dps_def co_room_def)

section \<open>Cursors\<close>

lemma cursor_tree2:
  "in_step (cursor_create tree2)" "depth (cursor_create tree2) = 1"
  by (simp_all add: cursor_create_def cursor_create_ex_def cursor_push_def MAX_CRUMBS_def in_step_def)

lemma cursor_pop_restore_witness:
  "\<exists>crumbs c'. cursor_pop_n (cursor_create tree2) 1 = (BTREE_OK, crumbs, c') \<and> length crumbs = 1 \<and>
    cur_breadcrumbs c' = [] \<and> cursor_restore c' crumbs = (BTREE_OK, cursor_create tree2)"
  using cursor_pop_restore [OF cursor_tree2(1), of 1] by (simp add: cursor_tree2(2) MAX_CRUMBS_def)

lemma cursor_traverse_depth_witness:
  "\<exists>f c' pg'. cursor_traverse_to_ex (cursor_create tree2) leaf_pager (ser_write_32bit_le 5) 4 =
     Some (BTREE_OK, f, c', pg') \<and> depth c' \<le> 8"
proof -
  obtain f c' pg' where "cursor_traverse_to_ex (cursor_create tree2) leaf_pager (ser_write_32bit_le 5) 4 =
     Some (BTREE_OK, f, c', pg')"
    using traverse_leaf [OF demo_tree, of 5] by (auto simp: cursor_traverse_to_def)
  with cursor_traverse_depth [OF this] show ?thesis by (simp add: cursor_tree2(2) MAX_CRUMBS_def)
qed

section \<open>The leaf\<close>

lemma empty_leaf_max: "unat (btree_node_max_cell_size empty_leaf) = 50"
  by (simp add: btree_node_max_cell_size_def btu_get_node_heap_size_def btu_get_node_size_def
      empty_leaf_def layout_defs)

lemma root_empty_leaf: "root_node tree2 leaf_pager = empty_leaf"
  using leaf_tree_root [OF demo_tree] by simp

lemma demo_store: "store_inv tree2 leaf_pager" "tree_content tree2 leaf_pager = Map.empty"
  using demo_tree demo_room
  by (simp_all add: store_inv_def tree_content_def root_empty_leaf empty_leaf_content) (simp add: tree2_def table_tree_def)

lemma insert_all_then_select_witness:
  "\<exists>pg' pg''. put_all (put_key tree2) leaf_pager [(7, [1, 2]), (3, [9])] = Some pg' \<and>
    btree_select_ex tree2 pg' 3 [0, 0] 2 = Some (BTREE_OK, pg'', [9, 0])"
proof -
  have "length [0, 0 :: byte] < 2147483648" by simp
  with insert_all_then_select [OF demo_store(1), of "[(7, [1, 2]), (3, [9])]" "[0, 0]" 3]
  show ?thesis
    by (auto simp: demo_store(2) cell_need_def root_empty_leaf empty_leaf_max empty_leaf_parts
        filled_def read_status_def)
qed

end
