(* ===== verification/SchemaCmp.thy ===== *)
theory SchemaCmp
  imports NodeSearch
begin

text \<open>
  Comparing index records by a schema of columns: \<open>ibtree_layout_schema_cmp.c\<close>.

  The stored record (the ``cmp key'') comes in windows; the context keeps what was read of the
  current column between two calls.  The C library's \<open>memcmp\<close> only promises the sign of its result
  and \<open>ibtls_compare\<close> returns that result as it is, so it is an argument \<open>mc\<close> here.  A pointer is
  the list of bytes behind it; a column behind the four of the context is an access outside it.
\<close>

section \<open>The schema and the context\<close>

datatype ibtlsk_type_e = IBTLSK_TYPE_INVALID | IBTLSK_TYPE_FIXED | IBTLSK_TYPE_VARSIZE

record ibtls_key_def =
  kd_type :: ibtlsk_type_e
  kd_size :: u32

record ibtree_layout_schema =
  ls_key_offset :: u32
  ls_key_definitions :: "ibtls_key_def list"
  ls_nkey_definitions :: byte

datatype payload_compare_type_e =
  PAYLOAD_COMPARE_TYPE_INVALID | PAYLOAD_COMPARE_TYPE_RECORD | PAYLOAD_COMPARE_TYPE_KEY

record varsize_key_state =
  vk_len_bytes :: bytes
  vk_len_len :: byte
  vk_key_size :: u32
  vk_ready :: bool
  vk_consumed_size :: u32

record rkey_state =
  rk_size :: u32
  rk_offset :: u32

record ibtls_compare_context =
  lc_initted :: bool
  lc_type :: payload_compare_type_e
  lc_schema :: ibtree_layout_schema
  lc_varkeys :: "varsize_key_state list"
  lc_rkeys :: "rkey_state list"
  lc_nvarkeys :: byte
  lc_curr_key :: byte

definition zero_varkey :: varsize_key_state where
  "zero_varkey = \<lparr>vk_len_bytes = [0, 0, 0, 0], vk_len_len = 0, vk_key_size = 0, vk_ready = False,
     vk_consumed_size = 0\<rparr>"

definition zero_rkey :: rkey_state where
  "zero_rkey = \<lparr>rk_size = 0, rk_offset = 0\<rparr>"

definition ibtls_init_compare_context_from_schema ::
  "ibtree_layout_schema \<Rightarrow> payload_compare_type_e \<Rightarrow> ibtls_compare_context" where
  "ibtls_init_compare_context_from_schema schema type =
     \<lparr>lc_initted = False, lc_type = PAYLOAD_COMPARE_TYPE_KEY, lc_schema = schema,
      lc_varkeys = replicate 4 zero_varkey, lc_rkeys = replicate 4 zero_rkey, lc_nvarkeys = 0,
      lc_curr_key = 0\<rparr>"

section \<open>The bytes to compare\<close>

record comparison =
  cm_wnd :: bytes
  cm_wnd_size :: u32
  cm_total_size :: u32
  cm_offset :: u32
  cm_payload :: bytes
  cm_payload_size :: u32
  cm_bytes_compared :: u32
  cm_out_bytes_compared :: u32
  cm_out_key_size_remaining :: u32

record key_bytes =
  kb_bytes :: bytes
  kb_nbytes :: u32
  kb_lwnd :: u32
  kb_not_in_window :: bool
  kb_has_more :: bool

definition no_key_bytes :: key_bytes where
  "no_key_bytes = \<lparr>kb_bytes = [], kb_nbytes = 0, kb_lwnd = 0, kb_not_in_window = False, kb_has_more = False\<rparr>"

definition curr_varkey :: "ibtls_compare_context \<Rightarrow> varsize_key_state option" where
  "curr_varkey ctx = arr_get (lc_varkeys ctx) (unat (lc_curr_key ctx))"

definition set_curr_varkey ::
  "ibtls_compare_context \<Rightarrow> varsize_key_state \<Rightarrow> ibtls_compare_context option" where
  "set_curr_varkey ctx k = do {
     ks \<leftarrow> arr_set (lc_varkeys ctx) (unat (lc_curr_key ctx)) k;
     Some (ctx\<lparr>lc_varkeys := ks\<rparr>)
   }"

text \<open>The \<open>while\<close> loop that collects the four bytes of a length.\<close>

function read_len_bytes ::
  "bytes \<Rightarrow> u32 \<Rightarrow> varsize_key_state \<Rightarrow> u32 \<Rightarrow> (varsize_key_state \<times> u32) option" where
  "read_len_bytes wnd wnd_size k lwnd =
     (if lwnd < wnd_size \<and> vk_len_len k < 4 then do {
        b \<leftarrow> arr_get wnd (unat lwnd);
        len_bytes \<leftarrow> arr_set (vk_len_bytes k) (unat (vk_len_len k)) b;
        read_len_bytes wnd wnd_size
          (k\<lparr>vk_len_bytes := len_bytes, vk_len_len := vk_len_len k + 1\<rparr>) (lwnd + 1)
      } else Some (k, lwnd))"
  by pat_completeness auto
termination
proof (relation "measure (\<lambda>(wnd, wnd_size, k, lwnd). 4 - unat (vk_len_len k))", goal_cases)
  case (2 wnd wnd_size k lwnd b len_bytes)
  have lt: "unat (vk_len_len k) < 4" using 2(1) by (simp add: word_less_nat_alt)
  then have "unat (vk_len_len k + 1) = Suc (unat (vk_len_len k))" by (simp add: unat_word_ariths)
  with lt show ?case by simp
qed simp

declare read_len_bytes.simps [simp del]

definition consume_varsize_bytes ::
  "ibtls_compare_context \<Rightarrow> comparison \<Rightarrow> u32 \<Rightarrow> (ibtls_compare_context \<times> u32) option" where
  "consume_varsize_bytes ctx cmp lwnd = do {
     keystate \<leftarrow> curr_varkey ctx;
     if \<not> vk_ready keystate then do {
       (keystate, lwnd) \<leftarrow> read_len_bytes (cm_wnd cmp) (cm_wnd_size cmp) keystate lwnd;
       ctx \<leftarrow> set_curr_varkey ctx
         (if vk_len_len keystate = 4
          then keystate\<lparr>vk_key_size := ser_read_32bit_le (vk_len_bytes keystate), vk_ready := True\<rparr>
          else keystate);
       Some (ctx, lwnd)
     } else Some (ctx, lwnd)
   }"

definition configure_fixed_key :: "ibtls_compare_context \<Rightarrow> ibtls_compare_context option" where
  "configure_fixed_key ctx = do {
     keystate \<leftarrow> curr_varkey ctx;
     rkey \<leftarrow> arr_get (lc_rkeys ctx) (unat (lc_curr_key ctx));
     set_curr_varkey ctx (keystate\<lparr>vk_key_size := rk_size rkey, vk_ready := True\<rparr>)
   }"

text \<open>The window position where the key bytes begin, if they begin in this window.\<close>

definition cmp_window_start :: "ibtls_compare_context \<Rightarrow> comparison \<Rightarrow> u32 option" where
  "cmp_window_start ctx cmp =
     (let abs_lwnd = cm_bytes_compared cmp + cm_offset cmp;
          key_offset = ls_key_offset (lc_schema ctx) in
      if abs_lwnd < key_offset then
        if abs_lwnd + cm_wnd_size cmp \<ge> key_offset then Some (cm_offset cmp + (key_offset - abs_lwnd))
        else None
      else Some (cm_offset cmp))"

definition cmpbytes ::
  "ibtls_compare_context \<Rightarrow> comparison \<Rightarrow> (ibtls_compare_context \<times> key_bytes) option" where
  "cmpbytes ctx cmp =
     (case cmp_window_start ctx cmp of
        None \<Rightarrow> Some (ctx, no_key_bytes\<lparr>kb_not_in_window := True\<rparr>)
      | Some lwnd \<Rightarrow> do {
          def \<leftarrow> arr_get (ls_key_definitions (lc_schema ctx)) (unat (lc_curr_key ctx));
          (ctx, lwnd) \<leftarrow>
            (case kd_type def of
               IBTLSK_TYPE_VARSIZE \<Rightarrow> consume_varsize_bytes ctx cmp lwnd
             | IBTLSK_TYPE_FIXED \<Rightarrow> do { ctx \<leftarrow> configure_fixed_key ctx; Some (ctx, lwnd) }
             | IBTLSK_TYPE_INVALID \<Rightarrow> None);
          keystate \<leftarrow> curr_varkey ctx;
          if vk_ready keystate then do {
            require (unat lwnd \<le> length (cm_wnd cmp));
            (let nbytes = c_min (cm_wnd_size cmp - lwnd) (vk_key_size keystate - vk_consumed_size keystate) in
             Some (ctx, \<lparr>kb_bytes = drop (unat lwnd) (cm_wnd cmp), kb_nbytes = nbytes, kb_lwnd = lwnd,
               kb_not_in_window = False, kb_has_more = lwnd + nbytes < cm_wnd_size cmp\<rparr>))
          } else Some (ctx, no_key_bytes\<lparr>kb_not_in_window := True, kb_lwnd := lwnd\<rparr>)
        })"

definition keybytes :: "ibtls_compare_context \<Rightarrow> comparison \<Rightarrow> key_bytes option" where
  "keybytes ctx cmp = do {
     cmp_keystate \<leftarrow> curr_varkey ctx;
     r_keystate \<leftarrow> arr_get (lc_rkeys ctx) (unat (lc_curr_key ctx));
     (let rwnd = vk_consumed_size cmp_keystate; start = rk_offset r_keystate + rwnd in do {
        require (unat start \<le> length (cm_payload cmp));
        Some (no_key_bytes\<lparr>kb_bytes := drop (unat start) (cm_payload cmp),
          kb_nbytes := rk_size r_keystate - rwnd\<rparr>)
      })
   }"

section \<open>The columns of the key at hand\<close>

text \<open>The loop over the columns; \<open>offset\<close> counts from the start of the payload, \<open>rptr\<close> too.\<close>

primrec rkey_offsets ::
  "ibtls_key_def list \<Rightarrow> bytes \<Rightarrow> nat \<Rightarrow> u32 \<Rightarrow> nat \<Rightarrow> rkey_state list \<Rightarrow> rkey_state list option" where
  "rkey_offsets [] payload i offset rptr rkeys = Some rkeys"
| "rkey_offsets (def # defs) payload i offset rptr rkeys = do {
     rkeys \<leftarrow> arr_set rkeys i zero_rkey;
     if kd_type def = IBTLSK_TYPE_VARSIZE then do {
       rkey_size \<leftarrow> mem_read32 payload rptr;
       rkeys \<leftarrow> arr_set rkeys i \<lparr>rk_size = rkey_size, rk_offset = offset + 4\<rparr>;
       rkey_offsets defs payload (i + 1) (offset + 4 + rkey_size) (rptr + 4 + unat rkey_size) rkeys
     } else rkey_offsets defs payload (i + 1) (offset + kd_size def) (rptr + unat (kd_size def)) rkeys
   }"

definition initialize_rkey_offsets ::
  "ibtls_compare_context \<Rightarrow> comparison \<Rightarrow> ibtls_compare_context option" where
  "initialize_rkey_offsets ctx cmp =
     (let schema = lc_schema ctx;
          offset = (if lc_type ctx = PAYLOAD_COMPARE_TYPE_RECORD then ls_key_offset schema else 0);
          n = unat (ls_nkey_definitions schema) in do {
        require (n \<le> length (ls_key_definitions schema));
        rkeys \<leftarrow> rkey_offsets (take n (ls_key_definitions schema)) (cm_payload cmp) 0 offset (unat offset)
          (lc_rkeys ctx);
        Some (ctx\<lparr>lc_rkeys := rkeys, lc_nvarkeys := ls_nkey_definitions schema, lc_initted := True\<rparr>)
      })"

definition init_if_not ::
  "ibtls_compare_context \<Rightarrow> comparison \<Rightarrow> ibtls_compare_context option" where
  "init_if_not ctx cmp = (if lc_initted ctx then Some ctx else initialize_rkey_offsets ctx cmp)"

section \<open>The comparison\<close>

text \<open>
  One round of the \<open>do\<close> loop.  \<open>Inl\<close> is a return with its result; \<open>Inr\<close> is the end of the body,
  with what the loop condition and the assertion behind the loop look at.  The result is zero then.
\<close>

definition compare_round ::
  "(bytes \<Rightarrow> bytes \<Rightarrow> int) \<Rightarrow> ibtls_compare_context \<Rightarrow> comparison
   \<Rightarrow> (ibtls_compare_context \<times> comparison \<times> (int + bool \<times> u32)) option" where
  "compare_round mc ctx cmp = do {
     (ctx, cmp_bytes) \<leftarrow> cmpbytes ctx cmp;
     if kb_not_in_window cmp_bytes
     then Some (ctx, cmp\<lparr>cm_out_key_size_remaining := 1, cm_out_bytes_compared := cm_wnd_size cmp\<rparr>, Inl 0)
     else do {
       cmp_keystate \<leftarrow> curr_varkey ctx;
       r_keystate \<leftarrow> arr_get (lc_rkeys ctx) (unat (lc_curr_key ctx));
       key_bytes \<leftarrow> keybytes ctx cmp;
       (let nbytes_to_cmp = c_min (kb_nbytes key_bytes) (kb_nbytes cmp_bytes) in do {
          require (0 \<le>s nbytes_to_cmp);
          xs \<leftarrow> mem_read (kb_bytes cmp_bytes) 0 (unat nbytes_to_cmp);
          ys \<leftarrow> mem_read (kb_bytes key_bytes) 0 (unat nbytes_to_cmp);
          (let cmp_result = mc xs ys; consumed = vk_consumed_size cmp_keystate + nbytes_to_cmp in do {
             ctx \<leftarrow> set_curr_varkey ctx (cmp_keystate\<lparr>vk_consumed_size := consumed\<rparr>);
             (let ctx = (if consumed = rk_size r_keystate
                         then ctx\<lparr>lc_curr_key := lc_curr_key ctx + 1\<rparr> else ctx);
                  rkey_remaining = (\<not> (consumed = rk_size r_keystate \<and> lc_curr_key ctx = lc_nvarkeys ctx));
                  cmp_remaining = (\<not> (consumed = vk_key_size cmp_keystate \<and> lc_curr_key ctx = lc_nvarkeys ctx));
                  step = kb_lwnd cmp_bytes + nbytes_to_cmp;
                  cmp = cmp\<lparr>cm_out_bytes_compared := cm_out_bytes_compared cmp + step,
                    cm_offset := cm_offset cmp + step,
                    cm_out_key_size_remaining := (if rkey_remaining then 1 else 0)\<rparr> in
              Some (ctx, cmp,
                if cmp_result \<noteq> 0 then Inl cmp_result
                else if rkey_remaining \<and> cmp_remaining then Inr (kb_has_more cmp_bytes, nbytes_to_cmp)
                else if rkey_remaining then Inl (- 1)
                else if cmp_remaining then Inl 1
                else Inl 0))
           })
        })
     }
   }"

text \<open>
  The \<open>do\<close> loop.  No outcome is a round without one, the assertion behind the loop, or a loop that does
  not end.
\<close>

partial_function (option) compare_rounds ::
  "(bytes \<Rightarrow> bytes \<Rightarrow> int) \<Rightarrow> ibtls_compare_context \<Rightarrow> comparison
   \<Rightarrow> (int \<times> comparison \<times> ibtls_compare_context) option" where
  "compare_rounds mc ctx cmp = do {
     (ctx, cmp, out) \<leftarrow> compare_round mc ctx cmp;
     case out of
       Inl result \<Rightarrow> Some (result, cmp, ctx)
     | Inr (has_more, nbytes_to_cmp) \<Rightarrow>
         if has_more \<and> nbytes_to_cmp \<noteq> 0 then compare_rounds mc ctx cmp
         else do { require (nbytes_to_cmp \<noteq> 0); Some (0, cmp, ctx) }
   }"

declare compare_rounds.simps [code]

definition ibtls_compare ::
  "(bytes \<Rightarrow> bytes \<Rightarrow> int) \<Rightarrow> ibtls_compare_context \<Rightarrow> bytes \<Rightarrow> u32 \<Rightarrow> u32 \<Rightarrow> bytes \<Rightarrow> u32 \<Rightarrow> u32
   \<Rightarrow> (int \<times> u32 \<times> u32 \<times> ibtls_compare_context) option" where
  "ibtls_compare mc ctx cmp_window cmp_window_size cmp_total_size payload payload_size bytes_compared =
     (let cmp = \<lparr>cm_wnd = cmp_window, cm_wnd_size = cmp_window_size, cm_total_size = cmp_total_size,
            cm_offset = 0, cm_payload = payload, cm_payload_size = payload_size,
            cm_bytes_compared = bytes_compared, cm_out_bytes_compared = 0,
            cm_out_key_size_remaining = 0\<rparr> in do {
        ctx \<leftarrow> init_if_not ctx cmp;
        (result, cmp, ctx) \<leftarrow> compare_rounds mc ctx cmp;
        Some (result, cm_out_bytes_compared cmp, cm_out_key_size_remaining cmp, ctx)
      })"

text \<open>\<open>memset\<close> of the first \<open>nvarkeys\<close> states; \<open>initted\<close> stays.\<close>

definition ibtls_reset_compare :: "ibtls_compare_context \<Rightarrow> ibtls_compare_context option" where
  "ibtls_reset_compare ctx = do {
     varkeys \<leftarrow> mem_write (lc_varkeys ctx) 0 (replicate (unat (lc_nvarkeys ctx)) zero_varkey);
     Some (ctx\<lparr>lc_varkeys := varkeys, lc_curr_key := 0\<rparr>)
   }"

text \<open>
  The callbacks an index tree with a schema is opened with (\<open>btree_factory.c\<close>).  More than four
  columns never get past \<open>initialize_rkey_offsets\<close>, so the reset of a context in use is never out of range.
\<close>

definition ibtls_fns :: "(bytes \<Rightarrow> bytes \<Rightarrow> int) \<Rightarrow> ibtls_compare_context btree_compare_fns" where
  "ibtls_fns mc = \<lparr>fn_keyof = ibtree_keyof, fn_compare = ibtls_compare mc,
     fn_reset = (\<lambda>ctx. case ibtls_reset_compare ctx of Some ctx \<Rightarrow> ctx | None \<Rightarrow> ctx)\<rparr>"

end
