(* ===== verification/SchemaProps.thy ===== *)
theory SchemaProps
  imports SchemaCmp SearchProps "HOL-Library.Sublist"
begin

text \<open>
  What the comparison by schema decides: for a schema of one column it is the lexicographic order of
  the column, over whatever windows the record comes in, unless the stored column is a proper prefix
  of the key.
\<close>

section \<open>One column\<close>

text \<open>The C library's promise for \<open>memcmp\<close>: the sign is that of the first difference.\<close>

definition is_memcmp :: "(bytes \<Rightarrow> bytes \<Rightarrow> int) \<Rightarrow> bool" where
  "is_memcmp mc \<longleftrightarrow> (\<forall>xs ys. length xs = length ys \<longrightarrow> sgn (mc xs ys) = memcmp xs ys)"

definition len_prefixed :: "bytes \<Rightarrow> bytes" where
  "len_prefixed xs = ser_write_32bit_le (of_nat (length xs)) @ xs"

definition one_column :: "u32 \<Rightarrow> ibtree_layout_schema" where
  "one_column key_offset = \<lparr>ls_key_offset = key_offset,
     ls_key_definitions = \<lparr>kd_type = IBTLSK_TYPE_VARSIZE, kd_size = 0\<rparr> # replicate 7 \<lparr>kd_type = IBTLSK_TYPE_INVALID, kd_size = 0\<rparr>,
     ls_nkey_definitions = 1\<rparr>"

text \<open>The state of the column \<open>xs\<close> after its first \<open>p\<close> bytes, the length counted.\<close>

definition column_at :: "bytes \<Rightarrow> nat \<Rightarrow> varsize_key_state" where
  "column_at xs p =
     (let len_bytes = ser_write_32bit_le (of_nat (length xs)) in
      if p < 4 then zero_varkey\<lparr>vk_len_bytes := take p len_bytes @ replicate (4 - p) 0, vk_len_len := of_nat p\<rparr>
      else \<lparr>vk_len_bytes = len_bytes, vk_len_len = 4, vk_key_size = of_nat (length xs), vk_ready = True,
        vk_consumed_size = of_nat (p - 4)\<rparr>)"

definition context_at :: "u32 \<Rightarrow> bytes \<Rightarrow> bytes \<Rightarrow> nat \<Rightarrow> ibtls_compare_context" where
  "context_at key_offset ys xs p =
     \<lparr>lc_initted = True, lc_type = PAYLOAD_COMPARE_TYPE_KEY, lc_schema = one_column key_offset,
      lc_varkeys = column_at xs p # replicate 3 zero_varkey,
      lc_rkeys = \<lparr>rk_size = of_nat (length ys), rk_offset = 4\<rparr> # replicate 3 zero_rkey,
      lc_nvarkeys = 1, lc_curr_key = 0\<rparr>"

lemma length_len_prefixed [simp]: "length (len_prefixed xs) = length xs + 4"
  by (simp add: len_prefixed_def)

lemma len_prefixed_ne [simp]: "len_prefixed xs \<noteq> []"
  using length_len_prefixed [of xs] by force

lemma column_at_0: "column_at xs 0 = zero_varkey"
  by (simp add: column_at_def zero_varkey_def numeral_eq_Suc)

lemma init_one_column:
  assumes "length ys < 2147483648"
  shows "init_if_not (ibtls_init_compare_context_from_schema (one_column key_offset) type)
      (cmp\<lparr>cm_payload := len_prefixed ys\<rparr>) = Some (context_at key_offset ys xs 0)"
proof -
  have "mem_read32 (len_prefixed ys) 0 = Some (of_nat (length ys))"
    by (simp add: mem_read32_def mem_read_def len_prefixed_def)
  then show ?thesis
    by (simp add: init_if_not_def ibtls_init_compare_context_from_schema_def initialize_rkey_offsets_def
        one_column_def context_at_def column_at_0 numeral_eq_Suc)
qed

lemma compare_fresh:
  assumes "length ys < 2147483648"
  shows "ibtls_compare mc (ibtls_init_compare_context_from_schema (one_column key_offset) type) wnd wsize tot
      (len_prefixed ys) key_size done =
    ibtls_compare mc (context_at key_offset ys xs 0) wnd wsize tot (len_prefixed ys) key_size done"
proof -
  have "init_if_not (context_at key_offset ys xs 0) cmp = Some (context_at key_offset ys xs 0)" for cmp
    by (simp add: init_if_not_def context_at_def)
  then show ?thesis
    using init_one_column [OF assms, of key_offset type "\<lparr>cm_wnd = wnd, cm_wnd_size = wsize, cm_total_size = tot,
      cm_offset = 0, cm_payload = [], cm_payload_size = key_size, cm_bytes_compared = done,
      cm_out_bytes_compared = 0, cm_out_key_size_remaining = 0\<rparr>" xs]
    by (simp add: ibtls_compare_def)
qed

lemma reset_one_column: "ibtls_reset_compare (context_at key_offset ys xs p) = Some (context_at key_offset ys xs' 0)"
  by (simp add: ibtls_reset_compare_def context_at_def column_at_0 mem_write_def)

lemma read_len_step:
  assumes "p < 4" and "lw < wsize" and "wnd ! unat lw = len_prefixed xs ! p" and "unat wsize \<le> length wnd"
  shows "read_len_bytes wnd wsize
      (zero_varkey\<lparr>vk_len_bytes := take p (ser_write_32bit_le (of_nat (length xs))) @ replicate (4 - p) 0,
        vk_len_len := of_nat p\<rparr>) lw =
    read_len_bytes wnd wsize
      (zero_varkey\<lparr>vk_len_bytes := take (Suc p) (ser_write_32bit_le (of_nat (length xs))) @ replicate (4 - Suc p) 0,
        vk_len_len := of_nat (Suc p)\<rparr>) (lw + 1)"
proof -
  let ?le = "ser_write_32bit_le (of_nat (length xs))"
  have lw: "unat lw < length wnd" using assms(2,4) by (simp add: word_less_nat_alt)
  have p: "unat (of_nat p :: byte) = p" "(of_nat p :: byte) < 4"
    using assms(1) by (simp_all add: unat_of_nat word_less_nat_alt)
  have "len_prefixed xs ! p = ?le ! p" using assms(1) by (simp add: len_prefixed_def nth_append)
  moreover have "(take p ?le @ replicate (4 - p) 0)[p := ?le ! p] = take (Suc p) ?le @ replicate (4 - Suc p) 0"
    using assms(1) by (simp add: list_update_append take_Suc_conv_app_nth flip: Suc_diff_le)
      (cases "4 - p", simp_all)
  ultimately show ?thesis
    using assms(1,2,3) lw p by (subst read_len_bytes.simps) (simp add: zero_varkey_def add.commute)
qed

definition len_state :: "bytes \<Rightarrow> nat \<Rightarrow> varsize_key_state" where
  "len_state xs p = zero_varkey\<lparr>
     vk_len_bytes := take p (ser_write_32bit_le (of_nat (length xs))) @ replicate (4 - p) 0,
     vk_len_len := of_nat p\<rparr>"

text \<open>All length bytes that the window has are taken.\<close>

lemma read_len_run:
  assumes "p \<le> 4" and "unat lw \<le> N" and "unat wsize = N" and "N \<le> length wnd"
    and "\<forall>j. unat lw + j < N \<and> p + j < 4 \<longrightarrow> wnd ! (unat lw + j) = len_prefixed xs ! (p + j)"
  shows "read_len_bytes wnd wsize (len_state xs p) lw =
    Some (len_state xs (min 4 (p + (N - unat lw))),
      lw + of_nat (min 4 (p + (N - unat lw)) - p))"
  using assms
proof (induction "4 - p" arbitrary: p lw)
  case 0
  then have "p = 4" by simp
  then show ?case by (subst read_len_bytes.simps) (simp add: len_state_def)
next
  case (Suc n)
  then have p: "p < 4" by simp
  show ?case
  proof (cases "lw < wsize")
    case False
    then have "unat lw = N" using Suc.prems(2,3) by (simp add: word_less_nat_alt)
    with False p show ?thesis by (subst read_len_bytes.simps) simp
  next
    case True
    then have lt: "unat lw < N" using Suc.prems(3) by (simp add: word_less_nat_alt)
    have u: "unat (lw + 1) = Suc (unat lw)"
      using lt Suc.prems(3) u32_bound [of wsize] by (subst unat_add_ok) auto
    have "wnd ! unat lw = len_prefixed xs ! p" using Suc.prems(5) lt p by (metis add.right_neutral)
    from read_len_step [OF p True this, folded len_state_def] Suc.prems(3,4)
    have "read_len_bytes wnd wsize (len_state xs p) lw = read_len_bytes wnd wsize (len_state xs (Suc p)) (lw + 1)"
      by simp
    moreover have "read_len_bytes wnd wsize (len_state xs (Suc p)) (lw + 1) =
        Some (len_state xs (min 4 (Suc p + (N - unat (lw + 1)))),
          lw + 1 + of_nat (min 4 (Suc p + (N - unat (lw + 1))) - Suc p))"
    proof (rule Suc.hyps(1))
      show "n = 4 - Suc p" using Suc.hyps(2) by simp
      show "\<forall>j. unat (lw + 1) + j < N \<and> Suc p + j < 4 \<longrightarrow>
          wnd ! (unat (lw + 1) + j) = len_prefixed xs ! (Suc p + j)"
        using Suc.prems(5) unfolding u by (metis add_Suc_shift)
    qed (use p lt u Suc.prems(3,4) in simp_all)
    moreover have "Suc p + (N - unat (lw + 1)) = p + (N - unat lw)" using lt u by simp
    moreover have "lw + 1 + of_nat (min 4 (p + (N - unat lw)) - Suc p) =
        lw + of_nat (min 4 (p + (N - unat lw)) - p)"
    proof -
      have "min 4 (p + (N - unat lw)) - p = Suc (min 4 (p + (N - unat lw)) - Suc p)"
        using p lt by (simp add: min_def) arith
      then show ?thesis by (simp only: of_nat_Suc add.assoc)
    qed
    ultimately show ?thesis by (simp only:)
  qed
qed

text \<open>A window is the stretch of the record that begins at \<open>q\<close>.\<close>

definition window_at :: "bytes \<Rightarrow> nat \<Rightarrow> bytes \<Rightarrow> bool" where
  "window_at r q w \<longleftrightarrow> w \<noteq> [] \<and> q + length w \<le> length r \<and> (\<forall>j < length w. w ! j = r ! (q + j))"

lemma column_ready: "column_at xs 4 = (len_state xs 4)\<lparr>vk_key_size := of_nat (length xs), vk_ready := True\<rparr>"
  by (simp add: column_at_def len_state_def zero_varkey_def)

lemma column_len_state: "p < 4 \<Longrightarrow> column_at xs p = len_state xs p"
  by (simp add: column_at_def len_state_def)

lemma len_state_simps [simp]:
  "vk_ready (len_state xs p) = False" "vk_len_bytes (len_state xs 4) = ser_write_32bit_le (of_nat (length xs))"
  "vk_len_len (len_state xs p) = of_nat p"
  by (simp_all add: len_state_def zero_varkey_def)

lemma small_byte_eq_4:
  assumes p: "p \<le> 4"
  shows "((of_nat p :: byte) = 4) = (p = 4)"
proof
  assume 4: "(of_nat p :: byte) = 4"
  have "unat (of_nat p :: byte) = p" using p by (simp add: unat_of_nat)
  with 4 show "p = 4" by simp
qed simp

lemma consume_column:
  assumes "p < 4" and "unat lw \<le> N" and "unat (cm_wnd_size cmp) = N" and "N \<le> length (cm_wnd cmp)"
    and "\<forall>j. unat lw + j < N \<and> p + j < 4 \<longrightarrow>
      cm_wnd cmp ! (unat lw + j) = len_prefixed xs ! (p + j)"
  defines "p' \<equiv> min 4 (p + (N - unat lw))"
  shows "consume_varsize_bytes (context_at ko ys xs p) cmp lw = Some (context_at ko ys xs p', lw + of_nat (p' - p))"
proof -
  have p': "p' \<le> 4" by (simp add: p'_def)
  have "column_at xs p' = (if p' = 4 then (len_state xs p')\<lparr>vk_key_size := of_nat (length xs), vk_ready := True\<rparr>
      else len_state xs p')"
    using p' column_ready column_len_state [of p'] by auto
  moreover have "read_len_bytes (cm_wnd cmp) (cm_wnd_size cmp) (len_state xs p) lw =
      Some (len_state xs p', lw + of_nat (p' - p))"
    unfolding p'_def by (rule read_len_run) (use assms(1-5) in simp_all)
  ultimately show ?thesis
    using small_byte_eq_4 [OF p'] assms(1)
    by (simp add: consume_varsize_bytes_def context_at_def curr_varkey_def set_curr_varkey_def
        column_len_state del: of_nat_diff)
qed

text \<open>The pointer to a window may have more bytes behind it.\<close>

definition cmp_for :: "bytes \<Rightarrow> bytes \<Rightarrow> u32 \<Rightarrow> bytes \<Rightarrow> u32 \<Rightarrow> nat \<Rightarrow> comparison" where
  "cmp_for w junk tot key key_size q = \<lparr>cm_wnd = w @ junk, cm_wnd_size = of_nat (length w), cm_total_size = tot,
     cm_offset = 0, cm_payload = key, cm_payload_size = key_size, cm_bytes_compared = of_nat q,
     cm_out_bytes_compared = 0, cm_out_key_size_remaining = 0\<rparr>"

text \<open>A stored record: a header the schema skips, one column, and what comes behind it.\<close>

definition record_of :: "bytes \<Rightarrow> bytes \<Rightarrow> bytes \<Rightarrow> bytes" where
  "record_of hdr xs rest = hdr @ len_prefixed xs @ rest"

lemma record_nth:
  "j < length xs + 4 \<Longrightarrow> record_of hdr xs rest ! (length hdr + j) = len_prefixed xs ! j"
  by (simp add: record_of_def nth_append)

lemma window_start:
  assumes w: "window_at (record_of hdr xs rest) q w" and small: "length (record_of hdr xs rest) < 2147483648"
    and ko: "unat ko = length hdr"
  shows "cmp_window_start (context_at ko ys xs p) (cmp_for w junk tot key key_size q) =
    (if length hdr \<le> q + length w then Some (of_nat (length hdr - q)) else None)"
proof -
  have lw: "q + length w < 2147483648" using w small by (simp add: window_at_def)
  then have u: "unat (of_nat q :: u32) = q" "unat (of_nat (length w) :: u32) = length w"
    "unat (of_nat q + of_nat (length w) :: u32) = q + length w"
    by (simp_all add: unat_u32_of_nat unat_add_ok)
  have "of_nat (length hdr) = ko" using ko by (metis u32_of_nat_unat)
  then have "of_nat (length hdr - q) = ko - of_nat q" if "q \<le> length hdr" using that by simp
  then show ?thesis
    using u ko lw by (auto simp: cmp_window_start_def cmp_for_def context_at_def one_column_def Let_def
        word_less_nat_alt word_le_nat_alt)
qed

lemma cmpbytes_column:
  fixes key key_size tot junk
  assumes w: "window_at (record_of hdr xs rest) q w" and small: "length (record_of hdr xs rest) < 2147483648"
    and ko: "unat ko = length hdr" and q: "q \<le> length hdr + 4 + length xs"
  defines "cmp \<equiv> cmp_for w junk tot key key_size q"
    and "s \<equiv> length hdr + 4 - q" and "c \<equiv> q - (length hdr + 4)"
  shows "q + length w < length hdr + 4 \<Longrightarrow>
      \<exists>kb. cmpbytes (context_at ko ys xs (q - length hdr)) cmp =
        Some (context_at ko ys xs (q + length w - length hdr), kb) \<and> kb_not_in_window kb"
    and "length hdr + 4 \<le> q + length w \<Longrightarrow>
      cmpbytes (context_at ko ys xs (q - length hdr)) cmp =
        Some (context_at ko ys xs (4 + c), \<lparr>kb_bytes = drop s (w @ junk),
          kb_nbytes = of_nat (min (length w - s) (length xs - c)), kb_lwnd = of_nat s, kb_not_in_window = False,
          kb_has_more = s + min (length w - s) (length xs - c) < length w\<rparr>)"
proof -
  let ?h = "length hdr" and ?p = "q - length hdr"
  have sizes: "q + length w < 2147483648" "?h + 4 + length xs < 2147483648"
    using w small by (simp_all add: window_at_def record_of_def)
  have wsz: "unat (cm_wnd_size cmp) = length w" "cm_wnd cmp = w @ junk" "cm_wnd_size cmp = of_nat (length w)"
    using sizes by (simp_all add: cmp_def cmp_for_def unat_u32_of_nat)
  note start = window_start [OF w small ko, where tot = tot and key = key and key_size = key_size and junk = junk, folded cmp_def]
  have column: "kd_type (ls_key_definitions (lc_schema (context_at ko ys xs p)) ! 0) = IBTLSK_TYPE_VARSIZE"
    "lc_curr_key (context_at ko ys xs p) = 0" "length (ls_key_definitions (lc_schema (context_at ko ys xs p))) = 8" for p
    by (simp_all add: context_at_def one_column_def)
  have bytes: "w ! (?h - q + j) = len_prefixed xs ! (?p + j)"
    if "?h \<le> q + length w" "?h - q + j < length w" "?p + j < 4" for j
  proof -
    have eq: "q + (?h - q + j) = ?h + (?p + j)" using that(1) by simp
    have "w ! (?h - q + j) = record_of hdr xs rest ! (q + (?h - q + j))"
      using w that(2) unfolding window_at_def by blast
    also have "\<dots> = len_prefixed xs ! (?p + j)"
      unfolding eq by (rule record_nth) (use that(3) in simp)
    finally show ?thesis .
  qed
  have consume: "consume_varsize_bytes (context_at ko ys xs ?p) cmp (of_nat (?h - q)) =
      Some (context_at ko ys xs (min 4 (?p + (length w - (?h - q)))),
        of_nat (?h - q) + of_nat (min 4 (?p + (length w - (?h - q))) - ?p))"
    if "?h \<le> q + length w" "?p < 4"
  proof -
    have u: "unat (of_nat (?h - q) :: u32) = ?h - q"
      using sizes by (intro unat_u32_of_nat) simp
    show ?thesis
      using consume_column [OF that(2), of "of_nat (?h - q)" "length w" cmp xs ko ys] bytes [OF that(1)] that wsz
      unfolding u by (simp add: nth_append del: of_nat_diff)
  qed
  show "\<exists>kb. cmpbytes (context_at ko ys xs (q - length hdr)) cmp =
        Some (context_at ko ys xs (q + length w - length hdr), kb) \<and> kb_not_in_window kb"
    if "q + length w < ?h + 4"
  proof (cases "?h \<le> q + length w")
    case False
    then show ?thesis by (simp add: cmpbytes_def start no_key_bytes_def)
  next
    case True
    have p: "?p < 4" "min 4 (?p + (length w - (?h - q))) = q + length w - ?h"
      using that True by simp_all
    have "\<not> vk_ready (column_at xs (q + length w - ?h))"
      using column_len_state [of "q + length w - ?h" xs] that True by simp
    then have nr: "curr_varkey (context_at ko ys xs (q + length w - ?h)) = Some (column_at xs (q + length w - ?h))"
      "\<not> vk_ready (column_at xs (q + length w - ?h))"
      by (simp_all add: curr_varkey_def context_at_def)
    show ?thesis
      using True column by (simp add: cmpbytes_def start consume [OF True p(1), unfolded p(2)] nr no_key_bytes_def)
  qed
  show "cmpbytes (context_at ko ys xs (q - length hdr)) cmp =
        Some (context_at ko ys xs (4 + c), \<lparr>kb_bytes = drop s (w @ junk),
          kb_nbytes = of_nat (min (length w - s) (length xs - c)), kb_lwnd = of_nat s, kb_not_in_window = False,
          kb_has_more = s + min (length w - s) (length xs - c) < length w\<rparr>)"
    if fits: "?h + 4 \<le> q + length w"
  proof -
    have "consume_varsize_bytes (context_at ko ys xs ?p) cmp (of_nat (?h - q)) =
        Some (context_at ko ys xs (4 + c), of_nat s)"
    proof (cases "?p < 4")
      case True
      have "min 4 (?p + (length w - (?h - q))) = 4 + c" "?h - q + (4 + c - ?p) = s"
        using fits True by (simp_all add: c_def s_def)
      with consume [OF _ True] fits show ?thesis by (simp del: of_nat_diff flip: of_nat_add)
    next
      case False
      then have "4 + c = ?p" "?h - q = 0" "s = 0" by (simp_all add: c_def s_def)
      with False show ?thesis
        by (simp add: consume_varsize_bytes_def curr_varkey_def context_at_def column_at_def)
    qed
    moreover have "curr_varkey (context_at ko ys xs (4 + c)) = Some \<lparr>vk_len_bytes = ser_write_32bit_le (of_nat (length xs)),
        vk_len_len = 4, vk_key_size = of_nat (length xs), vk_ready = True, vk_consumed_size = of_nat c\<rparr>"
      by (simp add: curr_varkey_def context_at_def column_at_def)
    moreover have "c_min (of_nat (length w) - of_nat s) (of_nat (length xs) - of_nat c) =
        (of_nat (min (length w - s) (length xs - c)) :: u32)"
    proof -
      have le: "s \<le> length w" "c \<le> length xs" using fits q by (simp_all add: s_def c_def)
      have "unat (of_nat (length w - s) :: u32) = length w - s" "unat (of_nat (length xs - c) :: u32) = length xs - c"
        using sizes by (intro unat_u32_of_nat; simp)+
      then have "unat (c_min (of_nat (length w - s)) (of_nat (length xs - c))) = min (length w - s) (length xs - c)"
        using sizes by (subst unat_c_min) simp_all
      then show ?thesis using le by (metis of_nat_diff u32_of_nat_unat)
    qed
    moreover have "(of_nat s + of_nat (min (length w - s) (length xs - c)) < (of_nat (length w) :: u32)) =
        (s + min (length w - s) (length xs - c) < length w)"
    proof -
      have "s + min (length w - s) (length xs - c) \<le> length w" using fits by (simp add: s_def)
      then have "unat (of_nat (s + min (length w - s) (length xs - c)) :: u32) = s + min (length w - s) (length xs - c)"
        "unat (of_nat (length w) :: u32) = length w"
        using sizes by (intro unat_u32_of_nat; simp)+
      then show ?thesis by (simp only: word_less_nat_alt flip: of_nat_add)
    qed
    moreover have "unat (of_nat s :: u32) = s" "s \<le> length w"
      using fits sizes by (simp_all add: s_def unat_u32_of_nat del: of_nat_diff)
    ultimately show ?thesis
      using fits column wsz by (simp add: cmpbytes_def start Let_def del: of_nat_diff)
  qed
qed

lemma window_column:
  assumes w: "window_at (record_of hdr xs rest) q w" and n: "n \<le> length w - s" "n \<le> length xs - c"
    and sc: "q + s = length hdr + 4 + c" "s \<le> length w" "c \<le> length xs"
  shows "take n (drop s w) = take n (drop c xs)"
proof (rule nth_equalityI)
  show "length (take n (drop s w)) = length (take n (drop c xs))" using n by simp
  fix j assume "j < length (take n (drop s w))"
  then have j: "j < n" "s + j < length w" using n sc by auto
  have "w ! (s + j) = record_of hdr xs rest ! (q + (s + j))"
    using w j(2) unfolding window_at_def by blast
  also have "q + (s + j) = length hdr + (4 + c + j)" using sc(1) by simp
  also have "record_of hdr xs rest ! \<dots> = len_prefixed xs ! (4 + c + j)"
    by (rule record_nth) (use j n sc in simp)
  also have "\<dots> = xs ! (c + j)" by (simp add: len_prefixed_def nth_append add.assoc)
  finally show "take n (drop s w) ! j = take n (drop c xs) ! j" using j n sc by simp
qed

lemma compare_round_column:
  fixes key_size tot mc junk
  assumes w: "window_at (record_of hdr xs rest) q w" and small: "length (record_of hdr xs rest) < 2147483648"
    and ko: "unat ko = length hdr" and q: "q \<le> length hdr + 4 + length xs"
    and ys: "length ys + 4 < 2147483648"
  defines "cmp \<equiv> cmp_for w junk tot (len_prefixed ys) key_size q"
    and "s \<equiv> length hdr + 4 - q" and "c \<equiv> q - (length hdr + 4)"
  defines "m \<equiv> min (length w - s) (length xs - c)"
  defines "n \<equiv> min (length ys - c) m"
  defines "d \<equiv> mc (take n (drop c xs)) (take n (drop c ys))"
  assumes c: "c \<le> length ys" and fits: "length hdr + 4 \<le> q + length w"
  shows "compare_round mc (context_at ko ys xs (q - length hdr)) cmp =
    (let ctx = context_at ko ys xs (4 + c + n);
         cmp = cmp\<lparr>cm_out_bytes_compared := of_nat (s + n), cm_offset := of_nat (s + n)\<rparr> in
     Some (if c + n = length ys then ctx\<lparr>lc_curr_key := 1\<rparr> else ctx,
       cmp\<lparr>cm_out_key_size_remaining := if c + n = length ys then 0 else 1\<rparr>,
       if d \<noteq> 0 then Inl d
       else if c + n = length ys then Inl (if length xs = length ys then 0 else 1)
       else Inr (s + m < length w, of_nat n)))"
proof -
  have sizes: "q + length w < 2147483648" "length hdr + 4 + length xs < 2147483648"
    using w small by (simp_all add: window_at_def record_of_def)
  have "n \<le> length w - s" "n \<le> length xs - c" "n \<le> length ys - c" unfolding n_def m_def by linarith+
  moreover have "s \<le> length w" "c \<le> length xs" "q + s = length hdr + 4 + c"
    using fits q by (simp_all add: s_def c_def)
  ultimately have le: "n \<le> length w - s" "n \<le> length xs - c" "n \<le> length ys - c" "s \<le> length w" "c \<le> length xs"
    "q + s = length hdr + 4 + c" by blast+
  have u: "unat (of_nat n :: u32) = n" "unat (of_nat m :: u32) = m" "unat (of_nat (length ys - c) :: u32) = length ys - c"
    "unat (of_nat (4 + c) :: u32) = 4 + c"
    using sizes ys le(1,3) c by (intro unat_u32_of_nat; simp add: m_def)+
  have cmin: "c_min (of_nat (length ys) - of_nat c) (of_nat m) = (of_nat n :: u32)"
  proof -
    have lt: "length ys - c < 2147483648" "m < 2147483648" unfolding m_def using ys sizes by linarith+
    have "unat (c_min (of_nat (length ys - c)) (of_nat m)) = n"
      by (subst unat_c_min) (simp_all only: u lt n_def)
    then show ?thesis using c by (metis of_nat_diff u32_of_nat_unat)
  qed
  have "n < 2147483648" using le(1) sizes by simp
  then have nonneg: "0 \<le>s (of_nat n :: u32)" using u(1) by (simp add: word_sle_eq sint_u32_small)
  have bytes: "take n (drop s (w @ junk)) = take n (drop c xs)"
    using window_column [OF w le(1,2,6,4,5)] le(1) by simp
  note ready = cmpbytes_column(2) [OF w small ko q fits, where key = "len_prefixed ys" and key_size = key_size
      and tot = tot and ys = ys and junk = junk, folded cmp_def s_def c_def, folded m_def]
  have cur: "curr_varkey (context_at ko ys xs (4 + c)) = Some (column_at xs (4 + c))"
    "arr_get (lc_rkeys (context_at ko ys xs (4 + c))) (unat (lc_curr_key (context_at ko ys xs (4 + c)))) =
      Some \<lparr>rk_size = of_nat (length ys), rk_offset = 4\<rparr>"
    "vk_consumed_size (column_at xs (4 + c)) = of_nat c" "vk_key_size (column_at xs (4 + c)) = of_nat (length xs)"
    by (simp_all add: curr_varkey_def context_at_def column_at_def)
  have set: "set_curr_varkey (context_at ko ys xs (4 + c)) ((column_at xs (4 + c))\<lparr>vk_consumed_size := of_nat (c + n)\<rparr>) =
      Some (context_at ko ys xs (4 + c + n))" "lc_curr_key (context_at ko ys xs (4 + c + n)) = 0"
      "lc_nvarkeys (context_at ko ys xs (4 + c + n)) = 1"
    by (simp_all add: set_curr_varkey_def context_at_def column_at_def)
  have key: "keybytes (context_at ko ys xs (4 + c)) cmp =
      Some (no_key_bytes\<lparr>kb_bytes := drop c ys, kb_nbytes := of_nat (length ys) - of_nat c\<rparr>)"
    using c u(4) by (simp add: keybytes_def cur cmp_def cmp_for_def len_prefixed_def Let_def)
  have done_iff: "((of_nat c + of_nat n :: u32) = of_nat (length ys)) = (c + n = length ys)"
    "((of_nat c + of_nat n :: u32) = of_nat (length xs)) = (c + n = length xs)"
  proof -
    have "unat (of_nat (c + n) :: u32) = c + n" "unat (of_nat (length ys) :: u32) = length ys"
      "unat (of_nat (length xs) :: u32) = length xs"
      using sizes ys le c by (intro unat_u32_of_nat; simp)+
    then show "((of_nat c + of_nat n :: u32) = of_nat (length ys)) = (c + n = length ys)"
      "((of_nat c + of_nat n :: u32) = of_nat (length xs)) = (c + n = length xs)"
      by (metis of_nat_add)+
  qed
  have zero: "cm_out_bytes_compared cmp = 0" "cm_offset cmp = 0" by (simp_all add: cmp_def cmp_for_def)
  have room: "n \<le> length w + length junk - s" using le(1) by simp
  show ?thesis
    using le ready cur set key cmin nonneg u(1) bytes done_iff c zero room
    by (simp add: compare_round_def mem_read_def no_key_bytes_def Let_def d_def)
qed

section \<open>The verdict of one window\<close>

lemma memcmp_same_prefix: "memcmp (us @ as) (us @ bs) = memcmp as bs"
  by (induction us) simp_all

lemma memcmp_chunk: "memcmp (take n as) (take n bs) \<noteq> 0 \<Longrightarrow> memcmp as bs = memcmp (take n as) (take n bs)"
proof (induction as bs arbitrary: n rule: memcmp.induct)
  case (1 x xs y ys)
  then show ?case by (cases n) auto
qed auto

lemma memcmp_0_eq: "length as = length bs \<Longrightarrow> memcmp as bs = 0 \<longleftrightarrow> as = bs"
  by (induction as bs rule: list_induct2) auto

text \<open>What the bytes from \<open>c\<close> to \<open>c + n\<close> tell when all before them agree.\<close>

lemma chunk_verdict:
  assumes mc: "is_memcmp mc" and same: "take c xs = take c ys"
    and n: "n \<le> length xs - c" "n \<le> length ys - c"
  defines "d \<equiv> mc (take n (drop c xs)) (take n (drop c ys))"
  shows "d \<noteq> 0 \<Longrightarrow> sgn d = compare3 xs ys" and "d = 0 \<Longrightarrow> take (c + n) xs = take (c + n) ys"
proof -
  have len: "length (take n (drop c xs)) = length (take n (drop c ys))" using n by simp
  then have sgn: "sgn d = memcmp (take n (drop c xs)) (take n (drop c ys))"
    using mc by (simp add: is_memcmp_def d_def)
  show "sgn d = compare3 xs ys" if "d \<noteq> 0"
  proof -
    have ne: "memcmp (take n (drop c xs)) (take n (drop c ys)) \<noteq> 0" using sgn that by (metis sgn_0_0)
    have "memcmp xs ys = memcmp (take c xs @ drop c xs) (take c ys @ drop c ys)" by simp
    also have "\<dots> = memcmp (drop c xs) (drop c ys)" unfolding same by (rule memcmp_same_prefix)
    also have "\<dots> = sgn d" unfolding sgn by (rule memcmp_chunk [OF ne])
    finally show ?thesis using that by (simp add: memcmp_compare3 sgn_0_0)
  qed
  show "take (c + n) xs = take (c + n) ys" if "d = 0"
    using memcmp_0_eq [OF len] sgn that same by (simp add: take_add)
qed

definition agree_upto :: "bytes \<Rightarrow> bytes \<Rightarrow> nat \<Rightarrow> bool" where
  "agree_upto xs ys p \<longleftrightarrow> p \<le> 4 + length xs \<and> p \<le> 4 + length ys \<and> take (p - 4) xs = take (p - 4) ys"

lemma window_used_up:
  fixes q h lw lx ly s c m n :: nat
  assumes "s = h + 4 - q" and "c = q - (h + 4)" and "m = min (lw - s) (lx - c)" and "n = min (ly - c) m"
    and "h + 4 \<le> q + lw" and "c \<le> lx" and "c \<le> ly" and "c + n \<noteq> ly" and "c + n \<noteq> lx" and "0 < lw"
    and "q + lw \<noteq> h + 4"
  shows "n = m" "s + m = lw" "n \<noteq> 0" "4 + c + n = q + lw - h" "c + n < lx" "q + lw < h + 4 + lx"
proof -
  show nm: "n = m" using assms(4,7,8) by (simp add: min_def split: if_splits)
  have m: "m = lw - s" "m \<le> lx - c" using assms(3,6,9) nm by (simp_all add: min_def split: if_splits)
  have s: "s < lw" "q + s = h + 4 + c" using assms(1,2,5,10,11) by arith+
  show sm: "s + m = lw" and "n \<noteq> 0" using m(1) s(1) nm by simp_all
  show cn: "c + n < lx" using m(2) nm assms(6,9) by simp
  show at: "4 + c + n = q + lw - h" using sm s(2) nm by simp
  show "q + lw < h + 4 + lx" using at cn by simp
qed

lemma compare_window:
  fixes key_size tot junk
  assumes w: "window_at (record_of hdr xs rest) q w" and small: "length (record_of hdr xs rest) < 2147483648"
    and ko: "unat ko = length hdr" and ys: "length ys + 4 < 2147483648" and mc: "is_memcmp mc"
    and agree: "agree_upto xs ys (q - length hdr)" and cut: "q + length w \<noteq> length hdr + 4"
    and prefix: "\<not> strict_prefix xs ys"
  defines "out \<equiv> ibtls_compare mc (context_at ko ys xs (q - length hdr)) (w @ junk) (of_nat (length w)) tot
    (len_prefixed ys) key_size (of_nat q)"
  shows "(\<exists>r k rem ctx. out = Some (r, k, rem, ctx) \<and> sgn r = compare3 xs ys \<and> (r \<noteq> 0 \<or> rem = 0) \<and> (q = 0 \<longrightarrow> k \<noteq> 0)) \<or>
    out = Some (0, of_nat (length w), 1, context_at ko ys xs (q + length w - length hdr)) \<and>
    q + length w < length hdr + 4 + length xs \<and>
    agree_upto xs ys (q + length w - length hdr)"
proof -
  let ?h = "length hdr"
  let ?cmp = "cmp_for w junk tot (len_prefixed ys) key_size q"
  have out: "out = do { (result, cmp, ctx) \<leftarrow> compare_rounds mc (context_at ko ys xs (q - ?h)) ?cmp;
      Some (result, cm_out_bytes_compared cmp, cm_out_key_size_remaining cmp, ctx) }"
    by (simp add: out_def ibtls_compare_def init_if_not_def context_at_def cmp_for_def)
  show ?thesis
  proof (cases "q + length w < ?h + 4")
    case True
    have q: "q \<le> ?h + 4 + length xs" using True by simp
    obtain kb where "cmpbytes (context_at ko ys xs (q - ?h)) ?cmp =
        Some (context_at ko ys xs (q + length w - ?h), kb)" "kb_not_in_window kb"
      using cmpbytes_column(1) [OF w small ko q True] by blast
    then have "compare_rounds mc (context_at ko ys xs (q - ?h)) ?cmp = Some (0,
        ?cmp\<lparr>cm_out_key_size_remaining := 1, cm_out_bytes_compared := of_nat (length w)\<rparr>,
        context_at ko ys xs (q + length w - ?h))"
      by (subst compare_rounds.simps) (simp add: compare_round_def cmp_for_def)
    moreover have "agree_upto xs ys (q + length w - ?h)" using True by (simp add: agree_upto_def) linarith
    ultimately show ?thesis using True out by simp
  next
    case False
    then have fits: "?h + 4 \<le> q + length w" by simp
    define s c where "s = ?h + 4 - q" and "c = q - (?h + 4)"
    define m where "m = min (length w - s) (length xs - c)"
    define n where "n = min (length ys - c) m"
    define d where "d = mc (take n (drop c xs)) (take n (drop c ys))"
    have q: "q \<le> ?h + 4 + length xs" "c \<le> length ys" "c \<le> length xs" and same: "take c xs = take c ys"
      and pos: "q - ?h - 4 = c"
      using agree by (auto simp: agree_upto_def c_def)
    note round = compare_round_column [OF w small ko q(1) ys, where tot = tot and key_size = key_size and mc = mc and junk = junk,
        folded s_def c_def, folded m_def, folded n_def, folded d_def, OF q(2) fits]
    have n: "n \<le> length xs - c" "n \<le> length ys - c" unfolding n_def m_def by linarith+
    note V = chunk_verdict [OF mc same n, folded d_def]
    show ?thesis
    proof (cases "d \<noteq> 0 \<or> c + n = length ys")
      case True
      define v :: int where "v = (if d \<noteq> 0 then d else if length xs = length ys then 0 else 1)"
      have "n \<le> length xs - c" unfolding n_def m_def by linarith
      then have "s + n < 4294967296" using small q(3) by (simp add: s_def record_of_def)
      then have "unat (of_nat (s + n) :: u32) = s + n" by (rule unat_u32_of_nat)
      then have "q = 0 \<Longrightarrow> (of_nat (s + n) :: u32) \<noteq> 0" by (auto simp: s_def simp del: of_nat_add)
      with True have "\<exists>k rem ctx. out = Some (v, k, rem, ctx) \<and> (v \<noteq> 0 \<or> rem = 0) \<and> (q = 0 \<longrightarrow> k \<noteq> 0)"
        unfolding out v_def by (subst compare_rounds.simps) (cases "d = 0"; simp add: round Let_def)
      moreover have "sgn v = compare3 xs ys"
      proof (cases "d = 0")
        case d: True
        with True have "c + n = length ys" by simp
        with V(2) [OF d] have "take (length ys) xs = ys" by simp
        then have "xs = ys @ drop (length ys) xs" by (metis append_take_drop_id)
        then obtain zs where zs: "xs = ys @ zs" by blast
        have "memcmp xs ys = 0" unfolding zs using memcmp_same_prefix [of ys zs "[]"] by simp
        then show ?thesis using d by (simp add: memcmp_compare3 zs compare3_def v_def)
      qed (use V(1) in \<open>simp add: v_def\<close>)
      ultimately show ?thesis by blast
    next
      case False
      then have d: "d = 0" "c + n \<noteq> length ys" by simp_all
      note eq = V(2) [OF d(1)]
      have "c + n \<noteq> length xs"
      proof
        assume len: "c + n = length xs"
        with eq have "xs = take (length xs) ys" by simp
        then have "prefix xs ys" by (metis take_is_prefix)
        moreover have "xs \<noteq> ys" using d(2) len by auto
        ultimately show False using prefix by (simp add: strict_prefix_def)
      qed
      moreover have "0 < length w" using w by (simp add: window_at_def)
      note A = window_used_up [OF s_def c_def m_def n_def fits q(3,2) d(2) calculation this cut]
      have "n \<le> length w" using A(1,2) by simp
      then have "n < 4294967296" using w small by (simp add: window_at_def)
      then have "unat (of_nat n :: u32) = n" by (simp add: unat_u32_of_nat)
      then have nz: "(of_nat n :: u32) \<noteq> 0" using A(3) by (metis unat_0)
      have more: "(s + m < length w) = False" "s + n = length w" using A(1,2) by simp_all
      have "compare_rounds mc (context_at ko ys xs (q - ?h)) ?cmp = Some (0,
          ?cmp\<lparr>cm_out_bytes_compared := of_nat (length w), cm_offset := of_nat (length w),
            cm_out_key_size_remaining := 1\<rparr>, context_at ko ys xs (q + length w - ?h))"
        using d nz unfolding A(4) [symmetric]
        by (subst compare_rounds.simps) (simp add: round [unfolded more] Let_def del: of_nat_add)
      moreover have "agree_upto xs ys (q + length w - ?h)"
      proof -
        have "c + n \<le> length xs" "c + n \<le> length ys" using n q(2,3) by linarith+
        then show ?thesis using eq unfolding A(4) [symmetric] agree_upto_def by simp
      qed
      ultimately show ?thesis using A(6) unfolding out by simp
    qed
  qed
qed

section \<open>A record in windows\<close>

text \<open>
  What the callers do with the windows of a record, the inline part of its cell and its overflow
  pages: compare until there is a verdict.  A window comes with what lies behind it in memory.
\<close>

primrec stream_compare ::
  "('c \<Rightarrow> bytes \<Rightarrow> u32 \<Rightarrow> u32 \<Rightarrow> bytes \<Rightarrow> u32 \<Rightarrow> u32 \<Rightarrow> (int \<times> u32 \<times> u32 \<times> 'c) option)
   \<Rightarrow> u32 \<Rightarrow> bytes \<Rightarrow> u32 \<Rightarrow> 'c \<Rightarrow> u32 \<Rightarrow> (bytes \<times> bytes) list \<Rightarrow> (int \<times> 'c) option" where
  "stream_compare cmp tot key key_size ctx done [] = None"
| "stream_compare cmp tot key key_size ctx done (w # ws) = do {
     (result, count, remaining, ctx) \<leftarrow>
       cmp ctx (fst w @ snd w) (of_nat (length (fst w))) tot key key_size done;
     if result \<noteq> 0 \<or> ws = [] \<or> \<not> done + count < tot \<or> remaining = 0 then Some (result, ctx)
     else stream_compare cmp tot key key_size ctx (done + count) ws
   }"

abbreviation window_bytes :: "(bytes \<times> bytes) list \<Rightarrow> bytes" where
  "window_bytes ws \<equiv> concat (map fst ws)"

lemma stream_column:
  assumes "length (record_of hdr xs rest) < 2147483648" and "unat ko = length hdr"
    and "length ys + 4 < 2147483648" and "is_memcmp mc" and "\<not> strict_prefix xs ys"
    and "agree_upto xs ys (length done - length hdr)"
    and "done @ window_bytes ws = record_of hdr xs rest" and "\<forall>w \<in> set ws. fst w \<noteq> []" and "ws \<noteq> []"
    and "\<forall>us vs. ws = us @ vs \<longrightarrow> us \<noteq> [] \<longrightarrow> length done + length (window_bytes us) \<noteq> length hdr + 4"
  shows "\<exists>r ctx. stream_compare (ibtls_compare mc) (of_nat (length (record_of hdr xs rest))) (len_prefixed ys) key_size
      (context_at ko ys xs (length done - length hdr)) (of_nat (length done)) ws = Some (r, ctx) \<and>
    sgn r = compare3 xs ys"
  using assms(6-)
proof (induction ws arbitrary: "done")
  case (Cons w ws)
  let ?tot = "length (record_of hdr xs rest)" and ?q = "length done"
  have rec: "record_of hdr xs rest = done @ fst w @ window_bytes ws" using Cons.prems(2) by simp
  have at: "window_at (record_of hdr xs rest) ?q (fst w)"
    unfolding rec using Cons.prems(3) by (auto simp: window_at_def nth_append)
  have cut: "?q + length (fst w) \<noteq> length hdr + 4"
    using Cons.prems(5) [rule_format, of "[w]" ws] by simp
  let ?step = "ibtls_compare mc (context_at ko ys xs (?q - length hdr)) (fst w @ snd w) (of_nat (length (fst w)))
      (of_nat ?tot) (len_prefixed ys) key_size (of_nat ?q)"
  from compare_window [OF at assms(1-4) Cons.prems(1) cut assms(5)]
  consider (verdict) r k rem ctx where "?step = Some (r, k, rem, ctx)" "sgn r = compare3 xs ys" "r \<noteq> 0 \<or> rem = 0"
    | (more) "?step = Some (0, of_nat (length (fst w)), 1, context_at ko ys xs (?q + length (fst w) - length hdr))"
      "?q + length (fst w) < length hdr + 4 + length xs" "agree_upto xs ys (?q + length (fst w) - length hdr)"
    by blast
  then show ?case
  proof cases
    case verdict
    then show ?thesis by auto
  next
    case more
    have "?q + length (fst w) < ?tot" using more(2) by (simp add: record_of_def)
    moreover have "unat (of_nat (?q + length (fst w)) :: u32) = ?q + length (fst w)" "unat (of_nat ?tot :: u32) = ?tot"
      using assms(1) calculation by (intro unat_u32_of_nat; simp)+
    ultimately have lt: "(of_nat ?q + of_nat (length (fst w)) < (of_nat ?tot :: u32))"
      by (simp only: word_less_nat_alt flip: of_nat_add)
    have ne: "ws \<noteq> []"
      using \<open>?q + length (fst w) < ?tot\<close> rec by auto
    have "\<exists>r ctx. stream_compare (ibtls_compare mc) (of_nat ?tot) (len_prefixed ys) key_size
        (context_at ko ys xs (length (done @ fst w) - length hdr)) (of_nat (length (done @ fst w))) ws =
        Some (r, ctx) \<and> sgn r = compare3 xs ys"
    proof (rule Cons.IH)
      show "\<forall>us vs. ws = us @ vs \<longrightarrow> us \<noteq> [] \<longrightarrow>
          length (done @ fst w) + length (window_bytes us) \<noteq> length hdr + 4"
      proof (intro allI impI)
        fix us vs assume "ws = us @ vs"
        then show "length (done @ fst w) + length (window_bytes us) \<noteq> length hdr + 4"
          using Cons.prems(5) [rule_format, of "w # us" vs] by simp
      qed
    qed (use more Cons.prems ne in simp_all)
    then show ?thesis using more(1) lt ne by simp
  qed
qed simp

text \<open>
  C30: a record that is compared with a key by a schema of one column of variable size gets the sign
  of the lexicographic order of the two columns, however the record is cut into windows, unless the
  stored column is a proper prefix of the key or a window ends right behind the length of the
  column.
\<close>

theorem ibtls_stream_lexicographic:
  assumes "is_memcmp mc" and "window_bytes ws = hdr @ len_prefixed xs @ rest"
    and "length (window_bytes ws) < 2147483648"
    and "length ys + 4 < 2147483648" and "\<forall>w \<in> set ws. fst w \<noteq> []"
    and "\<forall>us vs. ws = us @ vs \<longrightarrow> length (window_bytes us) \<noteq> length hdr + 4"
    and "\<not> strict_prefix xs ys"
  shows "\<exists>r ctx. stream_compare (ibtls_compare mc) (of_nat (length (window_bytes ws))) (len_prefixed ys) key_size
      (ibtls_init_compare_context_from_schema (one_column (of_nat (length hdr))) type) 0 ws = Some (r, ctx) \<and>
    sgn r = compare3 xs ys"
proof -
  have ne: "ws \<noteq> []" using assms(2) by auto
  have "length hdr < 2147483648" using assms(2,3) by simp
  then have "unat (of_nat (length hdr) :: u32) = length hdr" by (simp add: unat_u32_of_nat)
  with stream_column [of hdr xs rest "of_nat (length hdr)" ys mc "[]" ws] assms ne
  have "\<exists>r ctx. stream_compare (ibtls_compare mc) (of_nat (length (window_bytes ws))) (len_prefixed ys) key_size
      (context_at (of_nat (length hdr)) ys xs 0) 0 ws = Some (r, ctx) \<and> sgn r = compare3 xs ys"
    by (simp add: agree_upto_def record_of_def)
  moreover have "length ys < 2147483648" using assms(4) by simp
  ultimately show ?thesis
    using ne by (cases ws) (simp_all add: compare_fresh [where xs = xs])
qed

text \<open>
  C31: a stored column that is a proper prefix of the key's is taken for equal when the window ends with it,
  and ends in a failed assertion when bytes follow it.  The branch that should say that the stored
  bytes are shorter is never reached.
\<close>

theorem ibtls_compare_proper_prefix:
  assumes "is_memcmp mc" and "strict_prefix xs ys" and "xs \<noteq> []"
    and "length (hdr @ len_prefixed xs @ rest) < 2147483648" and "length ys + 4 < 2147483648"
  defines "w \<equiv> hdr @ len_prefixed xs @ rest"
  shows "ibtls_compare mc (ibtls_init_compare_context_from_schema (one_column (of_nat (length hdr))) type)
      w (of_nat (length w)) tot (len_prefixed ys) key_size 0 =
    (if rest = [] then Some (0, of_nat (length w), 1, context_at (of_nat (length hdr)) ys xs (4 + length xs)) else None)"
proof -
  let ?h = "length hdr" and ?ctx = "context_at (of_nat (length hdr)) ys xs"
  let ?cmp = "cmp_for w [] tot (len_prefixed ys) key_size 0"
  have ko: "unat (of_nat ?h :: u32) = ?h" using assms(4) by (simp add: unat_u32_of_nat)
  have rec: "record_of hdr xs rest = w" by (simp add: record_of_def w_def)
  have at: "window_at (record_of hdr xs rest) 0 w" using assms(3) by (auto simp: rec window_at_def w_def)
  have len: "length xs < length ys" "take (length xs) ys = xs" "0 < length xs"
    using assms(2,3) by (auto simp: strict_prefix_def prefix_def)
  have mc0: "mc xs xs = 0" "mc [] [] = 0"
    using assms(1) memcmp_0_eq [of xs xs] by (simp_all add: is_memcmp_def) (metis memcmp_0_eq sgn_0_0)+
  have m: "min (length w - (?h + 4)) (length xs) = length xs" by (simp add: w_def)
  have end_xs: "?h + 4 + length xs \<le> length w" "length w - (?h + 4 + length xs) = length rest" by (simp_all add: w_def)
  note round = compare_round_column [OF at _ ko _ assms(5), where tot = tot and key_size = key_size and mc = mc and junk = "[]",
      unfolded rec]
  have first: "compare_round mc (?ctx 0) ?cmp = Some (?ctx (4 + length xs),
      ?cmp\<lparr>cm_out_bytes_compared := of_nat (?h + 4 + length xs), cm_offset := of_nat (?h + 4 + length xs),
        cm_out_key_size_remaining := 1\<rparr>, Inr (rest \<noteq> [], of_nat (length xs)))"
  proof -
    have d: "min (length ys) (length xs) = length xs" using len(1) by simp
    have "(?h + 4 + length xs < length w) = (rest \<noteq> [])" using end_xs by (cases rest) auto
    moreover have "length w < 2147483648" using assms(4) by (simp add: w_def)
    ultimately show ?thesis
      using round end_xs(1) len m mc0 d by (simp add: Let_def)
  qed
  let ?pos = "of_nat (?h + 4 + length xs) :: u32"
  have pos: "unat ?pos = ?h + 4 + length xs" "unat (of_nat (length w) :: u32) = length w"
    using assms(4) end_xs by (intro unat_u32_of_nat; simp add: w_def)+
  have second: "\<exists>ctx' cmp' more. compare_round mc (?ctx (4 + length xs)) (?cmp\<lparr>cm_out_bytes_compared := ?pos, cm_offset := ?pos,
      cm_out_key_size_remaining := 1\<rparr>) = Some (ctx', cmp', Inr (more, 0))"
  proof -
    have start: "cmp_window_start (?ctx (4 + length xs)) (?cmp\<lparr>cm_out_bytes_compared := ?pos, cm_offset := ?pos,
        cm_out_key_size_remaining := 1\<rparr>) = Some ?pos"
      using pos ko by (simp add: cmp_window_start_def cmp_for_def context_at_def one_column_def Let_def word_less_nat_alt del: of_nat_add)
    have "c_min (of_nat (length ys) - of_nat (length xs)) 0 = (0 :: u32)"
    proof -
      have "unat (c_min (of_nat (length ys - length xs)) 0) = 0"
        using assms(5) by (subst unat_c_min) (simp_all add: unat_u32_of_nat del: of_nat_diff)
      then show ?thesis using len(1) by (metis of_nat_diff less_imp_le unat_eq_0)
    qed
    moreover have "c_min (of_nat (length w) - ?pos) 0 = (0 :: u32)"
    proof -
      have "length w - (?h + 4 + length xs) < 2147483648" using assms(4) by (simp add: w_def)
      then have "unat (c_min (of_nat (length w - (?h + 4 + length xs))) 0) = 0"
        by (subst unat_c_min) (simp_all add: unat_u32_of_nat del: of_nat_diff)
      then show ?thesis using end_xs(1) by (metis of_nat_diff unat_eq_0)
    qed
    moreover have "(of_nat (length xs) :: u32) \<noteq> of_nat (length ys)"
      using len(1) assms(4,5) unat_u32_of_nat [of "length xs"] unat_u32_of_nat [of "length ys"] by auto
    moreover have "unat (4 + of_nat (length xs) :: u32) = 4 + length xs"
      using assms(4) unat_u32_of_nat [of "4 + length xs"] by simp
    ultimately show ?thesis
      using start pos len mc0 end_xs
      by (simp add: compare_round_def cmpbytes_def context_at_def one_column_def consume_varsize_bytes_def
          curr_varkey_def set_curr_varkey_def column_at_def cmp_for_def keybytes_def mem_read_def
          no_key_bytes_def Let_def del: of_nat_add)
  qed
  have fresh: "length ys < 2147483648" using assms(5) by simp
  have run: "ibtls_compare mc (?ctx 0) w (of_nat (length w)) tot (len_prefixed ys) key_size 0 =
      do { (result, cmp, ctx) \<leftarrow> compare_rounds mc (?ctx 0) ?cmp;
        Some (result, cm_out_bytes_compared cmp, cm_out_key_size_remaining cmp, ctx) }"
    by (simp add: ibtls_compare_def init_if_not_def context_at_def cmp_for_def)
  have nz: "(of_nat (length xs) :: u32) \<noteq> 0"
  proof -
    have "length xs < 4294967296" using assms(4) by simp
    then show ?thesis using len(3) unat_u32_of_nat [of "length xs"] by auto
  qed
  show ?thesis
  proof (cases "rest = []")
    case True
    then show ?thesis
      unfolding compare_fresh [OF fresh, where xs = xs] run using first nz pos end_xs
      by (subst compare_rounds.simps) (simp add: w_def)
  next
    case False
    from second obtain ctx' cmp' more where "compare_round mc (?ctx (4 + length xs)) (?cmp\<lparr>cm_out_bytes_compared := ?pos,
        cm_offset := ?pos, cm_out_key_size_remaining := 1\<rparr>) = Some (ctx', cmp', Inr (more, 0))" by blast
    then have "compare_rounds mc (?ctx (4 + length xs)) (?cmp\<lparr>cm_out_bytes_compared := ?pos, cm_offset := ?pos,
        cm_out_key_size_remaining := 1\<rparr>) = None"
      by (subst compare_rounds.simps) simp
    with False show ?thesis
      unfolding compare_fresh [OF fresh, where xs = xs] run using first nz
      by (subst compare_rounds.simps) simp
  qed
qed

section \<open>Concrete records\<close>

lemma is_memcmp_memcmp: "is_memcmp memcmp"
  unfolding is_memcmp_def
proof (intro allI impI)
  show "sgn (memcmp xs ys) = memcmp xs ys" for xs ys using memcmp_range [of xs ys] by auto
qed

lemma ibtls_stream_lexicographic_witness:
  "\<exists>r ctx. stream_compare (ibtls_compare memcmp) 9 (len_prefixed [1, 9]) 6
      (ibtls_init_compare_context_from_schema (one_column 1) PAYLOAD_COMPARE_TYPE_KEY) 0
      [([7, 3], [8]), ([0, 0, 0, 1], []), ([2, 3, 5], [])] = Some (r, ctx) \<and> sgn r = - 1"
proof -
  let ?ws = "[([7, 3], [8]), ([0, 0, 0, 1], []), ([2, 3, 5], [])] :: (bytes \<times> bytes) list"
  have cuts: "\<forall>us vs. ?ws = us @ vs \<longrightarrow> length (window_bytes us) \<noteq> length [7 :: byte] + 4"
    by (auto simp: Cons_eq_append_conv)
  have "window_bytes ?ws = [7] @ len_prefixed [1, 2, 3] @ [5]"
    by (simp add: len_prefixed_def ser_write_bytes)
  from ibtls_stream_lexicographic [OF is_memcmp_memcmp this _ _ _ cuts, of "[1, 9]" 6 PAYLOAD_COMPARE_TYPE_KEY]
  show ?thesis by (simp add: compare3_def)
qed

lemma ibtls_compare_proper_prefix_witness:
  "ibtls_compare memcmp (ibtls_init_compare_context_from_schema (one_column 0) PAYLOAD_COMPARE_TYPE_KEY)
      (len_prefixed [1, 2]) 6 6 (len_prefixed [1, 2, 3]) 7 0 =
    Some (0, 6, 1, context_at 0 [1, 2, 3] [1, 2] 6)"
proof -
  have "strict_prefix [1, 2] [1, 2, 3 :: byte]" by (simp add: strict_prefix_def)
  from ibtls_compare_proper_prefix [OF is_memcmp_memcmp this, of "[]" "[]" PAYLOAD_COMPARE_TYPE_KEY 6 7]
  show ?thesis by simp
qed

end
