(* ===== verification/OverflowChain.thy ===== *)
theory OverflowChain
  imports LeafTree SchemaProps
begin

text \<open>
  Chains of overflow pages on disk: reading a chain yields its bytes, comparing with a chain sees its
  pages as windows, and writing a payload makes a chain.
\<close>

section \<open>Chains on disk\<close>

text \<open>
  \<open>cap\<close> is the size of a page without its metadata.  The first two words of a page are the number
  of the next page and the number of bytes on this one.
\<close>

inductive chain :: "(u32 \<rightharpoonup> bytes) \<Rightarrow> nat \<Rightarrow> u32 \<Rightarrow> bytes list \<Rightarrow> bool" for disk cap where
  chain_end: "chain disk cap 0 []"
| chain_page: "chain disk cap pid (chunk # chunks)"
    if "pid \<noteq> 0" "disk pid = Some m" "chain disk cap (rd32 m 12) chunks" "chunk \<noteq> []"
      "unat (rd32 m 16) = length chunk" "length chunk + 8 \<le> cap" "slice m 20 (length chunk) = chunk"

inductive_cases chain_ConsE: "chain disk cap pid (chunk # chunks)"
inductive_simps chain_Nil_iff [simp]: "chain disk cap pid []"
inductive_simps chain_0_iff [simp]: "chain disk cap 0 chunks"

lemma chain_next_zero: "chain disk cap pid chunks \<Longrightarrow> pid = 0 \<longleftrightarrow> chunks = []"
  by (auto elim: chain.cases)

definition capacity :: "'f pager \<Rightarrow> nat" where
  "capacity pg = unat (pgr_page_size pg)"

lemma pager_ready_ops: "pager_ready pg \<Longrightarrow> pager_inv cf_data pg \<and> (\<exists>fs. pgr_ops pg = CStdOps fs)"
  by (simp add: pager_ready_def)

lemma peek_page:
  assumes ready: "pager_ready pg" and disk: "disk_of cf_data pg pid = Some m" and p: "page_for pg p"
    and n: "unat (rd32 m 16) + 8 \<le> capacity pg" and len: "20 \<le> dps pg"
  shows "\<exists>c. btree_overflow_peek pg p pid = Some (BTREE_OK, pg\<lparr>pgr_cache := c\<rparr>,
      p\<lparr>page_id := pid, page_status := PAGER_OK, page_mem := m\<rparr>,
      \<lparr>orr_next_page_id = rd32 m 12, orr_payload_bytes = rd32 m 16\<rparr>, Some (drop 20 m)) \<and>
    pager_ready (pg\<lparr>pgr_cache := c\<rparr>)"
proof -
  obtain fs where inv: "pager_inv cf_data pg" and ops: "pgr_ops pg = CStdOps fs"
    using ready by (auto simp: pager_ready_def)
  have lm: "length m = dps pg"
    using disk_of_length [of cf_data pg pid m] inv disk by (simp add: pager_inv_def)
  obtain c where rd: "pager_read_page pg \<lparr>sel_page_id = pid\<rparr> p =
      Some (PAGER_OK, pg\<lparr>pgr_cache := c\<rparr>, p\<lparr>page_id := pid, page_status := PAGER_OK, page_mem := m\<rparr>)"
    and inv': "pager_inv cf_data (pg\<lparr>pgr_cache := c\<rparr>)"
    using cstd.cached_read_present [OF inv _ p ops, of "\<lparr>sel_page_id = pid\<rparr>"] disk
    by (auto simp: pager_read_page_def)
  have "rd32 m 16 < pgr_page_size pg" using n by (simp add: capacity_def word_less_nat_alt)
  with rd inv' lm len show ?thesis
    by (auto simp: btree_overflow_peek_def pager_reselect_def mem_read32_rd32 page_buffer_off_def
        intro: pager_ready_cache [OF ready])
qed

lemma overflow_read_page:
  assumes ready: "pager_ready pg" and disk: "disk_of cf_data pg pid = Some m"
    and chunk: "unat (rd32 m 16) = length chunk" "length chunk + 8 \<le> capacity pg" "slice m 20 (length chunk) = chunk"
    and len: "dps pg = capacity pg + 12" and room: "length chunk \<le> length buffer" "length chunk \<le> unat bsz"
  shows "\<exists>c. btree_overflow_read pg pid buffer bsz = Some (BTREE_OK, pg\<lparr>pgr_cache := c\<rparr>,
      chunk @ drop (length chunk) buffer, \<lparr>orr_next_page_id = rd32 m 12, orr_payload_bytes = rd32 m 16\<rparr>) \<and>
    pager_ready (pg\<lparr>pgr_cache := c\<rparr>)"
proof -
  obtain p where p: "page_create pg = Some (PAGER_OK, p)" "page_for pg p"
    by (simp add: page_create_eq page_for_def dps_def)
  have "length m = dps pg"
    using disk_of_length [of cf_data pg pid m] ready disk by (simp add: pager_ready_def pager_inv_def)
  then have xs: "mem_read (drop 20 m) 0 (length chunk) = Some chunk"
    using chunk len by (simp add: mem_read_def slice_def)
  have "\<not> rd32 m 16 > bsz" using chunk(1) room(2) by (simp add: word_less_nat_alt)
  with peek_page [OF ready disk p(2)] chunk len p(1) xs room(1) show ?thesis
    by (auto simp: btree_overflow_read_def mem_write_def)
qed

section \<open>Reading a chain\<close>

lemma read_chain:
  assumes "chain disk cap pid chunks" and "disk_of cf_data pg = disk" and "capacity pg = cap"
    and "pager_ready pg" and "dps pg = cap + 12" and "length buffer = unat bsz"
    and "unat written + length (concat chunks) \<le> length buffer"
  shows "\<exists>c. read_overflow_chain pg pid buffer bsz (unat written) written =
      Some (BTREE_OK, pg\<lparr>pgr_cache := c\<rparr>, take (unat written) buffer @ concat chunks @
        drop (unat written + length (concat chunks)) buffer) \<and>
    pager_ready (pg\<lparr>pgr_cache := c\<rparr>)"
  using assms
proof (induction arbitrary: pg buffer written rule: chain.induct)
  case chain_end
  then show ?case
    by (subst read_overflow_chain.simps) (auto intro: exI [of _ "pgr_cache pg"])
next
  case (chain_page pid m chunks chunk)
  let ?pos = "unat written" and ?n = "length chunk"
  have "0 < ?n" using chain_page.hyps(4) by simp
  then have lt: "written < bsz" using chain_page.prems(5,6) unfolding word_less_nat_alt concat.simps length_append by linarith
  have left: "unat (bsz - written) = unat bsz - ?pos" using lt by (simp add: unat_sub_ok word_less_nat_alt)
  have fits: "?n \<le> unat bsz - ?pos" using chain_page.prems(5,6) by simp
  obtain c where c: "btree_overflow_read pg pid (drop ?pos buffer) (bsz - written) = Some (BTREE_OK, pg\<lparr>pgr_cache := c\<rparr>,
      chunk @ drop ?n (drop ?pos buffer), \<lparr>orr_next_page_id = rd32 m 12, orr_payload_bytes = rd32 m 16\<rparr>)"
    "pager_ready (pg\<lparr>pgr_cache := c\<rparr>)"
    using overflow_read_page [of pg pid m chunk "drop ?pos buffer" "bsz - written"] chain_page.prems chain_page.hyps left fits
    by auto
  define buffer' where "buffer' = take ?pos buffer @ chunk @ drop ?n (drop ?pos buffer)"
  have w: "unat (written + rd32 m 16) = ?pos + ?n"
    using chain_page.prems(5,6) chain_page.hyps(5) u32_bound [of bsz] by (subst unat_add_ok) auto
  have len: "length buffer' = length buffer" using chain_page.prems(6) by (simp add: buffer'_def)
  obtain c' where c': "read_overflow_chain (pg\<lparr>pgr_cache := c\<rparr>) (rd32 m 12) buffer' bsz (?pos + ?n) (written + rd32 m 16) =
      Some (BTREE_OK, pg\<lparr>pgr_cache := c'\<rparr>, take (?pos + ?n) buffer' @ concat chunks @
        drop (?pos + ?n + length (concat chunks)) buffer')" "pager_ready (pg\<lparr>pgr_cache := c'\<rparr>)"
    using chain_page.IH [of "pg\<lparr>pgr_cache := c\<rparr>" buffer' "written + rd32 m 16"] chain_page.prems c(2) len
    unfolding w by (auto simp: capacity_def dps_def)
  have "take (?pos + ?n) buffer' @ concat chunks @ drop (?pos + ?n + length (concat chunks)) buffer' =
      take ?pos buffer @ concat (chunk # chunks) @ drop (?pos + length (concat (chunk # chunks))) buffer"
    using chain_page.prems(6) by (simp add: buffer'_def ac_simps)
  with c c' lt chain_page.hyps(1,5) chain_page.prems(6) show ?case
    by (subst read_overflow_chain.simps) (auto simp: buffer'_def add.assoc)
qed

section \<open>Comparing with a chain\<close>

text \<open>The pages of a chain are the windows of the comparison.\<close>

lemma compare_chain:
  assumes "chain disk cap pid chunks" and "chunks \<noteq> []"
  shows "\<exists>ws. map fst ws = chunks \<and>
    (\<forall>pg p q ctx out r ctx'. disk_of cf_data pg = disk \<longrightarrow> capacity pg = cap \<longrightarrow> pager_ready pg \<longrightarrow>
      dps pg = cap + 12 \<longrightarrow> page_for pg p \<longrightarrow>
      stream_compare (fn_compare fns) tot key key_size ctx q ws = Some (r, ctx') \<longrightarrow>
      (\<exists>c. compare_overflow_loop fns ctx pg p pid q tot key key_size out =
        Some (BTREE_OK, r, ctx', pg\<lparr>pgr_cache := c\<rparr>)))"
  using assms
proof (induction rule: chain.induct)
  case (chain_page pid m chunks chunk)
  define w where "w = (chunk, drop (length chunk) (drop 20 m))"
  have w: "fst w @ snd w = drop 20 m" "fst w = chunk"
    using chain_page.hyps(7) by (simp_all add: w_def slice_def) (metis append_take_drop_id drop_drop add.commute)
  obtain ws where ws: "map fst ws = chunks" and
    run: "chunks \<noteq> [] \<longrightarrow> (\<forall>pg p q ctx out r ctx'. disk_of cf_data pg = disk \<longrightarrow> capacity pg = cap \<longrightarrow> pager_ready pg \<longrightarrow>
      dps pg = cap + 12 \<longrightarrow> page_for pg p \<longrightarrow>
      stream_compare (fn_compare fns) tot key key_size ctx q ws = Some (r, ctx') \<longrightarrow>
      (\<exists>c. compare_overflow_loop fns ctx pg p (rd32 m 12) q tot key key_size out =
        Some (BTREE_OK, r, ctx', pg\<lparr>pgr_cache := c\<rparr>)))"
  proof (cases "chunks = []")
    case True
    then show ?thesis using that [of "[]"] by simp
  next
    case False
    from chain_page.IH [OF this] show ?thesis using that by blast
  qed
  have next0: "rd32 m 12 = 0 \<longleftrightarrow> chunks = []" by (rule chain_next_zero [OF chain_page.hyps(3)])
  have size: "of_nat (length chunk) = rd32 m 16" using chain_page.hyps(5) by (metis u32_of_nat_unat)
  show ?case
  proof (intro exI [of _ "w # ws"] conjI allI impI)
    show "map fst (w # ws) = chunk # chunks" using ws w by simp
    fix pg p q ctx out r ctx'
    assume pg: "disk_of cf_data pg = disk" "capacity pg = cap" "pager_ready pg" "dps pg = cap + 12" "page_for pg p"
      and st: "stream_compare (fn_compare fns) tot key key_size ctx q (w # ws) = Some (r, ctx')"
    obtain c where peek: "btree_overflow_peek pg p pid = Some (BTREE_OK, pg\<lparr>pgr_cache := c\<rparr>,
        p\<lparr>page_id := pid, page_status := PAGER_OK, page_mem := m\<rparr>,
        \<lparr>orr_next_page_id = rd32 m 12, orr_payload_bytes = rd32 m 16\<rparr>, Some (drop 20 m))"
      "pager_ready (pg\<lparr>pgr_cache := c\<rparr>)"
      using peek_page [OF pg(3) _ pg(5), of pid m] chain_page.hyps pg by auto
    obtain r1 count rem ctx1 where cmp: "fn_compare fns ctx (drop 20 m) (rd32 m 16) tot key key_size q =
        Some (r1, count, rem, ctx1)" and
      rest: "(if r1 \<noteq> 0 \<or> ws = [] \<or> \<not> q + count < tot \<or> rem = 0 then Some (r1, ctx1)
        else stream_compare (fn_compare fns) tot key key_size ctx1 (q + count) ws) = Some (r, ctx')"
      using st w by (auto simp: size bind_option_Some_iff)
    have "length m = dps pg"
      using disk_of_length [of cf_data pg pid m] pg chain_page.hyps(2) by (simp add: pager_ready_def pager_inv_def)
    then have p': "page_for (pg\<lparr>pgr_cache := c\<rparr>) (p\<lparr>page_id := pid, page_status := PAGER_OK, page_mem := m\<rparr>)"
      by (simp add: page_for_def dps_def)
    have ws0: "ws = [] \<longleftrightarrow> chunks = []" using ws by auto
    show "\<exists>c. compare_overflow_loop fns ctx pg p pid q tot key key_size out =
        Some (BTREE_OK, r, ctx', pg\<lparr>pgr_cache := c\<rparr>)"
    proof (cases "r1 \<noteq> 0 \<or> ws = [] \<or> \<not> q + count < tot \<or> rem = 0")
      case True
      with rest peek(1) cmp next0 ws0 show ?thesis
        by (subst compare_overflow_loop.simps) auto
    next
      case False
      with rest have "stream_compare (fn_compare fns) tot key key_size ctx1 (q + count) ws = Some (r, ctx')" by simp
      with run [rule_format, of "pg\<lparr>pgr_cache := c\<rparr>" _ ctx1 "q + count" r ctx'] False ws0 pg peek(2) p'
      obtain c' where "compare_overflow_loop fns ctx1 (pg\<lparr>pgr_cache := c\<rparr>)
          (p\<lparr>page_id := pid, page_status := PAGER_OK, page_mem := m\<rparr>) (rd32 m 12) (q + count) tot key key_size 0 =
          Some (BTREE_OK, r, ctx', pg\<lparr>pgr_cache := c'\<rparr>)"
        by (force simp: capacity_def dps_def)
      with False peek(1) cmp next0 ws0 show ?thesis
        by (subst compare_overflow_loop.simps) auto
    qed
  qed
qed simp

text \<open>
  C32: the cell of an index node whose record goes on over a chain of overflow pages is compared with
  a key by a schema of one column as the column of the whole record is, lexicographically, unless
  the stored column is a proper prefix of the key or a page ends right behind its length.
\<close>

theorem compare_cell_chain:
  assumes "is_memcmp mc" and ready: "pager_ready pg" and dps: "dps pg = capacity pg + 12"
    and keyof: "ibtree_keyof ctx node index = Some (w @ junk, of_nat (length w), of_nat (length (w @ concat chunks)), next)"
    and chain: "chain (disk_of cf_data pg) (capacity pg) next chunks" and "w \<noteq> []"
    and rec: "w @ concat chunks = hdr @ len_prefixed xs @ rest" and small: "length (w @ concat chunks) < 2147483648"
    and ys: "length ys + 4 < 2147483648"
    and cuts: "\<forall>us vs. chunks = us @ vs \<longrightarrow> length (w @ concat us) \<noteq> length hdr + 4"
    and prefix: "\<not> strict_prefix xs ys"
    and ctx: "ctx = ibtls_init_compare_context_from_schema (one_column (of_nat (length hdr))) type"
  shows "\<exists>r ctx' c. btree_node_compare_cell (ibtls_fns mc) ctx pg node index (len_prefixed ys) key_size =
      Some (BTREE_OK, r, ctx', pg\<lparr>pgr_cache := c\<rparr>) \<and> sgn r = compare3 xs ys"
proof -
  let ?ko = "of_nat (length hdr) :: u32" and ?tot = "of_nat (length (w @ concat chunks)) :: u32"
  let ?step = "ibtls_compare mc ctx (w @ junk) (of_nat (length w)) ?tot (len_prefixed ys) key_size 0"
  have r: "record_of hdr xs rest = w @ concat chunks" by (simp add: record_of_def rec)
  have small': "length (record_of hdr xs rest) < 2147483648" using small by (simp add: r)
  have "length hdr < 2147483648" using small unfolding rec by simp
  then have ko: "unat ?ko = length hdr" by (simp add: unat_u32_of_nat)
  have fresh: "?step = ibtls_compare mc (context_at ?ko ys xs 0) (w @ junk) (of_nat (length w)) ?tot (len_prefixed ys) key_size 0"
    unfolding ctx by (rule compare_fresh) (use ys in simp)
  have at: "window_at (record_of hdr xs rest) 0 w"
    unfolding r using assms(6) by (simp add: window_at_def nth_append)
  have cut: "0 + length w \<noteq> length hdr + 4" using cuts [rule_format, of "[]" chunks] by simp
  have agree: "agree_upto xs ys (0 - length hdr)" by (simp add: agree_upto_def)
  from compare_window [OF at small' ko ys assms(1) agree cut prefix, where junk = junk and tot = ?tot and key_size = key_size]
  consider (verdict) v k rem ctx' where "?step = Some (v, k, rem, ctx')" "sgn v = compare3 xs ys" "v \<noteq> 0 \<or> rem = 0" "k \<noteq> 0"
    | (more) "?step = Some (0, of_nat (length w), 1, context_at ?ko ys xs (length w - length hdr))"
      "length w < length hdr + 4 + length xs" "agree_upto xs ys (length w - length hdr)"
    unfolding fresh by auto
  then show ?thesis
  proof cases
    case verdict
    then show ?thesis
      using keyof by (intro exI [of _ v] exI [of _ ctx'] exI [of _ "pgr_cache pg"])
        (auto simp: btree_node_compare_cell_def ibtls_fns_def)
  next
    case more
    have "length w < length (record_of hdr xs rest)" using more(2) by (simp add: record_of_def)
    then have ne: "chunks \<noteq> []" unfolding r by auto
    have w0: "(of_nat (length w) :: u32) \<noteq> 0"
      using assms(6) small unat_u32_of_nat [of "length w"] by auto
    have nz: "next \<noteq> 0" using chain_next_zero [OF chain] ne by simp
    obtain ws where ws: "map fst ws = chunks" and run: "\<forall>p q ctx out v ctx'. page_for pg p \<longrightarrow>
        stream_compare (fn_compare (ibtls_fns mc)) ?tot (len_prefixed ys) key_size ctx q ws = Some (v, ctx') \<longrightarrow>
        (\<exists>c. compare_overflow_loop (ibtls_fns mc) ctx pg p next q ?tot (len_prefixed ys) key_size out =
          Some (BTREE_OK, v, ctx', pg\<lparr>pgr_cache := c\<rparr>))"
      using compare_chain [OF chain ne, of "ibtls_fns mc" ?tot "len_prefixed ys" key_size] ready dps by blast
    have fc: "fn_compare (ibtls_fns mc) = ibtls_compare mc" by (simp add: ibtls_fns_def)
    have chunks: "\<forall>w \<in> set ws. fst w \<noteq> []"
    proof -
      have "\<forall>chunk \<in> set chunks. chunk \<noteq> []" using chain by (induction rule: chain.induct) auto
      then show ?thesis unfolding ws [symmetric] by simp
    qed
    have cuts': "\<forall>us vs. ws = us @ vs \<longrightarrow> us \<noteq> [] \<longrightarrow> length w + length (window_bytes us) \<noteq> length hdr + 4"
    proof (intro allI impI)
      fix us vs assume "ws = us @ vs"
      then have "chunks = map fst us @ map fst vs" using ws by auto
      then show "length w + length (window_bytes us) \<noteq> length hdr + 4" using cuts by (metis length_append)
    qed
    have "ws \<noteq> []" using ws ne by auto
    with stream_column [OF small' ko ys assms(1) prefix more(3) _ chunks _ cuts', where key_size = key_size] ws
    obtain v ctx' where "stream_compare (ibtls_compare mc) ?tot (len_prefixed ys) key_size
        (context_at ?ko ys xs (length w - length hdr)) (of_nat (length w)) ws = Some (v, ctx')" "sgn v = compare3 xs ys"
      by (auto simp: r)
    moreover obtain p where p: "page_create pg = Some (PAGER_OK, p)" "page_for pg p"
      by (simp add: page_create_eq page_for_def dps_def)
    ultimately obtain c where "compare_overflow_loop (ibtls_fns mc) (context_at ?ko ys xs (length w - length hdr)) pg p next
        (of_nat (length w)) ?tot (len_prefixed ys) key_size 0 = Some (BTREE_OK, v, ctx', pg\<lparr>pgr_cache := c\<rparr>)"
      using run [unfolded fc] by blast
    with \<open>sgn v = compare3 xs ys\<close> show ?thesis
      using keyof more(1) p(1) w0 nz
      by (intro exI [of _ v] exI [of _ ctx'] exI [of _ c])
        (simp add: btree_node_compare_cell_def fc ibtls_fns_def [of mc, THEN arg_cong [where f = fn_keyof]])
  qed
qed

end
