(* ===== verification/ChainWrite.thy ===== *)
theory ChainWrite
  imports OverflowChain
begin

text \<open>
  Writing a payload that is too large for a node: the loop that writes the overflow pages from the
  last to the first makes a chain that holds the payload, on pages that were free before.
\<close>

section \<open>Chains and other pages\<close>

text \<open>The pages of a chain, where \<open>pids\<close> are the pages of interest of a disk.\<close>

lemma rd32_behind: "drop 9 m' = drop 9 m \<Longrightarrow> 9 \<le> p \<Longrightarrow> rd32 m' p = rd32 m p"
  and slice_behind: "drop 9 m' = drop 9 m \<Longrightarrow> 9 \<le> p \<Longrightarrow> slice m' p n = slice m p n"
proof -
  assume a: "drop 9 m' = drop 9 m" "9 \<le> p"
  then have "drop p m' = drop p m" by (metis drop_drop le_add_diff_inverse2)
  then show "rd32 m' p = rd32 m p" "slice m' p n = slice m p n" by (simp_all add: rd32_def slice_def)
qed

lemma chain_mono:
  assumes "chain d cap pid chunks" and "\<And>j m. d j = Some m \<Longrightarrow> \<exists>m'. d' j = Some m' \<and> drop 9 m' = drop 9 m"
  shows "chain d' cap pid chunks"
  using assms(1)
proof (induction rule: chain.induct)
  case (chain_page pid m chunks chunk)
  obtain m' where m': "d' pid = Some m'" "drop 9 m' = drop 9 m" using assms(2) [OF chain_page.hyps(2)] by blast
  have "rd32 m' 12 = rd32 m 12" "rd32 m' 16 = rd32 m 16" "slice m' 20 (length chunk) = slice m 20 (length chunk)"
    using rd32_behind [OF m'(2)] slice_behind [OF m'(2)] by simp_all
  with m' chain_page show ?case by (intro chain.chain_page [where m = m']) simp_all
qed (rule chain.chain_end)

lemma free_path_upd: "j \<notin> set xs \<Longrightarrow> free_path (d(j \<mapsto> m)) h xs = free_path d h xs"
  by (induction d h xs rule: free_path.induct) (auto split: option.splits)

lemma free_list_upd: "j \<notin> set xs \<Longrightarrow> j \<noteq> 1 \<Longrightarrow> free_list (d(j \<mapsto> m)) xs = free_list d xs"
  by (simp add: free_list_def free_path_upd split: option.splits)

lemma free_path_facts:
  "free_path d h xs \<Longrightarrow> distinct xs \<and> 0 \<notin> set xs \<and> 1 \<notin> set xs \<and> set xs \<subseteq> dom d"
  by (induction d h xs rule: free_path.induct) (auto split: option.splits)

lemma free_list_facts:
  assumes "free_list d xs"
  shows "distinct xs" "0 \<notin> set xs" "1 \<notin> set xs" "set xs \<subseteq> dom d"
  using assms free_path_facts by (auto simp: free_list_def split: option.splits)

section \<open>Room for more pages\<close>

definition more_room :: "cfile pager \<Rightarrow> nat \<Rightarrow> bool" where
  "more_room pg n \<longleftrightarrow> (\<forall>pid :: u32. pid \<noteq> 0 \<and> unat pid \<le> unat (pgr_max_page pg) + n \<longrightarrow>
     dps pg * (unat pid + 1) < 2147483648 \<and>
     co_room (the (pgr_file pg)) (int (dps pg * (unat pid - 1))) (int (dps pg)))"

lemma room_can_write: "more_room pg n \<Longrightarrow> pid \<noteq> 0 \<Longrightarrow> unat pid \<le> unat (pgr_max_page pg) + min n 1 \<Longrightarrow> can_write co_room pg pid"
  by (auto simp: more_room_def can_write_def min_def split: if_splits)

lemma room_step:
  assumes "more_room pg (Suc n)" and "same_pager co_room pg pg'" and "unat (pgr_max_page pg') \<le> unat (pgr_max_page pg) + 1"
  shows "more_room pg' n"
  using assms by (auto simp: more_room_def same_pager_def dps_def)

section \<open>One page\<close>

definition chunk_image :: "nat \<Rightarrow> u32 \<Rightarrow> bytes \<Rightarrow> bytes" where
  "chunk_image n follow chunk =
     patch (patch (patch (replicate n 0) 12 (ser_write_32bit_le follow)) 16
       (ser_write_32bit_le (of_nat (length chunk)))) 20 chunk"

lemma chunk_image_facts:
  assumes "length chunk + 20 \<le> n" and "length chunk < 4294967296"
  shows "length (chunk_image n follow chunk) = n" "rd32 (chunk_image n follow chunk) 12 = follow"
    "unat (rd32 (chunk_image n follow chunk) 16) = length chunk"
    "slice (chunk_image n follow chunk) 20 (length chunk) = chunk"
  using assms by (simp_all add: chunk_image_def rd32_patch_disjoint unat_u32_of_nat)

text \<open>A page without a number is written: it gets a number that was free.\<close>

lemma write_fresh:
  assumes ready: "pager_ready pg" and d12: "12 \<le> dps pg"
    and fl: "free_list (disk_of cf_data pg) ys" and max: "pgr_max_page pg \<noteq> 0"
    and w: "more_room pg 1" and p: "page_for pg p" "page_id p = 0"
  defines "pid \<equiv> fresh_id pg ys"
  defines "m \<equiv> with_meta (new_meta pid) (page_mem p)"
  shows "\<exists>pg'. pager_write_page pg p = Some (PAGER_OK, pg', p\<lparr>page_id := pid, page_status := PAGER_OK, page_mem := m\<rparr>) \<and>
    pager_ready pg' \<and> same_pager co_room pg pg' \<and> pgr_max_page pg' = max (pgr_max_page pg) pid \<and>
    disk_of cf_data pg' pid = Some m \<and>
    (\<forall>j. j \<noteq> pid \<longrightarrow> map_option (drop 9) (disk_of cf_data pg' j) = map_option (drop 9) (disk_of cf_data pg j)) \<and>
    (\<forall>j. j \<noteq> pid \<longrightarrow> j \<noteq> 1 \<longrightarrow> disk_of cf_data pg' j = disk_of cf_data pg j) \<and>
    free_list (disk_of cf_data pg') (tl ys) \<and> unat pid \<le> unat (pgr_max_page pg) + 1 \<and> pid \<noteq> 0 \<and> pid \<noteq> 1 \<and>
    pid \<notin> set (tl ys) \<and> (pid \<in> set ys \<or> pgr_max_page pg < pid)"
proof -
  obtain fs where inv: "pager_inv cf_data pg" and ops: "pgr_ops pg = CStdOps fs"
    using ready by (auto simp: pager_ready_def)
  have shape: "pager_shape cf_data pg" using inv by (simp add: pager_inv_def)
  note F = free_list_facts [OF fl]
  have small: "dps pg * (unat (pgr_max_page pg) + 1) < 2147483648"
    using shape by (simp add: pager_shape_def)
  have "1 * (unat (pgr_max_page pg) + 1) \<le> dps pg * (unat (pgr_max_page pg) + 1)"
    by (rule mult_le_mono1) (use d12 in simp)
  then have mx: "unat (pgr_max_page pg) + 1 < 2147483648" using small by simp
  have pid: "unat pid \<le> unat (pgr_max_page pg) + 1 \<and> pid \<noteq> 0 \<and> pid \<noteq> 1 \<and> pid \<notin> set (tl ys) \<and>
      (pid \<in> set ys \<or> pgr_max_page pg < pid)"
  proof (cases ys)
    case Nil
    have "unat (pgr_max_page pg + 1) = unat (pgr_max_page pg) + 1" using mx by (subst unat_add_ok) auto
    moreover have "unat (pgr_max_page pg) \<noteq> 0" using max by (simp add: unat_eq_0)
    ultimately show ?thesis
      using Nil max by (auto simp: pid_def fresh_id_def word_less_nat_alt simp flip: unat_eq_0)
  next
    case (Cons x xs)
    then have "disk_of cf_data pg x \<noteq> None" using F(4) by auto
    then have "x \<le> pgr_max_page pg" by (auto simp: disk_of_def allocated_def split: if_splits)
    with Cons F max show ?thesis by (auto simp: pid_def fresh_id_def word_le_nat_alt)
  qed
  have w1: "can_write co_room pg 1" "can_write co_room pg (fresh_id pg ys)"
    using room_can_write [OF w] pid by (simp_all add: pid_def)
  obtain pg' d1 where W: "pager_write_page pg p = Some (PAGER_OK, pg', p\<lparr>page_id := pid, page_status := PAGER_OK,
        page_mem := m\<rparr>)" "pager_inv cf_data pg'"
      "disk_of cf_data pg' = d1(pid \<mapsto> m)" "payload_eq d1 (disk_of cf_data pg)" "\<forall>j. j \<noteq> 1 \<longrightarrow> d1 j = disk_of cf_data pg j"
      "pgr_max_page pg = 0 \<or> free_list d1 (tl ys)" "pgr_max_page pg' = max (pgr_max_page pg) pid" "same_pager co_room pg pg'"
    using cstd.write_page_new [OF inv ops p disjI2 [OF fl] disjI2 [OF w1(1)] w1(2)] unfolding pid_def [symmetric] m_def
    by auto
  have "pager_ready pg'" using W(2,8) ops by (auto simp: pager_ready_def same_pager_def)
  moreover have "free_list (disk_of cf_data pg') (tl ys)"
    using W(3,6) pid max by (simp add: free_list_upd)
  moreover have "map_option (drop 9) (disk_of cf_data pg' j) = map_option (drop 9) (disk_of cf_data pg j)" if "j \<noteq> pid" for j
    using W(3,4) that by (simp add: payload_eq_def)
  moreover have "disk_of cf_data pg' j = disk_of cf_data pg j" if "j \<noteq> pid" "j \<noteq> 1" for j
    using W(3,5) that by simp
  ultimately show ?thesis using W(1,3,7,8) pid by auto
qed

lemma write_chunk:
  assumes ready: "pager_ready pg" and dps: "dps pg = capacity pg + 12"
    and fl: "free_list (disk_of cf_data pg) ys" and max: "pgr_max_page pg \<noteq> 0"
    and w: "more_room pg 1" and chunk: "length chunk + 8 \<le> capacity pg" and data: "take (length chunk) data = chunk"
  defines "pid \<equiv> fresh_id pg ys"
  shows "\<exists>pg' m. btree_overflow_write pg data (of_nat (length chunk)) follow = Some (BTREE_OK, pg', Some pid) \<and>
    pager_ready pg' \<and> same_pager co_room pg pg' \<and> pgr_max_page pg' = max (pgr_max_page pg) pid \<and>
    disk_of cf_data pg' pid = Some m \<and> drop 9 m = drop 9 (chunk_image (dps pg) follow chunk) \<and>
    (\<forall>j. j \<noteq> pid \<longrightarrow> map_option (drop 9) (disk_of cf_data pg' j) = map_option (drop 9) (disk_of cf_data pg j)) \<and>
    free_list (disk_of cf_data pg') (tl ys) \<and> unat pid \<le> unat (pgr_max_page pg) + 1 \<and> pid \<noteq> 0 \<and> pid \<noteq> 1 \<and>
    pid \<notin> set (tl ys) \<and> (pid \<in> set ys \<or> pgr_max_page pg < pid)"
proof -
  have n: "length chunk < 4294967296" "unat (of_nat (length chunk) :: u32) = length chunk"
    using chunk u32_bound [of "pgr_page_size pg"] by (simp_all add: capacity_def unat_u32_of_nat)
  have fits: "\<not> of_nat (length chunk) > btree_overflow_max_write_size pg"
    using chunk n(2) by (simp add: btree_overflow_max_write_size_def capacity_def word_less_nat_alt unat_sub_ok)
  define p where "p = \<lparr>page_id = 0, page_size = pgr_page_size pg,
    page_status = PAGER_ERR_PAGE_PERSISTENCE_UNKNOWN, page_mem = chunk_image (dps pg) follow chunk\<rparr>"
  have img: "length chunk + 20 \<le> dps pg" using chunk dps by simp
  note I = chunk_image_facts [OF img n(1), of follow]
  have pf: "page_for pg p" "page_id p = 0" using I(1) by (simp_all add: page_for_def p_def)
  let ?m = "with_meta (new_meta pid) (page_mem p)"
  have "12 \<le> dps pg" using dps by simp
  from write_fresh [OF ready this fl max w pf, folded pid_def]
  obtain pg' where W: "pager_write_page pg p = Some (PAGER_OK, pg', p\<lparr>page_id := pid, page_status := PAGER_OK, page_mem := ?m\<rparr>)"
    and rest: "pager_ready pg'" "same_pager co_room pg pg'" "pgr_max_page pg' = max (pgr_max_page pg) pid"
    "disk_of cf_data pg' pid = Some ?m"
    "\<forall>j. j \<noteq> pid \<longrightarrow> map_option (drop 9) (disk_of cf_data pg' j) = map_option (drop 9) (disk_of cf_data pg j)"
    "free_list (disk_of cf_data pg') (tl ys)" "unat pid \<le> unat (pgr_max_page pg) + 1" "pid \<noteq> 0" "pid \<noteq> 1"
    "pid \<notin> set (tl ys)" "pid \<in> set ys \<or> pgr_max_page pg < pid"
    by blast
  have dl: "length chunk \<le> length data"
  proof -
    have "length (take (length chunk) data) \<le> length data" by simp
    then show ?thesis unfolding data .
  qed
  have run: "btree_overflow_write pg data (of_nat (length chunk)) follow = Some (BTREE_OK, pg', Some pid)"
    using fits img n data W dl
    by (simp add: btree_overflow_write_def page_create_eq mem_write32_patch mem_write_patch page_buffer_off_def
        mem_read_def p_def chunk_image_def)
  moreover have "drop 9 ?m = drop 9 (chunk_image (dps pg) follow chunk)" by (simp add: drop_with_meta p_def)
  ultimately show ?thesis using rest by blast
qed

section \<open>The loop\<close>

text \<open>The pages in \<open>S\<close> hold the slices written so far.\<close>

definition holds_chain :: "cfile pager \<Rightarrow> u32 set \<Rightarrow> u32 list \<Rightarrow> u32 \<Rightarrow> bytes list \<Rightarrow> bool" where
  "holds_chain pg S ys pid chunks \<longleftrightarrow> chain (disk_of cf_data pg |` S) (capacity pg) pid chunks \<and>
     S \<inter> set ys = {} \<and> (\<forall>j \<in> S. j \<le> pgr_max_page pg)"

definition pager_stock :: "cfile pager \<Rightarrow> u32 list \<Rightarrow> nat \<Rightarrow> bool" where
  "pager_stock pg ys n \<longleftrightarrow> pager_ready pg \<and> dps pg = capacity pg + 12 \<and>
     free_list (disk_of cf_data pg) ys \<and> pgr_max_page pg \<noteq> 0 \<and> more_room pg n"

definition others_kept :: "cfile pager \<Rightarrow> cfile pager \<Rightarrow> u32 set \<Rightarrow> bool" where
  "others_kept pg pg' S \<longleftrightarrow> (\<forall>j. j \<notin> S \<longrightarrow> map_option (drop 9) (disk_of cf_data pg' j) = map_option (drop 9) (disk_of cf_data pg j))"

lemma write_chunk_chain:
  assumes stock: "pager_stock pg ys (Suc n)" and holds: "holds_chain pg S ys follow chunks"
    and chunk: "chunk \<noteq> []" "length chunk + 8 \<le> capacity pg" and data: "take (length chunk) data = chunk"
  shows "\<exists>pg' pid. btree_overflow_write pg data (of_nat (length chunk)) follow = Some (BTREE_OK, pg', Some pid) \<and>
    pager_stock pg' (tl ys) n \<and> holds_chain pg' (insert pid S) (tl ys) pid (chunk # chunks) \<and>
    same_pager co_room pg pg' \<and> others_kept pg pg' {pid} \<and> pgr_max_page pg \<le> pgr_max_page pg' \<and> (pid \<in> set ys \<or> pgr_max_page pg < pid)"
proof -
  have P: "pager_ready pg" "dps pg = capacity pg + 12" "free_list (disk_of cf_data pg) ys" "pgr_max_page pg \<noteq> 0"
    "more_room pg (Suc n)" "more_room pg 1"
    using stock by (auto simp: pager_stock_def more_room_def)
  define pid where "pid = fresh_id pg ys"
  obtain pg' m where W: "btree_overflow_write pg data (of_nat (length chunk)) follow = Some (BTREE_OK, pg', Some pid)"
    "pager_ready pg'" "same_pager co_room pg pg'" "pgr_max_page pg' = max (pgr_max_page pg) pid"
    "disk_of cf_data pg' pid = Some m" "drop 9 m = drop 9 (chunk_image (dps pg) follow chunk)"
    "\<forall>j. j \<noteq> pid \<longrightarrow> map_option (drop 9) (disk_of cf_data pg' j) = map_option (drop 9) (disk_of cf_data pg j)"
    "free_list (disk_of cf_data pg') (tl ys)" "unat pid \<le> unat (pgr_max_page pg) + 1" "pid \<noteq> 0"
    "pid \<notin> set (tl ys)" "pid \<in> set ys \<or> pgr_max_page pg < pid"
    using write_chunk [OF P(1-4,6) chunk(2) data, of follow, folded pid_def] by auto
  have same: "capacity pg' = capacity pg" "dps pg' = dps pg"
    using W(3) by (simp_all add: same_pager_def capacity_def dps_def)
  have new: "pid \<notin> S" using holds W(12) by (auto simp: holds_chain_def)
  have "unat (pgr_max_page pg') \<le> unat (pgr_max_page pg) + 1"
    using W(4,9) by (simp add: max_def word_le_nat_alt)
  then have "more_room pg' n" by (rule room_step [OF P(5) W(3)])
  moreover have "pgr_max_page pg' \<noteq> 0" using W(4,10) P(4) by (simp add: max_def split: if_splits)
  ultimately have "pager_stock pg' (tl ys) n" using W(2,8) P(2) same by (simp add: pager_stock_def)
  moreover have "holds_chain pg' (insert pid S) (tl ys) pid (chunk # chunks)"
    unfolding holds_chain_def
  proof (intro conjI ballI)
    have img: "length chunk + 20 \<le> dps pg" "length chunk < 4294967296"
      using chunk(2) P(2) u32_bound [of "pgr_page_size pg"] by (simp_all add: capacity_def)
    note I = chunk_image_facts [OF img, of follow]
    have "chain (disk_of cf_data pg |` S) (capacity pg) follow chunks" using holds by (simp add: holds_chain_def)
    then have tail: "chain (disk_of cf_data pg' |` insert pid S) (capacity pg') follow chunks"
      unfolding same
    proof (rule chain_mono)
      fix j m0 assume "(disk_of cf_data pg |` S) j = Some m0"
      then have j: "j \<in> S" "disk_of cf_data pg j = Some m0" by (auto simp: restrict_map_def split: if_splits)
      then have "map_option (drop 9) (disk_of cf_data pg' j) = Some (drop 9 m0)" using W(7) new by auto
      then show "\<exists>m'. (disk_of cf_data pg' |` insert pid S) j = Some m' \<and> drop 9 m' = drop 9 m0" using j by auto
    qed
    show "chain (disk_of cf_data pg' |` insert pid S) (capacity pg') pid (chunk # chunks)"
      using W(5,10) chunk tail I rd32_behind [OF W(6)] slice_behind [OF W(6)]
      by (intro chain.chain_page [where m = m]) (simp_all add: same)
    show "insert pid S \<inter> set (tl ys) = {}"
      using holds W(11) by (cases ys) (auto simp: holds_chain_def)
    show "j \<le> pgr_max_page pg'" if "j \<in> insert pid S" for j
      using that holds W(4) by (auto simp: holds_chain_def max_def)
  qed
  moreover have "pgr_max_page pg \<le> pgr_max_page pg'" using W(4) by simp
  ultimately show ?thesis using W(1,3,7,12) by (auto simp: others_kept_def)
qed

lemma same_pager_trans: "same_pager room a b \<Longrightarrow> same_pager room b c \<Longrightarrow> same_pager room a c"
  by (simp add: same_pager_def)

lemma others_kept_trans: "others_kept a b S \<Longrightarrow> others_kept b c T \<Longrightarrow> others_kept a c (S \<union> T)"
  by (simp add: others_kept_def)

lemma write_slices_chain:
  assumes "pager_stock pg ys n" and "holds_chain pg S ys follow chunks" and "concat chunks = drop (off + unat psize) data"
    and "unat num = n" and "0 < n" and "off = unat inl + (n - 1) * unat writable"
    and "unat writable + 8 = capacity pg" and "0 < unat psize" and "unat psize \<le> unat writable"
    and "off + unat psize \<le> length data" and "length data < 4294967296"
    and "unat written = length data - (off + unat psize)" and "unat to_write = length data - unat inl"
  shows "\<exists>pg' pid S' chunks'. write_slices pg data inl writable to_write off psize num written follow =
      Some (BTREE_OK, pg', 0, pid) \<and>
    holds_chain pg' (S \<union> S') (drop n ys) pid chunks' \<and> concat chunks' = drop (unat inl) data \<and>
    pager_stock pg' (drop n ys) 0 \<and> same_pager co_room pg pg' \<and> others_kept pg pg' S' \<and>
    S' \<subseteq> set ys \<union> {j. pgr_max_page pg < j} \<and> chunks' \<noteq> []"
  using assms
proof (induction n arbitrary: pg ys S follow chunks off psize num written)
  case (Suc n)
  define chunk where "chunk = take (unat psize) (drop off data)"
  have len: "length chunk = unat psize" using Suc.prems(10) by (simp add: chunk_def)
  have size: "of_nat (length chunk) = psize" using len by simp
  have chunk: "chunk \<noteq> []" "length chunk + 8 \<le> capacity pg" "take (length chunk) (drop off data) = chunk"
    using Suc.prems(7-9) len by (auto simp: chunk_def)
  obtain pg1 pid where W: "btree_overflow_write pg (drop off data) psize follow = Some (BTREE_OK, pg1, Some pid)"
    "pager_stock pg1 (tl ys) n" "holds_chain pg1 (insert pid S) (tl ys) pid (chunk # chunks)"
    "same_pager co_room pg pg1" "others_kept pg pg1 {pid}" "pgr_max_page pg \<le> pgr_max_page pg1"
    "pid \<in> set ys \<or> pgr_max_page pg < pid"
    using write_chunk_chain [OF Suc.prems(1,2) chunk] unfolding size by blast
  have data: "concat (chunk # chunks) = drop off data"
    using Suc.prems(3) by (simp add: chunk_def) (metis append_take_drop_id drop_drop add.commute)
  have num: "num > 0" using Suc.prems(4) by (simp add: word_less_nat_alt)
  have one: "num = 1 \<longleftrightarrow> n = 0" using Suc.prems(4) by (metis One_nat_def Suc_inject unat_1 word_unat_eq_iff)
  have sum: "unat (written + psize) = length data - off"
    using Suc.prems(10-12) by (subst unat_add_ok) auto
  show ?case
  proof (cases "n = 0")
    case True
    then have off: "off = unat inl" using Suc.prems(6) by simp
    then have "\<not> written + psize < to_write" using sum Suc.prems(13) by (simp add: word_less_nat_alt)
    with W num one True off size data show ?thesis
      by (intro exI [of _ pg1] exI [of _ pid] exI [of _ "{pid}"] exI [of _ "chunk # chunks"])
        (subst write_slices.simps, auto simp: drop_Suc)
  next
    case False
    then obtain k where k: "n = Suc k" by (cases n) auto
    have off: "off = unat inl + k * unat writable + unat writable" using Suc.prems(6) k by simp
    have less: "written + psize < to_write"
      using sum Suc.prems(7-10,13) off chunk(2) len by (simp add: word_less_nat_alt)
    have num': "unat (num - 1) = n" using Suc.prems(4) num by (simp add: unat_sub_ok word_less_nat_alt)
    have W': "unat writable + 8 = capacity pg1" using Suc.prems(7) W(4) by (simp add: same_pager_def capacity_def)
    obtain pg' pid' S' chunks' where R: "write_slices pg1 data inl writable to_write (off - unat writable) writable (num - 1)
        (written + psize) pid = Some (BTREE_OK, pg', 0, pid')"
      "holds_chain pg' (insert pid S \<union> S') (drop n (tl ys)) pid' chunks'" "concat chunks' = drop (unat inl) data"
      "pager_stock pg' (drop n (tl ys)) 0" "same_pager co_room pg1 pg'" "others_kept pg1 pg' S'"
      "S' \<subseteq> set (tl ys) \<union> {j. pgr_max_page pg1 < j}" "chunks' \<noteq> []"
      using Suc.IH [OF W(2,3), of "off - unat writable" writable "num - 1" "written + psize"] data num' False off W' sum
        Suc.prems(8-11,13) k by auto
    have "S' \<subseteq> set ys \<union> {j. pgr_max_page pg < j}"
      using R(7) W(6) by (cases ys) auto
    moreover have "insert pid S \<union> S' = S \<union> insert pid S'" by auto
    moreover have "write_slices pg data inl writable to_write off psize num written follow = Some (BTREE_OK, pg', 0, pid')"
      using W(1) num one False off less R(1) by (subst write_slices.simps) simp
    moreover have "others_kept pg pg' (insert pid S')" using others_kept_trans [OF W(5) R(6)] by simp
    ultimately show ?thesis
      using R(2-4,8) same_pager_trans [OF W(4) R(5)] W(7)
      by (intro exI [of _ pg'] exI [of _ pid'] exI [of _ "insert pid S'"] exI [of _ chunks']) (auto simp: drop_Suc)
  qed
qed simp

end
