(* ===== verification/OverflowWrite.thy ===== *)
theory OverflowWrite
  imports ChainWrite LeafInsert
begin

text \<open>A payload that does not fit into its node is written to a chain of pages and read back.\<close>

section \<open>The slices\<close>

lemma last_slice_run:
  assumes "0 < unat w" and "0 < unat t"
  shows "\<exists>k t'. last_slice w off t num = Some (off + k * unat w, t', num + of_nat k) \<and>
    unat t = k * unat w + unat t' \<and> 0 < unat t' \<and> unat t' \<le> unat w"
  using assms(2)
proof (induction "unat t" arbitrary: t off num rule: less_induct)
  case less
  show ?case
  proof (cases "w < t")
    case False
    then show ?thesis
      using less.prems
      by (intro exI [of _ 0] exI [of _ t]) (subst last_slice.simps, simp add: word_less_nat_alt)
  next
    case True
    have u: "unat (t - w) = unat t - unat w" using True by (simp add: unat_sub_ok word_less_nat_alt)
    have "unat (t - w) < unat t" "0 < unat (t - w)"
      using u True assms(1) by (simp_all add: word_less_nat_alt)
    from less.hyps [OF this, of "off + unat w" "num + 1"] obtain k t' where
      r: "last_slice w (off + unat w) (t - w) (num + 1) = Some (off + unat w + k * unat w, t', num + 1 + of_nat k)"
      "unat (t - w) = k * unat w + unat t'" "0 < unat t'" "unat t' \<le> unat w"
      by blast
    with True u show ?thesis
      by (intro exI [of _ "Suc k"] exI [of _ t']) (subst last_slice.simps, simp add: word_less_nat_alt)
  qed
qed

lemma more_room_mono: "more_room pg n \<Longrightarrow> k \<le> n \<Longrightarrow> more_room pg k"
  by (auto simp: more_room_def)

text \<open>Both loops together: the bytes from \<open>inl\<close> on are on a chain.\<close>

lemma write_slices_run:
  fixes data :: bytes and inl w :: u32
  defines "t \<equiv> of_nat (length data) - inl"
  assumes stock: "pager_stock pg ys n" and w: "unat w + 8 = capacity pg" "0 < unat w"
    and data: "length data < 4294967296" "unat inl < length data"
    and n: "length data - unat inl \<le> n * unat w"
  shows "\<exists>off psize num pg' pid S chunks ys'. last_slice w (unat inl) t 1 = Some (off, psize, num) \<and>
    write_slices pg data inl w t off psize num 0 0 = Some (BTREE_OK, pg', 0, pid) \<and>
    holds_chain pg' S ys' pid chunks \<and> concat chunks = drop (unat inl) data \<and>
    pager_stock pg' ys' 0 \<and> same_pager co_room pg pg' \<and> others_kept pg pg' S \<and>
    S \<subseteq> set ys \<union> {j. pgr_max_page pg < j} \<and> chunks \<noteq> []"
proof -
  have t: "unat t = length data - unat inl"
    using data by (simp add: t_def unat_sub_ok unat_u32_of_nat)
  obtain k psize where k: "last_slice w (unat inl) t 1 = Some (unat inl + k * unat w, psize, 1 + of_nat k)"
    "unat t = k * unat w + unat psize" "0 < unat psize" "unat psize \<le> unat w"
    using last_slice_run [OF w(2), of t "unat inl" 1] t data by auto
  have "k * unat w < n * unat w" using k(2,3) n t by linarith
  then have kn: "Suc k \<le> n" by simp
  have "k * 1 \<le> k * unat w" by (rule mult_le_mono2) (use w(2) in simp)
  moreover have "k * unat w < 4294967295" using k(2,3) t data by linarith
  ultimately have "k < 4294967295" unfolding mult_1_right by (rule le_less_trans)
  then have num: "unat (1 + of_nat k :: u32) = Suc k"
    by (subst unat_add_ok) (simp_all add: unat_u32_of_nat)
  have stock': "pager_stock pg ys (Suc k)"
    using stock more_room_mono [OF _ kn] by (simp add: pager_stock_def)
  have start: "holds_chain pg {} ys 0 []" by (simp add: holds_chain_def)
  have full: "unat inl + k * unat w + unat psize = length data" using k(2) t data(2) by linarith
  have "\<exists>pg' pid S' chunks'. write_slices pg data inl w t (unat inl + k * unat w) psize (1 + of_nat k) 0 0 =
      Some (BTREE_OK, pg', 0, pid) \<and>
    holds_chain pg' ({} \<union> S') (drop (Suc k) ys) pid chunks' \<and> concat chunks' = drop (unat inl) data \<and>
    pager_stock pg' (drop (Suc k) ys) 0 \<and> same_pager co_room pg pg' \<and> others_kept pg pg' S' \<and>
    S' \<subseteq> set ys \<union> {j. pgr_max_page pg < j} \<and> chunks' \<noteq> []"
    by (rule write_slices_chain [OF stock' start]) (simp_all only: full num w k(3,4) data(1) t, simp_all)
  then show ?thesis unfolding Un_empty_left using k(1) by blast
qed

section \<open>Reading an overflow cell\<close>

definition spilled :: "u32 \<Rightarrow> u32 \<Rightarrow> bytes \<Rightarrow> bytes" where
  "spilled tot pid p = ser_write_32bit_le tot @ ser_write_32bit_le pid @ p"

lemma length_spilled [simp]: "length (spilled tot pid p) = length p + 8"
  by (simp add: spilled_def)

lemma overflow_cell_at:
  assumes wf: "node_wf node" and d: "d < n_keys node" and pay: "payload_at node d = spilled tot pid p"
  defines "at_cell \<equiv> node_end node - cell_off node d"
  shows "ser_read_32bit_le (slice (node_mem node) at_cell 4) = of_nat (length p + 8)"
    "ser_read_32bit_le (slice (node_mem node) (at_cell + 4) 4) = tot"
    "ser_read_32bit_le (slice (node_mem node) (at_cell + 8) 4) = pid"
    "slice (node_mem node) (at_cell + 12) (length p) = p"
    "length p + 12 \<le> cell_off node d" "at_cell + cell_off node d = length (node_mem node)"
    "length p + 8 < 2147483648" "cell_off node d < 2147483648" "unat (of_nat (length p + 8) :: u32) = length p + 8"
proof -
  let ?n = "cell_size node (cell_off node d)"
  note P = cell_ptr_parts [OF wf d] and A = cell_access [OF wf d]
  have n: "?n = length p + 8" using length_payload_at [OF wf d] pay by simp
  have len: "length (cell_ptr node d) = cell_off node d" using A(4) by (simp add: cell_ptr_def node_end_def)
  show off: "length p + 12 \<le> cell_off node d" "at_cell + cell_off node d = length (node_mem node)"
    using P(3) len n A(4) by (simp_all add: node_end_def at_cell_def)
  have drop4: "take (length p + 8) (drop (at_cell + 4) (node_mem node)) = spilled tot pid p"
    using P(2) pay unfolding n payload_at_def cell_ptr_def at_cell_def by (simp add: add.commute)
  have part: "slice (node_mem node) (at_cell + (4 + i)) k = take k (drop i (spilled tot pid p))" if "i + k \<le> length p + 8" for i k
    using that unfolding drop4 [symmetric] by (simp add: slice_def drop_take add.assoc min_absorb1 min_def) (simp add: add.commute add.left_commute)
  show "ser_read_32bit_le (slice (node_mem node) at_cell 4) = of_nat (length p + 8)"
  proof -
    have "mem_read32 (cell_ptr node d) 0 = Some (rd32 (cell_ptr node d) 0)" using P(3) by (simp add: mem_read32_rd32)
    with P(1) have "rd32 (cell_ptr node d) 0 = of_nat (length p + 8)" by (simp add: n)
    then show ?thesis by (simp add: rd32_def slice_def cell_ptr_def at_cell_def)
  qed
  show small: "length p + 8 < 2147483648" "cell_off node d < 2147483648" using off(1) A(5) by simp_all
  then show "unat (of_nat (length p + 8) :: u32) = length p + 8" by (intro unat_u32_of_nat) simp
  show "slice (node_mem node) (at_cell + 12) (length p) = p"
    using part [of 8 "length p"] by (simp add: spilled_def)
  show "ser_read_32bit_le (slice (node_mem node) (at_cell + 4) 4) = tot"
    "ser_read_32bit_le (slice (node_mem node) (at_cell + 8) 4) = pid"
    using part [of 0 4] part [of 4 4] by (simp_all add: spilled_def)
qed

lemma inline_part_word: "btree_cell_overflow_calc_inline_payload_size (of_nat (n + 8)) = of_nat n"
  by (simp add: btree_cell_overflow_calc_inline_payload_size_def btree_cell_overflow_min_disk_size_def)

lemma read_overflow_at:
  assumes wf: "node_wf node" and d: "d < n_keys node"
    and flags: "btree_pkey_is_cell_type (pk_flags (pkey node d)) PKEY_FLAG_CELL_TYPE_OVERFLOW"
    and pay: "payload_at node d = spilled tot pid p"
    and buf: "length buffer < 2147483648" "unat tot \<le> length buffer" "length p \<le> length buffer"
  shows "btree_node_read_at pager node (of_nat d) buffer (of_nat (length buffer)) =
    read_overflow_chain pager pid (p @ drop (length p) buffer) (of_nat (length buffer)) (length p) (of_nat (length p))"
proof -
  let ?at = "node_end node - cell_off node d"
  note A = cell_access [OF wf d] and O = overflow_cell_at [OF wf d pay]
  have at: "right_edge - ?at = cell_off node d" if "right_edge = node_end node" for right_edge using that A(4) by simp
  have k: "unat (of_nat (length buffer) :: u32) = length buffer" using buf(1) by (simp add: unat_u32_of_nat)
  have cn: "unat (of_nat (cell_off node d) :: u32) = cell_off node d" using A(5) by (simp add: unat_u32_of_nat)
  have m: "min (unat (of_nat (length buffer) :: u32)) (min (unat (of_nat (length p + 8) :: u32) - 8)
      (unat (of_nat (cell_off node d) :: u32) - 12)) = length p"
    unfolding k O(9) cn using buf(3) O(5) by simp
  obtain r where "btree_cell_read_overflow_ex (btree_cell_init_overflow_reader ?at (of_nat (cell_off node d))) (node_mem node)
      (Some buffer) (of_nat (length buffer)) = Some (BTREE_OK, \<lparr>co_inline_size = of_nat (length p + 8), co_total_size = tot,
        co_overflow_page_id = pid, co_inline_payload = p @ drop (length p) buffer\<rparr>, Some (p @ drop (length p) buffer), r)"
    using read_overflow_ex_slices [of ?at "of_nat (cell_off node d)" "node_mem node" "of_nat (length p + 8)"
        "of_nat (length buffer)" "Some buffer", unfolded m] O buf k cn
    by auto
  moreover note inline_part_word [of "length p"]
  moreover have "unat (of_nat (length p) :: u32) = length p" using O(7) by (simp add: unat_u32_of_nat)
  moreover have "\<not> tot > of_nat (length buffer)" using buf(2) k by (simp add: word_less_nat_alt)
  ultimately show ?thesis
    using A flags at by (simp add: btree_node_read_at_def Let_def del: of_nat_diff of_nat_add)
qed

lemma keyof_overflow_at:
  assumes wf: "node_wf node" and d: "d < n_keys node"
    and flags: "btree_pkey_is_cell_type (pk_flags (pkey node d)) PKEY_FLAG_CELL_TYPE_OVERFLOW"
    and pay: "payload_at node d = spilled tot pid p"
  shows "\<exists>junk. ibtree_keyof ctx node (of_nat d) = Some (p @ junk, of_nat (length p), tot, pid)"
proof -
  let ?at = "node_end node - cell_off node d" and ?n = "of_nat (length p + 12) :: u32"
  note A = cell_access [OF wf d] and O = overflow_cell_at [OF wf d pay]
  have un: "unat ?n = length p + 12" using O(5,8) by (intro unat_u32_of_nat) simp
  have m: "min (unat (0 :: u32)) (min (unat (of_nat (length p + 8) :: u32) - 8) (unat ?n - 12)) = 0" by simp
  have "mem_read32 (node_mem node) ?at = Some (of_nat (length p + 8))"
    using O(1,5,6) by (simp add: mem_read32_rd32 rd32_def)
  then have size: "btu_get_cell_buffer_size node (of_nat d) = Some ?n"
    using A(1) by (simp add: btu_get_cell_buffer_size_def)
  obtain r where r: "btree_cell_read_overflow_ex (btree_cell_init_overflow_reader ?at ?n) (node_mem node) None 0 =
      Some (BTREE_OK, \<lparr>co_inline_size = of_nat (length p + 8), co_total_size = tot,
        co_overflow_page_id = pid, co_inline_payload = drop (?at + 12) (node_mem node)\<rparr>, None, r)"
    using read_overflow_ex_slices [of ?at ?n "node_mem node" "of_nat (length p + 8)" 0 None, unfolded m] O un
    by (auto simp del: of_nat_add)
  have "drop (?at + 12) (node_mem node) = p @ drop (length p) (drop (?at + 12) (node_mem node))"
    using O(4) append_take_drop_id [of "length p" "drop (?at + 12) (node_mem node)"] by (simp add: slice_def)
  then show ?thesis
    using r size A(1) flags inline_part_word [of "length p"] read_cell_at(2) [OF wf d]
    by (auto simp: ibtree_keyof_def simp del: of_nat_add)
qed

section \<open>Writing one\<close>

lemma write_node_page:
  assumes ready: "pager_ready pg" and wf: "node_wf node" and w: "can_write co_room pg (node_page_number node)"
    and len: "length (node_mem node) = dps pg" and sz: "page_size (node_page node) = pgr_page_size pg"
  shows "\<exists>pg'. pager_write_page pg (node_page node) = Some (PAGER_OK, pg', node_page (stored node)) \<and>
    pager_ready pg' \<and> node_on pg' (stored node) \<and>
    disk_of cf_data pg' = (disk_of cf_data pg)(node_page_number node \<mapsto> node_mem (stored node)) \<and>
    same_pager co_room pg pg' \<and> node_wf (stored node) \<and> node_abs (stored node) = node_abs node \<and>
    n_keys (stored node) = n_keys node"
proof -
  obtain fs where inv: "pager_inv cf_data pg" and ops: "pgr_ops pg = CStdOps fs"
    using ready by (auto simp: pager_ready_def)
  have shape: "node_shape node" using wf by (simp add: node_wf_def node_inv_def)
  then have pid: "page_id (node_page node) = node_page_number node" by (simp add: node_shape_def)
  have pf: "page_for pg (node_page node)" using len by (simp add: page_for_def node_mem_def)
  from cstd.write_page_existing [OF inv ops pf] w pid
  obtain pg' where W: "pager_write_page pg (node_page node) = Some (PAGER_OK, pg', node_page (stored node))"
    "pager_inv cf_data pg'"
    "disk_of cf_data pg' = (disk_of cf_data pg)(node_page_number node \<mapsto> in_use (node_page node))"
    "same_pager co_room pg pg'"
    by (auto simp: stored_def)
  have mem: "node_mem (stored node) = in_use (node_page node)" by (simp add: stored_def node_mem_def)
  have "12 \<le> length (page_mem (node_page node))"
    using shape node_shape_header [OF shape] by (simp add: node_shape_def node_end_def node_mem_def)
  then have p: "same_payload ((node_page node)\<lparr>page_mem := in_use (node_page node),
      page_status := PAGER_OK\<rparr>) (node_page node)"
    by (rule in_use_same_payload [OF refl])
  note S = same_payload_node [OF wf p, folded stored_def]
  have "pager_ready pg'" using W(2,4) ops by (auto simp: pager_ready_def same_pager_def)
  moreover have "node_on pg' (stored node)"
    using W(3,4) sz mem by (simp add: node_on_def same_pager_def stored_def)
  ultimately show ?thesis using W S(1-3) mem by auto
qed

lemma nth_node_abs: "d < n_keys node \<Longrightarrow>
  node_abs node ! d = (pk_key (pkey node d), pk_flags (pkey node d), payload_at node d)"
  by (simp add: node_abs_def node_entry_def payload_at_def)

lemma nth_insert_at: "i \<le> length xs \<Longrightarrow> insert_at i x xs ! i = x"
  by (simp add: insert_at_def nth_append)

lemma overflow_flags_overflow: "btree_pkey_is_cell_type overflow_flags PKEY_FLAG_CELL_TYPE_OVERFLOW"
  by (simp add: overflow_flags_def btree_pkey_set_cell_type_def btree_pkey_is_cell_type_def cell_type_code_def)

lemma insert_overflow_node:
  fixes tot pid :: u32
  assumes wf: "node_wf node" and pos: "insert_pos node index \<le> n_keys node" and ip: "ip + 24 \<le> n_free node" "ip \<le> length data"
    and small: "length data < 2147483648"
  defines "cell \<equiv> \<lparr>co_inline_size = of_nat (ip + 8), co_total_size = tot, co_overflow_page_id = pid, co_inline_payload = data\<rparr>"
  shows "\<exists>nd. btree_node_insert_overflow node index key cell = Some (BTREE_OK, nd) \<and> node_wf nd \<and>
    node_abs nd = insert_at (insert_pos node index) (key, overflow_flags, spilled tot pid (take ip data)) (node_abs node) \<and>
    n_keys nd = n_keys node + 1 \<and> node_page_number nd = node_page_number node \<and>
    length (node_mem nd) = length (node_mem node) \<and> page_size (node_page nd) = page_size (node_page node)"
proof -
  let ?i = "insert_pos node index" and ?img = "overflow_image cell"
  have inv: "node_inv node" using wf by (simp add: node_wf_def)
  have u: "unat (co_inline_size cell) = ip + 8"
    using ip(2) small by (simp add: cell_def unat_u32_of_nat del: of_nat_add)
  have min: "8 \<le> unat (co_inline_size cell)" "unat (co_inline_size cell) - 8 \<le> length (co_inline_payload cell)"
    using ip(2) u by (simp_all add: cell_def)
  have big: "unat (co_inline_size cell) < 2147483648" "unat (co_inline_size cell) + 16 \<le> n_free node"
    using u ip node_end_small [OF node_inv_shape [OF inv]] inv by (simp_all add: node_inv_def)
  have len: "length ?img = ip + 12" using length_overflow_image [OF min] u by simp
  note P = overflow_image_parts [OF min]
  have fits: "length ?img + 12 \<le> n_free node" "4 \<le> length ?img" "unat (rd32 ?img 0) + 4 = length ?img"
    using len ip(1) P(1) u by simp_all
  note W = insert_cell_wf [OF wf pos fits, where key = key and flags = overflow_flags]
  note F = cell_inserted_facts [OF inv pos fits(1), where key = key and flags = overflow_flags]
  have "drop 4 ?img = spilled tot pid (take ip data)" using P(2) u by (simp add: cell_def spilled_def)
  then show ?thesis
    using insert_overflow_fits [OF inv pos min(2,1) big] W(1,2) F(1,4)
    by (auto simp: node_end_def cell_inserted_def cell_written_def Let_def set_node_mem_def node_mem_def)
qed

text \<open>How much of a large payload stays in the node.\<close>

definition kept_inline :: "btree_node \<Rightarrow> nat" where
  "kept_inline node = min (unat (btree_node_max_cell_size node)) (n_free node) - 24"

lemma kept_inline_word:
  assumes wf: "node_wf node" and "24 \<le> unat (btree_node_max_cell_size node)" "24 \<le> n_free node"
  shows "c_min (btree_node_max_cell_size node) (of_nat (n_free node)) = of_nat (kept_inline node) + 24"
    "kept_inline node + 24 < 2147483648" "kept_inline node + 24 \<le> n_free node"
proof -
  have inv: "node_inv node" using wf by (simp add: node_wf_def)
  have m: "unat (btree_node_max_cell_size node) < 2147483648"
    using u32_bound [of "btu_get_node_heap_size node"]
    by (simp add: btree_node_max_cell_size_def unat_div)
  have f: "n_free node < 2147483648"
    using node_end_small [OF node_inv_shape [OF inv]] inv by (simp add: node_inv_def)
  then have uf: "unat (of_nat (n_free node) :: u32) = n_free node" by (simp add: unat_u32_of_nat)
  have k: "kept_inline node + 24 = min (unat (btree_node_max_cell_size node)) (n_free node)"
    using assms(2,3) by (simp add: kept_inline_def)
  have "unat (c_min (btree_node_max_cell_size node) (of_nat (n_free node))) = kept_inline node + 24"
    using unat_c_min [OF m, of "of_nat (n_free node)"] f uf k by simp
  then have "c_min (btree_node_max_cell_size node) (of_nat (n_free node)) = of_nat (kept_inline node + 24)"
    by (metis u32_of_nat_unat)
  then show "c_min (btree_node_max_cell_size node) (of_nat (n_free node)) = of_nat (kept_inline node) + 24" by simp
  show "kept_inline node + 24 < 2147483648" "kept_inline node + 24 \<le> n_free node" using k m f by simp_all
qed

lemma overflow_sizes:
  assumes "n + 24 < 2147483648"
  shows "btree_node_heap_required_for_insertion btree_cell_overflow_min_disk_size = 24"
    "btree_cell_inline_size_from_disk_size (btree_cell_overflow_disk_size (of_nat n)) = of_nat (n + 8)"
    "\<not> btree_node_heap_required_for_insertion btree_cell_overflow_min_disk_size > of_nat n + 24"
proof -
  show e: "btree_node_heap_required_for_insertion btree_cell_overflow_min_disk_size = 24"
    by (simp add: btree_node_heap_required_for_insertion_def btree_cell_overflow_min_disk_size_def layout_defs)
  show "btree_cell_inline_size_from_disk_size (btree_cell_overflow_disk_size (of_nat n)) = of_nat (n + 8)"
    by (simp add: btree_cell_inline_size_from_disk_size_def btree_cell_overflow_disk_size_def
        btree_cell_overflow_min_disk_size_def)
  have "unat (of_nat n + 24 :: u32) = n + 24" using assms unat_u32_of_nat [of "n + 24"] by simp
  then show "\<not> btree_node_heap_required_for_insertion btree_cell_overflow_min_disk_size > of_nat n + 24"
    unfolding e by (simp add: word_less_nat_alt)
qed

text \<open>The pages of the chain are written first; then the node is read again and gets the cell.\<close>

lemma write_overflow_run:
  assumes wf: "node_wf node" and on: "node_on pg node" and stock: "pager_stock pg ys n"
    and page: "node_page_number node \<notin> set ys" and pos: "insert_pos node index \<le> n_keys node"
    and big: "unat (btree_node_max_cell_size node) < length data + 16" "length data < 2147483648"
    and room: "24 \<le> unat (btree_node_max_cell_size node)" "24 \<le> n_free node"
    and cap: "8 < capacity pg" and n: "length data - kept_inline node \<le> n * (capacity pg - 8)"
  shows "\<exists>pg' nd pid chunks. btree_node_write_ex node pg index key 0 data (of_nat (length data)) WRITER_EX_MODE_RAW =
      Some (BTREE_OK, pg', stored nd) \<and> node_wf (stored nd) \<and> node_on pg' (stored nd) \<and> pager_ready pg' \<and>
    node_abs (stored nd) = insert_at (insert_pos node index) (key, overflow_flags,
      spilled (of_nat (length data)) pid (take (kept_inline node) data)) (node_abs node) \<and>
    n_keys (stored nd) = n_keys node + 1 \<and>
    chain (disk_of cf_data pg') (capacity pg') pid chunks \<and> concat chunks = drop (kept_inline node) data \<and>
    dps pg' = capacity pg' + 12 \<and> kept_inline node < length data"
proof -
  let ?ip = "kept_inline node" and ?w = "btree_overflow_max_write_size pg" and ?L = "of_nat (length data) :: u32"
  note K = kept_inline_word [OF wf room]
  have shape: "node_shape node" using wf by (simp add: node_wf_def node_inv_def)
  have pid_node: "page_id (node_page node) = node_page_number node" using shape by (simp add: node_shape_def)
  have ip: "?ip < length data" using big(1) room by (simp add: kept_inline_def)
  have uip: "unat (of_nat ?ip :: u32) = ?ip" using K(2) by (simp add: unat_u32_of_nat)
  have uL: "unat ?L = length data" using big(2) by (simp add: unat_u32_of_nat)
  have w: "unat ?w = capacity pg - 8"
    using cap by (simp add: btree_overflow_max_write_size_def capacity_def unat_sub_ok)
  have "unat (btree_node_heap_required_for_insertion (btree_cell_inline_disk_size ?L)) = length data + 16"
    using big(2) uL by (simp add: btree_node_heap_required_for_insertion_def btree_cell_inline_disk_size_def
        layout_defs unat_add_ok)
  then have no_inline: "\<not> btree_node_heap_required_for_insertion (btree_cell_inline_disk_size ?L) \<le> btree_node_max_cell_size node"
    using big(1) by (simp add: word_le_nat_alt)
  obtain off psize num pg1 pid S chunks ys' where
    R: "last_slice ?w ?ip (?L - of_nat ?ip) 1 = Some (off, psize, num)"
      "write_slices pg data (of_nat ?ip) ?w (?L - of_nat ?ip) off psize num 0 0 = Some (BTREE_OK, pg1, 0, pid)"
      "holds_chain pg1 S ys' pid chunks" "concat chunks = drop ?ip data" "pager_stock pg1 ys' 0"
      "same_pager co_room pg pg1" "others_kept pg pg1 S" "S \<subseteq> set ys \<union> {j. pgr_max_page pg < j}"
    using write_slices_run [OF stock, of ?w data "of_nat ?ip"] w cap ip big(2) n uip by auto
  have ready: "pager_ready pg" "pager_ready pg1" and dps: "dps pg1 = capacity pg1 + 12" and room1: "more_room pg1 0"
    using stock R(5) by (simp_all add: pager_stock_def)
  have same: "dps pg1 = dps pg" "capacity pg1 = capacity pg" "pgr_page_size pg1 = pgr_page_size pg"
    using R(6) by (simp_all add: same_pager_def capacity_def dps_def)
  have "node_page_number node \<le> pgr_max_page pg"
    using on by (auto simp: node_on_def disk_of_def allocated_def split: if_splits)
  then have nS: "node_page_number node \<notin> S" using R(8) page by auto
  then obtain m where m: "disk_of cf_data pg1 (node_page_number node) = Some m" "drop 9 m = drop 9 (node_mem node)"
    using R(7) on by (fastforce simp: others_kept_def node_on_def)
  have len: "length (node_mem node) = dps pg" "length m = dps pg"
    using node_on_length [OF ready(1) on] disk_of_length [of cf_data pg1 _ m] ready(2) m(1) same
    by (auto simp: pager_ready_def pager_inv_def)
  have pf: "page_for pg1 (node_page node)" using len same by (simp add: page_for_def node_mem_def)
  obtain fs where inv1: "pager_inv cf_data pg1" and ops1: "pgr_ops pg1 = CStdOps fs"
    using ready(2) by (auto simp: pager_ready_def)
  define node1 where "node1 = node\<lparr>node_page := (node_page node)\<lparr>page_mem := m\<rparr>\<rparr>"
  have st: "page_status (node_page node) = PAGER_OK" using on by (simp add: node_on_def)
  then have node1': "node1 = node\<lparr>node_page := (node_page node)\<lparr>page_id := node_page_number node,
      page_status := PAGER_OK, page_mem := m\<rparr>\<rparr>"
    using pid_node by (simp add: node1_def)
  obtain c where rd: "pager_read_page pg1 \<lparr>sel_page_id = node_page_number node\<rparr> (node_page node) =
      Some (PAGER_OK, pg1\<lparr>pgr_cache := c\<rparr>, node_page node1)" and inv2: "pager_inv cf_data (pg1\<lparr>pgr_cache := c\<rparr>)"
    using cstd.cached_read_present [OF inv1 _ pf ops1, of "\<lparr>sel_page_id = node_page_number node\<rparr>"] m(1)
    by (auto simp: pager_read_page_def node1')
  have "drop 12 m = drop 12 (node_mem node)"
    using arg_cong [OF m(2), of "drop 3"] by simp
  then have p: "same_payload ((node_page node)\<lparr>page_mem := m\<rparr>) (node_page node)"
    using len by (simp add: same_payload_def node_mem_def)
  note N = same_payload_node [OF wf p, folded node1_def]
  have pos1: "insert_pos node1 index = insert_pos node index"
    by (simp add: insert_pos_def N(3))
  have fields: "node_page_number node1 = node_page_number node" "length (node_mem node1) = dps pg"
    "page_size (node_page node1) = pgr_page_size pg"
    using len on by (simp_all add: node1_def node_mem_def node_on_def)
  obtain nd where nd: "btree_node_insert_overflow node1 index key
      \<lparr>co_inline_size = of_nat (?ip + 8), co_total_size = ?L, co_overflow_page_id = pid, co_inline_payload = data\<rparr> =
      Some (BTREE_OK, nd)" "node_wf nd"
    "node_abs nd = insert_at (insert_pos node index) (key, overflow_flags, spilled ?L pid (take ?ip data)) (node_abs node)"
    "n_keys nd = n_keys node + 1" "node_page_number nd = node_page_number node"
    "length (node_mem nd) = dps pg" "page_size (node_page nd) = pgr_page_size pg"
    using insert_overflow_node [OF N(1), of index ?ip data key ?L pid, unfolded pos1 N(2-4) fields, OF pos K(3) _ big(2)]
      ip by auto
  have w2: "can_write co_room (pg1\<lparr>pgr_cache := c\<rparr>) (node_page_number nd)"
  proof -
    have "node_page_number node \<noteq> 0 \<and> node_page_number node \<le> pgr_max_page pg1"
      using m(1) by (auto simp: disk_of_def allocated_def split: if_splits)
    then have "can_write co_room pg1 (node_page_number node)"
      using room_can_write [OF room1] by (simp add: word_le_nat_alt)
    then show ?thesis by (simp add: can_write_def dps_def nd(5))
  qed
  have ready2: "pager_ready (pg1\<lparr>pgr_cache := c\<rparr>)" using inv2 ops1 by (auto simp: pager_ready_def)
  obtain pg' where W: "pager_write_page (pg1\<lparr>pgr_cache := c\<rparr>) (node_page nd) = Some (PAGER_OK, pg', node_page (stored nd))"
    "pager_ready pg'" "node_on pg' (stored nd)"
    "disk_of cf_data pg' = (disk_of cf_data pg1)(node_page_number node \<mapsto> node_mem (stored nd))"
    "same_pager co_room (pg1\<lparr>pgr_cache := c\<rparr>) pg'" "node_wf (stored nd)" "node_abs (stored nd) = node_abs nd"
    "n_keys (stored nd) = n_keys nd"
    using write_node_page [OF ready2 nd(2) w2] nd(5-7) same by (auto simp: dps_def)
  have cap': "capacity pg' = capacity pg1" "dps pg' = dps pg1"
    using W(5) by (simp_all add: same_pager_def capacity_def dps_def)
  have "chain (disk_of cf_data pg') (capacity pg') pid chunks"
    unfolding cap'(1)
  proof (rule chain_mono)
    show "chain (disk_of cf_data pg1 |` S) (capacity pg1) pid chunks" using R(3) by (simp add: holds_chain_def)
    show "\<exists>m'. disk_of cf_data pg' j = Some m' \<and> drop 9 m' = drop 9 m0" if "(disk_of cf_data pg1 |` S) j = Some m0" for j m0
      using that nS W(4) by (auto simp: restrict_map_def split: if_splits)
  qed
  moreover have "btree_node_write_ex node pg index key 0 data ?L WRITER_EX_MODE_RAW = Some (BTREE_OK, pg', stored nd)"
    using no_inline K(1) overflow_sizes [OF K(2)] header_gets(2) [OF shape] R(1,2) rd nd(1) W(1) uip pid_node
    by (simp add: btree_node_write_ex_def Let_def) (simp add: stored_def node1_def)
  ultimately show ?thesis
    using W nd(2-4) R(4) dps cap' ip by (intro exI [of _ pg'] exI [of _ nd] exI [of _ pid] exI [of _ chunks]) simp
qed

text \<open>
  C33: a payload too large for its node is written to a chain of overflow pages, and reading the new
  entry of the node returns it.  The node keeps a well-formed page, gets one entry with the total
  size, the first page of the chain and as much of the payload as the cell takes, and is on disk.
\<close>

theorem write_overflow_then_read:
  assumes "node_wf node" and "node_on pg node" and "pager_stock pg ys n"
    and "node_page_number node \<notin> set ys" and "insert_pos node index \<le> n_keys node"
    and "unat (btree_node_max_cell_size node) < length data + 16" and "length data \<le> length buffer"
    and "24 \<le> unat (btree_node_max_cell_size node)" and "24 \<le> n_free node"
    and "8 < capacity pg" and "length data - kept_inline node \<le> n * (capacity pg - 8)"
    and "length buffer < 2147483648"
  shows "\<exists>pg' pg'' node' pid. btree_node_write_ex node pg index key 0 data (of_nat (length data)) WRITER_EX_MODE_RAW =
      Some (BTREE_OK, pg', node') \<and> node_wf node' \<and> node_on pg' node' \<and>
    node_abs node' = insert_at (insert_pos node index) (key, overflow_flags,
      spilled (of_nat (length data)) pid (take (kept_inline node) data)) (node_abs node) \<and>
    btree_node_read_at pg' node' (of_nat (insert_pos node index)) buffer (of_nat (length buffer)) =
      Some (BTREE_OK, pg'', data @ drop (length data) buffer)"
proof -
  let ?i = "insert_pos node index" and ?L = "of_nat (length data) :: u32" and ?B = "of_nat (length buffer) :: u32"
  let ?p = "take (kept_inline node) data"
  have "length data < 2147483648" using assms(7,12) by (rule le_less_trans)
  from write_overflow_run [OF assms(1-6) this assms(8-11), of key]
  obtain pg' nd pid chunks where
    W: "btree_node_write_ex node pg index key 0 data ?L WRITER_EX_MODE_RAW = Some (BTREE_OK, pg', stored nd)"
      "node_wf (stored nd)" "node_on pg' (stored nd)" "pager_ready pg'"
      "node_abs (stored nd) = insert_at ?i (key, overflow_flags, spilled ?L pid ?p) (node_abs node)"
      "n_keys (stored nd) = n_keys node + 1"
    and C: "chain (disk_of cf_data pg') (capacity pg') pid chunks" "concat chunks = drop (kept_inline node) data"
      "dps pg' = capacity pg' + 12" "kept_inline node < length data"
    by blast
  have at: "?i < n_keys (stored nd)" using assms(5) W(6) by simp
  have "node_abs (stored nd) ! ?i = (key, overflow_flags, spilled ?L pid ?p)"
    unfolding W(5) using assms(5) by (intro nth_insert_at) (simp add: node_abs_def)
  then have ent: "pk_flags (pkey (stored nd) ?i) = overflow_flags" "payload_at (stored nd) ?i = spilled ?L pid ?p"
    using nth_node_abs [OF at] by simp_all
  have uB: "unat ?B = length buffer" and uL: "unat ?L = length data"
    using assms(7,12) by (simp_all add: unat_u32_of_nat)
  have lp: "length ?p = kept_inline node" using C(4) by simp
  have up: "unat (of_nat (length ?p) :: u32) = length ?p"
    using lp C(4) assms(7,12) by (intro unat_u32_of_nat) simp
  have "btree_node_read_at pg' (stored nd) (of_nat ?i) buffer ?B =
      read_overflow_chain pg' pid (?p @ drop (length ?p) buffer) ?B (length ?p) (of_nat (length ?p))"
    using ent overflow_flags_overflow assms(7,12) uL C(4)
    by (intro read_overflow_at [OF W(2) at]) auto
  moreover obtain c where "read_overflow_chain pg' pid (?p @ drop (length ?p) buffer) ?B (length ?p) (of_nat (length ?p)) =
      Some (BTREE_OK, pg'\<lparr>pgr_cache := c\<rparr>, data @ drop (length data) buffer)"
    using read_chain [OF C(1) refl refl W(4) C(3), of "?p @ drop (length ?p) buffer" ?B "of_nat (length ?p)", unfolded up C(2)]
      uB lp C(4) assms(7) by auto
  ultimately show ?thesis using W(1-3,5) by auto
qed

end
