(* ===== verification/NodeSplit.thy ===== *)
theory NodeSplit
  imports BTreeAlg LeafInsert
begin

text \<open>
  Moving cells from one node to another, and splitting a node in two: the entries of the halves, put
  together, are the entries of the node.
\<close>

section \<open>Nodes with the same cells\<close>

text \<open>A change of the header that spares the counters leaves the entries alone.\<close>

lemma same_cells:
  assumes wf: "node_wf node" and len: "length m = node_end node"
    and rd: "\<And>p k. node_header node + 20 \<le> p \<Longrightarrow> slice m p k = slice (node_mem node) p k"
    and hd: "\<And>f. f \<in> {4, 8, 16} \<Longrightarrow> rd32 m (node_header node + f) = rd32 (node_mem node) (node_header node + f)"
  defines "node' \<equiv> set_node_mem node m"
  shows "node_wf node'" "node_abs node' = node_abs node" "n_keys node' = n_keys node"
    "n_free node' = n_free node" "n_hwm node' = n_hwm node" "pkey node' i = pkey node i"
proof -
  let ?h = "node_header node"
  have e: "node_end node' = node_end node" "node_header node' = ?h" using len by (simp_all add: node'_def)
  have m: "node_mem node' = m" by (simp add: node'_def)
  show nk: "n_keys node' = n_keys node" and fr: "n_free node' = n_free node" and hw: "n_hwm node' = n_hwm node"
    using hd by (simp_all add: n_keys_def n_free_def n_hwm_def e m)
  have word: "rd32 m p = rd32 (node_mem node) p" if "?h + 20 \<le> p" for p
    using rd [OF that] by (simp add: rd32_def)
  show pk: "pkey node' i = pkey node i" for i by (simp add: pkey_def pkey_of_def word e m)
  have off: "cell_off node' i = cell_off node i" for i by (simp add: cell_off_def pk)
  have in_heap: "?h + 20 \<le> node_end node - cell_off node i" if "i < n_keys node" for i
    using cell_facts(2,3) [OF wf that] by linarith
  have sz: "cell_size node' (cell_off node i) = cell_size node (cell_off node i)" if "i < n_keys node" for i
    using word [OF in_heap [OF that]] by (simp add: cell_size_def e m)
  have pay: "cell_payload node' (cell_off node i) = cell_payload node (cell_off node i)"
    if "i < n_keys node" for i
    using rd [OF trans_le_add1 [OF in_heap [OF that], of 4]] by (simp add: cell_payload_def e m sz [OF that])
  show "node_abs node' = node_abs node" by (simp add: node_abs_def nk node_entry_def pk off pay)
  have "node_shape node'" using wf len by (simp add: node'_def node_wf_def node_inv_def)
  moreover have "cell_ok node' i" if "i < n_keys node" for i
    using wf that sz [OF that] by (simp add: node_wf_def node_inv_def cell_ok_def off hw)
  ultimately have inv: "node_inv node'" using wf by (simp add: node_wf_def node_inv_def e nk fr hw)
  have "cell_lo node' i = cell_lo node i" if "i < n_keys node" for i
    by (simp add: cell_lo_def off sz [OF that])
  then have "cells_disjoint node'" using wf unfolding node_wf_def cells_disjoint_def nk off by metis
  with inv show "node_wf node'" by (simp add: node_wf_def)
qed

text \<open>The same page, with other bytes on it.\<close>

definition same_layout :: "btree_node \<Rightarrow> btree_node \<Rightarrow> bool" where
  "same_layout node' node \<longleftrightarrow> node' = set_node_mem node (node_mem node') \<and> node_end node' = node_end node"

lemma same_layout_refl [simp]: "same_layout node node"
  by (simp add: same_layout_def set_node_mem_def node_mem_def)

lemma same_layout_set: "length m = node_end node \<Longrightarrow> same_layout (set_node_mem node m) node"
  by (simp add: same_layout_def)

lemma same_layout_trans: "same_layout c b \<Longrightarrow> same_layout b a \<Longrightarrow> same_layout c a"
  unfolding same_layout_def by (metis node_mem_set(10))

lemma same_layout_facts:
  assumes "same_layout node' node"
  shows "node_page node' = (node_page node)\<lparr>page_mem := node_mem node'\<rparr>"
    "node_page_number node' = node_page_number node" "node_header node' = node_header node"
    "btree_node_max_cell_size node' = btree_node_max_cell_size node"
    "length (node_mem node') = length (node_mem node)"
proof -
  have n: "node' = set_node_mem node (node_mem node')" using assms by (simp add: same_layout_def)
  from arg_cong [OF n, of node_page] show "node_page node' = (node_page node)\<lparr>page_mem := node_mem node'\<rparr>"
    by (simp add: set_node_mem_def)
  from arg_cong [OF n, of node_page_number] show "node_page_number node' = node_page_number node" by simp
  from arg_cong [OF n, of node_header] show "node_header node' = node_header node" by simp
  from arg_cong [OF n, of btree_node_max_cell_size] show "btree_node_max_cell_size node' = btree_node_max_cell_size node"
    by simp
  show "length (node_mem node') = length (node_mem node)" using assms by (simp add: same_layout_def node_end_def)
qed

text \<open>What no insertion of a cell changes: everything in front of the counters, and the right child.\<close>

definition n_right :: "btree_node \<Rightarrow> u32" where
  "n_right node = rd32 (node_mem node) (node_header node + 12)"

definition same_frame :: "btree_node \<Rightarrow> btree_node \<Rightarrow> bool" where
  "same_frame node' node \<longleftrightarrow> same_layout node' node \<and>
     slice (node_mem node') 0 (node_header node + 4) = slice (node_mem node) 0 (node_header node + 4) \<and>
     n_right node' = n_right node"

lemma same_frame_refl [simp]: "same_frame node node"
  by (simp add: same_frame_def)

lemma same_frame_trans: "same_frame c b \<Longrightarrow> same_frame b a \<Longrightarrow> same_frame c a"
  using same_layout_facts(3) [of b a] same_layout_trans [of c b a] by (simp add: same_frame_def)

lemma same_frame_facts:
  assumes "same_frame node' node"
  shows "node_page node' = (node_page node)\<lparr>page_mem := node_mem node'\<rparr>"
    "node_page_number node' = node_page_number node" "node_header node' = node_header node"
    "btree_node_max_cell_size node' = btree_node_max_cell_size node"
    "length (node_mem node') = length (node_mem node)"
  using assms same_layout_facts [of node' node] by (simp_all add: same_frame_def)

lemma same_frame_leaf:
  assumes "same_frame node' node" and "node_shape node"
  shows "node_is_leaf node' = node_is_leaf node"
proof -
  let ?h = "node_header node"
  have len: "length (node_mem node') = length (node_mem node)" "?h < length (node_mem node)"
    using same_frame_facts(5) [OF assms(1)] assms(2) by (simp_all add: node_shape_def node_end_def)
  have "node_mem node' ! ?h = slice (node_mem node') 0 (?h + 4) ! ?h" using len by (simp add: slice_def)
  also have "\<dots> = slice (node_mem node) 0 (?h + 4) ! ?h" using assms(1) by (simp add: same_frame_def)
  also have "\<dots> = node_mem node ! ?h" using len by (simp add: slice_def)
  finally show ?thesis using len same_frame_facts(3) [OF assms(1)]
    by (simp add: node_is_leaf_def arr_get_def layout_defs)
qed

section \<open>Moving cells\<close>

definition entry_room :: "entry \<Rightarrow> nat" where
  "entry_room e = length (snd (snd e)) + 16"

text \<open>A cell behind the last one.\<close>

definition at_end :: insertion_index where
  "at_end = \<lparr>ii_mode = KLIM_END, ii_index = 0\<rparr>"

lemma insert_end_run:
  assumes dst: "node_wf dst" and cell: "unat (ci_inline_size cell) \<le> length (ci_payload cell)"
    and room: "unat (ci_inline_size cell) + 16 \<le> n_free dst"
  shows "\<exists>nd. btree_node_insert_inline_ex dst at_end key cell flags = Some (BTREE_OK, nd) \<and> node_wf nd \<and>
    node_abs nd = node_abs dst @ [(key, flags, take (unat (ci_inline_size cell)) (ci_payload cell))] \<and>
    n_free nd = n_free dst - (unat (ci_inline_size cell) + 16) \<and> n_keys nd = n_keys dst + 1 \<and> same_frame nd dst"
proof -
  have inv: "node_inv dst" using dst by (simp add: node_wf_def)
  have small: "unat (ci_inline_size cell) < 2147483648"
    using room node_end_small [OF node_inv_shape [OF inv]] inv node_shape_header [OF node_inv_shape [OF inv]]
    by (simp add: node_inv_def)
  have ins: "insert_pos dst at_end = n_keys dst" by (simp add: insert_pos_def at_end_def)
  define nd where "nd = cell_inserted dst (n_keys dst) key (inline_image cell) flags"
  have run: "btree_node_insert_inline_ex dst at_end key cell flags = Some (BTREE_OK, nd)"
    using insert_inline_ex_fits [OF inv, of at_end cell] cell small room by (simp add: ins nd_def)
  have len: "length (inline_image cell) = unat (ci_inline_size cell) + 4" using length_inline_image [OF cell] by simp
  have img: "4 \<le> length (inline_image cell)" "unat (rd32 (inline_image cell) 0) + 4 = length (inline_image cell)"
    "drop 4 (inline_image cell) = take (unat (ci_inline_size cell)) (ci_payload cell)"
    using len by (simp_all add: inline_image_def rd32_def slice_def)
  have fits: "length (inline_image cell) + 12 \<le> n_free dst" using room len by simp
  note W = insert_cell_wf [OF dst le_refl fits img(1,2), where key = key and flags = flags, folded nd_def]
  note F = cell_inserted_facts [OF inv le_refl fits, where key = key and flags = flags, folded nd_def]
  have "same_frame nd dst"
    using F(1,2,8) by (simp add: same_frame_def same_layout_def n_right_def rd32_def)
      (simp add: nd_def cell_inserted_def cell_written_def Let_def)
  moreover have "node_abs nd = node_abs dst @ [(key, flags, take (unat (ci_inline_size cell)) (ci_payload cell))]"
    using W(2) by (simp add: img(3) insert_at_def) (simp add: node_abs_def)
  ultimately show ?thesis using run W(1) F(4,5) len by auto
qed

text \<open>A cell goes to another node as it is when it is not too large for one there.\<close>

lemma move_cell_run:
  assumes src: "node_wf src" and i: "i < n_keys src" and dst: "node_wf dst"
    and max: "entry_room (node_abs src ! i) \<le> unat (btree_node_max_cell_size dst)"
    and room: "entry_room (node_abs src ! i) \<le> n_free dst"
  shows "\<exists>nd. btree_node_move_cell src dst (of_nat i) pager = Some (BTREE_OK, nd, pager) \<and> node_wf nd \<and>
    node_abs nd = node_abs dst @ [node_abs src ! i] \<and>
    n_free nd = n_free dst - entry_room (node_abs src ! i) \<and> n_keys nd = n_keys dst + 1 \<and> same_frame nd dst"
proof -
  let ?off = "cell_off src i"
  note C = cell_facts [OF src i] and R = read_cell_at [OF src i]
  have len: "length (cell_payload src ?off) = cell_size src ?off" by (rule C(5))
  have e: "node_abs src ! i = (pk_key (pkey src i), pk_flags (pkey src i), cell_payload src ?off)"
    using i by (simp add: node_abs_def node_entry_def)
  then have er: "entry_room (node_abs src ! i) = cell_size src ?off + 16" by (simp add: entry_room_def len)
  have off: "?off \<le> node_end src" "cell_size src ?off + 4 \<le> ?off" using C by (simp_all add: cell_len_def)
  have at: "node_end src - ?off + 4 + cell_size src ?off \<le> length (node_mem src)" using off by (simp add: node_end_def [symmetric])
  have "unat (pk_cell_offset (pkey src i)) = ?off" by (simp add: cell_off_def)
  moreover have small: "?off < 2147483648"
    using C(2,3) node_end_small [OF C(4)] node_shape_header [OF C(4)] by linarith
  ultimately have hw: "btu_calc_highwater_offset src (pk_cell_offset (pkey src i)) = Some (node_end src - ?off)"
    using highwater_offset [OF C(4), of "pk_cell_offset (pkey src i)"] off(1) by simp
  define cell where "cell = \<lparr>ci_inline_size = rd32 (node_mem src) (node_end src - ?off),
    ci_payload = drop (node_end src - ?off + 4) (node_mem src)\<rparr>"
  have isz: "unat (ci_inline_size cell) = cell_size src ?off" by (simp add: cell_def cell_size_def)
  have fits: "unat (ci_inline_size cell) \<le> length (ci_payload cell)" using isz at by (simp add: cell_def)
  have pay: "take (unat (ci_inline_size cell)) (ci_payload cell) = cell_payload src ?off"
    unfolding isz by (simp add: cell_def cell_payload_def slice_def)
  have cell: "btree_cell_read_inline (drop (node_end src - ?off) (node_mem src)) None 0 = Some (cell, None, ci_inline_size cell)"
    using at by (simp add: btree_cell_read_inline_def mem_read32_rd32 cell_def)
      (simp add: rd32_def slice_def add.commute)
  have cs: "btu_get_cell_buffer_size src (of_nat i) = Some (ci_inline_size cell + 4)"
    using R(2) hw at by (simp add: btu_get_cell_buffer_size_def btu_get_cell_buffer_def mem_read32_rd32 cell_def)
  have "unat (ci_inline_size cell + 4) = cell_size src ?off + 4"
    using isz off(2) small by (subst unat_add_ok) simp_all
  then have le: "ci_inline_size cell + 4 \<le> btree_node_max_cell_size dst"
    using max er by (simp add: word_le_nat_alt)
  from insert_end_run [OF dst fits, of "pk_key (pkey src i)" "pk_flags (pkey src i)"] room er isz
  obtain nd where nd: "btree_node_insert_inline_ex dst at_end (pk_key (pkey src i)) cell (pk_flags (pkey src i)) = Some (BTREE_OK, nd)"
    "node_wf nd" "node_abs nd = node_abs dst @ [node_abs src ! i]" "n_free nd = n_free dst - entry_room (node_abs src ! i)"
    "n_keys nd = n_keys dst + 1" "same_frame nd dst"
    unfolding pay e [symmetric] by auto
  have "btree_node_move_cell src dst (of_nat i) pager = Some (BTREE_OK, nd, pager)"
    using R(2) hw cs cell le nd(1)
    by (simp add: btree_node_move_cell_def btree_node_move_cell_ex_def btree_node_move_cell_ex_to_def
        btree_node_move_cell_from_data_def btu_get_cell_buffer_def at_end_def)
  with nd show ?thesis by blast
qed

text \<open>Several cells.\<close>

lemma move_cells_run:
  assumes src: "node_wf src"
    and ids: "\<forall>i \<in> set is. i < n_keys src \<and> entry_room (node_abs src ! i) \<le> unat (btree_node_max_cell_size dst)"
    and dst: "node_wf dst" and room: "(\<Sum>i \<leftarrow> is. entry_room (node_abs src ! i)) \<le> n_free dst"
  shows "\<exists>nd. move_cells_unchecked src dst is pager = Some (nd, pager) \<and> node_wf nd \<and>
    node_abs nd = node_abs dst @ map ((!) (node_abs src)) is \<and>
    n_free nd = n_free dst - (\<Sum>i \<leftarrow> is. entry_room (node_abs src ! i)) \<and> same_frame nd dst"
  using ids dst room
proof (induction "is" arbitrary: dst)
  case (Cons i "is")
  obtain n1 where n1: "btree_node_move_cell src dst (of_nat i) (Some pager) = Some (BTREE_OK, n1, Some pager)"
    "node_wf n1" "node_abs n1 = node_abs dst @ [node_abs src ! i]"
    "n_free n1 = n_free dst - entry_room (node_abs src ! i)" "same_frame n1 dst"
    using move_cell_run [OF src _ Cons.prems(2), of i "Some pager"] Cons.prems(1,3) by auto
  have "\<exists>nd. move_cells_unchecked src n1 is pager = Some (nd, pager) \<and> node_wf nd \<and>
      node_abs nd = node_abs n1 @ map ((!) (node_abs src)) is \<and>
      n_free nd = n_free n1 - (\<Sum>i \<leftarrow> is. entry_room (node_abs src ! i)) \<and> same_frame nd n1"
    using Cons.prems n1(2,4) same_frame_facts(4) [OF n1(5)] by (intro Cons.IH) auto
  then obtain nd where "move_cells_unchecked src n1 is pager = Some (nd, pager)" "node_wf nd"
    "node_abs nd = node_abs n1 @ map ((!) (node_abs src)) is"
    "n_free nd = n_free n1 - (\<Sum>i \<leftarrow> is. entry_room (node_abs src ! i))" "same_frame nd n1" by blast
  with n1 same_frame_trans [OF _ n1(5)] show ?case by (intro exI [of _ nd]) auto
qed simp

section \<open>The fields of the header\<close>

definition with_right :: "btree_node \<Rightarrow> u32 \<Rightarrow> btree_node" where
  "with_right node v = set_node_mem node (patch (node_mem node) (node_header node + 12) (ser_write_32bit_le v))"

lemma set_right:
  assumes wf: "node_wf node"
  shows "node_right_child_set node v = Some (v, with_right node v)" "node_wf (with_right node v)"
    "node_abs (with_right node v) = node_abs node" "n_keys (with_right node v) = n_keys node"
    "n_free (with_right node v) = n_free node" "n_hwm (with_right node v) = n_hwm node"
    "n_right (with_right node v) = v" "same_layout (with_right node v) node"
    "node_is_leaf (with_right node v) = node_is_leaf node"
proof -
  let ?h = "node_header node" and ?m = "patch (node_mem node) (node_header node + 12) (ser_write_32bit_le v)"
  have shape: "node_shape node" using wf by (simp add: node_wf_def node_inv_def)
  then have h: "?h + 16 \<le> length (node_mem node)" by (simp add: node_shape_def node_end_def)
  show "node_right_child_set node v = Some (v, with_right node v)"
    using hdr_set_eq [OF shape, of 12] by (simp add: node_right_child_set_def layout_defs with_right_def)
  have len: "length ?m = node_end node" using h by (simp add: node_end_def)
  have rd: "slice ?m p k = slice (node_mem node) p k" if "p + k \<le> ?h + 12 \<or> ?h + 16 \<le> p" for p k
    using h that by (intro slice_patch_disjoint) auto
  have "rd32 ?m (?h + f) = rd32 (node_mem node) (?h + f)" if "f \<in> {4, 8, 16}" for f
    using rd [of "?h + f" 4] that by (auto simp: rd32_def)
  note S = same_cells [OF wf len _ this, folded with_right_def]
  show "node_wf (with_right node v)" "node_abs (with_right node v) = node_abs node"
    "n_keys (with_right node v) = n_keys node" "n_free (with_right node v) = n_free node"
    "n_hwm (with_right node v) = n_hwm node"
    using rd by (intro S(1-5); simp)+
  show "n_right (with_right node v) = v" using h by (simp add: n_right_def with_right_def)
  show "same_layout (with_right node v) node" using same_layout_set [OF len] by (simp add: with_right_def)
  have "slice ?m ?h 4 = slice (node_mem node) ?h 4" by (rule rd) simp
  then have "?m ! ?h = node_mem node ! ?h"
    using h nth_take [of 0 4 "drop ?h ?m"] nth_take [of 0 4 "drop ?h (node_mem node)"] by (simp add: slice_def)
  then show "node_is_leaf (with_right node v) = node_is_leaf node"
    using h by (simp add: node_is_leaf_def with_right_def arr_get_def layout_defs)
qed

lemma get_right: "node_shape node \<Longrightarrow> node_right_child node = Some (n_right node)"
  by (simp add: node_right_child_def hdr_get_def mem_read32_rd32 layout_defs node_shape_def node_end_def n_right_def)

definition with_leaf :: "btree_node \<Rightarrow> bool \<Rightarrow> btree_node" where
  "with_leaf node b = set_node_mem node ((node_mem node)[node_header node := if b then 1 else 0])"

lemma slice_update: "k < p \<or> p + n \<le> k \<Longrightarrow> slice (m[k := x]) p n = slice m p n"
  by (auto simp: slice_def drop_update_cancel drop_update_swap take_update_cancel)

lemma set_leaf:
  assumes wf: "node_wf node"
  shows "node_is_leaf_set node b = Some (with_leaf node b)" "node_wf (with_leaf node b)"
    "node_abs (with_leaf node b) = node_abs node" "n_keys (with_leaf node b) = n_keys node"
    "n_free (with_leaf node b) = n_free node" "n_hwm (with_leaf node b) = n_hwm node"
    "n_right (with_leaf node b) = n_right node" "same_layout (with_leaf node b) node"
    "node_is_leaf (with_leaf node b) = Some b"
proof -
  let ?h = "node_header node" and ?m = "(node_mem node)[node_header node := if b then 1 else 0]"
  have shape: "node_shape node" using wf by (simp add: node_wf_def node_inv_def)
  then have h: "?h < length (node_mem node)" by (simp add: node_shape_def node_end_def)
  then show "node_is_leaf_set node b = Some (with_leaf node b)"
    by (simp add: node_is_leaf_set_def layout_defs with_leaf_def arr_set_def)
  have len: "length ?m = node_end node" by (simp add: node_end_def)
  have rd: "rd32 ?m (?h + f) = rd32 (node_mem node) (?h + f)" if "0 < f" for f
    using that by (simp add: rd32_def slice_update)
  have sl: "slice ?m p k = slice (node_mem node) p k" if "?h + 20 \<le> p" for p k
    using that by (intro slice_update) simp
  note S = same_cells [OF wf len, folded with_leaf_def]
  show "node_wf (with_leaf node b)" "node_abs (with_leaf node b) = node_abs node"
    "n_keys (with_leaf node b) = n_keys node" "n_free (with_leaf node b) = n_free node"
    "n_hwm (with_leaf node b) = n_hwm node"
    using rd sl by (intro S(1-5); force)+
  show "n_right (with_leaf node b) = n_right node" using rd [of 12] by (simp add: n_right_def with_leaf_def)
  show "same_layout (with_leaf node b) node" using same_layout_set [OF len] by (simp add: with_leaf_def)
  show "node_is_leaf (with_leaf node b) = Some b"
    using h by (simp add: node_is_leaf_def with_leaf_def arr_get_def layout_defs)
qed

section \<open>Splitting\<close>

text \<open>The page that the cell of an inner node names.\<close>

definition child_of :: "entry \<Rightarrow> u32" where
  "child_of e = rd32 (snd (snd e)) 0"

lemma read_key_cell_run:
  assumes "node_wf node" and "i < n_keys node" and "4 \<le> length (snd (snd (node_abs node ! i)))"
  shows "read_key_cell node (of_nat i) = Some (child_of (node_abs node ! i))"
proof -
  let ?off = "cell_off node i"
  note C = cell_facts [OF assms(1,2)]
  have e: "node_abs node ! i = node_entry node i" using assms(2) by (simp add: node_abs_def)
  then have "4 \<le> cell_size node ?off" using assms(3) C(5) by (simp add: node_entry_def)
  moreover have "?off \<le> node_end node" "cell_size node ?off + 4 \<le> ?off" using C by (simp_all add: cell_len_def)
  ultimately have "node_end node - ?off + 4 + 4 \<le> length (node_mem node)" "4 \<le> cell_size node ?off"
    by (simp_all add: node_end_def [symmetric])
  then show ?thesis
    using read_cell_at(1) [OF assms(1,2)]
    by (simp add: read_key_cell_def mem_read32_rd32 e node_entry_def child_of_def)
      (simp add: rd32_def cell_payload_def slice_def min_def)
qed

text \<open>A node that both halves of a split fit into.\<close>

definition split_target :: "btree_node \<Rightarrow> btree_node \<Rightarrow> bool" where
  "split_target node dst \<longleftrightarrow> node_wf dst \<and> node_abs dst = [] \<and>
     (\<forall>e \<in> set (node_abs node). entry_room e \<le> unat (btree_node_max_cell_size dst)) \<and>
     (\<Sum>e \<leftarrow> node_abs node. entry_room e) \<le> n_free dst"

lemma length_node_abs [simp]: "length (node_abs node) = n_keys node"
  by (simp add: node_abs_def)

lemma map_nth_range: "a \<le> b \<Longrightarrow> b \<le> length xs \<Longrightarrow> map ((!) xs) [a..<b] = take (b - a) (drop a xs)"
  by (rule nth_equalityI) (auto simp: min_def)

lemma sum_list_part:
  fixes f :: "'a \<Rightarrow> nat"
  shows "(\<Sum>x \<leftarrow> take k (drop a xs). f x) \<le> (\<Sum>x \<leftarrow> xs. f x)"
proof -
  have "xs = take a xs @ take k (drop a xs) @ drop k (drop a xs)" by (simp only: append_take_drop_id)
  then have "(\<Sum>x \<leftarrow> xs. f x) = (\<Sum>x \<leftarrow> take a xs. f x) + ((\<Sum>x \<leftarrow> take k (drop a xs). f x) + (\<Sum>x \<leftarrow> drop k (drop a xs). f x))"
    by (metis map_append sum_list_append)
  then show ?thesis by simp
qed

text \<open>A stretch of the cells goes to an empty node.\<close>

lemma move_stretch:
  assumes wf: "node_wf node" and dst: "split_target node dst" and ab: "a \<le> b" "b \<le> n_keys node"
  shows "\<exists>nd. move_cells_unchecked node dst [a..<b] pager = Some (nd, pager) \<and> node_wf nd \<and>
    node_abs nd = take (b - a) (drop a (node_abs node)) \<and>
    n_free nd = n_free dst - (\<Sum>e \<leftarrow> take (b - a) (drop a (node_abs node)). entry_room e) \<and> same_frame nd dst"
proof -
  have D: "node_wf dst" "node_abs dst = []" "\<forall>e \<in> set (node_abs node). entry_room e \<le> unat (btree_node_max_cell_size dst)"
    "(\<Sum>e \<leftarrow> node_abs node. entry_room e) \<le> n_free dst" using dst by (simp_all add: split_target_def)
  have e: "map ((!) (node_abs node)) [a..<b] = take (b - a) (drop a (node_abs node))"
    using ab by (intro map_nth_range) simp_all
  have "(\<Sum>i \<leftarrow> [a..<b]. entry_room (node_abs node ! i)) = (\<Sum>x \<leftarrow> take (b - a) (drop a (node_abs node)). entry_room x)"
    unfolding e [symmetric] by (simp add: comp_def)
  moreover from this have "(\<Sum>i \<leftarrow> [a..<b]. entry_room (node_abs node ! i)) \<le> n_free dst"
    using D(4) sum_list_part [of entry_room "b - a" a "node_abs node"] by simp
  ultimately show ?thesis using move_cells_run [OF wf, of "[a..<b]" dst pager] D ab e by auto
qed

lemma move_cells_append:
  "move_cells_unchecked node d (xs @ ys) pg =
     do { (d, pg) \<leftarrow> move_cells_unchecked node d xs pg; move_cells_unchecked node d ys pg }"
  by (induction xs arbitrary: d pg) (simp_all add: split_def cong: Option.bind_cong)

lemma split_node_run:
  assumes wf: "node_wf node" and n: "0 < n_keys node" and leaf: "node_is_leaf node = Some leaf"
    and left: "split_target node left" and right: "split_target node right"
    and child: "\<not> leaf \<Longrightarrow> 4 \<le> length (snd (snd (node_abs node ! ((n_keys node + 1) div 2 - 1))))"
  defines "h \<equiv> (n_keys node + 1) div 2"
  shows "\<exists>l r. split_node node pager left right = Some (fst (node_abs node ! (h - 1)), l, r, pager) \<and>
    node_wf l \<and> node_wf r \<and> same_layout l left \<and> same_layout r right \<and> node_abs r = drop h (node_abs node) \<and>
    n_free r = n_free right - (\<Sum>e \<leftarrow> drop h (node_abs node). entry_room e) \<and>
    (if leaf then node_abs l = take h (node_abs node) \<and> n_free l = n_free left - (\<Sum>e \<leftarrow> take h (node_abs node). entry_room e)
     else node_abs l = take (h - 1) (node_abs node) \<and> n_right l = child_of (node_abs node ! (h - 1)) \<and>
       n_right r = n_right node)"
proof -
  have shape: "node_shape node" using wf by (simp add: node_wf_def node_inv_def)
  have fit: "node_header node + 20 + 12 * n_keys node \<le> node_end node" using wf by (simp add: node_wf_def node_inv_def)
  have small: "n_keys node + 1 < 4294967296" using fit node_end_small [OF shape] by simp
  then have "unat ((of_nat (n_keys node) + 1) div 2 :: u32) = h"
    using unat_u32_of_nat [of "n_keys node + 1"] by (simp add: unat_div h_def add.commute flip: numeral_2_eq_2)
  then have half: "unat ((of_nat (n_keys node) + 1) div (2 :: u32)) = h" .
  have nz: "(of_nat (n_keys node) :: u32) \<noteq> 0" and un: "unat (of_nat (n_keys node) :: u32) = n_keys node"
    using n small unat_u32_of_nat [of "n_keys node"] by auto
  have h: "0 < h" "h \<le> n_keys node" "h - 1 < n_keys node" using n by (simp_all add: h_def)
  have idx: "of_nat h - 1 = (of_nat (h - 1) :: u32)" using h(1) by (simp add: of_nat_diff)
  have key: "key_at node (of_nat (h - 1)) = Some (pkey node (h - 1))" by (rule read_cell_at(2) [OF wf h(3)])
  have fst_e: "pk_key (pkey node (h - 1)) = fst (node_abs node ! (h - 1))"
    using h(3) by (simp add: node_abs_def node_entry_def)
  obtain l0 where l0: "move_cells_unchecked node left [0..<h - 1] pager = Some (l0, pager)" "node_wf l0"
    "node_abs l0 = take (h - 1) (node_abs node)" "same_frame l0 left"
    using move_stretch [OF wf left, of 0 "h - 1" pager] h by auto
  obtain r0 where r0: "move_cells_unchecked node right [h..<n_keys node] pager = Some (r0, pager)" "node_wf r0"
    "node_abs r0 = drop h (node_abs node)" "same_frame r0 right"
    "n_free r0 = n_free right - (\<Sum>e \<leftarrow> drop h (node_abs node). entry_room e)"
    using move_stretch [OF wf right h(2) le_refl, of pager] by auto
  show ?thesis
  proof (cases leaf)
    case False
    note L = set_right [OF l0(2), of "child_of (node_abs node ! (h - 1))"] and R = set_right [OF r0(2), of "n_right node"]
    have lay: "same_layout (with_right l0 (child_of (node_abs node ! (h - 1)))) left"
      "same_layout (with_right r0 (n_right node)) right"
      using L(8) R(8) l0(4) r0(4) same_layout_trans by (auto simp: same_frame_def)
    have rk: "read_key_cell node (of_nat (h - 1)) = Some (child_of (node_abs node ! (h - 1)))"
      using read_key_cell_run [OF wf h(3)] child [OF False] by (simp add: h_def)
    have "split_node node pager left right = Some (fst (node_abs node ! (h - 1)),
        with_right l0 (child_of (node_abs node ! (h - 1))), with_right r0 (n_right node), pager)"
      using header_gets(1) [OF shape] nz half key fst_e l0(1) r0(1) leaf False rk L(1) R(1) get_right [OF shape]
      by (simp add: split_node_def Let_def idx un)
    with L(2,3,7) R(2,3,5,7) l0(3) r0(3,5) lay False show ?thesis
      by (intro exI [of _ "with_right l0 (child_of (node_abs node ! (h - 1)))"] exI [of _ "with_right r0 (n_right node)"])
        simp
  next
    case True
    have hmem: "node_abs node ! (h - 1) \<in> set (node_abs node)" using h(3) by simp
    have D: "entry_room (node_abs node ! (h - 1)) \<le> unat (btree_node_max_cell_size l0)"
      using left hmem same_frame_facts(4) [OF l0(4)] by (simp add: split_target_def)
    obtain l1 where l1: "move_cells_unchecked node left [0..<h] pager = Some (l1, pager)" "node_wf l1"
      "node_abs l1 = take h (node_abs node)" "same_frame l1 left"
      "n_free l1 = n_free left - (\<Sum>e \<leftarrow> take h (node_abs node). entry_room e)"
      using move_stretch [OF wf left, of 0 h pager] h by auto
    have "[0..<h] = [0..<h - 1] @ [h - 1]" using h(1) by (cases h) simp_all
    with l1(1) move_cells_append [of node left "[0..<h - 1]" "[h - 1]" pager] l0(1)
    have last: "move_cells_unchecked node l0 [h - 1] pager = Some (l1, pager)" by simp
    have "split_node node pager left right = Some (fst (node_abs node ! (h - 1)), l1, r0, pager)"
      using header_gets(1) [OF shape] nz half key fst_e l0(1) r0(1) leaf True last
      by (simp add: split_node_def Let_def idx un del: move_cells_unchecked.simps)
    with l1 r0 True show ?thesis by (auto simp: same_frame_def)
  qed
qed

text \<open>
  C6: splitting a node moves its entries, in order, to two empty nodes, and loses none: the first half
  goes to the left, the rest to the right.  The middle key is reported; in an inner node its cell becomes
  the right child of the left half, and the right half takes over the right child.
\<close>

theorem split_node_refines:
  assumes "node_wf node" and "0 < n_keys node" and "node_is_leaf node = Some leaf"
    and "split_target node left" and "split_target node right"
    and "\<not> leaf \<Longrightarrow> 4 \<le> length (snd (snd (node_abs node ! ((n_keys node + 1) div 2 - 1))))"
  shows "\<exists>l r h. h = (n_keys node + 1) div 2 \<and>
    split_node node pager left right = Some (fst (node_abs node ! (h - 1)), l, r, pager) \<and>
    node_wf l \<and> node_wf r \<and> node_abs r = drop h (node_abs node) \<and>
    (if leaf then node_abs l @ node_abs r = node_abs node
     else node_abs l @ node_abs node ! (h - 1) # node_abs r = node_abs node \<and>
       n_right l = child_of (node_abs node ! (h - 1)) \<and> n_right r = n_right node)"
proof -
  let ?h = "(n_keys node + 1) div 2"
  have h: "?h - 1 < n_keys node" "Suc (?h - 1) = ?h" using assms(2) by simp_all
  have "take (?h - 1) (node_abs node) @ node_abs node ! (?h - 1) # drop ?h (node_abs node) = node_abs node"
    using id_take_nth_drop [of "?h - 1" "node_abs node"] h by simp
  then show ?thesis
    using split_node_run [OF assms(1-5), of pager] assms(6) by (cases leaf) auto
qed

end
