(* ===== verification/OverflowDemo.thy ===== *)
theory OverflowDemo
  imports LeafDemo OverflowWrite NodeSplit
begin

text \<open>
  A payload of 100 bytes in the empty leaf of \<open>leaf_pager\<close>: 26 bytes stay on the page, 74 go to a new
  page at the end of the file.
\<close>

lemma demo_stock:
  assumes "n \<le> 4"
  shows "pager_stock leaf_pager [] n"
proof -
  have "pager_ready leaf_pager" using demo_tree by (simp add: leaf_tree_def)
  moreover have "dps leaf_pager = capacity leaf_pager + 12"
    by (simp add: dps_def capacity_def leaf_pager_def)
  moreover have "free_list (disk_of cf_data leaf_pager) []"
    by (simp add: free_list_def disk_of_def allocated_def pgr_content_def page_slice_def leaf_pager_def dps_def slice_def
        leaf_file_def leaf_page_def meta_of_def ser_read_bytes)
  moreover have "more_room leaf_pager n"
    using assms by (auto simp: more_room_def leaf_pager_def leaf_file_def dps_def co_room_def)
  ultimately show ?thesis by (simp add: pager_stock_def leaf_pager_def)
qed

lemma empty_leaf_on: "node_wf empty_leaf" "node_on leaf_pager empty_leaf" "node_page_number empty_leaf = 2"
  using demo_tree by (simp_all add: leaf_tree_def leaf_node_def) (simp add: empty_leaf_def)

lemma demo_capacity: "capacity leaf_pager = 220" "insert_pos empty_leaf at_end = 0" "kept_inline empty_leaf = 26"
  by (simp_all add: capacity_def leaf_pager_def insert_pos_def at_end_def empty_leaf_parts kept_inline_def empty_leaf_max)

lemma write_overflow_then_read_witness:
  "\<exists>pg' pg'' node' pid. btree_node_write_ex empty_leaf leaf_pager at_end 5 0 (replicate 100 7) 100 WRITER_EX_MODE_RAW =
      Some (BTREE_OK, pg', node') \<and>
    node_abs node' = [(5, overflow_flags, spilled 100 pid (replicate 26 7))] \<and>
    btree_node_read_at pg' node' 0 (replicate 120 0) 120 = Some (BTREE_OK, pg'', replicate 100 7 @ replicate 20 0)"
proof -
  have abs: "node_abs empty_leaf = []" by (simp add: node_abs_def empty_leaf_parts)
  have "insert_at 0 x [] = [x]" for x :: entry by (simp add: insert_at_def)
  with write_overflow_then_read [OF empty_leaf_on(1,2) demo_stock [OF one_le_numeral], of at_end "replicate 100 7" "replicate 120 0" 5]
  show ?thesis by (auto simp: empty_leaf_parts empty_leaf_max demo_capacity abs)
qed

text \<open>The same for the record of one column of 96 bytes, compared with a key.\<close>

lemma compare_cell_chain_witness:
  "\<exists>(pg :: cfile pager) node r ctx c. btree_node_compare_cell (ibtls_fns memcmp)
      (ibtls_init_compare_context_from_schema (one_column 0) PAYLOAD_COMPARE_TYPE_KEY) pg node 0 (len_prefixed [8]) 5 =
    Some (BTREE_OK, r, ctx, pg\<lparr>pgr_cache := c\<rparr>) \<and> sgn r = - 1"
proof -
  define xs where "xs = replicate 95 (7 :: byte)"
  define data where "data = len_prefixed (7 # xs)"
  have data: "length data = 100" by (simp add: data_def len_prefixed_def xs_def)
  from write_overflow_run [OF empty_leaf_on(1,2) demo_stock [OF one_le_numeral], of at_end data 5]
  obtain pg nd pid chunks where W: "node_wf (stored nd)" "pager_ready pg"
      "node_abs (stored nd) = insert_at 0 (5, overflow_flags, spilled 100 pid (take 26 data)) (node_abs empty_leaf)"
      "n_keys (stored nd) = 1" "chain (disk_of cf_data pg) (capacity pg) pid chunks" "concat chunks = drop 26 data"
      "dps pg = capacity pg + 12"
    using data by (auto simp: empty_leaf_parts empty_leaf_max demo_capacity)
  have "node_abs empty_leaf = []" by (simp add: node_abs_def empty_leaf_parts)
  then have "node_abs (stored nd) ! 0 = (5, overflow_flags, spilled 100 pid (take 26 data))"
    using W(3) by (simp add: insert_at_def)
  then have ent: "pk_flags (pkey (stored nd) 0) = overflow_flags" "payload_at (stored nd) 0 = spilled 100 pid (take 26 data)"
    using nth_node_abs [of 0 "stored nd"] W(4) by simp_all
  let ?ctx = "ibtls_init_compare_context_from_schema (one_column 0) PAYLOAD_COMPARE_TYPE_KEY"
  obtain junk where keyof: "ibtree_keyof ?ctx (stored nd) 0 = Some (take 26 data @ junk, of_nat (length (take 26 data)), 100, pid)"
    using keyof_overflow_at [OF W(1), of 0 100 pid "take 26 data" ?ctx] W(4) ent overflow_flags_overflow by auto
  have rec: "take 26 data @ concat chunks = [] @ len_prefixed (7 # xs) @ []"
    using W(6) by (simp add: data_def)
  have len: "length (take 26 data @ concat chunks) = 100" "length (take 26 data) = 26" using data W(6) by simp_all
  have cuts: "\<forall>us vs. chunks = us @ vs \<longrightarrow> length (take 26 data @ concat us) \<noteq> length ([] :: bytes) + 4"
    using len(2) by simp
  have lt: "compare3 (7 # xs) [8 :: byte] = - 1" "\<not> strict_prefix (7 # xs) [8 :: byte]"
    by (simp_all add: compare3_def)
  have "take 26 data \<noteq> []" using len(2) by auto
  from compare_cell_chain [OF is_memcmp_memcmp W(2,7) _ W(5) this rec _ _ cuts, of ?ctx "stored nd" 0 junk "[8]" PAYLOAD_COMPARE_TYPE_KEY 5]
  obtain r ctx' c where "btree_node_compare_cell (ibtls_fns memcmp) ?ctx pg (stored nd) 0 (len_prefixed [8]) 5 =
      Some (BTREE_OK, r, ctx', pg\<lparr>pgr_cache := c\<rparr>)" "sgn r = - 1"
    unfolding lt(1) using keyof len lt(2) by fastforce
  then show ?thesis by blast
qed

end
