(* ===== verification/TreeSelect.thy ===== *)
theory TreeSelect
  imports NodeSplit
begin

text \<open>
  A table tree of any height on the pages of a file, as the tree of its nodes.  Its content is the list
  of the entries of its leaves; descending for a key ends in the leaf that has the key if any leaf has.
\<close>

section \<open>Trees of nodes\<close>

datatype page_tree = Leaf_page btree_node | Inner_page btree_node "page_tree list"

primrec tree_root :: "page_tree \<Rightarrow> btree_node" where
  "tree_root (Leaf_page node) = node"
| "tree_root (Inner_page node cs) = node"

definition node_items :: "btree_node \<Rightarrow> (u32 \<times> bytes) list" where
  "node_items node = map (\<lambda>(k, f, p). (k, p)) (node_abs node)"

fun tree_items :: "page_tree \<Rightarrow> (u32 \<times> bytes) list" where
  "tree_items (Leaf_page node) = node_items node"
| "tree_items (Inner_page node cs) = concat (map tree_items cs)"

fun tree_height :: "page_tree \<Rightarrow> nat" where
  "tree_height (Leaf_page node) = 0"
| "tree_height (Inner_page node cs) = Suc (foldr max (map tree_height cs) 0)"

text \<open>The pages of a tree.\<close>

fun tree_pages :: "page_tree \<Rightarrow> u32 list" where
  "tree_pages (Leaf_page node) = [node_page_number node]"
| "tree_pages (Inner_page node cs) = node_page_number node # concat (map tree_pages cs)"

abbreviation tree_keys :: "page_tree \<Rightarrow> u32 set" where
  "tree_keys t \<equiv> fst ` set (tree_items t)"

text \<open>The pages that an inner node names: one for every key, and the right child.\<close>

definition child_ids :: "btree_node \<Rightarrow> u32 list" where
  "child_ids node = map child_of (node_abs node) @ [n_right node]"

lemma length_child_ids [simp]: "length (child_ids node) = n_keys node + 1"
  by (simp add: child_ids_def)

definition inner_node :: "btree_node \<Rightarrow> bool" where
  "inner_node node \<longleftrightarrow> sorted_node node \<and> node_is_leaf node = Some False \<and>
     (\<forall>e \<in> set (node_abs node). length (snd (snd e)) = 4)"

fun tree_on :: "cfile pager \<Rightarrow> page_tree \<Rightarrow> bool" where
  "tree_on pg (Leaf_page node) \<longleftrightarrow> node_on pg node \<and> leaf_node node"
| "tree_on pg (Inner_page node cs) \<longleftrightarrow> node_on pg node \<and> inner_node node \<and>
     map (node_page_number \<circ> tree_root) cs = child_ids node \<and> (\<forall>c \<in> set cs. tree_on pg c)"

text \<open>
  The keys of an inner node separate the subtrees: those on the left are not larger, those on the right
  are larger.  A separator is a key of the subtree on its left.
\<close>

definition separates :: "u32 list \<Rightarrow> page_tree list \<Rightarrow> bool" where
  "separates ks cs \<longleftrightarrow> length cs = length ks + 1 \<and>
     (\<forall>j < length cs. \<forall>k \<in> tree_keys (cs ! j). \<forall>i < length ks. if j \<le> i then k \<le> ks ! i else ks ! i < k) \<and>
     (\<forall>i < length ks. ks ! i \<in> tree_keys (cs ! i))"

fun tree_ordered :: "page_tree \<Rightarrow> bool" where
  "tree_ordered (Leaf_page node) = True"
| "tree_ordered (Inner_page node cs) \<longleftrightarrow> separates (node_key_list node) cs \<and> (\<forall>c \<in> set cs. tree_ordered c)"

lemma foldr_max_le: "x \<in> set xs \<Longrightarrow> (x :: nat) \<le> foldr max xs 0"
  by (induction xs) auto

lemma child_height: "c \<in> set cs \<Longrightarrow> tree_height c < tree_height (Inner_page node cs)"
  using foldr_max_le [of "tree_height c" "map tree_height cs"] by simp

lemma tree_on_cache [simp]: "tree_on (pg\<lparr>pgr_cache := c\<rparr>) t = tree_on pg t"
  by (induction t) auto

lemma node_on_other:
  assumes "node_on pg node" and "same_pager co_room pg pg'"
    and "disk_of cf_data pg' (node_page_number node) = disk_of cf_data pg (node_page_number node)"
  shows "node_on pg' node"
  using assms by (simp add: node_on_def same_pager_def)

section \<open>Where a key is\<close>

text \<open>The leaf that the descent for a key ends in.\<close>

function tree_leaf :: "page_tree \<Rightarrow> u32 \<Rightarrow> btree_node" where
  "tree_leaf (Leaf_page node) key = node"
| "tree_leaf (Inner_page node cs) key =
     (let i = key_place (node_key_list node) key in if i < length cs then tree_leaf (cs ! i) key else node)"
  by pat_completeness auto
termination
  by (relation "measure (tree_height \<circ> fst)") (simp_all del: tree_height.simps add: child_height)

text \<open>Whether a node on the way has the key.\<close>

function on_path :: "page_tree \<Rightarrow> u32 \<Rightarrow> bool" where
  "on_path (Leaf_page node) key \<longleftrightarrow> key \<in> set (node_key_list node)"
| "on_path (Inner_page node cs) key \<longleftrightarrow> key \<in> set (node_key_list node) \<or>
     (let i = key_place (node_key_list node) key in if i < length cs then on_path (cs ! i) key else False)"
  by pat_completeness auto
termination
  by (relation "measure (tree_height \<circ> fst)") (simp_all del: tree_height.simps add: child_height)

lemma node_items_keys: "map fst (node_items node) = node_key_list node"
  by (simp add: node_items_def node_key_list_abs split_def comp_def)

lemma node_key_set: "set (node_key_list node) = fst ` set (node_items node)"
  by (metis node_items_keys set_map)

lemma node_lookup_items: "node_lookup node = map_of (node_items node)"
  by (simp add: node_lookup_def node_items_def)

lemma key_only_in:
  assumes "separates ks cs" and "j < length cs" and "key \<in> tree_keys (cs ! j)"
  shows "key_place ks key = j"
proof (rule key_place_eqI)
  show "j \<le> length ks" using assms(1,2) by (simp add: separates_def)
  have S: "if j \<le> i then key \<le> ks ! i else ks ! i < key" if "i < length ks" for i
    using assms that unfolding separates_def by blast
  show "ks ! i < key" if "i < j" for i
    using S [of i] that assms(1,2) by (simp add: separates_def)
  show "\<not> ks ! j < key" if "j < length ks" using S [OF that] by simp
qed

lemma map_of_concat_only:
  assumes "i < length xss" and "\<And>j. j < length xss \<Longrightarrow> k \<in> fst ` set (xss ! j) \<Longrightarrow> j = i"
  shows "map_of (concat xss) k = map_of (xss ! i) k"
  using assms
proof (induction xss arbitrary: i)
  case (Cons xs xss)
  have none: "map_of ys k = None" if "k \<notin> fst ` set ys" for ys :: "('a \<times> 'b) list"
    using that by (simp add: map_of_eq_None_iff)
  show ?case
  proof (cases i)
    case 0
    have "k \<notin> fst ` set ys" if "ys \<in> set xss" for ys
    proof -
      obtain j where j: "j < length xss" "xss ! j = ys" using \<open>ys \<in> set xss\<close> by (metis in_set_conv_nth)
      then show ?thesis using Cons.prems(2) [of "Suc j"] 0 by auto
    qed
    then have "map_of (concat xss) k = None" by (intro none) auto
    then show ?thesis using 0 by (simp add: map_add_def split: option.splits)
  next
    case (Suc i')
    have "map_of xs k = None" using Cons.prems(2) [of 0] Suc by (intro none) auto
    moreover have "map_of (concat xss) k = map_of (xss ! i') k"
    proof (rule Cons.IH)
      show "i' < length xss" using Cons.prems(1) Suc by simp
      show "j = i'" if "j < length xss" "k \<in> fst ` set (xss ! j)" for j
        using Cons.prems(2) [of "Suc j"] that Suc by simp
    qed
    ultimately show ?thesis using Suc by (simp add: map_add_def split: option.splits)
  qed
qed simp

lemma key_place_of_member:
  assumes "keys_ascending ks" and "i < length ks"
  shows "key_place ks (ks ! i) = i"
  using assms by (intro key_place_eqI) (auto simp: keys_ascending_def sorted_wrt_iff_nth_less)

lemma lookup_child:
  assumes "separates ks cs"
  shows "map_of (concat (map tree_items cs)) key = map_of (tree_items (cs ! key_place ks key)) key"
proof -
  let ?i = "key_place ks key"
  have i: "?i < length cs" using assms key_place_le [of ks key] by (simp add: separates_def)
  have "map_of (concat (map tree_items cs)) key = map_of (map tree_items cs ! ?i) key"
  proof (rule map_of_concat_only)
    show "?i < length (map tree_items cs)" using i by simp
    show "j = ?i" if "j < length (map tree_items cs)" "key \<in> fst ` set (map tree_items cs ! j)" for j
      using key_only_in [OF assms, of j key] that by simp
  qed
  then show ?thesis using i by simp
qed

text \<open>The descent finds what the tree has.\<close>

definition found_at :: "cfile pager \<Rightarrow> page_tree \<Rightarrow> u32 \<Rightarrow> btree_node \<Rightarrow> bool" where
  "found_at pg t key leaf \<longleftrightarrow> leaf_node leaf \<and> node_on pg leaf \<and>
     map_of (tree_items t) key = node_lookup leaf key \<and>
     (on_path t key \<longleftrightarrow> key \<in> set (node_key_list leaf)) \<and> (key \<in> tree_keys t \<longleftrightarrow> key \<in> set (node_key_list leaf))"

lemma found_at_leaf: "tree_on pg (Leaf_page node) \<Longrightarrow> found_at pg (Leaf_page node) key node"
  by (simp add: found_at_def node_lookup_items node_key_set)

lemma found_at_inner:
  assumes on: "tree_on pg (Inner_page node cs)" and sep: "separates (node_key_list node) cs"
    and IH: "found_at pg (cs ! key_place (node_key_list node) key) key leaf"
  shows "found_at pg (Inner_page node cs) key leaf"
proof -
  let ?i = "key_place (node_key_list node) key"
  have i: "?i < length cs" using sep key_place_le [of "node_key_list node" key] by (simp add: separates_def)
  have only: "j = ?i" if "j < length cs" "key \<in> tree_keys (cs ! j)" for j
    using key_only_in [OF sep that] by simp
  have m': "map_of (tree_items (Inner_page node cs)) key = map_of (tree_items (cs ! ?i)) key"
    using lookup_child [OF sep, of key] by simp
  have k: "key \<in> tree_keys (Inner_page node cs) \<longleftrightarrow> key \<in> tree_keys (cs ! ?i)"
  proof
    assume "key \<in> tree_keys (Inner_page node cs)"
    then obtain c where "c \<in> set cs" "key \<in> tree_keys c" by auto
    then show "key \<in> tree_keys (cs ! ?i)" using only by (metis in_set_conv_nth)
  next
    assume "key \<in> tree_keys (cs ! ?i)"
    then show "key \<in> tree_keys (Inner_page node cs)" using nth_mem [OF i] by auto
  qed
  have s: "key \<in> tree_keys (cs ! ?i)" if key: "key \<in> set (node_key_list node)"
  proof -
    have asc: "keys_ascending (node_key_list node)" using on by (simp add: inner_node_def sorted_node_def)
    obtain j where j: "j < n_keys node" "node_key_list node ! j = key"
      using key by (metis in_set_conv_nth length_node_key_list)
    then have ij: "?i = j" using key_place_of_member [OF asc, of j] by simp
    have "node_key_list node ! j \<in> tree_keys (cs ! j)"
      using sep j(1) unfolding separates_def length_node_key_list by blast
    then show ?thesis unfolding ij j(2) .
  qed
  have p: "on_path (Inner_page node cs) key \<longleftrightarrow> key \<in> set (node_key_list node) \<or> on_path (cs ! ?i) key"
    using i by (simp add: Let_def)
  show ?thesis unfolding found_at_def m' k p using IH s by (simp add: found_at_def) blast
qed

lemma tree_leaf_found: "tree_on pg t \<Longrightarrow> tree_ordered t \<Longrightarrow> found_at pg t key (tree_leaf t key)"
proof (induction t key rule: tree_leaf.induct)
  case (2 node cs key)
  let ?i = "key_place (node_key_list node) key"
  have sep: "separates (node_key_list node) cs" using "2.prems"(2) by simp
  have i: "?i < length cs" using sep key_place_le [of "node_key_list node" key] by (simp add: separates_def)
  have "tree_on pg (cs ! ?i)" "tree_ordered (cs ! ?i)" using "2.prems" i by simp_all
  from "2.IH" [OF refl i this] found_at_inner [OF "2.prems"(1) sep] i show ?case by (simp add: Let_def)
qed (simp add: found_at_leaf)

section \<open>The descent\<close>

lemma child_of_entry:
  assumes "node_wf node" and "i < n_keys node" and "length (snd (snd (node_abs node ! i))) = 4"
  shows "btu_read_cell node (of_nat i) = Some \<lparr>cd_pointer = drop (node_end node - cell_off node i + 4) (node_mem node), cd_size = 4\<rparr>"
    "mem_read32 (drop (node_end node - cell_off node i + 4) (node_mem node)) 0 = Some (child_of (node_abs node ! i))"
proof -
  have "cell_size node (cell_off node i) = 4"
    using assms cell_facts(5) [OF assms(1,2)] by (simp add: node_abs_def node_entry_def)
  then show r: "btu_read_cell node (of_nat i) = Some \<lparr>cd_pointer = drop (node_end node - cell_off node i + 4) (node_mem node), cd_size = 4\<rparr>"
    using read_cell_at(1) [OF assms(1,2)] by simp
  show "mem_read32 (drop (node_end node - cell_off node i + 4) (node_mem node)) 0 = Some (child_of (node_abs node ! i))"
    using read_key_cell_run [OF assms(1,2)] assms(3) r by (simp add: read_key_cell_def)
qed

lemma read_child:
  assumes inner: "inner_node node" and tree: "tr_type (cur_tree c) = BTREE_TBL" and i: "i \<le> n_keys node"
  shows "read_cell_page c node (of_nat i) = Some (BTREE_OK, c\<lparr>cur_page_id := child_ids node ! i\<rparr>)"
proof -
  have S: "sorted_node node" and wf: "node_wf node" using inner by (simp_all add: inner_node_def sorted_node_def)
  note F = sorted_facts [OF S]
  have small: "n_keys node < 256" using S by (simp add: sorted_node_def)
  then have u: "unat (of_nat i :: u32) = i" using i by (simp add: unat_u32_of_nat)
  show ?thesis
  proof (cases "i < n_keys node")
    case False
    then have "i = n_keys node" using i by simp
    then show ?thesis
      using F(3) get_right [OF F(2)] by (simp add: read_cell_page_def child_ids_def nth_append)
  next
    case True
    have "\<not> (of_nat (n_keys node) :: u32) \<le> of_nat i" using F(4) u True by (simp add: word_le_nat_alt)
    moreover have "length (snd (snd (node_abs node ! i))) = 4" using inner True by (simp add: inner_node_def)
    note child_of_entry [OF wf True this]
    ultimately show ?thesis
      using F(3) tree True by (simp add: read_cell_page_def btree_cell_get_size_def child_ids_def nth_append)
  qed
qed

text \<open>The cursor with a breadcrumb for a node, and at the child it goes on with.\<close>

definition pushed :: "bool \<Rightarrow> unit cursor \<Rightarrow> btree_node \<Rightarrow> u32 \<Rightarrow> unit cursor" where
  "pushed is_leaf c node key = c\<lparr>cur_compare_context := (), cur_key_index := node_index is_leaf node key,
     cur_breadcrumbs := cur_breadcrumbs c @ [\<lparr>cb_key_index = node_index is_leaf node key, cb_page_id = cur_page_id c\<rparr>]\<rparr>"

definition at_child :: "unit cursor \<Rightarrow> btree_node \<Rightarrow> u32 \<Rightarrow> unit cursor" where
  "at_child c node key = (pushed False c node key)\<lparr>cur_page_id := child_ids node ! key_place (node_key_list node) key\<rparr>"

lemma descend_round:
  assumes tree: "tr_type (cur_tree c) = BTREE_TBL" "tr_fns (cur_tree c) = btree_fns"
    and at: "cur_page_id c = node_page_number node" and room: "length (cur_breadcrumbs c) < MAX_CRUMBS"
    and pg: "pager_ready pg" "node_on pg node" "sorted_node node" "view_for pg nv"
    and kind: "node_is_leaf node = Some is_leaf" "\<not> is_leaf \<Longrightarrow> inner_node node"
  shows "\<exists>ch. traverse_round c pg nv (ser_write_32bit_le key) 4 found =
      Some (if is_leaf then Stop (BTREE_OK, found \<or> key \<in> set (node_key_list node), pushed True c node key, pg\<lparr>pgr_cache := ch\<rparr>)
        else Go_on (found \<or> key \<in> set (node_key_list node), at_child c node key, pg\<lparr>pgr_cache := ch\<rparr>, node)) \<and>
    pager_ready (pg\<lparr>pgr_cache := ch\<rparr>)"
proof -
  note F = sorted_facts [OF pg(3)]
  have wf: "node_wf node" and asc: "keys_ascending (node_key_list node)" using pg(3) by (simp_all add: sorted_node_def)
  let ?i = "key_place (node_key_list node) key"
  obtain ch where rd: "noderc_reinit_read pg nv (node_page_number node) = Some (BTREE_OK, pg\<lparr>pgr_cache := ch\<rparr>, node)"
    and ready: "pager_ready (pg\<lparr>pgr_cache := ch\<rparr>)"
    using reinit_sorted [OF pg] by blast
  have push: "cursor_push (c\<lparr>cur_compare_context := (), cur_key_index := node_index is_leaf node key\<rparr>) =
      (BTREE_OK, pushed is_leaf c node key)"
    using room by (simp add: cursor_push_def pushed_def)
  have child: "read_cell_page (pushed False c node key) node (of_nat ?i) = Some (BTREE_OK, at_child c node key)" if inner: "\<not> is_leaf"
    using read_child [OF kind(2) [OF inner] _ F(6), of "pushed False c node key" key] tree(1)
    by (simp add: at_child_def) (simp add: pushed_def)
  have "traverse_round c pg nv (ser_write_32bit_le key) 4 found =
      Some (if is_leaf then Stop (BTREE_OK, found \<or> key \<in> set (node_key_list node), pushed True c node key, pg\<lparr>pgr_cache := ch\<rparr>)
        else Go_on (found \<or> key \<in> set (node_key_list node), at_child c node key, pg\<lparr>pgr_cache := ch\<rparr>, node))"
    using rd btree_search_correct [OF F(1) asc, of "pg\<lparr>pgr_cache := ch\<rparr>" key] node_index_init [OF pg(3) kind(1), of key]
      push kind(1) child tree at
    by (cases "key \<in> set (node_key_list node)"; cases is_leaf)
      (simp_all add: traverse_round_def search_status_def pushed_def)
  with ready show ?thesis by blast
qed

text \<open>The cursor at the end of the descent.\<close>

function path_cursor :: "unit cursor \<Rightarrow> page_tree \<Rightarrow> u32 \<Rightarrow> unit cursor" where
  "path_cursor c (Leaf_page node) key = pushed True c node key"
| "path_cursor c (Inner_page node cs) key =
     (let i = key_place (node_key_list node) key in
      if i < length cs then path_cursor (at_child c node key) (cs ! i) key else c)"
  by pat_completeness auto
termination
  by (relation "measure (\<lambda>(c, t, key). tree_height t)") (simp_all del: tree_height.simps add: child_height)

lemma traverse_tree:
  assumes "tree_on pg t" and "tree_ordered t" and "tr_type (cur_tree c) = BTREE_TBL" and "tr_fns (cur_tree c) = btree_fns"
    and "cur_page_id c = node_page_number (tree_root t)" and "length (cur_breadcrumbs c) + tree_height t < MAX_CRUMBS"
    and "pager_ready pg" and "view_for pg nv"
  shows "\<exists>ch. traverse_loop c pg nv (ser_write_32bit_le key) 4 found =
      Some (BTREE_OK, found \<or> on_path t key, path_cursor c t key, pg\<lparr>pgr_cache := ch\<rparr>) \<and>
    pager_ready (pg\<lparr>pgr_cache := ch\<rparr>)"
  using assms
proof (induction c t key arbitrary: pg nv found rule: path_cursor.induct)
  case (1 c node key)
  then have "sorted_node node" "node_is_leaf node = Some True" using leaf_sorted by (simp_all add: leaf_node_def)
  then show ?case
    using descend_round [of c node pg nv True key found] 1
    by (subst traverse_loop.simps) auto
next
  case (2 c node cs key)
  let ?i = "key_place (node_key_list node) key"
  have sep: "separates (node_key_list node) cs" using "2.prems"(2) by simp
  have i: "?i < length cs" using sep key_place_le [of "node_key_list node" key] by (simp add: separates_def)
  have T: "inner_node node" "node_on pg node" "map (node_page_number \<circ> tree_root) cs = child_ids node"
    "sorted_node node" "node_is_leaf node = Some False"
    using "2.prems"(1) by (simp_all add: inner_node_def)
  let ?found = "found \<or> key \<in> set (node_key_list node)"
  obtain ch where R: "traverse_round c pg nv (ser_write_32bit_le key) 4 found =
      Some (Go_on (?found, at_child c node key, pg\<lparr>pgr_cache := ch\<rparr>, node))" "pager_ready (pg\<lparr>pgr_cache := ch\<rparr>)"
    using descend_round [of c node pg nv False key found] "2.prems" T by auto
  have child: "tree_on (pg\<lparr>pgr_cache := ch\<rparr>) (cs ! ?i)" "tree_ordered (cs ! ?i)" using "2.prems"(1,2) i by simp_all
  have "node_page_number (tree_root (cs ! ?i)) = child_ids node ! ?i"
    using arg_cong [OF T(3), of "\<lambda>xs. xs ! ?i"] i by simp
  then have at: "cur_page_id (at_child c node key) = node_page_number (tree_root (cs ! ?i))" by (simp add: at_child_def)
  have h: "length (cur_breadcrumbs (at_child c node key)) + tree_height (cs ! ?i) < MAX_CRUMBS"
    using child_height [OF nth_mem [OF i], of node] "2.prems"(6) by (simp add: at_child_def pushed_def)
  have v: "view_for (pg\<lparr>pgr_cache := ch\<rparr>) node" using node_on_view [OF "2.prems"(7) T(2)] by simp
  have ct: "cur_tree (at_child c node key) = cur_tree c" by (simp add: at_child_def pushed_def)
  obtain ch' where L: "traverse_loop (at_child c node key) (pg\<lparr>pgr_cache := ch\<rparr>) node (ser_write_32bit_le key) 4 ?found =
      Some (BTREE_OK, ?found \<or> on_path (cs ! ?i) key, path_cursor (at_child c node key) (cs ! ?i) key, pg\<lparr>pgr_cache := ch'\<rparr>)"
    "pager_ready (pg\<lparr>pgr_cache := ch'\<rparr>)"
    using "2.IH" [OF refl i child _ _ at h R(2) v, of ?found] "2.prems"(3,4) ct by auto
  have "traverse_loop c pg nv (ser_write_32bit_le key) 4 found =
      Some (BTREE_OK, ?found \<or> on_path (cs ! ?i) key, path_cursor (at_child c node key) (cs ! ?i) key, pg\<lparr>pgr_cache := ch'\<rparr>)"
    using R(1) L(1) "2.prems"(6) by (subst traverse_loop.simps) simp
  then show ?case using L(2) i by (auto simp: Let_def)
qed

lemma path_cursor_facts:
  assumes "tree_on pg t" and "tree_ordered t" and "cur_page_id c = node_page_number (tree_root t)"
  shows "cur_tree (path_cursor c t key) = cur_tree c \<and>
    cur_key_index (path_cursor c t key) = leaf_index (tree_leaf t key) key \<and>
    cur_page_id (path_cursor c t key) = node_page_number (tree_leaf t key) \<and>
    (\<exists>crumbs. cur_breadcrumbs (path_cursor c t key) = crumbs @
       [\<lparr>cb_key_index = leaf_index (tree_leaf t key) key, cb_page_id = node_page_number (tree_leaf t key)\<rparr>])"
  using assms
proof (induction c t key rule: path_cursor.induct)
  case (1 c node key)
  then show ?case by (simp add: pushed_def node_index_def leaf_index_def)
next
  case (2 c node cs key)
  let ?i = "key_place (node_key_list node) key"
  have sep: "separates (node_key_list node) cs" using "2.prems"(2) by simp
  have i: "?i < length cs" using sep key_place_le [of "node_key_list node" key] by (simp add: separates_def)
  have child: "tree_on pg (cs ! ?i)" "tree_ordered (cs ! ?i)" using "2.prems"(1,2) i by simp_all
  have "map (node_page_number \<circ> tree_root) cs = child_ids node" using "2.prems"(1) by simp
  from arg_cong [OF this, of "\<lambda>xs. xs ! ?i"] have "node_page_number (tree_root (cs ! ?i)) = child_ids node ! ?i"
    using i by simp
  then have at: "cur_page_id (at_child c node key) = node_page_number (tree_root (cs ! ?i))" by (simp add: at_child_def)
  from "2.IH" [OF refl i child at] i show ?case by (simp add: Let_def) (simp add: at_child_def pushed_def)
qed

section \<open>Looking a key up\<close>

text \<open>
  The tree of a file: its root is the page the tree was opened with, no page is in it twice, and it is not
  too high for the breadcrumbs of a cursor.
\<close>

definition table_tree_on :: "unit btree \<Rightarrow> cfile pager \<Rightarrow> page_tree \<Rightarrow> bool" where
  "table_tree_on tree pg t \<longleftrightarrow> tr_type tree = BTREE_TBL \<and> tr_fns tree = btree_fns \<and>
     tr_root_page_id tree = node_page_number (tree_root t) \<and> pager_ready pg \<and> tree_on pg t \<and> tree_ordered t \<and>
     distinct (tree_pages t) \<and> tree_height t < 7"

lemma leaf_tree_on: "table_tree_on tree pg (Leaf_page node) \<longleftrightarrow> leaf_tree tree pg node"
  by (auto simp: table_tree_on_def leaf_tree_def)

lemma table_tree_cache: "table_tree_on tree pg t \<Longrightarrow> pager_ready (pg\<lparr>pgr_cache := ch\<rparr>) \<Longrightarrow> table_tree_on tree (pg\<lparr>pgr_cache := ch\<rparr>) t"
  by (simp add: table_tree_on_def)

lemma traverse_to_tree:
  assumes "table_tree_on tree pg t"
  shows "\<exists>ch. cursor_traverse_to (cursor_create tree) pg key =
      Some (BTREE_OK, key \<in> tree_keys t, path_cursor (cursor_create tree) t key, pg\<lparr>pgr_cache := ch\<rparr>) \<and>
    pager_ready (pg\<lparr>pgr_cache := ch\<rparr>)"
proof -
  note T = assms [unfolded table_tree_on_def]
  let ?c = "cursor_create tree"
  have c: "cur_tree ?c = tree" "cur_page_id ?c = tr_root_page_id tree" "length (cur_breadcrumbs ?c) = 1"
    by (simp_all add: cursor_create_def cursor_create_ex_def cursor_push_def MAX_CRUMBS_def)
  note FA = tree_leaf_found [of pg t key, unfolded found_at_def]
  have on: "node_on pg (tree_leaf t key)" "node_shape (tree_leaf t key)"
    using T FA leaf_facts(2) by blast+
  obtain nv where nv: "noderc_acquire pg = Some (BTREE_OK, nv)" "view_for pg nv"
    using acquire_view [OF _ on] T by blast
  obtain ch where L: "traverse_loop ?c pg nv (ser_write_32bit_le key) 4 False =
      Some (BTREE_OK, on_path t key, path_cursor ?c t key, pg\<lparr>pgr_cache := ch\<rparr>)" "pager_ready (pg\<lparr>pgr_cache := ch\<rparr>)"
    using traverse_tree [of pg t ?c nv key False] T c nv(2) by (auto simp: MAX_CRUMBS_def)
  moreover have "on_path t key \<longleftrightarrow> key \<in> tree_keys t" using T FA by blast
  ultimately show ?thesis
    using nv(1) by (intro exI [of _ ch]) (simp add: cursor_traverse_to_def cursor_traverse_to_ex_def)
qed

text \<open>
  C4: selecting a key from a table tree of any height is looking it up among the entries of its leaves.
  The payload is copied as far as the buffer goes; no page changes.
\<close>

theorem btree_select_tree:
  assumes "table_tree_on tree pg t" and "length buffer < 2147483648"
  shows "\<exists>pg'. btree_select_ex tree pg key buffer (of_nat (length buffer)) =
    Some (case map_of (tree_items t) key of
        None \<Rightarrow> (BTREE_ERR_KEY_NOT_FOUND, pg', buffer)
      | Some payload \<Rightarrow> (read_status buffer payload, pg', filled buffer payload)) \<and>
    table_tree_on tree pg' t \<and> disk_of cf_data pg' = disk_of cf_data pg"
proof -
  note T = assms(1) [unfolded table_tree_on_def]
  let ?leaf = "tree_leaf t key" and ?c = "path_cursor (cursor_create tree) t key"
  have L: "leaf_node ?leaf" "node_on pg ?leaf" "map_of (tree_items t) key = node_lookup ?leaf key"
    "key \<in> tree_keys t \<longleftrightarrow> key \<in> set (node_key_list ?leaf)"
    using tree_leaf_found [of pg t key] T by (auto simp: found_at_def)
  note F = leaf_facts [OF L(1)]
  have wf: "node_wf ?leaf" and asc: "keys_ascending (node_key_list ?leaf)" using L(1) by (simp_all add: leaf_node_def)
  have ready: "pager_ready pg" using T by blast
  obtain nv where nv: "noderc_acquire pg = Some (BTREE_OK, nv)" "view_for pg nv"
    using acquire_view [OF ready L(2) F(2)] by blast
  obtain ch where tr: "cursor_traverse_to (cursor_create tree) pg key =
      Some (BTREE_OK, key \<in> tree_keys t, ?c, pg\<lparr>pgr_cache := ch\<rparr>)" and r1: "pager_ready (pg\<lparr>pgr_cache := ch\<rparr>)"
    using traverse_to_tree [OF assms(1)] by blast
  have c: "cur_key_index ?c = leaf_index ?leaf key" "cur_page_id ?c = node_page_number ?leaf"
    using path_cursor_facts [of pg t "cursor_create tree" key] T
    by (auto simp: cursor_create_def cursor_create_ex_def cursor_push_def MAX_CRUMBS_def)
  show ?thesis
  proof (cases "key \<in> tree_keys t")
    case False
    then have none: "map_of (tree_items t) key = None" by (simp add: map_of_eq_None_iff)
    show ?thesis
      using tr nv(1) False none table_tree_cache [OF assms(1) r1]
      by (intro exI [of _ "pg\<lparr>pgr_cache := ch\<rparr>"]) (simp add: btree_select_ex_def)
  next
    case True
    then have key: "key \<in> set (node_key_list ?leaf)" using L(4) by simp
    let ?i = "key_place (node_key_list ?leaf) key"
    have i: "?i < n_keys ?leaf" using place_of_key [OF asc key] by simp
    obtain ch' where rd: "noderc_reinit_read (pg\<lparr>pgr_cache := ch\<rparr>) nv (node_page_number ?leaf) =
        Some (BTREE_OK, pg\<lparr>pgr_cache := ch'\<rparr>, ?leaf)" and r2: "pager_ready (pg\<lparr>pgr_cache := ch'\<rparr>)"
      using reinit_leaf [of "pg\<lparr>pgr_cache := ch\<rparr>" ?leaf nv] r1 L(1,2) nv(2) by auto
    have ne: "(of_nat ?i :: u32) \<noteq> of_nat (n_keys ?leaf)" using F(4) F(5) [of key] i by (metis less_irrefl)
    have inl: "is_inline ?leaf ?i" using L(1) i by (simp add: leaf_node_def)
    have idx: "cli_index (cur_key_index ?c) = of_nat ?i" by (simp add: c(1) leaf_index_def Let_def)
    have look: "map_of (tree_items t) key = Some (payload_at ?leaf ?i)"
      using L(3) key by (simp add: node_lookup_place [OF asc])
    show ?thesis
      using tr rd nv(1) True ne F(3) read_inline_at [OF wf i inl assms(2), where pager = "pg\<lparr>pgr_cache := ch'\<rparr>"]
        table_tree_cache [OF assms(1) r2]
      by (intro exI [of _ "pg\<lparr>pgr_cache := ch'\<rparr>"])
        (simp add: btree_select_ex_def cursor_read_current_def c(2) idx look)
  qed
qed

end
