(* ===== verification/FreshNode.thy ===== *)
theory FreshNode
  imports TreeSelect ChainWrite
begin

text \<open>
  Nodes on new pages: a fresh view as \<open>noderc_acquire\<close> and \<open>noderc_reinit_as\<close> make it, a node that is
  copied to another page, and one that gets its page number when it is written.
\<close>

section \<open>Nodes that look the same\<close>

text \<open>A node is what its page holds from the header on.\<close>

definition looks_like :: "btree_node \<Rightarrow> btree_node \<Rightarrow> bool" where
  "looks_like node' node \<longleftrightarrow> node_shape node' \<and> node_header node' = node_header node \<and> node_end node' = node_end node \<and>
     drop (node_header node) (node_mem node') = drop (node_header node) (node_mem node)"

lemma looks_like_facts:
  assumes wf: "node_wf node" and same: "looks_like node' node"
  shows "node_wf node'" "node_abs node' = node_abs node" "n_keys node' = n_keys node" "n_free node' = n_free node"
    "n_hwm node' = n_hwm node" "n_right node' = n_right node" "node_is_leaf node' = node_is_leaf node"
    "node_key_list node' = node_key_list node"
proof -
  let ?h = "node_header node" and ?N = "set_node_mem node (node_mem node')"
  have L: "node_shape node'" "node_header node' = ?h" "node_end node' = node_end node"
    "drop ?h (node_mem node') = drop ?h (node_mem node)" using same by (simp_all add: looks_like_def)
  have sl: "slice (node_mem node') p k = slice (node_mem node) p k" if "?h \<le> p" for p k
  proof -
    have "drop p (node_mem node') = drop p (node_mem node)"
      using L(4) that by (metis drop_drop le_add_diff_inverse2)
    then show ?thesis by (simp add: slice_def)
  qed
  then have rd: "rd32 (node_mem node') (?h + f) = rd32 (node_mem node) (?h + f)" for f by (simp add: rd32_def)
  have len: "length (node_mem node') = node_end node" using L(3) by (simp add: node_end_def)
  note S = same_cells [OF wf len sl rd]
  have e: "node_end ?N = node_end node'" "node_header ?N = node_header node'" using len L(2,3) by simp_all
  have N: "n_keys ?N = n_keys node'" "n_free ?N = n_free node'" "n_hwm ?N = n_hwm node'"
    "\<And>i. pkey ?N i = pkey node' i" "\<And>off. cell_size ?N off = cell_size node' off"
    "\<And>off. cell_payload ?N off = cell_payload node' off"
    by (simp_all add: n_keys_def n_free_def n_hwm_def pkey_def cell_size_def cell_payload_def e L(2))
  have off: "cell_off ?N i = cell_off node' i" for i by (simp add: cell_off_def N)
  have inv: "node_wf ?N" by (rule S(1)) auto
  show "node_wf node'"
    using inv L(1) e by (simp add: node_wf_def node_inv_def cells_disjoint_def cell_lo_def cell_ok_def N off)
  have "node_entry ?N i = node_entry node' i" for i by (simp add: node_entry_def N off)
  then have "node_abs ?N = node_abs node'" by (simp add: node_abs_def N cong: map_cong)
  then show abs: "node_abs node' = node_abs node" using S(2) by simp
  then show "node_key_list node' = node_key_list node" by (simp add: node_key_list_abs)
  show "n_keys node' = n_keys node" "n_free node' = n_free node" "n_hwm node' = n_hwm node"
    using S(3-5) by (simp_all add: N)
  show "n_right node' = n_right node" using rd by (simp add: n_right_def L(2))
  have "node_header node < node_end node" using wf by (simp add: node_wf_def node_inv_def node_shape_def)
  then have "node_mem node' ! ?h = node_mem node ! ?h"
    using nth_drop [of ?h "node_mem node'" 0] nth_drop [of ?h "node_mem node" 0] L(4) len by (simp add: node_end_def)
  then show "node_is_leaf node' = node_is_leaf node"
    using L(3) by (simp add: node_is_leaf_def arr_get_def layout_defs L(2) node_end_def)
qed

lemma looks_like_leaf:
  assumes "leaf_node node" and "looks_like node' node"
  shows "leaf_node node'"
proof -
  have wf: "node_wf node" using assms(1) by (simp add: leaf_node_def)
  note L = looks_like_facts [OF wf assms(2)]
  show ?thesis using assms(1) L inline_entries_abs [of node] inline_entries_abs [of node'] by (simp add: leaf_node_def)
qed

lemma looks_like_inner:
  assumes "inner_node node" and "looks_like node' node"
  shows "inner_node node'" "child_ids node' = child_ids node"
proof -
  have wf: "node_wf node" using assms(1) by (simp add: inner_node_def sorted_node_def)
  note L = looks_like_facts [OF wf assms(2)]
  show "inner_node node'" "child_ids node' = child_ids node"
    using assms(1) L by (simp_all add: inner_node_def sorted_node_def child_ids_def)
qed

lemma stored_looks_like:
  assumes "node_shape node"
  shows "looks_like (stored node) node"
proof -
  let ?p = "node_page node"
  have h: "9 \<le> length (node_mem node)" "9 \<le> node_header node" "9 \<le> length (page_mem ?p)"
    using node_shape_header [OF assms] assms by (simp_all add: node_shape_def node_end_def node_mem_def)
  have "drop (node_header node) (in_use ?p) = drop (node_header node) (node_mem node)"
    using h by (simp add: in_use_def drop_with_meta node_mem_def)
  moreover have "length (in_use ?p) = node_end node" using h by (simp add: in_use_def node_end_def node_mem_def)
  ultimately show ?thesis
    using assms by (auto simp: looks_like_def stored_def node_mem_def node_end_def node_shape_def btu_get_node_buffer_def)
qed

text \<open>A node that was made without a number, under the number of its new page.\<close>

definition numbered :: "btree_node \<Rightarrow> u32 \<Rightarrow> btree_node" where
  "numbered node pid = node\<lparr>node_page_number := pid, node_page := (node_page node)\<lparr>page_id := pid,
     page_status := PAGER_OK, page_mem := with_meta (new_meta pid) (node_mem node)\<rparr>\<rparr>"

lemma numbered_looks_like:
  assumes "node_shape node" and "node_header node = 12" and "pid \<noteq> 1"
  shows "looks_like (numbered node pid) node"
proof -
  have h: "9 \<le> length (node_mem node)" using assms(1,2) by (simp add: node_shape_def node_end_def)
  then have "length (with_meta (new_meta pid) (node_mem node)) = node_end node" by (simp add: node_end_def)
  then show ?thesis
    using assms h by (simp add: looks_like_def numbered_def node_mem_def node_end_def node_shape_def
        btu_get_node_buffer_def drop_with_meta layout_defs page_buffer_off_def)
qed

section \<open>Fresh nodes\<close>

definition blank_view :: "'f pager \<Rightarrow> u32 \<Rightarrow> node_view \<Rightarrow> bool" where
  "blank_view pg pid nv \<longleftrightarrow> node_wf nv \<and> node_abs nv = [] \<and> n_hwm nv = 0 \<and> node_page_number nv = pid \<and>
     page_size (node_page nv) = pgr_page_size pg \<and> length (node_mem nv) = dps pg \<and>
     n_free nv = dps pg - node_header nv - 20"

lemma init_blank:
  assumes shape: "node_shape node" and zero: "n_keys node = 0" "n_hwm node = 0"
  shows "\<exists>nd. btree_node_init_from_page (node_page node) = Some (BTREE_OK, nd) \<and> node_wf nd \<and> node_abs nd = [] \<and>
    n_hwm nd = 0 \<and> n_free nd = node_end node - node_header node - 20 \<and>
    nd = set_node_mem node (patch (node_mem node) (node_header node + 4)
      (ser_write_32bit_le (of_nat (node_end node - node_header node - 20))))"
proof -
  let ?h = "node_header node"
  define free where "free = node_end node - node_header node - 20"
  let ?nd = "set_node_mem node (patch (node_mem node) (?h + 4) (ser_write_32bit_le (of_nat free)))"
  have h: "?h + 20 \<le> length (node_mem node)" "node_end node = length (node_mem node)"
    using shape by (simp_all add: node_shape_def node_end_def)
  have len: "length (patch (node_mem node) (?h + 4) (ser_write_32bit_le (of_nat free))) = node_end node" using h by simp
  have k: "n_keys ?nd = 0" "n_hwm ?nd = 0"
    using zero h by (simp_all add: n_keys_def n_hwm_def rd32_patch_disjoint)
  have "free < 4294967296" using node_end_small [OF shape] by (simp add: free_def)
  then have f: "n_free ?nd = free" using h by (simp add: n_free_def unat_u32_of_nat)
  have "node_shape ?nd" using shape len by simp
  moreover have "?h + 20 + free = node_end node" using h by (simp add: free_def)
  ultimately have "node_wf ?nd"
    using k f len by (simp add: node_wf_def node_inv_def cells_disjoint_def)
  then show ?thesis using init_from_page_run [OF shape] zero k f unfolding free_def [symmetric] by (simp add: node_abs_def)
qed

lemma acquire_blank:
  assumes dps: "dps pg = capacity pg + 12" "capacity pg < 2147483648" "32 \<le> dps pg"
  shows "\<exists>nv. noderc_acquire pg = Some (BTREE_OK, nv) \<and> blank_view pg 0 nv \<and> node_header nv = 12 \<and>
    (\<forall>pid. (pid = 1 \<longrightarrow> 132 \<le> dps pg) \<longrightarrow> (\<exists>nv'. noderc_reinit_as nv pid = Some (BTREE_OK, nv') \<and> blank_view pg pid nv'))"
proof -
  define p where "p = \<lparr>page_id = 0, page_size = pgr_page_size pg,
    page_status = PAGER_ERR_PAGE_PERSISTENCE_UNKNOWN, page_mem = replicate (dps pg) 0\<rparr>"
  define node where "node = \<lparr>node_page_number = 0, node_header = 12, node_page = p\<rparr>"
  have m: "node_mem node = replicate (dps pg) 0" "node_end node = dps pg" "node_header node = 12"
    by (simp_all add: node_def p_def node_mem_def node_end_def)
  have np: "node_page node = p" by (simp add: node_def)
  have shape: "node_shape node"
    using dps m by (simp add: node_shape_def btu_get_node_buffer_def layout_defs page_buffer_off_def)
      (simp add: node_def p_def capacity_def)
  have zero: "n_keys node = 0" "n_hwm node = 0" using dps by (simp_all add: n_keys_def n_hwm_def m rd32_zero)
  let ?w = "ser_write_32bit_le (of_nat (dps pg - 32)) :: bytes"
  obtain nv where nv: "btree_node_init_from_page p = Some (BTREE_OK, nv)" "node_wf nv" "node_abs nv = []" "n_hwm nv = 0"
    "n_free nv = dps pg - 32" "nv = set_node_mem node (patch (replicate (dps pg) 0) 16 ?w)"
    using init_blank [OF shape zero] by (auto simp: m np)
  have acq: "noderc_acquire pg = Some (BTREE_OK, nv)" using nv(1) by (simp add: noderc_acquire_def page_create_eq p_def)
  have F: "node_page_number nv = 0" "page_size (node_page nv) = pgr_page_size pg" "length (node_mem nv) = dps pg"
    "node_header nv = 12" "node_mem nv = patch (replicate (dps pg) 0) 16 ?w"
    using dps(3) by (simp_all add: nv(6)) (simp_all add: node_def p_def)
  have "\<exists>nv'. noderc_reinit_as nv pid = Some (BTREE_OK, nv') \<and> blank_view pg pid nv'" if big: "pid = 1 \<longrightarrow> 132 \<le> dps pg" for pid
  proof -
    define n1 where "n1 = \<lparr>node_page_number = pid, node_header = page_buffer_off + (if pid = 1 then 100 else 0),
      node_page = (node_page nv)\<lparr>page_id := pid\<rparr>\<rparr>"
    have m1: "node_mem n1 = patch (replicate (dps pg) 0) 16 ?w" "node_end n1 = dps pg" "node_page_number n1 = pid"
      "node_header n1 = (if pid = 1 then 112 else 12)" "page_size (node_page n1) = pgr_page_size pg" "page_id (node_page n1) = pid"
      using F by (simp_all add: n1_def node_mem_def node_end_def page_buffer_off_def layout_defs)
    have s1: "node_shape n1"
      using dps m1 big by (simp add: node_shape_def btu_get_node_buffer_def layout_defs page_buffer_off_def capacity_def BTREE_HEADER_SIZE_def)
    have z1: "n_keys n1 = 0" "n_hwm n1 = 0"
      using dps(3) big by (auto simp: n_keys_def n_hwm_def m1 rd32_patch_disjoint rd32_zero)
    obtain nv' where nv': "btree_node_init_from_page (node_page n1) = Some (BTREE_OK, nv')" "node_wf nv'" "node_abs nv' = []"
      "n_hwm nv' = 0" "n_free nv' = dps pg - node_header n1 - 20"
      "nv' = set_node_mem n1 (patch (node_mem n1) (node_header n1 + 4) (ser_write_32bit_le (of_nat (dps pg - node_header n1 - 20))))"
      using init_blank [OF s1 z1] by (auto simp: m1(2))
    have "length (node_mem nv') = dps pg" using m1(1,4) dps(3) big by (cases "pid = 1") (simp_all add: nv'(6))
    then have "blank_view pg pid nv'"
      using nv'(2-5) m1(3-5) by (simp add: blank_view_def) (simp add: nv'(6) m1)
    moreover have "noderc_reinit_as nv pid = Some (BTREE_OK, nv')"
      using nv'(1) by (simp add: noderc_reinit_as_def btree_node_init_as_page_number_def n1_def)
    ultimately show ?thesis by blast
  qed
  moreover have "blank_view pg 0 nv" using nv(2-5) F by (simp add: blank_view_def)
  ultimately show ?thesis using acq F(4) by blast
qed

section \<open>The cells of a node fit into a fresh one\<close>

lemma cells_fit:
  assumes wf: "node_wf node"
  shows "(\<Sum>e \<leftarrow> node_abs node. entry_room e) \<le> 12 * n_keys node + n_hwm node"
proof -
  let ?n = "n_keys node" and ?I = "\<lambda>i. {cell_lo node i..<cell_off node i}"
  have len: "cell_len node i \<le> cell_off node i \<and> cell_off node i \<le> n_hwm node" if "i < ?n" for i
    using cell_facts(1,2) [OF wf that] by simp
  have disj: "?I i \<inter> ?I j = {}" if "i < ?n" "j < ?n" "i \<noteq> j" for i j
  proof -
    have "cell_off node i \<le> cell_lo node j \<or> cell_off node j \<le> cell_lo node i"
      using wf that by (simp add: node_wf_def cells_disjoint_def)
    then show ?thesis by auto
  qed
  have card: "card (?I i) = cell_len node i" if "i < ?n" for i
    using len [OF that] by (simp add: cell_lo_def cell_len_def)
  have "(\<Sum>i < ?n. cell_len node i) = (\<Sum>i < ?n. card (?I i))" using card by simp
  also have "\<dots> = card (\<Union>i < ?n. ?I i)" using disj by (subst card_UN_disjoint) auto
  also have "\<dots> \<le> card {..<n_hwm node}"
  proof (rule card_mono)
    show "(\<Union>i < ?n. ?I i) \<subseteq> {..<n_hwm node}" using len by fastforce
  qed simp
  finally have sum: "(\<Sum>i < ?n. cell_len node i) \<le> n_hwm node" by simp
  have "entry_room (node_abs node ! i) = cell_len node i + 12" if "i < ?n" for i
    using cell_facts(5) [OF wf that] that by (simp add: entry_room_def node_abs_def node_entry_def cell_len_def)
  then have "(\<Sum>i < ?n. entry_room (node_abs node ! i)) = (\<Sum>i < ?n. cell_len node i) + 12 * ?n"
    by (simp add: sum.distrib)
  moreover have "(\<Sum>e \<leftarrow> node_abs node. entry_room e) = (\<Sum>i < ?n. entry_room (node_abs node ! i))"
    using sum_list_sum_nth [of "map entry_room (node_abs node)"] by (simp add: atLeast0LessThan)
  ultimately show ?thesis using sum by simp
qed

end
