(* ===== verification/SplitSteps.thy ===== *)
theory SplitSteps
  imports FreshNode
begin

text \<open>
  The steps of splitting a root: copying a node to another page, writing a node to a new page, a part of
  the entries of a leaf on another page, and the parent of two pages.
\<close>

lemma copy_run:
  assumes shape: "node_shape node" and src: "node_wf src" "0 < n_keys src"
    and same: "node_page_number src = node_page_number node" "page_size (node_page src) = page_size (node_page node)"
    and pid: "node_page_number node \<noteq> 1"
  shows "\<exists>nd. btree_node_copy node src = Some (BTREE_OK, nd) \<and> looks_like nd src \<and> same_layout nd node"
proof -
  define m where "m = take 12 (node_mem node) @ drop 12 (node_mem src)"
  have S: "node_shape src" using src(1) by (simp add: node_wf_def node_inv_def)
  have h: "node_header node = 12" "node_header src = 12" "btu_get_node_buffer node = 12" "btu_get_node_buffer src = 12"
    using shape S pid same(1) by (simp_all add: node_shape_def btu_get_node_buffer_def page_buffer_off_def)
  have len: "length (node_mem node) = 12 + unat (page_size (node_page node))" "length (node_mem src) = length (node_mem node)"
    using shape S same(2) by (simp_all add: node_shape_def node_end_def)
  have size: "unat (btu_get_node_size src) = length (drop 12 (node_mem src))" "btu_get_node_size src = btu_get_node_size node"
    using len same pid by (simp_all add: btu_get_node_size_def)
  have rd: "mem_read (node_mem src) 12 (unat (btu_get_node_size src)) = Some (drop 12 (node_mem src))"
    using len(1) unfolding size(1) by (simp add: mem_read_def len(2))
  have w: "mem_write (node_mem node) 12 (drop 12 (node_mem src)) = Some m"
    using len by (simp add: mem_write_def m_def)
  have m: "length m = node_end node" "drop 12 m = drop 12 (node_mem src)" using len by (simp_all add: m_def node_end_def)
  define nd where "nd = set_node_mem node m"
  have shape': "node_shape nd" using shape m(1) by (simp add: nd_def)
  have like: "looks_like nd src"
    using shape' h m(2) len(2) m(1) by (simp add: looks_like_def nd_def node_end_def)
  have "0 < n_keys nd" using looks_like_facts(3) [OF src(1) like] src(2) by simp
  then have "btree_node_copy node src = Some (BTREE_OK, nd)"
    using init_from_page_run [OF shape'] rd w h size(2) by (simp add: btree_node_copy_def nd_def)
  with like same_layout_set [OF m(1)] show ?thesis by (auto simp: nd_def)
qed

text \<open>A node without a page number is written.\<close>

lemma write_new_node:
  assumes stock: "pager_stock pg ys (Suc n)" and shape: "node_shape node" and num: "node_page_number node = 0"
    and len: "length (node_mem node) = dps pg" and sz: "page_size (node_page node) = pgr_page_size pg"
  shows "\<exists>pg' pid. pager_write_page pg (node_page node) = Some (PAGER_OK, pg', node_page (numbered node pid)) \<and>
    pager_stock pg' (tl ys) n \<and> same_pager co_room pg pg' \<and> node_on pg' (numbered node pid) \<and>
    looks_like (numbered node pid) node \<and> pid \<noteq> 0 \<and> pid \<noteq> 1 \<and> (pid \<in> set ys \<or> pgr_max_page pg < pid) \<and>
    pid \<notin> set (tl ys) \<and> pid \<le> pgr_max_page pg' \<and> pgr_max_page pg \<le> pgr_max_page pg' \<and>
    (\<forall>j. j \<noteq> pid \<longrightarrow> j \<noteq> 1 \<longrightarrow> disk_of cf_data pg' j = disk_of cf_data pg j) \<and> others_kept pg pg' {pid}"
proof -
  have P: "pager_ready pg" "dps pg = capacity pg + 12" "free_list (disk_of cf_data pg) ys" "pgr_max_page pg \<noteq> 0"
    "more_room pg (Suc n)" "more_room pg 1" "12 \<le> dps pg"
    using stock by (auto simp: pager_stock_def more_room_def)
  define pid where "pid = fresh_id pg ys"
  have p: "page_for pg (node_page node)" "page_id (node_page node) = 0"
    using len num shape by (simp_all add: page_for_def node_mem_def node_shape_def)
  obtain pg' where W: "pager_write_page pg (node_page node) = Some (PAGER_OK, pg', (node_page node)\<lparr>page_id := pid,
      page_status := PAGER_OK, page_mem := with_meta (new_meta pid) (page_mem (node_page node))\<rparr>)"
    "pager_ready pg'" "same_pager co_room pg pg'" "pgr_max_page pg' = max (pgr_max_page pg) pid"
    "disk_of cf_data pg' pid = Some (with_meta (new_meta pid) (page_mem (node_page node)))"
    "\<forall>j. j \<noteq> pid \<longrightarrow> map_option (drop 9) (disk_of cf_data pg' j) = map_option (drop 9) (disk_of cf_data pg j)"
    "\<forall>j. j \<noteq> pid \<longrightarrow> j \<noteq> 1 \<longrightarrow> disk_of cf_data pg' j = disk_of cf_data pg j"
    "free_list (disk_of cf_data pg') (tl ys)" "unat pid \<le> unat (pgr_max_page pg) + 1" "pid \<noteq> 0" "pid \<noteq> 1"
    "pid \<notin> set (tl ys)" "pid \<in> set ys \<or> pgr_max_page pg < pid"
    using write_fresh [OF P(1,7,3,4,6) p, folded pid_def] by blast
  have h: "node_header node = 12" using shape num by (simp add: node_shape_def btu_get_node_buffer_def page_buffer_off_def)
  have "unat (pgr_max_page pg') \<le> unat (pgr_max_page pg) + 1" using W(4,9) by (simp add: max_def word_le_nat_alt)
  then have "more_room pg' n" by (rule room_step [OF P(5) W(3)])
  moreover have "pgr_max_page pg' \<noteq> 0" using W(4,10) P(4) by (simp add: max_def split: if_splits)
  moreover have "dps pg' = capacity pg' + 12" using W(3) P(2) by (simp add: same_pager_def capacity_def dps_def)
  ultimately have "pager_stock pg' (tl ys) n" using W(2,8) by (simp add: pager_stock_def)
  moreover have "node_on pg' (numbered node pid)"
    using W(3,5) sz by (simp add: node_on_def numbered_def node_mem_def same_pager_def)
  ultimately show ?thesis
    using W numbered_looks_like [OF shape h W(11)]
    by (intro exI [of _ pg'] exI [of _ pid]) (simp add: numbered_def node_mem_def others_kept_def)
qed

text \<open>A part of the entries of a leaf on another node.\<close>

lemma leaf_part:
  assumes leaf: "leaf_node node" and nd: "node_wf nd" "node_is_leaf nd = Some True" "n_keys nd = 0 \<Longrightarrow> n_hwm nd = 0"
    and part: "node_abs node = pre @ node_abs nd @ post"
  shows "leaf_node nd"
proof -
  have asc: "sorted_wrt (<) (node_key_list node)" and inl: "inline_entries (node_abs node)" and n: "n_keys node < 256"
    using leaf inline_entries_abs [of node] by (simp_all add: leaf_node_def keys_ascending_def)
  have "sorted_wrt (<) (node_key_list nd)"
    using asc by (simp add: node_key_list_abs part sorted_wrt_append)
  moreover have "inline_entries (node_abs nd)" using inl by (auto simp: inline_entries_def part)
  moreover have "n_keys nd \<le> n_keys node"
    using arg_cong [OF part, of length] by simp
  ultimately show ?thesis
    using nd n inline_entries_abs [of nd] by (simp add: leaf_node_def keys_ascending_def)
qed

text \<open>The new parent: one key, with the left half as its child and the right half behind it.\<close>

lemma make_parent:
  assumes blank: "blank_view pg pid nv" and room: "20 \<le> n_free nv"
  shows "\<exists>nd. node_is_leaf_set nv False = Some (with_leaf nv False) \<and>
    node_right_child_set (with_leaf nv False) r = Some (r, with_right (with_leaf nv False) r) \<and>
    btree_node_insert_inline (with_right (with_leaf nv False) r) \<lparr>ii_mode = KLIM_END, ii_index = 0\<rparr> key
      \<lparr>ci_inline_size = 4, ci_payload = ser_write_32bit_le l\<rparr> = Some (BTREE_OK, nd) \<and>
    inner_node nd \<and> node_abs nd = [(key, inline_flags, ser_write_32bit_le l)] \<and> child_ids nd = [l, r] \<and>
    n_free nd = n_free nv - 20 \<and> node_page_number nd = pid \<and> page_size (node_page nd) = pgr_page_size pg"
proof -
  have B: "node_wf nv" "node_abs nv = []" "node_page_number nv = pid" "page_size (node_page nv) = pgr_page_size pg"
    using blank by (simp_all add: blank_view_def)
  note L = set_leaf [OF B(1), of False]
  let ?p = "with_right (with_leaf nv False) r"
  note R = set_right [OF L(2), of r]
  let ?cell = "\<lparr>ci_inline_size = 4, ci_payload = ser_write_32bit_le l\<rparr>"
  have "unat (ci_inline_size ?cell) \<le> length (ci_payload ?cell)" "unat (ci_inline_size ?cell) + 16 \<le> n_free ?p"
    using room L(5) R(5) by simp_all
  from insert_end_run [OF R(2) this, of key inline_flags]
  obtain nd where nd: "btree_node_insert_inline_ex ?p at_end key ?cell inline_flags = Some (BTREE_OK, nd)" "node_wf nd"
    "node_abs nd = [(key, inline_flags, ser_write_32bit_le l)]" "n_free nd = n_free nv - 20" "same_frame nd ?p"
    using L(3,5) R(3,5) B(2) by auto
  have n: "n_keys nd = 1" using arg_cong [OF nd(3), of length] by simp
  have shape: "node_shape ?p" using R(2) by (simp add: node_wf_def node_inv_def)
  have leaf: "node_is_leaf nd = Some False" using same_frame_leaf [OF nd(5) shape] L(9) R(9) by simp
  have keys: "keys_ascending (node_key_list nd)" by (simp add: node_key_list_abs nd(3) keys_ascending_def)
  have "n_right nd = r" using nd(5) R(7) by (simp add: same_frame_def)
  then have "child_ids nd = [l, r]" by (simp add: child_ids_def nd(3) child_of_def rd32_def slice_def)
  moreover have "inner_node nd" using nd(2) leaf keys n by (simp add: inner_node_def sorted_node_def nd(3))
  moreover have "same_layout nd nv"
    using nd(5) R(8) L(8) same_layout_trans by (auto simp: same_frame_def)
  from same_layout_facts(1,2) [OF this] have "node_page_number nd = pid" "page_size (node_page nd) = pgr_page_size pg"
    using B(3,4) by simp_all
  ultimately show ?thesis
    using L(1) R(1) nd(1,3,4) by (intro exI [of _ nd])
      (simp add: btree_node_insert_inline_def at_end_def inline_flags_def)
qed

end
