(* ===== verification/RootSplit.thy ===== *)
theory RootSplit
  imports SplitSteps
begin

text \<open>
  A full leaf that is the root is split: its entries go to two new pages, and the root page becomes
  their parent.  The tree has the same entries as before, and then the new one, if the half it belongs
  to has room for it.
\<close>

section \<open>Splitting the root\<close>

lemma on_disk_allocated: "node_on pg node \<Longrightarrow> node_page_number node \<noteq> 0 \<and> node_page_number node \<le> pgr_max_page pg"
  by (auto simp: node_on_def disk_of_def allocated_def split: if_splits)

lemma stock_can_write:
  assumes "pager_stock pg ys n" and "node_on pg node"
  shows "can_write co_room pg (node_page_number node)"
  using assms on_disk_allocated [OF assms(2)]
  by (intro room_can_write [of pg n]) (auto simp: pager_stock_def word_le_nat_alt)

text \<open>A node of a new page, as \<open>split_node\<close> gets it.\<close>

lemma blank_target:
  assumes leaf: "leaf_node node" and on: "pager_ready pg" "node_on pg node" and pid: "node_page_number node \<noteq> 1"
    and cells: "\<forall>e \<in> set (node_abs node). entry_room e \<le> unat (btree_node_max_cell_size node)"
    and blank: "blank_view pg j nv" "j \<noteq> 1"
  shows "split_target node nv" "btree_node_max_cell_size nv = btree_node_max_cell_size node" "n_free nv = dps pg - 32"
proof -
  have wf: "node_wf node" using leaf by (simp add: leaf_node_def)
  then have inv: "node_inv node" "node_shape node" by (simp_all add: node_wf_def node_inv_def)
  have B: "node_wf nv" "node_abs nv = []" "node_page_number nv \<noteq> 1" "page_size (node_page nv) = pgr_page_size pg"
    "n_free nv = dps pg - node_header nv - 20"
    using blank by (simp_all add: blank_view_def)
  then have "node_shape nv" by (simp add: node_wf_def node_inv_def)
  then have h: "node_header nv = 12" "node_header node = 12"
    using B(3) inv(2) pid by (simp_all add: node_shape_def btu_get_node_buffer_def page_buffer_off_def)
  have ps: "page_size (node_page node) = pgr_page_size pg" using on(2) by (simp add: node_on_def)
  show max: "btree_node_max_cell_size nv = btree_node_max_cell_size node"
    using B(3,4) ps pid by (simp add: btree_node_max_cell_size_def btu_get_node_heap_size_def btu_get_node_size_def)
  show free: "n_free nv = dps pg - 32" using B(5) h by simp
  have "node_end node = dps pg" using node_on_length [OF on] by (simp add: node_end_def)
  then have "32 + 12 * n_keys node + n_free node + n_hwm node = dps pg" using inv(1) h by (simp add: node_inv_def)
  then have "12 * n_keys node + n_hwm node \<le> dps pg - 32" by linarith
  then show "split_target node nv"
    using cells_fit [OF wf] cells B(1,2) max free by (simp add: split_target_def)
qed

text \<open>A half of the split leaf, with its page.\<close>

definition half_on :: "cfile pager \<Rightarrow> btree_node \<Rightarrow> entry list \<Rightarrow> btree_node \<Rightarrow> bool" where
  "half_on pg node es nd \<longleftrightarrow> leaf_node nd \<and> node_on pg nd \<and> node_abs nd = es \<and>
     n_free nd = dps pg - 32 - (\<Sum>e \<leftarrow> es. entry_room e) \<and>
     btree_node_max_cell_size nd = btree_node_max_cell_size node"

lemma half_on_other:
  assumes "half_on pg node es nd" and "same_pager co_room pg pg'"
    and "disk_of cf_data pg' (node_page_number nd) = disk_of cf_data pg (node_page_number nd)"
  shows "half_on pg' node es nd"
  using assms node_on_other [OF _ assms(2,3)] by (simp add: half_on_def same_pager_def dps_def)

lemma half_leaf:
  assumes leaf: "leaf_node node"
    and nv: "same_layout nd nv" "blank_view pg j nv" "j \<noteq> 1" "btree_node_max_cell_size nv = btree_node_max_cell_size node"
    and nd: "node_wf nd" "node_abs nd = es" "n_free nd = dps pg - 32 - (\<Sum>e \<leftarrow> es. entry_room e)"
    and part: "node_abs node = pre @ es @ post"
  defines "half \<equiv> with_leaf nd True"
  shows "node_is_leaf_set nd True = Some half" "leaf_node half" "node_shape half" "node_wf half"
    "node_page_number half = j" "length (node_mem half) = dps pg" "page_size (node_page half) = pgr_page_size pg"
    "node_abs half = es" "n_free half = dps pg - 32 - (\<Sum>e \<leftarrow> es. entry_room e)"
    "btree_node_max_cell_size half = btree_node_max_cell_size node"
proof -
  note L = set_leaf [OF nd(1), of True, folded half_def]
  have lay: "same_layout half nv" using same_layout_trans [OF L(8) nv(1)] .
  note S = same_layout_facts [OF lay]
  have B: "node_page_number nv = j" "page_size (node_page nv) = pgr_page_size pg" "length (node_mem nv) = dps pg"
    using nv(2) by (simp_all add: blank_view_def)
  show shape: "node_shape half" using L(2) by (simp add: node_wf_def node_inv_def)
  show num: "node_page_number half = j" and len: "length (node_mem half) = dps pg"
    and "page_size (node_page half) = pgr_page_size pg" and "btree_node_max_cell_size half = btree_node_max_cell_size node"
    using S B nv(4) by simp_all
  show "node_is_leaf_set nd True = Some half" "node_wf half" by (rule L(1), rule L(2))
  show "node_abs half = es" "n_free half = dps pg - 32 - (\<Sum>e \<leftarrow> es. entry_room e)" using L(3,5) nd(2,3) by simp_all
  have h: "node_header half = 12" using shape num nv(3) by (simp add: node_shape_def btu_get_node_buffer_def page_buffer_off_def)
  show "leaf_node half"
  proof (rule leaf_part [OF leaf L(2) L(9)])
    show "node_abs node = pre @ node_abs half @ post" using part L(3) nd(2) by simp
    assume z: "n_keys half = 0"
    then have free: "n_free half = dps pg - 32" using L(3-5) nd(2,3) length_node_abs [of nd] by simp
    have "node_header half + 20 + 12 * n_keys half + n_free half + n_hwm half = node_end half"
      using L(2) by (simp add: node_wf_def node_inv_def)
    moreover have "node_end half = dps pg" using len by (simp add: node_end_def)
    ultimately show "n_hwm half = 0" using z h free by linarith
  qed
qed

lemma write_half:
  assumes stock: "pager_stock pg ys (Suc n)" and leaf: "leaf_node node"
    and nv: "same_layout nd nv" "blank_view pg 0 nv" "btree_node_max_cell_size nv = btree_node_max_cell_size node"
    and nd: "node_wf nd" "node_abs nd = es" "n_free nd = dps pg - 32 - (\<Sum>e \<leftarrow> es. entry_room e)"
    and part: "node_abs node = pre @ es @ post"
  shows "\<exists>pg' pid. node_is_leaf_set nd True = Some (with_leaf nd True) \<and>
    pager_write_page pg (node_page (with_leaf nd True)) = Some (PAGER_OK, pg', node_page (numbered (with_leaf nd True) pid)) \<and>
    half_on pg' node es (numbered (with_leaf nd True) pid) \<and>
    pager_stock pg' (tl ys) n \<and> same_pager co_room pg pg' \<and> (pid \<in> set ys \<or> pgr_max_page pg < pid) \<and> pid \<noteq> 1 \<and>
    pid \<notin> set (tl ys) \<and> pid \<le> pgr_max_page pg' \<and> pgr_max_page pg \<le> pgr_max_page pg' \<and>
    (\<forall>j. j \<noteq> pid \<longrightarrow> j \<noteq> 1 \<longrightarrow> disk_of cf_data pg' j = disk_of cf_data pg j)"
proof -
  let ?nd = "with_leaf nd True"
  note H = half_leaf [OF leaf nv(1,2) zero_neq_one nv(3) nd part]
  obtain pg' pid where W: "pager_write_page pg (node_page ?nd) = Some (PAGER_OK, pg', node_page (numbered ?nd pid))"
    "pager_stock pg' (tl ys) n" "same_pager co_room pg pg'" "node_on pg' (numbered ?nd pid)"
    "looks_like (numbered ?nd pid) ?nd" "pid \<noteq> 1" "pid \<in> set ys \<or> pgr_max_page pg < pid"
    "pid \<notin> set (tl ys)" "pid \<le> pgr_max_page pg'" "pgr_max_page pg \<le> pgr_max_page pg'"
    "\<forall>j. j \<noteq> pid \<longrightarrow> j \<noteq> 1 \<longrightarrow> disk_of cf_data pg' j = disk_of cf_data pg j"
    using write_new_node [OF stock H(3,5,6,7)] by blast
  note F = looks_like_facts [OF H(4) W(5)]
  have "leaf_node (numbered ?nd pid)" by (rule looks_like_leaf [OF H(2) W(5)])
  moreover have "btree_node_max_cell_size (numbered ?nd pid) = btree_node_max_cell_size ?nd"
    using W(6) H(5) by (simp add: numbered_def btree_node_max_cell_size_def btu_get_node_heap_size_def btu_get_node_size_def)
  moreover have "dps pg' = dps pg" using W(3) by (simp add: same_pager_def dps_def)
  ultimately have "half_on pg' node es (numbered ?nd pid)"
    using F(2,4) H(8-10) W(4) by (simp add: half_on_def)
  with W H(1) show ?thesis by blast
qed

lemma stock_blank:
  assumes "pager_stock pg ys n" and "leaf_node node" and "node_on pg node" and "node_page_number node \<noteq> 1"
  shows "\<exists>nv pv. noderc_acquire_load_n pg [0, 0, 0] = Some (BTREE_OK, pg, [nv, nv, nv]) \<and>
    noderc_acquire_load_n pg [0, 0] = Some (BTREE_OK, pg, [nv, nv]) \<and> blank_view pg 0 nv \<and>
    noderc_reinit_as nv (node_page_number node) = Some (BTREE_OK, pv) \<and> blank_view pg (node_page_number node) pv \<and>
    n_free pv = dps pg - 32"
proof -
  have ready: "pager_ready pg" and d: "dps pg = capacity pg + 12" using assms(1) by (simp_all add: pager_stock_def)
  have shape: "node_shape node" using leaf_facts(2) [OF assms(2)] .
  have len: "node_end node = dps pg" using node_on_length [OF ready assms(3)] by (simp add: node_end_def)
  have h: "node_header node = 12"
    using shape assms(4) by (simp add: node_shape_def btu_get_node_buffer_def page_buffer_off_def)
  have "capacity pg < 2147483648" "32 \<le> dps pg"
    using shape len h assms(3) by (simp_all add: node_shape_def node_on_def capacity_def)
  from acquire_blank [OF d this]
  obtain nv where nv: "noderc_acquire pg = Some (BTREE_OK, nv)" "blank_view pg 0 nv"
    and re: "\<exists>pv. noderc_reinit_as nv (node_page_number node) = Some (BTREE_OK, pv) \<and> blank_view pg (node_page_number node) pv"
    using assms(4) by blast
  from re obtain pv where pv: "noderc_reinit_as nv (node_page_number node) = Some (BTREE_OK, pv)"
    "blank_view pg (node_page_number node) pv" by blast
  have "node_wf pv" "node_page_number pv = node_page_number node" using pv(2) by (simp_all add: blank_view_def)
  then have "node_header pv = 12"
    using assms(4) by (simp add: node_wf_def node_inv_def node_shape_def btu_get_node_buffer_def page_buffer_off_def)
  then have "n_free pv = dps pg - 32" using pv(2) by (simp add: blank_view_def)
  with nv pv show ?thesis by (intro exI [of _ nv] exI [of _ pv]) simp
qed

lemma stock_kept:
  assumes "pager_stock pg ys n" and same: "same_pager co_room pg pg'" and "pager_ready pg'"
    and max: "pgr_max_page pg' = pgr_max_page pg" and "free_list (disk_of cf_data pg') ys"
  shows "pager_stock pg' ys n"
proof -
  have "dps pg' = dps pg" "capacity pg' = capacity pg"
    using same by (simp_all add: same_pager_def capacity_def dps_def)
  moreover have "more_room pg' n = more_room pg n"
    using same max by (simp add: more_room_def same_pager_def dps_def)
  ultimately show ?thesis using assms by (simp add: pager_stock_def)
qed

text \<open>The halves are on their pages; the root is written over with their parent.\<close>

lemma write_parent:
  assumes stock: "pager_stock pg ys n" and root: "node_on pg node" "node_shape node" "node_page_number node \<notin> set ys"
      "node_page_number node \<noteq> 1"
    and blank: "blank_view pg0 (node_page_number node) pv" "20 \<le> n_free pv" "pgr_page_size pg0 = pgr_page_size pg"
  shows "\<exists>pg' p nd0 nd. node_is_leaf_set pv False = Some (with_leaf pv False) \<and>
    node_right_child_set (with_leaf pv False) r = Some (r, with_right (with_leaf pv False) r) \<and>
    btree_node_insert_inline (with_right (with_leaf pv False) r) \<lparr>ii_mode = KLIM_END, ii_index = 0\<rparr> key
      \<lparr>ci_inline_size = 4, ci_payload = ser_write_32bit_le l\<rparr> = Some (BTREE_OK, p) \<and>
    btree_node_copy node p = Some (BTREE_OK, nd0) \<and>
    pager_write_page pg (node_page nd0) = Some (PAGER_OK, pg', node_page nd) \<and>
    nd0\<lparr>node_page := node_page nd\<rparr> = nd \<and> inner_node nd \<and> node_on pg' nd \<and> child_ids nd = [l, r] \<and>
    node_key_list nd = [key] \<and> n_free nd = n_free pv - 20 \<and> node_page_number nd = node_page_number node \<and> page_size (node_page nd) = pgr_page_size pg \<and>
    pager_stock pg' ys n \<and> same_pager co_room pg pg' \<and> pgr_max_page pg' = pgr_max_page pg \<and>
    (\<forall>j. j \<noteq> node_page_number node \<longrightarrow> disk_of cf_data pg' j = disk_of cf_data pg j)"
proof -
  obtain p where p: "node_is_leaf_set pv False = Some (with_leaf pv False)"
    "node_right_child_set (with_leaf pv False) r = Some (r, with_right (with_leaf pv False) r)"
    "btree_node_insert_inline (with_right (with_leaf pv False) r) \<lparr>ii_mode = KLIM_END, ii_index = 0\<rparr> key
      \<lparr>ci_inline_size = 4, ci_payload = ser_write_32bit_le l\<rparr> = Some (BTREE_OK, p)"
    "inner_node p" "node_abs p = [(key, inline_flags, ser_write_32bit_le l)]" "child_ids p = [l, r]"
    "node_page_number p = node_page_number node" "page_size (node_page p) = pgr_page_size pg0" "n_free p = n_free pv - 20"
    using make_parent [OF blank(1,2), of r key l] by blast
  have wf: "node_wf p" using p(4) by (simp add: inner_node_def sorted_node_def)
  have ps: "page_size (node_page p) = page_size (node_page node)" using p(8) root(1) blank(3) by (simp add: node_on_def)
  have n: "0 < n_keys p" using arg_cong [OF p(5), of length] by simp
  obtain nd0 where c: "btree_node_copy node p = Some (BTREE_OK, nd0)" "looks_like nd0 p" "same_layout nd0 node"
    using copy_run [OF root(2) wf n p(7) ps root(4)] by blast
  note S = same_layout_facts [OF c(3)]
  have shape: "node_shape nd0" using c(2) by (simp add: looks_like_def)
  have ready: "pager_ready pg" using stock by (simp add: pager_stock_def)
  have w: "can_write co_room pg (node_page_number nd0)" using stock_can_write [OF stock root(1)] S(2) by simp
  have len: "length (node_mem nd0) = dps pg" using S(5) node_on_length [OF ready root(1)] by simp
  have sz: "page_size (node_page nd0) = pgr_page_size pg" using S(1) root(1) by (simp add: node_on_def)
  define nd where "nd = stored nd0"
  obtain pg' where W: "pager_write_page pg (node_page nd0) = Some (PAGER_OK, pg', node_page nd)" "pager_ready pg'"
    "node_on pg' nd" "disk_of cf_data pg' = (disk_of cf_data pg)(node_page_number nd0 \<mapsto> node_mem nd)"
    "same_pager co_room pg pg'" "pgr_max_page pg' = max (pgr_max_page pg) (node_page_number nd0)"
    using write_node [OF ready shape w len sz, folded nd_def] by blast
  have max: "pgr_max_page pg' = pgr_max_page pg" using W(6) on_disk_allocated [OF root(1)] S(2) by (simp add: max_def antisym)
  have like: "looks_like nd nd0" unfolding nd_def by (rule stored_looks_like [OF shape])
  note I0 = looks_like_inner [OF p(4) c(2)] and I = looks_like_inner [OF looks_like_inner(1) [OF p(4) c(2)] like]
  have wf0: "node_wf nd0" using I0(1) by (simp add: inner_node_def sorted_node_def)
  have "node_key_list nd = [key]"
    using looks_like_facts(8) [OF wf0 like] looks_like_facts(8) [OF wf c(2)] p(5) by (simp add: node_key_list_abs)
  moreover have "n_free nd = n_free pv - 20" using looks_like_facts(4) [OF wf0 like] looks_like_facts(4) [OF wf c(2)] p(9) by simp
  moreover have "free_list (disk_of cf_data pg') ys" using stock W(4) root(3,4) S(2) by (simp add: pager_stock_def free_list_upd)
  note stock_kept [OF stock W(5,2) max this]
  moreover have "node_page_number nd = node_page_number node" "nd0\<lparr>node_page := node_page nd\<rparr> = nd"
    "page_size (node_page nd) = pgr_page_size pg"
    using S(2) sz by (simp_all add: nd_def stored_def)
  ultimately show ?thesis
    using p(1-3,6) c(1) W(1,3-5) max I I0(2) S(2)
    by (intro exI [of _ pg'] exI [of _ p] exI [of _ nd0] exI [of _ nd]) simp
qed

text \<open>The entries of the two halves, and the middle key.\<close>

definition left_half :: "btree_node \<Rightarrow> entry list" where
  "left_half node = take ((n_keys node + 1) div 2) (node_abs node)"

definition right_half :: "btree_node \<Rightarrow> entry list" where
  "right_half node = drop ((n_keys node + 1) div 2) (node_abs node)"

definition split_key :: "btree_node \<Rightarrow> u32" where
  "split_key node = fst (last (left_half node))"

lemma split_key_nth:
  assumes "0 < n_keys node"
  shows "fst (node_abs node ! ((n_keys node + 1) div 2 - 1)) = split_key node"
proof -
  have h: "0 < (n_keys node + 1) div 2" "(n_keys node + 1) div 2 \<le> n_keys node" using assms by simp_all
  then have len: "length (left_half node) = (n_keys node + 1) div 2" by (simp add: left_half_def)
  with h(1) have "left_half node \<noteq> []" by force
  with len show ?thesis using h by (simp add: split_key_def last_conv_nth) (simp add: left_half_def)
qed

lemma max_cell_bound:
  assumes "node_shape node" and "node_page_number node \<noteq> 1"
  shows "unat (btree_node_max_cell_size node) = (node_end node - 32) div 4"
proof -
  have h: "node_header node = 12" "node_end node = 12 + unat (page_size (node_page node))" "node_header node + 20 \<le> node_end node"
    using assms by (simp_all add: node_shape_def btu_get_node_buffer_def page_buffer_off_def)
  then have "unat (page_size (node_page node) - 20) = node_end node - 32"
    by (subst unat_sub_ok) (simp_all add: word_le_nat_alt)
  then show ?thesis
    using assms(2) by (simp add: btree_node_max_cell_size_def btu_get_node_heap_size_def btu_get_node_size_def layout_defs unat_div)
qed

lemma split_root_run:
  assumes stock: "pager_stock pg ys (n + 2)" and leaf: "leaf_node node" and on: "node_on pg node"
    and root: "node_page_number node \<notin> set ys" "node_page_number node \<noteq> 1" and keys: "0 < n_keys node"
    and cells: "\<forall>e \<in> set (node_abs node). entry_room e \<le> unat (btree_node_max_cell_size node)"
  shows "\<exists>pg' nd l r. bta_split_node_as_parent node pg sp = Some (BTREE_OK, pg', nd,
      \<lparr>sap_left_child_page_id = node_page_number l, sap_left_child_high_key = split_key node,
       sap_right_child_page_id = node_page_number r\<rparr>) \<and>
    inner_node nd \<and> node_on pg' nd \<and> child_ids nd = [node_page_number l, node_page_number r] \<and>
    node_key_list nd = [split_key node] \<and> n_free nd = dps pg - 52 \<and> node_page_number nd = node_page_number node \<and>
    half_on pg' node (left_half node) l \<and> half_on pg' node (right_half node) r \<and>
    distinct [1, node_page_number node, node_page_number l, node_page_number r] \<and>
    {node_page_number node, node_page_number l, node_page_number r} \<inter> set (drop 2 ys) = {} \<and>
    {node_page_number l, node_page_number r} \<subseteq> set ys \<union> {j. pgr_max_page pg < j} \<and>
    pager_stock pg' (drop 2 ys) n \<and> same_pager co_room pg pg' \<and>
    (\<forall>j. j \<notin> {1, node_page_number node, node_page_number l, node_page_number r} \<longrightarrow>
      disk_of cf_data pg' j = disk_of cf_data pg j)"
proof -
  let ?root = "node_page_number node"
  have wf: "node_wf node" and kind: "node_is_leaf node = Some True" using leaf by (simp_all add: leaf_node_def)
  have ready: "pager_ready pg" using stock by (simp add: pager_stock_def)
  have shape: "node_shape node" by (rule leaf_facts(2) [OF leaf])
  obtain nv pv where nv: "noderc_acquire_load_n pg [0, 0, 0] = Some (BTREE_OK, pg, [nv, nv, nv])" "blank_view pg 0 nv"
    "noderc_reinit_as nv ?root = Some (BTREE_OK, pv)" "blank_view pg ?root pv" "n_free pv = dps pg - 32"
    using stock_blank [OF stock leaf on root(2)] by blast
  note B = blank_target [OF leaf ready on root(2) cells nv(2) zero_neq_one]
  let ?h = "(n_keys node + 1) div 2"
  have h: "?h - 1 < n_keys node" "0 < ?h" "?h \<le> n_keys node" using keys by simp_all
  note key = split_key_nth [OF keys]
  obtain l0 r0 where sn: "split_node node pg nv nv = Some (split_key node, l0, r0, pg)" "node_wf l0" "node_wf r0"
    "same_layout l0 nv" "same_layout r0 nv" "node_abs r0 = right_half node" "node_abs l0 = left_half node"
    "n_free r0 = dps pg - 32 - (\<Sum>e \<leftarrow> right_half node. entry_room e)"
    "n_free l0 = dps pg - 32 - (\<Sum>e \<leftarrow> left_half node. entry_room e)"
    using split_node_run [OF wf keys kind B(1,1), of pg] unfolding key left_half_def [symmetric] right_half_def [symmetric] B(3)
    by auto
  have parts: "node_abs node = [] @ left_half node @ right_half node" "node_abs node = left_half node @ right_half node @ []"
    by (simp_all add: left_half_def right_half_def)
  have stock2: "pager_stock pg ys (Suc (Suc n))" using stock by simp
  obtain pg1 lid where L: "node_is_leaf_set l0 True = Some (with_leaf l0 True)"
    "pager_write_page pg (node_page (with_leaf l0 True)) = Some (PAGER_OK, pg1, node_page (numbered (with_leaf l0 True) lid))"
    "half_on pg1 node (left_half node) (numbered (with_leaf l0 True) lid)" "pager_stock pg1 (tl ys) (Suc n)"
    "same_pager co_room pg pg1" "lid \<in> set ys \<or> pgr_max_page pg < lid" "lid \<noteq> 1" "lid \<notin> set (tl ys)"
    "lid \<le> pgr_max_page pg1" "pgr_max_page pg \<le> pgr_max_page pg1"
    "\<forall>j. j \<noteq> lid \<longrightarrow> j \<noteq> 1 \<longrightarrow> disk_of cf_data pg1 j = disk_of cf_data pg j"
    using write_half [OF stock2 leaf sn(4) nv(2) B(2) sn(2,7,9) parts(1)] by blast
  have same1: "dps pg1 = dps pg" using L(5) by (simp add: same_pager_def dps_def)
  have blank1: "blank_view pg1 0 nv" using nv(2) L(5) by (simp add: blank_view_def same_pager_def dps_def)
  obtain pg2 rid where R: "node_is_leaf_set r0 True = Some (with_leaf r0 True)"
    "pager_write_page pg1 (node_page (with_leaf r0 True)) = Some (PAGER_OK, pg2, node_page (numbered (with_leaf r0 True) rid))"
    "half_on pg2 node (right_half node) (numbered (with_leaf r0 True) rid)" "pager_stock pg2 (tl (tl ys)) n"
    "same_pager co_room pg1 pg2" "rid \<in> set (tl ys) \<or> pgr_max_page pg1 < rid" "rid \<noteq> 1" "rid \<notin> set (tl (tl ys))"
    "rid \<le> pgr_max_page pg2" "pgr_max_page pg1 \<le> pgr_max_page pg2"
    "\<forall>j. j \<noteq> rid \<longrightarrow> j \<noteq> 1 \<longrightarrow> disk_of cf_data pg2 j = disk_of cf_data pg1 j"
    using write_half [OF L(4) leaf sn(5) blank1 B(2) sn(3,6) sn(8) [folded same1] parts(2)] by blast
  have tls: "set (tl ys) \<subseteq> set ys" "set (tl (tl ys)) \<subseteq> set (tl ys)"
    by (cases ys; simp; cases "tl ys"; auto) (cases "tl ys"; auto)
  have rootmax: "?root \<le> pgr_max_page pg" using on_disk_allocated [OF on] by simp
  have ne: "lid \<noteq> ?root" "rid \<noteq> ?root" "lid \<noteq> rid"
    using L(6,8,9,10) R(6) root(1) tls rootmax by auto
  let ?l = "numbered (with_leaf l0 True) lid" and ?r = "numbered (with_leaf r0 True) rid"
  have num: "node_page_number ?l = lid" "node_page_number ?r = rid" "page_id (node_page ?l) = lid" "page_id (node_page ?r) = rid"
    by (simp_all add: numbered_def)
  have on2: "node_on pg2 node"
    using node_on_other [OF node_on_other [OF on L(5)] R(5)] L(11) R(11) ne root(2) by simp
  have rootn: "?root \<notin> set (tl (tl ys))" using root(1) tls by auto
  have same2: "same_pager co_room pg pg2" using same_pager_trans [OF L(5) R(5)] .
  have ps: "pgr_page_size pg = pgr_page_size pg2" using same2 by (simp add: same_pager_def)
  have room: "20 \<le> n_free pv"
  proof -
    have "entry_room (hd (node_abs node)) \<le> unat (btree_node_max_cell_size node)"
      using cells keys by (metis hd_in_set length_node_abs length_greater_0_conv)
    moreover have "16 \<le> entry_room (hd (node_abs node))" by (simp add: entry_room_def)
    ultimately have "16 \<le> unat (btree_node_max_cell_size node)" by simp
    moreover have "unat (btree_node_max_cell_size node) \<le> (dps pg - 32) div 4"
      using max_cell_bound [OF shape root(2)] node_on_length [OF ready on] by (simp add: node_end_def)
    ultimately show ?thesis using nv(5) by linarith
  qed
  obtain pg3 p nd0 nd where P: "node_is_leaf_set pv False = Some (with_leaf pv False)"
    "node_right_child_set (with_leaf pv False) rid = Some (rid, with_right (with_leaf pv False) rid)"
    "btree_node_insert_inline (with_right (with_leaf pv False) rid) \<lparr>ii_mode = KLIM_END, ii_index = 0\<rparr> (split_key node)
      \<lparr>ci_inline_size = 4, ci_payload = ser_write_32bit_le lid\<rparr> = Some (BTREE_OK, p)"
    "btree_node_copy node p = Some (BTREE_OK, nd0)"
    "pager_write_page pg2 (node_page nd0) = Some (PAGER_OK, pg3, node_page nd)"
    "nd0\<lparr>node_page := node_page nd\<rparr> = nd" "inner_node nd" "node_on pg3 nd" "child_ids nd = [lid, rid]"
    "node_key_list nd = [split_key node]" "node_page_number nd = ?root" "pager_stock pg3 (tl (tl ys)) n"
    "same_pager co_room pg2 pg3" "\<forall>j. j \<noteq> ?root \<longrightarrow> disk_of cf_data pg3 j = disk_of cf_data pg2 j" "n_free nd = n_free pv - 20"
    using write_parent [OF R(4) on2 shape rootn root(2) nv(4) room ps, of rid "split_key node" lid] by blast
  have run: "bta_split_node_as_parent node pg sp = Some (BTREE_OK, pg3, nd,
      \<lparr>sap_left_child_page_id = lid, sap_left_child_high_key = split_key node, sap_right_child_page_id = rid\<rparr>)"
    using nv(1,3) sn(1) kind L(1,2) R(1,2) P(1-6) num
    by (simp add: bta_split_node_as_parent_def split_as_parent_steps_def Let_def)
  have "half_on pg2 node (left_half node) ?l"
    using half_on_other [OF L(3) R(5)] R(11) ne(3) L(7) num(1) by simp
  then have hl: "half_on pg3 node (left_half node) ?l" using half_on_other [OF _ P(13)] P(14) ne(1) num(1) by simp
  have hr: "half_on pg3 node (right_half node) ?r" using half_on_other [OF R(3) P(13)] P(14) ne(2) num(2) by simp
  have "{lid, rid} \<subseteq> set ys \<union> {j. pgr_max_page pg < j}" using L(6,10) R(6) tls by auto
  moreover have "\<forall>j. j \<notin> {1, ?root, lid, rid} \<longrightarrow> disk_of cf_data pg3 j = disk_of cf_data pg j"
    using L(11) R(11) P(14) by simp
  moreover have "drop 2 ys = tl (tl ys)" by (simp add: numeral_2_eq_2 drop_Suc)
  moreover have "{?root, lid, rid} \<inter> set (tl (tl ys)) = {}" using rootn L(8) R(8) tls by auto
  ultimately show ?thesis
    using run P(7-12) hl hr ne root(2) L(7) R(7) P(15) nv(5) same_pager_trans [OF same2 P(13)] num
    by (intro exI [of _ pg3] exI [of _ nd] exI [of _ ?l] exI [of _ ?r]) simp
qed

end
