(* ===== verification/RootInsert.thy ===== *)
theory RootInsert
  imports RootSplit
begin

text \<open>
  Inserting into a table tree whose root leaf is full: the root is split, and the new cell goes to one of
  the halves.
\<close>

section \<open>Writing to a half\<close>

lemma word_sle_small:
  assumes "x < 2147483648" and "y < (2147483648 :: u32)"
  shows "x <=s y \<longleftrightarrow> x \<le> y"
proof -
  have s: "sint z = uint z" if "z < (2147483648 :: u32)" for z
  proof -
    have "- (2 ^ 31) \<le> uint z" "uint z < 2 ^ 31" using that by (simp_all add: word_less_def order.trans [OF _ uint_ge_0])
    then show ?thesis using signed_take_bit_int_eq_self [of 31 "uint z"] by (simp add: sint_uint)
  qed
  show ?thesis by (simp add: word_sle_eq s [OF assms(1)] s [OF assms(2)] word_le_def)
qed

lemma node_write_full:
  assumes leaf: "leaf_node node" and size: "length payload + 16 \<le> unat (btree_node_max_cell_size node)"
    and full: "n_free node < length payload + 16"
  shows "btree_node_write node pg key payload (of_nat (length payload)) = Some (BTREE_ERR_NODE_NOT_ENOUGH_SPACE, pg, node)"
proof -
  note F = leaf_facts [OF leaf] and P = write_place [OF leaf_sorted [OF leaf]]
  obtain found where s: "btu_binary_search_keys (map (pkey node) [0..<n_keys node])
      (ucast (of_nat (n_keys node) :: u32)) key = Some (of_nat (key_place (node_key_list node) key), found)"
    using P(2) by blast
  have "unat (btree_node_max_cell_size node) \<le> 1073741823"
    using u32_bound [of "btu_get_node_heap_size node"] by (simp add: btree_node_max_cell_size_def unat_div)
  then have small: "length payload + 16 < 2147483648" using size by simp
  then have u: "unat (of_nat (length payload) :: u32) = length payload" by (simp add: unat_u32_of_nat)
  have "unat (btree_node_heap_required_for_insertion (btree_cell_inline_disk_size (of_nat (length payload)))) =
      length payload + 16"
    using small by (simp add: btree_node_heap_required_for_insertion_def btree_cell_inline_disk_size_def
        layout_defs unat_add_ok unat_u32_of_nat)
  then have le: "btree_node_heap_required_for_insertion (btree_cell_inline_disk_size (of_nat (length payload))) \<le>
      btree_node_max_cell_size node"
    using size by (simp add: word_le_nat_alt)
  have "btree_node_insert_inline node (place_index node key) key
      \<lparr>ci_inline_size = of_nat (length payload), ci_payload = payload\<rparr> = Some (BTREE_ERR_NODE_NOT_ENOUGH_SPACE, node)"
    using insert_inline_ex_full [OF F(1)] full small u by (simp add: btree_node_insert_inline_def)
  then have "btree_node_write_ex node pg (place_index node key) key 0 payload (of_nat (length payload))
      WRITER_EX_MODE_RAW = Some (BTREE_ERR_NODE_NOT_ENOUGH_SPACE, pg, node)"
    using le header_gets(2) [OF F(2)] by (simp add: btree_node_write_ex_def Let_def)
  then show ?thesis using F(3) P(1,3) s by (simp add: btree_node_write_def)
qed

text \<open>The entries of a half leave room for a payload.\<close>

definition half_room :: "cfile pager \<Rightarrow> entry list \<Rightarrow> bytes \<Rightarrow> bool" where
  "half_room pg es payload \<longleftrightarrow> (\<Sum>e \<leftarrow> es. entry_room e) + length payload + 16 \<le> dps pg - 32"

text \<open>The half may be a copy in memory that differs from its page in the bytes of the page's own data.\<close>

lemma write_half_copy:
  assumes ready: "pager_ready pg" and leaf: "leaf_node nd" and free: "n_free nd = dps pg - 32 - (\<Sum>e \<leftarrow> es. entry_room e)"
    and len: "length (node_mem nd) = dps pg" and sz: "page_size (node_page nd) = pgr_page_size pg"
    and w: "can_write co_room pg (node_page_number nd)"
    and size: "length payload + 16 \<le> unat (btree_node_max_cell_size nd)"
    and new: "key \<notin> set (node_key_list nd)" and n: "n_keys nd < 255"
  shows "if half_room pg es payload
    then \<exists>pg' nd'. btree_node_write nd pg key payload (of_nat (length payload)) = Some (BTREE_OK, pg', nd') \<and>
      leaf_node nd' \<and> node_on pg' nd' \<and> node_page_number nd' = node_page_number nd \<and> pager_ready pg' \<and>
      same_pager co_room pg pg' \<and> pgr_max_page pg' = max (pgr_max_page pg) (node_page_number nd) \<and>
      node_lookup nd' = (node_lookup nd)(key \<mapsto> payload) \<and>
      (\<forall>j. j \<noteq> node_page_number nd \<longrightarrow> disk_of cf_data pg' j = disk_of cf_data pg j)
    else btree_node_write nd pg key payload (of_nat (length payload)) = Some (BTREE_ERR_NODE_NOT_ENOUGH_SPACE, pg, nd)"
proof -
  have room: "half_room pg es payload \<longleftrightarrow> length payload + 16 \<le> n_free nd"
    unfolding free half_room_def by linarith
  show ?thesis
  proof (cases "half_room pg es payload")
    case False
    then have "n_free nd < length payload + 16" using room by simp
    from node_write_full [OF leaf size this, of pg key] False show ?thesis by simp
  next
    case True
    then have r: "leaf_room nd payload" using room size n by (simp add: leaf_room_def)
    let ?nd = "leaf_inserted nd key payload"
    note L = leaf_inserted_facts [OF leaf r new]
    note S = stored_facts [OF L(1)]
    obtain pg' where "btree_node_write nd pg key payload (of_nat (length payload)) = Some (BTREE_OK, pg', stored ?nd)"
      "pager_ready pg'" "node_on pg' (stored ?nd)"
      "disk_of cf_data pg' = (disk_of cf_data pg)(node_page_number nd \<mapsto> node_mem (stored ?nd))" "same_pager co_room pg pg'"
      "pgr_max_page pg' = max (pgr_max_page pg) (node_page_number nd)"
      using node_write_leaf [OF ready leaf r new w len sz] by blast
    with True L(2,8) S(1,3,8) show ?thesis
      by (simp only: if_True) (intro exI [of _ pg'] exI [of _ "stored ?nd"], simp)
  qed
qed

lemma write_to_half:
  assumes stock: "pager_stock pg ys n" and half: "half_on pg node es nd"
    and size: "length payload + 16 \<le> unat (btree_node_max_cell_size node)"
    and new: "key \<notin> set (node_key_list nd)" and n: "n_keys nd < 255"
  shows "\<exists>pg' nd' result. btree_node_write nd pg key payload (of_nat (length payload)) = Some (result, pg', nd') \<and>
    leaf_node nd' \<and> node_on pg' nd' \<and> node_page_number nd' = node_page_number nd \<and> pager_ready pg' \<and>
    same_pager co_room pg pg' \<and> pgr_max_page pg' = pgr_max_page pg \<and>
    node_lookup nd' = (if half_room pg es payload then (node_lookup nd)(key \<mapsto> payload) else node_lookup nd) \<and>
    (\<forall>j. j \<noteq> node_page_number nd \<longrightarrow> disk_of cf_data pg' j = disk_of cf_data pg j)"
proof -
  have H: "leaf_node nd" "node_on pg nd" "n_free nd = dps pg - 32 - (\<Sum>e \<leftarrow> es. entry_room e)"
    "btree_node_max_cell_size nd = btree_node_max_cell_size node"
    using half by (simp_all add: half_on_def)
  have ready: "pager_ready pg" using stock by (simp add: pager_stock_def)
  have sz: "page_size (node_page nd) = pgr_page_size pg" using H(2) by (simp add: node_on_def)
  note W = write_half_copy [OF ready H(1,3) node_on_length [OF ready H(2)] sz stock_can_write [OF stock H(2)]
      size [folded H(4)] new n]
  show ?thesis
  proof (cases "half_room pg es payload")
    case True
    have "max (pgr_max_page pg) (node_page_number nd) = pgr_max_page pg" using on_disk_allocated [OF H(2)] by (simp add: max_def antisym)
    then show ?thesis using W True by auto
  next
    case False
    then show ?thesis using W H ready by (intro exI [of _ pg] exI [of _ nd]) (simp add: same_pager_def)
  qed
qed

section \<open>The tree of the two halves\<close>

lemma lookup_dom: "dom (node_lookup node) = set (node_key_list node)"
  by (simp add: node_lookup_items dom_map_of_conv_image_fst node_key_set)

lemma halves_tree:
  assumes root: "inner_node nd" "node_on pg nd" "node_key_list nd = [s]" "child_ids nd = [node_page_number l, node_page_number r]"
    and leaves: "leaf_node l" "leaf_node r" "node_on pg l" "node_on pg r"
    and keys: "\<forall>k \<in> dom (node_lookup l). k \<le> s" "\<forall>k \<in> dom (node_lookup r). s < k" "s \<in> dom (node_lookup l)"
  defines "t \<equiv> Inner_page nd [Leaf_page l, Leaf_page r]"
  shows "tree_on pg t" "tree_ordered t" "tree_height t = 1" "map_of (tree_items t) = node_lookup r ++ node_lookup l"
proof -
  have "separates [s] [Leaf_page l, Leaf_page r]"
    using keys unfolding lookup_dom node_key_set by (auto simp: separates_def less_Suc_eq nth_Cons')
  then show "tree_ordered t" using root(3) by (simp add: t_def)
  show "tree_on pg t" using root leaves by (simp add: t_def)
  show "tree_height t = 1" by (simp add: t_def)
  show "map_of (tree_items t) = node_lookup r ++ node_lookup l" by (simp add: t_def node_lookup_items)
qed

text \<open>The half that gets the key.\<close>

definition split_half :: "btree_node \<Rightarrow> u32 \<Rightarrow> entry list" where
  "split_half node key = (if key \<le> split_key node then left_half node else right_half node)"

lemma halves_keys:
  assumes leaf: "leaf_node node" and n: "0 < n_keys node"
    and l: "node_abs l = left_half node" and r: "node_abs r = right_half node"
  shows "\<forall>k \<in> dom (node_lookup l). k \<le> split_key node" "\<forall>k \<in> dom (node_lookup r). split_key node < k"
    "split_key node \<in> dom (node_lookup l)" "node_lookup node = node_lookup r ++ node_lookup l"
    "n_keys l < 255" "n_keys r < 255"
proof -
  let ?h = "(n_keys node + 1) div 2"
  have small: "n_keys node < 256" and asc: "sorted_wrt (<) (node_key_list node)"
    using leaf by (simp_all add: leaf_node_def keys_ascending_def)
  have parts: "node_abs node = left_half node @ right_half node" by (simp add: left_half_def right_half_def)
  have len: "length (left_half node) = ?h" "length (right_half node) = n_keys node - ?h"
    by (simp_all add: left_half_def right_half_def)
  have kl: "node_key_list l = map fst (left_half node)" "node_key_list r = map fst (right_half node)"
    by (simp_all add: node_key_list_abs l r)
  have ne: "left_half node \<noteq> []" using len(1) n by force
  then have s: "split_key node = last (node_key_list l)" by (simp add: split_key_def kl last_map)
  have a: "sorted_wrt (<) (node_key_list l @ node_key_list r)"
    using asc by (simp add: node_key_list_abs parts l r)
  have b: "node_key_list l = butlast (node_key_list l) @ [split_key node]" using ne by (simp add: s kl)
  have "sorted_wrt (<) (butlast (node_key_list l) @ [split_key node])"
    using a b by (metis sorted_wrt_append)
  then have "\<forall>k \<in> set (butlast (node_key_list l) @ [split_key node]). k \<le> split_key node"
    by (auto simp: sorted_wrt_append intro: less_imp_le)
  then show "\<forall>k \<in> dom (node_lookup l). k \<le> split_key node" unfolding lookup_dom b [symmetric] .
  show m: "split_key node \<in> dom (node_lookup l)" unfolding lookup_dom by (subst b) simp
  show "\<forall>k \<in> dom (node_lookup r). split_key node < k"
    using a m by (simp add: lookup_dom sorted_wrt_append)
  show "node_lookup node = node_lookup r ++ node_lookup l"
    by (simp add: node_lookup_def l r parts)
  show "n_keys l < 255" using len(1) length_node_abs [of l] small unfolding l by linarith
  show "n_keys r < 255" using len(2) length_node_abs [of r] small n unfolding r by linarith
qed

section \<open>The insertion\<close>

lemma pager_stock_cache:
  "pager_stock pg ys n \<Longrightarrow> pager_ready (pg\<lparr>pgr_cache := c\<rparr>) \<Longrightarrow> pager_stock (pg\<lparr>pgr_cache := c\<rparr>) ys n"
proof -
  have "more_room (pg\<lparr>pgr_cache := c\<rparr>) n = more_room pg n" "capacity (pg\<lparr>pgr_cache := c\<rparr>) = capacity pg"
    "dps (pg\<lparr>pgr_cache := c\<rparr>) = dps pg"
    by (simp_all add: more_room_def capacity_def dps_def)
  then show "pager_stock pg ys n \<Longrightarrow> pager_ready (pg\<lparr>pgr_cache := c\<rparr>) \<Longrightarrow> pager_stock (pg\<lparr>pgr_cache := c\<rparr>) ys n"
    by (simp add: pager_stock_def)
qed

lemma stock_rewritten:
  assumes stock: "pager_stock pg ys n" and "same_pager co_room pg pg'" and "pager_ready pg'" and "pgr_max_page pg' = pgr_max_page pg"
    and on: "node_on pg' node" and page: "node_page_number node \<notin> set ys" "node_page_number node \<noteq> 1"
    and disk: "\<forall>j. j \<noteq> node_page_number node \<longrightarrow> disk_of cf_data pg' j = disk_of cf_data pg j"
  shows "pager_stock pg' ys n"
proof -
  have "disk_of cf_data pg' = (disk_of cf_data pg)(node_page_number node \<mapsto> node_mem node)"
    using on disk by (auto simp: node_on_def)
  then have "free_list (disk_of cf_data pg') ys" using stock page by (simp add: pager_stock_def free_list_upd)
  then show ?thesis by (rule stock_kept [OF assms(1-4)])
qed

text \<open>The half that does not get the key is as the split left it.\<close>

definition split_into :: "cfile pager \<Rightarrow> btree_node \<Rightarrow> u32 \<Rightarrow> page_tree \<Rightarrow> bool" where
  "split_into pg node key t \<longleftrightarrow> (\<exists>nd l r. t = Inner_page nd [Leaf_page l, Leaf_page r] \<and> node_key_list nd = [split_key node] \<and>
     n_free nd = dps pg - 52 \<and> dps pg = node_end node \<and> (if key \<le> split_key node then half_on pg node (right_half node) r else half_on pg node (left_half node) l))"

lemma insert_into_split_root_run:
  assumes stock: "pager_stock pg ys (n + 2)" and leaf: "leaf_node node" and on: "node_on pg node"
    and root: "node_page_number node \<notin> set ys" "node_page_number node \<noteq> 1" and nonempty: "0 < n_keys node"
    and cells: "\<forall>e \<in> set (node_abs node). entry_room e \<le> unat (btree_node_max_cell_size node)"
    and size: "length payload + 16 \<le> unat (btree_node_max_cell_size node)"
    and new: "node_lookup node key = None"
    and keys: "key < 2147483648" "split_key node < 2147483648"
  shows "\<exists>pg' t. insert_into_split_root pg node key payload (of_nat (length payload)) = Some pg' \<and>
    tree_on pg' t \<and> tree_ordered t \<and> tree_height t = 1 \<and> node_page_number (tree_root t) = node_page_number node \<and>
    distinct (tree_pages t) \<and> (\<forall>j \<in> set (tree_pages t). can_write co_room pg' j) \<and> split_into pg' node key t \<and>
    1 \<notin> set (tree_pages t) \<and> set (tree_pages t) \<inter> set (drop 2 ys) = {} \<and> pager_stock pg' (drop 2 ys) n \<and> map_of (tree_items t) =
      (if half_room pg (split_half node key) payload then (node_lookup node)(key \<mapsto> payload) else node_lookup node) \<and>
    (\<forall>j. j \<notin> {1, node_page_number node} \<union> set ys \<longrightarrow> j \<le> pgr_max_page pg \<longrightarrow> disk_of cf_data pg' j = disk_of cf_data pg j)"
proof -
  obtain pg1 nd l r where S: "bta_split_node_as_parent node pg
        \<lparr>sap_left_child_page_id = 0, sap_left_child_high_key = 0, sap_right_child_page_id = 0\<rparr> = Some (BTREE_OK, pg1, nd,
      \<lparr>sap_left_child_page_id = node_page_number l, sap_left_child_high_key = split_key node,
       sap_right_child_page_id = node_page_number r\<rparr>)"
    "inner_node nd" "node_on pg1 nd" "child_ids nd = [node_page_number l, node_page_number r]"
    "node_key_list nd = [split_key node]" "node_page_number nd = node_page_number node"
    "half_on pg1 node (left_half node) l" "half_on pg1 node (right_half node) r"
    "distinct [1, node_page_number node, node_page_number l, node_page_number r]"
    "{node_page_number l, node_page_number r} \<subseteq> set ys \<union> {j. pgr_max_page pg < j}"
    "pager_stock pg1 (drop 2 ys) n" "same_pager co_room pg pg1"
    "\<forall>j. j \<notin> {1, node_page_number node, node_page_number l, node_page_number r} \<longrightarrow>
      disk_of cf_data pg1 j = disk_of cf_data pg j"
    "n_free nd = dps pg - 52"
    "{node_page_number node, node_page_number l, node_page_number r} \<inter> set (drop 2 ys) = {}"
    using split_root_run [OF stock leaf on root nonempty cells,
        where sp = "\<lparr>sap_left_child_page_id = 0, sap_left_child_high_key = 0, sap_right_child_page_id = 0\<rparr>"]
    by (elim exE conjE) (rule that)
  have HL: "leaf_node l" "node_on pg1 l" "node_abs l = left_half node" and HR: "leaf_node r" "node_on pg1 r" "node_abs r = right_half node"
    using S(7,8) by (simp_all add: half_on_def)
  note K = halves_keys [OF leaf nonempty HL(3) HR(3)]
  have none: "node_lookup l key = None" "node_lookup r key = None"
    using new unfolding K(4) by simp_all
  have ready: "pager_ready pg1" using S(11) by (simp add: pager_stock_def)
  define sel where "sel = (if key \<le> split_key node then l else r)"
  have H: "half_on pg1 node (split_half node key) sel" "n_keys sel < 255" "node_lookup sel key = None"
    using S(7,8) K(5,6) none by (simp_all add: sel_def split_half_def)
  have sel: "leaf_node sel" "node_on pg1 sel" using H(1) by (simp_all add: half_on_def)
  obtain c where rd: "noderc_reinit_read pg1 nd (node_page_number sel) = Some (BTREE_OK, pg1\<lparr>pgr_cache := c\<rparr>, sel)"
    and ready2: "pager_ready (pg1\<lparr>pgr_cache := c\<rparr>)"
    using reinit_leaf [OF ready sel(2,1) node_on_view [OF ready S(3)]] by blast
  let ?pg2 = "pg1\<lparr>pgr_cache := c\<rparr>"
  have stock2: "pager_stock ?pg2 (drop 2 ys) n" by (rule pager_stock_cache [OF S(11) ready2])
  have half2: "half_on ?pg2 node (split_half node key) sel" using H(1) by (simp add: half_on_def dps_def)
  have room: "half_room ?pg2 = half_room pg"
    using S(12) by (simp add: fun_eq_iff half_room_def same_pager_def dps_def)
  have new2: "key \<notin> set (node_key_list sel)" using H(3) unfolding lookup_dom [symmetric] by (simp add: domIff)
  obtain pg3 nd' result where W: "btree_node_write sel ?pg2 key payload (of_nat (length payload)) = Some (result, pg3, nd')"
    "leaf_node nd'" "node_on pg3 nd'" "node_page_number nd' = node_page_number sel" "pager_ready pg3"
    "same_pager co_room ?pg2 pg3" "pgr_max_page pg3 = pgr_max_page pg1"
    "node_lookup nd' = (if half_room pg (split_half node key) payload then (node_lookup sel)(key \<mapsto> payload) else node_lookup sel)"
    "\<forall>j. j \<noteq> node_page_number sel \<longrightarrow> disk_of cf_data pg3 j = disk_of cf_data ?pg2 j"
    using write_to_half [OF stock2 half2 size new2 H(2), unfolded room] by auto
  have same3: "same_pager co_room pg1 pg3" using W(6) by (simp add: same_pager_def)
  have kept: "node_on pg3 x" if "node_on pg1 x" "node_page_number x \<noteq> node_page_number sel" for x
    using node_on_other [OF that(1) same3] W(9) that(2) by simp
  have signed: "(key <=s split_key node) = (key \<le> split_key node)" by (rule word_sle_small [OF keys])
  have run: "insert_into_split_root pg node key payload (of_nat (length payload)) = Some pg3"
    using S(1) rd W(1) by (simp add: insert_into_split_root_def signed sel_def split: if_splits)
  define l' r' where "l' = (if key \<le> split_key node then nd' else l)" and "r' = (if key \<le> split_key node then r else nd')"
  have num: "node_page_number l' = node_page_number l" "node_page_number r' = node_page_number r"
    using W(4) by (simp_all add: l'_def r'_def sel_def)
  have on3: "node_on pg3 nd" "node_on pg3 l'" "node_on pg3 r'" "leaf_node l'" "leaf_node r'"
    using kept [OF S(3)] kept [OF HL(2)] kept [OF HR(2)] W(2,3) HL(1) HR(1) S(6,9)
    by (auto simp: l'_def r'_def sel_def)
  have look: "\<forall>k \<in> dom (node_lookup l'). k \<le> split_key node" "\<forall>k \<in> dom (node_lookup r'). split_key node < k"
    "split_key node \<in> dom (node_lookup l')"
    "node_lookup r' ++ node_lookup l' =
      (if half_room pg (split_half node key) payload then (node_lookup node)(key \<mapsto> payload) else node_lookup node)"
    using W(8) K(1-3) none
    by (auto simp: l'_def r'_def sel_def K(4) domIff map_add_upd_left not_le split: if_splits)
  have "half_on pg3 node es x" if "half_on pg1 node es x" "node_page_number x \<noteq> node_page_number sel" for es x
    using half_on_other [OF that(1) same3] W(9) that(2) by simp
  moreover have dps3: "dps pg3 = node_end node"
    using node_on_length [OF _ on] stock S(12) same3 by (simp add: pager_stock_def same_pager_def dps_def node_end_def)
  moreover have same: "dps pg = dps pg3" using S(12) same3 by (simp add: same_pager_def dps_def)
  ultimately have into: "split_into pg3 node key (Inner_page nd [Leaf_page l', Leaf_page r'])"
    using S(5,7,8,9,14) dps3 by (auto simp: split_into_def l'_def r'_def sel_def)
  have writes: "can_write co_room pg3 (node_page_number x)" if "node_on pg1 x" for x
    using stock_can_write [OF S(11) that] same3 W(7) by (simp add: can_write_def same_pager_def dps_def)
  have pages: "distinct (tree_pages (Inner_page nd [Leaf_page l', Leaf_page r']))"
    "\<forall>j \<in> set (tree_pages (Inner_page nd [Leaf_page l', Leaf_page r'])). can_write co_room pg3 j"
    "1 \<notin> set (tree_pages (Inner_page nd [Leaf_page l', Leaf_page r']))"
    "set (tree_pages (Inner_page nd [Leaf_page l', Leaf_page r'])) \<inter> set (drop 2 ys) = {}"
    using S(6,9,15) num writes [OF S(3)] writes [OF HL(2)] writes [OF HR(2)] by simp_all
  have stock3: "pager_stock pg3 (drop 2 ys) n"
  proof (rule stock_rewritten [OF stock2 W(6,5) _ W(3)])
    show "pgr_max_page pg3 = pgr_max_page ?pg2" using W(7) by simp
    show "node_page_number nd' \<notin> set (drop 2 ys)" "node_page_number nd' \<noteq> 1"
      using S(9,15) W(4) by (auto simp: sel_def)
    show "\<forall>j. j \<noteq> node_page_number nd' \<longrightarrow> disk_of cf_data pg3 j = disk_of cf_data ?pg2 j" using W(4,9) by simp
  qed
  note T = halves_tree [OF S(2) on3(1) S(5) S(4) [folded num] on3(4,5,2,3) look(1-3)]
  have "disk_of cf_data pg3 j = disk_of cf_data pg j" if "j \<notin> {1, node_page_number node} \<union> set ys" "j \<le> pgr_max_page pg" for j
  proof -
    have "j \<noteq> node_page_number l" "j \<noteq> node_page_number r" using S(10) that by auto
    then show ?thesis using that(1) W(9) S(13) by (simp add: sel_def)
  qed
  then show ?thesis
    using run T look(4) S(6) stock3 into pages
    by (intro exI [of _ pg3] exI [of _ "Inner_page nd [Leaf_page l', Leaf_page r']"]) simp
qed

end
