(* ===== verification/TreeInsert.thy ===== *)
theory TreeInsert
  imports RootInsert
begin

text \<open>Inserting into a table tree that has to grow.\<close>

section \<open>The root leaf is full\<close>

text \<open>A root leaf without room for a payload that would not be too large for a node.\<close>

definition full_leaf :: "btree_node \<Rightarrow> bytes \<Rightarrow> bool" where
  "full_leaf node payload \<longleftrightarrow> n_free node < length payload + 16 \<and>
     length payload + 16 \<le> unat (btree_node_max_cell_size node) \<and>
     (\<forall>e \<in> set (node_abs node). entry_room e \<le> unat (btree_node_max_cell_size node))"

lemma full_leaf_keys:
  assumes leaf: "leaf_node node" and pid: "node_page_number node \<noteq> 1" and full: "full_leaf node payload"
  shows "0 < n_keys node"
proof (rule ccontr)
  assume "\<not> 0 < n_keys node"
  then have z: "n_keys node = 0" "n_hwm node = 0" using leaf by (simp_all add: leaf_node_def)
  note F = leaf_facts [OF leaf]
  have h: "node_header node = 12"
    using F(2) pid by (simp add: node_shape_def btu_get_node_buffer_def page_buffer_off_def)
  have "node_header node + 20 + 12 * n_keys node + n_free node + n_hwm node = node_end node"
    using F(1) by (simp add: node_inv_def)
  then have "n_free node = node_end node - 32" using z h by linarith
  moreover have "n_free node < (node_end node - 32) div 4"
    using full max_cell_bound [OF F(2) pid] unfolding full_leaf_def by linarith
  ultimately show False by simp
qed

lemma split_key_member:
  assumes "0 < n_keys node"
  shows "split_key node \<in> set (node_key_list node)"
proof -
  have "0 < min (n_keys node) ((n_keys node + 1) div 2)" using assms by simp
  then have "0 < length (left_half node)" by (simp add: left_half_def)
  then have "left_half node \<noteq> []" by blast
  then have "last (left_half node) \<in> set (node_abs node)" by (metis last_in_set left_half_def in_set_takeD)
  then show ?thesis by (simp add: split_key_def node_key_list_abs)
qed

lemma insert_splits_root_run:
  assumes tree: "leaf_tree tree pg node" and stock: "pager_stock pg ys (n + 2)"
    and root: "tr_root_page_id tree \<notin> set ys" "tr_root_page_id tree \<noteq> 1"
    and full: "full_leaf node payload" and new: "node_lookup node key = None"
    and keys: "\<forall>k \<in> insert key (set (node_key_list node)). k < 2147483648"
  shows "\<exists>pg' t. btree_insert tree pg key payload (of_nat (length payload)) = Some (BTREE_OK, pg') \<and>
    table_tree_on tree pg' t \<and> tree_height t = 1 \<and> (\<forall>j \<in> set (tree_pages t). can_write co_room pg' j) \<and>
    split_into pg' node key t \<and> 1 \<notin> set (tree_pages t) \<and> set (tree_pages t) \<inter> set (drop 2 ys) = {} \<and>
    pager_stock pg' (drop 2 ys) n \<and> map_of (tree_items t) =
      (if half_room pg (split_half node key) payload then (node_lookup node)(key \<mapsto> payload) else node_lookup node) \<and>
    (\<forall>j. j \<notin> {1, tr_root_page_id tree} \<union> set ys \<longrightarrow> j \<le> pgr_max_page pg \<longrightarrow> disk_of cf_data pg' j = disk_of cf_data pg j)"
proof -
  have T: "tr_type tree = BTREE_TBL" "tr_fns tree = btree_fns" "tr_root_page_id tree = node_page_number node"
    "pager_ready pg" "node_on pg node" "leaf_node node"
    using tree by (simp_all add: leaf_tree_def)
  note F = leaf_facts [OF T(6)]
  have root': "node_page_number node \<notin> set ys" "node_page_number node \<noteq> 1" using root T(3) by simp_all
  have nonempty: "0 < n_keys node" by (rule full_leaf_keys [OF T(6) root'(2) full])
  have cells: "\<forall>e \<in> set (node_abs node). entry_room e \<le> unat (btree_node_max_cell_size node)"
    and size: "length payload + 16 \<le> unat (btree_node_max_cell_size node)" and over: "n_free node < length payload + 16"
    using full by (simp_all add: full_leaf_def)
  have keys': "key < 2147483648" "split_key node < 2147483648" using keys split_key_member [OF nonempty] by simp_all
  obtain c where tr: "cursor_traverse_to (cursor_create tree) pg key =
      Some (BTREE_OK, key \<in> set (node_key_list node), leaf_cursor tree node key, pg\<lparr>pgr_cache := c\<rparr>)"
    and t1: "leaf_tree tree (pg\<lparr>pgr_cache := c\<rparr>) node"
    using traverse_leaf [OF tree] by blast
  obtain nv where nv: "noderc_acquire pg = Some (BTREE_OK, nv)" "view_for pg nv"
    using acquire_view [OF T(4,5) F(2)] by blast
  have r1: "pager_ready (pg\<lparr>pgr_cache := c\<rparr>)" using t1 by (simp add: leaf_tree_def)
  then obtain c' where rd: "noderc_reinit_read (pg\<lparr>pgr_cache := c\<rparr>) nv (node_page_number node) =
      Some (BTREE_OK, pg\<lparr>pgr_cache := c'\<rparr>, node)" and r2: "pager_ready (pg\<lparr>pgr_cache := c'\<rparr>)"
    using reinit_leaf [of "pg\<lparr>pgr_cache := c\<rparr>" node nv] T nv(2) by auto
  let ?pg = "pg\<lparr>pgr_cache := c'\<rparr>"
  have on: "node_on ?pg node" using T(5) by simp
  have room: "half_room ?pg = half_room pg" by (simp add: fun_eq_iff half_room_def dps_def)
  note full' = node_write_full [OF T(6) size over, of ?pg key]
  obtain pg' t where I: "insert_into_split_root ?pg node key payload (of_nat (length payload)) = Some pg'"
    "tree_on pg' t" "tree_ordered t" "tree_height t = 1" "node_page_number (tree_root t) = node_page_number node"
    "distinct (tree_pages t)" "\<forall>j \<in> set (tree_pages t). can_write co_room pg' j" "split_into pg' node key t" "1 \<notin> set (tree_pages t)" "set (tree_pages t) \<inter> set (drop 2 ys) = {}" "pager_stock pg' (drop 2 ys) n" "map_of (tree_items t) =
      (if half_room pg (split_half node key) payload then (node_lookup node)(key \<mapsto> payload) else node_lookup node)"
    "\<forall>j. j \<notin> {1, node_page_number node} \<union> set ys \<longrightarrow> j \<le> pgr_max_page ?pg \<longrightarrow> disk_of cf_data pg' j = disk_of cf_data ?pg j"
    using insert_into_split_root_run [OF pager_stock_cache [OF stock r2] T(6) on root' nonempty cells size new keys', unfolded room]
    by (elim exE conjE) (rule that)
  have pid: "page_id (node_page node) = tr_root_page_id tree" using F(2) T(3) by (simp add: node_shape_def)
  have pop: "cursor_pop (leaf_cursor tree node key) = (BTREE_OK,
      Some \<lparr>cb_key_index = leaf_index node key, cb_page_id = tr_root_page_id tree\<rparr>,
      at_crumbs (cursor_create tree) [\<lparr>cb_key_index = \<lparr>cli_mode = KLIM_INDEX, cli_index = 0\<rparr>,
        cb_page_id = tr_root_page_id tree\<rparr>])"
    by (simp add: pop_snoc leaf_cursor_def)
  have ct: "cur_tree (at_crumbs (cursor_create tree) xs) = tree" for xs
    by (simp add: at_crumbs_def cursor_create_def cursor_create_ex_def cursor_push_def MAX_CRUMBS_def)
  have "insert_round (leaf_cursor tree node key) (pg\<lparr>pgr_cache := c\<rparr>) nv key (Caller_data payload)
      (of_nat (length payload)) sr = Some (Stop pg')" for sr
    using pop rd full' I(1) T(3) pid ct by (simp add: insert_round_def insert_bytes_def)
  then have "insert_loop (leaf_cursor tree node key) (pg\<lparr>pgr_cache := c\<rparr>) nv key (Caller_data payload)
      (of_nat (length payload)) sr = Some pg'" for sr
    by (subst insert_loop.simps) simp
  then have "btree_insert tree pg key payload (of_nat (length payload)) = Some (BTREE_OK, pg')"
    using nv(1) tr by (simp add: btree_insert_def)
  moreover have "pager_ready pg'" using I(11) by (simp add: pager_stock_def)
  ultimately show ?thesis using I T(1-3)
    by (intro exI [of _ pg'] exI [of _ t]) (simp add: table_tree_on_def)
qed

text \<open>
  C2: inserting a new key into a table tree whose root leaf is full makes the root the parent of two
  leaves on new pages, which have the entries of the root.  The new key is added to its half if there is
  room; if there is none, the key is lost, and the function still returns \<open>BTREE_OK\<close>.  No other
  page in use changes.  The keys are below \<open>2 ^ 31\<close>, since the side of the new key is decided by a signed
  comparison.
\<close>

theorem btree_insert_splits_root:
  assumes "leaf_tree tree pg node" and "pager_stock pg ys 2"
    and "tr_root_page_id tree \<notin> set ys" and "tr_root_page_id tree \<noteq> 1"
    and "full_leaf node payload" and "node_lookup node key = None"
    and "\<forall>k \<in> insert key (set (node_key_list node)). k < 2147483648"
  shows "\<exists>pg' t. btree_insert tree pg key payload (of_nat (length payload)) = Some (BTREE_OK, pg') \<and>
    table_tree_on tree pg' t \<and> tree_height t = 1 \<and> (\<forall>j \<in> set (tree_pages t). can_write co_room pg' j) \<and>
    map_of (tree_items t) =
      (if half_room pg (split_half node key) payload then (node_lookup node)(key \<mapsto> payload) else node_lookup node) \<and>
    (\<forall>j. j \<notin> {1, tr_root_page_id tree} \<union> set ys \<longrightarrow> j \<le> pgr_max_page pg \<longrightarrow> disk_of cf_data pg' j = disk_of cf_data pg j)"
  using insert_splits_root_run [of tree pg node ys 0, unfolded add_0_left, OF assms] by blast

end
