(* ===== verification/TreePath.thy ===== *)
theory TreePath
  imports TreeSelect
begin

text \<open>
  The subtrees on the path that a descent takes, and what becomes of a tree when one of them is replaced.
\<close>

section \<open>Subtrees on a path\<close>

function path_length :: "page_tree \<Rightarrow> u32 \<Rightarrow> nat" where
  "path_length (Leaf_page node) key = 0"
| "path_length (Inner_page node cs) key =
     (let i = key_place (node_key_list node) key in if i < length cs then Suc (path_length (cs ! i) key) else 0)"
  by pat_completeness auto
termination
  by (relation "measure (tree_height \<circ> fst)") (simp_all del: tree_height.simps add: child_height)

primrec subtree_at :: "nat \<Rightarrow> page_tree \<Rightarrow> u32 \<Rightarrow> page_tree" where
  "subtree_at 0 t key = t"
| "subtree_at (Suc n) t key =
     (case t of Leaf_page node \<Rightarrow> t | Inner_page node cs \<Rightarrow> subtree_at n (cs ! key_place (node_key_list node) key) key)"

primrec with_subtree :: "nat \<Rightarrow> page_tree \<Rightarrow> u32 \<Rightarrow> page_tree \<Rightarrow> page_tree" where
  "with_subtree 0 t key s = s"
| "with_subtree (Suc n) t key s =
     (case t of Leaf_page node \<Rightarrow> t
      | Inner_page node cs \<Rightarrow>
          (let i = key_place (node_key_list node) key in Inner_page node (cs[i := with_subtree n (cs ! i) key s])))"

lemma place_in_children:
  assumes "tree_ordered (Inner_page node cs)"
  shows "key_place (node_key_list node) key < length cs"
  using assms key_place_le [of "node_key_list node" key] by (simp add: separates_def)

lemma path_end: "tree_ordered t \<Longrightarrow> subtree_at (path_length t key) t key = Leaf_page (tree_leaf t key)"
proof (induction t key rule: path_length.induct)
  case (2 node cs key)
  then show ?case using place_in_children [OF "2.prems", of key] by (simp add: Let_def)
qed simp

lemma path_length_le: "tree_ordered t \<Longrightarrow> path_length t key \<le> tree_height t"
proof (induction t key rule: path_length.induct)
  case (2 node cs key)
  note i = place_in_children [OF "2.prems", of key]
  have "path_length (cs ! key_place (node_key_list node) key) key \<le> tree_height (cs ! key_place (node_key_list node) key)"
    using "2.IH" [OF refl i] "2.prems" i by simp
  then show ?case using i child_height [OF nth_mem [OF i], of node] by (simp add: Let_def del: tree_height.simps)
qed simp

lemma subtree_facts:
  assumes "tree_on pg t" and "tree_ordered t" and "distinct (tree_pages t)" and "n \<le> path_length t key"
  shows "tree_on pg (subtree_at n t key) \<and> tree_ordered (subtree_at n t key) \<and>
    set (tree_pages (subtree_at n t key)) \<subseteq> set (tree_pages t) \<and> distinct (tree_pages (subtree_at n t key)) \<and>
    path_length (subtree_at n t key) key = path_length t key - n \<and> tree_keys (subtree_at n t key) \<subseteq> tree_keys t \<and>
    tree_leaf (subtree_at n t key) key = tree_leaf t key \<and>
    map_of (tree_items (subtree_at n t key)) key = map_of (tree_items t) key"
  using assms
proof (induction n arbitrary: t)
  case (Suc n)
  then obtain node cs where t: "t = Inner_page node cs" by (cases t) simp_all
  let ?i = "key_place (node_key_list node) key"
  have i: "?i < length cs" using place_in_children Suc.prems(2) t by blast
  have "distinct (concat (map tree_pages cs))" using Suc.prems(3) t by simp
  then have d: "distinct (tree_pages (cs ! ?i))"
    by (subst (asm) id_take_nth_drop [OF i]) simp
  have IH: "tree_on pg (subtree_at n (cs ! ?i) key) \<and> tree_ordered (subtree_at n (cs ! ?i) key) \<and>
    set (tree_pages (subtree_at n (cs ! ?i) key)) \<subseteq> set (tree_pages (cs ! ?i)) \<and>
    distinct (tree_pages (subtree_at n (cs ! ?i) key)) \<and>
    path_length (subtree_at n (cs ! ?i) key) key = path_length (cs ! ?i) key - n \<and>
    tree_keys (subtree_at n (cs ! ?i) key) \<subseteq> tree_keys (cs ! ?i) \<and>
    tree_leaf (subtree_at n (cs ! ?i) key) key = tree_leaf (cs ! ?i) key \<and>
    map_of (tree_items (subtree_at n (cs ! ?i) key)) key = map_of (tree_items (cs ! ?i)) key"
    using Suc.prems i d t by (intro Suc.IH) (simp_all add: Let_def)
  have sub: "set (tree_pages (cs ! ?i)) \<subseteq> set (tree_pages t)" "tree_keys (cs ! ?i) \<subseteq> tree_keys t"
    using nth_mem [OF i] by (auto simp: t)
  have "map_of (tree_items t) key = map_of (tree_items (cs ! ?i)) key"
    using lookup_child [of "node_key_list node" cs key] Suc.prems(2) t by simp
  moreover have "subtree_at (Suc n) t key = subtree_at n (cs ! ?i) key" by (simp add: t)
  moreover have "path_length t key - Suc n = path_length (cs ! ?i) key - n" "tree_leaf t key = tree_leaf (cs ! ?i) key"
    using i by (simp_all add: t Let_def)
  moreover have "set (tree_pages (subtree_at n (cs ! ?i) key)) \<subseteq> set (tree_pages t)" using IH sub(1) by blast
  moreover have "tree_keys (subtree_at n (cs ! ?i) key) \<subseteq> tree_keys t" using IH sub(2) by blast
  ultimately show ?case using IH by argo
qed simp

section \<open>Replacing a subtree\<close>

text \<open>
  A subtree that takes the place of another: it stands on the same page, its keys are old ones and the new
  key, it has the largest key of the old one, and its content differs on a set of these keys only.
\<close>

definition takes_over :: "u32 \<Rightarrow> u32 set \<Rightarrow> (u32 \<rightharpoonup> bytes) \<Rightarrow> page_tree \<Rightarrow> page_tree \<Rightarrow> bool" where
  "takes_over key D m s s' \<longleftrightarrow> node_page_number (tree_root s') = node_page_number (tree_root s) \<and>
     tree_height s' = tree_height s \<and> tree_ordered s' \<and> tree_keys s' \<subseteq> insert key (tree_keys s) \<and>
     (\<forall>k \<in> tree_keys s. (\<forall>k' \<in> tree_keys s. k' \<le> k) \<longrightarrow> k \<in> tree_keys s') \<and>
     D \<subseteq> insert key (tree_keys s) \<and> map_of (tree_items s') = override_on (map_of (tree_items s)) m D"

lemma tree_keys_dom: "tree_keys t = dom (map_of (tree_items t))"
  by (simp add: dom_map_of_conv_image_fst)

lemma key_place_mono_bounds:
  assumes "keys_ascending ks" and "m < length ks"
  shows "if key_place ks key \<le> m then key \<le> ks ! m else ks ! m < key"
  using key_place_nth(1) [OF assms(1), of m key] key_place_nth(2) [OF assms(1), of key m] assms(2) by simp

lemma takes_over_child:
  assumes on: "tree_on pg (Inner_page node cs)" and ord: "tree_ordered (Inner_page node cs)"
    and s: "takes_over key D m (cs ! key_place (node_key_list node) key) c"
  shows "takes_over key D m (Inner_page node cs) (Inner_page node (cs[key_place (node_key_list node) key := c]))"
proof -
  let ?ks = "node_key_list node" and ?i = "key_place (node_key_list node) key"
  let ?cs = "cs[?i := c]"
  have sep: "separates ?ks cs" and ords: "\<forall>c \<in> set cs. tree_ordered c" using ord by simp_all
  have asc: "keys_ascending ?ks" using on by (simp add: inner_node_def sorted_node_def)
  have len: "length cs = length ?ks + 1" using sep by (simp add: separates_def)
  have i: "?i < length cs" using place_in_children [OF ord] .
  have C: "tree_ordered c" "tree_height c = tree_height (cs ! ?i)" "tree_keys c \<subseteq> insert key (tree_keys (cs ! ?i))"
    "\<forall>k \<in> tree_keys (cs ! ?i). (\<forall>k' \<in> tree_keys (cs ! ?i). k' \<le> k) \<longrightarrow> k \<in> tree_keys c"
    "D \<subseteq> insert key (tree_keys (cs ! ?i))" "map_of (tree_items c) = override_on (map_of (tree_items (cs ! ?i))) m D"
    using s by (simp_all add: takes_over_def)
  have nth: "?cs ! j = (if j = ?i then c else cs ! j)" if "j < length cs" for j using that by simp
  have keysof: "k = key \<or> k \<in> tree_keys (cs ! j)" if "j < length cs" "k \<in> tree_keys (?cs ! j)" for j k
    using that C(3) by (cases "j = ?i") auto
  have B: "if j \<le> q then k \<le> ?ks ! q else ?ks ! q < k" if "j < length cs" "k \<in> tree_keys (cs ! j)" "q < length ?ks" for j k q
    using sep that unfolding separates_def by blast
  have sep': "separates ?ks ?cs"
    unfolding separates_def
  proof (intro conjI allI ballI impI)
    show "length ?cs = length ?ks + 1" using len by simp
    show "if j \<le> q then k \<le> ?ks ! q else ?ks ! q < k" if "j < length ?cs" "k \<in> tree_keys (?cs ! j)" "q < length ?ks" for j k q
    proof (cases "k \<in> tree_keys (cs ! j)")
      case True
      then show ?thesis using B [of j k q] that(1,3) by auto
    next
      case False
      then have "j = ?i" "k = key" using that(1,2) keysof [of j k] nth [of j] by (auto split: if_splits)
      then show ?thesis using key_place_mono_bounds [OF asc that(3), of key] by simp
    qed
    show "?ks ! q \<in> tree_keys (?cs ! q)" if q: "q < length ?ks" for q
    proof -
      have mem: "?ks ! q \<in> tree_keys (cs ! q)" using sep q unfolding separates_def by blast
      have less: "q < length cs" using q len by simp
      have big: "\<forall>k' \<in> tree_keys (cs ! q). k' \<le> ?ks ! q" using B [of q _ q] q len by simp
      show ?thesis
      proof (cases "q = ?i")
        case True
        then show ?thesis using bspec [OF C(4), of "?ks ! q"] mem big nth [OF less] by auto
      qed (use mem less in simp)
    qed
  qed
  have set_cs: "set ?cs \<subseteq> insert c (set cs)" by (rule set_update_subset_insert)
  have items: "tree_keys (Inner_page node xs) = (\<Union>x \<in> set xs. tree_keys x)" for xs by auto
  have route: "key_place ?ks k = ?i" if "k \<in> D" for k
  proof (cases "k = key")
    case False
    then have k: "k \<in> tree_keys (cs ! ?i)" using that C(5) by blast
    show ?thesis by (rule key_only_in [OF sep i k])
  qed (simp only:)
  have "map_of (concat (map tree_items ?cs)) k = override_on (map_of (concat (map tree_items cs))) m D k" for k
  proof (cases "key_place ?ks k = ?i")
    case True
    then show ?thesis unfolding override_on_def lookup_child [OF sep'] lookup_child [OF sep]
      using i C(6) by (simp add: override_on_def)
  next
    case False
    then have "k \<notin> D" "?cs ! key_place ?ks k = cs ! key_place ?ks k" using route by auto
    then show ?thesis unfolding override_on_def lookup_child [OF sep'] lookup_child [OF sep] by simp
  qed
  then have content: "map_of (tree_items (Inner_page node ?cs)) = override_on (map_of (tree_items (Inner_page node cs))) m D" by auto
  have sub: "tree_keys (cs ! ?i) \<subseteq> tree_keys (Inner_page node cs)" using nth_mem [OF i] by auto
  have "map tree_height ?cs = map tree_height cs" using i C(2) by (simp add: map_update list_update_same_conv)
  then have "tree_height (Inner_page node ?cs) = tree_height (Inner_page node cs)" by (simp only: tree_height.simps)
  moreover have "tree_ordered (Inner_page node ?cs)" using sep' ords C(1) set_cs by auto
  moreover have "tree_keys (Inner_page node ?cs) \<subseteq> insert key (tree_keys (Inner_page node cs))"
  proof
    fix k assume "k \<in> tree_keys (Inner_page node ?cs)"
    then obtain x where x: "x \<in> set ?cs" "k \<in> tree_keys x" unfolding items by blast
    show "k \<in> insert key (tree_keys (Inner_page node cs))"
    proof (cases "x = c")
      case True
      then show ?thesis using x(2) C(3) sub by blast
    next
      case False
      then have "x \<in> set cs" using x(1) set_cs by blast
      then show ?thesis using x(2) unfolding items by blast
    qed
  qed
  moreover have "k \<in> tree_keys (Inner_page node ?cs)"
    if k: "k \<in> tree_keys (Inner_page node cs)" "\<forall>k' \<in> tree_keys (Inner_page node cs). k' \<le> k" for k
  proof -
    obtain x where "x \<in> set cs" "k \<in> tree_keys x" using k(1) unfolding items by blast
    then obtain j where j: "j < length cs" "k \<in> tree_keys (cs ! j)" by (metis in_set_conv_nth)
    have "k \<in> tree_keys (?cs ! j)"
    proof (cases "j = ?i")
      case True
      have "\<forall>k' \<in> tree_keys (cs ! ?i). k' \<le> k" using k(2) sub by blast
      then have "k \<in> tree_keys c" using C(4) j(2) True by blast
      then show ?thesis using nth [OF j(1)] True by simp
    qed (use j in simp)
    moreover have "?cs ! j \<in> set ?cs" using j(1) by (intro nth_mem) simp
    ultimately show ?thesis unfolding items by blast
  qed
  moreover have "D \<subseteq> insert key (tree_keys (Inner_page node cs))" using C(5) insert_mono [OF sub] by (rule subset_trans)
  ultimately show ?thesis using content by (simp add: takes_over_def del: tree_items.simps tree_height.simps)
qed

lemma takes_over_subtree:
  assumes "tree_on pg t" and "tree_ordered t" and "n \<le> path_length t key" and "takes_over key D m (subtree_at n t key) s"
  shows "takes_over key D m t (with_subtree n t key s)"
  using assms
proof (induction n arbitrary: t)
  case (Suc n)
  then obtain node cs where t: "t = Inner_page node cs" by (cases t) simp_all
  let ?i = "key_place (node_key_list node) key"
  have i: "?i < length cs" using place_in_children Suc.prems(2) t by blast
  have "takes_over key D m (cs ! ?i) (with_subtree n (cs ! ?i) key s)"
    using Suc.prems i t by (intro Suc.IH) (simp_all add: Let_def)
  from takes_over_child [OF Suc.prems(1,2) [unfolded t] this] show ?case by (simp add: t Let_def)
qed simp

section \<open>On the disk\<close>

lemma tree_on_other:
  assumes "tree_on pg t" and "same_pager co_room pg pg'"
    and "\<forall>j \<in> set (tree_pages t). disk_of cf_data pg' j = disk_of cf_data pg j"
  shows "tree_on pg' t"
  using assms(1,3)
proof (induction t)
  case (Leaf_page node)
  then show ?case using node_on_other [OF _ assms(2)] by simp
next
  case (Inner_page node cs)
  then show ?case using node_on_other [OF _ assms(2), of node] by auto
qed

lemma leaf_page_in_tree:
  assumes "tree_on pg t" and "tree_ordered t"
  shows "node_page_number (tree_leaf t key) \<in> set (tree_pages t)"
  using assms
proof (induction t key rule: tree_leaf.induct)
  case (2 node cs key)
  let ?i = "key_place (node_key_list node) key"
  have "separates (node_key_list node) cs" using "2.prems"(2) by simp
  then have i: "?i < length cs" using key_place_le [of "node_key_list node" key] by (simp add: separates_def)
  then have "node_page_number (tree_leaf (cs ! ?i) key) \<in> set (tree_pages (cs ! ?i))"
    using "2.IH" [OF refl i] "2.prems" by simp
  then show ?case using i nth_mem [OF i] by (auto simp: Let_def)
qed simp

lemma replaced_part:
  assumes "distinct (xs @ ys @ zs)" and "u \<subseteq> set ys" and "distinct ys'" and "set ys' = (set ys - u) \<union> v"
    and "v \<inter> (set (xs @ ys @ zs) - u) = {}"
  shows "distinct (xs @ ys' @ zs)" "set (xs @ ys' @ zs) = (set (xs @ ys @ zs) - u) \<union> v"
  using assms by auto

lemma child_pages:
  assumes "i < length cs"
  shows "tree_pages (Inner_page node cs) =
      (node_page_number node # concat (map tree_pages (take i cs))) @ tree_pages (cs ! i) @ concat (map tree_pages (drop (Suc i) cs))"
    "tree_pages (Inner_page node (cs[i := c])) =
      (node_page_number node # concat (map tree_pages (take i cs))) @ tree_pages c @ concat (map tree_pages (drop (Suc i) cs))"
proof -
  show "tree_pages (Inner_page node cs) =
      (node_page_number node # concat (map tree_pages (take i cs))) @ tree_pages (cs ! i) @ concat (map tree_pages (drop (Suc i) cs))"
    using arg_cong [OF id_take_nth_drop [OF assms], of "\<lambda>xs. concat (map tree_pages xs)"] by simp
  show "tree_pages (Inner_page node (cs[i := c])) =
      (node_page_number node # concat (map tree_pages (take i cs))) @ tree_pages c @ concat (map tree_pages (drop (Suc i) cs))"
    by (simp only: tree_pages.simps upd_conv_take_nth_drop [OF assms] map_append list.map concat_append concat.simps append_Cons append_assoc)
qed

lemma subtree_pages:
  assumes "tree_ordered t" and "n \<le> path_length t key"
  shows "set (tree_pages (subtree_at n t key)) \<subseteq> set (tree_pages t)"
  using assms
proof (induction n arbitrary: t)
  case (Suc n)
  then obtain node cs where t: "t = Inner_page node cs" by (cases t) simp_all
  let ?i = "key_place (node_key_list node) key"
  have i: "?i < length cs" using place_in_children Suc.prems(1) t by blast
  have "set (tree_pages (subtree_at n (cs ! ?i) key)) \<subseteq> set (tree_pages (cs ! ?i))"
    using Suc.prems i t by (intro Suc.IH) (simp_all add: Let_def)
  then show ?case using nth_mem [OF i] by (auto simp: t)
qed simp

text \<open>The pages outside the subtree stay; the new subtree must not use them.\<close>

definition rest_pages :: "nat \<Rightarrow> page_tree \<Rightarrow> u32 \<Rightarrow> u32 set" where
  "rest_pages n t key = set (tree_pages t) - set (tree_pages (subtree_at n t key))"

lemma with_subtree_pages:
  assumes "tree_ordered t" and "distinct (tree_pages t)" and "n \<le> path_length t key"
    and "distinct (tree_pages s)" and "set (tree_pages s) \<inter> rest_pages n t key = {}"
  shows "distinct (tree_pages (with_subtree n t key s)) \<and>
    set (tree_pages (with_subtree n t key s)) = rest_pages n t key \<union> set (tree_pages s)"
  using assms
proof (induction n arbitrary: t)
  case 0
  then show ?case by (simp add: rest_pages_def)
next
  case (Suc n)
  then obtain node cs where t: "t = Inner_page node cs" by (cases t) simp_all
  let ?i = "key_place (node_key_list node) key"
  let ?c = "with_subtree n (cs ! ?i) key s" and ?u = "set (tree_pages (subtree_at n (cs ! ?i) key))"
  have i: "?i < length cs" using place_in_children Suc.prems(1) t by blast
  note P = child_pages [OF i, of node]
  have child: "tree_ordered (cs ! ?i)" "n \<le> path_length (cs ! ?i) key"
    using Suc.prems(1,3) i t by (simp_all add: Let_def)
  have u: "?u \<subseteq> set (tree_pages (cs ! ?i))" by (rule subtree_pages [OF child])
  have sub: "subtree_at (Suc n) t key = subtree_at n (cs ! ?i) key" by (simp add: t)
  have d: "distinct (tree_pages (cs ! ?i))" using Suc.prems(2) unfolding t P(1) by simp
  have v: "set (tree_pages s) \<inter> (set (tree_pages t) - ?u) = {}" using Suc.prems(5) unfolding rest_pages_def sub .
  then have "set (tree_pages s) \<inter> rest_pages n (cs ! ?i) key = {}"
    using nth_mem [OF i] unfolding rest_pages_def t by auto
  from Suc.IH [OF child(1) d child(2) Suc.prems(4) this]
  have IH: "distinct (tree_pages ?c)" "set (tree_pages ?c) = (set (tree_pages (cs ! ?i)) - ?u) \<union> set (tree_pages s)"
    by (simp_all add: rest_pages_def)
  have w: "with_subtree (Suc n) t key s = Inner_page node (cs[?i := ?c])" by (simp add: t Let_def)
  from replaced_part [OF Suc.prems(2) [unfolded t P(1)] u IH v [unfolded t P(1)]] show ?case
    unfolding w P(2) rest_pages_def sub unfolding t P(1) by blast
qed

lemma with_subtree_same_pages:
  assumes "tree_ordered t" and "n \<le> path_length t key" and "tree_pages s = tree_pages (subtree_at n t key)"
  shows "tree_pages (with_subtree n t key s) = tree_pages t"
  using assms
proof (induction n arbitrary: t)
  case (Suc n)
  then obtain node cs where t: "t = Inner_page node cs" by (cases t) simp_all
  let ?i = "key_place (node_key_list node) key"
  have i: "?i < length cs" using place_in_children Suc.prems(1) t by blast
  have "tree_pages (with_subtree n (cs ! ?i) key s) = tree_pages (cs ! ?i)"
    using Suc.prems i t by (intro Suc.IH) (simp_all add: Let_def)
  then have "map tree_pages (cs[?i := with_subtree n (cs ! ?i) key s]) = map tree_pages cs"
    using i by (simp add: map_update list_update_same_conv)
  then show ?case by (simp add: t Let_def del: map_update)
qed simp

lemma with_subtree_on:
  assumes "tree_on pg t" and "tree_ordered t" and "distinct (tree_pages t)" and "n \<le> path_length t key"
    and same: "same_pager co_room pg pg'" and s: "tree_on pg' s"
    and "node_page_number (tree_root s) = node_page_number (tree_root (subtree_at n t key))"
    and "\<forall>j \<in> rest_pages n t key. disk_of cf_data pg' j = disk_of cf_data pg j"
  shows "tree_on pg' (with_subtree n t key s) \<and>
    node_page_number (tree_root (with_subtree n t key s)) = node_page_number (tree_root t)"
  using assms(1-4,7,8)
proof (induction n arbitrary: t)
  case 0
  then show ?case using s by simp
next
  case (Suc n)
  then obtain node cs where t: "t = Inner_page node cs" by (cases t) simp_all
  let ?i = "key_place (node_key_list node) key"
  let ?c = "with_subtree n (cs ! ?i) key s" and ?u = "set (tree_pages (subtree_at n (cs ! ?i) key))"
  have i: "?i < length cs" using place_in_children Suc.prems(2) t by blast
  note P = child_pages [OF i, of node]
  have child: "tree_on pg (cs ! ?i)" "tree_ordered (cs ! ?i)" "n \<le> path_length (cs ! ?i) key"
    using Suc.prems(1,2,4) i t by (simp_all add: Let_def)
  have u: "?u \<subseteq> set (tree_pages (cs ! ?i))" by (rule subtree_pages [OF child(2,3)])
  have sub: "subtree_at (Suc n) t key = subtree_at n (cs ! ?i) key" by (simp add: t)
  have d: "distinct ((node_page_number node # concat (map tree_pages (take ?i cs))) @ tree_pages (cs ! ?i) @
      concat (map tree_pages (drop (Suc ?i) cs)))"
    using Suc.prems(3) unfolding t P(1) .
  have disk: "disk_of cf_data pg' j = disk_of cf_data pg j" if "j \<in> set (tree_pages t)" "j \<notin> ?u" for j
    using Suc.prems(6) that unfolding rest_pages_def sub by blast
  have "\<forall>j \<in> rest_pages n (cs ! ?i) key. disk_of cf_data pg' j = disk_of cf_data pg j"
    using disk nth_mem [OF i] unfolding rest_pages_def t by auto
  from Suc.IH [OF child(1,2) _ child(3) _ this] d Suc.prems(5)
  have IH: "tree_on pg' ?c" "node_page_number (tree_root ?c) = node_page_number (tree_root (cs ! ?i))"
    unfolding sub by simp_all
  have other: "tree_on pg' x" if x: "x \<in> set (take ?i cs) \<union> set (drop (Suc ?i) cs)" for x
  proof (rule tree_on_other [OF _ same])
    have mem: "x \<in> set cs" using x by (meson UnE in_set_takeD in_set_dropD)
    then show "tree_on pg x" using Suc.prems(1) t by simp
    have "set (tree_pages x) \<inter> set (tree_pages (cs ! ?i)) = {}" using d x by auto
    then show "\<forall>j \<in> set (tree_pages x). disk_of cf_data pg' j = disk_of cf_data pg j"
      using disk u mem unfolding t by auto
  qed
  have "disk_of cf_data pg' (node_page_number node) = disk_of cf_data pg (node_page_number node)"
    using disk u d unfolding t by auto
  then have "node_on pg' node" using node_on_other [OF _ same] Suc.prems(1) t by simp
  moreover have "\<forall>x \<in> set (cs[?i := ?c]). tree_on pg' x"
    unfolding upd_conv_take_nth_drop [OF i] using IH(1) other by simp
  moreover have "map (node_page_number \<circ> tree_root) (cs[?i := ?c]) = map (node_page_number \<circ> tree_root) cs"
    using IH(2) i by (simp add: map_update list_update_same_conv)
  then have "map (node_page_number \<circ> tree_root) (cs[?i := ?c]) = child_ids node" "inner_node node"
    using Suc.prems(1) t by simp_all
  ultimately have "tree_on pg' (Inner_page node (cs[?i := ?c]))" by (simp only: tree_on.simps)
  then show ?case by (simp add: t Let_def)
qed

lemma with_subtree_table:
  assumes tree: "table_tree_on tree pg t" and n: "n \<le> path_length t key" and s: "takes_over key D m (subtree_at n t key) s"
    and on: "tree_on pg' s" and d: "distinct (tree_pages s)" "set (tree_pages s) \<inter> rest_pages n t key = {}"
    and same: "same_pager co_room pg pg'" and ready: "pager_ready pg'"
    and disk: "\<forall>j \<in> rest_pages n t key. disk_of cf_data pg' j = disk_of cf_data pg j"
  shows "table_tree_on tree pg' (with_subtree n t key s)" "tree_height (with_subtree n t key s) = tree_height t"
    "map_of (tree_items (with_subtree n t key s)) = override_on (map_of (tree_items t)) m D"
proof -
  have T: "tree_on pg t" "tree_ordered t" "distinct (tree_pages t)" using tree by (simp_all add: table_tree_on_def)
  have root: "node_page_number (tree_root s) = node_page_number (tree_root (subtree_at n t key))"
    using s by (simp add: takes_over_def)
  have "takes_over key D m t (with_subtree n t key s)" by (rule takes_over_subtree [OF T(1,2) n s])
  then have O: "tree_ordered (with_subtree n t key s)" "tree_height (with_subtree n t key s) = tree_height t"
    "map_of (tree_items (with_subtree n t key s)) = override_on (map_of (tree_items t)) m D"
    by (simp_all add: takes_over_def)
  show "tree_height (with_subtree n t key s) = tree_height t"
    "map_of (tree_items (with_subtree n t key s)) = override_on (map_of (tree_items t)) m D" by (rule O)+
  show "table_tree_on tree pg' (with_subtree n t key s)"
    using with_subtree_on [OF T n same on root disk] with_subtree_pages [OF T(2,3) n d] O(1,2) tree ready
    by (simp add: table_tree_on_def)
qed

section \<open>The breadcrumbs\<close>

text \<open>Above the crumb of the leaf is that of its parent.\<close>

lemma path_crumbs:
  assumes "tree_on pg t" and "tree_ordered t" and "cur_page_id c = node_page_number (tree_root t)" and "path_length t key = Suc n"
  shows "\<exists>crumbs ix. cur_breadcrumbs (path_cursor c t key) = crumbs @
    [\<lparr>cb_key_index = ix, cb_page_id = node_page_number (tree_root (subtree_at n t key))\<rparr>,
     \<lparr>cb_key_index = leaf_index (tree_leaf t key) key, cb_page_id = node_page_number (tree_leaf t key)\<rparr>] \<and>
    length crumbs \<le> length (cur_breadcrumbs c) + tree_height t"
  using assms
proof (induction c t key arbitrary: n rule: path_cursor.induct)
  case (2 c node cs key)
  let ?i = "key_place (node_key_list node) key" and ?c = "at_child c node key"
  have i: "?i < length cs" using place_in_children "2.prems"(2) by blast
  have child: "tree_on pg (cs ! ?i)" "tree_ordered (cs ! ?i)" "path_length (cs ! ?i) key = n"
    using "2.prems" i by (simp_all add: Let_def)
  have "map (node_page_number \<circ> tree_root) cs = child_ids node" using "2.prems"(1) by simp
  from arg_cong [OF this, of "\<lambda>xs. xs ! ?i"] have at: "cur_page_id ?c = node_page_number (tree_root (cs ! ?i))"
    using i by (simp add: at_child_def)
  have crumbs: "cur_breadcrumbs ?c = cur_breadcrumbs c @ [\<lparr>cb_key_index = node_index False node key, cb_page_id = cur_page_id c\<rparr>]"
    by (simp add: at_child_def pushed_def)
  show ?case
  proof (cases n)
    case 0
    then obtain leaf where leaf: "cs ! ?i = Leaf_page leaf"
      using path_end [OF child(2), of key] child(3) by auto
    have "cur_breadcrumbs (path_cursor c (Inner_page node cs) key) = cur_breadcrumbs ?c @
        [\<lparr>cb_key_index = leaf_index leaf key, cb_page_id = node_page_number leaf\<rparr>]"
      using i leaf at by (simp add: Let_def pushed_def node_index_def leaf_index_def)
    then show ?thesis
      using i leaf crumbs "2.prems"(3) 0 by (simp add: Let_def)
  next
    case (Suc m)
    with "2.IH" [OF refl i child(1,2) at, of m] child(3) i crumbs
      child_height [OF nth_mem [OF i], of node]
    show ?thesis by (fastforce simp: Let_def)
  qed
qed simp

end
