(* ===== verification/LeafSplit.thy ===== *)
theory LeafSplit
  imports TreeInsert TreePath
begin

text \<open>
  Inserting into a table tree whose leaf for the key is full and is not the root: the leaf is split, its
  right half stays on its page, and the left half gets a new page, which the parent has to name.
\<close>

section \<open>Splitting the leaf\<close>

lemma rewrite_half:
  assumes stock: "pager_stock pg ys n" and leaf: "leaf_node node" and on: "node_on pg node"
    and page: "node_page_number node \<notin> set ys" "node_page_number node \<noteq> 1"
    and nv: "same_layout nd nv" "blank_view pg (node_page_number node) nv" "btree_node_max_cell_size nv = btree_node_max_cell_size node"
    and nd: "node_wf nd" "node_abs nd = es" "n_free nd = dps pg - 32 - (\<Sum>e \<leftarrow> es. entry_room e)"
    and part: "node_abs node = pre @ es @ post"
  shows "\<exists>pg'. node_is_leaf_set nd True = Some (with_leaf nd True) \<and>
    pager_write_page pg (node_page (with_leaf nd True)) = Some (PAGER_OK, pg', node_page (stored (with_leaf nd True))) \<and>
    half_on pg' node es (stored (with_leaf nd True)) \<and> node_page_number (stored (with_leaf nd True)) = node_page_number node \<and>
    page_size (node_page (stored (with_leaf nd True))) = page_size (node_page node) \<and>
    pager_stock pg' ys n \<and> same_pager co_room pg pg' \<and> pgr_max_page pg' = pgr_max_page pg \<and>
    (\<forall>j. j \<noteq> node_page_number node \<longrightarrow> disk_of cf_data pg' j = disk_of cf_data pg j)"
proof -
  let ?nd = "with_leaf nd True"
  note H = half_leaf [OF leaf nv(1,2) page(2) nv(3) nd part]
  have ready: "pager_ready pg" using stock by (simp add: pager_stock_def)
  have w: "can_write co_room pg (node_page_number ?nd)" using stock_can_write [OF stock on] H(5) by simp
  obtain pg' where W: "pager_write_page pg (node_page ?nd) = Some (PAGER_OK, pg', node_page (stored ?nd))"
    "pager_ready pg'" "node_on pg' (stored ?nd)"
    "disk_of cf_data pg' = (disk_of cf_data pg)(node_page_number ?nd \<mapsto> node_mem (stored ?nd))"
    "same_pager co_room pg pg'" "pgr_max_page pg' = max (pgr_max_page pg) (node_page_number ?nd)"
    using write_node [OF ready H(3) w H(6,7)] by blast
  note F = stored_facts [OF H(2)]
  have max: "pgr_max_page pg' = pgr_max_page pg" using W(6) on_disk_allocated [OF on] H(5) by (simp add: max_def antisym)
  have "dps pg' = dps pg" using W(5) by (simp add: same_pager_def dps_def)
  then have half: "half_on pg' node es (stored ?nd)" using F(1,2,4,7) H(8-10) W(3) by (simp add: half_on_def)
  have "page_size (node_page (stored ?nd)) = page_size (node_page node)"
    using H(7) on by (simp add: stored_def node_on_def)
  moreover have "pager_stock pg' ys n"
    using stock_rewritten [OF stock W(5,2) max W(3)] F(8) H(5) page W(4) by simp
  ultimately show ?thesis using W half max F(8) H(1,5) by (intro exI [of _ pg']) simp
qed

lemma split_leaf_run:
  assumes stock: "pager_stock pg ys (Suc n)" and leaf: "leaf_node node" and on: "node_on pg node"
    and page: "node_page_number node \<notin> set ys" "node_page_number node \<noteq> 1" and keys: "1 < n_keys node"
    and cells: "\<forall>e \<in> set (node_abs node). entry_room e \<le> unat (btree_node_max_cell_size node)"
  shows "\<exists>pg' nd l r. bta_split_node node pg sp = Some (BTREE_OK, pg', nd,
      \<lparr>sp_left_page_id = node_page_number l, sp_left_page_high_key = split_key node\<rparr>) \<and>
    half_on pg' node (left_half node) l \<and> half_on pg' node (right_half node) r \<and> node_page_number r = node_page_number node \<and>
    leaf_node nd \<and> looks_like nd r \<and> same_layout nd node \<and> (node_page_number l \<in> set ys \<or> pgr_max_page pg < node_page_number l) \<and>
    node_page_number l \<noteq> 1 \<and> node_page_number l \<noteq> node_page_number node \<and> node_page_number l \<notin> set (tl ys) \<and>
    pager_stock pg' (tl ys) n \<and> same_pager co_room pg pg' \<and>
    (\<forall>j. j \<notin> {1, node_page_number node, node_page_number l} \<longrightarrow> disk_of cf_data pg' j = disk_of cf_data pg j)"
proof -
  let ?page = "node_page_number node" and ?h = "(n_keys node + 1) div 2"
  have pos: "0 < n_keys node" using keys by simp
  have wf: "node_wf node" and kind: "node_is_leaf node = Some True" using leaf by (simp_all add: leaf_node_def)
  have ready: "pager_ready pg" using stock by (simp add: pager_stock_def)
  have shape: "node_shape node" by (rule leaf_facts(2) [OF leaf])
  obtain nv pv where nv: "noderc_acquire_load_n pg [0, 0] = Some (BTREE_OK, pg, [nv, nv])" "blank_view pg 0 nv"
    "noderc_reinit_as nv ?page = Some (BTREE_OK, pv)" "blank_view pg ?page pv"
    using stock_blank [OF stock leaf on page(2)] by blast
  note B = blank_target [OF leaf ready on page(2) cells nv(2) zero_neq_one]
    and C = blank_target [OF leaf ready on page(2) cells nv(4) page(2)]
  obtain l0 r0 where sn: "split_node node pg nv pv = Some (split_key node, l0, r0, pg)" "node_wf l0" "node_wf r0"
    "same_layout l0 nv" "same_layout r0 pv" "node_abs r0 = right_half node" "node_abs l0 = left_half node"
    "n_free r0 = dps pg - 32 - (\<Sum>e \<leftarrow> right_half node. entry_room e)"
    "n_free l0 = dps pg - 32 - (\<Sum>e \<leftarrow> left_half node. entry_room e)"
    using split_node_run [OF wf pos kind B(1) C(1), of pg]
    unfolding split_key_nth [OF pos] left_half_def [symmetric] right_half_def [symmetric] B(3) C(3) by auto
  have parts: "node_abs node = [] @ left_half node @ right_half node" "node_abs node = left_half node @ right_half node @ []"
    by (simp_all add: left_half_def right_half_def)
  let ?r = "stored (with_leaf r0 True)"
  obtain pg1 where R: "node_is_leaf_set r0 True = Some (with_leaf r0 True)"
    "pager_write_page pg (node_page (with_leaf r0 True)) = Some (PAGER_OK, pg1, node_page ?r)"
    "half_on pg1 node (right_half node) ?r" "node_page_number ?r = ?page" "page_size (node_page ?r) = page_size (node_page node)"
    "pager_stock pg1 ys (Suc n)" "same_pager co_room pg pg1" "pgr_max_page pg1 = pgr_max_page pg"
    "\<forall>j. j \<noteq> ?page \<longrightarrow> disk_of cf_data pg1 j = disk_of cf_data pg j"
    using rewrite_half [OF stock leaf on page sn(5) nv(4) C(2) sn(3,6,8) parts(2)] by blast
  have same1: "dps pg1 = dps pg" using R(7) by (simp add: same_pager_def dps_def)
  have blank1: "blank_view pg1 0 nv" using nv(2) R(7) by (simp add: blank_view_def same_pager_def dps_def)
  obtain pg2 lid where L: "node_is_leaf_set l0 True = Some (with_leaf l0 True)"
    "pager_write_page pg1 (node_page (with_leaf l0 True)) = Some (PAGER_OK, pg2, node_page (numbered (with_leaf l0 True) lid))"
    "half_on pg2 node (left_half node) (numbered (with_leaf l0 True) lid)" "pager_stock pg2 (tl ys) n"
    "same_pager co_room pg1 pg2" "lid \<in> set ys \<or> pgr_max_page pg1 < lid" "lid \<noteq> 1" "lid \<notin> set (tl ys)"
    "\<forall>j. j \<noteq> lid \<longrightarrow> j \<noteq> 1 \<longrightarrow> disk_of cf_data pg2 j = disk_of cf_data pg1 j"
    using write_half [OF R(6) leaf sn(4) blank1 B(2) sn(2,7) sn(9) [folded same1] parts(1)] by blast
  let ?l = "numbered (with_leaf l0 True) lid"
  have num: "node_page_number ?l = lid" "page_id (node_page ?l) = lid" by (simp_all add: numbered_def)
  have ne: "lid \<noteq> ?page" using L(6) R(8) page(1) on_disk_allocated [OF on] by auto
  have hr: "half_on pg2 node (right_half node) ?r" using half_on_other [OF R(3) L(5)] L(9) R(4) ne page(2) by simp
  have r: "leaf_node ?r" "node_wf ?r" "node_abs ?r = right_half node" using hr by (simp_all add: half_on_def leaf_node_def)
  have "n_keys ?r = n_keys node - ?h" using arg_cong [OF r(3), of length] by (simp add: right_half_def)
  then have pos_r: "0 < n_keys ?r" using keys by simp
  obtain nd where nd: "btree_node_copy node ?r = Some (BTREE_OK, nd)" "looks_like nd ?r" "same_layout nd node"
    using copy_run [OF shape r(2) pos_r R(4,5) page(2)] by blast
  have leaf_nd: "leaf_node nd" by (rule looks_like_leaf [OF r(1) nd(2)])
  have st: "(with_leaf r0 True)\<lparr>node_page := node_page ?r\<rparr> = ?r" by (simp add: stored_def)
  have run: "bta_split_node node pg sp = Some (BTREE_OK, pg2, nd,
      \<lparr>sp_left_page_id = lid, sp_left_page_high_key = split_key node\<rparr>)"
    using nv(1,3) sn(1) kind L(1,2) R(1,2) nd(1) num st by (simp add: bta_split_node_def Let_def)
  have same: "same_pager co_room pg pg2" using same_pager_trans [OF R(7) L(5)] .
  have disk: "\<forall>j. j \<notin> {1, ?page, lid} \<longrightarrow> disk_of cf_data pg2 j = disk_of cf_data pg j" using L(9) R(9) by simp
  show ?thesis
    using run L(3,4,6,7,8) hr R(4,8) leaf_nd nd(2,3) same disk ne num(1)
    by (intro exI [of _ pg2] exI [of _ nd] exI [of _ ?l] exI [of _ ?r]) simp
qed

section \<open>The round of the leaf\<close>

text \<open>The two leaves that a leaf has become: its entries up to the middle key, and those behind it.\<close>

definition leaf_parts :: "cfile pager \<Rightarrow> btree_node \<Rightarrow> btree_node \<Rightarrow> btree_node \<Rightarrow> bool" where
  "leaf_parts pg node l r \<longleftrightarrow> leaf_node l \<and> leaf_node r \<and> node_on pg l \<and> node_on pg r \<and>
     node_page_number r = node_page_number node \<and> (\<forall>k \<in> dom (node_lookup l). k \<le> split_key node) \<and>
     (\<forall>k \<in> dom (node_lookup r). split_key node < k) \<and> split_key node \<in> dom (node_lookup l) \<and>
     fst ` set (right_half node) \<subseteq> dom (node_lookup r)"

text \<open>What an insertion may change on the disk: the page 1, which has the free list, the page of the leaf, and the new page.\<close>

definition split_frame :: "cfile pager \<Rightarrow> cfile pager \<Rightarrow> u32 list \<Rightarrow> u32 \<Rightarrow> u32 \<Rightarrow> bool" where
  "split_frame pg pg' ys old new \<longleftrightarrow> (new \<in> set ys \<or> pgr_max_page pg < new) \<and> new \<noteq> 1 \<and> new \<noteq> old \<and>
     same_pager co_room pg pg' \<and> (\<forall>j. j \<notin> {1, old, new} \<longrightarrow> disk_of cf_data pg' j = disk_of cf_data pg j)"

lemma halves_lookup:
  assumes leaf: "leaf_node node" and keys: "1 < n_keys node" and l: "half_on pg node (left_half node) l"
    and r: "half_on pg node (right_half node) r" "node_page_number r = node_page_number node"
  shows "leaf_parts pg node l r" "node_lookup node = node_lookup r ++ node_lookup l" "n_keys l < 255" "n_keys r < 255"
proof -
  have L: "leaf_node l" "node_on pg l" "node_abs l = left_half node" and R: "leaf_node r" "node_on pg r" "node_abs r = right_half node"
    using l r(1) by (simp_all add: half_on_def)
  have pos: "0 < n_keys node" using keys by simp
  note K = halves_keys [OF leaf pos L(3) R(3)]
  show "node_lookup node = node_lookup r ++ node_lookup l" "n_keys l < 255" "n_keys r < 255" by (rule K(4-6))+
  have "dom (node_lookup r) = fst ` set (right_half node)" by (simp add: lookup_dom node_key_list_abs R(3))
  then show "leaf_parts pg node l r" using L R r(2) K(1-3) by (simp add: leaf_parts_def)
qed

lemma write_after_split:
  assumes leaf: "leaf_node node" and keys: "1 < n_keys node" and stock: "pager_stock pg ys n"
    and l: "half_on pg node (left_half node) l" and r: "half_on pg node (right_half node) r" "node_page_number r = node_page_number node"
    and nd: "leaf_node nd" "looks_like nd r" "same_layout nd node" "length (node_mem node) = dps pg" "page_size (node_page node) = pgr_page_size pg"
    and ids: "node_page_number l \<noteq> 1" "node_page_number l \<noteq> node_page_number node" "node_page_number node \<noteq> 1"
      "node_page_number l \<notin> set ys" "node_page_number node \<notin> set ys"
    and size: "length payload + 16 \<le> unat (btree_node_max_cell_size node)" and new: "node_lookup node key = None"
    and small: "key < 2147483648" "split_key node < 2147483648"
  shows "\<exists>nv pg1. (if key <=s split_key node then noderc_reinit_read pg nd (node_page_number l) else Some (BTREE_OK, pg, nd)) =
      Some (BTREE_OK, pg1, nv) \<and>
    (\<exists>pg' l' r' nv'. btree_node_write nv pg1 key payload (of_nat (length payload)) =
        Some (if half_room pg (split_half node key) payload then BTREE_OK else BTREE_ERR_NODE_NOT_ENOUGH_SPACE, pg', nv') \<and>
      leaf_parts pg' node l' r' \<and> node_page_number l' = node_page_number l \<and> pager_stock pg' ys n \<and> same_pager co_room pg pg' \<and>
      pgr_max_page pg' = pgr_max_page pg \<and> view_for pg' nv' \<and> node_lookup r' ++ node_lookup l' =
        (if half_room pg (split_half node key) payload then (node_lookup node)(key \<mapsto> payload) else node_lookup node) \<and>
      (\<forall>j. j \<notin> {node_page_number node, node_page_number l} \<longrightarrow> disk_of cf_data pg' j = disk_of cf_data pg j))"
proof -
  let ?room = "half_room pg (split_half node key) payload"
  note H = halves_lookup [OF leaf keys l r]
  have LR: "leaf_node l" "node_on pg l" "leaf_node r" "node_on pg r" using H(1) by (simp_all add: leaf_parts_def)
  have ready: "pager_ready pg" using stock by (simp add: pager_stock_def)
  have wfr: "node_wf r" using LR(3) by (simp add: leaf_node_def)
  note N = looks_like_facts [OF wfr nd(2)] and S = same_layout_facts [OF nd(3)]
  have look_nd: "node_lookup nd = node_lookup r" by (simp add: node_lookup_def N(2))
  have none: "node_lookup l key = None" "node_lookup r key = None" using new unfolding H(2) by simp_all
  have szn: "page_size (node_page nd) = pgr_page_size pg" using nd(5) unfolding S(1) by simp
  define sel where "sel = (if key \<le> split_key node then l else nd)"
  have sel: "leaf_node sel" "n_free sel = dps pg - 32 - (\<Sum>e \<leftarrow> split_half node key. entry_room e)"
    "length (node_mem sel) = dps pg" "page_size (node_page sel) = pgr_page_size pg"
    "btree_node_max_cell_size sel = btree_node_max_cell_size node" "n_keys sel < 255" "node_lookup sel key = None"
    "node_page_number sel = (if key \<le> split_key node then node_page_number l else node_page_number node)"
    "node_lookup sel = (if key \<le> split_key node then node_lookup l else node_lookup r)"
    using l r nd(1,4) node_on_length [OF ready LR(2)] LR(2) S(2,4,5) szn N(3,4) H(3,4) none look_nd
    by (auto simp: sel_def half_on_def split_half_def node_on_def)
  have w: "can_write co_room pg (node_page_number sel)"
    using stock_can_write [OF stock LR(2)] stock_can_write [OF stock LR(4)] sel(8) r(2) by simp
  have view: "view_for pg nd" using S(5) nd(4) szn by (simp add: view_for_def page_for_def node_mem_def)
  obtain c where rd: "(if key <=s split_key node then noderc_reinit_read pg nd (node_page_number l) else Some (BTREE_OK, pg, nd)) =
      Some (BTREE_OK, pg\<lparr>pgr_cache := c\<rparr>, sel)" and ready1: "pager_ready (pg\<lparr>pgr_cache := c\<rparr>)"
  proof (cases "key \<le> split_key node")
    case True
    then show thesis using reinit_leaf [OF ready LR(2,1) view] that by (auto simp: sel_def word_sle_small [OF small])
  next
    case False
    then show thesis using that [of "pgr_cache pg"] ready by (simp add: sel_def word_sle_small [OF small])
  qed
  let ?pg1 = "pg\<lparr>pgr_cache := c\<rparr>"
  have stock1: "pager_stock ?pg1 ys n" by (rule pager_stock_cache [OF stock ready1])
  have room1: "half_room ?pg1 = half_room pg" "dps ?pg1 = dps pg" by (simp_all add: fun_eq_iff half_room_def dps_def)
  have new1: "key \<notin> set (node_key_list sel)" using sel(7) unfolding lookup_dom [symmetric] by (simp add: domIff)
  have w1: "can_write co_room ?pg1 (node_page_number sel)" using w by (simp add: can_write_def dps_def)
  have W: "if ?room
    then \<exists>pg' nd'. btree_node_write sel ?pg1 key payload (of_nat (length payload)) = Some (BTREE_OK, pg', nd') \<and>
      leaf_node nd' \<and> node_on pg' nd' \<and> node_page_number nd' = node_page_number sel \<and> pager_ready pg' \<and>
      same_pager co_room ?pg1 pg' \<and> pgr_max_page pg' = max (pgr_max_page ?pg1) (node_page_number sel) \<and>
      node_lookup nd' = (node_lookup sel)(key \<mapsto> payload) \<and>
      (\<forall>j. j \<noteq> node_page_number sel \<longrightarrow> disk_of cf_data pg' j = disk_of cf_data ?pg1 j)
    else btree_node_write sel ?pg1 key payload (of_nat (length payload)) = Some (BTREE_ERR_NODE_NOT_ENOUGH_SPACE, ?pg1, sel)"
    using write_half_copy [OF ready1 sel(1) _ _ _ w1 _ new1 sel(6), of "split_half node key" payload] sel(2-5) size
    unfolding room1 by simp
  show ?thesis
  proof (cases ?room)
    case False
    have "leaf_parts ?pg1 node l r" using H(1) by (simp add: leaf_parts_def)
    moreover have "view_for ?pg1 sel" using sel(3,4) by (simp add: view_for_def page_for_def node_mem_def dps_def)
    ultimately show ?thesis
      using rd W False stock1 H(2) by (intro exI [of _ sel] exI [of _ ?pg1] conjI exI [of _ l] exI [of _ r]) (simp_all add: same_pager_def)
  next
    case True
    then obtain pg' nd' where X: "btree_node_write sel ?pg1 key payload (of_nat (length payload)) = Some (BTREE_OK, pg', nd')"
      "leaf_node nd'" "node_on pg' nd'" "node_page_number nd' = node_page_number sel" "pager_ready pg'"
      "same_pager co_room ?pg1 pg'" "pgr_max_page pg' = max (pgr_max_page pg) (node_page_number sel)"
      "node_lookup nd' = (node_lookup sel)(key \<mapsto> payload)"
      "\<forall>j. j \<noteq> node_page_number sel \<longrightarrow> disk_of cf_data pg' j = disk_of cf_data pg j"
      using W by auto
    have same: "same_pager co_room pg pg'" using X(6) by (simp add: same_pager_def)
    have max: "pgr_max_page pg' = pgr_max_page pg"
      using X(7) on_disk_allocated [OF LR(2)] on_disk_allocated [OF LR(4)] sel(8) r(2) by (simp add: max_def antisym)
    define l' r' where "l' = (if key \<le> split_key node then nd' else l)" and "r' = (if key \<le> split_key node then r else nd')"
    have num: "node_page_number l' = node_page_number l" "node_page_number r' = node_page_number node"
      using X(4) sel(8) r(2) by (simp_all add: l'_def r'_def)
    have kept: "node_on pg' x" if "node_on pg x" "node_page_number x \<noteq> node_page_number sel" for x
      using node_on_other [OF that(1) same] X(9) that(2) by simp
    have on: "node_on pg' l'" "node_on pg' r'" "leaf_node l'" "leaf_node r'"
      using X(2,3) kept [OF LR(2)] kept [OF LR(4)] LR sel(8) ids(2) r(2) by (auto simp: l'_def r'_def)
    have look: "node_lookup l' = (if key \<le> split_key node then (node_lookup l)(key \<mapsto> payload) else node_lookup l)"
      "node_lookup r' = (if key \<le> split_key node then node_lookup r else (node_lookup r)(key \<mapsto> payload))"
      using X(8) sel(9) by (simp_all add: l'_def r'_def)
    have parts: "leaf_parts pg' node l' r'"
      using H(1) on num(2) by (auto simp: leaf_parts_def look not_le split: if_splits)
    have "node_lookup r' ++ node_lookup l' = (node_lookup node)(key \<mapsto> payload)"
      using none by (simp add: look H(2) map_add_upd_left domIff)
    moreover have "pager_stock pg' ys n"
      using stock_rewritten [OF stock same X(5) max X(3)] X(4,9) sel(8) ids by (auto split: if_splits)
    moreover have "\<forall>j. j \<notin> {node_page_number node, node_page_number l} \<longrightarrow> disk_of cf_data pg' j = disk_of cf_data pg j"
      using X(9) sel(8) by simp
    ultimately show ?thesis
      using rd X(1) True parts num(1) same max node_on_view [OF X(5,3)]
      by (intro exI [of _ sel] exI [of _ ?pg1] conjI exI [of _ pg'] exI [of _ l'] exI [of _ r'] exI [of _ nd']) simp_all
  qed
qed

text \<open>The round for the leaf: it goes on to the parent if the key has got its place, and ends the insertion if not.\<close>

lemma insert_round_leaf:
  assumes stock: "pager_stock pg ys (Suc n)" and leaf: "leaf_node node" and on: "node_on pg node"
    and page: "node_page_number node \<notin> set ys" "node_page_number node \<noteq> 1" and keys: "1 < n_keys node"
    and full: "full_leaf node payload" and new: "node_lookup node key = None"
    and small: "key < 2147483648" "split_key node < 2147483648"
    and pop: "cursor_pop c = (BTREE_OK, Some crumb, c1)" "cb_page_id crumb = node_page_number node"
    and inner: "node_page_number node \<noteq> tr_root_page_id (cur_tree c1)" and view: "view_for pg nv"
    and up: "cursor_pop c1 = (BTREE_OK, Some crumb2, c2)"
      "cursor_push_crumb c2 (crumb2\<lparr>cb_key_index := (cb_key_index crumb2)\<lparr>cli_mode := KLIM_INDEX\<rparr>\<rparr>) = (BTREE_OK, c3)"
  shows "\<exists>pg' l r nv'. insert_round c pg nv key (Caller_data payload) (of_nat (length payload)) sr =
      Some (if half_room pg (split_half node key) payload
        then Go_on (c3, pg', nv', split_key node, \<lparr>sp_left_page_id = node_page_number l, sp_left_page_high_key = split_key node\<rparr>)
        else Stop pg') \<and>
    leaf_parts pg' node l r \<and> split_frame pg pg' ys (node_page_number node) (node_page_number l) \<and>
    pager_stock pg' (tl ys) n \<and> view_for pg' nv' \<and> node_lookup r ++ node_lookup l =
      (if half_room pg (split_half node key) payload then (node_lookup node)(key \<mapsto> payload) else node_lookup node)"
proof -
  have cells: "\<forall>e \<in> set (node_abs node). entry_room e \<le> unat (btree_node_max_cell_size node)"
    and size: "length payload + 16 \<le> unat (btree_node_max_cell_size node)" and over: "n_free node < length payload + 16"
    using full by (simp_all add: full_leaf_def)
  have ready: "pager_ready pg" using stock by (simp add: pager_stock_def)
  obtain a where rd: "noderc_reinit_read pg nv (node_page_number node) = Some (BTREE_OK, pg\<lparr>pgr_cache := a\<rparr>, node)"
    and ready0: "pager_ready (pg\<lparr>pgr_cache := a\<rparr>)"
    using reinit_leaf [OF ready on leaf view] by blast
  let ?pg = "pg\<lparr>pgr_cache := a\<rparr>" and ?room = "half_room pg (split_half node key) payload"
  have room: "half_room ?pg = half_room pg" by (simp add: fun_eq_iff half_room_def dps_def)
  have on0: "node_on ?pg node" using on by simp
  note nospace = node_write_full [OF leaf size over, of ?pg key]
  obtain pg1 nd l r where S: "bta_split_node node ?pg sr = Some (BTREE_OK, pg1, nd,
      \<lparr>sp_left_page_id = node_page_number l, sp_left_page_high_key = split_key node\<rparr>)"
    "half_on pg1 node (left_half node) l" "half_on pg1 node (right_half node) r" "node_page_number r = node_page_number node"
    "leaf_node nd" "looks_like nd r" "same_layout nd node" "node_page_number l \<in> set ys \<or> pgr_max_page pg < node_page_number l"
    "node_page_number l \<noteq> 1" "node_page_number l \<noteq> node_page_number node" "node_page_number l \<notin> set (tl ys)"
    "pager_stock pg1 (tl ys) n" "same_pager co_room pg pg1"
    "\<forall>j. j \<notin> {1, node_page_number node, node_page_number l} \<longrightarrow> disk_of cf_data pg1 j = disk_of cf_data pg j"
    using split_leaf_run [OF pager_stock_cache [OF stock ready0] leaf on0 page keys cells, of sr]
    by (auto simp: same_pager_def)
  have lay: "length (node_mem node) = dps pg1" "page_size (node_page node) = pgr_page_size pg1"
    using node_on_length [OF ready on] on S(13) by (simp_all add: node_on_def same_pager_def dps_def)
  have room1: "half_room pg1 = half_room pg" using S(13) by (simp add: fun_eq_iff half_room_def same_pager_def dps_def)
  have out: "node_page_number node \<notin> set (tl ys)" using page(1) by (metis list.set_sel(2) tl_Nil)
  obtain nv1 pg2 pg' l' r' nv' where W: "(if key <=s split_key node then noderc_reinit_read pg1 nd (node_page_number l)
      else Some (BTREE_OK, pg1, nd)) = Some (BTREE_OK, pg2, nv1)"
    "btree_node_write nv1 pg2 key payload (of_nat (length payload)) =
      Some (if ?room then BTREE_OK else BTREE_ERR_NODE_NOT_ENOUGH_SPACE, pg', nv')"
    "leaf_parts pg' node l' r'" "node_page_number l' = node_page_number l" "pager_stock pg' (tl ys) n" "same_pager co_room pg1 pg'"
    "view_for pg' nv'" "node_lookup r' ++ node_lookup l' = (if ?room then (node_lookup node)(key \<mapsto> payload) else node_lookup node)"
    "\<forall>j. j \<notin> {node_page_number node, node_page_number l} \<longrightarrow> disk_of cf_data pg' j = disk_of cf_data pg1 j"
    using write_after_split [OF leaf keys S(12,2-4,5-7) lay S(9,10) page(2) S(11) out size new small, unfolded room1]
    by blast
  have "page_id (node_page node) = node_page_number node" using leaf_facts(2) [OF leaf] by (simp add: node_shape_def)
  then have run: "insert_round c pg nv key (Caller_data payload) (of_nat (length payload)) sr =
      Some (if ?room then Go_on (c3, pg', nv', split_key node, \<lparr>sp_left_page_id = node_page_number l', sp_left_page_high_key = split_key node\<rparr>)
        else Stop pg')"
    using pop rd nospace inner S(1) W(1,2,4) up
    by (cases "key <=s split_key node"; cases ?room; simp add: insert_round_def insert_bytes_def)
  have "split_frame pg pg' ys (node_page_number node) (node_page_number l')"
    using S(8-10) same_pager_trans [OF S(13) W(6)] S(14) W(4,9) by (simp add: split_frame_def)
  with run W(3,5,7,8) show ?thesis by blast
qed

end
