(* ===== verification/ParentSplit.thy ===== *)
theory ParentSplit
  imports TreeInsert TreePath
begin

text \<open>A parent gets a new child: the left half of the leaf that was split stands in front of the right half.\<close>

section \<open>The parent's page\<close>

lemma parent_gets_child:
  assumes ready: "pager_ready pg" and inner: "inner_node par" and on: "node_on pg par"
    and w: "can_write co_room pg (node_page_number par)" and room: "leaf_room par (ser_write_32bit_le l)"
    and new: "sk \<notin> set (node_key_list par)"
  defines "i \<equiv> key_place (node_key_list par) sk"
  shows "\<exists>pg' par'. btree_node_write par pg sk (ser_write_32bit_le l) 4 = Some (BTREE_OK, pg', par') \<and>
    pager_ready pg' \<and> inner_node par' \<and> node_on pg' par' \<and> node_page_number par' = node_page_number par \<and>
    node_key_list par' = insert_at i sk (node_key_list par) \<and> child_ids par' = insert_at i l (child_ids par) \<and>
    same_pager co_room pg pg' \<and> (\<forall>j. j \<noteq> node_page_number par \<longrightarrow> disk_of cf_data pg' j = disk_of cf_data pg j)"
proof -
  have S: "sorted_node par" "node_is_leaf par = Some False" "\<forall>e \<in> set (node_abs par). length (snd (snd e)) = 4"
    using inner by (simp_all add: inner_node_def)
  let ?id = "ser_write_32bit_le l :: bytes"
  let ?nd = "leaf_inserted par sk ?id"
  note F = inserted_facts [OF S(1) room new, folded i_def]
  have sz: "page_size (node_page par) = pgr_page_size pg" using on by (simp add: node_on_def)
  obtain pg' where W: "btree_node_write par pg sk ?id (of_nat (length ?id)) = Some (BTREE_OK, pg', stored ?nd)"
    "pager_ready pg'" "node_on pg' (stored ?nd)"
    "disk_of cf_data pg' = (disk_of cf_data pg)(node_page_number par \<mapsto> node_mem (stored ?nd))" "same_pager co_room pg pg'"
    using node_write_sorted [OF ready S(1) room new w node_on_length [OF ready on] sz] by blast
  have i: "i \<le> n_keys par" using key_place_le [of "node_key_list par" sk] by (simp add: i_def)
  have inner': "inner_node ?nd"
    using F(1,2,9) S(2,3) i by (auto simp: inner_node_def insert_at_def dest: in_set_takeD in_set_dropD)
  have shape: "node_shape ?nd" using sorted_facts(2) [OF F(1)] .
  note like = stored_looks_like [OF shape]
  note I = looks_like_inner [OF inner' like]
  have wf: "node_wf ?nd" using F(1) by (simp add: sorted_node_def)
  have "n_right ?nd = n_right par" using F(10,11) by (simp add: n_right_def)
  then have "child_ids ?nd = insert_at i l (child_ids par)"
    using i by (simp add: child_ids_def F(2) map_insert_at insert_at_def take_map drop_map child_of_def rd32_def slice_def)
  moreover have "node_key_list (stored ?nd) = insert_at i sk (node_key_list par)"
    using looks_like_facts(8) [OF wf like] by (simp add: node_key_list_abs F(2) map_insert_at)
  moreover have "node_page_number (stored ?nd) = node_page_number par" using F(8) by (simp add: stored_def)
  ultimately show ?thesis
    using W I by (intro exI [of _ pg'] exI [of _ "stored ?nd"]) simp
qed

section \<open>The tree of the parent\<close>

lemma nth_inserted:
  assumes "i \<le> length xs" and "q \<le> length xs"
  shows "insert_at i x xs ! q = (if q < i then xs ! q else if q = i then x else xs ! (q - 1))"
  using assms by (auto simp: insert_at_def nth_append nth_Cons')

lemma nth_split_at:
  assumes "i < length cs" and "j \<le> length cs"
  shows "(take i cs @ [l, r] @ drop (Suc i) cs) ! j =
    (if j < i then cs ! j else if j = i then l else if j = Suc i then r else cs ! (j - 1))"
proof -
  show ?thesis
  proof (cases "j \<le> Suc i")
    case True
    then show ?thesis using assms by (auto simp: nth_append nth_Cons' le_Suc_eq)
  next
    case False
    then obtain k where "j = Suc (Suc i) + k" using le_Suc_ex [of "Suc (Suc i)" j] by auto
    then show ?thesis using assms by (simp add: nth_append)
  qed
qed

lemma separates_split:
  assumes sep: "separates ks cs" and asc: "keys_ascending ks" and i: "i = key_place ks key"
    and l: "\<forall>k \<in> tree_keys l. k \<le> sk" "sk \<in> tree_keys l" and r: "\<forall>k \<in> tree_keys r. sk < k"
    and keys: "tree_keys l \<union> tree_keys r = insert key (tree_keys (cs ! i))"
    and sk: "sk \<in> tree_keys (cs ! i)" "big \<in> tree_keys (cs ! i)" "sk < big"
  shows "separates (insert_at i sk ks) (take i cs @ [l, r] @ drop (Suc i) cs)"
proof -
  let ?ks = "insert_at i sk ks" and ?cs = "take i cs @ [l, r] @ drop (Suc i) cs"
  have len: "length cs = length ks + 1" using sep by (simp add: separates_def)
  have ile: "i \<le> length ks" unfolding i by (rule key_place_le)
  have B: "if j \<le> q then k \<le> ks ! q else ks ! q < k"
    if "j < length cs" "k \<in> tree_keys (cs ! j) \<or> j = i \<and> k = key" "q < length ks" for j k q
    using that(2)
  proof
    assume "k \<in> tree_keys (cs ! j)"
    then show ?thesis using sep that(1,3) unfolding separates_def by blast
  next
    assume "j = i \<and> k = key"
    then show ?thesis using key_place_mono_bounds [OF asc that(3), of key] by (simp add: i)
  qed
  define src where "src j = (if j \<le> i then j else j - 1)" for j
  have nth: "?cs ! j = (if j < i then cs ! j else if j = i then l else if j = Suc i then r else cs ! (j - 1))"
    if "j \<le> length cs" for j
    by (rule nth_split_at) (use that ile len in simp_all)
  have from_src: "k \<in> tree_keys (cs ! src j) \<or> src j = i \<and> k = key" if "j \<le> length cs" "k \<in> tree_keys (?cs ! j)" for j k
    using that keys unfolding nth [OF that(1)] by (auto simp: src_def split: if_splits)
  have ks: "?ks ! q = (if q < i then ks ! q else if q = i then sk else ks ! (q - 1))" if "q \<le> length ks" for q
    by (rule nth_inserted [OF ile that])
  have lenks: "length ?ks = length ks + 1" and lencs: "length ?cs = length cs + 1"
    using ile len by (simp_all add: insert_at_def)
  have bound: "if j \<le> q then k \<le> ?ks ! q else ?ks ! q < k" if j: "j \<le> length cs" "k \<in> tree_keys (?cs ! j)" and q: "q \<le> length ks" for j k q
  proof -
    have sj: "src j < length cs" using j(1) ile len by (auto simp: src_def)
    note K = from_src [OF j]
    consider "q < i" | "q = i" | "i < q" by linarith
    then show ?thesis
    proof cases
      case 1
      then have "src j \<le> q \<longleftrightarrow> j \<le> q" by (auto simp: src_def)
      then show ?thesis using B [OF sj K, of q] 1 ile unfolding ks [OF q] by simp
    next
      case 3
      then have "src j \<le> q - 1 \<longleftrightarrow> j \<le> q" by (auto simp: src_def)
      moreover have "q - 1 < length ks" using 3 q by linarith
      ultimately show ?thesis using B [OF sj K, of "q - 1"] 3 unfolding ks [OF q] by auto
    next
      case 2
      note qi = 2
      have sq: "?ks ! q = sk" using qi unfolding ks [OF q] by simp
      consider "j < i" | "j = i" | "j = Suc i" | "Suc i < j" by linarith
      then show ?thesis
      proof cases
        case 1
        then have "k \<in> tree_keys (cs ! j)" using j unfolding nth [OF j(1)] by simp
        then have "k \<le> ks ! j" using B [of j k j] 1 ile len by simp
        moreover have "ks ! j < sk" using B [of i sk j] 1 sk(1) ile len by simp
        ultimately show ?thesis unfolding sq using 1 qi by simp
      next
        case 2
        then have "k \<in> tree_keys l" using j unfolding nth [OF j(1)] by simp
        then show ?thesis using bspec [OF l(1), of k] unfolding sq using 2 qi by simp
      next
        case 3
        then have "k \<in> tree_keys r" using j unfolding nth [OF j(1)] by simp
        then show ?thesis using bspec [OF r, of k] unfolding sq using 3 qi by simp
      next
        case 4
        then have k: "k \<in> tree_keys (cs ! (j - 1))" using j unfolding nth [OF j(1)] by simp
        have less: "i < length ks" using 4 j(1) len by simp
        then have "ks ! i < k" using B [of "j - 1" k i] k 4 j(1) len by simp
        moreover have "sk \<le> ks ! i" using B [of i sk i] sk(1) less len by simp
        ultimately show ?thesis unfolding sq using 4 qi by simp
      qed
    qed
  qed
  have member: "?ks ! q \<in> tree_keys (?cs ! q)" if q: "q \<le> length ks" for q
  proof -
    have orig: "ks ! p \<in> tree_keys (cs ! p)" if "p < length ks" for p using sep that unfolding separates_def by blast
    have ql: "q \<le> length cs" using q len by simp
    consider "q < i" | "q = i" | "q = Suc i" | "Suc i < q" by linarith
    then show ?thesis
    proof cases
      case 1
      then show ?thesis using orig [of q] ile unfolding ks [OF q] nth [OF ql] by simp
    next
      case 2
      then show ?thesis using l(2) unfolding ks [OF q] nth [OF ql] by simp
    next
      case 3
      then have less: "i < length ks" using q by simp
      have "big \<le> ks ! i" using B [of i big i] sk(2) less len by simp
      then have "\<not> ks ! i \<le> sk" using sk(3) by simp
      then have "ks ! i \<in> tree_keys r" using orig [OF less] keys l(1) by blast
      then show ?thesis using 3 unfolding ks [OF q] nth [OF ql] by simp
    next
      case 4
      then show ?thesis using orig [of "q - 1"] q unfolding ks [OF q] nth [OF ql] by simp
    qed
  qed
  show ?thesis
    unfolding separates_def lenks lencs
  proof (intro conjI allI ballI impI)
    show "length cs + 1 = length ks + 1 + 1" using len by simp
    show "if j \<le> q then k \<le> ?ks ! q else ?ks ! q < k"
      if "j < length cs + 1" "k \<in> tree_keys (?cs ! j)" "q < length ks + 1" for j k q
      by (rule bound [OF _ that(2)]) (use that(1,3) in simp_all)
    show "?ks ! q \<in> tree_keys (?cs ! q)" if "q < length ks + 1" for q
      by (rule member) (use that in simp)
  qed
qed

text \<open>The content of the children is that of the old ones, and the new entry.\<close>

lemma content_split:
  assumes sep: "separates ks cs" and i: "i = key_place ks key"
    and lr: "map_of (tree_items r) ++ map_of (tree_items l) = (map_of (tree_items (cs ! i)))(key \<mapsto> payload)"
  shows "map_of (concat (map tree_items (take i cs @ [l, r] @ drop (Suc i) cs))) =
    (map_of (concat (map tree_items cs)))(key \<mapsto> payload)"
proof -
  have len: "length cs = length ks + 1" using sep by (simp add: separates_def)
  then have less: "i < length cs" using key_place_le [of ks key] by (simp add: i)
  let ?a = "concat (map tree_items (take i cs))" and ?b = "concat (map tree_items (drop (Suc i) cs))"
  have "key \<notin> fst ` set ?a"
  proof
    assume "key \<in> fst ` set ?a"
    then obtain c where "c \<in> set (take i cs)" "key \<in> tree_keys c" by auto
    then obtain j where "j < length (take i cs)" "take i cs ! j = c" by (metis in_set_conv_nth)
    then have "j < i" "key \<in> tree_keys (cs ! j)" using \<open>key \<in> tree_keys c\<close> by auto
    then show False using key_only_in [OF sep, of j key] less i by simp
  qed
  then have none: "map_of ?a key = None" by (simp add: map_of_eq_None_iff)
  have cs: "concat (map tree_items cs) = ?a @ tree_items (cs ! i) @ ?b"
    using arg_cong [OF id_take_nth_drop [OF less], of "\<lambda>xs. concat (map tree_items xs)"] by simp
  have "map_of (concat (map tree_items (take i cs @ [l, r] @ drop (Suc i) cs))) =
      (map_of ?b ++ (map_of (tree_items r) ++ map_of (tree_items l))) ++ map_of ?a"
    by (simp add: map_add_assoc)
  also have "\<dots> = (map_of (concat (map tree_items cs)))(key \<mapsto> payload)"
    unfolding lr cs map_of_append using none by (auto simp: fun_eq_iff map_add_def split: option.splits)
  finally show ?thesis .
qed

lemma height_split:
  assumes "i < length cs" and "tree_height l = tree_height (cs ! i)" and "tree_height r = tree_height (cs ! i)"
  shows "tree_height (Inner_page nd (take i cs @ [l, r] @ drop (Suc i) cs)) = tree_height (Inner_page node cs)"
proof -
  have "foldr max (map tree_height cs) 0 = foldr max (map tree_height (take i cs @ cs ! i # drop (Suc i) cs)) 0"
    using id_take_nth_drop [OF assms(1)] by simp
  then show ?thesis using assms(2,3) by simp
qed

end
