(* ===== verification/DeepInsert.thy ===== *)
theory DeepInsert
  imports LeafSplit ParentSplit
begin

text \<open>
  Inserting a key whose leaf is full and below the root.  The leaf is split, and if its half takes the
  key, the parent gets the new page.
\<close>

section \<open>The trees afterwards\<close>

lemma leaf_keys_dom: "tree_keys (Leaf_page node) = dom (node_lookup node)"
  by (simp add: lookup_dom node_key_set)

lemma right_key:
  assumes "1 < n_keys node" and "leaf_parts pg node l r"
  obtains k where "k \<in> dom (node_lookup node)" "k \<in> dom (node_lookup r)" "split_key node < k"
proof -
  have "length (right_half node) = n_keys node - (n_keys node + 1) div 2" by (simp add: right_half_def)
  then have "right_half node \<noteq> []" using assms(1) by force
  then obtain e where e: "e \<in> set (right_half node)" by (meson last_in_set)
  then have r: "fst e \<in> dom (node_lookup r)" using assms(2) by (auto simp: leaf_parts_def)
  have "e \<in> set (node_abs node)" using e by (auto simp: right_half_def dest: in_set_dropD)
  then have "fst e \<in> dom (node_lookup node)" by (auto simp: lookup_dom node_key_list_abs)
  moreover have "split_key node < fst e" using r assms(2) by (simp add: leaf_parts_def)
  ultimately show thesis using that r by blast
qed

text \<open>Without the left half: its entries are gone.\<close>

lemma takes_over_half:
  assumes keys: "1 < n_keys node" and parts: "leaf_parts pg node l r" and look: "node_lookup r ++ node_lookup l = node_lookup node"
  shows "takes_over key {k \<in> dom (node_lookup node). k \<le> split_key node} (\<lambda>_. None) (Leaf_page node) (Leaf_page r)"
proof -
  note P = parts [unfolded leaf_parts_def]
  have le: "k \<le> split_key node" if "k \<in> dom (node_lookup l)" for k using P that by blast
  have gt: "split_key node < k" if "k \<in> dom (node_lookup r)" for k using P that by blast
  have dom: "dom (node_lookup node) = dom (node_lookup l) \<union> dom (node_lookup r)"
    using arg_cong [OF look, of dom] by (simp add: Un_commute)
  obtain k0 where k0: "k0 \<in> dom (node_lookup node)" "k0 \<in> dom (node_lookup r)" "split_key node < k0"
    using right_key [OF keys parts] .
  have big: "k \<in> dom (node_lookup r)" if "k \<in> dom (node_lookup node)" "\<forall>k' \<in> dom (node_lookup node). k' \<le> k" for k
  proof -
    have "k0 \<le> k" using that(2) k0(1) by blast
    then have "\<not> k \<le> split_key node" using k0(3) by simp
    then have "k \<notin> dom (node_lookup l)" using le by blast
    then show ?thesis using that(1) unfolding dom by blast
  qed
  have "node_lookup r k = override_on (node_lookup node) (\<lambda>_. None) {k \<in> dom (node_lookup node). k \<le> split_key node} k" for k
  proof (cases "k \<in> dom (node_lookup node) \<and> k \<le> split_key node")
    case True
    then have "k \<notin> dom (node_lookup r)" using gt leD by blast
    then show ?thesis using True by (simp add: domIff)
  next
    case False
    then have "k \<notin> dom (node_lookup l)" using le [of k] unfolding dom by blast
    then have "(node_lookup r ++ node_lookup l) k = node_lookup r k" by (rule map_add_dom_app_simps(3))
    then have "node_lookup node k = node_lookup r k" unfolding look .
    then show ?thesis using False by (auto simp: override_on_def)
  qed
  then have items: "map_of (tree_items (Leaf_page r)) =
      override_on (map_of (tree_items (Leaf_page node))) (\<lambda>_. None) {k \<in> dom (node_lookup node). k \<le> split_key node}"
    by (simp add: node_lookup_items fun_eq_iff)
  show ?thesis
    unfolding takes_over_def leaf_keys_dom
  proof (intro conjI)
    show "\<forall>k \<in> dom (node_lookup node). (\<forall>k' \<in> dom (node_lookup node). k' \<le> k) \<longrightarrow> k \<in> dom (node_lookup r)"
      using big by blast
    show "dom (node_lookup r) \<subseteq> insert key (dom (node_lookup node))" using dom by blast
    show "{k \<in> dom (node_lookup node). k \<le> split_key node} \<subseteq> insert key (dom (node_lookup node))" by blast
  qed (use P items in simp_all)
qed

text \<open>With both halves: the parent has the new page in front of the old one.\<close>

definition with_halves :: "btree_node \<Rightarrow> page_tree list \<Rightarrow> nat \<Rightarrow> btree_node \<Rightarrow> btree_node \<Rightarrow> page_tree" where
  "with_halves par cs i l r = Inner_page par (take i cs @ [Leaf_page l, Leaf_page r] @ drop (Suc i) cs)"

lemma takes_over_parent:
  assumes on: "tree_on pg (Inner_page par cs)" and ord: "tree_ordered (Inner_page par cs)"
    and leaf: "cs ! key_place (node_key_list par) key = Leaf_page node" and keys: "1 < n_keys node"
    and parts: "leaf_parts pg' node l r" and look: "node_lookup r ++ node_lookup l = (node_lookup node)(key \<mapsto> payload)"
  shows "split_key node \<notin> set (node_key_list par)"
    "key_place (node_key_list par) (split_key node) = key_place (node_key_list par) key"
    "node_page_number par' = node_page_number par \<Longrightarrow>
      node_key_list par' = insert_at (key_place (node_key_list par) key) (split_key node) (node_key_list par) \<Longrightarrow>
      takes_over key {key} (\<lambda>_. Some payload) (Inner_page par cs) (with_halves par' cs (key_place (node_key_list par) key) l r)"
proof -
  let ?ks = "node_key_list par" and ?sk = "split_key node"
  define i where "i = key_place ?ks key"
  note P = parts [unfolded leaf_parts_def]
  have leaf_i: "cs ! i = Leaf_page node" using leaf by (simp add: i_def)
  have sep: "separates ?ks cs" and ords: "\<forall>c \<in> set cs. tree_ordered c" using ord by simp_all
  have asc: "keys_ascending ?ks" using on by (simp add: inner_node_def sorted_node_def)
  have i: "i < length cs" using place_in_children [OF ord] by (simp add: i_def)
  obtain big where big: "big \<in> dom (node_lookup node)" "?sk < big" using right_key [OF keys parts] .
  have sk: "?sk \<in> dom (node_lookup node)" unfolding lookup_dom by (rule split_key_member) (use keys in simp)
  have sk_i: "?sk \<in> tree_keys (cs ! i)" and big_i: "big \<in> tree_keys (cs ! i)" using sk big(1) unfolding leaf_i leaf_keys_dom .
  have B: "if i \<le> q then k \<le> ?ks ! q else ?ks ! q < k" if "k \<in> tree_keys (cs ! i)" "q < length ?ks" for k q
    using sep i that unfolding separates_def by blast
  show "?sk \<notin> set ?ks"
  proof
    assume "?sk \<in> set ?ks"
    then obtain q where "q < length ?ks" "?ks ! q = ?sk" by (metis in_set_conv_nth)
    then show False using B [OF sk_i, of q] B [OF big_i, of q] big(2) by (auto split: if_splits)
  qed
  show "key_place ?ks ?sk = key_place ?ks key" using key_only_in [OF sep i sk_i] by (simp add: i_def)
  assume par': "node_page_number par' = node_page_number par" "node_key_list par' = insert_at (key_place ?ks key) ?sk ?ks"
  have dom: "dom (node_lookup l) \<union> dom (node_lookup r) = insert key (dom (node_lookup node))"
    using arg_cong [OF look, of dom] by auto
  let ?t = "with_halves par' cs i l r"
  have "separates (insert_at i ?sk ?ks) (take i cs @ [Leaf_page l, Leaf_page r] @ drop (Suc i) cs)"
  proof (rule separates_split [OF sep asc i_def])
    show "\<forall>k \<in> tree_keys (Leaf_page l). k \<le> ?sk" "?sk \<in> tree_keys (Leaf_page l)" "\<forall>k \<in> tree_keys (Leaf_page r). ?sk < k"
      using P unfolding leaf_keys_dom by blast+
    show "tree_keys (Leaf_page l) \<union> tree_keys (Leaf_page r) = insert key (tree_keys (cs ! i))"
      using dom unfolding leaf_i leaf_keys_dom .
  qed (fact sk_i big_i big(2))+
  then have ord': "tree_ordered ?t"
    using ords unfolding with_halves_def tree_ordered.simps par'(2) i_def [symmetric]
    by (auto dest: in_set_takeD in_set_dropD)
  have lr: "map_of (tree_items (Leaf_page r)) ++ map_of (tree_items (Leaf_page l)) =
      (map_of (tree_items (cs ! i)))(key \<mapsto> payload)"
    using look by (simp add: leaf_i node_lookup_items)
  have content: "map_of (tree_items ?t) = (map_of (tree_items (Inner_page par cs)))(key \<mapsto> payload)"
    using content_split [OF sep i_def lr] by (simp add: with_halves_def)
  have height: "tree_height ?t = tree_height (Inner_page par cs)"
    unfolding with_halves_def by (rule height_split [OF i]) (simp_all add: leaf_i)
  have keys_t: "tree_keys ?t = insert key (tree_keys (Inner_page par cs))"
    unfolding tree_keys_dom content by simp
  have "override_on m (\<lambda>_. Some payload) {key} = m(key \<mapsto> payload)" for m :: "u32 \<rightharpoonup> bytes"
    by (simp add: fun_eq_iff override_on_def)
  then have "takes_over key {key} (\<lambda>_. Some payload) (Inner_page par cs) ?t"
    unfolding takes_over_def keys_t content using ord' height par'(1) by (simp add: with_halves_def del: tree_items.simps tree_height.simps)
  then show "takes_over key {key} (\<lambda>_. Some payload) (Inner_page par cs) (with_halves par' cs (key_place ?ks key) l r)"
    by (simp add: i_def)
qed

section \<open>On the disk\<close>

lemma halves_on:
  assumes on: "tree_on pg (Inner_page par cs)" and d: "distinct (tree_pages (Inner_page par cs))"
    and i: "i < length cs" and leaf: "cs ! i = Leaf_page node" and parts: "leaf_parts pg1 node l r"
    and frame: "split_frame pg pg1 ys (node_page_number node) (node_page_number l)"
    and fresh: "node_page_number l \<notin> set (tree_pages (Inner_page par cs))" "1 \<notin> set (tree_pages (Inner_page par cs))"
    and par': "inner_node par'" "node_on pg2 par'" "node_page_number par' = node_page_number par"
      "child_ids par' = insert_at i (node_page_number l) (child_ids par)"
    and pg2: "same_pager co_room pg1 pg2" "\<forall>j. j \<noteq> node_page_number par \<longrightarrow> disk_of cf_data pg2 j = disk_of cf_data pg1 j"
  shows "tree_on pg2 (with_halves par' cs i l r)" "distinct (tree_pages (with_halves par' cs i l r))"
    "set (tree_pages (with_halves par' cs i l r)) = insert (node_page_number l) (set (tree_pages (Inner_page par cs)))"
proof -
  let ?l = "node_page_number l" and ?n = "node_page_number node"
  let ?a = "concat (map tree_pages (take i cs))" and ?b = "concat (map tree_pages (drop (Suc i) cs))"
  note P = parts [unfolded leaf_parts_def] and F = frame [unfolded split_frame_def]
  have old: "tree_pages (Inner_page par cs) = (node_page_number par # ?a) @ [?n] @ ?b"
    using child_pages(1) [OF i, of par] by (simp add: leaf)
  have new: "tree_pages (with_halves par' cs i l r) = (node_page_number par # ?a) @ [?l, ?n] @ ?b"
    using P par'(3) by (simp add: with_halves_def)
  show "distinct (tree_pages (with_halves par' cs i l r))" using d fresh(1) unfolding old new by auto
  show "set (tree_pages (with_halves par' cs i l r)) = insert ?l (set (tree_pages (Inner_page par cs)))"
    unfolding old new by auto
  have ne: "node_page_number par \<noteq> ?n" "node_page_number par \<noteq> ?l" "node_page_number par \<notin> set ?a \<union> set ?b"
    "?n \<notin> set ?a \<union> set ?b" "?l \<notin> set ?a \<union> set ?b" "1 \<notin> set ?a \<union> set ?b"
    using d fresh unfolding old by auto
  have same: "same_pager co_room pg pg2" using same_pager_trans [OF _ pg2(1)] F by blast
  have disk: "disk_of cf_data pg2 j = disk_of cf_data pg j" if "j \<in> set ?a \<union> set ?b" for j
  proof -
    have "j \<notin> {1, ?n, ?l}" "j \<noteq> node_page_number par" using that ne by auto
    then show ?thesis using F pg2(2) by simp
  qed
  have other: "tree_on pg2 x" if x: "x \<in> set (take i cs) \<union> set (drop (Suc i) cs)" for x
  proof (rule tree_on_other [OF _ same])
    have "x \<in> set cs" using x by (meson UnE in_set_takeD in_set_dropD)
    then show "tree_on pg x" using on by simp
    have "set (tree_pages x) \<subseteq> set ?a \<union> set ?b" using x by auto
    then show "\<forall>j \<in> set (tree_pages x). disk_of cf_data pg2 j = disk_of cf_data pg j" using disk by blast
  qed
  have lr: "node_on pg2 l" "node_on pg2 r"
    using node_on_other [OF _ pg2(1)] pg2(2) P ne(1,2) by simp_all
  have ids: "map (node_page_number \<circ> tree_root) cs = child_ids par" using on by simp
  have split: "cs = take i cs @ Leaf_page node # drop (Suc i) cs" using id_take_nth_drop [OF i] leaf by simp
  have "insert_at i ?l (map (node_page_number \<circ> tree_root) cs) =
      map (node_page_number \<circ> tree_root) (take i cs @ [Leaf_page l, Leaf_page r] @ drop (Suc i) cs)"
  proof -
    have t: "take i (map (node_page_number \<circ> tree_root) cs) = map (node_page_number \<circ> tree_root) (take i cs)"
      by (simp add: take_map)
    have dr: "drop i (map (node_page_number \<circ> tree_root) cs) = ?n # map (node_page_number \<circ> tree_root) (drop (Suc i) cs)"
      using Cons_nth_drop_Suc [OF i] leaf by (metis (no_types, lifting) comp_apply drop_map list.map(2) tree_root.simps(1))
    show ?thesis unfolding insert_at_def t dr using P by simp
  qed
  then have "map (node_page_number \<circ> tree_root) (take i cs @ [Leaf_page l, Leaf_page r] @ drop (Suc i) cs) = child_ids par'"
    unfolding par'(4) ids [symmetric] by simp
  then show "tree_on pg2 (with_halves par' cs i l r)"
    using par'(1,2) lr P other by (auto simp: with_halves_def)
qed

section \<open>The round of the parent\<close>

lemma insert_round_parent:
  assumes ready: "pager_ready pg" and inner: "inner_node par" and on: "node_on pg par" and view: "view_for pg nv"
    and w: "can_write co_room pg (node_page_number par)" and room: "leaf_room par (ser_write_32bit_le (sp_left_page_id sr))"
    and new: "sk \<notin> set (node_key_list par)"
    and pop: "cursor_pop c = (BTREE_OK, Some crumb, c1)" "cb_page_id crumb = node_page_number par"
  defines "i \<equiv> key_place (node_key_list par) sk"
  shows "\<exists>pg' par'. insert_round c pg nv sk Left_page_id 4 sr = Some (Stop pg') \<and>
    pager_ready pg' \<and> inner_node par' \<and> node_on pg' par' \<and> node_page_number par' = node_page_number par \<and>
    node_key_list par' = insert_at i sk (node_key_list par) \<and>
    child_ids par' = insert_at i (sp_left_page_id sr) (child_ids par) \<and>
    same_pager co_room pg pg' \<and> (\<forall>j. j \<noteq> node_page_number par \<longrightarrow> disk_of cf_data pg' j = disk_of cf_data pg j)"
proof -
  have sorted: "sorted_node par" using inner by (simp add: inner_node_def)
  obtain a where rd: "noderc_reinit_read pg nv (node_page_number par) = Some (BTREE_OK, pg\<lparr>pgr_cache := a\<rparr>, par)"
    and ready': "pager_ready (pg\<lparr>pgr_cache := a\<rparr>)"
    using reinit_sorted [OF ready on sorted view] by blast
  let ?pg = "pg\<lparr>pgr_cache := a\<rparr>"
  have on': "node_on ?pg par" and w': "can_write co_room ?pg (node_page_number par)"
    using on w by (simp_all add: can_write_def dps_def)
  obtain pg' par' where W: "btree_node_write par ?pg sk (ser_write_32bit_le (sp_left_page_id sr)) 4 = Some (BTREE_OK, pg', par')"
    "pager_ready pg'" "inner_node par'" "node_on pg' par'" "node_page_number par' = node_page_number par"
    "node_key_list par' = insert_at i sk (node_key_list par)"
    "child_ids par' = insert_at i (sp_left_page_id sr) (child_ids par)" "same_pager co_room ?pg pg'"
    "\<forall>j. j \<noteq> node_page_number par \<longrightarrow> disk_of cf_data pg' j = disk_of cf_data ?pg j"
    using parent_gets_child [OF ready' inner on' w' room new, folded i_def] by blast
  have "insert_round c pg nv sk Left_page_id 4 sr = Some (Stop pg')"
    using pop rd W(1) by (simp add: insert_round_def insert_bytes_def)
  moreover have "same_pager co_room pg pg'" using W(8) by (simp add: same_pager_def)
  ultimately show ?thesis using W by (intro exI [of _ pg'] exI [of _ par']) simp
qed

section \<open>The insertion\<close>

text \<open>The node above the leaf for a key.\<close>

definition tree_parent :: "page_tree \<Rightarrow> u32 \<Rightarrow> btree_node" where
  "tree_parent t key = tree_root (subtree_at (path_length t key - 1) t key)"

lemma parent_of_leaf:
  assumes on: "tree_on pg t" and ord: "tree_ordered t" and d: "distinct (tree_pages t)" and deep: "tree_height t \<noteq> 0"
  obtains m cs where "path_length t key = Suc m" "subtree_at m t key = Inner_page (tree_parent t key) cs"
    "key_place (node_key_list (tree_parent t key)) key < length cs"
    "cs ! key_place (node_key_list (tree_parent t key)) key = Leaf_page (tree_leaf t key)"
    "node_page_number (tree_leaf t key) \<noteq> node_page_number (tree_root t)"
proof -
  obtain node0 cs0 where t: "t = Inner_page node0 cs0" using deep by (cases t) simp_all
  let ?j = "key_place (node_key_list node0) key"
  have j: "?j < length cs0" using place_in_children ord t by blast
  then obtain m where m: "path_length t key = Suc m" by (simp add: t Let_def)
  have sub: "tree_on pg (subtree_at m t key)" "tree_ordered (subtree_at m t key)" "path_length (subtree_at m t key) key = Suc 0"
    "tree_leaf (subtree_at m t key) key = tree_leaf t key"
    using subtree_facts [OF on ord d, of m key] m by simp_all
  obtain par cs where s: "subtree_at m t key = Inner_page par cs" using sub(3) by (cases "subtree_at m t key") simp_all
  have par: "tree_parent t key = par" by (simp add: tree_parent_def m s)
  let ?i = "key_place (node_key_list par) key"
  have i: "?i < length cs" by (rule place_in_children [OF sub(2) [unfolded s]])
  have c: "tree_ordered (cs ! ?i)" "path_length (cs ! ?i) key = 0" "tree_leaf (cs ! ?i) key = tree_leaf t key"
    using sub(2-4) i s by (simp_all add: Let_def)
  have leaf: "cs ! ?i = Leaf_page (tree_leaf t key)" using path_end [OF c(1), of key] c(2,3) by simp
  have "tree_on pg (cs0 ! ?j)" "tree_ordered (cs0 ! ?j)" using on ord j t by simp_all
  from leaf_page_in_tree [OF this, of key] have "node_page_number (tree_leaf t key) \<in> set (tree_pages (cs0 ! ?j))"
    using j by (simp add: t Let_def)
  then have "node_page_number (tree_leaf t key) \<noteq> node_page_number node0" using d nth_mem [OF j] by (auto simp: t)
  then show thesis using that m s i leaf par t by simp
qed

text \<open>What the tree has after the insertion; the entries of the leaf up to the middle key are lost if the key finds no room.\<close>

definition content_after_split :: "bool \<Rightarrow> page_tree \<Rightarrow> u32 \<Rightarrow> bytes \<Rightarrow> u32 \<rightharpoonup> bytes" where
  "content_after_split room t key payload =
     (if room then (map_of (tree_items t))(key \<mapsto> payload)
      else (\<lambda>k. if k \<in> set (node_key_list (tree_leaf t key)) \<and> k \<le> split_key (tree_leaf t key) then None
                else map_of (tree_items t) k))"

end
