(* ===== verification/TreeGrow.thy ===== *)
theory TreeGrow
  imports DeepInsert
begin

text \<open>Inserting a key into a table tree whose leaf for it is full and is not the root.\<close>

text \<open>Room for the cell of another child: the four bytes of a page number.\<close>

definition child_room :: "btree_node \<Rightarrow> bool" where
  "child_room node \<longleftrightarrow> 20 \<le> n_free node \<and> 20 \<le> unat (btree_node_max_cell_size node) \<and> n_keys node < 255"

lemma tree_pages_allocated: "tree_on pg t \<Longrightarrow> j \<in> set (tree_pages t) \<Longrightarrow> j \<le> pgr_max_page pg"
  by (induction t) (auto dest: on_disk_allocated)

lemma insert_splits_leaf_run:
  assumes tree: "table_tree_on tree pg t" and stock: "pager_stock pg ys (Suc n)"
    and pages: "1 \<notin> set (tree_pages t)" "set ys \<inter> set (tree_pages t) = {}" and deep: "tree_height t \<noteq> 0"
    and full: "full_leaf (tree_leaf t key) payload" and keys: "1 < n_keys (tree_leaf t key)"
    and room: "child_room (tree_parent t key)"
    and new: "map_of (tree_items t) key = None"
    and small: "\<forall>k \<in> insert key (set (node_key_list (tree_leaf t key))). k < 2147483648"
  shows "\<exists>pg' t'. btree_insert tree pg key payload (of_nat (length payload)) = Some (BTREE_OK, pg') \<and>
    table_tree_on tree pg' t' \<and> tree_height t' = tree_height t \<and>
    map_of (tree_items t') = content_after_split (half_room pg (split_half (tree_leaf t key) key) payload) t key payload \<and>
    (\<forall>j. j \<notin> {1, node_page_number (tree_leaf t key), node_page_number (tree_parent t key)} \<union> set ys \<longrightarrow>
      j \<le> pgr_max_page pg \<longrightarrow> disk_of cf_data pg' j = disk_of cf_data pg j)"
proof -
  let ?leaf = "tree_leaf t key" and ?par = "tree_parent t key" and ?pc = "path_cursor (cursor_create tree) t key"
  let ?room = "half_room pg (split_half ?leaf key) payload" and ?sk = "split_key ?leaf"
  have T: "tr_root_page_id tree = node_page_number (tree_root t)" "pager_ready pg" "tree_on pg t" "tree_ordered t"
    "distinct (tree_pages t)" "tree_height t < 7"
    using tree by (simp_all add: table_tree_on_def)
  obtain m cs where P: "path_length t key = Suc m" "subtree_at m t key = Inner_page ?par cs"
    "key_place (node_key_list ?par) key < length cs" "cs ! key_place (node_key_list ?par) key = Leaf_page ?leaf"
    "node_page_number ?leaf \<noteq> node_page_number (tree_root t)"
    using parent_of_leaf [OF T(3-5) deep] .
  define i where "i = key_place (node_key_list ?par) key"
  have ci: "i < length cs" "cs ! i = Leaf_page ?leaf" using P(3,4) by (simp_all add: i_def)
  have sub: "tree_on pg (Inner_page ?par cs)" "tree_ordered (Inner_page ?par cs)" "distinct (tree_pages (Inner_page ?par cs))"
    "set (tree_pages (Inner_page ?par cs)) \<subseteq> set (tree_pages t)"
    using subtree_facts [OF T(3-5), of m key] P(1,2) by (simp_all del: tree_pages.simps tree_on.simps tree_ordered.simps)
  have par: "inner_node ?par" "node_on pg ?par" using sub(1) by simp_all
  have L: "leaf_node ?leaf" "node_on pg ?leaf" "map_of (tree_items t) key = node_lookup ?leaf key"
    using tree_leaf_found [OF T(3,4), of key] by (simp_all add: found_at_def)
  have mem: "node_page_number ?leaf \<in> set (tree_pages (Inner_page ?par cs))" "node_page_number ?par \<in> set (tree_pages (Inner_page ?par cs))"
    using nth_mem [OF ci(1)] ci(2) by (auto intro!: bexI [of _ "cs ! i"])
  have page: "node_page_number ?leaf \<notin> set ys" "node_page_number ?leaf \<noteq> 1" "node_page_number ?par \<notin> set ys" "node_page_number ?par \<noteq> 1"
    using mem sub(4) pages by auto
  have pos: "0 < n_keys ?leaf" using keys by simp
  have small': "key < 2147483648" "?sk < 2147483648" using small split_key_member [OF pos] by simp_all
  have new': "node_lookup ?leaf key = None" using new L(3) by simp
  obtain a where tr: "cursor_traverse_to (cursor_create tree) pg key = Some (BTREE_OK, key \<in> tree_keys t, ?pc, pg\<lparr>pgr_cache := a\<rparr>)"
    and r1: "pager_ready (pg\<lparr>pgr_cache := a\<rparr>)"
    using traverse_to_tree [OF tree] by blast
  obtain nv where nv: "noderc_acquire pg = Some (BTREE_OK, nv)" "view_for pg nv"
    using acquire_view [OF T(2) L(2) leaf_facts(2) [OF L(1)]] by blast
  let ?pg = "pg\<lparr>pgr_cache := a\<rparr>"
  have room0: "half_room ?pg = half_room pg" by (simp add: fun_eq_iff half_room_def dps_def)
  have c0: "cur_page_id (cursor_create tree) = node_page_number (tree_root t)" "length (cur_breadcrumbs (cursor_create tree)) = 1"
    "cur_tree (cursor_create tree) = tree"
    using T(1) by (simp_all add: cursor_create_def cursor_create_ex_def cursor_push_def MAX_CRUMBS_def)
  obtain crumbs ix where B: "cur_breadcrumbs ?pc = crumbs @ [\<lparr>cb_key_index = ix, cb_page_id = node_page_number ?par\<rparr>,
      \<lparr>cb_key_index = leaf_index ?leaf key, cb_page_id = node_page_number ?leaf\<rparr>]" "length crumbs \<le> 1 + tree_height t"
    using path_crumbs [OF T(3,4) c0(1) P(1)] P(2) c0(2) by auto
  have ct: "cur_tree ?pc = tree" using path_cursor_facts [OF T(3,4) c0(1), of key] c0(3) by simp
  let ?crumb = "\<lparr>cb_key_index = ix, cb_page_id = node_page_number ?par\<rparr>"
  let ?crumb' = "?crumb\<lparr>cb_key_index := (cb_key_index ?crumb)\<lparr>cli_mode := KLIM_INDEX\<rparr>\<rparr>"
  have pop: "cursor_pop ?pc = (BTREE_OK, Some \<lparr>cb_key_index = leaf_index ?leaf key, cb_page_id = node_page_number ?leaf\<rparr>,
      at_crumbs ?pc (crumbs @ [?crumb]))"
    by (rule pop_snoc) (simp add: B(1))
  have pop2: "cursor_pop (at_crumbs ?pc (crumbs @ [?crumb])) = (BTREE_OK, Some ?crumb, at_crumbs ?pc crumbs)"
    using pop_snoc [of "at_crumbs ?pc (crumbs @ [?crumb])" crumbs ?crumb] by simp
  have push: "cursor_push_crumb (at_crumbs ?pc crumbs) ?crumb' = (BTREE_OK, at_crumbs ?pc (crumbs @ [?crumb']))"
    by (rule push_crumb_snoc) (use B(2) T(6) in \<open>simp add: MAX_CRUMBS_def\<close>)
  have root: "node_page_number ?leaf \<noteq> tr_root_page_id (cur_tree (at_crumbs ?pc (crumbs @ [?crumb])))"
    using P(5) T(1) ct by simp
  have viewp: "view_for ?pg nv" and onp: "node_on ?pg ?leaf" using nv(2) L(2) by simp_all
  let ?sr = "\<lparr>sp_left_page_id = 0, sp_left_page_high_key = 0\<rparr>"
  obtain pg1 l r nv' where R: "insert_round ?pc ?pg nv key (Caller_data payload) (of_nat (length payload)) ?sr =
      Some (if ?room then Go_on (at_crumbs ?pc (crumbs @ [?crumb']), pg1, nv', ?sk,
          \<lparr>sp_left_page_id = node_page_number l, sp_left_page_high_key = ?sk\<rparr>)
        else Stop pg1)"
    "leaf_parts pg1 ?leaf l r" "split_frame ?pg pg1 ys (node_page_number ?leaf) (node_page_number l)"
    "pager_stock pg1 (tl ys) n" "view_for pg1 nv'" "node_lookup r ++ node_lookup l =
      (if ?room then (node_lookup ?leaf)(key \<mapsto> payload) else node_lookup ?leaf)"
    using insert_round_leaf [OF pager_stock_cache [OF stock r1] L(1) onp page(1,2) keys full new' small' pop _ root viewp pop2 push,
        unfolded room0, of ?sr]
    by auto
  have frame: "split_frame pg pg1 ys (node_page_number ?leaf) (node_page_number l)"
    using R(3) by (simp add: split_frame_def same_pager_def)
  note F = frame [unfolded split_frame_def]
  have ready1: "pager_ready pg1" using R(4) by (simp add: pager_stock_def)
  have fresh: "node_page_number l \<notin> set (tree_pages t)"
    using F tree_pages_allocated [OF T(3)] pages(2) by (meson disjoint_iff leD)
  have disk1: "disk_of cf_data pg1 j = disk_of cf_data pg j" if "j \<in> set (tree_pages t)" "j \<noteq> node_page_number ?leaf" for j
    using F that pages(1) fresh by (metis empty_iff insert_iff)
  have other: "disk_of cf_data pg1 j = disk_of cf_data pg j"
    if "j \<notin> {1, node_page_number ?leaf, node_page_number ?par} \<union> set ys" "j \<le> pgr_max_page pg" for j
    using F that by (metis UnCI empty_iff insert_iff leD)
  show ?thesis
  proof (cases ?room)
    case False
    have "insert_loop ?pc ?pg nv key (Caller_data payload) (of_nat (length payload)) ?sr = Some pg1"
      using R(1) False by (subst insert_loop.simps) simp
    then have run: "btree_insert tree pg key payload (of_nat (length payload)) = Some (BTREE_OK, pg1)"
      using nv(1) tr by (simp add: btree_insert_def)
    have s: "subtree_at (Suc m) t key = Leaf_page ?leaf" using path_end [OF T(4), of key] P(1) by simp
    have look: "node_lookup r ++ node_lookup l = node_lookup ?leaf" using R(6) False by simp
    note O = takes_over_half [OF keys R(2) look, of key, folded s]
    have rest: "rest_pages (Suc m) t key = set (tree_pages t) - {node_page_number ?leaf}" by (simp only: rest_pages_def s) simp
    have num: "node_page_number r = node_page_number ?leaf" and on: "tree_on pg1 (Leaf_page r)"
      using R(2) by (simp_all add: leaf_parts_def)
    let ?t = "with_subtree (Suc m) t key (Leaf_page r)"
    have t': "table_tree_on tree pg1 ?t" "tree_height ?t = tree_height t"
      "map_of (tree_items ?t) = override_on (map_of (tree_items t)) (\<lambda>_. None) {k \<in> dom (node_lookup ?leaf). k \<le> ?sk}"
      using with_subtree_table [OF tree _ O on _ _ _ ready1] P(1) rest num disk1 F by simp_all
    have "map_of (tree_items ?t) = content_after_split ?room t key payload"
      unfolding t'(3) content_after_split_def lookup_dom using False by (auto simp: override_on_def)
    then show ?thesis using run t'(1,2) other by (intro exI [of _ pg1] exI [of _ ?t]) simp
  next
    case True
    have look: "node_lookup r ++ node_lookup l = (node_lookup ?leaf)(key \<mapsto> payload)" using R(6) True by simp
    note O = takes_over_parent [OF sub(1,2) P(4) keys R(2) look, folded i_def]
    have ne: "node_page_number ?par \<noteq> node_page_number ?leaf" using sub(3) nth_mem [OF ci(1)] ci(2) by force
    have par1: "node_on pg1 ?par" using node_on_other [OF par(2)] F disk1 mem(2) sub(4) ne by blast
    let ?sr1 = "\<lparr>sp_left_page_id = node_page_number l, sp_left_page_high_key = ?sk\<rparr>"
    have croom: "leaf_room ?par (ser_write_32bit_le (sp_left_page_id ?sr1))" using room by (simp add: child_room_def leaf_room_def)
    have pop3: "cursor_pop (at_crumbs ?pc (crumbs @ [?crumb'])) = (BTREE_OK, Some ?crumb', at_crumbs ?pc crumbs)"
      using pop_snoc [of "at_crumbs ?pc (crumbs @ [?crumb'])" crumbs ?crumb'] by simp
    obtain pg2 par' where R2: "insert_round (at_crumbs ?pc (crumbs @ [?crumb'])) pg1 nv' ?sk Left_page_id 4 ?sr1 = Some (Stop pg2)"
      "pager_ready pg2" "inner_node par'" "node_on pg2 par'" "node_page_number par' = node_page_number ?par"
      "node_key_list par' = insert_at i ?sk (node_key_list ?par)" "child_ids par' = insert_at i (node_page_number l) (child_ids ?par)"
      "same_pager co_room pg1 pg2" "\<forall>j. j \<noteq> node_page_number ?par \<longrightarrow> disk_of cf_data pg2 j = disk_of cf_data pg1 j"
      using insert_round_parent [OF ready1 par(1) par1 R(5) stock_can_write [OF R(4) par1] croom O(1) pop3]
      unfolding O(2) by auto
    have "insert_loop (at_crumbs ?pc (crumbs @ [?crumb'])) pg1 nv' ?sk Left_page_id 4 ?sr1 = Some pg2"
      using R2(1) by (subst insert_loop.simps) simp
    then have "insert_loop ?pc ?pg nv key (Caller_data payload) (of_nat (length payload)) ?sr = Some pg2"
      using R(1) True by (subst insert_loop.simps) simp
    then have run: "btree_insert tree pg key payload (of_nat (length payload)) = Some (BTREE_OK, pg2)"
      using nv(1) tr by (simp add: btree_insert_def)
    let ?s = "with_halves par' cs i l r"
    have out: "node_page_number l \<notin> set (tree_pages (Inner_page ?par cs))" "1 \<notin> set (tree_pages (Inner_page ?par cs))"
      using fresh pages(1) sub(4) by blast+
    note H = halves_on [OF sub(1,3) ci R(2) frame out R2(3-5,7-9)]
    have same: "same_pager co_room pg pg2" using same_pager_trans [OF _ R2(8)] F by blast
    have "set (tree_pages ?s) \<inter> rest_pages m t key = {}" unfolding rest_pages_def P(2) H(3) using fresh by auto
    moreover have "\<forall>j \<in> rest_pages m t key. disk_of cf_data pg2 j = disk_of cf_data pg j"
      using R2(9) disk1 mem unfolding rest_pages_def P(2) by (metis DiffE)
    ultimately have t': "table_tree_on tree pg2 (with_subtree m t key ?s)" "tree_height (with_subtree m t key ?s) = tree_height t"
      "map_of (tree_items (with_subtree m t key ?s)) = override_on (map_of (tree_items t)) (\<lambda>_. Some payload) {key}"
      using with_subtree_table [OF tree _ O(3) [OF R2(5,6), folded P(2)] H(1,2) _ same R2(2)] P(1) by simp_all
    have "map_of (tree_items (with_subtree m t key ?s)) = content_after_split ?room t key payload"
      unfolding t'(3) content_after_split_def using True by (auto simp: override_on_def)
    then show ?thesis using run t'(1,2) other R2(9) by (intro exI [of _ pg2] exI [of _ "with_subtree m t key ?s"]) simp
  qed
qed

text \<open>
  C3: inserting a new key into a table tree whose leaf for the key is full and is not the root splits that
  leaf and enters the new page in the parent, which has room for it.  The tree keeps its height and gets
  the entry.  But if the half of the leaf has no room for the payload, the key is lost, and with it all
  entries of the leaf up to its middle key, because the parent never hears of their new page; the function
  still returns \<open>BTREE_OK\<close>.  No other page in use changes.  The keys of the leaf and the new one are below
  \<open>2 ^ 31\<close>, since the side of the new key is decided by a signed comparison.
\<close>

theorem btree_insert_splits_leaf:
  assumes "table_tree_on tree pg t" and "pager_stock pg ys 1"
    and "1 \<notin> set (tree_pages t)" and "set ys \<inter> set (tree_pages t) = {}" and "tree_height t \<noteq> 0"
    and "full_leaf (tree_leaf t key) payload" and "1 < n_keys (tree_leaf t key)" and "child_room (tree_parent t key)"
    and "map_of (tree_items t) key = None"
    and "\<forall>k \<in> insert key (set (node_key_list (tree_leaf t key))). k < 2147483648"
  shows "\<exists>pg' t'. btree_insert tree pg key payload (of_nat (length payload)) = Some (BTREE_OK, pg') \<and>
    table_tree_on tree pg' t' \<and> tree_height t' = tree_height t \<and>
    map_of (tree_items t') = content_after_split (half_room pg (split_half (tree_leaf t key) key) payload) t key payload \<and>
    (\<forall>j. j \<notin> {1, node_page_number (tree_leaf t key), node_page_number (tree_parent t key)} \<union> set ys \<longrightarrow>
      j \<le> pgr_max_page pg \<longrightarrow> disk_of cf_data pg' j = disk_of cf_data pg j)"
  by (rule insert_splits_leaf_run [OF assms(1) assms(2) [unfolded One_nat_def] assms(3-10)])

end
