(* ===== verification/TreePut.thy ===== *)
theory TreePut
  imports TreePath
begin

text \<open>Inserting into a table tree of any height whose leaf for the key has room.\<close>

text \<open>The leaf is replaced by one on the same page that has one more key.\<close>

lemma takes_over_grown:
  assumes "node_page_number leaf' = node_page_number leaf" and "node_lookup leaf' = (node_lookup leaf)(key \<mapsto> payload)"
  shows "takes_over key {key} (\<lambda>_. Some payload) (Leaf_page leaf) (Leaf_page leaf')"
proof -
  have look: "map_of (tree_items (Leaf_page leaf')) = (map_of (tree_items (Leaf_page leaf)))(key \<mapsto> payload)"
    using assms(2) by (simp add: node_lookup_items)
  then have "tree_keys (Leaf_page leaf') = insert key (tree_keys (Leaf_page leaf))" unfolding tree_keys_dom by simp
  then show ?thesis
    using assms(1) look unfolding takes_over_def by (simp add: fun_eq_iff override_on_def)
qed

lemma cursor_pop_path:
  assumes "table_tree_on tree pg t"
  shows "\<exists>c'. cursor_pop (path_cursor (cursor_create tree) t key) = (BTREE_OK,
    Some \<lparr>cb_key_index = leaf_index (tree_leaf t key) key, cb_page_id = node_page_number (tree_leaf t key)\<rparr>, c')"
proof -
  have "cur_page_id (cursor_create tree) = node_page_number (tree_root t)"
    using assms by (simp add: table_tree_on_def cursor_create_def cursor_create_ex_def cursor_push_def MAX_CRUMBS_def)
  then obtain crumbs where "cur_breadcrumbs (path_cursor (cursor_create tree) t key) = crumbs @
       [\<lparr>cb_key_index = leaf_index (tree_leaf t key) key, cb_page_id = node_page_number (tree_leaf t key)\<rparr>]"
    using path_cursor_facts [of pg t "cursor_create tree" key] assms by (auto simp: table_tree_on_def)
  then show ?thesis using pop_snoc by blast
qed

lemma insert_tree_run:
  assumes tree: "table_tree_on tree pg t" and room: "leaf_room (tree_leaf t key) payload"
    and new: "map_of (tree_items t) key = None" and w: "can_write co_room pg (node_page_number (tree_leaf t key))"
  shows "\<exists>pg' t'. btree_insert tree pg key payload (of_nat (length payload)) = Some (BTREE_OK, pg') \<and>
    table_tree_on tree pg' t' \<and> map_of (tree_items t') = (map_of (tree_items t))(key \<mapsto> payload) \<and>
    tree_pages t' = tree_pages t \<and> tree_height t' = tree_height t \<and>
    (\<forall>j. j \<noteq> node_page_number (tree_leaf t key) \<longrightarrow> disk_of cf_data pg' j = disk_of cf_data pg j)"
proof -
  let ?leaf = "tree_leaf t key" and ?pc = "path_cursor (cursor_create tree) t key"
  have T: "tr_type tree = BTREE_TBL" "tr_fns tree = btree_fns" "tr_root_page_id tree = node_page_number (tree_root t)"
    "pager_ready pg" "tree_on pg t" "tree_ordered t" "distinct (tree_pages t)" "tree_height t < 7"
    using tree by (simp_all add: table_tree_on_def)
  have L: "leaf_node ?leaf" "node_on pg ?leaf" "map_of (tree_items t) key = node_lookup ?leaf key"
    using tree_leaf_found [OF T(5,6), of key] by (simp_all add: found_at_def)
  note F = leaf_facts [OF L(1)]
  have "keys_ascending (node_key_list ?leaf)" using L(1) by (simp add: leaf_node_def)
  then have new': "key \<notin> set (node_key_list ?leaf)"
    using new L(3) by (simp add: node_lookup_place split: if_splits)
  obtain a where tr: "cursor_traverse_to (cursor_create tree) pg key = Some (BTREE_OK, key \<in> tree_keys t, ?pc, pg\<lparr>pgr_cache := a\<rparr>)"
    and r1: "pager_ready (pg\<lparr>pgr_cache := a\<rparr>)"
    using traverse_to_tree [OF tree] by blast
  obtain nv where nv: "noderc_acquire pg = Some (BTREE_OK, nv)" "view_for pg nv"
    using acquire_view [OF T(4) L(2) F(2)] by blast
  obtain b where rd: "noderc_reinit_read (pg\<lparr>pgr_cache := a\<rparr>) nv (node_page_number ?leaf) =
      Some (BTREE_OK, pg\<lparr>pgr_cache := b\<rparr>, ?leaf)" and r2: "pager_ready (pg\<lparr>pgr_cache := b\<rparr>)"
    using reinit_leaf [of "pg\<lparr>pgr_cache := a\<rparr>" ?leaf nv] r1 L nv(2) by auto
  let ?pg = "pg\<lparr>pgr_cache := b\<rparr>" and ?nd = "stored (leaf_inserted ?leaf key payload)"
  have len: "length (node_mem ?leaf) = dps ?pg" using node_on_length [OF T(4) L(2)] by (simp add: dps_def)
  have sz: "page_size (node_page ?leaf) = pgr_page_size ?pg" using L(2) by (simp add: node_on_def)
  have w': "can_write co_room ?pg (node_page_number ?leaf)" using w by (simp add: can_write_def dps_def)
  obtain pg' where W: "btree_node_write ?leaf ?pg key payload (of_nat (length payload)) = Some (BTREE_OK, pg', ?nd)"
    "pager_ready pg'" "node_on pg' ?nd"
    "disk_of cf_data pg' = (disk_of cf_data ?pg)(node_page_number ?leaf \<mapsto> node_mem ?nd)" "same_pager co_room ?pg pg'"
    using node_write_leaf [OF r2 L(1) room new' w' len sz] by blast
  note I = leaf_inserted_facts [OF L(1) room new'] and S = stored_facts [OF leaf_inserted_facts(1) [OF L(1) room new']]
  have leaf': "leaf_node ?nd" and num: "node_page_number ?nd = node_page_number ?leaf"
    and look: "node_lookup ?nd = (node_lookup ?leaf)(key \<mapsto> payload)"
    using I(2,8) S(1,3,8) by simp_all
  have disk: "\<forall>j. j \<noteq> node_page_number ?leaf \<longrightarrow> disk_of cf_data pg' j = disk_of cf_data pg j"
    using W(4) by simp
  have same: "same_pager co_room pg pg'" using W(5) by (simp add: same_pager_def)
  let ?n = "path_length t key" and ?s = "Leaf_page ?nd"
  let ?t = "with_subtree ?n t key ?s"
  have sub: "subtree_at ?n t key = Leaf_page ?leaf" by (rule path_end [OF T(6)])
  have pages: "tree_pages ?t = tree_pages t" by (rule with_subtree_same_pages [OF T(6)]) (simp_all add: sub num)
  have rest: "node_page_number ?leaf \<notin> rest_pages ?n t key" by (simp add: rest_pages_def sub)
  have on: "tree_on pg' ?s" using W(3) leaf' by simp
  have out: "set (tree_pages ?s) \<inter> rest_pages ?n t key = {}" "distinct (tree_pages ?s)" using rest num by simp_all
  have kept: "\<forall>j \<in> rest_pages ?n t key. disk_of cf_data pg' j = disk_of cf_data pg j" using rest disk by metis
  note O = with_subtree_table [OF tree order_refl takes_over_grown [OF num look, folded sub] on out(2,1) same W(2) kept]
  have content: "map_of (tree_items ?t) = (map_of (tree_items t))(key \<mapsto> payload)"
    unfolding O(3) by (simp add: fun_eq_iff override_on_def)
  obtain c' where pop: "cursor_pop ?pc = (BTREE_OK,
      Some \<lparr>cb_key_index = leaf_index ?leaf key, cb_page_id = node_page_number ?leaf\<rparr>, c')"
    using cursor_pop_path [OF tree] by blast
  have "insert_round ?pc (pg\<lparr>pgr_cache := a\<rparr>) nv key (Caller_data payload) (of_nat (length payload)) sr = Some (Stop pg')" for sr
    using pop rd W(1) by (simp add: insert_round_def insert_bytes_def)
  then have "insert_loop ?pc (pg\<lparr>pgr_cache := a\<rparr>) nv key (Caller_data payload) (of_nat (length payload)) sr = Some pg'" for sr
    by (subst insert_loop.simps) simp
  then have "btree_insert tree pg key payload (of_nat (length payload)) = Some (BTREE_OK, pg')"
    using nv(1) tr by (simp add: btree_insert_def)
  then show ?thesis
    using O(1,2) content pages disk by (intro exI [of _ pg'] exI [of _ ?t]) simp
qed

text \<open>
  C1: inserting a new key into a table tree of any height, whose leaf for that key has room, adds it to
  the content of the tree; the pages of the tree stay the same, and only the leaf's page changes.
\<close>

theorem btree_insert_tree:
  assumes "table_tree_on tree pg t" and "leaf_room (tree_leaf t key) payload"
    and "map_of (tree_items t) key = None" and "can_write co_room pg (node_page_number (tree_leaf t key))"
  shows "\<exists>pg' t'. btree_insert tree pg key payload (of_nat (length payload)) = Some (BTREE_OK, pg') \<and>
    table_tree_on tree pg' t' \<and> map_of (tree_items t') = (map_of (tree_items t))(key \<mapsto> payload) \<and>
    tree_pages t' = tree_pages t \<and> tree_height t' = tree_height t \<and>
    (\<forall>j. j \<noteq> node_page_number (tree_leaf t key) \<longrightarrow> disk_of cf_data pg' j = disk_of cf_data pg j)"
  by (rule insert_tree_run [OF assms])

end
