(* ===== verification/TreeIter.thy ===== *)
theory TreeIter
  imports TreeSelect
begin

text \<open>
  Iterating over a table tree: the breadcrumbs of a cursor are a position in the tree, and a step of the
  cursor goes to the next entry.
\<close>

section \<open>Positions\<close>

text \<open>
  A position is the list of the indices of the children from the root on, and of the cell in the leaf.
  Every page but a root leaf has a key.
\<close>

fun filled_tree :: "page_tree \<Rightarrow> bool" where
  "filled_tree (Leaf_page node) \<longleftrightarrow> 0 < n_keys node"
| "filled_tree (Inner_page node cs) \<longleftrightarrow> 0 < n_keys node \<and> (\<forall>c \<in> set cs. filled_tree c)"

primrec position_in :: "nat list \<Rightarrow> page_tree \<Rightarrow> bool" where
  "position_in [] t \<longleftrightarrow> False"
| "position_in (i # is) t \<longleftrightarrow>
     (case t of Leaf_page node \<Rightarrow> i < n_keys node \<and> is = []
      | Inner_page node cs \<Rightarrow> i < length cs \<and> position_in is (cs ! i))"

text \<open>The entries from a position on.\<close>

primrec items_from :: "nat list \<Rightarrow> page_tree \<Rightarrow> (u32 \<times> bytes) list" where
  "items_from [] t = []"
| "items_from (i # is) t =
     (case t of Leaf_page node \<Rightarrow> drop i (node_items node)
      | Inner_page node cs \<Rightarrow> items_from is (cs ! i) @ concat (map tree_items (drop (Suc i) cs)))"

fun first_position :: "page_tree \<Rightarrow> nat list" where
  "first_position (Inner_page node (c # cs)) = 0 # first_position c"
| "first_position (Leaf_page node) = [0]"
| "first_position (Inner_page node []) = [0]"

primrec next_position :: "nat list \<Rightarrow> page_tree \<Rightarrow> nat list option" where
  "next_position [] t = None"
| "next_position (i # is) t =
     (case t of Leaf_page node \<Rightarrow> if Suc i < n_keys node then Some [Suc i] else None
      | Inner_page node cs \<Rightarrow>
          (case next_position is (cs ! i) of
             Some is' \<Rightarrow> Some (i # is')
           | None \<Rightarrow> if Suc i < length cs then Some (Suc i # first_position (cs ! Suc i)) else None))"

text \<open>The leaf of a position and the index in it.\<close>

primrec leaf_at :: "nat list \<Rightarrow> page_tree \<Rightarrow> btree_node \<times> nat" where
  "leaf_at [] t = (tree_root t, 0)"
| "leaf_at (i # is) t = (case t of Leaf_page node \<Rightarrow> (node, i) | Inner_page node cs \<Rightarrow> leaf_at is (cs ! i))"

lemma child_count: "tree_on pg (Inner_page node cs) \<Longrightarrow> length cs = n_keys node + 1"
  by (metis tree_on.simps(2) length_map length_child_ids)

lemma length_node_items [simp]: "length (node_items node) = n_keys node"
  by (simp add: node_items_def)

lemma first_position_in:
  assumes "tree_on pg t" and "filled_tree t"
  shows "position_in (first_position t) t \<and> items_from (first_position t) t = tree_items t"
  using assms
proof (induction t rule: first_position.induct)
  case (3 node)
  then show ?case using child_count [of pg node "[]"] by simp
qed auto

lemma items_from_position: "position_in is t \<Longrightarrow> items_from is t \<noteq> []"
  by (induction "is" arbitrary: t) (auto split: page_tree.splits)

lemma next_position_in:
  assumes "tree_on pg t" and "filled_tree t" and "position_in is t"
  shows "items_from is t \<noteq> [] \<and> (case next_position is t of
      None \<Rightarrow> tl (items_from is t) = []
    | Some is' \<Rightarrow> position_in is' t \<and> items_from is' t = tl (items_from is t))"
  using assms
proof (induction "is" arbitrary: t)
  case (Cons i "is")
  show ?case
  proof (cases t)
    case (Leaf_page node)
    then show ?thesis using Cons.prems by (auto simp: tl_drop drop_Suc)
  next
    case (Inner_page node cs)
    have i: "i < length cs" and child: "tree_on pg (cs ! i)" "filled_tree (cs ! i)" "position_in is (cs ! i)"
      using Cons.prems Inner_page by auto
    note IH = Cons.IH [OF child]
    show ?thesis
    proof (cases "next_position is (cs ! i)")
      case (Some is')
      then show ?thesis using IH i Inner_page by auto
    next
      case None
      then have last: "tl (items_from is (cs ! i)) = []" "items_from is (cs ! i) \<noteq> []" using IH by auto
      show ?thesis
      proof (cases "Suc i < length cs")
        case True
        then have "tree_on pg (cs ! Suc i)" "filled_tree (cs ! Suc i)" using Cons.prems Inner_page by auto
        note F = first_position_in [OF this]
        have "drop (Suc i) cs = cs ! Suc i # drop (Suc (Suc i)) cs" using True by (simp add: Cons_nth_drop_Suc)
        then show ?thesis using True F last None Inner_page by simp
      next
        case False
        then show ?thesis using last None Inner_page by simp
      qed
    qed
  qed
qed simp

lemma leaf_at_position:
  assumes "tree_on pg t" and "position_in is t" and "leaf_at is t = (leaf, j)"
  shows "leaf_node leaf \<and> node_on pg leaf \<and> j < n_keys leaf \<and> hd (items_from is t) = node_items leaf ! j"
  using assms
proof (induction "is" arbitrary: t)
  case (Cons i "is")
  show ?case
  proof (cases t)
    case (Leaf_page node)
    then show ?thesis using Cons.prems by (auto simp: hd_drop_conv_nth)
  next
    case (Inner_page node cs)
    have child: "tree_on pg (cs ! i)" "position_in is (cs ! i)" "leaf_at is (cs ! i) = (leaf, j)"
      using Cons.prems Inner_page by auto
    note IH = Cons.IH [OF this]
    have "items_from is (cs ! i) \<noteq> []" by (rule items_from_position [OF child(2)])
    then show ?thesis using IH Inner_page by simp
  qed
qed simp

section \<open>Breadcrumbs\<close>

definition page_crumb :: "page_tree \<Rightarrow> nat \<Rightarrow> cursor_breadcrumb" where
  "page_crumb t i = \<lparr>cb_key_index = \<lparr>cli_mode = (case t of Leaf_page node \<Rightarrow> KLIM_INDEX
       | Inner_page node cs \<Rightarrow> if i < n_keys node then KLIM_INDEX else KLIM_RIGHT_CHILD), cli_index = of_nat i\<rparr>,
     cb_page_id = node_page_number (tree_root t)\<rparr>"

primrec crumbs_of :: "nat list \<Rightarrow> page_tree \<Rightarrow> cursor_breadcrumb list" where
  "crumbs_of [] t = []"
| "crumbs_of (i # is) t = page_crumb t i #
     (case t of Leaf_page node \<Rightarrow> [] | Inner_page node cs \<Rightarrow> crumbs_of is (cs ! i))"

text \<open>Down to the smallest entry.\<close>

lemma smallest_run:
  assumes "tree_on pg t" and "filled_tree t \<or> tree_height t = 0" and "tr_type (cur_tree c) = BTREE_TBL"
    and "pager_ready pg" and "view_for pg nv" and "length pre + tree_height t < MAX_CRUMBS"
  shows "\<exists>ch. mover_loop MOVE_TO_BEGIN (at_crumbs c (pre @ [page_crumb t 0])) pg nv =
      Some (BTREE_OK, at_crumbs c (pre @ crumbs_of (first_position t) t), pg\<lparr>pgr_cache := ch\<rparr>) \<and>
    pager_ready (pg\<lparr>pgr_cache := ch\<rparr>)"
  using assms
proof (induction t arbitrary: pre pg nv rule: first_position.induct)
  case (1 node ch1 cs)
  let ?t = "Inner_page node (ch1 # cs)"
  let ?x = "at_crumbs c (pre @ [page_crumb ?t 0])"
  have T: "inner_node node" "node_on pg node" "sorted_node node" "node_is_leaf node = Some False"
    "map (node_page_number \<circ> tree_root) (ch1 # cs) = child_ids node" "0 < n_keys node"
    using "1.prems"(1,2) by (auto simp: inner_node_def)
  from arg_cong [OF T(5), of "\<lambda>xs. xs ! 0"] have first: "node_page_number (tree_root ch1) = child_ids node ! 0" by simp
  have num: "page_id (node_page node) = node_page_number node"
    using sorted_facts(2) [OF T(3)] by (simp add: node_shape_def)
  obtain a where rd: "noderc_reinit_read pg nv (node_page_number node) = Some (BTREE_OK, pg\<lparr>pgr_cache := a\<rparr>, node)"
    and ready: "pager_ready (pg\<lparr>pgr_cache := a\<rparr>)"
    using reinit_sorted [OF "1.prems"(4) T(2,3) "1.prems"(5)] by blast
  have peek: "cursor_peek ?x = (BTREE_OK, Some (page_crumb ?t 0))" by (simp add: cursor_peek_def)
  have mv: "run_mover MOVE_TO_BEGIN ?x node = Some ?x"
    using T(6) num by (simp add: run_mover_def move_to_begin_def at_crumbs_def page_crumb_def)
  have child: "read_cell_page ?x node 0 = Some (BTREE_OK, ?x\<lparr>cur_page_id := child_ids node ! 0\<rparr>)"
    using read_child [OF T(1), of ?x 0] "1.prems"(3) by simp
  have filled: "filled_tree ch1" using "1.prems"(2) by simp
  then have mode: "cb_key_index (page_crumb ch1 0) = \<lparr>cli_mode = KLIM_INDEX, cli_index = 0\<rparr>"
    by (cases ch1) (simp_all add: page_crumb_def)
  have push: "cursor_push (?x\<lparr>cur_page_id := child_ids node ! 0\<rparr>) =
      (BTREE_OK, at_crumbs c ((pre @ [page_crumb ?t 0]) @ [page_crumb ch1 0]))"
    using "1.prems"(6) T(6) first mode by (cases ch1) (simp_all add: cursor_push_def at_crumbs_def page_crumb_def)
  have key: "cli_index (cur_key_index ?x) = 0" by (simp add: at_crumbs_def page_crumb_def)
  have round: "mover_round MOVE_TO_BEGIN ?x pg nv = Some (Go_on (at_crumbs c ((pre @ [page_crumb ?t 0]) @ [page_crumb ch1 0]),
      pg\<lparr>pgr_cache := a\<rparr>, node))"
    using peek rd mv T(4) child push key by (simp add: mover_round_def) (simp add: page_crumb_def)
  have h: "length (pre @ [page_crumb ?t 0]) + tree_height ch1 < MAX_CRUMBS" using "1.prems"(6) by simp
  have v: "view_for (pg\<lparr>pgr_cache := a\<rparr>) node" using node_on_view [OF "1.prems"(4) T(2)] by simp
  obtain b where "mover_loop MOVE_TO_BEGIN (at_crumbs c ((pre @ [page_crumb ?t 0]) @ [page_crumb ch1 0]))
        (pg\<lparr>pgr_cache := a\<rparr>) node =
      Some (BTREE_OK, at_crumbs c ((pre @ [page_crumb ?t 0]) @ crumbs_of (first_position ch1) ch1), pg\<lparr>pgr_cache := b\<rparr>)"
    "pager_ready (pg\<lparr>pgr_cache := b\<rparr>)"
    using "1.IH" [OF _ disjI1 [OF filled] "1.prems"(3) ready v h] "1.prems"(1) by auto
  then show ?case
    using round "1.prems"(6) by (intro exI [of _ b]) (subst mover_loop.simps, simp)
next
  case (2 node)
  let ?x = "at_crumbs c (pre @ [page_crumb (Leaf_page node) 0])"
  have T: "leaf_node node" "node_on pg node" "node_is_leaf node = Some True"
    using "2.prems"(1) by (auto simp: leaf_node_def)
  have num: "page_id (node_page node) = node_page_number node"
    using leaf_facts(2) [OF T(1)] by (simp add: node_shape_def)
  obtain a where rd: "noderc_reinit_read pg nv (node_page_number node) = Some (BTREE_OK, pg\<lparr>pgr_cache := a\<rparr>, node)"
    and ready: "pager_ready (pg\<lparr>pgr_cache := a\<rparr>)"
    using reinit_leaf [OF "2.prems"(4) T(2,1) "2.prems"(5)] by blast
  have peek: "cursor_peek ?x = (BTREE_OK, Some (page_crumb (Leaf_page node) 0))" by (simp add: cursor_peek_def)
  have mv: "run_mover MOVE_TO_BEGIN ?x node = Some ?x"
    using num by (simp add: run_mover_def move_to_begin_def at_crumbs_def page_crumb_def)
  have "mover_round MOVE_TO_BEGIN ?x pg nv = Some (Stop (BTREE_OK, ?x, pg\<lparr>pgr_cache := a\<rparr>))"
    using peek rd mv T(3) by (simp add: mover_round_def) (simp add: page_crumb_def)
  then show ?case
    using ready "2.prems"(6) by (intro exI [of _ a]) (subst mover_loop.simps, simp)
next
  case (3 node)
  then show ?case using child_count [of pg node "[]"] by simp
qed

section \<open>One step\<close>

lemma cur_at_crumbs [simp]:
  "cur_page_id (at_crumbs c (xs @ [x])) = cb_page_id x" "cur_key_index (at_crumbs c (xs @ [x])) = cb_key_index x"
  by (simp_all add: at_crumbs_def)

lemma page_crumb_page [simp]: "cb_page_id (page_crumb t i) = node_page_number (tree_root t)"
  by (simp add: page_crumb_def)

lemma tree_root_facts:
  assumes "tree_on pg t"
  shows "sorted_node (tree_root t)" "node_on pg (tree_root t)" "node_page_number (tree_root t) \<noteq> 0"
    "node_is_leaf (tree_root t) = Some (tree_height t = 0)"
proof -
  show s: "sorted_node (tree_root t)" and on: "node_on pg (tree_root t)"
    and "node_is_leaf (tree_root t) = Some (tree_height t = 0)"
    using assms leaf_sorted by (cases t; auto simp: inner_node_def leaf_node_def)+
  show "node_page_number (tree_root t) \<noteq> 0"
    using on by (auto simp: node_on_def disk_of_def allocated_def split: if_splits)
qed

lemma move_right_run:
  assumes on: "tree_on pg t" and i: "i < n_keys (tree_root t)" and room: "length pre < MAX_CRUMBS"
  shows "\<exists>x. move_right (at_crumbs c (pre @ [page_crumb t i])) (tree_root t) =
    Some (if tree_height t = 0 \<and> Suc i = n_keys (tree_root t) then (BTREE_ERR_CURSOR_NO_SIBLING, at_crumbs c (pre @ [x]))
      else (BTREE_OK, at_crumbs c (pre @ [page_crumb t (Suc i)])))"
proof -
  note T = tree_root_facts [OF on]
  note F = sorted_facts [OF T(1)]
  have n: "n_keys (tree_root t) < 256" using T(1) by (simp add: sorted_node_def)
  have u: "unat (of_nat k :: u32) = k" if "k \<le> n_keys (tree_root t)" for k using that n by (simp add: unat_u32_of_nat)
  have lt: "(of_nat i :: u32) < of_nat (n_keys (tree_root t))" using u i by (simp add: word_less_nat_alt)
  have "of_nat (Suc i) = (of_nat (n_keys (tree_root t)) :: u32) \<longleftrightarrow> Suc i = n_keys (tree_root t)"
    using u [of "Suc i"] u [of "n_keys (tree_root t)"] i by (metis Suc_leI order_refl)
  then have eq: "of_nat (n_keys (tree_root t)) = (of_nat i + 1 :: u32) \<longleftrightarrow> Suc i = n_keys (tree_root t)"
    by (auto simp: add.commute)
  have pop: "cursor_pop (at_crumbs c (pre @ [page_crumb t i])) = (BTREE_OK, Some (page_crumb t i), at_crumbs c pre)"
    by (simp add: pop_snoc)
  show ?thesis
    using i eq lt pop F(3) T(4) room
    by (cases t) (auto simp: move_right_def push_crumb_snoc page_crumb_def Let_def add.commute)
qed

lemma descend_right_run:
  assumes on: "tree_on pg (Inner_page node cs)" and filled: "filled_tree (Inner_page node cs)" and i: "i < length cs"
    and tbl: "tr_type (cur_tree c) = BTREE_TBL" and pg: "pager_ready pg" "view_for pg nv"
    and room: "length pre + tree_height (Inner_page node cs) < MAX_CRUMBS"
  shows "\<exists>a. descend_right (at_crumbs c (pre @ [page_crumb (Inner_page node cs) i])) pg node =
      Some (BTREE_OK, at_crumbs c (pre @ crumbs_of (i # first_position (cs ! i)) (Inner_page node cs)), pg\<lparr>pgr_cache := a\<rparr>) \<and>
    pager_ready (pg\<lparr>pgr_cache := a\<rparr>)"
proof -
  let ?t = "Inner_page node cs"
  let ?x = "at_crumbs c (pre @ [page_crumb ?t i])" and ?pre = "pre @ [page_crumb ?t i]"
  have T: "inner_node node" "node_is_leaf node = Some False" "map (node_page_number \<circ> tree_root) cs = child_ids node"
    using on by (auto simp: inner_node_def)
  from arg_cong [OF T(3), of "\<lambda>xs. xs ! i"] have child: "node_page_number (tree_root (cs ! i)) = child_ids node ! i"
    using i by simp
  have C: "tree_on pg (cs ! i)" "filled_tree (cs ! i)" using on filled i by simp_all
  have rd: "read_cell_page ?x node (of_nat i) = Some (BTREE_OK, ?x\<lparr>cur_page_id := child_ids node ! i\<rparr>)"
    using read_child [OF T(1), of ?x i] tbl i child_count [OF on] by simp
  have key: "cli_index (cur_key_index ?x) = of_nat i" by (simp add: page_crumb_def)
  have mode: "cb_key_index (page_crumb (cs ! i) 0) = \<lparr>cli_mode = KLIM_INDEX, cli_index = 0\<rparr>"
    using C(2) by (cases "cs ! i") (simp_all add: page_crumb_def)
  have h: "length ?pre + tree_height (cs ! i) < MAX_CRUMBS" using room child_height [OF nth_mem [OF i], of node] by simp
  have push: "cursor_push (?x\<lparr>cur_page_id := child_ids node ! i, cur_key_index := \<lparr>cli_mode = KLIM_INDEX, cli_index = 0\<rparr>\<rparr>) =
      (BTREE_OK, at_crumbs c (?pre @ [page_crumb (cs ! i) 0]))"
    using h child mode by (simp add: cursor_push_def at_crumbs_def page_crumb_def)
  note R = tree_root_facts [OF C(1)]
  obtain nv' where nv': "noderc_acquire pg = Some (BTREE_OK, nv')" "view_for pg nv'"
    using acquire_view [OF pg(1) R(2) sorted_facts(2) [OF R(1)]] by blast
  obtain a where "mover_loop MOVE_TO_BEGIN (at_crumbs c (?pre @ [page_crumb (cs ! i) 0])) pg nv' =
      Some (BTREE_OK, at_crumbs c (?pre @ crumbs_of (first_position (cs ! i)) (cs ! i)), pg\<lparr>pgr_cache := a\<rparr>)"
    "pager_ready (pg\<lparr>pgr_cache := a\<rparr>)"
    using smallest_run [OF C(1) disjI1 [OF C(2)] tbl pg(1) nv'(2) h] by blast
  then show ?thesis
    using T(2) rd key push nv'(1)
    by (intro exI [of _ a]) (simp add: descend_right_def cursor_traverse_smallest_def cursor_traverse_by_mover_def)
qed

text \<open>Behind the last entry of a subtree the loop goes on at its parent.\<close>

definition after_child :: "'c cursor \<Rightarrow> 'f pager \<Rightarrow> node_view \<Rightarrow> (btree_e \<times> 'c cursor \<times> 'f pager) option" where
  "after_child cursor pg nv =
     (case pop_right True cursor of
        (result, cursor') \<Rightarrow>
          if result \<noteq> BTREE_OK then Some (result, cursor', pg)
          else if cur_page_id cursor' \<noteq> 0 then btree_iter_loop cursor' pg nv
          else Some (BTREE_OK, cursor', pg))"

definition steps_to :: "unit cursor \<Rightarrow> cfile pager \<Rightarrow> node_view \<Rightarrow> cursor_breadcrumb list \<Rightarrow> nat list \<Rightarrow> page_tree \<Rightarrow> bool" where
  "steps_to c pg nv pre is t \<longleftrightarrow> (\<exists>a nv'. pager_ready (pg\<lparr>pgr_cache := a\<rparr>) \<and> view_for pg nv' \<and>
     (case next_position is t of
        Some is' \<Rightarrow> btree_iter_loop (at_crumbs c (pre @ crumbs_of is t)) pg nv =
          Some (BTREE_OK, at_crumbs c (pre @ crumbs_of is' t), pg\<lparr>pgr_cache := a\<rparr>)
      | None \<Rightarrow> \<exists>x. btree_iter_loop (at_crumbs c (pre @ crumbs_of is t)) pg nv =
          after_child (at_crumbs c (pre @ [x])) (pg\<lparr>pgr_cache := a\<rparr>) nv'))"

lemma read_current:
  assumes "tree_on pg t" and "pager_ready pg" and "view_for pg nv"
  shows "\<exists>a. noderc_reinit_read pg nv (node_page_number (tree_root t)) = Some (BTREE_OK, pg\<lparr>pgr_cache := a\<rparr>, tree_root t) \<and>
    pager_ready (pg\<lparr>pgr_cache := a\<rparr>) \<and> view_for pg (tree_root t)"
  using reinit_sorted [OF assms(2) tree_root_facts(2,1) [OF assms(1)] assms(3)]
    node_on_view [OF assms(2) tree_root_facts(2) [OF assms(1)]] by blast

lemma iter_loop_step:
  assumes "tree_on pg t" and "filled_tree t" and "position_in is t" and "tr_type (cur_tree c) = BTREE_TBL"
    and "pager_ready pg" and "view_for pg nv" and "length pre + tree_height t < MAX_CRUMBS"
  shows "steps_to c pg nv pre is t"
  using assms
proof (induction "is" arbitrary: t pre)
  case (Cons i "is")
  show ?case
  proof (cases t)
    case (Leaf_page node)
    have i: "i < n_keys node" "is = []" using Cons.prems(3) Leaf_page by simp_all
    obtain a where rd: "noderc_reinit_read pg nv (node_page_number node) = Some (BTREE_OK, pg\<lparr>pgr_cache := a\<rparr>, node)"
      "pager_ready (pg\<lparr>pgr_cache := a\<rparr>)" "view_for pg node"
      using read_current [OF Cons.prems(1,5,6)] Leaf_page by auto
    have kind: "node_is_leaf node = Some True" using tree_root_facts(4) [OF Cons.prems(1)] Leaf_page by simp
    obtain x where mv: "move_right (at_crumbs c (pre @ [page_crumb t i])) node =
        Some (if Suc i = n_keys node then (BTREE_ERR_CURSOR_NO_SIBLING, at_crumbs c (pre @ [x]))
          else (BTREE_OK, at_crumbs c (pre @ [page_crumb t (Suc i)])))"
      using move_right_run [OF Cons.prems(1), of i pre c] i(1) Cons.prems(7) Leaf_page by auto
    have "btree_iter_loop (at_crumbs c (pre @ [page_crumb t i])) pg nv =
        (if Suc i = n_keys node then after_child (at_crumbs c (pre @ [x])) (pg\<lparr>pgr_cache := a\<rparr>) node
         else Some (BTREE_OK, at_crumbs c (pre @ [page_crumb t (Suc i)]), pg\<lparr>pgr_cache := a\<rparr>))"
      using rd(1) mv kind Leaf_page
      by (subst btree_iter_loop.simps) (simp add: descend_right_def after_child_def)
    then show ?thesis
      using i rd(2,3) Leaf_page unfolding steps_to_def
      by (intro exI [of _ a] exI [of _ node]) auto
  next
    case (Inner_page node cs)
    let ?pre = "pre @ [page_crumb t i]"
    have i: "i < length cs" "position_in is (cs ! i)" using Cons.prems(3) Inner_page by simp_all
    have n: "length cs = n_keys node + 1" using child_count Cons.prems(1) Inner_page by blast
    have child: "tree_on pg (cs ! i)" "filled_tree (cs ! i)" using Cons.prems(1,2) i(1) Inner_page by simp_all
    have h: "length ?pre + tree_height (cs ! i) < MAX_CRUMBS"
      using Cons.prems(7) child_height [OF nth_mem [OF i(1)], of node] Inner_page by simp
    have IH: "steps_to c pg nv ?pre is (cs ! i)" by (rule Cons.IH [OF child i(2) Cons.prems(4-6) h])
    show ?thesis
    proof (cases "next_position is (cs ! i)")
      case (Some is')
      then show ?thesis using IH Inner_page by (simp add: steps_to_def)
    next
      case None
      obtain a nv' x where A: "pager_ready (pg\<lparr>pgr_cache := a\<rparr>)" "view_for pg nv'"
        "btree_iter_loop (at_crumbs c (pre @ crumbs_of (i # is) t)) pg nv =
          after_child (at_crumbs c (?pre @ [x])) (pg\<lparr>pgr_cache := a\<rparr>) nv'"
        using IH None Inner_page by (auto simp: steps_to_def)
      let ?pg = "pg\<lparr>pgr_cache := a\<rparr>"
      have pop: "cursor_pop (at_crumbs c (?pre @ [x])) = (BTREE_OK, Some x, at_crumbs c ?pre)" by (simp add: pop_snoc)
      have pid: "node_page_number (tree_root t) \<noteq> 0" by (rule tree_root_facts(3) [OF Cons.prems(1)])
      show ?thesis
      proof (cases "i < n_keys node")
        case False
        then have "i = n_keys node" using i(1) n by simp
        then have "after_child (at_crumbs c (?pre @ [x])) ?pg nv' = after_child (at_crumbs c ?pre) ?pg nv'"
          using pop pid Inner_page unfolding after_child_def
          by (subst pop_right.simps) (simp add: page_crumb_def)
        moreover have "next_position (i # is) t = None" using None Inner_page False n by simp
        ultimately show ?thesis using A unfolding steps_to_def by (intro exI [of _ a] exI [of _ nv']) auto
      next
        case True
        then have "pop_right True (at_crumbs c (?pre @ [x])) = (BTREE_OK, at_crumbs c ?pre)"
          using pop Inner_page by (subst pop_right.simps) (simp add: page_crumb_def)
        then have again: "after_child (at_crumbs c (?pre @ [x])) ?pg nv' = btree_iter_loop (at_crumbs c ?pre) ?pg nv'"
          using pid by (simp add: after_child_def)
        have on: "tree_on ?pg t" using Cons.prems(1) by simp
        obtain b where rd: "noderc_reinit_read ?pg nv' (node_page_number (tree_root t)) = Some (BTREE_OK, pg\<lparr>pgr_cache := b\<rparr>, node)"
          "pager_ready (pg\<lparr>pgr_cache := b\<rparr>)" "view_for pg node"
          using read_current [OF on A(1), of nv'] A(2) Inner_page by auto
        have mv: "move_right (at_crumbs c ?pre) node = Some (BTREE_OK, at_crumbs c (pre @ [page_crumb t (Suc i)]))"
          using move_right_run [OF on, of i pre c] True Cons.prems(7) Inner_page by auto
        obtain d where ds: "descend_right (at_crumbs c (pre @ [page_crumb t (Suc i)])) (pg\<lparr>pgr_cache := b\<rparr>) node =
            Some (BTREE_OK, at_crumbs c (pre @ crumbs_of (Suc i # first_position (cs ! Suc i)) t), pg\<lparr>pgr_cache := d\<rparr>)"
          "pager_ready (pg\<lparr>pgr_cache := d\<rparr>)"
          using descend_right_run [of "pg\<lparr>pgr_cache := b\<rparr>" node cs "Suc i" c node pre] Cons.prems(1,2,4,7) rd(2,3) True n Inner_page
          by auto
        have "btree_iter_loop (at_crumbs c ?pre) ?pg nv' =
            Some (BTREE_OK, at_crumbs c (pre @ crumbs_of (Suc i # first_position (cs ! Suc i)) t), pg\<lparr>pgr_cache := d\<rparr>)"
          using rd(1) mv ds(1) by (subst btree_iter_loop.simps) simp
        moreover have "next_position (i # is) t = Some (Suc i # first_position (cs ! Suc i))"
          using None Inner_page True n by simp
        ultimately show ?thesis
          using A(2,3) again ds(2) unfolding steps_to_def by (intro exI [of _ d] exI [of _ nv']) simp
      qed
    qed
  qed
qed simp

end
