(* ===== verification/BTreeOps.thy ===== *)
theory BTreeOps
  imports IBTree
begin

text \<open>
  The operations a client drives step by step: selecting one entry (\<open>btree_op_select.c\<close>), updating
  one (\<open>btree_op_update.c\<close>) and scanning a tree (\<open>btree_op_scan.c\<close>).  Each is a record with a
  cursor and a step counter.

  A released operation has a null cursor; every function looks at the cursor's tree, also where it
  has nothing else to do, so it has no outcome on one.
\<close>

section \<open>Selecting\<close>

datatype op_selection_step_e =
    OP_SELECTION_STEP_UNINIT
  | OP_SELECTION_STEP_INIT
  | OP_SELECTION_STEP_PREPARED
  | OP_SELECTION_STEP_NOT_FOUND
  | OP_SELECTION_STEP_DONE

text \<open>\<open>key\<close> is what the pointer of the same name points to, \<open>sm_key_buf\<close> included.\<close>

record 'c op_selection =
  os_last_status :: btree_e
  os_initialized :: bool
  os_data_size :: u32
  os_cursor :: "'c cursor option"
  os_step :: op_selection_step_e
  os_sm_key_buf :: u32
  os_key :: bytes
  os_key_size :: u32

definition btree_op_select_acquire_tbl ::
  "'c btree \<Rightarrow> u32 \<Rightarrow> 'c \<Rightarrow> (btree_e \<times> 'c op_selection) option" where
  "btree_op_select_acquire_tbl tree key cmp_ctx =
     do {
       require (tr_type tree = BTREE_TBL);
       Some (BTREE_OK,
         \<lparr>os_last_status = BTREE_OK, os_initialized = True, os_data_size = 0,
          os_cursor = Some (cursor_create_ex tree cmp_ctx), os_step = OP_SELECTION_STEP_INIT,
          os_sm_key_buf = key, os_key = ser_write_32bit_le key, os_key_size = 4\<rparr>)
     }"

definition btree_op_select_acquire_index ::
  "'c btree \<Rightarrow> bytes \<Rightarrow> u32 \<Rightarrow> 'c \<Rightarrow> (btree_e \<times> 'c op_selection) option" where
  "btree_op_select_acquire_index tree key key_size cmp_ctx =
     do {
       require (tr_type tree = BTREE_INDEX);
       Some (BTREE_OK,
         \<lparr>os_last_status = BTREE_OK, os_initialized = True, os_data_size = 0,
          os_cursor = Some (cursor_create_ex tree cmp_ctx), os_step = OP_SELECTION_STEP_INIT,
          os_sm_key_buf = 0, os_key = key, os_key_size = key_size\<rparr>)
     }"

text \<open>
  What the cursor is moved to, and the size of the payload there.  This is the body of both
  \<open>btree_op_select_prepare\<close> and \<open>btree_op_update_prepare\<close>; only the first asserts that the cursor
  is at a cell.  The results: the error, whether the key was found (\<open>None\<close> where the search was not
  reached or failed), the size if it was stored, the cursor and the pager.
\<close>

definition op_locate ::
  "bool \<Rightarrow> 'c cursor \<Rightarrow> 'f pager \<Rightarrow> bytes \<Rightarrow> u32
   \<Rightarrow> (btree_e \<times> bool option \<times> u32 option \<times> 'c cursor \<times> 'f pager) option" where
  "op_locate check cursor pager key key_size =
     do {
       (result, nv) \<leftarrow> noderc_acquire pager;
       if result \<noteq> BTREE_OK then Some (result, None, None, cursor, pager)
       else do {
         (result, found, cursor, pager) \<leftarrow> cursor_traverse_to_ex cursor pager key key_size;
         if result \<noteq> BTREE_OK then Some (result, None, None, cursor, pager)
         else if \<not> found then Some (BTREE_ERR_KEY_NOT_FOUND, Some False, None, cursor, pager)
         else do {
           (result, pager, nv) \<leftarrow> cursor_read_current cursor pager nv;
           if result \<noteq> BTREE_OK then Some (result, Some True, None, cursor, pager)
           else do {
             num_keys \<leftarrow> node_num_keys nv;
             require (\<not> check \<or> cli_index (cur_key_index cursor) \<noteq> num_keys);
             (result, size) \<leftarrow> btree_node_payload_size_at nv (cli_index (cur_key_index cursor));
             Some (result, Some True, size, cursor, pager)
           }
         }
       }
     }"

text \<open>
  The step \<open>NOT_FOUND\<close> that the code sets when the key is missing is overwritten at the end of the
  function, so it is never seen.
\<close>

definition btree_op_select_prepare ::
  "'c op_selection \<Rightarrow> 'f pager \<Rightarrow> (btree_e \<times> 'c op_selection \<times> 'f pager) option" where
  "btree_op_select_prepare op pager =
     do {
       require (os_step op = OP_SELECTION_STEP_INIT);
       cursor \<leftarrow> os_cursor op;
       (result, found, size, cursor, pager) \<leftarrow>
         op_locate True cursor pager (os_key op) (os_key_size op);
       Some (result,
         op\<lparr>os_step := OP_SELECTION_STEP_PREPARED, os_last_status := result,
            os_data_size := case_option (os_data_size op) id size, os_cursor := Some cursor\<rparr>,
         pager)
     }"

text \<open>Reading the payload at the cursor.\<close>

definition op_read ::
  "bool \<Rightarrow> 'c cursor \<Rightarrow> 'f pager \<Rightarrow> bytes \<Rightarrow> u32 \<Rightarrow> (btree_e \<times> 'f pager \<times> bytes) option" where
  "op_read check cursor pager buffer buffer_size =
     do {
       (result, nv) \<leftarrow> noderc_acquire pager;
       if result \<noteq> BTREE_OK then Some (result, pager, buffer)
       else do {
         (result, pager, nv) \<leftarrow> cursor_read_current cursor pager nv;
         if result \<noteq> BTREE_OK then Some (result, pager, buffer)
         else do {
           num_keys \<leftarrow> node_num_keys nv;
           require (\<not> check \<or> cli_index (cur_key_index cursor) \<noteq> num_keys);
           btree_node_read_at pager nv (cli_index (cur_key_index cursor)) buffer buffer_size
         }
       }
     }"

definition btree_op_select_commit ::
  "'c op_selection \<Rightarrow> 'f pager \<Rightarrow> bytes \<Rightarrow> u32
   \<Rightarrow> (btree_e \<times> 'c op_selection \<times> 'f pager \<times> bytes) option" where
  "btree_op_select_commit op pager buffer buffer_size =
     do {
       cursor \<leftarrow> os_cursor op;
       (result, pager, buffer) \<leftarrow> op_read True cursor pager buffer buffer_size;
       Some (result, op\<lparr>os_step := OP_SELECTION_STEP_DONE, os_last_status := result\<rparr>, pager, buffer)
     }"

text \<open>The record is zeroed; the first constant of \<open>btree_e\<close> is not \<open>BTREE_OK\<close>.\<close>

definition btree_op_select_release :: "'c op_selection \<Rightarrow> btree_e \<times> 'c op_selection" where
  "btree_op_select_release op =
     (BTREE_OK,
      \<lparr>os_last_status = BTREE_ERR_INVALID_INVALID, os_initialized = False, os_data_size = 0, os_cursor = None,
       os_step = OP_SELECTION_STEP_DONE, os_sm_key_buf = 0, os_key = [], os_key_size = 0\<rparr>)"

definition op_select_size :: "'c op_selection \<Rightarrow> u32 option" where
  "op_select_size op =
     do {
       require (os_step op \<noteq> OP_SELECTION_STEP_INIT \<and> os_step op \<noteq> OP_SELECTION_STEP_UNINIT \<and>
                os_step op \<noteq> OP_SELECTION_STEP_NOT_FOUND);
       Some (os_data_size op)
     }"

section \<open>Updating\<close>

datatype op_update_step_e =
    OP_UPDATE_STEP_UNINIT
  | OP_UPDATE_STEP_INIT
  | OP_UPDATE_STEP_PREPARED
  | OP_UPDATE_STEP_DONE

record 'c op_update =
  ou_last_status :: btree_e
  ou_initialized :: bool
  ou_not_found :: bool
  ou_data_size :: u32
  ou_cursor :: "'c cursor option"
  ou_step :: op_update_step_e
  ou_sm_key_buf :: u32
  ou_key :: bytes
  ou_key_size :: u32

definition btree_op_update_acquire_tbl ::
  "'c btree \<Rightarrow> u32 \<Rightarrow> 'c \<Rightarrow> (btree_e \<times> 'c op_update) option" where
  "btree_op_update_acquire_tbl tree key cmp_ctx =
     do {
       require (tr_type tree = BTREE_TBL);
       Some (BTREE_OK,
         \<lparr>ou_last_status = BTREE_OK, ou_initialized = True, ou_not_found = False, ou_data_size = 0,
          ou_cursor = Some (cursor_create_ex tree cmp_ctx), ou_step = OP_UPDATE_STEP_INIT,
          ou_sm_key_buf = key, ou_key = ser_write_32bit_le key, ou_key_size = 4\<rparr>)
     }"

definition btree_op_update_acquire_index ::
  "'c btree \<Rightarrow> bytes \<Rightarrow> u32 \<Rightarrow> 'c \<Rightarrow> (btree_e \<times> 'c op_update) option" where
  "btree_op_update_acquire_index tree key key_size cmp_ctx =
     do {
       require (tr_type tree = BTREE_INDEX);
       Some (BTREE_OK,
         \<lparr>ou_last_status = BTREE_OK, ou_initialized = True, ou_not_found = False, ou_data_size = 0,
          ou_cursor = Some (cursor_create_ex tree cmp_ctx), ou_step = OP_UPDATE_STEP_INIT,
          ou_sm_key_buf = 0, ou_key = key, ou_key_size = key_size\<rparr>)
     }"

definition btree_op_update_prepare ::
  "'c op_update \<Rightarrow> 'f pager \<Rightarrow> (btree_e \<times> 'c op_update \<times> 'f pager) option" where
  "btree_op_update_prepare op pager =
     do {
       cursor \<leftarrow> ou_cursor op;
       (result, found, size, cursor, pager) \<leftarrow>
         op_locate False cursor pager (ou_key op) (ou_key_size op);
       Some (result,
         op\<lparr>ou_step := OP_UPDATE_STEP_PREPARED, ou_last_status := result,
            ou_not_found := (ou_not_found op \<or> found = Some False),
            ou_data_size := case_option (ou_data_size op) id size, ou_cursor := Some cursor\<rparr>,
         pager)
     }"

definition btree_op_update_preview ::
  "'c op_update \<Rightarrow> 'f pager \<Rightarrow> bytes \<Rightarrow> u32
   \<Rightarrow> (btree_e \<times> 'c op_update \<times> 'f pager \<times> bytes) option" where
  "btree_op_update_preview op pager buffer buffer_size =
     (if ou_not_found op then Some (BTREE_OK, op, pager, buffer)
      else do {
        cursor \<leftarrow> ou_cursor op;
        (result, pager, buffer) \<leftarrow> op_read False cursor pager buffer buffer_size;
        Some (result, op\<lparr>ou_last_status := result\<rparr>, pager, buffer)
      })"

text \<open>
  Replacing a cell: it is deleted, and the new payload is written at its index under the key that
  the index has then, which is the key of the next cell.
\<close>

definition op_replace ::
  "'c cursor \<Rightarrow> 'f pager \<Rightarrow> u32 option \<Rightarrow> bytes \<Rightarrow> u32 \<Rightarrow> (btree_e \<times> 'f pager) option" where
  "op_replace cursor pager new_key payload payload_size =
     do {
       (result, nv) \<leftarrow> noderc_acquire pager;
       if result \<noteq> BTREE_OK then Some (result, pager)
       else do {
         (result, pager, nv) \<leftarrow> cursor_read_current cursor pager nv;
         if result \<noteq> BTREE_OK then Some (result, pager)
         else do {
           (result, pager, nv) \<leftarrow>
             (case new_key of
                None \<Rightarrow> btree_node_delete (cur_tree cursor) pager nv (cur_key_index cursor)
              | Some _ \<Rightarrow> Some (BTREE_OK, pager, nv));
           if result \<noteq> BTREE_OK then Some (result, pager)
           else do {
             key \<leftarrow> (case new_key of
                       None \<Rightarrow> node_key_at nv (cli_index (cur_key_index cursor))
                     | Some k \<Rightarrow> Some k);
             (result, pager, _) \<leftarrow> btree_node_write_at nv pager
               \<lparr>ii_mode = KLIM_INDEX, ii_index = cli_index (cur_key_index cursor)\<rparr> key
               payload payload_size;
             Some (result, pager)
           }
         }
       }
     }"

definition btree_op_update_commit ::
  "'c op_update \<Rightarrow> 'f pager \<Rightarrow> bytes \<Rightarrow> u32 \<Rightarrow> (btree_e \<times> 'c op_update \<times> 'f pager) option" where
  "btree_op_update_commit op pager payload payload_size =
     do {
       require (ou_step op = OP_UPDATE_STEP_PREPARED);
       cursor \<leftarrow> ou_cursor op;
       (result, pager) \<leftarrow> op_replace cursor pager
         (if ou_not_found op then Some (ou_sm_key_buf op) else None) payload payload_size;
       Some (result, op\<lparr>ou_step := OP_UPDATE_STEP_DONE, ou_last_status := result\<rparr>, pager)
     }"

definition btree_op_update_release :: "'c op_update \<Rightarrow> 'c op_update" where
  "btree_op_update_release op =
     \<lparr>ou_last_status = BTREE_ERR_INVALID_INVALID, ou_initialized = False, ou_not_found = False,
      ou_data_size = 0, ou_cursor = None, ou_step = OP_UPDATE_STEP_DONE, ou_sm_key_buf = 0, ou_key = [],
      ou_key_size = 0\<rparr>"

definition op_update_size :: "'c op_update \<Rightarrow> u32 option" where
  "op_update_size op =
     do {
       require (ou_step op \<noteq> OP_UPDATE_STEP_INIT \<and> ou_step op \<noteq> OP_UPDATE_STEP_UNINIT);
       Some (ou_data_size op)
     }"

section \<open>Scanning\<close>

datatype op_scan_step_e =
    OP_SCAN_STEP_UNINIT
  | OP_SCAN_STEP_INIT
  | OP_SCAN_STEP_ITERATING
  | OP_SCAN_STEP_DONE

record 'c op_scan =
  oc_last_status :: btree_e
  oc_initialized :: bool
  oc_data_size :: u32
  oc_cursor :: "'c cursor option"
  oc_step :: op_scan_step_e

definition btree_op_scan_acquire :: "unit btree \<Rightarrow> btree_e \<times> unit op_scan" where
  "btree_op_scan_acquire tree =
     (BTREE_OK,
      \<lparr>oc_last_status = BTREE_OK, oc_initialized = True, oc_data_size = 0,
       oc_cursor = Some (cursor_create tree), oc_step = OP_SCAN_STEP_INIT\<rparr>)"

text \<open>The size of the payload that the cursor is at, where the node has such a cell.\<close>

definition scan_size ::
  "bool \<Rightarrow> 'c cursor \<Rightarrow> 'f pager \<Rightarrow> node_view \<Rightarrow> (btree_e \<times> u32 option \<times> 'f pager) option" where
  "scan_size check cursor pager nv =
     do {
       (result, pager, nv) \<leftarrow> cursor_read_current cursor pager nv;
       if result \<noteq> BTREE_OK then Some (result, None, pager)
       else do {
         num_keys \<leftarrow> node_num_keys nv;
         if check \<and> num_keys = cli_index (cur_key_index cursor)
         then Some (BTREE_ERR_ITER_DONE, Some 0, pager)
         else do {
           (result, size) \<leftarrow> btree_node_payload_size_at nv (cli_index (cur_key_index cursor));
           Some (result, size, pager)
         }
       }
     }"

text \<open>The end of both movements: reaching the end of the tree is not an error.\<close>

definition scan_finish ::
  "bool \<Rightarrow> 'c op_scan \<Rightarrow> 'c cursor \<Rightarrow> btree_e \<Rightarrow> u32 option \<Rightarrow> btree_e \<times> 'c op_scan" where
  "scan_finish starting op cursor result sz =
     (let last = (if result = BTREE_ERR_ITER_DONE then BTREE_OK else result) in
      (last,
       op\<lparr>oc_last_status := last,
          oc_data_size := case_option (oc_data_size op) id sz,
          oc_cursor := Some cursor,
          oc_step := (if result = BTREE_ERR_ITER_DONE then OP_SCAN_STEP_DONE
                      else if starting \<and> result = BTREE_OK then OP_SCAN_STEP_ITERATING
                      else oc_step op)\<rparr>))"

definition btree_op_scan_prepare ::
  "'c op_scan \<Rightarrow> 'f pager \<Rightarrow> (btree_e \<times> 'c op_scan \<times> 'f pager) option" where
  "btree_op_scan_prepare op pager =
     do {
       require (oc_step op = OP_SCAN_STEP_INIT);
       cursor \<leftarrow> oc_cursor op;
       (result, nv) \<leftarrow> noderc_acquire pager;
       (result, size, cursor, pager) \<leftarrow>
         (if result \<noteq> BTREE_OK then Some (result, None, cursor, pager)
          else do {
            (result, cursor, pager) \<leftarrow> cursor_iter_begin cursor pager;
            if result \<noteq> BTREE_OK then Some (result, None, cursor, pager)
            else do {
              (result, size, pager) \<leftarrow> scan_size True cursor pager nv;
              Some (result, size, cursor, pager)
            }
          });
       (let (result, op) = scan_finish True op cursor result size in Some (result, op, pager))
     }"

definition btree_op_scan_current ::
  "'c op_scan \<Rightarrow> 'f pager \<Rightarrow> bytes \<Rightarrow> u32
   \<Rightarrow> (btree_e \<times> 'c op_scan \<times> 'f pager \<times> bytes) option" where
  "btree_op_scan_current op pager buffer buffer_size =
     do {
       cursor \<leftarrow> oc_cursor op;
       (result, pager, buffer) \<leftarrow>
         (if oc_step op \<noteq> OP_SCAN_STEP_ITERATING then Some (BTREE_OK, pager, buffer)
          else op_read False cursor pager buffer buffer_size);
       Some (result, op\<lparr>oc_last_status := result\<rparr>, pager, buffer)
     }"

definition btree_op_scan_next ::
  "'c op_scan \<Rightarrow> 'f pager \<Rightarrow> (btree_e \<times> 'c op_scan \<times> 'f pager) option" where
  "btree_op_scan_next op pager =
     do {
       cursor \<leftarrow> oc_cursor op;
       (result, size, cursor, pager) \<leftarrow>
         (if oc_step op \<noteq> OP_SCAN_STEP_ITERATING then Some (BTREE_OK, None, cursor, pager)
          else do {
            (result, nv) \<leftarrow> noderc_acquire pager;
            if result \<noteq> BTREE_OK then Some (result, None, cursor, pager)
            else do {
              (result, cursor, pager) \<leftarrow> cursor_iter_next cursor pager;
              if result \<noteq> BTREE_OK then Some (result, None, cursor, pager)
              else do {
                (result, size, pager) \<leftarrow> scan_size False cursor pager nv;
                Some (result, size, cursor, pager)
              }
            }
          });
       (let (result, op) = scan_finish False op cursor result size in Some (result, op, pager))
     }"

definition btree_op_scan_update ::
  "'c op_scan \<Rightarrow> 'f pager \<Rightarrow> bytes \<Rightarrow> u32 \<Rightarrow> (btree_e \<times> 'c op_scan \<times> 'f pager) option" where
  "btree_op_scan_update op pager payload payload_size =
     do {
       cursor \<leftarrow> oc_cursor op;
       (result, pager) \<leftarrow> op_replace cursor pager None payload payload_size;
       Some (result, op\<lparr>oc_last_status := result\<rparr>, pager)
     }"

definition btree_op_scan_delete ::
  "'c op_scan \<Rightarrow> 'f pager \<Rightarrow> (btree_e \<times> 'c op_scan \<times> 'f pager) option" where
  "btree_op_scan_delete op pager =
     do {
       cursor \<leftarrow> oc_cursor op;
       (result, nv) \<leftarrow> noderc_acquire pager;
       (result, pager) \<leftarrow>
         (if result \<noteq> BTREE_OK then Some (result, pager)
          else do {
            (result, pager, nv) \<leftarrow> cursor_read_current cursor pager nv;
            if result \<noteq> BTREE_OK then Some (result, pager)
            else do {
              (result, pager, nv) \<leftarrow>
                btree_node_delete (cur_tree cursor) pager nv (cur_key_index cursor);
              Some (result, pager)
            }
          });
       Some (result, op\<lparr>oc_last_status := result\<rparr>, pager)
     }"

definition btree_op_scan_done :: "'c op_scan \<Rightarrow> bool" where
  "btree_op_scan_done op \<longleftrightarrow> oc_step op = OP_SCAN_STEP_DONE"

definition btree_op_scan_release :: "'c op_scan \<Rightarrow> btree_e \<times> 'c op_scan" where
  "btree_op_scan_release op =
     (BTREE_OK,
      \<lparr>oc_last_status = BTREE_ERR_INVALID_INVALID, oc_initialized = False, oc_data_size = 0,
       oc_cursor = None, oc_step = OP_SCAN_STEP_DONE\<rparr>)"

end
