(* ===== verification/TreeScan.thy ===== *)
theory TreeScan
  imports TreeIter BTreeOps
begin

text \<open>Scanning a table tree: the scan operation delivers every entry, in order, and ends.\<close>

section \<open>The cursor\<close>

lemma last_crumb:
  assumes "position_in is t" and "leaf_at is t = (leaf, j)"
  shows "\<exists>xs. crumbs_of is t = xs @ [page_crumb (Leaf_page leaf) j]"
  using assms
proof (induction "is" arbitrary: t)
  case (Cons i "is")
  show ?case
  proof (cases t)
    case (Leaf_page node)
    then show ?thesis using Cons.prems by simp
  next
    case (Inner_page node cs)
    then obtain xs where "crumbs_of is (cs ! i) = xs @ [page_crumb (Leaf_page leaf) j]"
      using Cons.IH [of "cs ! i"] Cons.prems by auto
    then show ?thesis using Inner_page by (intro exI [of _ "page_crumb t i # xs"]) simp
  qed
qed simp

abbreviation cursor_at :: "unit btree \<Rightarrow> nat list \<Rightarrow> page_tree \<Rightarrow> unit cursor" where
  "cursor_at tree is t \<equiv> at_crumbs (cursor_create tree) (crumbs_of is t)"

lemma cursor_at_leaf:
  assumes "tree_on pg t" and "position_in is t" and "leaf_at is t = (leaf, j)"
  shows "cur_page_id (cursor_at tree is t) = node_page_number leaf" "cli_index (cur_key_index (cursor_at tree is t)) = of_nat j"
    "cli_mode (cur_key_index (cursor_at tree is t)) = KLIM_INDEX" "cur_page_id (cursor_at tree is t) \<noteq> 0"
proof -
  obtain xs where x: "crumbs_of is t = xs @ [page_crumb (Leaf_page leaf) j]" using last_crumb [OF assms(2,3)] by blast
  then show "cur_page_id (cursor_at tree is t) = node_page_number leaf" "cli_index (cur_key_index (cursor_at tree is t)) = of_nat j"
    "cli_mode (cur_key_index (cursor_at tree is t)) = KLIM_INDEX"
    by (simp_all add: x) (simp_all add: page_crumb_def)
  have "tree_on pg (Leaf_page leaf)" using leaf_at_position [OF assms] by simp
  from tree_root_facts(3) [OF this] show "cur_page_id (cursor_at tree is t) \<noteq> 0" by (simp add: x)
qed

lemma cursor_create_facts:
  "cur_tree (cursor_create tree) = tree" "cur_page_id (cursor_create tree) = tr_root_page_id tree"
  "cur_breadcrumbs (cursor_create tree) =
    [\<lparr>cb_key_index = \<lparr>cli_mode = KLIM_INDEX, cli_index = 0\<rparr>, cb_page_id = tr_root_page_id tree\<rparr>]"
  "cur_key_index (cursor_create tree) = \<lparr>cli_mode = KLIM_INDEX, cli_index = 0\<rparr>"
  by (simp_all add: cursor_create_def cursor_create_ex_def cursor_push_def MAX_CRUMBS_def)

lemma tree_view:
  assumes "table_tree_on tree pg t"
  shows "\<exists>nv. noderc_acquire pg = Some (BTREE_OK, nv) \<and> view_for pg nv"
proof -
  have T: "pager_ready pg" "tree_on pg t" using assms by (simp_all add: table_tree_on_def)
  note R = tree_root_facts [OF T(2)]
  show ?thesis using acquire_view [OF T(1) R(2) sorted_facts(2) [OF R(1)]] .
qed

lemma iter_next_run:
  assumes tree: "table_tree_on tree pg t" and filled: "filled_tree t" and at: "position_in is t"
  shows "\<exists>a. pager_ready (pg\<lparr>pgr_cache := a\<rparr>) \<and>
    (case next_position is t of
       Some is' \<Rightarrow> cursor_iter_next (cursor_at tree is t) pg = Some (BTREE_OK, cursor_at tree is' t, pg\<lparr>pgr_cache := a\<rparr>)
     | None \<Rightarrow> \<exists>c. cursor_iter_next (cursor_at tree is t) pg = Some (BTREE_ERR_ITER_DONE, c, pg\<lparr>pgr_cache := a\<rparr>))"
proof -
  have T: "tr_type tree = BTREE_TBL" "pager_ready pg" "tree_on pg t" "tree_height t < 7"
    using tree by (simp_all add: table_tree_on_def)
  let ?c = "cursor_create tree"
  obtain nv where nv: "noderc_acquire pg = Some (BTREE_OK, nv)" "view_for pg nv" using tree_view [OF tree] by blast
  obtain leaf j where leaf: "leaf_at is t = (leaf, j)" by (cases "leaf_at is t")
  note L = cursor_at_leaf [OF T(3) at leaf, of tree]
  have ty: "cursor_tree_type (cursor_at tree is t) = BTREE_TBL"
    using T(1) by (simp add: cursor_tree_type_def cursor_create_facts)
  have step: "steps_to ?c pg nv [] is t"
    using iter_loop_step [OF T(3) filled at _ T(2) nv(2), where c = ?c and pre = "[]"] T(1,4) by (simp add: cursor_create_facts MAX_CRUMBS_def)
  have next_eq: "cursor_iter_next (cursor_at tree is t) pg = map_option iter_result (btree_iter_loop (cursor_at tree is t) pg nv)"
    using L(3,4) nv(1) ty by (simp add: cursor_iter_next_def btree_iter_next_def map_option_case split: option.splits)
  show ?thesis
  proof (cases "next_position is t")
    case None
    obtain a nv' x where A: "pager_ready (pg\<lparr>pgr_cache := a\<rparr>)"
      "btree_iter_loop (cursor_at tree is t) pg nv = after_child (at_crumbs ?c ([] @ [x])) (pg\<lparr>pgr_cache := a\<rparr>) nv'"
      using step None by (auto simp: steps_to_def)
    have pop: "cursor_pop (at_crumbs ?c ([] @ [x])) = (BTREE_OK, Some x, at_crumbs ?c [])" by (simp add: pop_snoc)
    then have "pop_right True (at_crumbs ?c ([] @ [x])) = (BTREE_OK, at_crumbs ?c [])"
      by (subst pop_right.simps) (simp add: at_crumbs_def zero_index_def)
    then have "after_child (at_crumbs ?c ([] @ [x])) (pg\<lparr>pgr_cache := a\<rparr>) nv' = Some (BTREE_OK, at_crumbs ?c [], pg\<lparr>pgr_cache := a\<rparr>)"
      by (simp add: after_child_def) (simp add: at_crumbs_def)
    then show ?thesis using A None next_eq by (intro exI [of _ a]) (simp add: iter_result_def)
  next
    case (Some is')
    obtain a where A: "pager_ready (pg\<lparr>pgr_cache := a\<rparr>)"
      "btree_iter_loop (cursor_at tree is t) pg nv = Some (BTREE_OK, cursor_at tree is' t, pg\<lparr>pgr_cache := a\<rparr>)"
      using step Some by (auto simp: steps_to_def)
    have "position_in is' t" using next_position_in [OF T(3) filled at] Some by simp
    then have "crumbs_of is' t \<noteq> []" by (cases is') simp_all
    then show ?thesis using A Some next_eq by (intro exI [of _ a]) (simp add: iter_result_def)
  qed
qed

lemma payload_size_inline:
  assumes wf: "node_wf node" and d: "d < n_keys node" and inl: "is_inline node d"
  shows "btree_node_payload_size_at node (of_nat d) = Some (BTREE_OK, Some (of_nat (length (payload_at node d))))"
proof -
  note A = cell_access [OF wf d] and P = cell_ptr_parts [OF wf d]
  have rd: "btree_cell_read_inline (drop (node_end node - cell_off node d) (node_mem node)) None 0 =
      Some (\<lparr>ci_inline_size = of_nat (cell_size node (cell_off node d)), ci_payload = drop 4 (cell_ptr node d)\<rparr>, None,
        of_nat (cell_size node (cell_off node d)))"
    using P(1,3) by (simp add: btree_cell_read_inline_def cell_ptr_def)
  show ?thesis
    using A(1-3) rd inl by (simp add: btree_node_payload_size_at_def is_inline_def length_payload_at [OF wf d])
qed

section \<open>The scan\<close>

text \<open>The client's loop: the current row is read, until the scan is done.  \<open>n\<close> bounds the rounds.\<close>

primrec scan_rows :: "nat \<Rightarrow> unit op_scan \<Rightarrow> cfile pager \<Rightarrow> bytes \<Rightarrow> ((btree_e \<times> bytes) list \<times> cfile pager) option" where
  "scan_rows 0 op pg buffer = None"
| "scan_rows (Suc n) op pg buffer =
     (if btree_op_scan_done op then Some ([], pg)
      else do {
        (status, op, pg, row) \<leftarrow> btree_op_scan_current op pg buffer (of_nat (length buffer));
        (result, op, pg) \<leftarrow> btree_op_scan_next op pg;
        require (result = BTREE_OK);
        (rows, pg) \<leftarrow> scan_rows n op pg buffer;
        Some ((status, row) # rows, pg)
      })"

definition scan_tree :: "nat \<Rightarrow> unit btree \<Rightarrow> cfile pager \<Rightarrow> bytes \<Rightarrow> ((btree_e \<times> bytes) list \<times> cfile pager) option" where
  "scan_tree n tree pg buffer =
     do {
       (result, op, pg) \<leftarrow> btree_op_scan_prepare (snd (btree_op_scan_acquire tree)) pg;
       require (result = BTREE_OK);
       scan_rows n op pg buffer
     }"

text \<open>The scan is at a position of the tree.\<close>

definition scanning :: "unit op_scan \<Rightarrow> unit btree \<Rightarrow> nat list \<Rightarrow> page_tree \<Rightarrow> bool" where
  "scanning op tree is t \<longleftrightarrow> oc_step op = OP_SCAN_STEP_ITERATING \<and> oc_cursor op = Some (cursor_at tree is t)"

definition row_of :: "bytes \<Rightarrow> u32 \<times> bytes \<Rightarrow> btree_e \<times> bytes" where
  "row_of buffer item = (read_status buffer (snd item), filled buffer (snd item))"

lemma read_leaf_at:
  assumes tree: "table_tree_on tree pg t" and at: "position_in is t" and leaf: "leaf_at is t = (leaf, j)" and v: "view_for pg nv"
  shows "\<exists>a. cursor_read_current (cursor_at tree is t) pg nv = Some (BTREE_OK, pg\<lparr>pgr_cache := a\<rparr>, leaf) \<and>
    table_tree_on tree (pg\<lparr>pgr_cache := a\<rparr>) t \<and> node_wf leaf \<and> is_inline leaf j \<and> j < n_keys leaf \<and>
    node_num_keys leaf = Some (of_nat (n_keys leaf)) \<and> (of_nat (n_keys leaf) :: u32) \<noteq> of_nat j \<and>
    snd (hd (items_from is t)) = payload_at leaf j"
proof -
  have T: "pager_ready pg" "tree_on pg t" using tree by (simp_all add: table_tree_on_def)
  note P = leaf_at_position [OF T(2) at leaf] and C = cursor_at_leaf [OF T(2) at leaf, of tree]
  have leafn: "leaf_node leaf" and on: "node_on pg leaf" and j: "j < n_keys leaf" using P by simp_all
  note F = leaf_facts [OF leafn]
  have wf: "node_wf leaf" and inl: "is_inline leaf j" and small: "n_keys leaf < 256" using leafn j by (simp_all add: leaf_node_def)
  obtain a where rd: "noderc_reinit_read pg nv (node_page_number leaf) = Some (BTREE_OK, pg\<lparr>pgr_cache := a\<rparr>, leaf)"
    "pager_ready (pg\<lparr>pgr_cache := a\<rparr>)"
    using reinit_leaf [OF T(1) on leafn v] by blast
  have "unat (of_nat j :: u32) = j" using j small by (simp add: unat_u32_of_nat)
  then have ne: "(of_nat (n_keys leaf) :: u32) \<noteq> of_nat j" using F(4) j by (metis less_irrefl)
  have "node_abs leaf ! j = (pk_key (pkey leaf j), pk_flags (pkey leaf j), payload_at leaf j)"
    using j by (simp add: node_abs_def node_entry_def payload_at_def)
  then have "snd (hd (items_from is t)) = payload_at leaf j" using P j by (simp add: node_items_def)
  with rd C(1) F(3) ne wf inl j table_tree_cache [OF tree rd(2)] show ?thesis
    by (intro exI [of _ a]) (simp add: cursor_read_current_def)
qed

lemma scan_current_run:
  assumes tree: "table_tree_on tree pg t" and at: "position_in is t" and op: "scanning op tree is t"
    and len: "length buffer < 2147483648"
  shows "\<exists>a op'. btree_op_scan_current op pg buffer (of_nat (length buffer)) =
      Some (fst (row_of buffer (hd (items_from is t))), op', pg\<lparr>pgr_cache := a\<rparr>, snd (row_of buffer (hd (items_from is t)))) \<and>
    table_tree_on tree (pg\<lparr>pgr_cache := a\<rparr>) t \<and> scanning op' tree is t"
proof -
  obtain nv where nv: "noderc_acquire pg = Some (BTREE_OK, nv)" "view_for pg nv" using tree_view [OF tree] by blast
  obtain leaf j where leaf: "leaf_at is t = (leaf, j)" by (cases "leaf_at is t")
  obtain a where A: "cursor_read_current (cursor_at tree is t) pg nv = Some (BTREE_OK, pg\<lparr>pgr_cache := a\<rparr>, leaf)"
    "table_tree_on tree (pg\<lparr>pgr_cache := a\<rparr>) t" "node_wf leaf" "is_inline leaf j" "j < n_keys leaf"
    "node_num_keys leaf = Some (of_nat (n_keys leaf))" "snd (hd (items_from is t)) = payload_at leaf j"
    using read_leaf_at [OF tree at leaf nv(2)] by blast
  have "cli_index (cur_key_index (cursor_at tree is t)) = of_nat j"
    using cursor_at_leaf(2) [OF _ at leaf, of pg tree] tree by (simp add: table_tree_on_def)
  then have "op_read False (cursor_at tree is t) pg buffer (of_nat (length buffer)) =
      Some (read_status buffer (payload_at leaf j), pg\<lparr>pgr_cache := a\<rparr>, filled buffer (payload_at leaf j))"
    using nv(1) A(1,6) read_inline_at [OF A(3,5,4) len, where pager = "pg\<lparr>pgr_cache := a\<rparr>"] by (simp add: op_read_def)
  then show ?thesis
    using op A(2,7) by (intro exI [of _ a]) (simp add: btree_op_scan_current_def scanning_def row_of_def)
qed

lemma scan_next_run:
  assumes tree: "table_tree_on tree pg t" and filled: "filled_tree t" and at: "position_in is t" and op: "scanning op tree is t"
  shows "\<exists>a op'. btree_op_scan_next op pg = Some (BTREE_OK, op', pg\<lparr>pgr_cache := a\<rparr>) \<and>
    table_tree_on tree (pg\<lparr>pgr_cache := a\<rparr>) t \<and>
    (case next_position is t of Some is' \<Rightarrow> scanning op' tree is' t | None \<Rightarrow> btree_op_scan_done op')"
proof -
  have T: "tree_on pg t" using tree by (simp add: table_tree_on_def)
  obtain nv where nv: "noderc_acquire pg = Some (BTREE_OK, nv)" "view_for pg nv" using tree_view [OF tree] by blast
  note I = iter_next_run [OF tree filled at]
  show ?thesis
  proof (cases "next_position is t")
    case None
    then obtain a c where "pager_ready (pg\<lparr>pgr_cache := a\<rparr>)"
      "cursor_iter_next (cursor_at tree is t) pg = Some (BTREE_ERR_ITER_DONE, c, pg\<lparr>pgr_cache := a\<rparr>)" using I by auto
    then show ?thesis
      using nv(1) op None table_tree_cache [OF tree] by (intro exI [of _ a])
        (simp add: btree_op_scan_next_def scanning_def scan_finish_def btree_op_scan_done_def)
  next
    case (Some is')
    then obtain a where A: "pager_ready (pg\<lparr>pgr_cache := a\<rparr>)"
      "cursor_iter_next (cursor_at tree is t) pg = Some (BTREE_OK, cursor_at tree is' t, pg\<lparr>pgr_cache := a\<rparr>)" using I by auto
    have t1: "table_tree_on tree (pg\<lparr>pgr_cache := a\<rparr>) t" by (rule table_tree_cache [OF tree A(1)])
    have at': "position_in is' t" using next_position_in [OF T filled at] Some by simp
    obtain leaf j where leaf: "leaf_at is' t = (leaf, j)" by (cases "leaf_at is' t")
    have v: "view_for (pg\<lparr>pgr_cache := a\<rparr>) nv" using nv(2) by simp
    obtain b where B: "cursor_read_current (cursor_at tree is' t) (pg\<lparr>pgr_cache := a\<rparr>) nv = Some (BTREE_OK, pg\<lparr>pgr_cache := b\<rparr>, leaf)"
      "table_tree_on tree (pg\<lparr>pgr_cache := b\<rparr>) t" "node_wf leaf" "is_inline leaf j" "j < n_keys leaf"
      "node_num_keys leaf = Some (of_nat (n_keys leaf))"
      using read_leaf_at [OF t1 at' leaf v] by auto
    have "cli_index (cur_key_index (cursor_at tree is' t)) = of_nat j" by (rule cursor_at_leaf(2) [OF T at' leaf])
    then have "scan_size False (cursor_at tree is' t) (pg\<lparr>pgr_cache := a\<rparr>) nv =
        Some (BTREE_OK, Some (of_nat (length (payload_at leaf j))), pg\<lparr>pgr_cache := b\<rparr>)"
      using B(1,6) payload_size_inline [OF B(3,5,4)] by (simp add: scan_size_def)
    then show ?thesis
      using nv(1) op Some A(2) B(2) by (intro exI [of _ b])
        (simp add: btree_op_scan_next_def scanning_def scan_finish_def)
  qed
qed

lemma scan_rows_run:
  assumes "table_tree_on tree pg t" and "filled_tree t" and "position_in is t" and "scanning op tree is t"
    and "length buffer < 2147483648" and "length (items_from is t) < n"
  shows "\<exists>a. scan_rows n op pg buffer = Some (map (row_of buffer) (items_from is t), pg\<lparr>pgr_cache := a\<rparr>) \<and>
    table_tree_on tree (pg\<lparr>pgr_cache := a\<rparr>) t"
  using assms
proof (induction n arbitrary: op pg "is")
  case (Suc n)
  have on: "tree_on pg t" using Suc.prems(1) by (simp add: table_tree_on_def)
  note N = next_position_in [OF on Suc.prems(2,3)]
  let ?row = "row_of buffer (hd (items_from is t))"
  obtain a op1 where C: "btree_op_scan_current op pg buffer (of_nat (length buffer)) = Some (fst ?row, op1, pg\<lparr>pgr_cache := a\<rparr>, snd ?row)"
    "table_tree_on tree (pg\<lparr>pgr_cache := a\<rparr>) t" "scanning op1 tree is t"
    using scan_current_run [OF Suc.prems(1,3,4,5)] by blast
  obtain b op2 where S: "btree_op_scan_next op1 (pg\<lparr>pgr_cache := a\<rparr>) = Some (BTREE_OK, op2, pg\<lparr>pgr_cache := b\<rparr>)"
    "table_tree_on tree (pg\<lparr>pgr_cache := b\<rparr>) t"
    "case next_position is t of Some is' \<Rightarrow> scanning op2 tree is' t | None \<Rightarrow> btree_op_scan_done op2"
    using scan_next_run [OF C(2) Suc.prems(2,3) C(3)] by auto
  have items: "items_from is t = hd (items_from is t) # tl (items_from is t)" using N by simp
  have go: "\<not> btree_op_scan_done op" using Suc.prems(4) by (simp add: scanning_def btree_op_scan_done_def)
  have less: "length (tl (items_from is t)) < n" using Suc.prems(6) N by (cases "items_from is t") simp_all
  have "\<exists>d. scan_rows n op2 (pg\<lparr>pgr_cache := b\<rparr>) buffer = Some (map (row_of buffer) (tl (items_from is t)), pg\<lparr>pgr_cache := d\<rparr>) \<and>
      table_tree_on tree (pg\<lparr>pgr_cache := d\<rparr>) t"
  proof (cases "next_position is t")
    case None
    then obtain m where "n = Suc m" using less by (cases n) auto
    then show ?thesis using None S(2,3) N by (intro exI [of _ b]) simp
  next
    case (Some is')
    then have "position_in is' t" "items_from is' t = tl (items_from is t)" "scanning op2 tree is' t" using N S(3) by simp_all
    then show ?thesis using Suc.IH [OF S(2) Suc.prems(2) _ _ Suc.prems(5), of is' op2] less by auto
  qed
  then obtain d where D: "scan_rows n op2 (pg\<lparr>pgr_cache := b\<rparr>) buffer = Some (map (row_of buffer) (tl (items_from is t)), pg\<lparr>pgr_cache := d\<rparr>)"
    "table_tree_on tree (pg\<lparr>pgr_cache := d\<rparr>) t" by blast
  have "scan_rows (Suc n) op pg buffer = Some (?row # map (row_of buffer) (tl (items_from is t)), pg\<lparr>pgr_cache := d\<rparr>)"
    using go C(1) S(1) D(1) by simp
  then show ?case using D(2) items by (metis list.simps(9))
qed simp

section \<open>From the beginning\<close>

lemma scan_prepare_run:
  assumes tree: "table_tree_on tree pg t" and filled: "filled_tree t \<or> tree_height t = 0"
  shows "\<exists>a op. btree_op_scan_prepare (snd (btree_op_scan_acquire tree)) pg = Some (BTREE_OK, op, pg\<lparr>pgr_cache := a\<rparr>) \<and>
    table_tree_on tree (pg\<lparr>pgr_cache := a\<rparr>) t \<and>
    (if filled_tree t then scanning op tree (first_position t) t else btree_op_scan_done op)"
proof -
  have T: "tr_type tree = BTREE_TBL" "tr_root_page_id tree = node_page_number (tree_root t)" "pager_ready pg" "tree_on pg t"
    "tree_height t < 7"
    using tree by (simp_all add: table_tree_on_def)
  let ?c = "cursor_create tree" and ?is = "first_position t"
  obtain nv where nv: "noderc_acquire pg = Some (BTREE_OK, nv)" "view_for pg nv" using tree_view [OF tree] by blast
  have start: "?c = at_crumbs ?c ([] @ [page_crumb t 0])"
    using filled T(2) cursor_create_facts [of tree]
    by (cases t; cases ?c) (simp_all add: at_crumbs_def page_crumb_def)
  obtain a where A: "mover_loop MOVE_TO_BEGIN ?c pg nv = Some (BTREE_OK, cursor_at tree ?is t, pg\<lparr>pgr_cache := a\<rparr>)"
    "pager_ready (pg\<lparr>pgr_cache := a\<rparr>)"
    using smallest_run [OF T(4) filled _ T(3) nv(2), of ?c "[]"] T(1,5) start
    by (auto simp: cursor_create_facts MAX_CRUMBS_def)
  have t1: "table_tree_on tree (pg\<lparr>pgr_cache := a\<rparr>) t" by (rule table_tree_cache [OF tree A(2)])
  have begin': "cursor_iter_begin ?c pg = Some (BTREE_OK, cursor_at tree ?is t, pg\<lparr>pgr_cache := a\<rparr>)"
    using nv(1) A(1) by (simp add: cursor_iter_begin_def cursor_traverse_smallest_def cursor_traverse_by_mover_def)
  have v: "view_for (pg\<lparr>pgr_cache := a\<rparr>) nv" using nv(2) by simp
  show ?thesis
  proof (cases "filled_tree t")
    case True
    then have at: "position_in ?is t" using first_position_in [OF T(4)] by blast
    obtain leaf j where leaf: "leaf_at ?is t = (leaf, j)" by (cases "leaf_at ?is t")
    obtain b where B: "cursor_read_current (cursor_at tree ?is t) (pg\<lparr>pgr_cache := a\<rparr>) nv = Some (BTREE_OK, pg\<lparr>pgr_cache := b\<rparr>, leaf)"
      "table_tree_on tree (pg\<lparr>pgr_cache := b\<rparr>) t" "node_wf leaf" "is_inline leaf j" "j < n_keys leaf"
      "node_num_keys leaf = Some (of_nat (n_keys leaf))" "(of_nat (n_keys leaf) :: u32) \<noteq> of_nat j"
      using read_leaf_at [OF t1 at leaf v] by auto
    have "cli_index (cur_key_index (cursor_at tree ?is t)) = of_nat j" by (rule cursor_at_leaf(2) [OF T(4) at leaf])
    then have "scan_size True (cursor_at tree ?is t) (pg\<lparr>pgr_cache := a\<rparr>) nv =
        Some (BTREE_OK, Some (of_nat (length (payload_at leaf j))), pg\<lparr>pgr_cache := b\<rparr>)"
      using B(1,6,7) payload_size_inline [OF B(3,5,4)] by (simp add: scan_size_def)
    then show ?thesis
      using nv(1) begin' B(2) True by (intro exI [of _ b])
        (simp add: btree_op_scan_prepare_def btree_op_scan_acquire_def scan_finish_def scanning_def)
  next
    case False
    then obtain node where node: "t = Leaf_page node" "n_keys node = 0" using filled by (cases t) simp_all
    obtain b where rd: "noderc_reinit_read (pg\<lparr>pgr_cache := a\<rparr>) nv (node_page_number node) = Some (BTREE_OK, pg\<lparr>pgr_cache := b\<rparr>, node)"
      "pager_ready (pg\<lparr>pgr_cache := b\<rparr>)"
      using read_current [of "pg\<lparr>pgr_cache := a\<rparr>" t nv] T(4) A(2) v node(1) by auto
    have cur: "cur_page_id (cursor_at tree ?is t) = node_page_number node" "cli_index (cur_key_index (cursor_at tree ?is t)) = 0"
      using cur_at_crumbs [of ?c "[]" "page_crumb t 0"] node(1) by (simp_all add: page_crumb_def)
    have "node_num_keys node = Some 0" using leaf_facts(3) [of node] T(4) node by simp
    then have "scan_size True (cursor_at tree ?is t) (pg\<lparr>pgr_cache := a\<rparr>) nv = Some (BTREE_ERR_ITER_DONE, Some 0, pg\<lparr>pgr_cache := b\<rparr>)"
      using rd(1) cur by (simp add: scan_size_def cursor_read_current_def)
    then show ?thesis
      using nv(1) begin' rd(2) False table_tree_cache [OF tree] by (intro exI [of _ b])
        (simp add: btree_op_scan_prepare_def btree_op_scan_acquire_def scan_finish_def btree_op_scan_done_def)
  qed
qed

lemma sorted_wrt_concat:
  assumes "\<forall>xs \<in> set xss. sorted_wrt P xs"
    and "\<And>i j. i < j \<Longrightarrow> j < length xss \<Longrightarrow> \<forall>x \<in> set (xss ! i). \<forall>y \<in> set (xss ! j). P x y"
  shows "sorted_wrt P (concat xss)"
  using assms
proof (induction xss)
  case (Cons xs xss)
  have "P x y" if "x \<in> set xs" "y \<in> set ys" "ys \<in> set xss" for x y ys
  proof -
    obtain j where "j < length xss" "xss ! j = ys" using \<open>ys \<in> set xss\<close> by (metis in_set_conv_nth)
    then show ?thesis using Cons.prems(2) [of 0 "Suc j"] that by simp
  qed
  moreover have "sorted_wrt P (concat xss)"
  proof (rule Cons.IH)
    show "\<forall>x \<in> set (xss ! i). \<forall>y \<in> set (xss ! j). P x y" if "i < j" "j < length xss" for i j
      using Cons.prems(2) [of "Suc i" "Suc j"] that by simp
  qed (use Cons.prems(1) in simp)
  ultimately show ?case using Cons.prems(1) by (auto simp: sorted_wrt_append)
qed simp

lemma tree_items_ascending:
  assumes "tree_on pg t" and "tree_ordered t"
  shows "keys_ascending (map fst (tree_items t))"
  using assms
proof (induction t)
  case (Leaf_page node)
  then show ?case by (simp add: node_items_keys leaf_node_def)
next
  case (Inner_page node cs)
  have sep: "separates (node_key_list node) cs" using Inner_page.prems(2) by simp
  have "\<forall>xs \<in> set (map (map fst \<circ> tree_items) cs). sorted_wrt (<) xs"
    using Inner_page by (simp add: keys_ascending_def)
  moreover have "\<forall>x \<in> set (map (map fst \<circ> tree_items) cs ! i). \<forall>y \<in> set (map (map fst \<circ> tree_items) cs ! j). x < y"
    if "i < j" "j < length (map (map fst \<circ> tree_items) cs)" for i j
  proof -
    have len: "length cs = n_keys node + 1" using sep by (simp add: separates_def)
    have S: "\<forall>k \<in> tree_keys (cs ! l). if l \<le> i then k \<le> node_key_list node ! i else node_key_list node ! i < k" if "l < length cs" for l
    proof -
      have "i < length (node_key_list node)" using \<open>i < j\<close> \<open>j < length _\<close> len by simp
      then show ?thesis using sep that unfolding separates_def by blast
    qed
    show ?thesis using S [of i] S [of j] that by fastforce
  qed
  ultimately have "sorted_wrt (<) (concat (map (map fst \<circ> tree_items) cs))" by (rule sorted_wrt_concat)
  then show ?case by (simp add: keys_ascending_def map_concat)
qed

text \<open>
  C5: a scan of a table tree ends: after as many rounds as the tree has entries, every entry of its leaves
  has been delivered, in the ascending order of the keys, and the scan is done.  Nothing on the disk changes.  The pages
  below the root have entries each, as insertion leaves them; an empty root leaf is a scan without rows.
\<close>

theorem scan_delivers_tree:
  assumes "table_tree_on tree pg t" and "filled_tree t \<or> tree_height t = 0"
    and "length buffer < 2147483648" and "length (tree_items t) < n"
  shows "\<exists>pg'. scan_tree n tree pg buffer = Some (map (row_of buffer) (tree_items t), pg') \<and>
    keys_ascending (map fst (tree_items t)) \<and> table_tree_on tree pg' t \<and> disk_of cf_data pg' = disk_of cf_data pg"
proof -
  have on: "tree_on pg t" using assms(1) by (simp add: table_tree_on_def)
  have asc: "keys_ascending (map fst (tree_items t))"
    using tree_items_ascending [OF on] assms(1) by (simp add: table_tree_on_def)
  obtain a op where P: "btree_op_scan_prepare (snd (btree_op_scan_acquire tree)) pg = Some (BTREE_OK, op, pg\<lparr>pgr_cache := a\<rparr>)"
    "table_tree_on tree (pg\<lparr>pgr_cache := a\<rparr>) t"
    "if filled_tree t then scanning op tree (first_position t) t else btree_op_scan_done op"
    using scan_prepare_run [OF assms(1,2)] by blast
  have run: "scan_tree n tree pg buffer = scan_rows n op (pg\<lparr>pgr_cache := a\<rparr>) buffer"
    using P(1) by (simp add: scan_tree_def)
  show ?thesis
  proof (cases "filled_tree t")
    case True
    note F = first_position_in [OF on True]
    have "scanning op tree (first_position t) t" using P(3) True by simp
    then obtain b where "scan_rows n op (pg\<lparr>pgr_cache := a\<rparr>) buffer = Some (map (row_of buffer) (tree_items t), pg\<lparr>pgr_cache := b\<rparr>)"
      "table_tree_on tree (pg\<lparr>pgr_cache := b\<rparr>) t"
      using scan_rows_run [OF P(2) True _ _ assms(3), of "first_position t" op n] F assms(4) by auto
    then show ?thesis using run asc by (intro exI [of _ "pg\<lparr>pgr_cache := b\<rparr>"]) simp
  next
    case False
    then obtain node where node: "t = Leaf_page node" "n_keys node = 0" using assms(2) by (cases t) simp_all
    then have "tree_items t = []" by (simp add: node_items_def node_abs_def)
    moreover obtain m where "n = Suc m" using assms(4) by (cases n) auto
    ultimately show ?thesis using run P(2,3) False asc by (intro exI [of _ "pg\<lparr>pgr_cache := a\<rparr>"]) simp
  qed
qed

end
