(* ===== verification/TreeDelete.thy ===== *)
theory TreeDelete
  imports TreeSelect
begin

text \<open>
  Deleting from a table tree of any height a key that is not in it.  In such a tree every separator is a
  key of the subtree left of it, so the descent meets no key that the leaves do not hold.  (Deleting the key
  of a separator from its leaf leaves the separator behind, and the descent then counts it as found; such a
  tree is not one of these.)
\<close>

text \<open>
  C29: deleting a key that no leaf of a table tree holds, whatever the height of the tree, succeeds: the
  tree stands as before and no page of the file changes.
\<close>

theorem btree_delete_absent:
  assumes "table_tree_on tree pg t" and "map_of (tree_items t) key = None"
  shows "\<exists>pg'. btree_delete tree pg key = Some (BTREE_OK, pg') \<and> table_tree_on tree pg' t \<and>
    disk_of cf_data pg' = disk_of cf_data pg"
proof -
  have absent: "key \<notin> tree_keys t" using assms(2) by (simp add: map_of_eq_None_iff)
  obtain ch where tr: "cursor_traverse_to (cursor_create tree) pg key =
      Some (BTREE_OK, key \<in> tree_keys t, path_cursor (cursor_create tree) t key, pg\<lparr>pgr_cache := ch\<rparr>)"
    and r: "pager_ready (pg\<lparr>pgr_cache := ch\<rparr>)"
    using traverse_to_tree [OF assms(1)] by blast
  show ?thesis
    using tr absent table_tree_cache [OF assms(1) r]
    by (intro exI [of _ "pg\<lparr>pgr_cache := ch\<rparr>"]) (simp add: btree_delete_def delete_single_def)
qed

text \<open>
  Rebalancing the root of a tree that has a separator left finds nothing to do.
\<close>

lemma acquire_load_sorted:
  assumes "pager_ready pg" and on: "node_on pg node" and "sorted_node node"
  shows "\<exists>c. noderc_acquire_load pg (node_page_number node) =
      Some (BTREE_OK, pg\<lparr>pgr_cache := c\<rparr>, node) \<and> pager_ready (pg\<lparr>pgr_cache := c\<rparr>)"
proof -
  obtain page where page: "page_create pg = Some (PAGER_OK, page)" "view_for pg (null_view page)"
    by (auto simp: page_create_eq view_for_def page_for_def null_view_def dps_def)
  then have "noderc_acquire_load pg (node_page_number node) =
      noderc_reinit_read pg (null_view page) (node_page_number node)"
    by (simp add: noderc_acquire_load_def noderc_reinit_read_def null_view_def)
  with reinit_sorted [OF assms page(2)] show ?thesis by simp
qed

lemma bta_rebalance_root_keeps:
  assumes "table_tree_on tree pg (Inner_page nd cs)" and "0 < n_keys nd" and "cur_tree c = tree"
  shows "\<exists>pg'. bta_rebalance_root c pg = Some (BTREE_OK, pg') \<and> table_tree_on tree pg' (Inner_page nd cs) \<and>
    disk_of cf_data pg' = disk_of cf_data pg"
proof -
  have T: "pager_ready pg" "node_on pg nd" "sorted_node nd" "node_is_leaf nd = Some False"
    "tr_root_page_id (cur_tree c) = node_page_number nd"
    using assms(1,3) by (auto simp: table_tree_on_def inner_node_def)
  obtain ch where L: "noderc_acquire_load pg (node_page_number nd) = Some (BTREE_OK, pg\<lparr>pgr_cache := ch\<rparr>, nd)"
    "pager_ready (pg\<lparr>pgr_cache := ch\<rparr>)"
    using acquire_load_sorted [OF T(1-3)] by blast
  note F = sorted_facts(3,4) [OF T(3)]
  have "(0 :: u32) < of_nat (n_keys nd)" using assms(2) F(2) by (simp add: word_less_nat_alt)
  then show ?thesis
    using L(1) F(1) T(4,5) table_tree_cache [OF assms(1) L(2)]
    by (intro exI [of _ "pg\<lparr>pgr_cache := ch\<rparr>"]) (simp add: bta_rebalance_root_def require_def)
qed

text \<open>The cursor that a descent through one inner node leaves.\<close>

lemma path_cursor_two_levels:
  fixes key :: u32
  assumes "table_tree_on tree pg (Inner_page nd cs)" and "\<forall>c \<in> set cs. \<exists>leaf. c = Leaf_page leaf"
  defines "c \<equiv> path_cursor (cursor_create tree) (Inner_page nd cs) key"
  shows "in_step c" and "depth c = 3" and "cur_tree c = tree"
proof -
  have root: "cur_page_id (cursor_create tree) = node_page_number (tree_root (Inner_page nd cs))"
    "cur_tree (cursor_create tree) = tree" "depth (cursor_create tree) = 1"
    using assms(1) by (simp_all add: table_tree_on_def cursor_create_def cursor_create_ex_def cursor_push_def MAX_CRUMBS_def)
  have on: "tree_on pg (Inner_page nd cs)" "tree_ordered (Inner_page nd cs)" using assms(1) by (simp_all add: table_tree_on_def)
  note P = path_cursor_facts [OF on root(1), where key = key, folded c_def]
  show "cur_tree c = tree" using P root(2) by simp
  show "in_step c" using P by (auto simp: in_step_def)
  have "key_place (node_key_list nd) key < length cs"
    using on(2) key_place_le [of "node_key_list nd" key] by (simp add: separates_def)
  moreover from this assms(2) obtain leaf where "cs ! key_place (node_key_list nd) key = Leaf_page leaf"
    by (metis nth_mem)
  ultimately show "depth c = 3" using root(3) by (simp add: c_def pushed_def at_child_def Let_def)
qed

end
