(* ===== verification/SplitDemo.thy ===== *)
theory SplitDemo
  imports OverflowDemo TreeGrow TreePut TreeScan TreeDelete
begin

text \<open>
  The leaf of \<open>leaf_pager\<close> is filled with seven entries, and split.  The four entries that go to the left
  half leave less room than another large entry needs.
\<close>

section \<open>Filling a leaf\<close>

lemma key_place_end: "\<forall>k \<in> set ks. k < key \<Longrightarrow> key_place ks key = length ks"
  by (metis key_place_def takeWhile_eq_all_conv)

definition fill_leaf :: "btree_node \<Rightarrow> (u32 \<times> bytes) list \<Rightarrow> btree_node" where
  "fill_leaf = foldl (\<lambda>node (key, payload). leaf_inserted node key payload)"

lemma fill_leaf_facts:
  assumes "leaf_node node" and "sorted_wrt (<) (node_key_list node @ map fst kvs)"
    and "(\<Sum>(k, p) \<leftarrow> kvs. length p + 16) \<le> n_free node" and "n_keys node + length kvs \<le> 255"
    and "\<forall>(k, p) \<in> set kvs. length p + 16 \<le> unat (btree_node_max_cell_size node)"
  defines "nd \<equiv> fill_leaf node kvs"
  shows "leaf_node nd \<and> node_abs nd = node_abs node @ map (\<lambda>(k, p). (k, inline_flags, p)) kvs \<and>
    n_free nd = n_free node - (\<Sum>(k, p) \<leftarrow> kvs. length p + 16) \<and>
    node_page nd = (node_page node)\<lparr>page_mem := node_mem nd\<rparr> \<and> length (node_mem nd) = length (node_mem node) \<and>
    node_page_number nd = node_page_number node \<and> btree_node_max_cell_size nd = btree_node_max_cell_size node"
  using assms(1-5) unfolding nd_def
proof (induction kvs arbitrary: node)
  case Nil
  then show ?case by (simp add: fill_leaf_def node_mem_def)
next
  case (Cons kv kvs)
  obtain key payload where kv: "kv = (key, payload)" by (cases kv)
  have room: "leaf_room node payload" using Cons.prems(3-5) kv by (auto simp: leaf_room_def)
  have less: "\<forall>k \<in> set (node_key_list node). k < key" using Cons.prems(2) kv by (simp add: sorted_wrt_append)
  then have new: "key \<notin> set (node_key_list node)" by auto
  let ?nd = "leaf_inserted node key payload"
  note L = leaf_inserted_facts [OF Cons.prems(1) room new]
  have abs: "node_abs ?nd = node_abs node @ [(key, inline_flags, payload)]"
    using L(9) key_place_end [OF less] by (simp add: insert_at_def)
  have keys: "node_key_list ?nd = node_key_list node @ [key]" by (simp add: node_key_list_abs abs)
  have "leaf_node (fill_leaf ?nd kvs) \<and> node_abs (fill_leaf ?nd kvs) = node_abs ?nd @ map (\<lambda>(k, p). (k, inline_flags, p)) kvs \<and>
    n_free (fill_leaf ?nd kvs) = n_free ?nd - (\<Sum>(k, p) \<leftarrow> kvs. length p + 16) \<and>
    node_page (fill_leaf ?nd kvs) = (node_page ?nd)\<lparr>page_mem := node_mem (fill_leaf ?nd kvs)\<rparr> \<and>
    length (node_mem (fill_leaf ?nd kvs)) = length (node_mem ?nd) \<and>
    node_page_number (fill_leaf ?nd kvs) = node_page_number ?nd \<and>
    btree_node_max_cell_size (fill_leaf ?nd kvs) = btree_node_max_cell_size ?nd"
    using Cons.prems(2-5) kv by (intro Cons.IH) (auto simp: L(1-8) keys)
  moreover have "fill_leaf node (kv # kvs) = fill_leaf ?nd kvs" by (simp add: fill_leaf_def kv)
  ultimately show ?case by (simp add: L(1-8) abs kv)
qed

section \<open>The full leaf\<close>

definition demo_items :: "(u32 \<times> bytes) list" where
  "demo_items = map (\<lambda>k. (k, replicate 22 (ucast k))) [10, 20, 30, 40] @ map (\<lambda>k. (k, [])) [50, 60, 70]"

definition demo_leaf :: btree_node where
  "demo_leaf = stored (fill_leaf empty_leaf demo_items)"

lemma demo_leaf_facts:
  "leaf_node demo_leaf" "node_abs demo_leaf = map (\<lambda>(k, p). (k, inline_flags, p)) demo_items" "n_free demo_leaf = 0"
  "node_page_number demo_leaf = 2" "unat (btree_node_max_cell_size demo_leaf) = 50"
  "\<exists>pg. leaf_tree tree2 pg demo_leaf \<and> pager_stock pg [] 3 \<and> dps pg = 232"
proof -
  let ?nd = "fill_leaf empty_leaf demo_items"
  have abs: "node_abs empty_leaf = []" by (simp add: node_abs_def empty_leaf_parts)
  have "sorted_wrt (<) (node_key_list empty_leaf @ map fst demo_items)"
    by (simp add: node_key_list_abs abs demo_items_def)
  moreover have "(\<Sum>(k, p) \<leftarrow> demo_items. length p + 16) = 200" by (simp add: demo_items_def)
  moreover have "\<forall>(k, p) \<in> set demo_items. length p + 16 \<le> unat (btree_node_max_cell_size empty_leaf)"
    by (simp add: demo_items_def empty_leaf_max)
  ultimately have F: "leaf_node ?nd" "node_abs ?nd = map (\<lambda>(k, p). (k, inline_flags, p)) demo_items" "n_free ?nd = 0"
    "node_page ?nd = (node_page empty_leaf)\<lparr>page_mem := node_mem ?nd\<rparr>" "length (node_mem ?nd) = length (node_mem empty_leaf)"
    "node_page_number ?nd = 2" "unat (btree_node_max_cell_size ?nd) = 50"
    using fill_leaf_facts [OF empty_leaf_leaf, of demo_items]
    by (simp_all add: empty_leaf_parts empty_leaf_on(3) empty_leaf_max abs) (simp_all add: demo_items_def empty_leaf_max)
  note S = stored_facts [OF F(1), folded demo_leaf_def]
  show D: "leaf_node demo_leaf" "node_abs demo_leaf = map (\<lambda>(k, p). (k, inline_flags, p)) demo_items" "n_free demo_leaf = 0"
    "node_page_number demo_leaf = 2" "unat (btree_node_max_cell_size demo_leaf) = 50"
    using S F by simp_all
  have ready: "pager_ready leaf_pager" using demo_tree by (simp add: leaf_tree_def)
  have sz: "length (node_mem ?nd) = dps leaf_pager" "page_size (node_page ?nd) = pgr_page_size leaf_pager"
    using F(4,5) node_on_length [OF ready empty_leaf_on(2)] empty_leaf_on(2) by (simp_all add: node_on_def)
  obtain pg where W: "pager_ready pg" "node_on pg demo_leaf"
    "disk_of cf_data pg = (disk_of cf_data leaf_pager)(2 \<mapsto> node_mem demo_leaf)"
    "same_pager co_room leaf_pager pg" "pgr_max_page pg = max (pgr_max_page leaf_pager) 2"
    using write_leaf [OF ready F(1) _ sz, folded demo_leaf_def] demo_room F(6) by auto
  have stock: "pager_stock leaf_pager [] 3" by (rule demo_stock) simp
  have max: "pgr_max_page pg = pgr_max_page leaf_pager" using W(5) by (simp add: leaf_pager_def)
  have "free_list (disk_of cf_data pg) []" using stock W(3) by (simp add: pager_stock_def free_list_upd)
  from stock_kept [OF stock W(4,1) max this] have "pager_stock pg [] 3" .
  moreover have "leaf_tree tree2 pg demo_leaf"
    using W(1,2) D(1,4) demo_tree by (simp add: leaf_tree_def empty_leaf_on(3))
  moreover have "dps pg = 232" using W(4) by (simp add: same_pager_def dps_def leaf_pager_def)
  ultimately show "\<exists>pg. leaf_tree tree2 pg demo_leaf \<and> pager_stock pg [] 3 \<and> dps pg = 232" by blast
qed

lemma demo_leaf_keys:
  "n_keys demo_leaf = 7" "node_key_list demo_leaf = [10, 20, 30, 40, 50, 60, 70]"
  "(\<Sum>e \<leftarrow> node_abs demo_leaf. entry_room e) = 200" "node_lookup demo_leaf 15 = None"
  "node_lookup demo_leaf 20 = Some (replicate 22 20)"
  "\<forall>e \<in> set (node_abs demo_leaf). entry_room e \<le> 50"
proof -
  note abs = demo_leaf_facts(2) [unfolded demo_items_def, simplified]
  show n: "n_keys demo_leaf = 7" using arg_cong [OF abs, of length] by simp
  show "node_key_list demo_leaf = [10, 20, 30, 40, 50, 60, 70]" by (simp add: node_key_list_abs abs)
  show "(\<Sum>e \<leftarrow> node_abs demo_leaf. entry_room e) = 200" "\<forall>e \<in> set (node_abs demo_leaf). entry_room e \<le> 50"
    by (simp_all add: abs entry_room_def)
  show "node_lookup demo_leaf 15 = None" "node_lookup demo_leaf 20 = Some (replicate 22 20)"
    by (simp_all add: node_lookup_def abs)
qed

section \<open>Splitting it\<close>

lemma stock_less: "pager_stock pg ys n \<Longrightarrow> m \<le> n \<Longrightarrow> pager_stock pg ys m"
  by (auto simp: pager_stock_def more_room_def)

lemma split_node_refines_witness:
  "\<exists>l r. split_node demo_leaf leaf_pager empty_leaf empty_leaf = Some (40, l, r, leaf_pager) \<and>
    node_abs l @ node_abs r = node_abs demo_leaf \<and> map fst (node_abs r) = [50, 60, 70]"
proof -
  have wf: "node_wf demo_leaf" "node_is_leaf demo_leaf = Some True" using demo_leaf_facts(1) by (simp_all add: leaf_node_def)
  have "split_target demo_leaf empty_leaf"
    using empty_leaf_on(1) demo_leaf_keys(3,6)
    by (simp add: split_target_def empty_leaf_max empty_leaf_parts) (simp add: node_abs_def empty_leaf_parts)
  from split_node_refines [OF wf(1) _ wf(2) this this, of leaf_pager] show ?thesis
    by (auto simp: demo_leaf_keys(1) demo_leaf_facts(2)) (auto simp: demo_items_def)
qed

lemma demo_split:
  "\<exists>pg. leaf_tree tree2 pg demo_leaf \<and> pager_stock pg [] 3 \<and> half_room pg (split_half demo_leaf 15) [9] \<and>
    \<not> half_room pg (split_half demo_leaf 15) (replicate 34 1)"
  "full_leaf demo_leaf [9]" "full_leaf demo_leaf (replicate 34 1)"
  "\<forall>k \<in> insert 15 (set (node_key_list demo_leaf)). k < 2147483648" "tr_root_page_id tree2 = 2"
proof -
  obtain pg where pg: "leaf_tree tree2 pg demo_leaf" "pager_stock pg [] 3" "dps pg = 232"
    using demo_leaf_facts(6) by blast
  have "split_half demo_leaf 15 = take 4 (node_abs demo_leaf)"
    by (simp add: split_half_def split_key_def left_half_def demo_leaf_keys(1) demo_leaf_facts(2)) (simp add: demo_items_def)
  then have "(\<Sum>e \<leftarrow> split_half demo_leaf 15. entry_room e) = 152"
    by (simp add: demo_leaf_facts(2) demo_items_def entry_room_def)
  then have "half_room pg (split_half demo_leaf 15) [9] \<and> \<not> half_room pg (split_half demo_leaf 15) (replicate 34 1)"
    by (simp add: half_room_def pg(3))
  then show "\<exists>pg. leaf_tree tree2 pg demo_leaf \<and> pager_stock pg [] 3 \<and> half_room pg (split_half demo_leaf 15) [9] \<and>
      \<not> half_room pg (split_half demo_leaf 15) (replicate 34 1)"
    using pg(1,2) by blast
  show "full_leaf demo_leaf [9]" "full_leaf demo_leaf (replicate 34 1)"
    using demo_leaf_facts(3,5) demo_leaf_keys(6) by (simp_all add: full_leaf_def)
  show "\<forall>k \<in> insert 15 (set (node_key_list demo_leaf)). k < 2147483648" by (simp add: demo_leaf_keys(2))
  show "tr_root_page_id tree2 = 2" by (simp add: tree2_def table_tree_def)
qed

text \<open>A payload of 34 bytes has no room in its half: the key 15 is lost.\<close>

lemma btree_insert_splits_root_witness:
  "\<exists>pg pg' t. leaf_tree tree2 pg demo_leaf \<and> btree_insert tree2 pg 15 (replicate 34 1) 34 = Some (BTREE_OK, pg') \<and>
    table_tree_on tree2 pg' t \<and> tree_height t = 1 \<and> map_of (tree_items t) 15 = None \<and>
    map_of (tree_items t) 20 = Some (replicate 22 20)"
proof -
  obtain pg where pg: "leaf_tree tree2 pg demo_leaf" "pager_stock pg [] 3"
    "\<not> half_room pg (split_half demo_leaf 15) (replicate 34 1)"
    using demo_split(1) by blast
  have stock: "pager_stock pg [] 2" by (rule stock_less [OF pg(2)]) simp
  obtain pg' t where "btree_insert tree2 pg 15 (replicate 34 1) 34 = Some (BTREE_OK, pg')"
    "table_tree_on tree2 pg' t" "tree_height t = 1" "map_of (tree_items t) = node_lookup demo_leaf"
    using btree_insert_splits_root [OF pg(1) stock _ _ demo_split(3) demo_leaf_keys(4) demo_split(4)] pg(3) demo_split(5) by auto
  then show ?thesis using pg(1) demo_leaf_keys(4,5) by (intro exI [of _ pg] exI [of _ pg'] exI [of _ t]) simp
qed

text \<open>A key that has room.\<close>

lemma demo_root_split:
  assumes "length payload \<le> 34" and "node_lookup demo_leaf key = None" and "key < 2147483648"
    and room: "(\<Sum>e \<leftarrow> split_half demo_leaf key. entry_room e) + length payload \<le> 184"
  shows "\<exists>pg t. table_tree_on tree2 pg t \<and> tree_height t = 1 \<and> (\<forall>j \<in> set (tree_pages t). can_write co_room pg j) \<and>
    split_into pg demo_leaf key t \<and> 1 \<notin> set (tree_pages t) \<and> pager_stock pg [] 1 \<and>
    map_of (tree_items t) = (node_lookup demo_leaf)(key \<mapsto> payload)"
proof -
  obtain pg where pg: "leaf_tree tree2 pg demo_leaf" "pager_stock pg [] 3" "dps pg = 232" using demo_leaf_facts(6) by blast
  have stock: "pager_stock pg [] (1 + 2)" using pg(2) by (simp add: eval_nat_numeral)
  have half: "half_room pg (split_half demo_leaf key) payload" using room by (simp add: half_room_def pg(3))
  have full: "full_leaf demo_leaf payload"
    using assms(1) demo_leaf_facts(3,5) demo_leaf_keys(6) by (simp add: full_leaf_def)
  have root: "tr_root_page_id tree2 \<notin> set []" "tr_root_page_id tree2 \<noteq> 1" using demo_split(5) by simp_all
  have small: "\<forall>k \<in> insert key (set (node_key_list demo_leaf)). k < 2147483648"
    using assms(3) by (simp add: demo_leaf_keys(2))
  from insert_splits_root_run [OF pg(1) stock root full assms(2) small] half show ?thesis by auto
qed

lemma demo_split_rooms:
  "(\<Sum>e \<leftarrow> split_half demo_leaf 15. entry_room e) = 152" "(\<Sum>e \<leftarrow> split_half demo_leaf 65. entry_room e) = 48"
  "split_key demo_leaf = 40" "node_lookup demo_leaf 65 = None" "node_lookup demo_leaf 25 = None" "node_end demo_leaf = 232"
  "left_half demo_leaf = map (\<lambda>k. (k, inline_flags, replicate 22 (ucast k))) [10, 20, 30, 40]"
proof -
  obtain pg where "leaf_tree tree2 pg demo_leaf" "dps pg = 232" using demo_leaf_facts(6) by blast
  then show "node_end demo_leaf = 232" using node_on_length [of pg demo_leaf] by (simp add: leaf_tree_def node_end_def)
  have h: "left_half demo_leaf = take 4 (node_abs demo_leaf)" "right_half demo_leaf = drop 4 (node_abs demo_leaf)"
    by (simp_all add: left_half_def right_half_def demo_leaf_keys(1))
  show "left_half demo_leaf = map (\<lambda>k. (k, inline_flags, replicate 22 (ucast k))) [10, 20, 30, 40]"
    unfolding h demo_leaf_facts(2) by (simp add: demo_items_def)
  show key: "split_key demo_leaf = 40" by (simp add: split_key_def h demo_leaf_facts(2)) (simp add: demo_items_def)
  show "(\<Sum>e \<leftarrow> split_half demo_leaf 15. entry_room e) = 152" "(\<Sum>e \<leftarrow> split_half demo_leaf 65. entry_room e) = 48"
    by (simp_all add: split_half_def key h demo_leaf_facts(2) demo_items_def entry_room_def)
  show "node_lookup demo_leaf 65 = None" "node_lookup demo_leaf 25 = None"
    by (simp_all add: node_lookup_def demo_leaf_facts(2)) (simp_all add: demo_items_def)
qed

text \<open>A payload of one byte has room: afterwards it is found in the tree of height one.\<close>

lemma btree_select_tree_witness:
  "\<exists>pg t pg'. table_tree_on tree2 pg t \<and> tree_height t = 1 \<and>
    btree_select_ex tree2 pg 15 [0, 0] 2 = Some (BTREE_OK, pg', [9, 0])"
proof -
  obtain pg' t where T: "table_tree_on tree2 pg' t" "tree_height t = 1" "map_of (tree_items t) = (node_lookup demo_leaf)(15 \<mapsto> [9])"
    using demo_root_split [of "[9]" 15] demo_split_rooms(1) demo_leaf_keys(4) by auto
  from btree_select_tree [OF T(1), of "[0, 0]" 15] T show ?thesis by (auto simp: filled_def read_status_def)
qed

text \<open>The right half of that tree has room for another key.\<close>

lemma btree_insert_tree_witness:
  "\<exists>pg t pg' t'. table_tree_on tree2 pg t \<and> tree_height t = 1 \<and>
    btree_insert tree2 pg 55 [1, 2] 2 = Some (BTREE_OK, pg') \<and> table_tree_on tree2 pg' t' \<and>
    map_of (tree_items t') = (node_lookup demo_leaf)(15 \<mapsto> [9], 55 \<mapsto> [1, 2])"
proof -
  obtain pg t where T: "table_tree_on tree2 pg t" "tree_height t = 1" "\<forall>j \<in> set (tree_pages t). can_write co_room pg j"
    "split_into pg demo_leaf 15 t" "map_of (tree_items t) = (node_lookup demo_leaf)(15 \<mapsto> [9])"
    using demo_root_split [of "[9]" 15] demo_split_rooms(1) demo_leaf_keys(4) by auto
  note sep = demo_split_rooms(3)
  obtain nd l r where t: "t = Inner_page nd [Leaf_page l, Leaf_page r]" "node_key_list nd = [40]"
    "half_on pg demo_leaf (right_half demo_leaf) r"
    using T(4) by (auto simp: split_into_def sep)
  have leaf: "tree_leaf t 55 = r" by (simp add: t(1,2) key_place_def)
  have right: "right_half demo_leaf = [(50, inline_flags, []), (60, inline_flags, []), (70, inline_flags, [])]"
    by (simp add: right_half_def demo_leaf_keys(1) demo_leaf_facts(2)) (simp add: demo_items_def)
  have dps: "dps pg = 232" using T(4) demo_split_rooms(6) by (auto simp: split_into_def)
  have "n_keys r = 3" using t(3) length_node_abs [of r] by (simp add: half_on_def right)
  then have room: "leaf_room (tree_leaf t 55) [1, 2]"
    using t(3) demo_leaf_facts(5) unfolding leaf by (simp add: leaf_room_def half_on_def right entry_room_def dps)
  have new: "map_of (tree_items t) 55 = None"
    unfolding T(5) by (simp add: node_lookup_def demo_leaf_facts(2)) (simp add: demo_items_def)
  have "can_write co_room pg (node_page_number (tree_leaf t 55))" using T(3) unfolding leaf by (simp add: t(1))
  from btree_insert_tree [OF T(1) room new this]
  obtain pg' t' where "btree_insert tree2 pg 55 [1, 2] 2 = Some (BTREE_OK, pg')" "table_tree_on tree2 pg' t'"
    "map_of (tree_items t') = (map_of (tree_items t))(55 \<mapsto> [1, 2])" by auto
  then show ?thesis using T(1,2,5) by (intro exI [of _ pg] exI [of _ t] exI [of _ pg'] exI [of _ t']) simp
qed

text \<open>
  After the key 65, which goes to the right half, the left half of that tree has 48 bytes left: a payload of
  34 bytes splits it again.
\<close>

lemma btree_insert_splits_leaf_witness:
  "\<exists>pg t pg' t'. table_tree_on tree2 pg t \<and> tree_height t = 1 \<and>
    btree_insert tree2 pg 25 (replicate 34 1) 34 = Some (BTREE_OK, pg') \<and> table_tree_on tree2 pg' t' \<and>
    map_of (tree_items t') = (node_lookup demo_leaf)(65 \<mapsto> [9], 25 \<mapsto> replicate 34 1)"
proof -
  obtain pg t where T: "table_tree_on tree2 pg t" "tree_height t = 1" "split_into pg demo_leaf 65 t"
    "1 \<notin> set (tree_pages t)" "pager_stock pg [] 1" "map_of (tree_items t) = (node_lookup demo_leaf)(65 \<mapsto> [9])"
    using demo_root_split [of "[9]" 65] demo_split_rooms(2,4) by auto
  have dps: "dps pg = 232" using T(3) demo_split_rooms(6) by (auto simp: split_into_def)
  obtain nd l r where t: "t = Inner_page nd [Leaf_page l, Leaf_page r]" "node_key_list nd = [40]" "n_free nd = 180"
    "half_on pg demo_leaf (left_half demo_leaf) l"
    using T(3) dps by (auto simp: split_into_def demo_split_rooms(3))
  have abs: "node_abs l = map (\<lambda>k. (k, inline_flags, replicate 22 (ucast k))) [10, 20, 30, 40]"
    using t(4) by (simp add: half_on_def demo_split_rooms(7))
  have l: "n_keys l = 4" "n_free l = 48" "unat (btree_node_max_cell_size l) = 50" "node_key_list l = [10, 20, 30, 40]"
  proof -
    show "n_keys l = 4" using length_node_abs [of l] unfolding abs by simp
    have "(\<Sum>e \<leftarrow> left_half demo_leaf. entry_room e) = 152" by (simp add: demo_split_rooms(7) entry_room_def)
    then show "n_free l = 48" using t(4) by (simp add: half_on_def dps)
    show "unat (btree_node_max_cell_size l) = 50" using t(4) demo_leaf_facts(5) by (simp add: half_on_def)
    show "node_key_list l = [10, 20, 30, 40]" by (simp add: node_key_list_abs abs)
  qed
  have at: "tree_leaf t 25 = l" "tree_parent t 25 = nd" by (simp_all add: t(1,2) key_place_def tree_parent_def Let_def)
  have full: "full_leaf (tree_leaf t 25) (replicate 34 1)"
    unfolding at using l(2,3) by (simp add: full_leaf_def abs entry_room_def)
  have nd: "node_on pg nd" "inner_node nd" "pager_ready pg" "node_page_number nd \<noteq> 1"
    using T(1,4) by (simp_all add: table_tree_on_def t(1))
  then have "node_end nd = 232" using node_on_length [of pg nd] dps by (simp add: node_end_def)
  moreover have "node_shape nd" using nd(2) sorted_facts(2) [of nd] by (simp add: inner_node_def)
  ultimately have "unat (btree_node_max_cell_size nd) = 50" using max_cell_bound [of nd] nd(4) by simp
  moreover have "n_keys nd = 1" using arg_cong [OF t(2), of length] by simp
  ultimately have room: "child_room (tree_parent t 25)" unfolding at using t(3) by (simp add: child_room_def)
  have new: "map_of (tree_items t) 25 = None" using demo_split_rooms(5) by (simp add: T(6))
  have halves: "left_half l = take 2 (node_abs l)" "right_half l = drop 2 (node_abs l)"
    by (simp_all add: left_half_def right_half_def l(1))
  have key: "split_key l = 20" by (simp add: split_key_def halves abs)
  have half: "half_room pg (split_half (tree_leaf t 25) 25) (replicate 34 1)"
    unfolding at by (simp add: half_room_def dps split_half_def key halves abs entry_room_def)
  have deep: "tree_height t \<noteq> 0" "1 < n_keys (tree_leaf t 25)" "set [] \<inter> set (tree_pages t) = {}"
    "\<forall>k \<in> insert 25 (set (node_key_list (tree_leaf t 25))). k < 2147483648"
    using T(2) l(1,4) unfolding at by simp_all
  from btree_insert_splits_leaf [OF T(1,5,4) deep(3,1) full deep(2) room new deep(4)]
  obtain pg' t' where "btree_insert tree2 pg 25 (replicate 34 1) 34 = Some (BTREE_OK, pg')" "table_tree_on tree2 pg' t'"
    "map_of (tree_items t') = (map_of (tree_items t))(25 \<mapsto> replicate 34 1)"
    using half by (auto simp: content_after_split_def)
  then show ?thesis using T(1,2,6) by (intro exI [of _ pg] exI [of _ t] exI [of _ pg'] exI [of _ t']) simp
qed

text \<open>Deleting a key that the tree of height one does not hold.\<close>

lemma btree_delete_absent_witness:
  "\<exists>pg t pg'. table_tree_on tree2 pg t \<and> tree_height t = 1 \<and> btree_delete tree2 pg 25 = Some (BTREE_OK, pg') \<and>
    table_tree_on tree2 pg' t \<and> disk_of cf_data pg' = disk_of cf_data pg"
proof -
  obtain pg t where T: "table_tree_on tree2 pg t" "tree_height t = 1" "map_of (tree_items t) = (node_lookup demo_leaf)(15 \<mapsto> [9])"
    using demo_root_split [of "[9]" 15] demo_split_rooms(1) demo_leaf_keys(4) by auto
  have "map_of (tree_items t) 25 = None" using demo_split_rooms(5) by (simp add: T(3))
  from btree_delete_absent [OF T(1) this] T(1,2) show ?thesis by blast
qed

text \<open>
  The cursor at the end of a descent in the same tree: its root keeps its one separator, so the rebalancing
  ends with success and the tree as it was.
\<close>

lemma bta_rebalance_shallow_witness:
  "\<exists>pg t c c' pg'. table_tree_on tree2 pg t \<and> tree_height t = 1 \<and> c = path_cursor (cursor_create tree2) t 25 \<and>
    depth c = 3 \<and> bta_rebalance c pg = Some (BTREE_OK, c', pg') \<and> table_tree_on tree2 pg' t"
proof -
  obtain pg t where T: "table_tree_on tree2 pg t" "tree_height t = 1" "split_into pg demo_leaf 15 t"
    using demo_root_split [of "[9]" 15] demo_split_rooms(1) demo_leaf_keys(4) by auto
  obtain nd l r where t: "t = Inner_page nd [Leaf_page l, Leaf_page r]" "node_key_list nd = [40]"
    using T(3) by (auto simp: split_into_def demo_split_rooms(3))
  have keys: "0 < n_keys nd" using arg_cong [OF t(2), of length] by simp
  have "\<forall>c \<in> set [Leaf_page l, Leaf_page r]. \<exists>leaf. c = Leaf_page leaf" by simp
  note C = path_cursor_two_levels [OF T(1) [unfolded t(1)] this, of 25, folded t(1)]
  obtain pg' where R: "bta_rebalance_root (path_cursor (cursor_create tree2) t 25) pg = Some (BTREE_OK, pg')"
    "table_tree_on tree2 pg' t"
    using bta_rebalance_root_keeps [OF T(1) [unfolded t(1)] keys C(3), folded t(1)] by blast
  have "depth (path_cursor (cursor_create tree2) t 25) \<le> 3" using C(2) by simp
  from bta_rebalance_shallow [OF C(1) this, of pg] obtain c' where
    "bta_rebalance (path_cursor (cursor_create tree2) t 25) pg = Some (BTREE_OK, c', pg')"
    by (auto simp: R(1) with_cursor_def)
  with T(1,2) C(2) R(2) show ?thesis by blast
qed

text \<open>The full leaf, scanned: the four payloads of 22 bytes, and three empty ones.\<close>

lemma scan_delivers_tree_witness:
  "\<exists>pg pg'. leaf_tree tree2 pg demo_leaf \<and> scan_tree 8 tree2 pg (replicate 22 0) =
    Some (map (\<lambda>k. (BTREE_OK, replicate 22 k)) [10, 20, 30, 40] @ replicate 3 (BTREE_OK, replicate 22 0), pg')"
proof -
  obtain pg where pg: "leaf_tree tree2 pg demo_leaf" using demo_leaf_facts(6) by blast
  then have t: "table_tree_on tree2 pg (Leaf_page demo_leaf)" by (simp add: leaf_tree_on)
  have items: "tree_items (Leaf_page demo_leaf) = demo_items"
    by (simp add: node_items_def demo_leaf_facts(2) comp_def split_def)
  have len: "length demo_items < 8" by (simp add: demo_items_def)
  have rows: "map (row_of (replicate 22 0)) demo_items =
      map (\<lambda>k. (BTREE_OK, replicate 22 k)) [10, 20, 30, 40] @ replicate 3 (BTREE_OK, replicate 22 0)"
    by (simp add: demo_items_def row_of_def read_status_def filled_def numeral_3_eq_3)
  obtain pg' where "scan_tree 8 tree2 pg (replicate 22 0) = Some (map (row_of (replicate 22 0)) demo_items, pg')"
    using scan_delivers_tree [OF t, of "replicate 22 0" 8] len unfolding items by auto
  then show ?thesis using pg unfolding rows by blast
qed

end
