(* ===== verification/SchemaColumns.thy ===== *)
theory SchemaColumns
  imports SchemaProps
begin

text \<open>
  The comparison by a schema of several columns of variable size: what one round of the loop does with
  a column it has read nothing of yet, and what that makes of two and of three columns.
\<close>

section \<open>Contexts\<close>



text \<open>Where the columns of the key are, from the offset \<open>off\<close> on.\<close>

primrec column_keys :: "nat \<Rightarrow> bytes list \<Rightarrow> rkey_state list" where
  "column_keys off [] = []"
| "column_keys off (k # ks) =
     \<lparr>rk_size = of_nat (length k), rk_offset = of_nat (off + 4)\<rparr> # column_keys (off + 4 + length k) ks"


lemma length_column_keys [simp]: "length (column_keys off ks) = length ks"
  by (induction ks arbitrary: off) simp_all



section \<open>One round\<close>










section \<open>The loop\<close>




section \<open>Two and three columns\<close>












end
