(* ===== verification/SqlValue.thy ===== *)
theory SqlValue
  imports BTreeDefs Page NodeSearch
begin

text \<open>
  Strings, literals and values of the SQL engine (\<open>sql_string.c\<close>, \<open>sql_literalstr.h\<close>,
  \<open>sql_value.c\<close>), and its error codes (\<open>sql_defs.h\<close>, \<open>sql_utils.c\<close>).  A null pointer is \<open>None\<close>.
\<close>

section \<open>Error codes\<close>

datatype sql_e =
    SQL_INVALID
  | SQL_OK
  | SQL_ERR_INVALID_SQL
  | SQL_ERR_RECORD_MISSING_PKEY
  | SQL_ERR_BAD_PARSE
  | SQL_ERR_BAD_RECORD
  | SQL_ERR_UNKNOWN
  | SQL_ERR_TABLE_DNE
  | SQL_ERR_NOT_FOUND
  | SQL_ERR_SCAN_DONE

definition sqlbt_err :: "btree_e \<Rightarrow> sql_e" where
  "sqlbt_err err =
     (case err of
        BTREE_OK \<Rightarrow> SQL_OK
      | BTREE_ERR_ITER_DONE \<Rightarrow> SQL_ERR_SCAN_DONE
      | BTREE_ERR_KEY_NOT_FOUND \<Rightarrow> SQL_ERR_NOT_FOUND
      | _ \<Rightarrow> SQL_ERR_UNKNOWN)"

definition sqlpager_err :: "pager_e \<Rightarrow> sql_e" where
  "sqlpager_err err = (case err of PAGER_OK \<Rightarrow> SQL_OK | _ \<Rightarrow> SQL_ERR_UNKNOWN)"

datatype sql_dt_e = SQL_DT_INVAL | SQL_DT_STRING | SQL_DT_INT

section \<open>Strings\<close>

text \<open>The block \<open>ptr\<close> points to holds \<open>capacity\<close> bytes, the first \<open>size\<close> of them are the string.\<close>

record sql_string =
  ss_ptr :: bytes
  ss_size :: u32
  ss_capacity :: u32

text \<open>A fresh block is written before it is read; its first content does not matter.\<close>

definition sql_string_create :: "u32 \<Rightarrow> sql_string" where
  "sql_string_create capacity =
     \<lparr>ss_ptr = replicate (unat capacity) 0, ss_size = 0, ss_capacity = capacity\<rparr>"

definition sql_string_emplace :: "sql_string \<Rightarrow> bytes \<Rightarrow> u32 \<Rightarrow> sql_string option" where
  "sql_string_emplace str s n =
     do {
       xs \<leftarrow> mem_read s 0 (unat n);
       ptr \<leftarrow> mem_write (ss_ptr str) 0 xs;
       Some (str\<lparr>ss_ptr := ptr, ss_size := n\<rparr>)
     }"

definition sql_string_create_from :: "bytes \<Rightarrow> u32 \<Rightarrow> sql_string option" where
  "sql_string_create_from s n = sql_string_emplace (sql_string_create n) s n"

definition strnlen :: "bytes \<Rightarrow> nat \<Rightarrow> nat option" where
  "strnlen s n =
     (let len = length (takeWhile (\<lambda>c. c \<noteq> 0) (take n s)) in
      do { require (len < length s \<or> n \<le> length s); Some len })"

definition sql_string_create_from_cstring :: "bytes \<Rightarrow> sql_string option" where
  "sql_string_create_from_cstring s =
     do { len \<leftarrow> strnlen s 512; sql_string_create_from s (of_nat len) }"

definition sql_string_copy :: "sql_string \<Rightarrow> sql_string option" where
  "sql_string_copy l = sql_string_create_from (ss_ptr l) (ss_size l)"

text \<open>Both pointers after the move.\<close>

definition sql_string_move_lval ::
  "sql_string option \<Rightarrow> sql_string option \<Rightarrow> sql_string option \<times> sql_string option" where
  "sql_string_move_lval l r = (r, None)"

definition sql_string_equals :: "sql_string \<Rightarrow> sql_string \<Rightarrow> bool option" where
  "sql_string_equals l r =
     (if ss_size l \<noteq> ss_size r then Some False
      else do {
        xs \<leftarrow> mem_read (ss_ptr l) 0 (unat (ss_size l));
        ys \<leftarrow> mem_read (ss_ptr r) 0 (unat (ss_size l));
        Some (memcmp xs ys = 0)
      })"

definition sql_string_raw :: "sql_string \<Rightarrow> bytes" where
  "sql_string_raw l = ss_ptr l"

definition sql_string_len :: "sql_string \<Rightarrow> u32" where
  "sql_string_len l = ss_size l"

text \<open>A string literal of the C source, its terminating zero included.\<close>

definition c_string :: "string \<Rightarrow> bytes" where
  "c_string s = map of_char s @ [0]"

section \<open>Literals\<close>

datatype sql_literalstr_type_e =
    SQL_LITERALSTR_TYPE_INVAL
  | SQL_LITERALSTR_TYPE_STRING
  | SQL_LITERALSTR_TYPE_INT

record sql_literal_str =
  lit_value :: "sql_string option"
  lit_type :: sql_literalstr_type_e

section \<open>Values\<close>

datatype sql_value_type_e = SQL_VALUE_TYPE_INVAL | SQL_VALUE_TYPE_STRING | SQL_VALUE_TYPE_INT

record sql_number =
  sn_num :: "64 word"
  sn_width :: byte

text \<open>The union of a number and a string, tagged by the type.\<close>

datatype sql_value = Sql_inval | Sql_string (v_string: "sql_string option") | Sql_int (v_num: sql_number)

definition value_type :: "sql_value \<Rightarrow> sql_value_type_e" where
  "value_type value =
     (case value of
        Sql_inval \<Rightarrow> SQL_VALUE_TYPE_INVAL
      | Sql_string _ \<Rightarrow> SQL_VALUE_TYPE_STRING
      | Sql_int _ \<Rightarrow> SQL_VALUE_TYPE_INT)"

text \<open>\<open>char\<close> is signed; an overflow of \<open>int\<close> is undefined.\<close>

definition c_int :: "int \<Rightarrow> int option" where
  "c_int n = (if - 2147483648 \<le> n \<and> n < 2147483648 then Some n else None)"

fun str2int_from :: "int \<Rightarrow> bytes \<Rightarrow> int option" where
  "str2int_from ret [] = Some ret"
| "str2int_from ret (c # cs) =
     do {
       tens \<leftarrow> c_int (ret * 10);
       ret \<leftarrow> c_int (tens + (sint c - 48));
       str2int_from ret cs
     }"

definition str2int :: "bytes \<Rightarrow> u32 \<Rightarrow> int option" where
  "str2int str len = do { cs \<leftarrow> mem_read str 0 (nat (sint len)); str2int_from 0 cs }"

definition sql_value_acquire_eval :: "sql_literal_str \<Rightarrow> (sql_e \<times> sql_value) option" where
  "sql_value_acquire_eval lit =
     (case lit_type lit of
        SQL_LITERALSTR_TYPE_STRING \<Rightarrow> do {
          s \<leftarrow> lit_value lit;
          copy \<leftarrow> sql_string_copy s;
          Some (SQL_OK, Sql_string (Some copy))
        }
      | SQL_LITERALSTR_TYPE_INT \<Rightarrow> do {
          s \<leftarrow> lit_value lit;
          n \<leftarrow> str2int (sql_string_raw s) (sql_string_len s);
          Some (SQL_OK, Sql_int \<lparr>sn_num = word_of_int n, sn_width = 4\<rparr>)
        }
      | SQL_LITERALSTR_TYPE_INVAL \<Rightarrow> None)"

definition sql_value_release :: "sql_value \<Rightarrow> sql_value" where
  "sql_value_release value = Sql_inval"

text \<open>The writers return how much they wrote, and the memory with \<open>buf\<close> in it.\<close>

definition sql_string_ser :: "sql_string \<Rightarrow> bytes \<Rightarrow> nat \<Rightarrow> (u32 \<times> bytes) option" where
  "sql_string_ser val m buf =
     do {
       m \<leftarrow> mem_write32 m buf (sql_string_len val);
       xs \<leftarrow> mem_read (sql_string_raw val) 0 (unat (sql_string_len val));
       m \<leftarrow> mem_write m (buf + 4) xs;
       Some (4 + sql_string_len val, m)
     }"

definition sql_value_serialize :: "sql_value \<Rightarrow> bytes \<Rightarrow> nat \<Rightarrow> (u32 \<times> bytes) option" where
  "sql_value_serialize val m buf =
     (case val of
        Sql_string s \<Rightarrow> do { s \<leftarrow> s; sql_string_ser s m buf }
      | Sql_int n \<Rightarrow> do { m \<leftarrow> mem_write32 m buf (ucast (sn_num n)); Some (4, m) }
      | Sql_inval \<Rightarrow> None)"

definition sql_value_serialize_int :: "u32 \<Rightarrow> bytes \<Rightarrow> nat \<Rightarrow> (u32 \<times> bytes) option" where
  "sql_value_serialize_int val m buf = do { m \<leftarrow> mem_write32 m buf val; Some (4, m) }"

definition sql_value_serialize_string :: "sql_string \<Rightarrow> bytes \<Rightarrow> nat \<Rightarrow> (u32 \<times> bytes) option" where
  "sql_value_serialize_string str m buf = sql_string_ser str m buf"

fun serialize_values :: "sql_value list \<Rightarrow> bytes \<Rightarrow> nat \<Rightarrow> u32 \<Rightarrow> (u32 \<times> bytes) option" where
  "serialize_values [] m buf written = Some (written, m)"
| "serialize_values (val # vals) m buf written =
     do {
       (k, m) \<leftarrow> sql_value_serialize val m (buf + unat written);
       serialize_values vals m buf (written + k)
     }"

definition sql_value_array_serialize ::
  "sql_value list \<Rightarrow> u32 \<Rightarrow> bytes \<Rightarrow> nat \<Rightarrow> (u32 \<times> bytes) option" where
  "sql_value_array_serialize vals nvals m buf =
     do { vals \<leftarrow> mem_read vals 0 (unat nvals); serialize_values vals m buf 0 }"

definition value_ser_size :: "sql_value \<Rightarrow> u32 option" where
  "value_ser_size val =
     (case val of
        Sql_string s \<Rightarrow> do { s \<leftarrow> s; Some (4 + sql_string_len s) }
      | Sql_int _ \<Rightarrow> Some 4
      | Sql_inval \<Rightarrow> None)"

fun values_ser_size :: "sql_value list \<Rightarrow> u32 \<Rightarrow> u32 option" where
  "values_ser_size [] n = Some n"
| "values_ser_size (val # vals) n =
     do { k \<leftarrow> value_ser_size val; values_ser_size vals (n + k) }"

definition sql_value_array_ser_size :: "sql_value list \<Rightarrow> u32 \<Rightarrow> u32 option" where
  "sql_value_array_ser_size vals nvals =
     do { vals \<leftarrow> mem_read vals 0 (unat nvals); values_ser_size vals 0 }"

definition sql_value_equals :: "sql_value \<Rightarrow> sql_value \<Rightarrow> bool option" where
  "sql_value_equals l r =
     (case (l, r) of
        (Sql_int n, Sql_int k) \<Rightarrow> Some (sn_num n = sn_num k)
      | (Sql_string s, Sql_string t) \<Rightarrow> do { s \<leftarrow> s; t \<leftarrow> t; sql_string_equals s t }
      | _ \<Rightarrow> Some False)"

text \<open>The two values after the move.\<close>

definition sql_value_move :: "sql_value \<Rightarrow> sql_value \<Rightarrow> sql_value \<times> sql_value" where
  "sql_value_move l r = (r, Sql_inval)"

definition sql_string_deser :: "bytes \<Rightarrow> (u32 \<times> sql_string) option" where
  "sql_string_deser buf =
     do {
       len \<leftarrow> mem_read32 buf 0;
       s \<leftarrow> sql_string_create_from (drop 4 buf) len;
       Some (4 + len, s)
     }"

text \<open>
  A number is read without sign, and its width is what the value had in that place.  The type of a
  value that is not a number leaves no width; the code never reads it.
\<close>

definition value_width :: "sql_value \<Rightarrow> byte" where
  "value_width val = (case val of Sql_int n \<Rightarrow> sn_width n | _ \<Rightarrow> 0)"

definition sql_value_deserialize_as ::
  "sql_value \<Rightarrow> sql_value_type_e \<Rightarrow> bytes \<Rightarrow> (u32 \<times> sql_value) option" where
  "sql_value_deserialize_as val type buf =
     (case type of
        SQL_VALUE_TYPE_STRING \<Rightarrow> do {
          (k, s) \<leftarrow> sql_string_deser buf;
          Some (k, Sql_string (Some s))
        }
      | SQL_VALUE_TYPE_INT \<Rightarrow> do {
          num \<leftarrow> mem_read32 buf 0;
          Some (4, Sql_int \<lparr>sn_num = ucast num, sn_width = value_width val\<rparr>)
        }
      | SQL_VALUE_TYPE_INVAL \<Rightarrow> None)"


section \<open>Well-formed values and their bytes\<close>

definition string_ok :: "sql_string \<Rightarrow> bool" where
  "string_ok s \<longleftrightarrow> unat (ss_size s) \<le> length (ss_ptr s)"

definition text_of :: "sql_string \<Rightarrow> bytes" where
  "text_of s = take (unat (ss_size s)) (ss_ptr s)"

text \<open>The string object that holds exactly the bytes \<open>xs\<close>.\<close>

definition str :: "bytes \<Rightarrow> sql_string" where
  "str xs = \<lparr>ss_ptr = xs, ss_size = of_nat (length xs), ss_capacity = of_nat (length xs)\<rparr>"

lemma length_text_of [simp]: "string_ok s \<Longrightarrow> length (text_of s) = unat (ss_size s)"
  by (simp add: string_ok_def text_of_def)

lemma str_parts [simp]:
  assumes "length xs < 4294967296"
  shows "string_ok (str xs)" "text_of (str xs) = xs" "unat (ss_size (str xs)) = length xs"
  using assms by (simp_all add: str_def string_ok_def text_of_def unat_u32_of_nat)

lemma create_from:
  assumes "unat n \<le> length s"
  shows "sql_string_create_from s n = Some (str (take (unat n) s))"
  using assms
  by (simp add: sql_string_create_from_def sql_string_emplace_def sql_string_create_def mem_simps str_def)

lemma create_from_None: "\<not> unat n \<le> length s \<Longrightarrow> sql_string_create_from s n = None"
  by (simp add: sql_string_create_from_def sql_string_emplace_def mem_read_def)

lemma copy_str: "string_ok s \<Longrightarrow> sql_string_copy s = Some (str (text_of s))"
  by (simp add: sql_string_copy_def create_from string_ok_def text_of_def)

lemma create_from_cstring:
  assumes "0 \<notin> set (map (of_char :: char \<Rightarrow> byte) s)" and "length s < 512"
  shows "sql_string_create_from_cstring (c_string s) = Some (str (map of_char s))"
proof -
  have "takeWhile (\<lambda>c. c \<noteq> 0) (take 512 (c_string s)) = map (of_char :: char \<Rightarrow> byte) s"
    using assms by (auto simp: c_string_def takeWhile_append2 takeWhile_tail)
  then have "strnlen (c_string s) 512 = Some (length s)"
    by (simp add: strnlen_def c_string_def)
  then show ?thesis
    using assms(2) by (simp add: sql_string_create_from_cstring_def create_from unat_u32_of_nat c_string_def)
qed

lemma memcmp_eq_iff: "length xs = length ys \<Longrightarrow> memcmp xs ys = 0 \<longleftrightarrow> xs = ys"
  by (induction xs ys rule: memcmp.induct) auto

lemma string_equals:
  assumes "string_ok s" and "string_ok t"
  shows "sql_string_equals s t = Some (text_of s = text_of t)"
proof (cases "ss_size s = ss_size t")
  case True
  then show ?thesis
    using assms memcmp_eq_iff [of "text_of s" "text_of t"]
    by (simp add: sql_string_equals_def mem_simps string_ok_def text_of_def)
next
  case False
  then have "length (text_of s) \<noteq> length (text_of t)" using assms by (simp add: unat_u32_of_nat word_unat_eq_iff)
  with False show ?thesis by (auto simp: sql_string_equals_def)
qed

definition value_ok :: "sql_value \<Rightarrow> bool" where
  "value_ok val \<longleftrightarrow>
     (case val of
        Sql_inval \<Rightarrow> False
      | Sql_string s \<Rightarrow> (case s of None \<Rightarrow> False | Some s \<Rightarrow> string_ok s \<and> unat (ss_size s) < 2147483648)
      | Sql_int _ \<Rightarrow> True)"

text \<open>The bytes of a value, and the value that is read from them.\<close>

definition value_image :: "sql_value \<Rightarrow> bytes" where
  "value_image val =
     (case val of
        Sql_string (Some s) \<Rightarrow> ser_write_32bit_le (ss_size s) @ text_of s
      | Sql_int n \<Rightarrow> ser_write_32bit_le (ucast (sn_num n))
      | _ \<Rightarrow> [])"

definition reread :: "sql_value \<Rightarrow> byte \<Rightarrow> sql_value" where
  "reread val width =
     (case val of
        Sql_string (Some s) \<Rightarrow> Sql_string (Some (str (text_of s)))
      | Sql_int n \<Rightarrow> Sql_int \<lparr>sn_num = ucast (ucast (sn_num n) :: u32), sn_width = width\<rparr>
      | _ \<Rightarrow> Sql_inval)"

lemma value_type_simps [simp]:
  "value_type Sql_inval = SQL_VALUE_TYPE_INVAL" "value_type (Sql_string s) = SQL_VALUE_TYPE_STRING"
  "value_type (Sql_int n) = SQL_VALUE_TYPE_INT"
  by (simp_all add: value_type_def)

lemma value_cases [consumes 1, case_names String Int]:
  assumes "value_ok val"
  obtains (String) s where "val = Sql_string (Some s)" "string_ok s" "unat (ss_size s) < 2147483648"
    | (Int) n where "val = Sql_int n"
  using assms by (auto simp: value_ok_def split: sql_value.splits option.splits)

lemma length_value_image:
  "value_ok val \<Longrightarrow> length (value_image val) < 2147483652 \<and> 4 \<le> length (value_image val)"
  by (erule value_cases) (simp_all add: value_image_def)

lemma serialize_image:
  assumes "value_ok val" and "buf + length (value_image val) \<le> length m"
  shows "sql_value_serialize val m buf = Some (of_nat (length (value_image val)), patch m buf (value_image val))"
  using assms(1)
proof (cases rule: value_cases)
  case (String s)
  have img: "value_image val = ser_write_32bit_le (ss_size s) @ text_of s" using String by (simp add: value_image_def)
  have room: "buf + 4 + unat (ss_size s) \<le> length m" using assms(2) String(2) unfolding img by simp
  define m1 where "m1 = patch m buf (ser_write_32bit_le (ss_size s))"
  have m1: "mem_write32 m buf (ss_size s) = Some m1" "length m1 = length m"
    using room by (simp_all add: mem_write32_def mem_write_patch m1_def)
  have "mem_read (ss_ptr s) 0 (unat (ss_size s)) = Some (text_of s)"
    using String by (simp add: mem_read_def text_of_def string_ok_def)
  moreover have "mem_write m1 (buf + 4) (text_of s) = Some (patch m1 (buf + 4) (text_of s))"
    using room m1 String by (simp add: mem_write_patch)
  moreover have "patch m1 (buf + 4) (text_of s) = patch m buf (value_image val)"
    using room by (simp add: img m1_def patch_def ac_simps)
  moreover have "of_nat (length (value_image val)) = 4 + ss_size s" unfolding img using String(2) by simp
  ultimately show ?thesis
    using String(1) m1 by (simp add: sql_value_serialize_def sql_string_ser_def sql_string_len_def
        sql_string_raw_def)
next
  case (Int n)
  then show ?thesis
    using assms(2) by (simp add: sql_value_serialize_def value_image_def mem_write32_def mem_write_patch)
qed

lemma deserialize_image:
  assumes "value_ok val"
  shows "sql_value_deserialize_as old (value_type val) (value_image val @ rest) =
    Some (of_nat (length (value_image val)), reread val (value_width old))"
  using assms
proof (cases rule: value_cases)
  case (String s)
  then show ?thesis
    by (simp add: sql_value_deserialize_as_def sql_string_deser_def value_image_def mem_simps create_from reread_def)
next
  case (Int n)
  then show ?thesis
    by (simp add: sql_value_deserialize_as_def value_image_def mem_simps reread_def)
qed

text \<open>
  A value serialized into a buffer and read back with its type is the same string, or the number
  modulo \<open>2 ^ 32\<close>, read as an unsigned one; the bytes before and behind it are not touched.
\<close>

lemma sql_value_roundtrip:
  assumes "value_ok val" and "buf + length (value_image val) \<le> length m"
  shows "\<exists>k m'. sql_value_serialize val m buf = Some (k, m') \<and> length m' = length m \<and>
    take buf m' = take buf m \<and> drop (buf + unat k) m' = drop (buf + unat k) m \<and>
    sql_value_deserialize_as old (value_type val) (drop buf m') = Some (k, reread val (value_width old))"
proof -
  let ?img = "value_image val"
  have "unat (of_nat (length ?img) :: u32) = length ?img"
    using length_value_image [OF assms(1)] by (simp add: unat_u32_of_nat)
  moreover have "drop buf (patch m buf ?img) = ?img @ drop (buf + length ?img) m"
    using assms(2) by (simp add: patch_def)
  ultimately show ?thesis
    using serialize_image [OF assms] deserialize_image [OF assms(1)] assms(2)
    by (simp add: patch_def)
qed

text \<open>So a number that is not negative and fits into 32 bits survives.\<close>

lemma reread_small_int:
  assumes "uint (sn_num n) < 4294967296"
  shows "reread (Sql_int n) (sn_width n) = Sql_int n"
proof -
  have "ucast (ucast (sn_num n) :: u32) = sn_num n"
    using assms by (intro word_uint_eqI) (simp add: unsigned_ucast_eq unsigned_take_bit_eq take_bit_int_eq_self_iff)
  then show ?thesis by (simp add: reread_def)
qed

end
