(* ===== verification/SqlRecord.thy ===== *)
theory SqlRecord
  imports SqlValue SchemaCmp
begin

text \<open>
  Records and tables of the SQL engine: \<open>sql_record.c\<close>, \<open>sql_table.c\<close>, the encoding of a record as the
  payload of a tree (\<open>sql_ibtree.c\<close>), the parsed statements (\<open>sql_parsed.h\<close>) and what is made of them
  (\<open>sql_parsegen.c\<close>).  An array of the C structs is a list of its length; writing behind it has no
  outcome.
\<close>

section \<open>Records\<close>

record sql_record_schema =
  rs_columns :: "sql_string option list"
  rs_ncolumns :: u32

record sql_record =
  rec_schema :: "sql_record_schema option"
  rec_values :: "sql_value list"
  rec_nvalues :: u32

definition sql_record_schema_create :: sql_record_schema where
  "sql_record_schema_create = \<lparr>rs_columns = replicate 8 None, rs_ncolumns = 0\<rparr>"

definition sql_record_create :: sql_record where
  "sql_record_create = \<lparr>rec_schema = None, rec_values = replicate 8 Sql_inval, rec_nvalues = 0\<rparr>"

text \<open>The index of the first column with the name; \<open>None\<close> inside stands for \<open>-1\<close>.\<close>

fun index_of_name :: "sql_string option list \<Rightarrow> nat \<Rightarrow> sql_string \<Rightarrow> nat option option" where
  "index_of_name [] i column_name = Some None"
| "index_of_name (c # cs) i column_name =
     do {
       c \<leftarrow> c;
       same \<leftarrow> sql_string_equals column_name c;
       if same then Some (Some i) else index_of_name cs (i + 1) column_name
     }"

definition sql_record_schema_indexof :: "sql_record_schema \<Rightarrow> sql_string \<Rightarrow> nat option option" where
  "sql_record_schema_indexof schema column_name =
     do {
       cs \<leftarrow> mem_read (rs_columns schema) 0 (unat (rs_ncolumns schema));
       index_of_name cs 0 column_name
     }"

definition schema_push :: "sql_record_schema \<Rightarrow> sql_string \<Rightarrow> sql_record_schema option" where
  "schema_push schema column_name =
     do {
       cs \<leftarrow> arr_set (rs_columns schema) (unat (rs_ncolumns schema)) (Some column_name);
       Some (schema\<lparr>rs_columns := cs, rs_ncolumns := rs_ncolumns schema + 1\<rparr>)
     }"

definition sql_record_schema_emplace_colname_c ::
  "sql_record_schema \<Rightarrow> bytes \<Rightarrow> sql_record_schema option" where
  "sql_record_schema_emplace_colname_c schema value =
     do { s \<leftarrow> sql_string_create_from_cstring value; schema_push schema s }"

definition record_push :: "sql_record \<Rightarrow> sql_value \<Rightarrow> sql_record option" where
  "record_push record value =
     do {
       vs \<leftarrow> arr_set (rec_values record) (unat (rec_nvalues record)) value;
       Some (record\<lparr>rec_values := vs, rec_nvalues := rec_nvalues record + 1\<rparr>)
     }"

definition sql_record_emplace_literal ::
  "sql_record \<Rightarrow> sql_string \<Rightarrow> sql_literalstr_type_e \<Rightarrow> sql_record option" where
  "sql_record_emplace_literal record value type =
     do {
       copy \<leftarrow> sql_string_copy value;
       (_, v) \<leftarrow> sql_value_acquire_eval \<lparr>lit_value = Some copy, lit_type = type\<rparr>;
       record_push record v
     }"

definition sql_record_emplace_literal_c ::
  "sql_record \<Rightarrow> bytes \<Rightarrow> sql_literalstr_type_e \<Rightarrow> sql_record option" where
  "sql_record_emplace_literal_c record value type =
     do {
       s \<leftarrow> sql_string_create_from_cstring value;
       (_, v) \<leftarrow> sql_value_acquire_eval \<lparr>lit_value = Some s, lit_type = type\<rparr>;
       record_push record v
     }"

text \<open>The argument is an \<open>int\<close>, the number a \<open>long long\<close>.\<close>

definition sql_record_emplace_number :: "sql_record \<Rightarrow> u32 \<Rightarrow> sql_record option" where
  "sql_record_emplace_number record val =
     record_push record (Sql_int \<lparr>sn_num = scast val, sn_width = 4\<rparr>)"

section \<open>Tables\<close>

record sql_table_column =
  col_name :: "sql_string option"
  col_type :: sql_dt_e
  col_is_primary_key :: bool

record sql_table_meta =
  tm_root_page :: u32
  tm_table_id :: u32

record sql_table =
  tb_ncolumns :: u32
  tb_columns :: "sql_table_column list"
  tb_table_name :: "sql_string option"
  tb_meta :: sql_table_meta

definition zero_column :: sql_table_column where
  "zero_column = \<lparr>col_name = None, col_type = SQL_DT_INVAL, col_is_primary_key = False\<rparr>"

definition sql_table_create :: sql_table where
  "sql_table_create =
     \<lparr>tb_ncolumns = 0, tb_columns = replicate 8 zero_column, tb_table_name = None,
      tb_meta = \<lparr>tm_root_page = 0, tm_table_id = 0\<rparr>\<rparr>"

definition sql_column_init_c :: "bytes \<Rightarrow> sql_dt_e \<Rightarrow> bool \<Rightarrow> sql_table_column option" where
  "sql_column_init_c name type primary =
     do {
       s \<leftarrow> sql_string_create_from_cstring name;
       Some \<lparr>col_name = Some s, col_type = type, col_is_primary_key = primary\<rparr>
     }"

definition sql_column_init :: "sql_string \<Rightarrow> sql_dt_e \<Rightarrow> bool \<Rightarrow> sql_table_column option" where
  "sql_column_init name type primary =
     do {
       s \<leftarrow> sql_string_copy name;
       Some \<lparr>col_name = Some s, col_type = type, col_is_primary_key = primary\<rparr>
     }"

definition table_push :: "sql_table \<Rightarrow> sql_table_column \<Rightarrow> sql_table option" where
  "table_push tbl col =
     do {
       cs \<leftarrow> arr_set (tb_columns tbl) (unat (tb_ncolumns tbl)) col;
       Some (tbl\<lparr>tb_columns := cs, tb_ncolumns := tb_ncolumns tbl + 1\<rparr>)
     }"

definition sql_table_emplace_column_c ::
  "sql_table \<Rightarrow> bytes \<Rightarrow> sql_dt_e \<Rightarrow> bool \<Rightarrow> sql_table option" where
  "sql_table_emplace_column_c tbl name type primary =
     do { col \<leftarrow> sql_column_init_c name type primary; table_push tbl col }"

definition sql_table_emplace_column ::
  "sql_table \<Rightarrow> sql_string \<Rightarrow> sql_dt_e \<Rightarrow> bool \<Rightarrow> sql_table option" where
  "sql_table_emplace_column tbl name type primary =
     do { col \<leftarrow> sql_column_init name type primary; table_push tbl col }"

text \<open>
  \<open>l\<close> is emptied and filled from \<open>r\<close>, which is zeroed.  The columns behind the last one of \<open>r\<close> stay
  zero.
\<close>

definition sql_table_move :: "sql_table \<Rightarrow> sql_table \<Rightarrow> (sql_table \<times> sql_table) option" where
  "sql_table_move l r =
     do {
       cs \<leftarrow> mem_read (tb_columns r) 0 (unat (tb_ncolumns r));
       cs \<leftarrow> mem_write (tb_columns sql_table_create) 0 cs;
       Some (\<lparr>tb_ncolumns = tb_ncolumns r, tb_columns = cs, tb_table_name = tb_table_name r,
              tb_meta = tb_meta r\<rparr>, sql_table_create)
     }"

fun index_of_primary :: "sql_table_column list \<Rightarrow> nat \<Rightarrow> nat option" where
  "index_of_primary [] i = None"
| "index_of_primary (col # cols) i =
     (if col_is_primary_key col then Some i else index_of_primary cols (i + 1))"

text \<open>The result inside is \<open>None\<close> for \<open>-1\<close>.\<close>

definition sql_table_find_primary_key :: "sql_table \<Rightarrow> nat option option" where
  "sql_table_find_primary_key tbl =
     do {
       cols \<leftarrow> mem_read (tb_columns tbl) 0 (unat (tb_ncolumns tbl));
       Some (index_of_primary cols 0)
     }"

section \<open>Records as payloads\<close>

definition convert_to_schema_type :: "sql_dt_e \<Rightarrow> ibtlsk_type_e option" where
  "convert_to_schema_type dt =
     (case dt of
        SQL_DT_INT \<Rightarrow> Some IBTLSK_TYPE_FIXED
      | SQL_DT_STRING \<Rightarrow> Some IBTLSK_TYPE_VARSIZE
      | SQL_DT_INVAL \<Rightarrow> None)"

definition convert_to_value_type :: "sql_dt_e \<Rightarrow> sql_value_type_e option" where
  "convert_to_value_type dt =
     (case dt of
        SQL_DT_INT \<Rightarrow> Some SQL_VALUE_TYPE_INT
      | SQL_DT_STRING \<Rightarrow> Some SQL_VALUE_TYPE_STRING
      | SQL_DT_INVAL \<Rightarrow> None)"

definition emplace_schema_def :: "ibtree_layout_schema \<Rightarrow> sql_table_column \<Rightarrow> ibtree_layout_schema option" where
  "emplace_schema_def schema col =
     do {
       type \<leftarrow> convert_to_schema_type (col_type col);
       defs \<leftarrow> arr_set (ls_key_definitions schema) (unat (ls_nkey_definitions schema))
         \<lparr>kd_type = type, kd_size = (if type = IBTLSK_TYPE_FIXED then 4 else 0)\<rparr>;
       Some (schema\<lparr>ls_key_definitions := defs, ls_nkey_definitions := ls_nkey_definitions schema + 1\<rparr>)
     }"

fun emplace_schema_defs ::
  "ibtree_layout_schema \<Rightarrow> nat \<Rightarrow> nat \<Rightarrow> sql_table_column list \<Rightarrow> ibtree_layout_schema option" where
  "emplace_schema_defs schema pkey_ind i [] = Some schema"
| "emplace_schema_defs schema pkey_ind i (col # cols) =
     (if i = pkey_ind then emplace_schema_defs schema pkey_ind (i + 1) cols
      else do {
        schema \<leftarrow> emplace_schema_def schema col;
        emplace_schema_defs schema pkey_ind (i + 1) cols
      })"

text \<open>The first definition is stored at index 0, whatever number of definitions the schema has.\<close>

definition sql_ibtree_create_ibt_layout_schema ::
  "sql_table \<Rightarrow> ibtree_layout_schema \<Rightarrow> (sql_e \<times> ibtree_layout_schema) option" where
  "sql_ibtree_create_ibt_layout_schema tbl out_schema =
     do {
       pkey_ind \<leftarrow> sql_table_find_primary_key tbl;
       pkey_ind \<leftarrow> pkey_ind;
       col \<leftarrow> arr_get (tb_columns tbl) pkey_ind;
       type \<leftarrow> convert_to_schema_type (col_type col);
       defs \<leftarrow> arr_set (ls_key_definitions out_schema) 0
         \<lparr>kd_type = type, kd_size = (if type = IBTLSK_TYPE_FIXED then 4 else 0)\<rparr>;
       cols \<leftarrow> mem_read (tb_columns tbl) 0 (unat (tb_ncolumns tbl));
       schema \<leftarrow> emplace_schema_defs
         (out_schema\<lparr>ls_key_offset := 0, ls_key_definitions := defs,
            ls_nkey_definitions := ls_nkey_definitions out_schema + 1\<rparr>) pkey_ind 0 cols;
       Some (SQL_OK, schema)
     }"

record sql_serialized_record =
  sr_buf :: bytes
  sr_size :: u32

definition sql_ibtree_serialize_record_size :: "sql_record \<Rightarrow> u32 option" where
  "sql_ibtree_serialize_record_size record =
     sql_value_array_ser_size (rec_values record) (rec_nvalues record)"

definition find_pkey_in_schema :: "sql_record_schema \<Rightarrow> sql_string \<Rightarrow> nat option option" where
  "find_pkey_in_schema schema pkey_string = sql_record_schema_indexof schema pkey_string"

fun serialize_columns ::
  "sql_record_schema \<Rightarrow> sql_value list \<Rightarrow> nat \<Rightarrow> nat \<Rightarrow> sql_table_column list \<Rightarrow> bytes \<Rightarrow> u32
   \<Rightarrow> bytes option" where
  "serialize_columns schema values pkey_ind i [] buffer written = Some buffer"
| "serialize_columns schema values pkey_ind i (col # cols) buffer written =
     (if i = pkey_ind then serialize_columns schema values pkey_ind (i + 1) cols buffer written
      else do {
        name \<leftarrow> col_name col;
        record_ind \<leftarrow> sql_record_schema_indexof schema name;
        record_ind \<leftarrow> record_ind;
        val \<leftarrow> arr_get values record_ind;
        (k, buffer) \<leftarrow> sql_value_serialize val buffer (unat written);
        serialize_columns schema values pkey_ind (i + 1) cols buffer (written + k)
      })"

text \<open>
  The buffer has the size of the values of the record, whatever columns the table asks for.  An index
  of \<open>-1\<close> of a column that the record lacks is an access outside the array.
\<close>

definition sql_ibtree_serialize_record_acquire ::
  "sql_table \<Rightarrow> sql_record \<Rightarrow> (sql_e \<times> sql_serialized_record option) option" where
  "sql_ibtree_serialize_record_acquire tbl record =
     do {
       pkey_ind \<leftarrow> sql_table_find_primary_key tbl;
       pkey_ind \<leftarrow> pkey_ind;
       schema \<leftarrow> rec_schema record;
       if rs_ncolumns schema \<noteq> tb_ncolumns tbl then Some (SQL_ERR_BAD_RECORD, None)
       else do {
         pkey_col \<leftarrow> arr_get (tb_columns tbl) pkey_ind;
         name \<leftarrow> col_name pkey_col;
         schema_pkey_ind \<leftarrow> find_pkey_in_schema schema name;
         case schema_pkey_ind of
           None \<Rightarrow> Some (SQL_ERR_RECORD_MISSING_PKEY, None)
         | Some schema_pkey_ind \<Rightarrow> do {
             total \<leftarrow> sql_value_array_ser_size (rec_values record) (rec_nvalues record);
             val \<leftarrow> arr_get (rec_values record) schema_pkey_ind;
             (written, buffer) \<leftarrow> sql_value_serialize val (replicate (unat total) 0) 0;
             cols \<leftarrow> mem_read (tb_columns tbl) 0 (unat (tb_ncolumns tbl));
             buffer \<leftarrow> serialize_columns schema (rec_values record) pkey_ind 0 cols buffer written;
             Some (SQL_OK, Some \<lparr>sr_buf = buffer, sr_size = total\<rparr>)
           }
       }
     }"

text \<open>One column: its value and its name are appended.\<close>

definition deserialize_column ::
  "sql_table_column \<Rightarrow> sql_record_schema \<Rightarrow> sql_record \<Rightarrow> bytes
   \<Rightarrow> (u32 \<times> sql_record_schema \<times> sql_record) option" where
  "deserialize_column col out_schema out_record ptr =
     do {
       type \<leftarrow> convert_to_value_type (col_type col);
       old \<leftarrow> arr_get (rec_values out_record) (unat (rec_nvalues out_record));
       (k, val) \<leftarrow> sql_value_deserialize_as old type ptr;
       out_record \<leftarrow> record_push out_record val;
       name \<leftarrow> col_name col;
       copy \<leftarrow> sql_string_copy name;
       out_schema \<leftarrow> schema_push out_schema copy;
       Some (k, out_schema, out_record)
     }"

fun deserialize_columns ::
  "nat \<Rightarrow> nat \<Rightarrow> sql_table_column list \<Rightarrow> sql_record_schema \<Rightarrow> sql_record \<Rightarrow> bytes
   \<Rightarrow> (sql_record_schema \<times> sql_record) option" where
  "deserialize_columns pkey_ind i [] out_schema out_record ptr = Some (out_schema, out_record)"
| "deserialize_columns pkey_ind i (col # cols) out_schema out_record ptr =
     (if i = pkey_ind then deserialize_columns pkey_ind (i + 1) cols out_schema out_record ptr
      else do {
        (k, out_schema, out_record) \<leftarrow> deserialize_column col out_schema out_record ptr;
        deserialize_columns pkey_ind (i + 1) cols out_schema out_record (drop (unat k) ptr)
      })"

text \<open>The name of the primary key is stored at index 0, not behind the columns the schema has.\<close>

definition sql_ibtree_deserialize_record ::
  "sql_table \<Rightarrow> sql_record_schema \<Rightarrow> sql_record \<Rightarrow> bytes
   \<Rightarrow> (sql_e \<times> sql_record_schema \<times> sql_record) option" where
  "sql_ibtree_deserialize_record tbl out_schema out_record buf =
     do {
       pkey_ind \<leftarrow> sql_table_find_primary_key tbl;
       pkey_ind \<leftarrow> pkey_ind;
       pkey_col \<leftarrow> arr_get (tb_columns tbl) pkey_ind;
       type \<leftarrow> convert_to_value_type (col_type pkey_col);
       old \<leftarrow> arr_get (rec_values out_record) (unat (rec_nvalues out_record));
       (k, val) \<leftarrow> sql_value_deserialize_as old type buf;
       out_record \<leftarrow> record_push out_record val;
       name \<leftarrow> col_name pkey_col;
       copy \<leftarrow> sql_string_copy name;
       names \<leftarrow> arr_set (rs_columns out_schema) 0 (Some copy);
       cols \<leftarrow> mem_read (tb_columns tbl) 0 (unat (tb_ncolumns tbl));
       (out_schema, out_record) \<leftarrow> deserialize_columns pkey_ind 0 cols
         (out_schema\<lparr>rs_columns := names, rs_ncolumns := rs_ncolumns out_schema + 1\<rparr>) out_record
         (drop (unat k) buf);
       Some (SQL_OK, out_schema, out_record\<lparr>rec_schema := Some out_schema\<rparr>)
     }"

end
