(* ===== verification/SqlLexer.thy ===== *)
theory SqlLexer
  imports SqlValue
begin

text \<open>
  The tokens of the SQL dialect (\<open>bison/sql_lexer_types.h\<close>) and the scanner that flex makes from
  \<open>bison/sql_lexer.lex\<close>: the longest match, and of two equally long ones the rule that comes first.
  Input that no rule matches is echoed to the terminal and skipped, a byte at a time.
\<close>

datatype sql_token_e =
    SQL_CREATE_INVAL
  | SQL_CREATE_TABLE_KW
  | SQL_INSERT_KW
  | SQL_VALUES_KW
  | SQL_UPDATE_KW
  | SQL_DELETE_KW
  | SQL_WHERE_KW
  | SQL_FROM_KW
  | SQL_SET_KW
  | SQL_STAR_KW
  | SQL_EQUAL_KW
  | SQL_SELECT_KW
  | SQL_QUOTED_IDENTIFIER
  | SQL_STRING_LITERAL
  | SQL_INT_LITERAL
  | SQL_IDENTIFIER
  | SQL_COMMA
  | SQL_OPEN_PAREN
  | SQL_CLOSE_PAREN

definition chars :: "string \<Rightarrow> bytes" where
  "chars s = map of_char s"

definition digit :: "byte \<Rightarrow> bool" where
  "digit c \<longleftrightarrow> 48 \<le> c \<and> c \<le> 57"

definition name_character :: "byte \<Rightarrow> bool" where
  "name_character c \<longleftrightarrow> digit c \<or> 97 \<le> c \<and> c \<le> 122 \<or> 65 \<le> c \<and> c \<le> 90 \<or> c = 95"

section \<open>The patterns\<close>

text \<open>How long the match at the front of the input is; 0 stands for none.\<close>

definition run_of :: "(byte \<Rightarrow> bool) \<Rightarrow> bytes \<Rightarrow> nat" where
  "run_of p xs = length (takeWhile p xs)"

text \<open>A delimiter, at least one byte of the class, the delimiter again.\<close>

definition quoted_run :: "byte \<Rightarrow> (byte \<Rightarrow> bool) \<Rightarrow> bytes \<Rightarrow> nat" where
  "quoted_run q p xs =
     (case xs of
        [] \<Rightarrow> 0
      | x # ys \<Rightarrow>
          (let n = run_of p ys in
           if x = q \<and> 0 < n \<and> n < length ys \<and> ys ! n = q then n + 2 else 0))"

definition literal_run :: "string \<Rightarrow> bytes \<Rightarrow> nat" where
  "literal_run s xs = (if take (length s) xs = chars s then length s else 0)"

text \<open>The rules in their order; \<open>None\<close> is the one for white space, which returns no token.\<close>

definition lex_rules :: "(sql_token_e option \<times> (bytes \<Rightarrow> nat)) list" where
  "lex_rules =
     [(Some SQL_STRING_LITERAL, quoted_run 39 (\<lambda>c. c \<noteq> 39)),
      (Some SQL_QUOTED_IDENTIFIER, quoted_run 34 name_character),
      (Some SQL_INT_LITERAL, run_of digit),
      (Some SQL_CREATE_TABLE_KW, literal_run ''CREATE TABLE''),
      (Some SQL_INSERT_KW, literal_run ''INSERT INTO''),
      (Some SQL_VALUES_KW, literal_run ''VALUES''),
      (Some SQL_SELECT_KW, literal_run ''SELECT''),
      (Some SQL_DELETE_KW, literal_run ''DELETE FROM''),
      (Some SQL_UPDATE_KW, literal_run ''UPDATE''),
      (Some SQL_WHERE_KW, literal_run ''WHERE''),
      (Some SQL_FROM_KW, literal_run ''FROM''),
      (Some SQL_SET_KW, literal_run ''SET''),
      (Some SQL_STAR_KW, literal_run ''*''),
      (Some SQL_EQUAL_KW, literal_run ''=''),
      (Some SQL_IDENTIFIER, run_of name_character),
      (Some SQL_COMMA, literal_run '',''),
      (Some SQL_OPEN_PAREN, literal_run ''(''),
      (Some SQL_CLOSE_PAREN, literal_run '')''),
      (None, (\<lambda>xs. case xs of [] \<Rightarrow> 0 | c # _ \<Rightarrow> if c = 32 \<or> c = 10 \<or> c = 13 then 1 else 0))]"

fun longest_match ::
  "(sql_token_e option \<times> (bytes \<Rightarrow> nat)) list \<Rightarrow> bytes \<Rightarrow> sql_token_e option \<times> nat" where
  "longest_match [] xs = (None, 0)"
| "longest_match ((tok, rule) # rules) xs =
     (let (best, n) = longest_match rules xs; k = rule xs in
      if 0 < k \<and> n \<le> k then (tok, k) else (best, n))"

text \<open>The next token, its text and the rest of the input; token 0 at the end.\<close>

function yylex :: "bytes \<Rightarrow> sql_token_e \<times> bytes \<times> bytes" where
  "yylex [] = (SQL_CREATE_INVAL, [], [])"
| "yylex (x # xs) =
     (case longest_match lex_rules (x # xs) of
        (Some tok, n) \<Rightarrow> (tok, take n (x # xs), drop n (x # xs))
      | (None, n) \<Rightarrow> yylex (drop (n - 1) xs))"
  by pat_completeness auto
termination
  by (relation "measure length") auto

section \<open>What the scanner does\<close>

lemma longest_match_pos: "fst (longest_match rules xs) = Some tok \<Longrightarrow> 0 < snd (longest_match rules xs)"
  by (induction rules xs rule: longest_match.induct) (auto simp: Let_def split: prod.splits if_splits)

lemma yylex_shorter: "yylex xs = (tok, t, rest) \<Longrightarrow> tok \<noteq> SQL_CREATE_INVAL \<Longrightarrow> length rest < length xs"
proof (induction xs arbitrary: tok t rest rule: yylex.induct)
  case (2 x xs)
  obtain best n where m: "longest_match lex_rules (x # xs) = (best, n)" by fastforce
  show ?case
  proof (cases best)
    case None
    then have "yylex (drop (n - 1) xs) = (tok, t, rest)" using 2(2) m by simp
    from "2.IH" [OF m [symmetric, unfolded None] refl this "2.prems"(2)] show ?thesis by simp
  next
    case (Some b)
    then have "0 < n" using longest_match_pos [of lex_rules "x # xs" b] m by simp
    then show ?thesis using 2(2) m Some by auto
  qed
qed simp

end
