(* ===== verification/SqlParse.thy ===== *)
theory SqlParse
  imports SqlRecord SqlLexer
begin

text \<open>
  The recursive-descent parser (\<open>sql_parse@flex.c\<close>), the statements it makes (\<open>sql_parsed.h\<close>,
  \<open>sql_parse.h\<close>) and the tables and records made of them (\<open>sql_parsegen.c\<close>).

  A parse function returns \<open>Some (Some x)\<close> for a statement, \<open>Some None\<close> where the code goes to its
  label \<open>fail\<close>, which clears \<open>*success\<close> and frees what was parsed, and \<open>None\<close> where it writes behind
  an array.
\<close>

section \<open>Statements\<close>

record sql_parsed_insert =
  pi_table_name :: "sql_string option"
  pi_columns :: "sql_string option list"
  pi_ncolumns :: u32
  pi_values :: "sql_literal_str list"
  pi_nvalues :: u32

record sql_parsed_create_table_column =
  pc_name :: "sql_string option"
  pc_type :: sql_dt_e
  pc_is_primary_key :: bool

record sql_parsed_create_table =
  pt_table_name :: "sql_string option"
  pt_columns :: "sql_parsed_create_table_column list"
  pt_ncolumns :: u32

record sql_parsed_where_clause =
  pw_field :: "sql_string option"
  pw_value :: sql_literal_str

record sql_parsed_update =
  pu_table_name :: "sql_string option"
  pu_columns :: "sql_string option list"
  pu_ncolumns :: u32
  pu_values :: "sql_literal_str list"
  pu_nvalues :: u32
  pu_where :: sql_parsed_where_clause

record sql_parsed_select =
  ps_table_name :: "sql_string option"
  ps_fields :: "sql_string option list"
  ps_nfields :: u32
  ps_where :: sql_parsed_where_clause

record sql_parsed_delete =
  pd_table_name :: "sql_string option"
  pd_fields :: "sql_string option list"
  pd_nfields :: u32
  pd_where :: sql_parsed_where_clause

datatype sql_parse =
    SQL_PARSE_INVALID
  | SQL_PARSE_INSERT sql_parsed_insert
  | SQL_PARSE_CREATE_TABLE sql_parsed_create_table
  | SQL_PARSE_SELECT sql_parsed_select
  | SQL_PARSE_UPDATE sql_parsed_update
  | SQL_PARSE_DELETE sql_parsed_delete

definition zero_literal :: sql_literal_str where
  "zero_literal = \<lparr>lit_value = None, lit_type = SQL_LITERALSTR_TYPE_INVAL\<rparr>"

definition zero_where :: sql_parsed_where_clause where
  "zero_where = \<lparr>pw_field = None, pw_value = zero_literal\<rparr>"

definition zero_insert :: sql_parsed_insert where
  "zero_insert = \<lparr>pi_table_name = None, pi_columns = replicate 5 None, pi_ncolumns = 0,
     pi_values = replicate 5 zero_literal, pi_nvalues = 0\<rparr>"

definition zero_create_table :: sql_parsed_create_table where
  "zero_create_table = \<lparr>pt_table_name = None,
     pt_columns = replicate 5 \<lparr>pc_name = None, pc_type = SQL_DT_INVAL, pc_is_primary_key = False\<rparr>,
     pt_ncolumns = 0\<rparr>"

definition zero_update :: sql_parsed_update where
  "zero_update = \<lparr>pu_table_name = None, pu_columns = replicate 5 None, pu_ncolumns = 0,
     pu_values = replicate 5 zero_literal, pu_nvalues = 0, pu_where = zero_where\<rparr>"

definition zero_select :: sql_parsed_select where
  "zero_select = \<lparr>ps_table_name = None, ps_fields = replicate 5 None, ps_nfields = 0,
     ps_where = zero_where\<rparr>"

definition zero_delete :: sql_parsed_delete where
  "zero_delete = \<lparr>pd_table_name = None, pd_fields = replicate 5 None, pd_nfields = 0,
     pd_where = zero_where\<rparr>"

section \<open>The lexer\<close>

text \<open>The input behind the current token, the token and its text.\<close>

record lexer =
  lx_scanner :: bytes
  lx_tok :: sql_token_e
  lx_text :: bytes

definition lex_next :: "lexer \<Rightarrow> lexer" where
  "lex_next lx =
     (case yylex (lx_scanner lx) of
        (tok, t, rest) \<Rightarrow> \<lparr>lx_scanner = rest, lx_tok = tok, lx_text = t\<rparr>)"

text \<open>\<open>sql_string_create_from(text(lex), leng(lex))\<close>; flex ends the text with a zero.\<close>

definition lex_string :: "lexer \<Rightarrow> sql_string option" where
  "lex_string lx = sql_string_create_from (lx_text lx @ [0]) (of_nat (length (lx_text lx)))"

definition get_data_type_from_sql_type :: "sql_token_e \<Rightarrow> sql_literalstr_type_e" where
  "get_data_type_from_sql_type tok_type =
     (case tok_type of
        SQL_INT_LITERAL \<Rightarrow> SQL_LITERALSTR_TYPE_INT
      | SQL_STRING_LITERAL \<Rightarrow> SQL_LITERALSTR_TYPE_STRING
      | _ \<Rightarrow> SQL_LITERALSTR_TYPE_INVAL)"

text \<open>\<open>strcmp\<close> looks at the text up to its first zero.\<close>

definition get_data_type :: "bytes \<Rightarrow> sql_dt_e" where
  "get_data_type s =
     (let s = takeWhile (\<lambda>c. c \<noteq> 0) s in
      if s = chars ''STRING'' then SQL_DT_STRING
      else if s = chars ''INT'' then SQL_DT_INT
      else SQL_DT_INVAL)"

definition is_literal :: "sql_token_e \<Rightarrow> bool" where
  "is_literal tok \<longleftrightarrow> tok = SQL_STRING_LITERAL \<or> tok = SQL_INT_LITERAL"

definition is_name :: "sql_token_e \<Rightarrow> bool" where
  "is_name tok \<longleftrightarrow> tok = SQL_QUOTED_IDENTIFIER \<or> tok = SQL_IDENTIFIER"

text \<open>\<open>if( next(lex) != tok ) goto fail;\<close>\<close>

definition expect ::
  "lexer \<Rightarrow> sql_token_e \<Rightarrow> (lexer \<Rightarrow> 'a option option) \<Rightarrow> 'a option option" where
  "expect lx tok k = (let lx = lex_next lx in if lx_tok lx = tok then k lx else Some None)"

definition lex_literal :: "lexer \<Rightarrow> sql_literal_str option" where
  "lex_literal lx =
     do {
       s \<leftarrow> lex_string lx;
       Some \<lparr>lit_value = Some s, lit_type = get_data_type_from_sql_type (lx_tok lx)\<rparr>
     }"

lemma lex_next_shorter:
  "lx_tok (lex_next lx) \<noteq> SQL_CREATE_INVAL \<Longrightarrow> length (lx_scanner (lex_next lx)) < length (lx_scanner lx)"
  by (auto simp: lex_next_def split: prod.splits dest: yylex_shorter)

lemma lex_next_le: "length (lx_scanner (lex_next lx)) \<le> length (lx_scanner lx)"
proof (cases "lx_tok (lex_next lx) = SQL_CREATE_INVAL")
  case True
  have "yylex xs = (SQL_CREATE_INVAL, t, rest) \<Longrightarrow> length rest \<le> length xs" for xs t rest
  proof (induction xs arbitrary: t rest rule: yylex.induct)
    case (2 x xs)
    then show ?case by (fastforce split: prod.splits option.splits)
  qed simp
  then show ?thesis using True by (auto simp: lex_next_def split: prod.splits)
qed (simp add: lex_next_shorter less_imp_le)

text \<open>Every round of a loop of the parser takes a token, so the loops end.\<close>

lemma lex_round_shorter:
  "lx_tok (lex_next lx) \<noteq> SQL_CREATE_INVAL \<Longrightarrow>
   length (lx_scanner (lex_next (lex_next lx))) < length (lx_scanner lx)"
  by (rule le_less_trans [OF lex_next_le lex_next_shorter])

section \<open>Parsing\<close>

function insert_columns ::
  "lexer \<Rightarrow> sql_parsed_insert \<Rightarrow> (sql_parsed_insert \<times> lexer) option option" where
  "insert_columns lx ins =
     (let lex1 = lex_next lx in
      if lx_tok lex1 \<noteq> SQL_QUOTED_IDENTIFIER then Some None
      else do {
        s \<leftarrow> lex_string lex1;
        cs \<leftarrow> arr_set (pi_columns ins) (unat (pi_ncolumns ins)) (Some s);
        (let ins = ins\<lparr>pi_columns := cs, pi_ncolumns := pi_ncolumns ins + 1\<rparr>; lex2 = lex_next lex1 in
         if lx_tok lex2 = SQL_COMMA then insert_columns lex2 ins else Some (Some (ins, lex2)))
      })"
  by pat_completeness auto
termination
  by (relation "measure (\<lambda>(lx, ins). length (lx_scanner lx))") (auto intro: lex_round_shorter)

declare insert_columns.simps [simp del]

function insert_values ::
  "lexer \<Rightarrow> sql_parsed_insert \<Rightarrow> (sql_parsed_insert \<times> lexer) option option" where
  "insert_values lx ins =
     (let lex1 = lex_next lx in
      if \<not> is_literal (lx_tok lex1) then Some None
      else do {
        v \<leftarrow> lex_literal lex1;
        vs \<leftarrow> arr_set (pi_values ins) (unat (pi_nvalues ins)) v;
        (let ins = ins\<lparr>pi_values := vs, pi_nvalues := pi_nvalues ins + 1\<rparr>; lex2 = lex_next lex1 in
         if lx_tok lex2 = SQL_COMMA \<and> pi_nvalues ins < 4 then insert_values lex2 ins
         else Some (Some (ins, lex2)))
      })"
  by pat_completeness auto
termination
  by (relation "measure (\<lambda>(lx, ins). length (lx_scanner lx))") (auto intro: lex_round_shorter simp: is_literal_def)

declare insert_values.simps [simp del]

definition parse_insert :: "lexer \<Rightarrow> sql_parsed_insert option option" where
  "parse_insert lx =
     (if lx_tok lx \<noteq> SQL_INSERT_KW then Some (Some zero_insert)
      else expect lx SQL_QUOTED_IDENTIFIER (\<lambda>lx. do {
        name \<leftarrow> lex_string lx;
        expect lx SQL_OPEN_PAREN (\<lambda>lx. do {
          r \<leftarrow> insert_columns lx (zero_insert\<lparr>pi_table_name := Some name\<rparr>);
          case r of None \<Rightarrow> Some None
          | Some (ins, lx) \<Rightarrow>
              if lx_tok lx \<noteq> SQL_CLOSE_PAREN then Some None
              else expect lx SQL_VALUES_KW (\<lambda>lx. expect lx SQL_OPEN_PAREN (\<lambda>lx. do {
                r \<leftarrow> insert_values lx ins;
                case r of None \<Rightarrow> Some None
                | Some (ins, lx) \<Rightarrow>
                    Some (if lx_tok lx \<noteq> SQL_CLOSE_PAREN then None else Some ins)
              }))
        })
      }))"

definition parse_where :: "lexer \<Rightarrow> sql_parsed_where_clause option option" where
  "parse_where lx =
     (if lx_tok lx \<noteq> SQL_WHERE_KW then Some None
      else (let lx = lex_next lx in
        if \<not> is_name (lx_tok lx) then Some None
        else do {
          field \<leftarrow> lex_string lx;
          expect lx SQL_EQUAL_KW (\<lambda>lx.
            let lx = lex_next lx in
            if \<not> is_literal (lx_tok lx) then Some None
            else do { v \<leftarrow> lex_literal lx; Some (Some \<lparr>pw_field = Some field, pw_value = v\<rparr>) })
        }))"

function create_columns ::
  "lexer \<Rightarrow> sql_parsed_create_table \<Rightarrow> (sql_parsed_create_table \<times> lexer) option option" where
  "create_columns lx ct =
     (let lex1 = lex_next lx in
      if lx_tok lex1 \<noteq> SQL_QUOTED_IDENTIFIER then Some None
      else do {
        s \<leftarrow> lex_string lex1;
        (let lex2 = lex_next lex1; dt = get_data_type (lx_text lex2) in
         if lx_tok lex2 \<noteq> SQL_IDENTIFIER \<or> dt = SQL_DT_INVAL then Some None
         else do {
           cs \<leftarrow> arr_set (pt_columns ct) (unat (pt_ncolumns ct))
             \<lparr>pc_name = Some s, pc_type = dt, pc_is_primary_key = False\<rparr>;
           (let ct = ct\<lparr>pt_columns := cs, pt_ncolumns := pt_ncolumns ct + 1\<rparr>; lex3 = lex_next lex2 in
            if lx_tok lex3 = SQL_COMMA \<and> pt_ncolumns ct < 4 then create_columns lex3 ct
            else Some (Some (ct, lex3)))
         })
      })"
  by pat_completeness auto
termination
  by (relation "measure (\<lambda>(lx, ct). length (lx_scanner lx))")
    (auto intro: order.strict_trans1 [OF lex_next_le lex_round_shorter])

declare create_columns.simps [simp del]

text \<open>A statement that ends behind \<open>CREATE TABLE\<close> counts as parsed, with no table name.\<close>

definition parse_create_table :: "lexer \<Rightarrow> sql_parsed_create_table option option" where
  "parse_create_table lx =
     (let lex1 = lex_next lx in
      if lx_tok lx \<noteq> SQL_CREATE_TABLE_KW \<or> lx_tok lex1 \<noteq> SQL_QUOTED_IDENTIFIER
      then Some (Some zero_create_table)
      else do {
        name \<leftarrow> lex_string lex1;
        expect lex1 SQL_OPEN_PAREN (\<lambda>lx. do {
          r \<leftarrow> create_columns lx (zero_create_table\<lparr>pt_table_name := Some name\<rparr>);
          case r of None \<Rightarrow> Some None
          | Some (ct, lx) \<Rightarrow> Some (if lx_tok lx \<noteq> SQL_CLOSE_PAREN then None else Some ct)
        })
      })"

function select_fields ::
  "lexer \<Rightarrow> sql_parsed_select \<Rightarrow> (sql_parsed_select \<times> lexer) option option" where
  "select_fields lx sel =
     (let lex1 = lex_next lx in
      if \<not> is_name (lx_tok lex1) \<and> lx_tok lex1 \<noteq> SQL_STAR_KW then Some None
      else do {
        s \<leftarrow> lex_string lex1;
        fs \<leftarrow> arr_set (ps_fields sel) (unat (ps_nfields sel)) (Some s);
        (let sel = sel\<lparr>ps_fields := fs, ps_nfields := ps_nfields sel + 1\<rparr>; lex2 = lex_next lex1 in
         if lx_tok lex2 = SQL_COMMA then select_fields lex2 sel else Some (Some (sel, lex2)))
      })"
  by pat_completeness auto
termination
  by (relation "measure (\<lambda>(lx, sel). length (lx_scanner lx))") (auto intro: lex_round_shorter simp: is_name_def)

declare select_fields.simps [simp del]

definition parse_select :: "lexer \<Rightarrow> sql_parsed_select option option" where
  "parse_select lx =
     (if lx_tok lx \<noteq> SQL_SELECT_KW then Some None
      else do {
        r \<leftarrow> select_fields lx zero_select;
        case r of None \<Rightarrow> Some None
        | Some (sel, lx) \<Rightarrow>
            if lx_tok lx \<noteq> SQL_FROM_KW then Some None
            else expect lx SQL_QUOTED_IDENTIFIER (\<lambda>lx. do {
              name \<leftarrow> lex_string lx;
              (let sel = sel\<lparr>ps_table_name := Some name\<rparr>; lx = lex_next lx in
               if lx_tok lx \<noteq> SQL_WHERE_KW then Some (Some sel)
               else do {
                 w \<leftarrow> parse_where lx;
                 Some (map_option (\<lambda>w. sel\<lparr>ps_where := w\<rparr>) w)
               })
            })
      })"

text \<open>
  The condition of the loop looks at the literal that was just read, not at the token behind it, so
  there is one round.
\<close>

function update_columns ::
  "lexer \<Rightarrow> sql_parsed_update \<Rightarrow> (sql_parsed_update \<times> lexer) option option" where
  "update_columns lx upd =
     (let lex1 = lex_next lx in
      if \<not> is_name (lx_tok lex1) then Some None
      else do {
        s \<leftarrow> lex_string lex1;
        cs \<leftarrow> arr_set (pu_columns upd) (unat (pu_ncolumns upd)) (Some s);
        (let upd = upd\<lparr>pu_columns := cs, pu_ncolumns := pu_ncolumns upd + 1\<rparr>;
             lex2 = lex_next lex1; lex3 = lex_next lex2 in
         if lx_tok lex2 \<noteq> SQL_EQUAL_KW \<or> \<not> is_literal (lx_tok lex3) then Some None
         else do {
           v \<leftarrow> lex_literal lex3;
           vs \<leftarrow> arr_set (pu_values upd) (unat (pu_nvalues upd)) v;
           (let upd = upd\<lparr>pu_values := vs, pu_nvalues := pu_nvalues upd + 1\<rparr> in
            if lx_tok lex3 = SQL_COMMA then update_columns lex3 upd else Some (Some (upd, lex3)))
         })
      })"
  by pat_completeness auto
termination
  by (relation "measure (\<lambda>(lx, upd). length (lx_scanner lx))") (auto simp: is_literal_def)

declare update_columns.simps [simp del]

definition parse_update :: "lexer \<Rightarrow> sql_parsed_update option option" where
  "parse_update lx =
     (if lx_tok lx \<noteq> SQL_UPDATE_KW then Some None
      else expect lx SQL_QUOTED_IDENTIFIER (\<lambda>lx. do {
        name \<leftarrow> lex_string lx;
        expect lx SQL_SET_KW (\<lambda>lx. do {
          r \<leftarrow> update_columns lx (zero_update\<lparr>pu_table_name := Some name\<rparr>);
          case r of None \<Rightarrow> Some None
          | Some (upd, lx) \<Rightarrow>
              (let lx = lex_next lx in
               if lx_tok lx \<noteq> SQL_WHERE_KW then Some (Some upd)
               else do {
                 w \<leftarrow> parse_where lx;
                 Some (map_option (\<lambda>w. upd\<lparr>pu_where := w\<rparr>) w)
               })
        })
      }))"

definition parse_delete :: "lexer \<Rightarrow> sql_parsed_delete option option" where
  "parse_delete lx =
     (if lx_tok lx \<noteq> SQL_DELETE_KW then Some None
      else expect lx SQL_QUOTED_IDENTIFIER (\<lambda>lx. do {
        name \<leftarrow> lex_string lx;
        (let del = zero_delete\<lparr>pd_table_name := Some name\<rparr>; lx = lex_next lx in
         if lx_tok lx \<noteq> SQL_WHERE_KW then Some (Some del)
         else do {
           w \<leftarrow> parse_where lx;
           Some (map_option (\<lambda>w. del\<lparr>pd_where := w\<rparr>) w)
         })
      }))"

definition parsed_as :: "('a \<Rightarrow> sql_parse) \<Rightarrow> 'a option option \<Rightarrow> sql_parse option" where
  "parsed_as c r = map_option (case_option SQL_PARSE_INVALID c) r"

definition sql_parse_create :: "sql_string \<Rightarrow> sql_parse option" where
  "sql_parse_create sql =
     do {
       xs \<leftarrow> mem_read (sql_string_raw sql) 0 (unat (sql_string_len sql));
       (let lexer = lex_next \<lparr>lx_scanner = xs, lx_tok = SQL_CREATE_INVAL, lx_text = []\<rparr> in
        case lx_tok lexer of
          SQL_INSERT_KW \<Rightarrow> parsed_as SQL_PARSE_INSERT (parse_insert lexer)
        | SQL_CREATE_TABLE_KW \<Rightarrow> parsed_as SQL_PARSE_CREATE_TABLE (parse_create_table lexer)
        | SQL_SELECT_KW \<Rightarrow> parsed_as SQL_PARSE_SELECT (parse_select lexer)
        | SQL_UPDATE_KW \<Rightarrow> parsed_as SQL_PARSE_UPDATE (parse_update lexer)
        | SQL_DELETE_KW \<Rightarrow> parsed_as SQL_PARSE_DELETE (parse_delete lexer)
        | _ \<Rightarrow> Some SQL_PARSE_INVALID)
     }"

section \<open>What is made of a statement\<close>

fun find_primary_key :: "sql_parsed_create_table_column list \<Rightarrow> nat \<Rightarrow> nat option" where
  "find_primary_key [] i = None"
| "find_primary_key (col # cols) i =
     (if pc_is_primary_key col then Some i else find_primary_key cols (i + 1))"

fun copy_columns :: "sql_table \<Rightarrow> sql_parsed_create_table_column list \<Rightarrow> sql_table option" where
  "copy_columns tbl [] = Some tbl"
| "copy_columns tbl (col # cols) =
     do {
       name \<leftarrow> pc_name col;
       copy \<leftarrow> sql_string_copy name;
       tbl \<leftarrow> table_push tbl \<lparr>col_name = Some copy, col_type = pc_type col, col_is_primary_key = False\<rparr>;
       copy_columns tbl cols
     }"

definition sql_parsegen_table_from_create_table ::
  "sql_parsed_create_table \<Rightarrow> sql_table \<Rightarrow> sql_table option" where
  "sql_parsegen_table_from_create_table create_table out_tbl =
     do {
       name \<leftarrow> pt_table_name create_table;
       copy \<leftarrow> sql_string_copy name;
       cols \<leftarrow> mem_read (pt_columns create_table) 0 (unat (pt_ncolumns create_table));
       (let out_tbl = out_tbl\<lparr>tb_table_name := Some copy\<rparr> in do {
          out_tbl \<leftarrow> (if find_primary_key cols 0 = None
                     then sql_table_emplace_column_c out_tbl (c_string ''id'') SQL_DT_INT True
                     else Some out_tbl);
          copy_columns out_tbl cols
        })
     }"

fun copy_names :: "sql_string option list \<Rightarrow> sql_string option list option" where
  "copy_names [] = Some []"
| "copy_names (c # cs) =
     do { s \<leftarrow> c; copy \<leftarrow> sql_string_copy s; cs \<leftarrow> copy_names cs; Some (Some copy # cs) }"

definition sql_parsegen_record_schema_from_insert ::
  "sql_parsed_insert \<Rightarrow> sql_record_schema \<Rightarrow> (sql_e \<times> sql_record_schema) option" where
  "sql_parsegen_record_schema_from_insert ins out_schema =
     do {
       cs \<leftarrow> mem_read (pi_columns ins) 0 (unat (pi_ncolumns ins));
       cs \<leftarrow> copy_names cs;
       names \<leftarrow> mem_write (rs_columns out_schema) 0 cs;
       Some (SQL_OK, out_schema\<lparr>rs_columns := names, rs_ncolumns := pi_ncolumns ins\<rparr>)
     }"

fun eval_literals :: "sql_literal_str list \<Rightarrow> sql_value list option" where
  "eval_literals [] = Some []"
| "eval_literals (l # ls) =
     do { (_, v) \<leftarrow> sql_value_acquire_eval l; vs \<leftarrow> eval_literals ls; Some (v # vs) }"

text \<open>Evaluating a literal reports no error, so the loop runs to its end.\<close>

definition sql_parsegen_record_from_insert ::
  "sql_parsed_insert \<Rightarrow> sql_record_schema \<Rightarrow> sql_record \<Rightarrow> (sql_e \<times> sql_record) option" where
  "sql_parsegen_record_from_insert ins schema out_record =
     (if pi_ncolumns ins \<noteq> pi_nvalues ins then Some (SQL_ERR_INVALID_SQL, out_record)
      else do {
        ls \<leftarrow> mem_read (pi_values ins) 0 (unat (pi_ncolumns ins));
        vs \<leftarrow> eval_literals ls;
        vals \<leftarrow> mem_write (rec_values out_record) 0 vs;
        Some (SQL_OK, out_record\<lparr>rec_schema := Some schema, rec_values := vals, rec_nvalues := pi_ncolumns ins\<rparr>)
      })"

end
