(* ===== verification/SqlCatalog.thy ===== *)
theory SqlCatalog
  imports SqlParse BTreeOps
begin

text \<open>
  The catalogue of a database.  Page 1 is the root of a table tree with one definition per table
  (\<open>sqldb_table_tbl.c\<close>), page 2 the root of an index tree with one counter per table
  (\<open>sqldb_seq_tbl.c\<close>); trees are made by \<open>btree_factory.c\<close>, databases and tables by \<open>sqldb.c\<close>,
  \<open>sqldb_meta_tbls.c\<close> and \<open>sqldb_table.c\<close>.  The pager is a field of the database, which every
  operation returns changed.  \<open>mc\<close> is \<open>memcmp\<close> of the C library.
\<close>

section \<open>Making trees\<close>

text \<open>
  A block from \<open>malloc\<close> becomes the tree; opening it sets all but the limit for underflow, which
  stays what it was, here 0.  A tree that cannot be opened is a null pointer.
\<close>

definition blank_tree :: "'c btree_compare_fns \<Rightarrow> 'c btree" where
  "blank_tree fns = \<lparr>tr_root_page_id = 0, tr_type = BTREE_TBL, tr_underflow = 0, tr_fns = fns\<rparr>"

definition btree_factory_create_tbl :: "'f pager \<Rightarrow> u32 \<Rightarrow> (unit btree option \<times> 'f pager) option" where
  "btree_factory_create_tbl pager page =
     do {
       (bres, tree, pager) \<leftarrow> btree_init (blank_tree btree_fns) pager page;
       Some (if bres \<noteq> BTREE_OK then None else Some tree, pager)
     }"

definition btree_factory_create_index ::
  "(bytes \<Rightarrow> bytes \<Rightarrow> int) \<Rightarrow> 'f pager \<Rightarrow> u32 \<Rightarrow> (ibtls_compare_context btree option \<times> 'f pager) option" where
  "btree_factory_create_index mc pager page =
     do {
       (bres, tree, pager) \<leftarrow> ibtree_init (blank_tree (ibtls_fns mc)) pager page
         (fn_compare (ibtls_fns mc)) (fn_reset (ibtls_fns mc));
       Some (if bres \<noteq> BTREE_OK then None else Some tree, pager)
     }"

definition btree_factory_pager_create :: "cfs \<Rightarrow> string \<Rightarrow> cfile pager option" where
  "btree_factory_pager_create fs filename =
     (let (_, cache) = page_cache_create 10 in do {
        (pres, pager) \<leftarrow> pager_cstd_create fs cache filename 0x1000;
        require (btpage_err pres = BTREE_OK);
        Some pager
      })"

definition btree_factory_view_acquire ::
  "'f pager \<Rightarrow> u32 \<Rightarrow> (sql_e \<times> unit btree option \<times> 'f pager) option" where
  "btree_factory_view_acquire pager page =
     do {
       (tree, pager) \<leftarrow> btree_factory_create_tbl pager page;
       Some (if tree = None then SQL_ERR_UNKNOWN else SQL_OK, tree, pager)
     }"

section \<open>The database\<close>

record 'c sqldb_meta_table =
  mt_tree :: "'c btree option"
  mt_table :: "sql_table option"

record 'f sqldb =
  db_pager :: "'f pager"
  db_tb_tables :: "unit sqldb_meta_table"
  db_tb_sequences :: "ibtls_compare_context sqldb_meta_table"

definition seq_tbl :: "sql_table option" where
  "seq_tbl =
     do {
       name \<leftarrow> sql_string_create_from_cstring (c_string ''seq'');
       tbl \<leftarrow> sql_table_emplace_column_c (sql_table_create\<lparr>tb_table_name := Some name\<rparr>)
         (c_string ''sequence_name'') SQL_DT_STRING True;
       sql_table_emplace_column_c tbl (c_string ''value'') SQL_DT_INT False
     }"

definition sqldb_seq_tbl_create ::
  "(bytes \<Rightarrow> bytes \<Rightarrow> int) \<Rightarrow> 'f pager \<Rightarrow> (ibtls_compare_context sqldb_meta_table \<times> 'f pager) option" where
  "sqldb_seq_tbl_create mc pager =
     do {
       (tree, pager) \<leftarrow> btree_factory_create_index mc pager 2;
       tbl \<leftarrow> seq_tbl;
       Some (\<lparr>mt_tree = tree, mt_table = Some tbl\<rparr>, pager)
     }"

definition sqldb_table_tbl_create :: "'f pager \<Rightarrow> (unit sqldb_meta_table \<times> 'f pager) option" where
  "sqldb_table_tbl_create pager =
     do {
       (tree, pager) \<leftarrow> btree_factory_create_tbl pager 1;
       Some (\<lparr>mt_tree = tree, mt_table = None\<rparr>, pager)
     }"

definition sqldb_meta_tables_create ::
  "(bytes \<Rightarrow> bytes \<Rightarrow> int) \<Rightarrow> 'f pager \<Rightarrow> (sql_e \<times> 'f sqldb) option" where
  "sqldb_meta_tables_create mc pager =
     do {
       (tree, pager) \<leftarrow> btree_factory_create_tbl pager 1;
       (sequences, pager) \<leftarrow> sqldb_seq_tbl_create mc pager;
       Some (SQL_OK,
         \<lparr>db_pager = pager, db_tb_tables = \<lparr>mt_tree = tree, mt_table = None\<rparr>,
          db_tb_sequences = sequences\<rparr>)
     }"

definition sqldb_create ::
  "(bytes \<Rightarrow> bytes \<Rightarrow> int) \<Rightarrow> cfs \<Rightarrow> string \<Rightarrow> (sql_e \<times> cfile sqldb) option" where
  "sqldb_create mc fs filename =
     do { pager \<leftarrow> btree_factory_pager_create fs filename; sqldb_meta_tables_create mc pager }"

section \<open>Table definitions\<close>

definition value_num :: "sql_value \<Rightarrow> 64 word option" where
  "value_num val = (case val of Sql_int n \<Rightarrow> Some (sn_num n) | _ \<Rightarrow> None)"

definition value_string :: "sql_value \<Rightarrow> sql_string option" where
  "value_string val = (case val of Sql_string s \<Rightarrow> s | _ \<Rightarrow> None)"

text \<open>A byte that is no constant of the enumeration fails every switch over it, as \<open>INVAL\<close> does.\<close>

definition dt_of_byte :: "byte \<Rightarrow> sql_dt_e" where
  "dt_of_byte b = (if b = 1 then SQL_DT_STRING else if b = 2 then SQL_DT_INT else SQL_DT_INVAL)"

definition byte_of_dt :: "sql_dt_e \<Rightarrow> byte" where
  "byte_of_dt dt = (case dt of SQL_DT_INVAL \<Rightarrow> 0 | SQL_DT_STRING \<Rightarrow> 1 | SQL_DT_INT \<Rightarrow> 2)"

text \<open>The first \<open>n\<close> columns from the index \<open>i\<close> on are read; the first of all is the primary key.\<close>

fun deserialize_defs :: "nat \<Rightarrow> nat \<Rightarrow> sql_table_column list \<Rightarrow> bytes \<Rightarrow> sql_table_column list option" where
  "deserialize_defs 0 i cols ptr = Some cols"
| "deserialize_defs (Suc n) i cols ptr =
     do {
       type \<leftarrow> arr_get ptr 0;
       (k, temp) \<leftarrow> sql_value_deserialize_as Sql_inval SQL_VALUE_TYPE_STRING (drop 1 ptr);
       cols \<leftarrow> arr_set cols i
         \<lparr>col_name = value_string temp, col_type = dt_of_byte type, col_is_primary_key = (i = 0)\<rparr>;
       deserialize_defs n (i + 1) cols (drop (1 + unat k) ptr)
     }"

definition sqldb_table_tbl_deserialize_table_def ::
  "bytes \<Rightarrow> sql_table \<Rightarrow> (sql_e \<times> sql_table) option" where
  "sqldb_table_tbl_deserialize_table_def buf out_table =
     do {
       (k, v) \<leftarrow> sql_value_deserialize_as Sql_inval SQL_VALUE_TYPE_INT buf;
       table_id \<leftarrow> value_num v;
       (let ptr = drop (unat k) buf in do {
          (k, v) \<leftarrow> sql_value_deserialize_as v SQL_VALUE_TYPE_STRING ptr;
          (let name = value_string v; ptr = drop (unat k) ptr in do {
             (k, v) \<leftarrow> sql_value_deserialize_as v SQL_VALUE_TYPE_INT ptr;
             root_page \<leftarrow> value_num v;
             (let ptr = drop (unat k) ptr in do {
                (k, v) \<leftarrow> sql_value_deserialize_as v SQL_VALUE_TYPE_INT ptr;
                len \<leftarrow> value_num v;
                (let column_array_len = (ucast len :: u32) in do {
                   cols \<leftarrow> deserialize_defs (unat column_array_len) 0 (tb_columns out_table)
                     (drop (unat k) ptr);
                   Some (SQL_OK, out_table
                     \<lparr>tb_ncolumns := column_array_len, tb_columns := cols, tb_table_name := name,
                      tb_meta := \<lparr>tm_root_page = ucast root_page, tm_table_id = ucast table_id\<rparr>\<rparr>)
                 })
              })
           })
        })
     }"

fun defs_size :: "sql_table_column list \<Rightarrow> u32 \<Rightarrow> u32 option" where
  "defs_size [] n = Some n"
| "defs_size (col # cols) n =
     do { name \<leftarrow> col_name col; defs_size cols (n + (sql_string_len name + 4 + 1)) }"

definition sqldb_table_tbl_serialize_table_def_size :: "sql_table \<Rightarrow> u32 option" where
  "sqldb_table_tbl_serialize_table_def_size table =
     do {
       name \<leftarrow> tb_table_name table;
       cols \<leftarrow> mem_read (tb_columns table) 0 (unat (tb_ncolumns table));
       sizeof_col_array \<leftarrow> defs_size cols 0;
       Some (4 + (4 + sql_string_len name) + 4 + (4 + sizeof_col_array))
     }"

fun serialize_defs :: "sql_table_column list \<Rightarrow> bytes \<Rightarrow> nat \<Rightarrow> bytes option" where
  "serialize_defs [] m ptr = Some m"
| "serialize_defs (col # cols) m ptr =
     do {
       m \<leftarrow> arr_set m ptr (byte_of_dt (col_type col));
       name \<leftarrow> col_name col;
       (k, m) \<leftarrow> sql_value_serialize_string name m (ptr + 1);
       serialize_defs cols m (ptr + 1 + unat k)
     }"

definition sqldb_table_tbl_serialize_table_def :: "sql_table \<Rightarrow> bytes \<Rightarrow> (sql_e \<times> bytes) option" where
  "sqldb_table_tbl_serialize_table_def table m =
     do {
       (k1, m) \<leftarrow> sql_value_serialize_int (tm_table_id (tb_meta table)) m 0;
       name \<leftarrow> tb_table_name table;
       (k2, m) \<leftarrow> sql_value_serialize_string name m (unat k1);
       (k3, m) \<leftarrow> sql_value_serialize_int (tm_root_page (tb_meta table)) m (unat k1 + unat k2);
       (k4, m) \<leftarrow> sql_value_serialize_int (tb_ncolumns table) m (unat k1 + unat k2 + unat k3);
       cols \<leftarrow> mem_read (tb_columns table) 0 (unat (tb_ncolumns table));
       m \<leftarrow> serialize_defs cols m (unat k1 + unat k2 + unat k3 + unat k4);
       Some (SQL_OK, m)
     }"

text \<open>\<open>scanbuffer_resize\<close> of three files: the buffer grows if it has to, and is zeroed.\<close>

definition scanbuffer_resize :: "bytes \<Rightarrow> u32 \<Rightarrow> bytes" where
  "scanbuffer_resize buf min_size = replicate (max (length buf) (unat min_size)) 0"

text \<open>
  The tables are scanned for the name.  The results: the error, the table if it was found, and the
  pager.
\<close>

partial_function (option) table_find_loop ::
  "unit op_scan \<Rightarrow> 'f pager \<Rightarrow> bytes \<Rightarrow> sql_string \<Rightarrow> (sql_e \<times> sql_table option \<times> 'f pager) option" where
  "table_find_loop scan pager buffer name =
     (if btree_op_scan_done scan then Some (SQL_OK, None, pager)
      else do {
        (result, scan, pager, buffer) \<leftarrow>
          (let buffer = scanbuffer_resize buffer (oc_data_size scan) in
           btree_op_scan_current scan pager buffer (of_nat (length buffer)));
        if sqlbt_err result \<noteq> SQL_OK then Some (sqlbt_err result, None, pager)
        else do {
          (result, table) \<leftarrow> sqldb_table_tbl_deserialize_table_def buffer sql_table_create;
          if result \<noteq> SQL_OK then Some (result, None, pager)
          else do {
            table_name \<leftarrow> tb_table_name table;
            same \<leftarrow> sql_string_equals table_name name;
            if same then Some (SQL_OK, Some table, pager)
            else do {
              (result, scan, pager) \<leftarrow> btree_op_scan_next scan pager;
              if sqlbt_err result \<noteq> SQL_OK then Some (sqlbt_err result, None, pager)
              else table_find_loop scan pager buffer name
            }
          }
        }
      })"

definition sqldb_table_tbl_find ::
  "'f sqldb \<Rightarrow> sql_string \<Rightarrow> sql_table \<Rightarrow> (sql_e \<times> sql_table \<times> 'f sqldb) option" where
  "sqldb_table_tbl_find db name out_table =
     do {
       tree \<leftarrow> mt_tree (db_tb_tables db);
       (let (result, scan) = btree_op_scan_acquire tree in do {
          (result, scan, pager) \<leftarrow> btree_op_scan_prepare scan (db_pager db);
          (result, table, pager) \<leftarrow>
            (if sqlbt_err result \<noteq> SQL_OK then Some (sqlbt_err result, None, pager)
             else table_find_loop scan pager [] name);
          case table of
            None \<Rightarrow> Some (SQL_ERR_NOT_FOUND, out_table, db\<lparr>db_pager := pager\<rparr>)
          | Some table \<Rightarrow> do {
              (out_table, _) \<leftarrow> sql_table_move out_table table;
              Some (result, out_table, db\<lparr>db_pager := pager\<rparr>)
            }
        })
     }"

section \<open>Counters\<close>

definition seq_tbl_layout :: ibtree_layout_schema where
  "seq_tbl_layout =
     \<lparr>ls_key_offset = 0,
      ls_key_definitions = \<lparr>kd_type = IBTLSK_TYPE_VARSIZE, kd_size = 0\<rparr> #
        replicate 7 \<lparr>kd_type = IBTLSK_TYPE_INVALID, kd_size = 0\<rparr>,
      ls_nkey_definitions = 1\<rparr>"

definition tb_seq_ctx :: ibtls_compare_context where
  "tb_seq_ctx = ibtls_init_compare_context_from_schema seq_tbl_layout PAYLOAD_COMPARE_TYPE_KEY"

text \<open>\<open>record->values[1].value.num.num = f(record->values[1].value.num.num)\<close>.\<close>

definition change_num :: "sql_record \<Rightarrow> nat \<Rightarrow> (64 word \<Rightarrow> 64 word) \<Rightarrow> (64 word \<times> sql_record) option" where
  "change_num record i f =
     do {
       val \<leftarrow> arr_get (rec_values record) i;
       (case val of
          Sql_int n \<Rightarrow> do {
            vals \<leftarrow> arr_set (rec_values record) i (Sql_int (n\<lparr>sn_num := f (sn_num n)\<rparr>));
            Some (f (sn_num n), record\<lparr>rec_values := vals\<rparr>)
          }
        | _ \<Rightarrow> None)
     }"

text \<open>The counter is replaced by \<open>set_val\<close>, or goes up by one if that is zero.\<close>

definition read_and_update_sequence ::
  "'f sqldb \<Rightarrow> sql_string \<Rightarrow> u32 \<Rightarrow> u32 \<Rightarrow> (sql_e \<times> u32 \<times> 'f sqldb) option" where
  "read_and_update_sequence db sequence_name set_val out_next =
     do {
       tbl \<leftarrow> mt_table (db_tb_sequences db);
       (_, table_key) \<leftarrow> sql_value_serialize_string sequence_name
         (replicate (unat (ss_size sequence_name + 4)) 0) 0;
       tree \<leftarrow> mt_tree (db_tb_sequences db);
       (result, upd) \<leftarrow> btree_op_update_acquire_index tree table_key (ss_size sequence_name + 4) tb_seq_ctx;
       if sqlbt_err result \<noteq> SQL_OK then Some (sqlbt_err result, out_next, db)
       else do {
         (btr, upd, pager) \<leftarrow> btree_op_update_prepare upd (db_pager db);
         (let db = db\<lparr>db_pager := pager\<rparr> in
          if btr = BTREE_ERR_KEY_NOT_FOUND then Some (SQL_ERR_NOT_FOUND, out_next, db)
          else if btr \<noteq> BTREE_OK then Some (sqlbt_err btr, out_next, db)
          else do {
            (result, upd, pager, buf) \<leftarrow> btree_op_update_preview upd pager
              (replicate (unat (ou_data_size upd)) 0) (ou_data_size upd);
            (let db = db\<lparr>db_pager := pager\<rparr> in
             if sqlbt_err result \<noteq> SQL_OK then Some (sqlbt_err result, out_next, db)
             else do {
               (result, _, record) \<leftarrow> sql_ibtree_deserialize_record tbl sql_record_schema_create
                 sql_record_create buf;
               if result \<noteq> SQL_OK then Some (result, out_next, db)
               else do {
                 (num, record) \<leftarrow> change_num record 1
                   (\<lambda>n. if set_val \<noteq> 0 then scast set_val else n + 1);
                 (let out_next = ucast num in do {
                    (result, serred) \<leftarrow> sql_ibtree_serialize_record_acquire tbl record;
                    case serred of
                      None \<Rightarrow> Some (result, out_next, db)
                    | Some serred \<Rightarrow> do {
                        (result, upd, pager) \<leftarrow> btree_op_update_commit upd pager (sr_buf serred) (sr_size serred);
                        Some (sqlbt_err result, out_next, db\<lparr>db_pager := pager\<rparr>)
                      }
                  })
               }
             })
          })
       }
     }"

text \<open>Where the record cannot be serialized, an empty payload is inserted.\<close>

definition create_sequence :: "'f sqldb \<Rightarrow> sql_string \<Rightarrow> u32 \<Rightarrow> (sql_e \<times> 'f sqldb) option" where
  "create_sequence db sequence_name out_next =
     do {
       tbl \<leftarrow> mt_table (db_tb_sequences db);
       schema \<leftarrow> sql_record_schema_emplace_colname_c sql_record_schema_create (c_string ''sequence_name'');
       schema \<leftarrow> sql_record_schema_emplace_colname_c schema (c_string ''value'');
       record \<leftarrow> sql_record_emplace_literal (sql_record_create\<lparr>rec_schema := Some schema\<rparr>)
         sequence_name SQL_LITERALSTR_TYPE_STRING;
       record \<leftarrow> sql_record_emplace_number record out_next;
       (_, serred) \<leftarrow> sql_ibtree_serialize_record_acquire tbl record;
       tree \<leftarrow> mt_tree (db_tb_sequences db);
       (result, pager) \<leftarrow> ibtree_insert_ex tree (db_pager db) (case_option [] sr_buf serred)
         (case_option 0 sr_size serred) tb_seq_ctx;
       Some (sqlbt_err result, db\<lparr>db_pager := pager\<rparr>)
     }"

definition sqldb_seq_tbl_next :: "'f sqldb \<Rightarrow> sql_string \<Rightarrow> (sql_e \<times> u32 \<times> 'f sqldb) option" where
  "sqldb_seq_tbl_next db sequence_name =
     do {
       (result, out_next, db) \<leftarrow> read_and_update_sequence db sequence_name 0 0;
       if result = SQL_ERR_NOT_FOUND then do {
         (result, db) \<leftarrow> create_sequence db sequence_name 1;
         Some (result, 1, db)
       } else Some (result, out_next, db)
     }"

definition sqldb_seq_tbl_set :: "'f sqldb \<Rightarrow> sql_string \<Rightarrow> u32 \<Rightarrow> (sql_e \<times> 'f sqldb) option" where
  "sqldb_seq_tbl_set db sequence_name seq =
     do {
       (result, seq, db) \<leftarrow> read_and_update_sequence db sequence_name seq seq;
       if result = SQL_ERR_NOT_FOUND then create_sequence db sequence_name seq else Some (result, db)
     }"

section \<open>Tables\<close>

text \<open>The table gets the number that follows the last page, which is not taken yet.\<close>

definition sqldb_create_table :: "'f sqldb \<Rightarrow> sql_table \<Rightarrow> (sql_e \<times> sql_table \<times> 'f sqldb) option" where
  "sqldb_create_table db table =
     do {
       ser_size \<leftarrow> sqldb_table_tbl_serialize_table_def_size table;
       (let (pager_result, page_id) = pager_next_unused (db_pager db) in
        if sqlpager_err pager_result \<noteq> SQL_OK then Some (sqlpager_err pager_result, table, db)
        else
          (let table = table\<lparr>tb_meta := (tb_meta table)\<lparr>tm_root_page := page_id\<rparr>\<rparr> in do {
             name \<leftarrow> sql_string_create_from_cstring (c_string ''tables'');
             (result, seq, db) \<leftarrow> sqldb_seq_tbl_next db name;
             if result \<noteq> SQL_OK then Some (result, table, db)
             else
               (let table = table\<lparr>tb_meta := (tb_meta table)\<lparr>tm_table_id := seq\<rparr>\<rparr> in do {
                  (result, buffer) \<leftarrow> sqldb_table_tbl_serialize_table_def table (replicate (unat ser_size) 0);
                  if result \<noteq> SQL_OK then Some (result, table, db)
                  else do {
                    tree \<leftarrow> mt_tree (db_tb_tables db);
                    (result, pager) \<leftarrow> btree_insert tree (db_pager db) seq buffer ser_size;
                    Some (sqlbt_err result, table, db\<lparr>db_pager := pager\<rparr>)
                  }
                })
           }))
     }"

definition emplace_schema_column ::
  "sql_record_schema \<Rightarrow> sql_table_column \<Rightarrow> sql_record_schema option" where
  "emplace_schema_column schema col =
     do { name \<leftarrow> col_name col; copy \<leftarrow> sql_string_copy name; schema_push schema copy }"

fun verify_columns :: "sql_record_schema \<Rightarrow> sql_table_column list \<Rightarrow> sql_e option" where
  "verify_columns schema [] = Some SQL_OK"
| "verify_columns schema (col # cols) =
     (if col_is_primary_key col then verify_columns schema cols
      else do {
        name \<leftarrow> col_name col;
        i \<leftarrow> sql_record_schema_indexof schema name;
        if i = None then Some SQL_ERR_BAD_RECORD else verify_columns schema cols
      })"

definition verify_record :: "sql_table \<Rightarrow> sql_record \<Rightarrow> sql_e option" where
  "verify_record tab record =
     do {
       schema \<leftarrow> rec_schema record;
       cols \<leftarrow> mem_read (tb_columns tab) 0 (unat (tb_ncolumns tab));
       verify_columns schema cols
     }"

definition sqldb_table_prepare_record ::
  "'f sqldb \<Rightarrow> sql_table \<Rightarrow> sql_record \<Rightarrow> (sql_e \<times> sql_record \<times> u32 option \<times> 'f sqldb) option" where
  "sqldb_table_prepare_record db tab record =
     do {
       result \<leftarrow> verify_record tab record;
       if result \<noteq> SQL_OK then Some (result, record, None, db)
       else do {
         pkey_ind \<leftarrow> sql_table_find_primary_key tab;
         pkey_ind \<leftarrow> pkey_ind;
         pkey_col \<leftarrow> arr_get (tb_columns tab) pkey_ind;
         schema \<leftarrow> rec_schema record;
         name \<leftarrow> col_name pkey_col;
         schema_pkey_ind \<leftarrow> sql_record_schema_indexof schema name;
         table_name \<leftarrow> tb_table_name tab;
         case schema_pkey_ind of
           None \<Rightarrow> do {
             (result, seq, db) \<leftarrow> sqldb_seq_tbl_next db table_name;
             if result \<noteq> SQL_OK then Some (result, record, None, db)
             else do {
               record \<leftarrow> sql_record_emplace_number record seq;
               schema \<leftarrow> emplace_schema_column schema pkey_col;
               Some (SQL_OK, record\<lparr>rec_schema := Some schema\<rparr>, Some seq, db)
             }
           }
         | Some i \<Rightarrow> do {
             val \<leftarrow> arr_get (rec_values record) i;
             num \<leftarrow> value_num val;
             (let seq = (ucast num :: u32) in do {
                (result, db) \<leftarrow> sqldb_seq_tbl_set db table_name seq;
                Some (result, record, if result = SQL_OK then Some seq else None, db)
              })
           }
       }
     }"

definition sqldb_table_btree_acquire ::
  "'f sqldb \<Rightarrow> sql_table \<Rightarrow> (sql_e \<times> unit btree option \<times> 'f sqldb) option" where
  "sqldb_table_btree_acquire db tab =
     do {
       require (tm_root_page (tb_meta tab) \<noteq> 0);
       (result, tree, pager) \<leftarrow> btree_factory_view_acquire (db_pager db) (tm_root_page (tb_meta tab));
       Some (result, tree, db\<lparr>db_pager := pager\<rparr>)
     }"

end
