(* ===== verification/SqlInterpret.thy ===== *)
theory SqlInterpret
  imports SqlCatalog
begin

text \<open>
  Scanning a table (\<open>sqldb_scan.c\<close>, \<open>sqldb_scanbuffer.c\<close>) and running a statement
  (\<open>sqldb_interpret.c\<close>).  What a statement prints is the last result: the columns and values of each
  record, in order.
\<close>

section \<open>Scanning a table\<close>

datatype scan_e = SE_INIT | SE_BEGIN | SE_SCAN | SE_END | SE_FINALIZED

record scan_state =
  fs_step :: scan_e
  fs_op :: "unit op_scan"
  fs_tree :: "unit btree option"
  fs_buffer :: bytes
  fs_table :: sql_table
  fs_record :: "sql_record option"

record sqldb_scan =
  sc_table_name :: sql_string
  sc_current_record :: "sql_record option"
  sc_internal :: scan_state

definition zero_op_scan :: "unit op_scan" where
  "zero_op_scan =
     \<lparr>oc_last_status = BTREE_ERR_INVALID_INVALID, oc_initialized = False, oc_data_size = 0,
      oc_cursor = None, oc_step = OP_SCAN_STEP_UNINIT\<rparr>"

definition sqldb_scan_acquire :: "sql_string \<Rightarrow> (sql_e \<times> sqldb_scan) option" where
  "sqldb_scan_acquire name =
     do {
       copy \<leftarrow> sql_string_copy name;
       Some (SQL_OK,
         \<lparr>sc_table_name = copy, sc_current_record = None,
          sc_internal = \<lparr>fs_step = SE_INIT, fs_op = zero_op_scan, fs_tree = None, fs_buffer = [],
            fs_table = sql_table_create, fs_record = None\<rparr>\<rparr>)
     }"

text \<open>The label \<open>end\<close>: everything is released, and the scan is over.\<close>

definition scan_end :: "sqldb_scan \<Rightarrow> sqldb_scan" where
  "scan_end scan =
     scan\<lparr>sc_internal := (sc_internal scan)
       \<lparr>fs_step := SE_FINALIZED, fs_op := snd (btree_op_scan_release (fs_op (sc_internal scan))),
        fs_tree := None\<rparr>\<rparr>"

text \<open>
  The label \<open>begin\<close>: the loop stops at its first record, so one call goes through its body once at
  most.
\<close>

definition scan_begin :: "sqldb_scan \<Rightarrow> 'f sqldb \<Rightarrow> (sql_e \<times> sqldb_scan \<times> 'f sqldb) option" where
  "scan_begin scan db =
     (let fsm = sc_internal scan in
      if btree_op_scan_done (fs_op fsm) then Some (SQL_OK, scan_end scan, db)
      else do {
        (result, scop, pager, buffer) \<leftarrow>
          (let buffer = scanbuffer_resize (fs_buffer fsm) (oc_data_size (fs_op fsm)) in
           btree_op_scan_current (fs_op fsm) (db_pager db) buffer (of_nat (length buffer)));
        (let db = db\<lparr>db_pager := pager\<rparr>; fsm = fsm\<lparr>fs_op := scop, fs_buffer := buffer\<rparr> in
         if sqlbt_err result \<noteq> SQL_OK
         then Some (sqlbt_err result, scan_end (scan\<lparr>sc_internal := fsm\<rparr>), db)
         else do {
           (result, _, record) \<leftarrow> sql_ibtree_deserialize_record (fs_table fsm)
             sql_record_schema_create sql_record_create buffer;
           (let fsm = fsm\<lparr>fs_record := Some record\<rparr> in
            if result \<noteq> SQL_OK then Some (result, scan_end (scan\<lparr>sc_internal := fsm\<rparr>), db)
            else Some (SQL_OK,
              scan\<lparr>sc_current_record := Some record, sc_internal := fsm\<lparr>fs_step := SE_SCAN\<rparr>\<rparr>, db))
         })
      })"

definition scan_init :: "sqldb_scan \<Rightarrow> 'f sqldb \<Rightarrow> (sql_e \<times> sqldb_scan \<times> 'f sqldb) option" where
  "scan_init scan db =
     do {
       (result, table, db) \<leftarrow> sqldb_table_tbl_find db (sc_table_name scan) sql_table_create;
       (let fsm = (sc_internal scan)\<lparr>fs_table := table\<rparr> in
        if result \<noteq> SQL_OK then Some (result, scan_end (scan\<lparr>sc_internal := fsm\<rparr>), db)
        else do {
          (result, tree, db) \<leftarrow> sqldb_table_btree_acquire db table;
          (let fsm = fsm\<lparr>fs_tree := tree\<rparr> in
           if result \<noteq> SQL_OK then Some (result, scan_end (scan\<lparr>sc_internal := fsm\<rparr>), db)
           else do {
             tree \<leftarrow> tree;
             (let (_, scop) = btree_op_scan_acquire tree in do {
                (result, scop, pager) \<leftarrow> btree_op_scan_prepare scop (db_pager db);
                (let fsm = fsm\<lparr>fs_op := scop\<rparr>; db = db\<lparr>db_pager := pager\<rparr> in
                 if sqlbt_err result \<noteq> SQL_OK
                 then Some (sqlbt_err result, scan_end (scan\<lparr>sc_internal := fsm\<rparr>), db)
                 else scan_begin (scan\<lparr>sc_internal := fsm\<lparr>fs_step := SE_BEGIN\<rparr>\<rparr>) db)
              })
           })
        })
     }"

text \<open>The label \<open>scan\<close>: the record is dropped, and the loop goes on behind it.\<close>

definition scan_resume :: "sqldb_scan \<Rightarrow> 'f sqldb \<Rightarrow> (sql_e \<times> sqldb_scan \<times> 'f sqldb) option" where
  "scan_resume scan db =
     (let fsm = (sc_internal scan)\<lparr>fs_record := None\<rparr> in do {
        (result, scop, pager) \<leftarrow> btree_op_scan_next (fs_op fsm) (db_pager db);
        (let scan = scan\<lparr>sc_current_record := None, sc_internal := fsm\<lparr>fs_op := scop\<rparr>\<rparr>;
             db = db\<lparr>db_pager := pager\<rparr> in
         if sqlbt_err result \<noteq> SQL_OK then Some (sqlbt_err result, scan_end scan, db)
         else scan_begin scan db)
      })"

definition sqldb_scan_next :: "sqldb_scan \<Rightarrow> 'f sqldb \<Rightarrow> (sql_e \<times> sqldb_scan \<times> 'f sqldb) option" where
  "sqldb_scan_next scan db =
     (case fs_step (sc_internal scan) of
        SE_INIT \<Rightarrow> scan_init scan db
      | SE_BEGIN \<Rightarrow> scan_begin scan db
      | SE_SCAN \<Rightarrow> scan_resume scan db
      | SE_END \<Rightarrow> Some (SQL_OK, scan_end scan, db)
      | SE_FINALIZED \<Rightarrow> Some (SQL_OK, scan, db))"

definition sqldb_scan_update ::
  "sqldb_scan \<Rightarrow> 'f sqldb \<Rightarrow> sql_record \<Rightarrow> (sql_e \<times> sqldb_scan \<times> 'f sqldb) option" where
  "sqldb_scan_update scan db record =
     do {
       newsize \<leftarrow> sql_ibtree_serialize_record_size record;
       (let fsm = (sc_internal scan)\<lparr>fs_buffer := scanbuffer_resize (fs_buffer (sc_internal scan)) newsize\<rparr> in do {
          (result, serred) \<leftarrow> sql_ibtree_serialize_record_acquire (fs_table fsm) record;
          case serred of
            None \<Rightarrow> Some (result, scan\<lparr>sc_internal := fsm\<rparr>, db)
          | Some serred \<Rightarrow> do {
              (result, scop, pager) \<leftarrow> btree_op_scan_update (fs_op fsm) (db_pager db) (sr_buf serred) (sr_size serred);
              Some (sqlbt_err result, scan\<lparr>sc_internal := fsm\<lparr>fs_op := scop\<rparr>\<rparr>, db\<lparr>db_pager := pager\<rparr>)
            }
        })
     }"

definition sqldb_scan_delete :: "sqldb_scan \<Rightarrow> 'f sqldb \<Rightarrow> (sql_e \<times> sqldb_scan \<times> 'f sqldb) option" where
  "sqldb_scan_delete scan db =
     do {
       (result, scop, pager) \<leftarrow> btree_op_scan_delete (fs_op (sc_internal scan)) (db_pager db);
       Some (sqlbt_err result, scan\<lparr>sc_internal := (sc_internal scan)\<lparr>fs_op := scop\<rparr>\<rparr>,
         db\<lparr>db_pager := pager\<rparr>)
     }"

definition sqldb_scan_done :: "sqldb_scan \<Rightarrow> bool" where
  "sqldb_scan_done scan \<longleftrightarrow> fs_step (sc_internal scan) = SE_FINALIZED"

definition sqldb_scan_release :: "sqldb_scan \<Rightarrow> sqldb_scan" where
  "sqldb_scan_release scan = (if sqldb_scan_done scan then scan else scan_end scan)"

definition sqldb_scan_record :: "sqldb_scan \<Rightarrow> sql_record option" where
  "sqldb_scan_record scan =
     (if fs_step (sc_internal scan) = SE_SCAN then fs_record (sc_internal scan) else None)"

section \<open>Statements\<close>

definition create_table :: "'f sqldb \<Rightarrow> sql_parsed_create_table \<Rightarrow> (sql_e \<times> 'f sqldb) option" where
  "create_table db ct =
     do {
       table \<leftarrow> sql_parsegen_table_from_create_table ct sql_table_create;
       (result, _, db) \<leftarrow> sqldb_create_table db table;
       Some (result, db)
     }"

definition insert_row ::
  "'f sqldb \<Rightarrow> sql_table \<Rightarrow> sql_record \<Rightarrow> u32 \<Rightarrow> unit btree \<Rightarrow> (sql_e \<times> 'f sqldb) option" where
  "insert_row db table record row_id tree =
     do {
       (result, upsert) \<leftarrow> btree_op_update_acquire_tbl tree row_id ();
       if sqlbt_err result \<noteq> SQL_OK then Some (sqlbt_err result, db)
       else do {
         (result, upsert, pager) \<leftarrow> btree_op_update_prepare upsert (db_pager db);
         (let db = db\<lparr>db_pager := pager\<rparr> in
          if sqlbt_err result \<noteq> SQL_ERR_NOT_FOUND then Some (sqlbt_err result, db)
          else do {
            (result, serred) \<leftarrow> sql_ibtree_serialize_record_acquire table record;
            case serred of
              None \<Rightarrow> Some (result, db)
            | Some serred \<Rightarrow> do {
                (result, upsert, pager) \<leftarrow> btree_op_update_commit upsert pager (sr_buf serred) (sr_size serred);
                Some (sqlbt_err result, db\<lparr>db_pager := pager\<rparr>)
              }
          })
       }
     }"

definition insert_s :: "'f sqldb \<Rightarrow> sql_parsed_insert \<Rightarrow> (sql_e \<times> 'f sqldb) option" where
  "insert_s db ins =
     do {
       name \<leftarrow> pi_table_name ins;
       (result, table, db) \<leftarrow> sqldb_table_tbl_find db name sql_table_create;
       if result \<noteq> SQL_OK then Some (result, db)
       else do {
         (result, record_schema) \<leftarrow> sql_parsegen_record_schema_from_insert ins sql_record_schema_create;
         (result, record) \<leftarrow> sql_parsegen_record_from_insert ins record_schema sql_record_create;
         if result \<noteq> SQL_OK then Some (result, db)
         else do {
           (result, record, row_id, db) \<leftarrow> sqldb_table_prepare_record db table record;
           if result \<noteq> SQL_OK then Some (result, db)
           else do {
             row_id \<leftarrow> row_id;
             (result, tree, db) \<leftarrow> sqldb_table_btree_acquire db table;
             if result \<noteq> SQL_OK then Some (result, db)
             else do { tree \<leftarrow> tree; insert_row db table record row_id tree }
           }
         }
       }
     }"

text \<open>No clause matches every record; a column the record lacks matches none.\<close>

definition match_where :: "sql_record \<Rightarrow> sql_parsed_where_clause \<Rightarrow> bool option" where
  "match_where record w =
     (case pw_field w of
        None \<Rightarrow> Some True
      | Some field \<Rightarrow> do {
          schema \<leftarrow> rec_schema record;
          i \<leftarrow> sql_record_schema_indexof schema field;
          case i of
            None \<Rightarrow> Some False
          | Some i \<Rightarrow> do {
              (sqle, val) \<leftarrow> sql_value_acquire_eval (pw_value w);
              if sqle \<noteq> SQL_OK then Some False
              else do { v \<leftarrow> arr_get (rec_values record) i; sql_value_equals v val }
            }
        })"

type_synonym printed = "(sql_string \<times> sql_value) list"

fun print_values :: "sql_string option list \<Rightarrow> sql_value list \<Rightarrow> printed option" where
  "print_values names [] = Some []"
| "print_values [] (v # vs) = None"
| "print_values (c # cs) (v # vs) =
     do { name \<leftarrow> c; rest \<leftarrow> print_values cs vs; Some ((name, v) # rest) }"

definition print_record_s :: "sql_record \<Rightarrow> printed option" where
  "print_record_s record =
     do {
       vals \<leftarrow> mem_read (rec_values record) 0 (unat (rec_nvalues record));
       if vals = [] then Some []
       else do { schema \<leftarrow> rec_schema record; print_values (rs_columns schema) vals }
     }"

text \<open>
  The statements that scan share a loop; \<open>act\<close> is what they do with a record that matches.  It may
  change the record, but the scan drops it at the next step.
\<close>

partial_function (option) scan_loop ::
  "(sqldb_scan \<Rightarrow> 'f sqldb \<Rightarrow> sql_record \<Rightarrow> (sqldb_scan \<times> 'f sqldb \<times> printed) option)
   \<Rightarrow> sql_parsed_where_clause \<Rightarrow> sqldb_scan \<Rightarrow> 'f sqldb \<Rightarrow> printed list
   \<Rightarrow> (sql_e \<times> 'f sqldb \<times> printed list) option" where
  "scan_loop act w scan db out =
     do {
       (result, scan, db) \<leftarrow> sqldb_scan_next scan db;
       if result \<noteq> SQL_OK then Some (result, db, out)
       else
         (case sqldb_scan_record scan of
            None \<Rightarrow> Some (result, db, out)
          | Some record \<Rightarrow> do {
              hit \<leftarrow> match_where record w;
              (scan, db, out) \<leftarrow>
                (if hit then do {
                   (scan, db, line) \<leftarrow> act scan db record;
                   Some (scan, db, out @ [line])
                 } else Some (scan, db, out));
              if sqldb_scan_done scan then Some (result, db, out) else scan_loop act w scan db out
            })
     }"

definition select_s :: "'f sqldb \<Rightarrow> sql_parsed_select \<Rightarrow> (sql_e \<times> 'f sqldb \<times> printed list) option" where
  "select_s db sel =
     do {
       name \<leftarrow> ps_table_name sel;
       (result, scan) \<leftarrow> sqldb_scan_acquire name;
       scan_loop (\<lambda>scan db record. do { line \<leftarrow> print_record_s record; Some (scan, db, line) })
         (ps_where sel) scan db []
     }"

definition update_record_value :: "sql_record \<Rightarrow> sql_string \<Rightarrow> sql_value \<Rightarrow> sql_record option" where
  "update_record_value record column newvalue =
     do {
       schema \<leftarrow> rec_schema record;
       i \<leftarrow> sql_record_schema_indexof schema column;
       i \<leftarrow> i;
       vals \<leftarrow> arr_set (rec_values record) i newvalue;
       Some (record\<lparr>rec_values := vals\<rparr>)
     }"

fun update_values ::
  "sql_record \<Rightarrow> sql_string option list \<Rightarrow> sql_literal_str list \<Rightarrow> sql_record option" where
  "update_values record [] ls = Some record"
| "update_values record (c # cs) [] = None"
| "update_values record (c # cs) (l # ls) =
     do {
       (_, newvalue) \<leftarrow> sql_value_acquire_eval l;
       column \<leftarrow> c;
       record \<leftarrow> update_record_value record column newvalue;
       update_values record cs ls
     }"

text \<open>The record is printed before it is changed; the caller drops the error.\<close>

definition update_record ::
  "sql_parsed_update \<Rightarrow> sqldb_scan \<Rightarrow> 'f sqldb \<Rightarrow> sql_record \<Rightarrow> (sqldb_scan \<times> 'f sqldb \<times> printed) option" where
  "update_record upd scan db record =
     do {
       line \<leftarrow> print_record_s record;
       cs \<leftarrow> mem_read (pu_columns upd) 0 (unat (pu_ncolumns upd));
       record \<leftarrow> update_values record cs (pu_values upd);
       (_, scan, db) \<leftarrow> sqldb_scan_update scan db record;
       Some (scan, db, line)
     }"

definition delete_record ::
  "sqldb_scan \<Rightarrow> 'f sqldb \<Rightarrow> sql_record \<Rightarrow> (sqldb_scan \<times> 'f sqldb \<times> printed) option" where
  "delete_record scan db record =
     do {
       line \<leftarrow> print_record_s record;
       (_, scan, db) \<leftarrow> sqldb_scan_delete scan db;
       Some (scan, db, line)
     }"

definition delete_s :: "'f sqldb \<Rightarrow> sql_parsed_delete \<Rightarrow> (sql_e \<times> 'f sqldb \<times> printed list) option" where
  "delete_s db del =
     do {
       name \<leftarrow> pd_table_name del;
       (result, scan) \<leftarrow> sqldb_scan_acquire name;
       scan_loop delete_record (pd_where del) scan db []
     }"

definition update_s :: "'f sqldb \<Rightarrow> sql_parsed_update \<Rightarrow> (sql_e \<times> 'f sqldb \<times> printed list) option" where
  "update_s db upd =
     do {
       name \<leftarrow> pu_table_name upd;
       (result, scan) \<leftarrow> sqldb_scan_acquire name;
       scan_loop (update_record upd) (pu_where upd) scan db []
     }"

definition sqldb_interpret :: "'f sqldb \<Rightarrow> sql_parse \<Rightarrow> (sql_e \<times> 'f sqldb \<times> printed list) option" where
  "sqldb_interpret db parsed =
     (case parsed of
        SQL_PARSE_INVALID \<Rightarrow> Some (SQL_OK, db, [])
      | SQL_PARSE_CREATE_TABLE ct \<Rightarrow> do { (result, db) \<leftarrow> create_table db ct; Some (result, db, []) }
      | SQL_PARSE_INSERT ins \<Rightarrow> do { (result, db) \<leftarrow> insert_s db ins; Some (result, db, []) }
      | SQL_PARSE_SELECT sel \<Rightarrow> select_s db sel
      | SQL_PARSE_UPDATE upd \<Rightarrow> update_s db upd
      | SQL_PARSE_DELETE del \<Rightarrow> delete_s db del)"

text \<open>One line of the command loop \<open>cli\<close> of \<open>sql_main.c\<close>.\<close>

definition cli_line :: "'f sqldb \<Rightarrow> bytes \<Rightarrow> (sql_e \<times> 'f sqldb \<times> printed list) option" where
  "cli_line db buf =
     do {
       input \<leftarrow> sql_string_create_from buf (of_nat (length buf));
       parse \<leftarrow> sql_parse_create input;
       sqldb_interpret db parse
     }"

end
