(* ===== verification/SqlRecordProps.thy ===== *)
theory SqlRecordProps
  imports SqlRecord "HOL-Library.Multiset"
begin

text \<open>
  A record is written column by column, the primary key first, and read back by the table alone.
  \<open>row\<close> gives the value of a column by its name.
\<close>

section \<open>Columns by name\<close>

definition names_are :: "sql_string option list \<Rightarrow> bytes list \<Rightarrow> bool" where
  "names_are cs ns \<longleftrightarrow> list_all2 (\<lambda>c n. \<exists>s. c = Some s \<and> string_ok s \<and> text_of s = n) cs ns"

definition schema_names :: "sql_record_schema \<Rightarrow> bytes list \<Rightarrow> bool" where
  "schema_names schema ns \<longleftrightarrow> unat (rs_ncolumns schema) = length ns \<and> length ns \<le> length (rs_columns schema) \<and>
     names_are (take (length ns) (rs_columns schema)) ns"

lemma names_are_simps [simp]:
  "names_are [] ns \<longleftrightarrow> ns = []"
  "names_are (c # cs) ns \<longleftrightarrow> (\<exists>s n ns'. ns = n # ns' \<and> c = Some s \<and> string_ok s \<and> text_of s = n \<and> names_are cs ns')"
  by (auto simp: names_are_def list_all2_Cons1)

lemma names_are_length: "names_are cs ns \<Longrightarrow> length cs = length ns"
  by (simp add: names_are_def list_all2_lengthD)

lemma index_of_name_spec:
  assumes "names_are cs ns" and "string_ok s"
  shows "index_of_name cs i s = Some (if text_of s \<in> set ns then Some (i + length (takeWhile (\<lambda>n. n \<noteq> text_of s) ns)) else None)"
  using assms(1)
proof (induction cs arbitrary: ns i)
  case (Cons c cs)
  then obtain t n ns' where c: "ns = n # ns'" "c = Some t" "string_ok t" "text_of t = n" "names_are cs ns'" by auto
  show ?case using Cons.IH [OF c(5), of "i + 1"] c string_equals [OF assms(2) c(3)] by auto
qed simp

lemma schema_indexof:
  assumes "schema_names schema ns" and "string_ok s"
  shows "sql_record_schema_indexof schema s =
    Some (if text_of s \<in> set ns then Some (length (takeWhile (\<lambda>n. n \<noteq> text_of s) ns)) else None)"
  using assms index_of_name_spec [of "take (length ns) (rs_columns schema)" ns s 0]
  by (simp add: sql_record_schema_indexof_def schema_names_def mem_simps)

lemma nth_index: "x \<in> set ns \<Longrightarrow> length (takeWhile (\<lambda>n. n \<noteq> x) ns) < length ns \<and> ns ! length (takeWhile (\<lambda>n. n \<noteq> x) ns) = x"
  by (induction ns) auto

section \<open>Tables\<close>

text \<open>The columns of a table, with their names and types.\<close>

definition column_is :: "sql_table_column \<Rightarrow> bytes \<times> sql_dt_e \<Rightarrow> bool" where
  "column_is col c \<longleftrightarrow> (\<exists>s. col_name col = Some s \<and> string_ok s \<and> text_of s = fst c) \<and> col_type col = snd c"

definition table_columns :: "sql_table \<Rightarrow> (bytes \<times> sql_dt_e) list \<Rightarrow> nat \<Rightarrow> bool" where
  "table_columns tbl cs p \<longleftrightarrow> unat (tb_ncolumns tbl) = length cs \<and> length cs \<le> length (tb_columns tbl) \<and>
     list_all2 column_is (take (length cs) (tb_columns tbl)) cs \<and>
     sql_table_find_primary_key tbl = Some (Some p)"

lemma index_of_primary_bound: "index_of_primary cols i = Some p \<Longrightarrow> i \<le> p \<and> p < i + length cols"
proof (induction cols arbitrary: i)
  case (Cons col cols)
  then show ?case by (fastforce split: if_splits dest: Cons.IH)
qed simp

lemma table_pkey:
  assumes "table_columns tbl cs p"
  shows "p < length cs" "arr_get (tb_columns tbl) p = Some (tb_columns tbl ! p)" "column_is (tb_columns tbl ! p) (cs ! p)"
proof -
  note T = assms [unfolded table_columns_def sql_table_find_primary_key_def]
  then show p: "p < length cs" using index_of_primary_bound [of "take (length cs) (tb_columns tbl)" 0 p]
    by (auto simp: mem_simps)
  then show "arr_get (tb_columns tbl) p = Some (tb_columns tbl ! p)" using T by simp
  show "column_is (tb_columns tbl ! p) (cs ! p)"
    using T p by (auto simp: list_all2_conv_all_nth)
qed

text \<open>The list without its element \<open>p\<close>, the way the loops skip it.\<close>

fun others :: "nat \<Rightarrow> nat \<Rightarrow> 'a list \<Rightarrow> 'a list" where
  "others p i [] = []"
| "others p i (x # xs) = (if i = p then others p (i + 1) xs else x # others p (i + 1) xs)"

lemma others_behind: "p < i \<Longrightarrow> others p i xs = xs"
  by (induction xs arbitrary: i) auto

lemma others_eq: "i \<le> p \<Longrightarrow> others p i xs = take (p - i) xs @ drop (Suc p - i) xs"
proof (induction xs arbitrary: i)
  case (Cons x xs)
  then show ?case
    by (cases "i = p") (auto simp: others_behind Suc_diff_le take_Cons' drop_Cons' Suc_diff_Suc)
qed simp

text \<open>The order of the columns in a payload.\<close>

definition stored_order :: "nat \<Rightarrow> 'a list \<Rightarrow> 'a list" where
  "stored_order p cs = cs ! p # others p 0 cs"

lemma stored_order_mset: "p < length cs \<Longrightarrow> mset (stored_order p cs) = mset cs"
  using arg_cong [OF id_take_nth_drop [of p cs], of mset] by (simp add: stored_order_def others_eq)

section \<open>Writing the columns\<close>

definition has_type :: "sql_value \<Rightarrow> sql_dt_e \<Rightarrow> bool" where
  "has_type v dt \<longleftrightarrow> value_ok v \<and> convert_to_value_type dt = Some (value_type v)"

text \<open>The values of the record are those of the row, in the order of its schema.\<close>

definition record_row :: "sql_record \<Rightarrow> bytes list \<Rightarrow> (bytes \<Rightarrow> sql_value) \<Rightarrow> bool" where
  "record_row record ns row \<longleftrightarrow> (\<exists>schema. rec_schema record = Some schema \<and> schema_names schema ns) \<and>
     unat (rec_nvalues record) = length ns \<and> length ns \<le> length (rec_values record) \<and>
     take (length ns) (rec_values record) = map row ns \<and> (\<forall>n \<in> set ns. value_ok (row n))"

definition row_image :: "(bytes \<Rightarrow> sql_value) \<Rightarrow> (bytes \<times> sql_dt_e) list \<Rightarrow> bytes" where
  "row_image row cs = concat (map (value_image \<circ> row \<circ> fst) cs)"

lemma row_image_simps [simp]:
  "row_image row [] = []" "row_image row (c # cs) = value_image (row (fst c)) @ row_image row cs"
  by (simp_all add: row_image_def)

lemma record_value:
  assumes "record_row record ns row" and "string_ok s" and "text_of s \<in> set ns"
  shows "\<exists>i schema. rec_schema record = Some schema \<and> sql_record_schema_indexof schema s = Some (Some i) \<and>
    arr_get (rec_values record) i = Some (row (text_of s))"
proof -
  let ?i = "length (takeWhile (\<lambda>n. n \<noteq> text_of s) ns)"
  note R = assms(1) [unfolded record_row_def]
  obtain schema where s: "rec_schema record = Some schema" "schema_names schema ns" using R by blast
  note I = nth_index [OF assms(3)]
  have "rec_values record ! ?i = map row ns ! ?i"
    using R I by (metis nth_take)
  then show ?thesis
    using s schema_indexof [OF s(2) assms(2)] assms(3) I R by auto
qed

lemma serialize_columns_image:
  assumes "record_row record ns row" and "rec_schema record = Some schema"
    and "list_all2 column_is cols cs" and "fst ` set cs \<subseteq> set ns"
    and "unat written + length (row_image row (others p i cs)) \<le> length buffer" and "length buffer < 4294967296"
  shows "serialize_columns schema (rec_values record) p i cols buffer written =
    Some (patch buffer (unat written) (row_image row (others p i cs)))"
  using assms(3-)
proof (induction cols arbitrary: cs i buffer written)
  case Nil
  then show ?case by (simp add: patch_def)
next
  case (Cons col cols)
  then obtain c cs' where cs: "cs = c # cs'" "column_is col c" "list_all2 column_is cols cs'"
    by (auto simp: list_all2_Cons1)
  show ?case
  proof (cases "i = p")
    case True
    then show ?thesis using Cons.IH [OF cs(3), of written "i + 1" buffer] Cons.prems cs by simp
  next
    case False
    obtain s where s: "col_name col = Some s" "string_ok s" "text_of s = fst c" using cs(2) by (auto simp: column_is_def)
    have "text_of s \<in> set ns" using Cons.prems(2) cs s by auto
    from record_value [OF assms(1) s(2) this] assms(2) obtain k where
      k: "sql_record_schema_indexof schema s = Some (Some k)" "arr_get (rec_values record) k = Some (row (fst c))"
      using s(3) by auto
    let ?img = "value_image (row (fst c))" and ?rest = "row_image row (others p (i + 1) cs')"
    have ok: "value_ok (row (fst c))"
      using assms(1) Cons.prems(2) cs by (auto simp: record_row_def)
    have room: "unat written + length ?img + length ?rest \<le> length buffer"
      using Cons.prems(3) cs False by simp
    have n: "unat (of_nat (length ?img) :: u32) = length ?img"
      using length_value_image [OF ok] by (simp add: unat_u32_of_nat)
    have w: "unat (written + of_nat (length ?img)) = unat written + length ?img"
      using n room Cons.prems(4) by (subst unat_add_ok) simp_all
    have "serialize_columns schema (rec_values record) p (i + 1) cols (patch buffer (unat written) ?img)
        (written + of_nat (length ?img)) =
        Some (patch (patch buffer (unat written) ?img) (unat written + length ?img) ?rest)"
      using Cons.IH [OF cs(3), of "written + of_nat (length ?img)" "i + 1" "patch buffer (unat written) ?img"]
        Cons.prems(2,4) cs room unfolding w by simp
    moreover have "patch (patch buffer (unat written) ?img) (unat written + length ?img) ?rest =
        patch buffer (unat written) (?img @ ?rest)"
      using room by (simp add: patch_def add.assoc) (simp add: ac_simps)
    ultimately show ?thesis
      using False s k serialize_image [OF ok, of "unat written" buffer] room cs by simp
  qed
qed

lemma values_size:
  assumes "\<forall>v \<in> set vs. value_ok v" and "unat n + length (concat (map value_image vs)) < 4294967296"
  shows "\<exists>k. values_ser_size vs n = Some k \<and> unat k = unat n + length (concat (map value_image vs))"
  using assms
proof (induction vs arbitrary: n)
  case (Cons v vs)
  let ?k = "of_nat (length (value_image v)) :: u32"
  have ok: "value_ok v" using Cons.prems by simp
  then have size: "value_ser_size v = Some ?k"
    by (cases rule: value_cases) (simp_all add: value_ser_size_def value_image_def sql_string_len_def)
  have "unat ?k = length (value_image v)"
    using length_value_image [OF ok] by (simp add: unat_u32_of_nat)
  then have "unat (n + ?k) = unat n + length (value_image v)"
    using Cons.prems(2) by (subst unat_add_ok) simp_all
  then show ?case using Cons.IH [of "n + ?k"] Cons.prems size by (simp add: add.assoc)
qed simp

section \<open>Reading them\<close>

text \<open>A schema and a record that were filled from the front.\<close>

definition schema_of :: "bytes list \<Rightarrow> sql_record_schema" where
  "schema_of names =
     \<lparr>rs_columns = map (Some \<circ> str) names @ replicate (8 - length names) None, rs_ncolumns = of_nat (length names)\<rparr>"

definition record_of_values :: "sql_value list \<Rightarrow> sql_record" where
  "record_of_values vs =
     \<lparr>rec_schema = None, rec_values = vs @ replicate (8 - length vs) Sql_inval, rec_nvalues = of_nat (length vs)\<rparr>"

lemma create_empty: "sql_record_schema_create = schema_of []" "sql_record_create = record_of_values []"
  by (simp_all add: sql_record_schema_create_def schema_of_def sql_record_create_def record_of_values_def)

lemma replicate_front: "n < 8 \<Longrightarrow> replicate (8 - n) x = x # replicate (8 - Suc n) x"
  by (metis Suc_diff_Suc replicate_Suc)

lemma replicate_8_first: "(replicate 8 x)[0 := y] = y # replicate 7 x"
  using replicate_front [of 0 x] by simp

lemma push_fills:
  "length names < 8 \<Longrightarrow> schema_push (schema_of names) (str name) = Some (schema_of (names @ [name]))"
  "length vs < 8 \<Longrightarrow> record_push (record_of_values vs) v = Some (record_of_values (vs @ [v]))"
  "length vs < 8 \<Longrightarrow> arr_get (rec_values (record_of_values vs)) (unat (rec_nvalues (record_of_values vs))) = Some Sql_inval"
  by (simp_all add: schema_push_def schema_of_def record_push_def record_of_values_def arr_set_def unat_u32_of_nat
      replicate_front nth_append list_update_append)

text \<open>The value of a column as it comes back.\<close>

definition loaded :: "(bytes \<Rightarrow> sql_value) \<Rightarrow> bytes \<times> sql_dt_e \<Rightarrow> sql_value" where
  "loaded row c = reread (row (fst c)) 0"

lemma deserialize_column_image:
  assumes "column_is col c" and "has_type (row (fst c)) (snd c)" and "length names < 8" and "length vs < 8"
  shows "deserialize_column col (schema_of names) (record_of_values vs) (value_image (row (fst c)) @ rest) =
    Some (of_nat (length (value_image (row (fst c)))), schema_of (names @ [fst c]), record_of_values (vs @ [loaded row c]))"
proof -
  obtain s where s: "col_name col = Some s" "string_ok s" "text_of s = fst c" "col_type col = snd c"
    using assms(1) by (auto simp: column_is_def)
  have v: "value_ok (row (fst c))" "convert_to_value_type (col_type col) = Some (value_type (row (fst c)))"
    using assms(2) s by (simp_all add: has_type_def)
  show ?thesis
    using deserialize_image [OF v(1), of Sql_inval rest] v(2) s copy_str [OF s(2)] push_fills assms(3,4)
    by (simp add: deserialize_column_def loaded_def value_width_def)
qed

lemma deserialize_columns_image:
  assumes "list_all2 column_is cols cs" and "\<forall>c \<in> set (others p i cs). has_type (row (fst c)) (snd c)"
    and "length names + length (others p i cs) \<le> 8" and "length vs = length names"
  shows "deserialize_columns p i cols (schema_of names) (record_of_values vs) (row_image row (others p i cs) @ rest) =
    Some (schema_of (names @ map fst (others p i cs)), record_of_values (vs @ map (loaded row) (others p i cs)))"
  using assms
proof (induction cols arbitrary: cs i names vs)
  case (Cons col cols)
  then obtain c cs' where cs: "cs = c # cs'" "column_is col c" "list_all2 column_is cols cs'"
    by (auto simp: list_all2_Cons1)
  show ?case
  proof (cases "i = p")
    case True
    then show ?thesis using Cons.IH [OF cs(3), of "i + 1" names vs] Cons.prems cs by simp
  next
    case False
    have ok: "has_type (row (fst c)) (snd c)" "length names < 8" "length vs < 8"
      using Cons.prems(2-4) cs False by simp_all
    have "value_ok (row (fst c))" using ok(1) by (simp add: has_type_def)
    then have "unat (of_nat (length (value_image (row (fst c)))) :: u32) = length (value_image (row (fst c)))"
      using length_value_image [of "row (fst c)"] by (simp add: unat_u32_of_nat)
    then show ?thesis
      using Cons.IH [OF cs(3), of "i + 1" "names @ [fst c]" "vs @ [loaded row c]"] Cons.prems(2-4) cs(1,3) False
        deserialize_column_image [of col c row names vs "row_image row (others p (i + 1) cs') @ rest"] ok cs(2)
      by simp
  qed
qed simp

text \<open>From any bytes the types are right.\<close>

lemma deserialized_type: "sql_value_deserialize_as old type buf = Some (k, v) \<Longrightarrow> value_type v = type"
  by (auto simp: sql_value_deserialize_as_def bind_option_Some_iff split: sql_value_type_e.splits)

lemma deserialize_columns_types:
  assumes "list_all2 column_is cols cs" and "length names + length (others p i cs) \<le> 8" and "length vs = length names"
    and "deserialize_columns p i cols (schema_of names) (record_of_values vs) ptr = Some (schema, record)"
  shows "\<exists>vs'. schema = schema_of (names @ map fst (others p i cs)) \<and> record = record_of_values (vs @ vs') \<and>
    map (Some \<circ> value_type) vs' = map (convert_to_value_type \<circ> snd) (others p i cs)"
  using assms
proof (induction cols arbitrary: cs i names vs ptr)
  case (Cons col cols)
  then obtain c cs' where cs: "cs = c # cs'" "column_is col c" "list_all2 column_is cols cs'"
    by (auto simp: list_all2_Cons1)
  show ?case
  proof (cases "i = p")
    case True
    then show ?thesis using Cons.IH [OF cs(3), of names "i + 1" vs ptr] Cons.prems cs by simp
  next
    case False
    have n: "length names < 8" "length vs < 8" using Cons.prems(2,3) cs False by simp_all
    obtain s where s: "col_name col = Some s" "string_ok s" "text_of s = fst c" "col_type col = snd c"
      using cs(2) by (auto simp: column_is_def)
    obtain type k v where v: "convert_to_value_type (snd c) = Some type" "sql_value_deserialize_as Sql_inval type ptr = Some (k, v)"
      "deserialize_columns p (i + 1) cols (schema_of (names @ [fst c])) (record_of_values (vs @ [v])) (drop (unat k) ptr) = Some (schema, record)"
      using Cons.prems(4) False s copy_str [OF s(2)] push_fills n
      by (auto simp: deserialize_column_def bind_option_Some_iff)
    have "\<exists>vs'. schema = schema_of ((names @ [fst c]) @ map fst (others p (i + 1) cs')) \<and>
        record = record_of_values ((vs @ [v]) @ vs') \<and>
        map (Some \<circ> value_type) vs' = map (convert_to_value_type \<circ> snd) (others p (i + 1) cs')"
      by (rule Cons.IH [OF cs(3) _ _ v(3)]) (use Cons.prems(2,3) cs False in simp_all)
    then obtain vs' where "schema = schema_of ((names @ [fst c]) @ map fst (others p (i + 1) cs'))"
      "record = record_of_values ((vs @ [v]) @ vs')"
      "map (Some \<circ> value_type) vs' = map (convert_to_value_type \<circ> snd) (others p (i + 1) cs')"
      by blast
    then show ?thesis
      using v(1) deserialized_type [OF v(2)] False cs by (intro exI [of _ "v # vs'"]) (simp add: comp_def)
  qed
qed (auto intro: exI [of _ "[]"])

section \<open>Round trip\<close>

text \<open>
  C35: a record of a table, its columns in any order, is serialized with the primary key first, and
  reading the payload by the table gives the values by name in that order, each as
  \<open>sql_value_roundtrip\<close> says.
\<close>

theorem sql_ibtree_record_roundtrip:
  assumes "table_columns tbl cs p" and "record_row record ns row" and "rs_ncolumns (the (rec_schema record)) = tb_ncolumns tbl"
    and "distinct ns" and "distinct (map fst cs)" and "set ns = fst ` set cs" and "length cs \<le> 8"
    and "\<forall>c \<in> set cs. has_type (row (fst c)) (snd c)" and "length (row_image row cs) < 4294967296"
  shows "\<exists>sr. sql_ibtree_serialize_record_acquire tbl record = Some (SQL_OK, Some sr) \<and>
    sr_buf sr = row_image row (stored_order p cs) \<and>
    sql_ibtree_deserialize_record tbl sql_record_schema_create sql_record_create (sr_buf sr @ rest) =
      Some (SQL_OK, schema_of (map fst (stored_order p cs)),
        (record_of_values (map (loaded row) (stored_order p cs)))
          \<lparr>rec_schema := Some (schema_of (map fst (stored_order p cs)))\<rparr>)"
proof -
  note T = table_pkey [OF assms(1)]
  have find: "sql_table_find_primary_key tbl = Some (Some p)" using assms(1) by (simp add: table_columns_def)
  have cols: "mem_read (tb_columns tbl) 0 (unat (tb_ncolumns tbl)) = Some (take (length cs) (tb_columns tbl))"
    "list_all2 column_is (take (length cs) (tb_columns tbl)) cs"
    using assms(1) by (simp_all add: table_columns_def mem_simps)
  obtain s where s: "col_name (tb_columns tbl ! p) = Some s" "string_ok s" "text_of s = fst (cs ! p)" "col_type (tb_columns tbl ! p) = snd (cs ! p)"
    using T(3) by (auto simp: column_is_def)
  have "text_of s \<in> set ns" using s(3) T(1) assms(6) by simp
  from record_value [OF assms(2) s(2) this] obtain k schema where
    k: "rec_schema record = Some schema" "sql_record_schema_indexof schema s = Some (Some k)"
      "arr_get (rec_values record) k = Some (row (fst (cs ! p)))"
    using s(3) by auto
  note R = assms(2) [unfolded record_row_def]
  define total where "total = length (row_image row cs)"
  have perm: "mset (map fst cs) = mset ns"
    using assms(4-6) set_eq_iff_mset_eq_distinct [of "map fst cs" ns] by simp
  have len_row: "length (row_image row xs) = sum_mset (image_mset (\<lambda>n. length (value_image (row n))) (mset (map fst xs)))" for xs
    by (induction xs) (simp_all add: row_image_def)
  have len_ns: "length (concat (map value_image (map row ns))) = total"
  proof -
    have "length (concat (map value_image (map row ns))) = sum_mset (image_mset (\<lambda>n. length (value_image (row n))) (mset ns))"
      by (induction ns) simp_all
    then show ?thesis by (simp add: total_def len_row flip: perm)
  qed
  have stored: "length (row_image row (stored_order p cs)) = total"
    using stored_order_mset [OF T(1)] by (simp add: len_row total_def)
  have vals: "mem_read (rec_values record) 0 (unat (rec_nvalues record)) = Some (map row ns)"
    using R by (simp add: mem_simps)
  have ok_ns: "\<forall>v \<in> set (map row ns). value_ok v" using R by simp
  have "unat (0 :: u32) + length (concat (map value_image (map row ns))) < 4294967296"
    unfolding len_ns using assms(9) by (simp add: total_def)
  from values_size [OF ok_ns this] obtain w where w: "values_ser_size (map row ns) 0 = Some w" "unat w = total"
    unfolding len_ns by auto
  let ?v = "row (fst (cs ! p))" and ?rest = "row_image row (others p 0 cs)" and ?zero = "replicate total (0 :: byte)"
  have v: "value_ok ?v" "convert_to_value_type (snd (cs ! p)) = Some (value_type ?v)"
    using assms(8) T(1) by (simp_all add: has_type_def)
  have split: "length (value_image ?v) + length ?rest = total"
    using stored by (simp add: stored_order_def)
  have k1: "unat (of_nat (length (value_image ?v)) :: u32) = length (value_image ?v)"
    using length_value_image [OF v(1)] by (simp add: unat_u32_of_nat)
  have rest: "serialize_columns schema (rec_values record) p 0 (take (length cs) (tb_columns tbl))
      (patch ?zero 0 (value_image ?v)) (of_nat (length (value_image ?v))) =
      Some (patch (patch ?zero 0 (value_image ?v)) (length (value_image ?v)) ?rest)"
    using serialize_columns_image [OF assms(2) k(1) cols(2), of "of_nat (length (value_image ?v))" p 0 "patch ?zero 0 (value_image ?v)"]
      assms(6,9) split k1 by (simp add: total_def)
  have buf: "patch (patch ?zero 0 (value_image ?v)) (length (value_image ?v)) ?rest = row_image row (stored_order p cs)"
    using split by (simp add: patch_def stored_order_def)
  have run: "sql_ibtree_serialize_record_acquire tbl record =
      Some (SQL_OK, Some \<lparr>sr_buf = row_image row (stored_order p cs), sr_size = w\<rparr>)"
    using find k T(2) s(1) assms(3) vals w cols(1) rest buf serialize_image [OF v(1), of 0 ?zero] split
    by (simp add: sql_ibtree_serialize_record_acquire_def find_pkey_in_schema_def sql_value_array_ser_size_def)
  have others: "list_all2 column_is (take (length cs) (tb_columns tbl)) cs"
    "\<forall>c \<in> set (others p 0 cs). has_type (row (fst c)) (snd c)" "length [fst (cs ! p)] + length (others p 0 cs) \<le> 8"
    using cols(2) assms(7,8) T(1) by (auto simp: others_eq dest: in_set_takeD in_set_dropD)
  have first: "schema_of [] \<lparr>rs_columns := (rs_columns (schema_of []))[0 := Some (str (fst (cs ! p)))], rs_ncolumns := 1\<rparr> = schema_of [fst (cs ! p)]"
    by (simp add: schema_of_def replicate_8_first)
  have base: "arr_set (rs_columns (schema_of [])) 0 c = Some ((rs_columns (schema_of []))[0 := c])"
    "rs_ncolumns (schema_of []) + 1 = 1" for c
    by (simp_all add: schema_of_def)
  have "sql_ibtree_deserialize_record tbl sql_record_schema_create sql_record_create (row_image row (stored_order p cs) @ rest) =
      Some (SQL_OK, schema_of (map fst (stored_order p cs)),
        (record_of_values (map (loaded row) (stored_order p cs)))
          \<lparr>rec_schema := Some (schema_of (map fst (stored_order p cs)))\<rparr>)"
    using find T(2) s copy_str [OF s(2)] v k1 cols(1) deserialize_image [OF v(1), of Sql_inval "?rest @ rest"]
      deserialize_columns_image [where rest = rest and vs = "[loaded row (cs ! p)]", OF others]
      push_fills(2,3) [of "[]"] first base
    by (simp add: sql_ibtree_deserialize_record_def create_empty stored_order_def loaded_def value_width_def)
  with run show ?thesis by auto
qed

text \<open>
  C36: whatever the bytes are, a payload that is read by a table has a value for each column of the
  table, each of the type of its column, the primary key first.
\<close>

theorem sql_ibtree_deserialize_types:
  assumes "table_columns tbl cs p" and "length cs \<le> 8"
    and "sql_ibtree_deserialize_record tbl sql_record_schema_create sql_record_create buf = Some (result, schema, record)"
  shows "result = SQL_OK \<and> schema = schema_of (map fst (stored_order p cs)) \<and> rec_schema record = Some schema \<and>
    unat (rec_nvalues record) = length cs \<and>
    map (Some \<circ> value_type) (take (length cs) (rec_values record)) =
      map (convert_to_value_type \<circ> snd) (stored_order p cs)"
proof -
  note T = table_pkey [OF assms(1)]
  have find: "sql_table_find_primary_key tbl = Some (Some p)" using assms(1) by (simp add: table_columns_def)
  have cols: "mem_read (tb_columns tbl) 0 (unat (tb_ncolumns tbl)) = Some (take (length cs) (tb_columns tbl))"
    "list_all2 column_is (take (length cs) (tb_columns tbl)) cs"
    using assms(1) by (simp_all add: table_columns_def mem_simps)
  obtain s where s: "col_name (tb_columns tbl ! p) = Some s" "string_ok s" "text_of s = fst (cs ! p)" "col_type (tb_columns tbl ! p) = snd (cs ! p)"
    using T(3) by (auto simp: column_is_def)
  let ?first = "schema_of [] \<lparr>rs_columns := (rs_columns (schema_of []))[0 := Some (str (fst (cs ! p)))], rs_ncolumns := 1\<rparr>"
  have first: "?first = schema_of [fst (cs ! p)]"
    by (simp add: schema_of_def replicate_8_first)
  have base: "arr_set (rs_columns (schema_of [])) 0 c = Some ((rs_columns (schema_of []))[0 := c])"
    "rs_ncolumns (schema_of []) + 1 = 1" for c
    by (simp_all add: schema_of_def)
  have len: "length (others p 0 cs) = length cs - 1" using T(1) by (simp add: others_eq)
  obtain type k v record' where R: "convert_to_value_type (snd (cs ! p)) = Some type"
    "sql_value_deserialize_as Sql_inval type buf = Some (k, v)"
    "deserialize_columns p 0 (take (length cs) (tb_columns tbl)) (schema_of [fst (cs ! p)]) (record_of_values [v])
      (drop (unat k) buf) = Some (schema, record')" "result = SQL_OK" "record = record'\<lparr>rec_schema := Some schema\<rparr>"
    using assms(3) find T(2) s copy_str [OF s(2)] cols(1) push_fills(2,3) [of "[]"] base first
    by (auto simp: sql_ibtree_deserialize_record_def create_empty bind_option_Some_iff)
  have "length [fst (cs ! p)] + length (others p 0 cs) \<le> 8" using len T(1) assms(2) by simp
  from deserialize_columns_types [OF cols(2) this _ R(3)] obtain vs where V: "schema = schema_of ([fst (cs ! p)] @ map fst (others p 0 cs))"
    "record' = record_of_values ([v] @ vs)" "map (Some \<circ> value_type) vs = map (convert_to_value_type \<circ> snd) (others p 0 cs)"
    by auto
  have n: "length vs = length cs - 1" using arg_cong [OF V(3), of length] len by simp
  with T(1) assms(2) have "length ([v] @ vs) = length cs" "unat (rec_nvalues record') = length cs"
    by (simp_all add: V(2) record_of_values_def unat_u32_of_nat Suc_le_eq del: of_nat_Suc)
  moreover have "value_type v = type" by (rule deserialized_type [OF R(2)])
  moreover have "take (length cs) (rec_values record) = [v] @ vs"
    using n T(1) by (cases "length cs") (simp_all add: R(5) V(2) record_of_values_def)
  ultimately show ?thesis
    using R V by (simp add: stored_order_def)
qed


text \<open>A table of two columns, the second one its primary key, and a record that names them the other way.\<close>

definition demo_table :: sql_table where
  "demo_table =
     \<lparr>tb_ncolumns = 2, tb_columns =
        [\<lparr>col_name = Some (str [110]), col_type = SQL_DT_STRING, col_is_primary_key = False\<rparr>,
         \<lparr>col_name = Some (str [105, 100]), col_type = SQL_DT_INT, col_is_primary_key = True\<rparr>] @ replicate 6 zero_column,
      tb_table_name = Some (str [116]), tb_meta = \<lparr>tm_root_page = 3, tm_table_id = 1\<rparr>\<rparr>"

definition demo_row :: "bytes \<Rightarrow> sql_value" where
  "demo_row name = (if name = [105, 100] then Sql_int \<lparr>sn_num = 7, sn_width = 4\<rparr> else Sql_string (Some (str [104, 105])))"

definition demo_record :: sql_record where
  "demo_record =
     \<lparr>rec_schema = Some (schema_of [[105, 100], [110]]),
      rec_values = map demo_row [[105, 100], [110]] @ replicate 6 Sql_inval, rec_nvalues = 2\<rparr>"

lemma demo_table_columns: "table_columns demo_table [([110], SQL_DT_STRING), ([105, 100], SQL_DT_INT)] 1"
  by (simp add: table_columns_def demo_table_def column_is_def sql_table_find_primary_key_def mem_read_def)

lemma demo_value_ok: "value_ok (demo_row n)"
  by (simp add: demo_row_def value_ok_def)

lemma demo_record_row: "record_row demo_record [[105, 100], [110]] demo_row"
  by (simp add: record_row_def demo_record_def schema_names_def schema_of_def demo_value_ok)

lemma sql_ibtree_record_roundtrip_witness:
  "\<exists>sr record. sql_ibtree_serialize_record_acquire demo_table demo_record = Some (SQL_OK, Some sr) \<and>
    sr_buf sr = [7, 0, 0, 0, 2, 0, 0, 0, 104, 105] \<and>
    sql_ibtree_deserialize_record demo_table sql_record_schema_create sql_record_create (sr_buf sr) =
      Some (SQL_OK, schema_of [[105, 100], [110]], record) \<and> take 2 (rec_values record) =
      [Sql_int \<lparr>sn_num = 7, sn_width = 0\<rparr>, Sql_string (Some (str [104, 105]))]"
proof -
  have "rs_ncolumns (the (rec_schema demo_record)) = tb_ncolumns demo_table"
    by (simp add: demo_record_def demo_table_def schema_of_def)
  moreover have "\<forall>c \<in> set [([110], SQL_DT_STRING), ([105, 100], SQL_DT_INT)]. has_type (demo_row (fst c)) (snd c)"
    by (simp add: has_type_def demo_value_ok) (simp add: demo_row_def convert_to_value_type_def)
  moreover have "row_image demo_row [([110], SQL_DT_STRING), ([105, 100], SQL_DT_INT)] = [2, 0, 0, 0, 104, 105, 7, 0, 0, 0]"
    by (simp add: demo_row_def value_image_def ser_write_bytes) (simp add: str_def ser_write_bytes text_of_def)
  ultimately show ?thesis
    using sql_ibtree_record_roundtrip [OF demo_table_columns demo_record_row, of "[]"]
    by (simp add: stored_order_def demo_row_def value_image_def ser_write_bytes loaded_def reread_def
        record_of_values_def) (auto simp: str_def ser_write_bytes text_of_def insert_commute)
qed

lemma sql_ibtree_deserialize_types_witness:
  "\<exists>schema record. sql_ibtree_deserialize_record demo_table sql_record_schema_create sql_record_create
      [9, 0, 0, 0, 1, 0, 0, 0, 65, 66] = Some (SQL_OK, schema, record) \<and>
    map (Some \<circ> value_type) (take 2 (rec_values record)) = [Some SQL_VALUE_TYPE_INT, Some SQL_VALUE_TYPE_STRING]"
proof -
  let ?run = "sql_ibtree_deserialize_record demo_table sql_record_schema_create sql_record_create [9, 0, 0, 0, 1, 0, 0, 0, 65, 66]"
  have "?run \<noteq> None" by code_simp
  then obtain result schema rc where run: "?run = Some (result, schema, rc)" by auto
  from sql_ibtree_deserialize_types [OF demo_table_columns _ this] show ?thesis
    using run by (simp add: stored_order_def convert_to_value_type_def numeral_2_eq_2)
qed

end
