(* ===== verification/SqlCatalogProps.thy ===== *)
theory SqlCatalogProps
  imports SqlCatalog SqlRecordProps NodeSpec
begin

text \<open>The definition of a table is read back as it was written, and creating a table does not reserve its root page.\<close>

section \<open>Writing behind what is written\<close>

definition string_image :: "bytes \<Rightarrow> bytes" where
  "string_image xs = ser_write_32bit_le (of_nat (length xs)) @ xs"

lemma length_string_image [simp]: "length (string_image xs) = length xs + 4"
  by (simp add: string_image_def)

lemma patch_append: "length img \<le> k \<Longrightarrow> patch (pre @ replicate k x) (length pre) img = (pre @ img) @ replicate (k - length img) x"
  by (simp add: patch_def)

lemma text_string_image:
  "string_ok s \<Longrightarrow> value_image (Sql_string (Some s)) = string_image (text_of s)"
  by (simp add: value_image_def string_image_def)

definition short_string :: "sql_string \<Rightarrow> bytes \<Rightarrow> bool" where
  "short_string s xs \<longleftrightarrow> string_ok s \<and> text_of s = xs \<and> length xs < 2147483648"

lemma short_string_size: "short_string s xs \<Longrightarrow> ss_size s = of_nat (length xs) \<and> unat (ss_size s) = length xs"
  by (auto simp: short_string_def)

lemma ser_string_append:
  assumes "short_string s xs" and "length xs + 4 \<le> k"
  shows "sql_value_serialize_string s (pre @ replicate k 0) (length pre) =
    Some (of_nat (length xs + 4), (pre @ string_image xs) @ replicate (k - (length xs + 4)) 0)"
proof -
  have ok: "value_ok (Sql_string (Some s))" "string_ok s" "text_of s = xs"
    using assms(1) by (auto simp: value_ok_def short_string_def)
  note S = serialize_image [OF ok(1), unfolded text_string_image [OF ok(2)] ok(3)]
  show ?thesis
    using S [of "length pre" "pre @ replicate k 0"] assms(2) patch_append [of "string_image xs" k pre "0 :: byte"]
    by (simp add: sql_value_serialize_string_def sql_value_serialize_def)
qed

lemma ser_int_append:
  assumes "4 \<le> k"
  shows "sql_value_serialize_int v (pre @ replicate k 0) (length pre) =
    Some (4, (pre @ ser_write_32bit_le v) @ replicate (k - 4) 0)"
  using patch_append [of "ser_write_32bit_le v" k pre "0 :: byte"] assms
  by (simp add: sql_value_serialize_int_def mem_write32_def mem_write_patch)

section \<open>Columns\<close>

definition col_def :: "sql_table_column \<Rightarrow> bytes \<times> sql_dt_e \<Rightarrow> bool" where
  "col_def col c \<longleftrightarrow> (\<exists>s. col_name col = Some s \<and> short_string s (fst c)) \<and> col_type col = snd c"

lemma col_def_Cons:
  "list_all2 col_def (col # cols) cs \<Longrightarrow> \<exists>c cs' s. cs = c # cs' \<and> list_all2 col_def cols cs' \<and>
    col_name col = Some s \<and> short_string s (fst c) \<and> col_type col = snd c"
  unfolding list_all2_Cons1 by (auto simp: col_def_def [of col])

definition defs_image :: "(bytes \<times> sql_dt_e) list \<Rightarrow> bytes" where
  "defs_image cs = concat (map (\<lambda>(n, dt). byte_of_dt dt # string_image n) cs)"

lemma defs_image_simps [simp]:
  "defs_image [] = []" "defs_image (c # cs) = byte_of_dt (snd c) # string_image (fst c) @ defs_image cs"
  by (simp_all add: defs_image_def split: prod.splits)

lemma arr_set_append: "0 < k \<Longrightarrow> arr_set (pre @ replicate k x) (length pre) y = Some ((pre @ [y]) @ replicate (k - 1) x)"
  by (cases k) (simp_all add: arr_set_def)

lemma serialize_defs_image:
  assumes "list_all2 col_def cols cs" and "length (defs_image cs) \<le> k"
  shows "serialize_defs cols (pre @ replicate k 0) (length pre) =
    Some (pre @ defs_image cs @ replicate (k - length (defs_image cs)) 0)"
  using assms
proof (induction cols arbitrary: cs pre k)
  case (Cons col cols)
  obtain c cs' s where cs: "cs = c # cs'" "list_all2 col_def cols cs'" "col_name col = Some s"
    "short_string s (fst c)" "col_type col = snd c"
    using col_def_Cons [OF Cons.prems(1)] by blast
  let ?b = "byte_of_dt (snd c)" and ?n = "length (fst c) + 4"
  have k: "0 < k" "?n \<le> k - 1" "length (defs_image cs') \<le> k - 1 - ?n" using Cons.prems(2) cs(1) by simp_all
  have small: "unat (of_nat ?n :: u32) = ?n"
    using cs(4) by (intro unat_u32_of_nat) (simp add: short_string_def)
  have ser: "sql_value_serialize_string s ((pre @ [?b]) @ replicate (k - 1) 0) (length pre + 1) =
      Some (of_nat ?n, (pre @ [?b] @ string_image (fst c)) @ replicate (k - 1 - ?n) 0)"
    using ser_string_append [OF cs(4) k(2), of "pre @ [?b]"] by simp
  have "serialize_defs cols ((pre @ [?b] @ string_image (fst c)) @ replicate (k - 1 - ?n) 0) (length pre + 1 + ?n) =
      Some ((pre @ [?b] @ string_image (fst c)) @ defs_image cs' @ replicate (k - 1 - ?n - length (defs_image cs')) 0)"
    using Cons.IH [OF cs(2) k(3), of "pre @ [?b] @ string_image (fst c)"] by (simp add: ac_simps)
  then show ?case
    using cs arr_set_append [OF k(1), of pre "0 :: byte" ?b] ser small by (simp del: of_nat_add)
qed simp

lemma dt_of_byte_of_dt [simp]: "dt_of_byte (byte_of_dt dt) = dt"
  by (cases dt) (simp_all add: dt_of_byte_def byte_of_dt_def)

lemma deserialize_string:
  assumes "length xs < 2147483648"
  shows "sql_value_deserialize_as old SQL_VALUE_TYPE_STRING (string_image xs @ rest) =
    Some (of_nat (length xs + 4), Sql_string (Some (str xs)))"
  using deserialize_image [of "Sql_string (Some (str xs))" old rest] assms
  by (simp add: value_ok_def text_string_image reread_def)

text \<open>The columns as they come back.\<close>

fun loaded_columns :: "nat \<Rightarrow> (bytes \<times> sql_dt_e) list \<Rightarrow> sql_table_column list" where
  "loaded_columns i [] = []"
| "loaded_columns i (c # cs) =
     \<lparr>col_name = Some (str (fst c)), col_type = snd c, col_is_primary_key = (i = 0)\<rparr> # loaded_columns (i + 1) cs"

lemma length_loaded_columns [simp]: "length (loaded_columns i cs) = length cs"
  by (induction cs arbitrary: i) simp_all

lemma deserialize_defs_image:
  assumes "\<forall>c \<in> set cs. length (fst c) < 2147483648" and "i = length cols" and "i + length cs \<le> 8"
  shows "deserialize_defs (length cs) i (cols @ replicate (8 - i) zero_column) (defs_image cs @ rest) =
    Some (cols @ loaded_columns i cs @ replicate (8 - (i + length cs)) zero_column)"
  using assms
proof (induction cs arbitrary: i cols)
  case (Cons c cs)
  let ?col = "\<lparr>col_name = Some (str (fst c)), col_type = snd c, col_is_primary_key = (i = 0)\<rparr>"
  have small: "unat (of_nat (length (fst c) + 4) :: u32) = length (fst c) + 4"
    using Cons.prems(1) by (intro unat_u32_of_nat) simp
  have i: "i < 8" using Cons.prems(3) by simp
  have set: "arr_set (cols @ replicate (8 - i) zero_column) i ?col = Some ((cols @ [?col]) @ replicate (8 - (i + 1)) zero_column)"
    using arr_set_append [of "8 - i" cols zero_column ?col] i Cons.prems(2) by simp
  have get: "arr_get (defs_image (c # cs) @ rest) 0 = Some (byte_of_dt (snd c))" by simp
  have val: "sql_value_deserialize_as Sql_inval SQL_VALUE_TYPE_STRING (drop 1 (defs_image (c # cs) @ rest)) =
      Some (of_nat (length (fst c) + 4), Sql_string (Some (str (fst c))))"
    using deserialize_string [of "fst c" Sql_inval "defs_image cs @ rest"] Cons.prems(1) by simp
  have "drop (1 + (length (fst c) + 4)) (defs_image (c # cs) @ rest) = defs_image cs @ rest" by (simp add: drop_Cons')
  then show ?case
    using Cons.IH [of "i + 1" "cols @ [?col]"] Cons.prems get val set small
    by (simp add: value_string_def del: defs_image_simps of_nat_add)
qed simp

lemma defs_size_image:
  assumes "list_all2 col_def cols cs" and "unat n + length (defs_image cs) < 4294967296"
  shows "\<exists>k. defs_size cols n = Some k \<and> unat k = unat n + length (defs_image cs)"
  using assms
proof (induction cols arbitrary: cs n)
  case (Cons col cols)
  obtain c cs' s where cs: "cs = c # cs'" "list_all2 col_def cols cs'" "col_name col = Some s"
    "short_string s (fst c)"
    using col_def_Cons [OF Cons.prems(1)] by blast
  have "ss_size s + 4 + 1 = of_nat (length (fst c) + 5)" using short_string_size [OF cs(4)] by simp
  then have e: "unat (ss_size s + 4 + 1) = length (fst c) + 5"
    using cs(4) by (simp only:) (intro unat_u32_of_nat, simp add: short_string_def)
  have u: "unat (n + (ss_size s + 4 + 1)) = unat n + (length (fst c) + 5)"
    using Cons.prems(2) cs(1) e by (subst unat_add_ok) (simp_all only: e, simp_all)
  have "\<exists>k. defs_size cols (n + (ss_size s + 4 + 1)) = Some k \<and> unat k = unat (n + (ss_size s + 4 + 1)) + length (defs_image cs')"
    using Cons.prems(2) cs(1) u by (intro Cons.IH [OF cs(2)]) simp
  then show ?case using cs u by (auto simp: sql_string_len_def)
qed simp

section \<open>Definitions\<close>

text \<open>A table with a short name and at most eight columns with short names.\<close>

definition table_def :: "sql_table \<Rightarrow> bytes \<Rightarrow> (bytes \<times> sql_dt_e) list \<Rightarrow> bool" where
  "table_def table name cs \<longleftrightarrow> (\<exists>s. tb_table_name table = Some s \<and> short_string s name) \<and>
     unat (tb_ncolumns table) = length cs \<and> length cs \<le> 8 \<and> length cs \<le> length (tb_columns table) \<and>
     list_all2 col_def (take (length cs) (tb_columns table)) cs"

definition loaded_table :: "sql_table \<Rightarrow> bytes \<Rightarrow> (bytes \<times> sql_dt_e) list \<Rightarrow> sql_table" where
  "loaded_table table name cs =
     \<lparr>tb_ncolumns = tb_ncolumns table, tb_columns = loaded_columns 0 cs @ replicate (8 - length cs) zero_column,
      tb_table_name = Some (str name), tb_meta = tb_meta table\<rparr>"

lemma deserialize_int: "sql_value_deserialize_as old SQL_VALUE_TYPE_INT (ser_write_32bit_le v @ rest) =
    Some (4, Sql_int \<lparr>sn_num = ucast v, sn_width = value_width old\<rparr>)"
  by (simp add: sql_value_deserialize_as_def mem_simps)

lemma ucast_back [simp]: "ucast (ucast (v :: u32) :: 64 word) = v"
  by (rule bit_word_eqI) (simp add: bit_simps)

definition table_image :: "sql_table \<Rightarrow> bytes \<Rightarrow> (bytes \<times> sql_dt_e) list \<Rightarrow> bytes" where
  "table_image table name cs = ser_write_32bit_le (tm_table_id (tb_meta table)) @ string_image name @
     ser_write_32bit_le (tm_root_page (tb_meta table)) @ ser_write_32bit_le (tb_ncolumns table) @ defs_image cs"

text \<open>
  C37: the definition of a table with at most eight columns fills exactly the buffer of the size that
  is computed for it, and is read back with its name, numbers and columns; the first column comes
  back as the primary key.
\<close>

theorem table_definition_roundtrip:
  assumes "table_def table name cs" and "length name + length (defs_image cs) < 4294967000"
  shows "\<exists>n buf. sqldb_table_tbl_serialize_table_def_size table = Some n \<and>
    sqldb_table_tbl_serialize_table_def table (replicate (unat n) 0) = Some (SQL_OK, buf) \<and>
    length buf = unat n \<and>
    sqldb_table_tbl_deserialize_table_def (buf @ rest) sql_table_create = Some (SQL_OK, loaded_table table name cs)"
proof -
  obtain s where s: "tb_table_name table = Some s" "short_string s name" using assms(1) by (auto simp: table_def_def)
  note D = assms(1) [unfolded table_def_def]
  have cols: "mem_read (tb_columns table) 0 (unat (tb_ncolumns table)) = Some (take (length cs) (tb_columns table))"
    "list_all2 col_def (take (length cs) (tb_columns table)) cs"
    using D by (simp_all add: mem_simps)
  let ?d = "length (defs_image cs)" and ?l = "length name"
  obtain w where w: "defs_size (take (length cs) (tb_columns table)) 0 = Some w" "unat w = ?d"
    using defs_size_image [OF cols(2), of 0] assms(2) by auto
  define n :: u32 where "n = 4 + (4 + sql_string_len s) + 4 + (4 + w)"
  have size: "sqldb_table_tbl_serialize_table_def_size table = Some n"
    using s(1) cols(1) w(1) by (simp add: sqldb_table_tbl_serialize_table_def_size_def n_def)
  have "n = of_nat (?l + ?d + 16)"
    using short_string_size [OF s(2)] w(2) by (simp add: n_def sql_string_len_def) (metis u32_of_nat_unat)
  then have un: "unat n = ?l + ?d + 16"
    using assms(2) by (simp only:) (intro unat_u32_of_nat, simp)
  have small: "unat (of_nat (?l + 4) :: u32) = ?l + 4"
    using s(2) by (intro unat_u32_of_nat) (simp add: short_string_def)
  let ?id = "ser_write_32bit_le (tm_table_id (tb_meta table))" and ?root = "ser_write_32bit_le (tm_root_page (tb_meta table))"
    and ?nc = "ser_write_32bit_le (tb_ncolumns table)"
  let ?k = "?l + ?d + 16"
  have w1: "sql_value_serialize_int (tm_table_id (tb_meta table)) (replicate ?k 0) 0 = Some (4, ?id @ replicate (?l + ?d + 12) 0)"
    using ser_int_append [of ?k "tm_table_id (tb_meta table)" "[]"] by simp
  have w2: "sql_value_serialize_string s (?id @ replicate (?l + ?d + 12) 0) 4 =
      Some (of_nat (?l + 4), (?id @ string_image name) @ replicate (?d + 8) 0)"
    using ser_string_append [OF s(2), of "?l + ?d + 12" ?id] by simp
  have w3: "sql_value_serialize_int (tm_root_page (tb_meta table)) ((?id @ string_image name) @ replicate (?d + 8) 0) (4 + (?l + 4)) =
      Some (4, (?id @ string_image name @ ?root) @ replicate (?d + 4) 0)"
    using ser_int_append [of "?d + 8" "tm_root_page (tb_meta table)" "?id @ string_image name"] by simp
  have w4: "sql_value_serialize_int (tb_ncolumns table) ((?id @ string_image name @ ?root) @ replicate (?d + 4) 0) (4 + (?l + 4) + 4) =
      Some (4, (?id @ string_image name @ ?root @ ?nc) @ replicate ?d 0)"
    using ser_int_append [of "?d + 4" "tb_ncolumns table" "?id @ string_image name @ ?root"] by (simp add: ac_simps)
  have w5: "serialize_defs (take (length cs) (tb_columns table)) ((?id @ string_image name @ ?root @ ?nc) @ replicate ?d 0)
      (4 + (?l + 4) + 4 + 4) = Some (table_image table name cs)"
    using serialize_defs_image [OF cols(2), of ?d "?id @ string_image name @ ?root @ ?nc"] by (simp add: table_image_def ac_simps)
  have run: "sqldb_table_tbl_serialize_table_def table (replicate (unat n) 0) = Some (SQL_OK, table_image table name cs)"
    unfolding un sqldb_table_tbl_serialize_table_def_def
    using w1 w2 w3 w4 w5 s(1) cols(1) small by (simp del: of_nat_add replicate_add add_numeral_left)
  have len: "length (table_image table name cs) = unat n" by (simp add: table_image_def un)
  have defs: "deserialize_defs (length cs) 0 (tb_columns sql_table_create) (defs_image cs @ rest) =
      Some (loaded_columns 0 cs @ replicate (8 - length cs) zero_column)"
    using deserialize_defs_image [of cs 0 "[]" rest] D cols(2)
    by (force simp: sql_table_create_def list_all2_conv_all_nth col_def_def short_string_def in_set_conv_nth)
  have nlen: "length name < 2147483648" using s(2) by (simp add: short_string_def)
  have "sqldb_table_tbl_deserialize_table_def (table_image table name cs @ rest) sql_table_create =
      Some (SQL_OK, loaded_table table name cs)"
    using deserialize_string [OF nlen] defs D small
    by (simp add: sqldb_table_tbl_deserialize_table_def_def table_image_def deserialize_int value_num_def
        value_string_def loaded_table_def sql_table_create_def del: of_nat_add)
  with size run len show ?thesis by auto
qed

lemma table_definition_roundtrip_witness:
  "\<exists>n buf table. sqldb_table_tbl_serialize_table_def_size demo_table = Some n \<and>
    sqldb_table_tbl_serialize_table_def demo_table (replicate (unat n) 0) = Some (SQL_OK, buf) \<and>
    sqldb_table_tbl_deserialize_table_def (buf @ [1, 2]) sql_table_create = Some (SQL_OK, table) \<and>
    tm_root_page (tb_meta table) = 3 \<and> tb_table_name table = Some (str [116]) \<and>
    take 2 (tb_columns table) =
      [\<lparr>col_name = Some (str [110]), col_type = SQL_DT_STRING, col_is_primary_key = True\<rparr>,
       \<lparr>col_name = Some (str [105, 100]), col_type = SQL_DT_INT, col_is_primary_key = False\<rparr>]"
proof -
  have "table_def demo_table [116] [([110], SQL_DT_STRING), ([105, 100], SQL_DT_INT)]"
    by (simp add: table_def_def demo_table_def short_string_def col_def_def)
  from table_definition_roundtrip [OF this, of "[1, 2]"] show ?thesis
    by (fastforce simp: loaded_table_def demo_table_def)
qed

end
