(* ===== verification/SqlParseProps.thy ===== *)
theory SqlParseProps
  imports SqlParse
begin

text \<open>The parser on the text of a statement.\<close>

section \<open>One token\<close>

definition delimited :: "bytes \<Rightarrow> bool" where
  "delimited rest \<longleftrightarrow> (case rest of [] \<Rightarrow> True | c # _ \<Rightarrow> \<not> name_character c)"

lemma delimited_simps [simp]: "delimited []" "delimited (c # cs) \<longleftrightarrow> \<not> name_character c"
  by (simp_all add: delimited_def)

lemma run_of_delimited:
  assumes "list_all p xs" and "\<And>c. p c \<Longrightarrow> name_character c" and "delimited rest"
  shows "run_of p (xs @ rest) = length xs"
proof -
  have "takeWhile p rest = []" using assms(2,3) by (cases rest) auto
  then show ?thesis using assms(1) by (simp add: run_of_def takeWhile_append2 list_all_iff)
qed

text \<open>A literal does not match where its first byte does not.\<close>

lemma literal_run_miss: "x \<noteq> of_char c \<Longrightarrow> literal_run (c # s) (x # xs) = 0"
  by (simp add: literal_run_def chars_def)

lemma literal_run_hit: "literal_run s (chars s @ rest) = length s"
  by (simp add: literal_run_def chars_def)

lemma run_of_miss [simp]: "\<not> p x \<Longrightarrow> run_of p (x # xs) = 0"
  by (simp add: run_of_def)

lemma quoted_run_miss: "x \<noteq> q \<Longrightarrow> quoted_run q p (x # xs) = 0"
  by (simp add: quoted_run_def Let_def)

lemma quoted_run_hit:
  assumes "list_all p xs" and "xs \<noteq> []" and "\<not> p q"
  shows "quoted_run q p (q # xs @ q # rest) = length xs + 2"
proof -
  have "run_of p (xs @ q # rest) = length xs"
    using assms by (simp add: run_of_def takeWhile_append2 list_all_iff)
  then show ?thesis using assms(2) by (simp add: quoted_run_def nth_append)
qed

lemmas match_simps = lex_rules_def literal_run_miss quoted_run_miss

lemma yylex_space [simp]: "yylex (32 # xs) = yylex xs"
  by (simp add: match_simps digit_def name_character_def)

lemma yylex_comma [simp]: "yylex (44 # xs) = (SQL_COMMA, [44], xs)"
  by (simp add: match_simps digit_def name_character_def) (simp add: literal_run_def chars_def)

lemma yylex_parens [simp]: "yylex (40 # xs) = (SQL_OPEN_PAREN, [40], xs)" "yylex (41 # xs) = (SQL_CLOSE_PAREN, [41], xs)"
  by (simp_all add: match_simps digit_def name_character_def) (simp_all add: literal_run_def chars_def)

lemma yylex_equal [simp]: "yylex (61 # xs) = (SQL_EQUAL_KW, [61], xs)"
  by (simp add: match_simps digit_def name_character_def) (simp add: literal_run_def chars_def)

definition quoted :: "byte \<Rightarrow> bytes \<Rightarrow> bytes" where
  "quoted q xs = q # xs @ [q]"

definition is_word :: "bytes \<Rightarrow> bool" where
  "is_word xs \<longleftrightarrow> xs \<noteq> [] \<and> list_all name_character xs"

lemma yylex_quoted:
  assumes "is_word xs"
  shows "yylex (quoted 34 xs @ rest) = (SQL_QUOTED_IDENTIFIER, quoted 34 xs, rest)"
proof -
  have "quoted_run 34 name_character (34 # xs @ 34 # rest) = length xs + 2"
    using assms by (intro quoted_run_hit) (simp_all add: is_word_def name_character_def digit_def)
  then show ?thesis
    by (simp add: quoted_def match_simps digit_def name_character_def)
qed

lemma yylex_string:
  assumes "xs \<noteq> []" and "39 \<notin> set xs"
  shows "yylex (quoted 39 xs @ rest) = (SQL_STRING_LITERAL, quoted 39 xs, rest)"
proof -
  have "quoted_run 39 (\<lambda>c. c \<noteq> 39) (39 # xs @ 39 # rest) = length xs + 2"
    using assms by (intro quoted_run_hit) (auto simp: list_all_iff)
  then show ?thesis
    by (simp add: quoted_def match_simps digit_def name_character_def)
qed

lemma digit_bounds: "digit c \<Longrightarrow> c \<noteq> 39 \<and> c \<noteq> 34 \<and> c \<noteq> 67 \<and> c \<noteq> 73 \<and> c \<noteq> 86 \<and> c \<noteq> 83 \<and> c \<noteq> 68 \<and> c \<noteq> 85 \<and>
    c \<noteq> 87 \<and> c \<noteq> 70 \<and> c \<noteq> 42 \<and> c \<noteq> 61 \<and> c \<noteq> 44 \<and> c \<noteq> 40 \<and> c \<noteq> 41 \<and> c \<noteq> 32 \<and> c \<noteq> 10 \<and> c \<noteq> 13"
  by (auto simp: digit_def)

lemma yylex_number:
  assumes "list_all digit xs" and "xs \<noteq> []" and "delimited rest"
  shows "yylex (xs @ rest) = (SQL_INT_LITERAL, xs, rest)"
proof -
  obtain c cs where xs: "xs = c # cs" using assms(2) by (cases xs) auto
  have "run_of digit (xs @ rest) = length xs" "run_of name_character (xs @ rest) = length xs"
    using assms by (auto intro!: run_of_delimited simp: list_all_iff name_character_def)
  then show ?thesis
    using assms(1) digit_bounds [of c] by (simp add: xs match_simps)
qed

lemma chars_simps: "chars [] = []" "chars (c # s) = of_char c # chars s"
  by (simp_all add: chars_def)

lemmas keyword_simps = match_simps chars_simps run_of_def digit_def name_character_def literal_run_def

lemma yylex_keywords:
  "yylex (chars ''INSERT INTO'' @ 32 # rest) = (SQL_INSERT_KW, chars ''INSERT INTO'', 32 # rest)"
  "yylex (chars ''VALUES'' @ 32 # rest) = (SQL_VALUES_KW, chars ''VALUES'', 32 # rest)"
  "yylex (chars ''UPDATE'' @ 32 # rest) = (SQL_UPDATE_KW, chars ''UPDATE'', 32 # rest)"
  "yylex (chars ''SET'' @ 32 # rest) = (SQL_SET_KW, chars ''SET'', 32 # rest)"
  by (simp_all add: keyword_simps)

declare yylex.simps(2) [simp del]

section \<open>Lists\<close>

text \<open>Items with a comma and a space between them.\<close>

fun commas :: "bytes list \<Rightarrow> bytes" where
  "commas [] = []"
| "commas [x] = x"
| "commas (x # y # ys) = x @ [44, 32] @ commas (y # ys)"

definition word_ok :: "bytes \<Rightarrow> bool" where
  "word_ok xs \<longleftrightarrow> is_word xs \<and> length xs < 2147483648"

lemma lex_next_eq: "lex_next lx = \<lparr>lx_scanner = snd (snd (yylex (lx_scanner lx))),
    lx_tok = fst (yylex (lx_scanner lx)), lx_text = fst (snd (yylex (lx_scanner lx)))\<rparr>"
  by (simp add: lex_next_def split: prod.splits)

lemma lex_string_text: "length (lx_text lx) < 4294967296 \<Longrightarrow> lex_string lx = Some (str (lx_text lx))"
  by (simp add: lex_string_def create_from unat_u32_of_nat)

lemma length_quoted [simp]: "length (quoted q xs) = length xs + 2"
  by (simp add: quoted_def)

text \<open>An array of five that is filled from the front.\<close>

lemma fill_5:
  assumes "length xs < 5"
  shows "arr_set (xs @ replicate (5 - length xs) z) (unat (of_nat (length xs) :: u32)) y =
    Some ((xs @ [y]) @ replicate (5 - length (xs @ [y])) z)"
proof -
  have "replicate (5 - length xs) z = z # replicate (5 - Suc (length xs)) z"
    using assms by (metis Suc_diff_Suc replicate_Suc)
  moreover have "unat (of_nat (length xs) :: u32) = length xs" using assms by (simp add: unat_u32_of_nat)
  ultimately show ?thesis by (simp add: arr_set_def)
qed

definition filled_columns :: "sql_parsed_insert \<Rightarrow> sql_string list \<Rightarrow> sql_parsed_insert" where
  "filled_columns ins xs =
     ins\<lparr>pi_columns := map Some xs @ replicate (5 - length xs) None, pi_ncolumns := of_nat (length xs)\<rparr>"

lemma fill_column:
  assumes "length xs < 5"
  shows "arr_set (pi_columns (filled_columns ins xs)) (unat (pi_ncolumns (filled_columns ins xs))) (Some y) =
      Some (pi_columns (filled_columns ins (xs @ [y])))"
    "filled_columns ins xs \<lparr>pi_columns := pi_columns (filled_columns ins (xs @ [y])), pi_ncolumns := pi_ncolumns (filled_columns ins xs) + 1\<rparr> =
      filled_columns ins (xs @ [y])"
  using fill_5 [of "map Some xs" None "Some y"] assms by (simp_all add: filled_columns_def)

lemma insert_columns_text:
  assumes "yylex (lx_scanner lx) = yylex (commas (map (quoted 34) cols) @ 41 # rest)"
    and "cols \<noteq> []" and "list_all word_ok cols" and "length xs + length cols \<le> 5"
  shows "insert_columns lx (filled_columns ins xs) =
    Some (Some (filled_columns ins (xs @ map (str \<circ> quoted 34) cols),
      \<lparr>lx_scanner = rest, lx_tok = SQL_CLOSE_PAREN, lx_text = [41]\<rparr>))"
  using assms
proof (induction cols arbitrary: lx xs)
  case (Cons c cols)
  have c: "is_word c" "length c < 2147483648" using Cons.prems(3) by (simp_all add: word_ok_def)
  have n: "length xs < 5" using Cons.prems(4) by simp
  define after where "after = (if cols = [] then 41 # rest else 44 # 32 # commas (map (quoted 34) cols) @ 41 # rest)"
  have "commas (map (quoted 34) (c # cols)) @ 41 # rest = quoted 34 c @ after"
    by (cases cols) (simp_all add: after_def)
  with Cons.prems(1) yylex_quoted [OF c(1), of after]
  have tok: "yylex (lx_scanner lx) = (SQL_QUOTED_IDENTIFIER, quoted 34 c, after)" by simp
  define lx1 where "lx1 = lex_next lx"
  have lx1: "lx1 = \<lparr>lx_scanner = after, lx_tok = SQL_QUOTED_IDENTIFIER, lx_text = quoted 34 c\<rparr>"
    by (simp add: lx1_def lex_next_eq tok)
  have s: "lex_string lx1 = Some (str (quoted 34 c))" using c(2) by (simp add: lx1 lex_string_text)
  show ?case
  proof (cases "cols = []")
    case True
    have "lex_next lx1 = \<lparr>lx_scanner = rest, lx_tok = SQL_CLOSE_PAREN, lx_text = [41]\<rparr>"
      by (simp add: lex_next_eq lx1 after_def True)
    then show ?thesis
      using s fill_column [OF n, of ins "str (quoted 34 c)"] True
      by (subst insert_columns.simps) (simp add: Let_def flip: lx1_def, simp add: lx1)
  next
    case False
    have lx2: "lex_next lx1 = \<lparr>lx_scanner = 32 # commas (map (quoted 34) cols) @ 41 # rest, lx_tok = SQL_COMMA, lx_text = [44]\<rparr>"
      by (simp add: lex_next_eq lx1 after_def False)
    have "insert_columns (lex_next lx1) (filled_columns ins (xs @ [str (quoted 34 c)])) =
        Some (Some (filled_columns ins ((xs @ [str (quoted 34 c)]) @ map (str \<circ> quoted 34) cols),
          \<lparr>lx_scanner = rest, lx_tok = SQL_CLOSE_PAREN, lx_text = [41]\<rparr>))"
      using Cons.prems(3,4) False by (intro Cons.IH) (simp_all add: lx2)
    then show ?thesis
      using s fill_column [OF n, of ins "str (quoted 34 c)"] lx2
      by (subst insert_columns.simps) (simp add: Let_def flip: lx1_def, simp add: lx1)
  qed
qed simp

text \<open>The same for the values, which are kept with their quotes.\<close>

datatype literal = Quoted bytes | Digits bytes

definition literal_ok :: "literal \<Rightarrow> bool" where
  "literal_ok l \<longleftrightarrow>
     (case l of
        Quoted xs \<Rightarrow> xs \<noteq> [] \<and> 39 \<notin> set xs \<and> length xs < 2147483648
      | Digits ds \<Rightarrow> ds \<noteq> [] \<and> list_all digit ds \<and> length ds < 2147483648)"

definition literal_text :: "literal \<Rightarrow> bytes" where
  "literal_text l = (case l of Quoted xs \<Rightarrow> quoted 39 xs | Digits ds \<Rightarrow> ds)"

definition literal_value :: "literal \<Rightarrow> sql_literal_str" where
  "literal_value l = \<lparr>lit_value = Some (str (literal_text l)),
     lit_type = (case l of Quoted _ \<Rightarrow> SQL_LITERALSTR_TYPE_STRING | Digits _ \<Rightarrow> SQL_LITERALSTR_TYPE_INT)\<rparr>"

lemma literal_token:
  assumes "literal_ok l" and "delimited rest"
  shows "\<exists>tok. yylex (literal_text l @ rest) = (tok, literal_text l, rest) \<and> is_literal tok \<and>
    lex_literal \<lparr>lx_scanner = rest, lx_tok = tok, lx_text = literal_text l\<rparr> = Some (literal_value l)"
proof (cases l)
  case (Quoted xs)
  then show ?thesis
    using assms(1) yylex_string [of xs rest]
    by (auto simp: literal_ok_def literal_text_def is_literal_def lex_literal_def literal_value_def
        get_data_type_from_sql_type_def lex_string_text)
next
  case (Digits ds)
  then show ?thesis
    using assms yylex_number [of ds rest]
    by (auto simp: literal_ok_def literal_text_def is_literal_def lex_literal_def literal_value_def
        get_data_type_from_sql_type_def lex_string_text)
qed

definition filled_values :: "sql_parsed_insert \<Rightarrow> sql_literal_str list \<Rightarrow> sql_parsed_insert" where
  "filled_values ins ls =
     ins\<lparr>pi_values := ls @ replicate (5 - length ls) zero_literal, pi_nvalues := of_nat (length ls)\<rparr>"

lemma fill_value:
  assumes "length ls < 5"
  shows "arr_set (pi_values (filled_values ins ls)) (unat (pi_nvalues (filled_values ins ls))) v =
      Some (pi_values (filled_values ins (ls @ [v])))"
    "filled_values ins ls \<lparr>pi_values := pi_values (filled_values ins (ls @ [v])), pi_nvalues := pi_nvalues (filled_values ins ls) + 1\<rparr> =
      filled_values ins (ls @ [v])"
  using fill_5 [of ls zero_literal v] assms by (simp_all add: filled_values_def)

lemma insert_values_text:
  assumes "yylex (lx_scanner lx) = yylex (commas (map literal_text vals) @ 41 # rest)"
    and "vals \<noteq> []" and "list_all literal_ok vals" and "length ls + length vals \<le> 4"
  shows "\<exists>lx'. insert_values lx (filled_values ins ls) =
    Some (Some (filled_values ins (ls @ map literal_value vals), lx')) \<and> lx_tok lx' = SQL_CLOSE_PAREN"
  using assms
proof (induction vals arbitrary: lx ls)
  case (Cons v vals)
  have n: "length ls < 5" "length ls < 4" using Cons.prems(4) by simp_all
  define after where "after = (if vals = [] then 41 # rest else 44 # 32 # commas (map literal_text vals) @ 41 # rest)"
  have after: "delimited after" by (simp add: after_def name_character_def digit_def)
  have "commas (map literal_text (v # vals)) @ 41 # rest = literal_text v @ after"
    by (cases vals) (simp_all add: after_def)
  moreover have "literal_ok v" using Cons.prems(3) by simp
  ultimately obtain tok where tok: "yylex (lx_scanner lx) = (tok, literal_text v, after)" "is_literal tok"
    "lex_literal \<lparr>lx_scanner = after, lx_tok = tok, lx_text = literal_text v\<rparr> = Some (literal_value v)"
    using Cons.prems(1) literal_token [OF _ after, of v] by auto
  define lx1 where "lx1 = lex_next lx"
  have lx1: "lx1 = \<lparr>lx_scanner = after, lx_tok = tok, lx_text = literal_text v\<rparr>"
    by (simp add: lx1_def lex_next_eq tok(1))
  have less: "pi_nvalues (filled_values ins ls) + 1 < 4" if "length ls + 1 < 4"
  proof -
    have "pi_nvalues (filled_values ins ls) + 1 = of_nat (length ls + 1)" by (simp add: filled_values_def)
    then show ?thesis using that by (simp only: word_less_nat_alt) (simp add: unat_u32_of_nat del: of_nat_Suc of_nat_add)
  qed
  show ?case
  proof (cases "vals = []")
    case True
    have "lx_tok (lex_next lx1) = SQL_CLOSE_PAREN" by (simp add: lex_next_eq lx1 after_def True)
    then show ?thesis
      using tok(2,3) fill_value [OF n(1), of ins "literal_value v"] True
      by (subst insert_values.simps) (simp add: Let_def flip: lx1_def, simp add: lx1)
  next
    case False
    have lx2: "lex_next lx1 = \<lparr>lx_scanner = 32 # commas (map literal_text vals) @ 41 # rest, lx_tok = SQL_COMMA, lx_text = [44]\<rparr>"
      by (simp add: lex_next_eq lx1 after_def False)
    have "0 < length vals" using False by blast
    then have "length ls + 1 < 4" using Cons.prems(4) by (simp del: length_greater_0_conv)
    note less = less [OF this]
    have "\<exists>lx'. insert_values (lex_next lx1) (filled_values ins (ls @ [literal_value v])) =
        Some (Some (filled_values ins ((ls @ [literal_value v]) @ map literal_value vals), lx')) \<and> lx_tok lx' = SQL_CLOSE_PAREN"
      using Cons.prems(3,4) False by (intro Cons.IH) (simp_all add: lx2)
    then show ?thesis
      using tok(2,3) fill_value [OF n(1), of ins "literal_value v"] lx2 less
      by (subst insert_values.simps) (simp add: Let_def flip: lx1_def, simp add: lx1)
  qed
qed simp

section \<open>Statements\<close>

definition insert_text :: "bytes \<Rightarrow> bytes list \<Rightarrow> literal list \<Rightarrow> bytes" where
  "insert_text t cols vals =
     chars ''INSERT INTO'' @ [32] @ quoted 34 t @ [32, 40] @ commas (map (quoted 34) cols) @ [41, 32] @
     chars ''VALUES'' @ [32, 40] @ commas (map literal_text vals) @ [41]"

text \<open>
  C38: the text of an INSERT statement with one to five columns and one to four values is parsed into
  the statement with these names and values; the quotes stay part of them.
\<close>

theorem parse_insert_text:
  assumes "word_ok t" and "cols \<noteq> []" and "list_all word_ok cols" and "length cols \<le> 5"
    and "vals \<noteq> []" and "list_all literal_ok vals" and "length vals \<le> 4" and "length (insert_text t cols vals) < 4294967296"
  shows "sql_parse_create (str (insert_text t cols vals)) = Some (SQL_PARSE_INSERT
    \<lparr>pi_table_name = Some (str (quoted 34 t)),
     pi_columns = map (Some \<circ> str \<circ> quoted 34) cols @ replicate (5 - length cols) None, pi_ncolumns = of_nat (length cols),
     pi_values = map literal_value vals @ replicate (5 - length vals) zero_literal, pi_nvalues = of_nat (length vals)\<rparr>)"
proof -
  define s6 where "s6 = commas (map literal_text vals) @ [41]"
  define s5 where "s5 = chars ''VALUES'' @ 32 # 40 # s6"
  define s4 where "s4 = commas (map (quoted 34) cols) @ 41 # 32 # s5"
  define s3 where "s3 = quoted 34 t @ 32 # 40 # s4"
  have whole: "insert_text t cols vals = chars ''INSERT INTO'' @ 32 # s3"
    by (simp add: insert_text_def s3_def s4_def s5_def s6_def)
  define lx0 where "lx0 = \<lparr>lx_scanner = 32 # s3, lx_tok = SQL_INSERT_KW, lx_text = chars ''INSERT INTO''\<rparr>"
  have start: "lex_next \<lparr>lx_scanner = insert_text t cols vals, lx_tok = SQL_CREATE_INVAL, lx_text = []\<rparr> = lx0"
    using yylex_keywords(1) [of s3] by (simp add: lex_next_eq whole lx0_def)
  have t: "is_word t" "length t < 2147483648" using assms(1) by (simp_all add: word_ok_def)
  define lx1 where "lx1 = \<lparr>lx_scanner = 32 # 40 # s4, lx_tok = SQL_QUOTED_IDENTIFIER, lx_text = quoted 34 t\<rparr>"
  have l1: "lex_next lx0 = lx1"
    using yylex_quoted [OF t(1), of "32 # 40 # s4"] by (simp add: lex_next_eq lx0_def s3_def lx1_def)
  have n1: "lex_string lx1 = Some (str (quoted 34 t))" using t(2) by (simp add: lx1_def lex_string_text)
  define lx2 where "lx2 = \<lparr>lx_scanner = s4, lx_tok = SQL_OPEN_PAREN, lx_text = [40]\<rparr>"
  have l2: "lex_next lx1 = lx2" by (simp add: lex_next_eq lx1_def lx2_def)
  define ins where "ins = zero_insert\<lparr>pi_table_name := Some (str (quoted 34 t))\<rparr>"
  have ins0: "filled_columns ins [] = ins" by (simp add: filled_columns_def ins_def zero_insert_def)
  define lx3 where "lx3 = \<lparr>lx_scanner = 32 # s5, lx_tok = SQL_CLOSE_PAREN, lx_text = [41]\<rparr>"
  define ins1 where "ins1 = filled_columns ins (map (str \<circ> quoted 34) cols)"
  have c: "insert_columns lx2 ins = Some (Some (ins1, lx3))"
    using insert_columns_text [of lx2 cols "32 # s5" "[]" ins] assms(2-4)
    by (simp add: ins0 ins1_def lx2_def s4_def lx3_def)
  define lx4 where "lx4 = \<lparr>lx_scanner = 32 # 40 # s6, lx_tok = SQL_VALUES_KW, lx_text = chars ''VALUES''\<rparr>"
  have l4: "lex_next lx3 = lx4"
    using yylex_keywords(2) [of "40 # s6"] by (simp add: lex_next_eq lx3_def s5_def lx4_def)
  define lx5 where "lx5 = \<lparr>lx_scanner = s6, lx_tok = SQL_OPEN_PAREN, lx_text = [40]\<rparr>"
  have l5: "lex_next lx4 = lx5" by (simp add: lex_next_eq lx4_def lx5_def)
  have ins2: "filled_values ins1 [] = ins1"
    by (simp add: filled_values_def ins1_def filled_columns_def ins_def zero_insert_def)
  obtain lx6 where v: "insert_values lx5 ins1 = Some (Some (filled_values ins1 (map literal_value vals), lx6))"
    "lx_tok lx6 = SQL_CLOSE_PAREN"
    using insert_values_text [of lx5 vals "[]" "[]" ins1] assms(5-7) by (auto simp: ins2 lx5_def s6_def)
  have toks: "lx_tok lx0 = SQL_INSERT_KW" "lx_tok lx1 = SQL_QUOTED_IDENTIFIER" "lx_tok lx2 = SQL_OPEN_PAREN"
    "lx_tok lx3 = SQL_CLOSE_PAREN" "lx_tok lx4 = SQL_VALUES_KW" "lx_tok lx5 = SQL_OPEN_PAREN"
    by (simp_all add: lx0_def lx1_def lx2_def lx3_def lx4_def lx5_def)
  have "parse_insert lx0 = Some (Some (filled_values ins1 (map literal_value vals)))"
    using toks l1 l2 l4 l5 n1 c v by (simp add: parse_insert_def expect_def Let_def flip: ins_def)
  then show ?thesis
    using start toks(1) assms(8)
    by (simp add: sql_parse_create_def sql_string_raw_def sql_string_len_def str_def mem_simps Let_def parsed_as_def
        unat_u32_of_nat) (simp add: filled_values_def ins1_def filled_columns_def ins_def zero_insert_def comp_def str_def)
qed

lemma parse_insert_text_witness:
  "sql_parse_create (str (chars ''INSERT INTO'' @ [32] @ quoted 34 [109] @ [32, 40] @ quoted 34 [97] @ [41, 32] @
      chars ''VALUES'' @ [32, 40, 55, 41])) =
    Some (SQL_PARSE_INSERT
      \<lparr>pi_table_name = Some (str [34, 109, 34]), pi_columns = Some (str [34, 97, 34]) # replicate 4 None, pi_ncolumns = 1,
       pi_values = \<lparr>lit_value = Some (str [55]), lit_type = SQL_LITERALSTR_TYPE_INT\<rparr> # replicate 4 zero_literal,
       pi_nvalues = 1\<rparr>)"
  using parse_insert_text [of "[109]" "[[97]]" "[Digits [55]]"]
  by (simp add: word_ok_def is_word_def name_character_def digit_def literal_ok_def insert_text_def literal_text_def
      quoted_def literal_value_def chars_def)

definition update_text :: "bytes \<Rightarrow> bytes \<Rightarrow> literal \<Rightarrow> bytes" where
  "update_text t c v = chars ''UPDATE'' @ [32] @ quoted 34 t @ [32] @ chars ''SET'' @ [32] @ quoted 34 c @ [32, 61, 32] @
     literal_text v"

text \<open>One assignment is read; what is behind it is left for the caller.\<close>

lemma parse_update_start:
  assumes "word_ok t" and "word_ok c" and "literal_ok v" and "delimited rest"
  defines "upd \<equiv> zero_update\<lparr>pu_table_name := Some (str (quoted 34 t)),
     pu_columns := Some (str (quoted 34 c)) # replicate 4 None, pu_ncolumns := 1,
     pu_values := literal_value v # replicate 4 zero_literal, pu_nvalues := 1\<rparr>"
  defines "lx0 \<equiv> lex_next \<lparr>lx_scanner = update_text t c v @ rest, lx_tok = SQL_CREATE_INVAL, lx_text = []\<rparr>"
  shows "lx_tok lx0 = SQL_UPDATE_KW \<and> (\<exists>lx. lx_scanner lx = rest \<and>
    parse_update lx0 = (let lx = lex_next lx in
      if lx_tok lx \<noteq> SQL_WHERE_KW then Some (Some upd)
      else do { w \<leftarrow> parse_where lx; Some (map_option (\<lambda>w. upd\<lparr>pu_where := w\<rparr>) w) }))"
proof -
  define s4 where "s4 = literal_text v @ rest"
  define s3 where "s3 = quoted 34 c @ 32 # 61 # 32 # s4"
  define s2 where "s2 = chars ''SET'' @ 32 # s3"
  define s1 where "s1 = quoted 34 t @ 32 # s2"
  have lx0: "lx0 = \<lparr>lx_scanner = 32 # s1, lx_tok = SQL_UPDATE_KW, lx_text = chars ''UPDATE''\<rparr>"
    using yylex_keywords(3) [of s1] by (simp add: lx0_def lex_next_eq update_text_def s1_def s2_def s3_def s4_def)
  have t: "is_word t" "length t < 2147483648" and c: "is_word c" "length c < 2147483648"
    using assms(1,2) by (simp_all add: word_ok_def)
  define lx1 where "lx1 = \<lparr>lx_scanner = 32 # s2, lx_tok = SQL_QUOTED_IDENTIFIER, lx_text = quoted 34 t\<rparr>"
  have l1: "lex_next lx0 = lx1" using yylex_quoted [OF t(1), of "32 # s2"] by (simp add: lex_next_eq lx0 s1_def lx1_def)
  have n1: "lex_string lx1 = Some (str (quoted 34 t))" using t(2) by (simp add: lx1_def lex_string_text)
  define lx2 where "lx2 = \<lparr>lx_scanner = 32 # s3, lx_tok = SQL_SET_KW, lx_text = chars ''SET''\<rparr>"
  have l2: "lex_next lx1 = lx2" using yylex_keywords(4) [of s3] by (simp add: lex_next_eq lx1_def s2_def lx2_def)
  define lx3 where "lx3 = \<lparr>lx_scanner = 32 # 61 # 32 # s4, lx_tok = SQL_QUOTED_IDENTIFIER, lx_text = quoted 34 c\<rparr>"
  have l3: "lex_next lx2 = lx3"
    using yylex_quoted [OF c(1), of "32 # 61 # 32 # s4"] by (simp add: lex_next_eq lx2_def s3_def lx3_def)
  have n3: "lex_string lx3 = Some (str (quoted 34 c))" using c(2) by (simp add: lx3_def lex_string_text)
  define lx4 where "lx4 = \<lparr>lx_scanner = 32 # s4, lx_tok = SQL_EQUAL_KW, lx_text = [61]\<rparr>"
  have l4: "lex_next lx3 = lx4" by (simp add: lex_next_eq lx3_def lx4_def)
  obtain tok where tok: "yylex s4 = (tok, literal_text v, rest)" "is_literal tok"
    "lex_literal \<lparr>lx_scanner = rest, lx_tok = tok, lx_text = literal_text v\<rparr> = Some (literal_value v)"
    using literal_token [OF assms(3,4)] by (auto simp: s4_def)
  define lx5 where "lx5 = \<lparr>lx_scanner = rest, lx_tok = tok, lx_text = literal_text v\<rparr>"
  have l5: "lex_next lx4 = lx5" by (simp add: lex_next_eq lx4_def lx5_def tok(1))
  have "update_columns lx2 (zero_update\<lparr>pu_table_name := Some (str (quoted 34 t))\<rparr>) = Some (Some (upd, lx5))"
    using tok(2,3) l3 l4 l5 n3
    by (subst update_columns.simps)
      (auto simp: upd_def zero_update_def arr_set_def is_name_def lx3_def lx4_def lx5_def is_literal_def
        numeral_eq_Suc)
  moreover have toks: "lx_tok lx0 = SQL_UPDATE_KW" "lx_tok lx1 = SQL_QUOTED_IDENTIFIER" "lx_tok lx2 = SQL_SET_KW"
    by (simp_all add: lx0 lx1_def lx2_def)
  ultimately have "parse_update lx0 = (let lx = lex_next lx5 in
      if lx_tok lx \<noteq> SQL_WHERE_KW then Some (Some upd)
      else do { w \<leftarrow> parse_where lx; Some (map_option (\<lambda>w. upd\<lparr>pu_where := w\<rparr>) w) })"
    using l1 l2 n1 by (simp add: parse_update_def expect_def Let_def)
  then show ?thesis using toks(1) by (intro conjI exI [of _ lx5]) (simp_all add: lx5_def)
qed

definition update_one :: "bytes \<Rightarrow> bytes \<Rightarrow> literal \<Rightarrow> sql_parsed_where_clause \<Rightarrow> sql_parsed_update" where
  "update_one t c v w = \<lparr>pu_table_name = Some (str (quoted 34 t)),
     pu_columns = Some (str (quoted 34 c)) # replicate 4 None, pu_ncolumns = 1,
     pu_values = literal_value v # replicate 4 zero_literal, pu_nvalues = 1, pu_where = w\<rparr>"

lemma sql_parse_str:
  assumes "length xs < 4294967296" and "lex_next \<lparr>lx_scanner = xs, lx_tok = SQL_CREATE_INVAL, lx_text = []\<rparr> = lx0"
    and "lx_tok lx0 = SQL_UPDATE_KW"
  shows "sql_parse_create (str xs) = parsed_as SQL_PARSE_UPDATE (parse_update lx0)"
  using assms by (simp add: sql_parse_create_def sql_string_raw_def sql_string_len_def str_def mem_simps Let_def unat_u32_of_nat)

text \<open>
  C39: an UPDATE of several columns keeps its first assignment only: whatever follows the comma, a
  WHERE clause or further columns or no SQL at all, the statement is parsed as the update of the
  first column in every row.
\<close>

theorem parse_update_drops_rest:
  assumes "word_ok t" and "word_ok c" and "literal_ok v" and "length (update_text t c v @ 44 # rest) < 4294967296"
  shows "sql_parse_create (str (update_text t c v @ 44 # rest)) = Some (SQL_PARSE_UPDATE (update_one t c v zero_where))"
proof -
  have "delimited (44 # rest)" by (simp add: name_character_def digit_def)
  note S = parse_update_start [OF assms(1-3) this]
  define lx0 where "lx0 = lex_next \<lparr>lx_scanner = update_text t c v @ 44 # rest, lx_tok = SQL_CREATE_INVAL, lx_text = []\<rparr>"
  have "lx_tok lx0 = SQL_UPDATE_KW" using S by (simp add: lx0_def)
  moreover have "parse_update lx0 = Some (Some (update_one t c v zero_where))"
    using S by (auto simp: lx0_def lex_next_eq Let_def update_one_def zero_update_def)
  ultimately show ?thesis
    using sql_parse_str [OF assms(4) lx0_def [symmetric]] by (simp add: parsed_as_def)
qed

lemma parse_update_drops_rest_witness:
  "sql_parse_create (str (update_text [116] [97] (Digits [49]) @ 44 # [32] @ quoted 34 [98] @ [32, 61, 32, 50, 32] @
      chars ''WHERE'' @ [32] @ quoted 34 [99] @ [32, 61, 32, 51])) =
    Some (SQL_PARSE_UPDATE (update_one [116] [97] (Digits [49]) zero_where))"
  by (rule parse_update_drops_rest) (simp_all add: word_ok_def is_word_def name_character_def digit_def literal_ok_def
      update_text_def literal_text_def quoted_def chars_def)

text \<open>With one assignment the WHERE clause is read.\<close>

lemma yylex_where: "yylex (32 # chars ''WHERE'' @ 32 # rest) = (SQL_WHERE_KW, chars ''WHERE'', 32 # rest)"
  unfolding yylex_space by (simp add: yylex.simps(2) keyword_simps)

lemma parse_where_text:
  assumes "lx_scanner lx = 32 # chars ''WHERE'' @ 32 # quoted 34 f @ 32 # 61 # 32 # literal_text x @ rest"
    and "word_ok f" and "literal_ok x" and "delimited rest"
  shows "lx_tok (lex_next lx) = SQL_WHERE_KW" and
    "parse_where (lex_next lx) = Some (Some \<lparr>pw_field = Some (str (quoted 34 f)), pw_value = literal_value x\<rparr>)"
proof -
  define s2 where "s2 = literal_text x @ rest"
  define s1 where "s1 = quoted 34 f @ 32 # 61 # 32 # s2"
  define lx1 where "lx1 = lex_next lx"
  have lx1: "lx1 = \<lparr>lx_scanner = 32 # s1, lx_tok = SQL_WHERE_KW, lx_text = chars ''WHERE''\<rparr>"
    using yylex_where [of s1] assms(1) by (simp add: lx1_def lex_next_eq s1_def s2_def del: yylex_space)
  then show "lx_tok (lex_next lx) = SQL_WHERE_KW" by (simp flip: lx1_def)
  have f: "is_word f" "length f < 2147483648" using assms(2) by (simp_all add: word_ok_def)
  define lx2 where "lx2 = \<lparr>lx_scanner = 32 # 61 # 32 # s2, lx_tok = SQL_QUOTED_IDENTIFIER, lx_text = quoted 34 f\<rparr>"
  have l2: "lex_next lx1 = lx2"
    using yylex_quoted [OF f(1), of "32 # 61 # 32 # s2"] by (simp add: lex_next_eq lx1 s1_def lx2_def)
  have n2: "lex_string lx2 = Some (str (quoted 34 f))" using f(2) by (simp add: lx2_def lex_string_text)
  define lx3 where "lx3 = \<lparr>lx_scanner = 32 # s2, lx_tok = SQL_EQUAL_KW, lx_text = [61]\<rparr>"
  have l3: "lex_next lx2 = lx3" by (simp add: lex_next_eq lx2_def lx3_def)
  obtain tok where tok: "yylex s2 = (tok, literal_text x, rest)" "is_literal tok"
    "lex_literal \<lparr>lx_scanner = rest, lx_tok = tok, lx_text = literal_text x\<rparr> = Some (literal_value x)"
    using literal_token [OF assms(3,4)] by (auto simp: s2_def)
  have l4: "lex_next lx3 = \<lparr>lx_scanner = rest, lx_tok = tok, lx_text = literal_text x\<rparr>"
    by (simp add: lex_next_eq lx3_def tok(1))
  have toks: "lx_tok lx1 = SQL_WHERE_KW" "is_name (lx_tok lx2)" "lx_tok lx3 = SQL_EQUAL_KW"
    by (simp_all add: lx1 lx2_def lx3_def is_name_def)
  show "parse_where (lex_next lx) = Some (Some \<lparr>pw_field = Some (str (quoted 34 f)), pw_value = literal_value x\<rparr>)"
    using toks l2 n2 l3 l4 tok(2,3) by (simp add: parse_where_def expect_def Let_def flip: lx1_def)
qed

text \<open>
  The text of an UPDATE of one column with a WHERE clause is parsed into the statement with this
  column, this value and this condition.
\<close>

lemma parse_update_text:
  assumes "word_ok t" and "word_ok c" and "literal_ok v" and "word_ok f" and "literal_ok x"
  defines "sql \<equiv> update_text t c v @ [32] @ chars ''WHERE'' @ [32] @ quoted 34 f @ [32, 61, 32] @ literal_text x"
  assumes "length sql < 4294967296"
  shows "sql_parse_create (str sql) = Some (SQL_PARSE_UPDATE
    (update_one t c v \<lparr>pw_field = Some (str (quoted 34 f)), pw_value = literal_value x\<rparr>))"
proof -
  define behind where "behind = 32 # chars ''WHERE'' @ 32 # quoted 34 f @ 32 # 61 # 32 # literal_text x"
  have sql: "sql = update_text t c v @ behind" by (simp add: sql_def behind_def)
  have "delimited behind" by (simp add: behind_def name_character_def digit_def)
  note S = parse_update_start [OF assms(1-3) this, folded sql]
  define lx0 where "lx0 = lex_next \<lparr>lx_scanner = sql, lx_tok = SQL_CREATE_INVAL, lx_text = []\<rparr>"
  have W: "lx_tok (lex_next lx) = SQL_WHERE_KW \<and>
      parse_where (lex_next lx) = Some (Some \<lparr>pw_field = Some (str (quoted 34 f)), pw_value = literal_value x\<rparr>)"
    if "lx_scanner lx = behind" for lx
    using parse_where_text [of lx f x "[]"] that assms(4,5) by (simp add: behind_def)
  have "lx_tok lx0 = SQL_UPDATE_KW" using S by (simp add: lx0_def)
  moreover have "parse_update lx0 =
      Some (Some (update_one t c v \<lparr>pw_field = Some (str (quoted 34 f)), pw_value = literal_value x\<rparr>))"
    using S W by (auto simp: lx0_def Let_def update_one_def zero_update_def)
  ultimately show ?thesis
    using sql_parse_str [OF assms(7) lx0_def [symmetric]] by (simp add: parsed_as_def)
qed

end
