(* ===== verification/SqlParseTotal.thy ===== *)
theory SqlParseTotal
  imports SqlParse SqlParseProps
begin

text \<open>
  The parser has an outcome for every text with at most four commas: every loop takes a token a round,
  and with so few commas no array of five is overrun.
\<close>

section \<open>What a token takes\<close>

definition ncommas :: "bytes \<Rightarrow> nat" where
  "ncommas xs = length (filter (\<lambda>c. c = 44) xs)"

lemma ncommas_simps [simp]:
  "ncommas [] = 0" "ncommas (c # cs) = (if c = 44 then 1 else 0) + ncommas cs" "ncommas (xs @ ys) = ncommas xs + ncommas ys"
  by (simp_all add: ncommas_def)

lemma ncommas_drop: "ncommas (drop n xs) \<le> ncommas xs"
  by (metis append_take_drop_id le_add2 ncommas_simps(3))

lemma longest_match_rule:
  "longest_match rules xs = (Some tok, n) \<Longrightarrow> \<exists>rule. (Some tok, rule) \<in> set rules \<and> rule xs = n \<and> 0 < n"
  by (induction rules xs arbitrary: n rule: longest_match.induct) (fastforce simp: Let_def split: prod.splits if_splits)+

lemma comma_match: "longest_match lex_rules (x # xs) = (Some SQL_COMMA, n) \<Longrightarrow> x = 44 \<and> 0 < n"
  using longest_match_rule [of lex_rules "x # xs" SQL_COMMA n]
  by (auto simp: lex_rules_def literal_run_def chars_def split: if_splits)

lemma yylex_takes:
  "yylex xs = (tok, t, rest) \<Longrightarrow> length t + length rest \<le> length xs \<and>
     ncommas rest + (if tok = SQL_COMMA then 1 else 0) \<le> ncommas xs"
proof (induction xs arbitrary: tok t rest rule: yylex.induct)
  case (2 x xs)
  obtain best n where m: "longest_match lex_rules (x # xs) = (best, n)" by fastforce
  show ?case
  proof (cases best)
    case None
    then have "yylex (drop (n - 1) xs) = (tok, t, rest)" using 2(2) m by (simp add: yylex.simps(2))
    from "2.IH" [OF m [symmetric, unfolded None] refl this] ncommas_drop [of "n - 1" xs] show ?thesis
      by (auto split: if_splits)
  next
    case (Some b)
    then have r: "tok = b" "t = take n (x # xs)" "rest = drop n (x # xs)" using 2(2) m by (simp_all add: yylex.simps(2))
    show ?thesis
    proof (cases "b = SQL_COMMA")
      case True
      then have "x = 44" "0 < n" using comma_match m Some by simp_all
      then show ?thesis using r True ncommas_drop [of "n - 1" xs] by (cases n) auto
    next
      case False
      then show ?thesis using r ncommas_drop [of n "x # xs"] by simp
    qed
  qed
qed simp

text \<open>A lexer whose text and input are short, with at most \<open>k\<close> commas to come.\<close>

definition commas_left :: "nat \<Rightarrow> lexer \<Rightarrow> bool" where
  "commas_left k lx \<longleftrightarrow> length (lx_text lx) + length (lx_scanner lx) < 4294967296 \<and> ncommas (lx_scanner lx) \<le> k"

lemma commas_left_next: "commas_left k lx \<Longrightarrow> commas_left k (lex_next lx)"
  by (cases "yylex (lx_scanner lx)") (auto simp: commas_left_def lex_next_eq split: if_splits dest!: yylex_takes)

lemma commas_left_comma: "commas_left k lx \<Longrightarrow> lx_tok (lex_next lx) = SQL_COMMA \<Longrightarrow> \<exists>j. k = Suc j \<and> commas_left j (lex_next lx)"
  by (cases k; cases "yylex (lx_scanner lx)") (auto simp: commas_left_def lex_next_eq dest!: yylex_takes)

lemma commas_left_string: "commas_left k lx \<Longrightarrow> \<exists>s. lex_string lx = Some s"
  using lex_string_text [of lx] by (auto simp: commas_left_def)

lemma commas_left_literal: "commas_left k lx \<Longrightarrow> \<exists>v. lex_literal lx = Some v"
  using commas_left_string [of k lx] by (auto simp: lex_literal_def)

text \<open>An array of five with \<open>n\<close> entries that may take \<open>k\<close> more behind the next.\<close>

definition room :: "'a list \<Rightarrow> u32 \<Rightarrow> nat \<Rightarrow> bool" where
  "room xs n k \<longleftrightarrow> length xs = 5 \<and> unat n + k < 5"

lemma room_set: "room xs n k \<Longrightarrow> \<exists>ys. arr_set xs (unat n) y = Some ys \<and> length ys = 5"
  by (auto simp: room_def arr_set_def)

lemma room_more: "room xs n (Suc k) \<Longrightarrow> length ys = 5 \<Longrightarrow> room ys (n + 1) k"
  using unat_add_ok [of n 1] by (simp add: room_def)

lemma room_small: "length xs = 5 \<Longrightarrow> n < 4 \<Longrightarrow> room xs n 0"
  by (simp add: room_def word_less_nat_alt)

section \<open>The loops\<close>

definition outcome :: "('a \<Rightarrow> bool) \<Rightarrow> 'a option option \<Rightarrow> bool" where
  "outcome P r \<longleftrightarrow> (\<exists>y. r = Some y \<and> (\<forall>x. y = Some x \<longrightarrow> P x))"

lemma outcome_simps [simp]: "outcome P (Some None)" "outcome P (Some (Some x)) \<longleftrightarrow> P x" "\<not> outcome P None"
  by (simp_all add: outcome_def)

lemma outcome_mono: "outcome P r \<Longrightarrow> (\<And>x. P x \<Longrightarrow> Q x) \<Longrightarrow> outcome Q r"
  by (auto simp: outcome_def)

lemma outcome_bind:
  assumes "outcome P r" and "f None = Some None" and "\<And>x. P x \<Longrightarrow> outcome Q (f (Some x))"
  shows "outcome Q (r \<bind> f)"
proof -
  obtain y where y: "r = Some y" "\<forall>x. y = Some x \<longrightarrow> P x" using assms(1) by (auto simp: outcome_def)
  then show ?thesis using assms(2,3) by (cases y) simp_all
qed

lemma outcome_expect: "commas_left k lx \<Longrightarrow> (\<And>lx. commas_left k lx \<Longrightarrow> outcome P (f lx)) \<Longrightarrow> outcome P (expect lx tok f)"
  using commas_left_next by (auto simp: expect_def Let_def)

lemma insert_columns_outcome:
  "commas_left k lx \<Longrightarrow> room (pi_columns ins) (pi_ncolumns ins) k \<Longrightarrow>
   outcome (\<lambda>(ins', lx'). commas_left k lx' \<and> pi_values ins' = pi_values ins \<and> pi_nvalues ins' = pi_nvalues ins)
     (insert_columns lx ins)"
proof (induction lx ins arbitrary: k rule: insert_columns.induct)
  case (1 lx ins)
  define lex1 where "lex1 = lex_next lx"
  define lex2 where "lex2 = lex_next lex1"
  have l: "commas_left k lex1" "commas_left k lex2" using commas_left_next "1.prems"(1) by (simp_all add: lex1_def lex2_def)
  obtain s where s: "lex_string lex1 = Some s" using commas_left_string l(1) by blast
  obtain cs where cs: "arr_set (pi_columns ins) (unat (pi_ncolumns ins)) (Some s) = Some cs" "length cs = 5"
    using room_set [OF "1.prems"(2)] by blast
  have "outcome (\<lambda>(ins', lx'). commas_left k lx' \<and> pi_values ins' = pi_values ins \<and> pi_nvalues ins' = pi_nvalues ins)
      (insert_columns lex2 (ins\<lparr>pi_columns := cs, pi_ncolumns := pi_ncolumns ins + 1\<rparr>))"
    if tok: "lx_tok lex1 = SQL_QUOTED_IDENTIFIER" and comma: "lx_tok lex2 = SQL_COMMA"
  proof -
    obtain j where j: "k = Suc j" "commas_left j lex2" using commas_left_comma l(1) comma by (auto simp: lex2_def)
    have "room cs (pi_ncolumns ins + 1) j" using room_more "1.prems"(2) cs(2) j(1) by blast
    then have "outcome (\<lambda>(ins', lx'). commas_left j lx' \<and> pi_values ins' = pi_values ins \<and> pi_nvalues ins' = pi_nvalues ins)
      (insert_columns lex2 (ins\<lparr>pi_columns := cs, pi_ncolumns := pi_ncolumns ins + 1\<rparr>))"
      using "1.IH" [of lex1 s cs _ lex2 j] tok comma cs(1) s j(2) by (simp add: lex1_def lex2_def)
    then show ?thesis by (rule outcome_mono) (auto simp: j(1) commas_left_def)
  qed
  then show ?case
    using s cs l by (subst insert_columns.simps) (auto simp: Let_def simp flip: lex1_def lex2_def)
qed

lemma insert_values_outcome:
  "commas_left k lx \<Longrightarrow> room (pi_values ins) (pi_nvalues ins) 0 \<Longrightarrow> outcome (\<lambda>_. True) (insert_values lx ins)"
proof (induction lx ins rule: insert_values.induct)
  case (1 lx ins)
  define lex1 where "lex1 = lex_next lx"
  define lex2 where "lex2 = lex_next lex1"
  have l: "commas_left k lex1" "commas_left k lex2" using commas_left_next "1.prems"(1) by (simp_all add: lex1_def lex2_def)
  obtain v where v: "lex_literal lex1 = Some v" using commas_left_literal l(1) by blast
  obtain vs where vs: "arr_set (pi_values ins) (unat (pi_nvalues ins)) v = Some vs" "length vs = 5"
    using room_set [OF "1.prems"(2)] by blast
  show ?case
    using v vs l "1.IH" [of lex1 v vs _ lex2] room_small [OF vs(2), of "pi_nvalues ins + 1"]
    by (subst insert_values.simps) (auto simp: Let_def lex1_def lex2_def)
qed

lemma create_columns_outcome:
  "commas_left k lx \<Longrightarrow> room (pt_columns ct) (pt_ncolumns ct) 0 \<Longrightarrow> outcome (\<lambda>_. True) (create_columns lx ct)"
proof (induction lx ct rule: create_columns.induct)
  case (1 lx ct)
  define lex1 where "lex1 = lex_next lx"
  define lex2 where "lex2 = lex_next lex1"
  define lex3 where "lex3 = lex_next lex2"
  have l: "commas_left k lex1" "commas_left k lex2" "commas_left k lex3"
    using commas_left_next "1.prems"(1) by (simp_all add: lex1_def lex2_def lex3_def)
  obtain s where s: "lex_string lex1 = Some s" using commas_left_string l(1) by blast
  let ?col = "\<lparr>pc_name = Some s, pc_type = get_data_type (lx_text lex2), pc_is_primary_key = False\<rparr>"
  obtain cs where cs: "arr_set (pt_columns ct) (unat (pt_ncolumns ct)) ?col = Some cs" "length cs = 5"
    using room_set [OF "1.prems"(2)] by blast
  show ?case
    using s cs l "1.IH" [of lex1 s lex2 _ cs _ lex3] room_small [OF cs(2), of "pt_ncolumns ct + 1"]
    by (subst create_columns.simps) (auto simp: Let_def lex1_def lex2_def lex3_def)
qed

lemma select_fields_outcome:
  "commas_left k lx \<Longrightarrow> room (ps_fields sel) (ps_nfields sel) k \<Longrightarrow>
   outcome (\<lambda>(sel', lx'). commas_left k lx') (select_fields lx sel)"
proof (induction lx sel arbitrary: k rule: select_fields.induct)
  case (1 lx sel)
  define lex1 where "lex1 = lex_next lx"
  define lex2 where "lex2 = lex_next lex1"
  have l: "commas_left k lex1" "commas_left k lex2" using commas_left_next "1.prems"(1) by (simp_all add: lex1_def lex2_def)
  obtain s where s: "lex_string lex1 = Some s" using commas_left_string l(1) by blast
  obtain cs where cs: "arr_set (ps_fields sel) (unat (ps_nfields sel)) (Some s) = Some cs" "length cs = 5"
    using room_set [OF "1.prems"(2)] by blast
  have "outcome (\<lambda>(sel', lx'). commas_left k lx') (select_fields lex2 (sel\<lparr>ps_fields := cs, ps_nfields := ps_nfields sel + 1\<rparr>))"
    if tok: "is_name (lx_tok lex1) \<or> lx_tok lex1 = SQL_STAR_KW" and comma: "lx_tok lex2 = SQL_COMMA"
  proof -
    obtain j where j: "k = Suc j" "commas_left j lex2" using commas_left_comma l(1) comma by (auto simp: lex2_def)
    have "room cs (ps_nfields sel + 1) j" using room_more "1.prems"(2) cs(2) j(1) by blast
    then have "outcome (\<lambda>(sel', lx'). commas_left j lx') (select_fields lex2 (sel\<lparr>ps_fields := cs, ps_nfields := ps_nfields sel + 1\<rparr>))"
      using "1.IH" [of lex1 s cs _ lex2 j] tok comma cs(1) s j(2) by (auto simp: lex1_def lex2_def)
    then show ?thesis by (rule outcome_mono) (auto simp: j(1) commas_left_def)
  qed
  then show ?case
    using s cs l by (subst select_fields.simps) (auto simp: Let_def simp flip: lex1_def lex2_def)
qed

lemma update_columns_outcome:
  assumes "commas_left k lx" and "room (pu_columns upd) (pu_ncolumns upd) 0" and "room (pu_values upd) (pu_nvalues upd) 0"
  shows "outcome (\<lambda>(upd', lx'). commas_left k lx') (update_columns lx upd)"
proof -
  define lex1 where "lex1 = lex_next lx"
  define lex2 where "lex2 = lex_next lex1"
  define lex3 where "lex3 = lex_next lex2"
  have l: "commas_left k lex1" "commas_left k lex2" "commas_left k lex3"
    using commas_left_next assms(1) by (simp_all add: lex1_def lex2_def lex3_def)
  obtain s v where s: "lex_string lex1 = Some s" "lex_literal lex3 = Some v"
    using commas_left_string commas_left_literal l by blast
  obtain cs vs where cs: "arr_set (pu_columns upd) (unat (pu_ncolumns upd)) (Some s) = Some cs"
    "arr_set (pu_values upd) (unat (pu_nvalues upd)) v = Some vs"
    using room_set [OF assms(2)] room_set [OF assms(3)] by blast
  show ?thesis
    using s cs l by (subst update_columns.simps)
      (auto simp: Let_def is_literal_def simp flip: lex1_def lex2_def lex3_def)
qed

section \<open>The statements\<close>

lemma parse_where_outcome: "commas_left k lx \<Longrightarrow> outcome (\<lambda>_. True) (parse_where lx)"
  using commas_left_string [of k "lex_next lx"] commas_left_literal [of k "lex_next (lex_next (lex_next lx))"]
    commas_left_next [of k]
  by (auto simp: parse_where_def Let_def expect_def)

lemma where_outcome: "commas_left k lx \<Longrightarrow> outcome (\<lambda>_. True) (do { w \<leftarrow> parse_where lx; Some (map_option f w) })"
  by (rule outcome_bind [OF parse_where_outcome]) auto

lemma string_bind: "commas_left k lx \<Longrightarrow> (\<And>s. outcome P (f s)) \<Longrightarrow> outcome P (lex_string lx \<bind> f)"
  using commas_left_string [of k lx] by auto

lemma parse_insert_outcome: "commas_left 4 lx \<Longrightarrow> outcome (\<lambda>_. True) (parse_insert lx)"
  unfolding parse_insert_def
  apply (cases "lx_tok lx \<noteq> SQL_INSERT_KW")
   apply simp
  apply (simp only: if_False simp_thms)
  apply (rule outcome_expect, assumption)
  apply (rule string_bind, assumption)
  apply (rule outcome_expect, assumption)
  apply (rule outcome_bind [OF insert_columns_outcome], assumption)
    apply (simp add: room_def zero_insert_def)
   apply simp
  apply (clarsimp)
  apply (rule outcome_expect, assumption)
  apply (rule outcome_expect, assumption)
  apply (rule outcome_bind [OF insert_values_outcome], assumption)
    apply (simp_all add: room_def zero_insert_def split: prod.splits)
  done

lemma parse_create_table_outcome: "commas_left 4 lx \<Longrightarrow> outcome (\<lambda>_. True) (parse_create_table lx)"
  unfolding parse_create_table_def Let_def
  apply (split if_split, intro conjI impI)
   apply simp
  apply (rule string_bind, erule commas_left_next)
  apply (rule outcome_expect, erule commas_left_next)
  apply (rule outcome_bind [OF create_columns_outcome], assumption)
    apply (simp_all add: room_def zero_create_table_def split: prod.splits)
  done

lemma parse_select_outcome: "commas_left 4 lx \<Longrightarrow> outcome (\<lambda>_. True) (parse_select lx)"
  unfolding parse_select_def Let_def
  apply (split if_split, intro conjI impI)
   apply simp
  apply (rule outcome_bind [OF select_fields_outcome], assumption)
    apply (simp add: room_def zero_select_def)
   apply simp
  apply clarsimp
  apply (rule outcome_expect, assumption)
  apply (rule string_bind, assumption)
  apply (auto intro: where_outcome commas_left_next)
  done

lemma parse_update_outcome: "commas_left 4 lx \<Longrightarrow> outcome (\<lambda>_. True) (parse_update lx)"
  unfolding parse_update_def Let_def
  apply (split if_split, intro conjI impI)
   apply simp
  apply (rule outcome_expect, assumption)
  apply (rule string_bind, assumption)
  apply (rule outcome_expect, assumption)
  apply (rule outcome_bind [OF update_columns_outcome], assumption)
     apply (simp_all add: room_def zero_update_def split: prod.splits)
  apply (auto intro: where_outcome commas_left_next)
  done

lemma parse_delete_outcome: "commas_left 4 lx \<Longrightarrow> outcome (\<lambda>_. True) (parse_delete lx)"
  unfolding parse_delete_def Let_def
  apply (split if_split, intro conjI impI)
   apply simp
  apply (rule outcome_expect, assumption)
  apply (rule string_bind, assumption)
  apply (auto intro: where_outcome commas_left_next)
  done

lemma parsed_as_outcome: "outcome P r \<Longrightarrow> \<exists>stmt. parsed_as c r = Some stmt"
  by (auto simp: parsed_as_def outcome_def)

text \<open>
  C40: the parser has an outcome, a statement or an invalid one, for every text with at most four
  commas, whatever its bytes are.
\<close>

theorem sql_parse_create_total:
  assumes "length xs < 4294967296" and "ncommas xs \<le> 4"
  shows "\<exists>stmt. sql_parse_create (str xs) = Some stmt"
proof -
  define lx where "lx = lex_next \<lparr>lx_scanner = xs, lx_tok = SQL_CREATE_INVAL, lx_text = []\<rparr>"
  have "commas_left 4 lx" using assms unfolding lx_def by (intro commas_left_next) (simp add: commas_left_def)
  note outcomes = parse_insert_outcome [OF this] parse_create_table_outcome [OF this] parse_select_outcome [OF this]
    parse_update_outcome [OF this] parse_delete_outcome [OF this]
  show ?thesis
    using outcomes [THEN parsed_as_outcome] assms(1)
    by (cases "lx_tok lx")
      (simp_all add: sql_parse_create_def sql_string_raw_def sql_string_len_def str_def mem_simps Let_def unat_u32_of_nat
        flip: lx_def)
qed

text \<open>The bound is exact: a SELECT of six fields writes behind the array of five.\<close>

lemma sql_parse_create_total_witness:
  "(\<exists>stmt. sql_parse_create (str (chars ''SELECT a,b,c,d,e FROM'')) = Some stmt) \<and>
    sql_parse_create (str (chars ''SELECT a,b,c,d,e,f FROM'')) = None"
proof
  show "\<exists>stmt. sql_parse_create (str (chars ''SELECT a,b,c,d,e FROM'')) = Some stmt"
    by (rule sql_parse_create_total) (simp_all add: chars_def)
  show "sql_parse_create (str (chars ''SELECT a,b,c,d,e,f FROM'')) = None" by code_simp
qed

end
