(* ===== verification/Spec2Isabelle.thy ===== *)
theory Spec2Isabelle
  imports SplitDemo SchemaColumns SqlInterpret SqlCatalogProps SqlParseTotal
begin

text \<open>
  A verification development for btreedb, a database file of B-trees written in C (\<open>src/src\<close>).

  \<^bold>\<open>The program.\<close>  A file is an array of pages of one size.  A page starts with twelve bytes of
  metadata (in use or free, the next free page, its number).  The pager reads and writes whole pages
  through a cache of bounded size, hands out page numbers, and keeps freed pages in a list that
  starts on page 1.  A B-tree node lives on one page: a header of twenty bytes, an array of keys
  that grows to the right, and a heap of cells that grows to the left from the end of the page.  A
  payload too large for a node continues on a chain of overflow pages.  There are two kinds of
  tree: table trees with 32-bit keys, and index trees that compare payloads, by bytes or by a
  schema of columns.  A cursor is a path of at most eight breadcrumbs from the root.  On top are
  operations (select, update, scan) and a small SQL engine.

  \<^bold>\<open>The model.\<close>  Code that returns is \<open>Some\<close>; a failed \<open>assert\<close>, an access outside a buffer and a loop
  that does not end are \<open>None\<close>; error codes are ordinary results.  \<open>unsigned int\<close> is \<open>32 word\<close>, so
  arithmetic wraps, and a comparison the code makes on \<open>int\<close> is a signed one here.  Functions that
  change a structure return it changed, in the order of the C parameters.  The pager is the state
  passed through every operation that touches pages.  A pointer that is read through is the list of
  bytes behind it; a pointer into a page that is written through is an offset.  Allocation and
  release of memory are left out.

  \<^bold>\<open>Theories and code.\<close>
  \<^item> \<open>Prelude\<close>, \<open>Serialization\<close>: outcomes, C arrays and memory, little-endian words
    (\<open>serialization.c\<close>).
  \<^item> \<open>Page\<close>, \<open>PageCache\<close>, \<open>PagerOps\<close>, \<open>Pager\<close>: \<open>page.c\<close>, \<open>pagemeta.c\<close>, \<open>page_cache.c\<close>,
    \<open>pager_ops_cstd.c\<close>, \<open>pager_internal.c\<close>, \<open>pager_freelist.c\<close>, \<open>pager.c\<close>.  \<open>PagerSpec\<close> states what a
    block device promises (locale, interpreted on the C stdio operations), the invariant of
    the pager (cache and disk agree) and the effect of every operation on the map from page numbers
    to pages; \<open>PagerProps\<close> draws the theorems.
  \<^item> \<open>BinarySearch\<close>: the contract of a binary search over probes (locale), interpreted by the page
    cache and by both searches in a node.
  \<^item> \<open>BufferWriter\<close>, \<open>BTreeDefs\<close>, \<open>Cell\<close>, \<open>Overflow\<close>, \<open>Node\<close>, \<open>NodeSearch\<close>, \<open>NodeIO\<close>: the node and
    its cells (\<open>btree_defs.h\<close>, \<open>btree_cell.c\<close>, \<open>btree_overflow.c\<close>, \<open>btree_node.c\<close>,
    \<open>btree_utils.c\<close>, \<open>btree_node_writer.c\<close>, \<open>btree_node_reader.c\<close>, \<open>noderc.c\<close>).  \<open>NodeSpec\<close>,
    \<open>NodeRemove\<close>, \<open>NodeProps\<close>, \<open>NodeTheorems\<close>: a node as the list of its entries, and insertion and
    removal as list operations, and what removal does when the heap is out of order; \<open>SearchProps\<close>, \<open>NodeLookup\<close>: searching and reading a node.
  \<^item> \<open>Cursor\<close>, \<open>BTreeAlg\<close>, \<open>BTree\<close>, \<open>IBTreeAlg\<close>, \<open>IBTree\<close>, \<open>BTreeOps\<close>: \<open>btree_cursor.c\<close>,
    \<open>btree_alg.c\<close>, \<open>btree.c\<close>, \<open>ibtree_alg.c\<close>, \<open>ibtree.c\<close>, \<open>btree_op_*.c\<close>.  \<open>CursorProps\<close>: the stack of
    breadcrumbs.  \<open>LeafTree\<close>, \<open>LeafInsert\<close>, \<open>LeafStore\<close>, \<open>LeafDemo\<close>: a tree whose root is a leaf is a
    key-value store on disk.  \<open>TreeSelect\<close>, \<open>TreePath\<close>, \<open>TreePut\<close>, \<open>TreeIter\<close>, \<open>TreeScan\<close>: table trees of any
    height as trees of nodes, whose content is the list of the entries of their leaves; selecting a key,
    replacing the subtrees on the path of a descent, inserting a key where the leaf has room, and scanning;
    \<open>TreeDelete\<close>: deleting a key that the leaves do not hold.  \<open>NodeSplit\<close>, \<open>FreshNode\<close>, \<open>SplitSteps\<close>,
    \<open>RootSplit\<close>, \<open>RootInsert\<close>, \<open>TreeInsert\<close>, \<open>SplitDemo\<close>: moving cells between nodes, splitting a node,
    nodes on new pages, and the insertion that splits a full root leaf.  \<open>LeafSplit\<close>, \<open>ParentSplit\<close>,
    \<open>DeepInsert\<close>, \<open>TreeGrow\<close>: the insertion that splits a full leaf below the root and enters the new page
    in its parent.
  \<^item> \<open>SchemaCmp\<close>: comparing records by a schema (\<open>ibtree_layout_schema_cmp.c\<close>); \<open>SchemaProps\<close>: for one
    column this is the lexicographic order over any windows, with the exceptions the code has; \<open>SchemaColumns\<close>: what two
    and three columns are compared as.
  \<^item> \<open>OverflowChain\<close>, \<open>ChainWrite\<close>, \<open>OverflowWrite\<close>, \<open>OverflowDemo\<close>: chains of overflow pages as the
    list of their slices.  Comparing a cell follows its chain; writing a large payload makes a chain
    that reading gives back.
  \<^item> \<open>SqlValue\<close>, \<open>SqlRecord\<close>: strings, literals, values (\<open>sql_string.c\<close>, \<open>sql_value.c\<close>), tables and
    records and their bytes in a tree (\<open>sql_table.c\<close>, \<open>sql_record.c\<close>, \<open>sql_ibtree.c\<close>);
    \<open>SqlRecordProps\<close>: a record is read back by the columns of its table.
  \<^item> \<open>SqlLexer\<close>, \<open>SqlParse\<close>: the rules of the scanner (\<open>sql_lexer.lex\<close>), the parser and what is made
    of a statement (\<open>sql_parse@flex.c\<close>, \<open>sql_parsegen.c\<close>).  \<open>SqlParseProps\<close>: the text of a statement
    is parsed into it, where the code does so; \<open>SqlParseTotal\<close>: for which texts the parser returns.
  \<^item> \<open>SqlCatalog\<close>, \<open>SqlInterpret\<close>: the table of tables, the counters of row ids, creating a table
    (\<open>sqldb.c\<close>, \<open>sqldb_table_tbl.c\<close>, \<open>sqldb_seq_tbl.c\<close>, \<open>btree_factory.c\<close>), the scan of a table and
    the five statements (\<open>sqldb_scan.c\<close>, \<open>sqldb_interpret.c\<close>); \<open>SqlCatalogProps\<close>: the definition of a
    table is read back.

  \<^bold>\<open>Loops.\<close>  Loops over arrays and binary searches are \<open>function\<close>s with a measure.  Loops that walk
  pages (a chain, a descent) may run for ever on a damaged file and are \<open>partial_function\<close>s; where a
  theorem says what such a loop returns it says that it returns.

  \<^bold>\<open>Not modelled.\<close>  The scanner that flex generates (its rules are), functions that print or that only
  release memory, the terminal, the tests and the entry points.  \<open>sqldb_load_table\<close> is a stub in the
  code.  Splitting a full inner node, deleting a key that is there, rebalancing and the index trees are defined, but
  no theorem relates them to the content of the tree.
\<close>

end
